(* ===== verification/Prelude.thy ===== *)
theory Prelude
  imports Complex_Main "HOL-Library.Multiset" "HOL-Library.List_Lexorder" "HOL-Library.Char_ord"
begin

text \<open>
  Shared vocabulary of the development: the error type of the services, the error-or-result
  combinators in which the operations are written, tables as lists of rows with their select and
  update operations, the Python string functions the code uses (on ASCII text), exact decimals
  and calendar instants, the lemma collections, and the two generic interfaces that several
  components share (keyed tables and step invariants).
\<close>

section \<open>Lemma collections\<close>

named_theorems res_simps \<open>equations of the error-or-result combinators\<close>
named_theorems table_simps \<open>equations of table select and update\<close>
named_theorems py_simps \<open>definitions of Python primitives, for evaluation\<close>

section \<open>Types shared by every component\<close>

type_synonym uuid = nat
type_synonym dec = rat
type_synonym instant = int

text \<open>
  A Python \<open>datetime\<close>: naive (\<open>tzinfo is None\<close>) or aware. Both carry microseconds since the
  epoch; an aware value is kept as the instant it denotes, so \<open>astimezone(UTC)\<close> is the identity.
\<close>

datatype datetime = Naive int | Aware int

definition is_aware :: "datetime \<Rightarrow> bool" where
  "is_aware d = (case d of Aware _ \<Rightarrow> True | Naive _ \<Rightarrow> False)"

definition micros :: "datetime \<Rightarrow> int" where
  "micros d = (case d of Aware t \<Rightarrow> t | Naive t \<Rightarrow> t)"

text \<open>
  A Python \<open>Decimal\<close> as it reaches a validator: a NaN, an infinity or a finite value. Stored
  amounts are finite and exact (\<^typ>\<open>dec\<close>).
\<close>

datatype decimal = NaN | Infinity bool | Finite dec

definition is_finite_decimal :: "decimal \<Rightarrow> bool" where
  "is_finite_decimal v = (case v of Finite _ \<Rightarrow> True | _ \<Rightarrow> False)"

text \<open>The denoted value; only used after \<^const>\<open>is_finite_decimal\<close> has been checked.\<close>

definition decimal_value :: "decimal \<Rightarrow> dec" where
  "decimal_value v = (case v of Finite q \<Rightarrow> q | _ \<Rightarrow> 0)"

text \<open>
  \<open>q == q.quantize(Decimal(1).scaleb(-n))\<close>: the value has at most \<open>n\<close> decimal places.
\<close>

definition has_places :: "nat \<Rightarrow> dec \<Rightarrow> bool" where
  "has_places n q = (of_int \<lfloor>q * 10 ^ n\<rfloor> = q * 10 ^ n)"

lemma has_places_iff_Ints: "has_places n q \<longleftrightarrow> q * 10 ^ n \<in> \<int>"
  unfolding has_places_def using Ints_cases floor_of_int Ints_of_int by metis

lemma has_places_0 [simp]: "has_places n 0"
  by (simp add: has_places_def)

lemma has_places_add: "has_places n p \<Longrightarrow> has_places n q \<Longrightarrow> has_places n (p + q)"
  by (simp add: has_places_iff_Ints distrib_right)

lemma has_places_minus: "has_places n p \<Longrightarrow> has_places n (- p)"
  by (simp add: has_places_iff_Ints)

lemma has_places_diff: "has_places n p \<Longrightarrow> has_places n q \<Longrightarrow> has_places n (p - q)"
  by (simp add: has_places_iff_Ints left_diff_distrib)

lemma has_places_mult_int: "has_places n p \<Longrightarrow> has_places n (p * of_int k)"
proof -
  assume "has_places n p"
  then have "of_int k * (p * 10 ^ n) \<in> \<int>" by (simp add: has_places_iff_Ints)
  then show ?thesis by (simp add: has_places_iff_Ints mult.commute mult.left_commute mult.assoc)
qed

section \<open>Errors\<close>

text \<open>
  The exceptions an operation can leave with: the domain errors of \<open>app/core/errors.py\<close>, and
  the built-in ones the modelled code raises itself. Each carries its message; where the source
  interpolates values into the message, the model keeps the constant prefix.
\<close>

datatype app_error =
    NotFoundError string
  | ConflictError string
  | ValidationError string
  | ForbiddenError string
  | RuntimeError string
  | ValueError string
  | UnsupportedEventVersion string
  | EventScopeMismatch string
  | IntegrityError string
  | AssertionError string
  | DataError string

definition error_code :: "app_error \<Rightarrow> string option" where
  "error_code e = (case e of
      NotFoundError _ \<Rightarrow> Some ''not_found''
    | ConflictError _ \<Rightarrow> Some ''conflict''
    | ValidationError _ \<Rightarrow> Some ''validation_error''
    | ForbiddenError _ \<Rightarrow> Some ''forbidden''
    | _ \<Rightarrow> None)"

section \<open>Results: an error or a value\<close>

text \<open>
  An operation returns \<open>Inl e\<close> when the source raises \<open>e\<close>, and \<open>Inr\<close> of its value otherwise.
  A write operation maps a database to \<open>Inr (value, database)\<close>; a raise inside
  \<open>async with session.begin()\<close> rolls the transaction back, so no new database is returned.
\<close>

type_synonym 'a result = "app_error + 'a"

definition bindR :: "'e + 'a \<Rightarrow> ('a \<Rightarrow> 'e + 'b) \<Rightarrow> 'e + 'b" where
  "bindR m f = (case m of Inl e \<Rightarrow> Inl e | Inr x \<Rightarrow> f x)"

text \<open>\<open>if bad: raise e\<close> followed by the rest of the function.\<close>

definition raise_if :: "bool \<Rightarrow> 'e \<Rightarrow> 'e + 'b \<Rightarrow> 'e + 'b" where
  "raise_if bad e rest = (if bad then Inl e else rest)"

text \<open>\<open>x = ...; if x is None: raise e\<close> followed by the rest of the function.\<close>

definition or_raise :: "'a option \<Rightarrow> 'e \<Rightarrow> ('a \<Rightarrow> 'e + 'b) \<Rightarrow> 'e + 'b" where
  "or_raise m e f = (case m of None \<Rightarrow> Inl e | Some x \<Rightarrow> f x)"

lemma bindR_simps [simp]:
  "bindR (Inl e) f = Inl e"
  "bindR (Inr x) f = f x"
  by (simp_all add: bindR_def)

lemma bindR_Inr [res_simps]: "bindR m f = Inr y \<longleftrightarrow> (\<exists>x. m = Inr x \<and> f x = Inr y)"
  by (cases m) auto

lemma bindR_Inl [res_simps]:
  "bindR m f = Inl e \<longleftrightarrow> m = Inl e \<or> (\<exists>x. m = Inr x \<and> f x = Inl e)"
  by (cases m) auto

lemma raise_if_simps [simp]:
  "raise_if True e r = Inl e"
  "raise_if False e r = r"
  by (simp_all add: raise_if_def)

lemma raise_if_Inr [res_simps]: "raise_if b e r = Inr y \<longleftrightarrow> \<not> b \<and> r = Inr y"
  by (simp add: raise_if_def)

lemma raise_if_Inl [res_simps]: "raise_if b e r = Inl e' \<longleftrightarrow> (if b then e = e' else r = Inl e')"
  by (simp add: raise_if_def)

lemma or_raise_simps [simp]:
  "or_raise None e f = Inl e"
  "or_raise (Some x) e f = f x"
  by (simp_all add: or_raise_def)

lemma or_raise_Inr [res_simps]: "or_raise m e f = Inr y \<longleftrightarrow> (\<exists>x. m = Some x \<and> f x = Inr y)"
  by (cases m) auto

lemma or_raise_Inl [res_simps]:
  "or_raise m e f = Inl e' \<longleftrightarrow> (case m of None \<Rightarrow> e = e' | Some x \<Rightarrow> f x = Inl e')"
  by (cases m) auto

text \<open>The operation returns, with a value that satisfies the predicate; used to evaluate examples.\<close>

definition succeeds_with :: "'e + 'a \<Rightarrow> ('a \<Rightarrow> bool) \<Rightarrow> bool" where
  "succeeds_with r P = (case r of Inl _ \<Rightarrow> False | Inr x \<Rightarrow> P x)"

lemma succeeds_with_iff: "succeeds_with r P \<longleftrightarrow> (\<exists>x. r = Inr x \<and> P x)"
  by (cases r) (auto simp: succeeds_with_def)

text \<open>A loop whose body may raise: \<open>for x in xs: s = body(x, s)\<close>.\<close>

primrec for_each :: "('a \<Rightarrow> 's \<Rightarrow> 'e + 's) \<Rightarrow> 'a list \<Rightarrow> 's \<Rightarrow> 'e + 's" where
  "for_each f [] s = Inr s"
| "for_each f (x # xs) s = bindR (f x s) (for_each f xs)"

lemma for_each_append: "for_each f (xs @ ys) s = bindR (for_each f xs s) (for_each f ys)"
proof (induction xs arbitrary: s)
  case (Cons x xs)
  then show ?case by (cases "f x s") simp_all
qed simp

text \<open>What every pass of the loop body keeps, the loop keeps.\<close>

lemma for_each_invariant:
  assumes "for_each f xs s = Inr t" and "P s"
    and "\<And>x s t. x \<in> set xs \<Longrightarrow> P s \<Longrightarrow> f x s = Inr t \<Longrightarrow> P t"
  shows "P t"
  using assms
proof (induction xs arbitrary: s)
  case Nil
  then show ?case by simp
next
  case (Cons x xs)
  from Cons.prems(1) obtain u where u: "f x s = Inr u" "for_each f xs u = Inr t"
    by (auto simp: res_simps)
  have "P u" using Cons.prems(2) Cons.prems(3) u(1) by (metis list.set_intros(1))
  then show ?case using Cons.IH u(2) Cons.prems(3) by (metis list.set_intros(2))
qed

section \<open>Tables\<close>

text \<open>
  A table is the list of its rows, in insertion order. \<open>select(T).where(P)\<close> with
  \<open>scalar\<close>/\<open>one_or_none\<close> is \<open>select_one P\<close>; assigning attributes of loaded rows, or
  \<open>update(T).where(P).values(...)\<close>, is \<open>update_where P f\<close>; \<open>delete(T).where(P)\<close> is
  \<open>delete_where P\<close>.
\<close>

definition select_one :: "('r \<Rightarrow> bool) \<Rightarrow> 'r list \<Rightarrow> 'r option" where
  "select_one P rows = find P rows"

definition exists_row :: "('r \<Rightarrow> bool) \<Rightarrow> 'r list \<Rightarrow> bool" where
  "exists_row P rows = list_ex P rows"

definition update_where :: "('r \<Rightarrow> bool) \<Rightarrow> ('r \<Rightarrow> 'r) \<Rightarrow> 'r list \<Rightarrow> 'r list" where
  "update_where P f rows = map (\<lambda>r. if P r then f r else r) rows"

definition delete_where :: "('r \<Rightarrow> bool) \<Rightarrow> 'r list \<Rightarrow> 'r list" where
  "delete_where P rows = filter (\<lambda>r. \<not> P r) rows"

lemma select_one_simps [simp]:
  "select_one P [] = None"
  "select_one P (r # rows) = (if P r then Some r else select_one P rows)"
  by (simp_all add: select_one_def)

lemma exists_row_simps [simp]:
  "exists_row P [] = False"
  "exists_row P (r # rows) = (P r \<or> exists_row P rows)"
  by (simp_all add: exists_row_def)

lemma update_where_simps [simp]:
  "update_where P f [] = []"
  "update_where P f (r # rows) = (if P r then f r else r) # update_where P f rows"
  by (simp_all add: update_where_def)

lemma delete_where_simps [simp]:
  "delete_where P [] = []"
  "delete_where P (r # rows) = (if P r then delete_where P rows else r # delete_where P rows)"
  by (simp_all add: delete_where_def)

lemma select_one_Some: "select_one P rows = Some r \<Longrightarrow> r \<in> set rows \<and> P r"
  by (induction rows) (auto split: if_splits)

lemma select_one_None [table_simps]: "select_one P rows = None \<longleftrightarrow> (\<forall>r \<in> set rows. \<not> P r)"
  by (induction rows) auto

lemma select_one_append [table_simps]:
  "select_one P (xs @ ys) = (case select_one P xs of Some r \<Rightarrow> Some r | None \<Rightarrow> select_one P ys)"
  by (induction xs) auto

lemma exists_row_iff [table_simps]: "exists_row P rows \<longleftrightarrow> (\<exists>r \<in> set rows. P r)"
  by (induction rows) auto

lemma set_update_where [table_simps]:
  "set (update_where P f rows) = (\<lambda>r. if P r then f r else r) ` set rows"
  by (auto simp: update_where_def)

lemma set_delete_where [table_simps]: "set (delete_where P rows) = {r \<in> set rows. \<not> P r}"
  by (auto simp: delete_where_def)

lemma length_update_where [simp]: "length (update_where P f rows) = length rows"
  by (simp add: update_where_def)

lemma update_where_append [simp]:
  "update_where P f (xs @ ys) = update_where P f xs @ update_where P f ys"
  by (simp add: update_where_def)

lemma update_where_id: "(\<And>r. r \<in> set rows \<Longrightarrow> P r \<Longrightarrow> f r = r) \<Longrightarrow> update_where P f rows = rows"
  by (induction rows) auto

lemma update_where_none: "(\<And>r. r \<in> set rows \<Longrightarrow> \<not> P r) \<Longrightarrow> update_where P f rows = rows"
  by (rule update_where_id) simp

text \<open>An update that keeps a column keeps the list of that column's values.\<close>

lemma map_update_where:
  "(\<And>r. P r \<Longrightarrow> g (f r) = g r) \<Longrightarrow> map g (update_where P f rows) = map g rows"
  by (simp add: update_where_def)

subsection \<open>Tables with a primary key\<close>

text \<open>
  \<open>by_key\<close> is a primary-key lookup; \<open>store_row\<close> is how the code changes a loaded row: the row
  with that key is replaced by its new value.
\<close>

definition by_key :: "('r \<Rightarrow> 'k) \<Rightarrow> 'k \<Rightarrow> 'r list \<Rightarrow> 'r option" where
  "by_key key k rows = select_one (\<lambda>r. key r = k) rows"

definition store_row :: "('r \<Rightarrow> 'k) \<Rightarrow> 'r \<Rightarrow> 'r list \<Rightarrow> 'r list" where
  "store_row key r rows = update_where (\<lambda>x. key x = key r) (\<lambda>_. r) rows"

definition unique_keys :: "('r \<Rightarrow> 'k) \<Rightarrow> 'r list \<Rightarrow> bool" where
  "unique_keys key rows = distinct (map key rows)"

lemma by_key_simps [simp]:
  "by_key key k [] = None"
  "by_key key k (r # rows) = (if key r = k then Some r else by_key key k rows)"
  by (simp_all add: by_key_def)

lemma store_row_simps [simp]:
  "store_row key r [] = []"
  "store_row key r (x # rows) = (if key x = key r then r else x) # store_row key r rows"
  by (simp_all add: store_row_def)

lemma unique_keys_simps [simp]:
  "unique_keys key []"
  "unique_keys key (r # rows) = (key r \<notin> key ` set rows \<and> unique_keys key rows)"
  by (simp_all add: unique_keys_def)

lemma by_key_Some: "by_key key k rows = Some r \<Longrightarrow> r \<in> set rows \<and> key r = k"
  unfolding by_key_def by (drule select_one_Some) simp

lemma by_key_None: "by_key key k rows = None \<longleftrightarrow> k \<notin> key ` set rows"
  by (auto simp: by_key_def select_one_None)

lemma by_key_member: "unique_keys key rows \<Longrightarrow> r \<in> set rows \<Longrightarrow> by_key key (key r) rows = Some r"
  by (induction rows) auto

lemma unique_keys_eq:
  "unique_keys key rows \<Longrightarrow> x \<in> set rows \<Longrightarrow> y \<in> set rows \<Longrightarrow> key x = key y \<Longrightarrow> x = y"
  by (simp add: unique_keys_def distinct_map inj_on_def)

lemma by_key_store_row:
  "by_key key k (store_row key r rows) =
     (if k = key r \<and> k \<in> key ` set rows then Some r else by_key key k rows)"
  by (induction rows) auto

lemma by_key_append_new:
  "key r \<notin> key ` set rows \<Longrightarrow>
   by_key key k (rows @ [r]) = (if k = key r then Some r else by_key key k rows)"
  by (induction rows) auto

lemma map_key_store_row [simp]: "map key (store_row key r rows) = map key rows"
  by (simp add: store_row_def update_where_def)

lemma keys_store_row [simp]: "key ` set (store_row key r rows) = key ` set rows"
  by (metis list.set_map map_key_store_row)

lemma length_store_row [simp]: "length (store_row key r rows) = length rows"
  by (simp add: store_row_def)

lemma unique_keys_store_row [simp]: "unique_keys key (store_row key r rows) = unique_keys key rows"
  by (simp add: unique_keys_def)

lemma unique_keys_append [simp]:
  "unique_keys key (rows @ [r]) = (unique_keys key rows \<and> key r \<notin> key ` set rows)"
  by (auto simp: unique_keys_def)

lemma in_store_row: "x \<in> set (store_row key r rows) \<Longrightarrow> x = r \<or> (x \<in> set rows \<and> key x \<noteq> key r)"
  by (auto simp: store_row_def set_update_where)

lemma store_row_other: "x \<in> set rows \<Longrightarrow> key x \<noteq> key r \<Longrightarrow> x \<in> set (store_row key r rows)"
  by (auto simp: store_row_def set_update_where image_iff)

lemma store_row_self: "y \<in> set rows \<Longrightarrow> key y = key r \<Longrightarrow> r \<in> set (store_row key r rows)"
  by (auto simp: store_row_def set_update_where image_iff)

lemma store_row_same: "by_key key (key r) rows = Some r \<Longrightarrow> unique_keys key rows \<Longrightarrow> store_row key r rows = rows"
proof (induction rows)
  case (Cons x rows)
  show ?case
  proof (cases "key x = key r")
    case True
    with Cons.prems have "x = r" and "key r \<notin> key ` set rows" by auto
    then have "x = r" and "\<And>y. y \<in> set rows \<Longrightarrow> key y \<noteq> key r" by (auto simp: image_iff)
    then show ?thesis by (auto simp: store_row_def intro!: update_where_none)
  next
    case False
    with Cons show ?thesis by simp
  qed
qed simp

text \<open>Replacing one row changes the number of rows with a property by at most one.\<close>

lemma length_filter_store_row:
  assumes "unique_keys key rows"
  shows "length (filter P rows) \<le> length (filter P (store_row key r rows)) + 1"
  using assms
proof (induction rows)
  case (Cons x rows)
  show ?case
  proof (cases "key x = key r")
    case True
    with Cons.prems have "\<And>y. y \<in> set rows \<Longrightarrow> key y \<noteq> key r" by (auto simp: image_iff)
    then have "store_row key r rows = rows" by (auto simp: store_row_def intro!: update_where_none)
    then show ?thesis by simp
  next
    case False
    with Cons show ?thesis by simp
  qed
qed simp

text \<open>Replacing a row of a property by another row of it keeps the count.\<close>

lemma length_filter_store_row_mono:
  assumes "\<And>x. x \<in> set rows \<Longrightarrow> key x = key r \<Longrightarrow> P x \<Longrightarrow> P r"
  shows "length (filter P rows) \<le> length (filter P (store_row key r rows))"
  using assms by (induction rows) (auto simp: le_SucI)

text \<open>
  The repository contract: a table of a database, and a \<open>save\<close> of the database that writes one
  row back by its key and leaves the other rows alone. Interpreted on the tables whose rows the
  services change.
\<close>

locale repository =
  fixes key :: "'r \<Rightarrow> 'k"
    and rows :: "'db \<Rightarrow> 'r list"
    and save :: "'r \<Rightarrow> 'db \<Rightarrow> 'db"
  assumes rows_save: "rows (save r s) = store_row key r (rows s)"
begin

lemma get_save:
  assumes "by_key key (key r) (rows s) \<noteq> None"
  shows "by_key key k (rows (save r s)) = (if k = key r then Some r else by_key key k (rows s))"
  using assms by (auto simp: rows_save by_key_store_row by_key_None)

lemma get_save_other: "k \<noteq> key r \<Longrightarrow> by_key key k (rows (save r s)) = by_key key k (rows s)"
  by (simp add: rows_save by_key_store_row)

lemma save_keeps_keys: "map key (rows (save r s)) = map key (rows s)"
  by (simp add: rows_save)

lemma save_unique: "unique_keys key (rows (save r s)) = unique_keys key (rows s)"
  by (simp add: rows_save)

lemma save_all: "(\<forall>x \<in> set (rows s). P x) \<Longrightarrow> P r \<Longrightarrow> \<forall>x \<in> set (rows (save r s)). P x"
  by (auto simp: rows_save dest: in_store_row)

end

section \<open>Step invariants\<close>

text \<open>
  The contract of a state machine: an invariant that every step keeps. Its client lemma lifts
  the invariant to every state reachable by any sequence of steps.
\<close>

locale step_invariant =
  fixes step :: "'s \<Rightarrow> 's \<Rightarrow> bool"
    and inv :: "'s \<Rightarrow> bool"
  assumes step_keeps: "inv s \<Longrightarrow> step s t \<Longrightarrow> inv t"
begin

lemma reachable_keeps: "step\<^sup>*\<^sup>* s t \<Longrightarrow> inv s \<Longrightarrow> inv t"
  by (induction rule: rtranclp_induct) (auto intro: step_keeps)

end

text \<open>A measure that no step lowers is monotone along every run.\<close>

locale step_monotone = step_invariant step inv
  for step :: "'s \<Rightarrow> 's \<Rightarrow> bool" and inv :: "'s \<Rightarrow> bool" +
  fixes level :: "'s \<Rightarrow> int"
  assumes step_raises: "inv s \<Longrightarrow> step s t \<Longrightarrow> level s \<le> level t"
begin

lemma reachable_raises: "step\<^sup>*\<^sup>* s t \<Longrightarrow> inv s \<Longrightarrow> inv t \<and> level s \<le> level t"
proof (induction rule: rtranclp_induct)
  case (step t u)
  then show ?case using step_keeps step_raises by force
qed simp

end

section \<open>Python strings\<close>

text \<open>
  Text is modelled on ASCII: a \<^typ>\<open>string\<close> whose characters stand for code points below 128.
  \<open>strip\<close>, \<open>upper\<close> and \<open>casefold\<close> are the functions of \<open>str\<close> there.
\<close>

definition py_isspace :: "char \<Rightarrow> bool" where
  "py_isspace c = (let n = of_char c :: nat in n = 32 \<or> (9 \<le> n \<and> n \<le> 13) \<or> (28 \<le> n \<and> n \<le> 31))"

definition py_strip :: "string \<Rightarrow> string" where
  "py_strip s = rev (dropWhile py_isspace (rev (dropWhile py_isspace s)))"

definition py_upper_char :: "char \<Rightarrow> char" where
  "py_upper_char c = (let n = of_char c :: nat in if 97 \<le> n \<and> n \<le> 122 then char_of (n - 32) else c)"

definition py_lower_char :: "char \<Rightarrow> char" where
  "py_lower_char c = (let n = of_char c :: nat in if 65 \<le> n \<and> n \<le> 90 then char_of (n + 32) else c)"

definition py_upper :: "string \<Rightarrow> string" where
  "py_upper s = map py_upper_char s"

definition py_casefold :: "string \<Rightarrow> string" where
  "py_casefold s = map py_lower_char s"

text \<open>The class \<open>[A-Za-z0-9_-]\<close> and \<open>re.fullmatch(r"[A-Za-z0-9_-]{1,100}", s)\<close>.\<close>

definition is_alnum_char :: "char \<Rightarrow> bool" where
  "is_alnum_char c = (let n = of_char c :: nat in
     (48 \<le> n \<and> n \<le> 57) \<or> (65 \<le> n \<and> n \<le> 90) \<or> (97 \<le> n \<and> n \<le> 122))"

definition is_key_char :: "char \<Rightarrow> bool" where
  "is_key_char c = (is_alnum_char c \<or> c = CHR ''_'' \<or> c = CHR ''-'')"

definition idempotency_key_ok :: "string \<Rightarrow> bool" where
  "idempotency_key_ok s = (1 \<le> length s \<and> length s \<le> 100 \<and> list_all is_key_char s)"

lemma length_py_casefold [simp]: "length (py_casefold s) = length s"
  by (simp add: py_casefold_def)

lemmas [py_simps] =
  py_isspace_def py_strip_def py_upper_char_def py_lower_char_def py_upper_def py_casefold_def
  is_alnum_char_def is_key_char_def idempotency_key_ok_def

lemma py_upper_char_idem [simp]: "py_upper_char (py_upper_char c) = py_upper_char c"
proof (cases "97 \<le> (of_char c :: nat) \<and> (of_char c :: nat) \<le> 122")
  case True
  then have "of_char (py_upper_char c) = (of_char c - 32 :: nat)"
    by (auto simp: py_upper_char_def Let_def of_char_of)
  with True show ?thesis by (auto simp: py_upper_char_def [of "py_upper_char c"] Let_def)
next
  case False
  then show ?thesis by (auto simp: py_upper_char_def Let_def)
qed

lemma py_upper_idem [simp]: "py_upper (py_upper s) = py_upper s"
  by (simp add: py_upper_def)

end
