(* ===== verification/Event_Contracts.thy ===== *)
theory Event_Contracts
  imports Prelude
begin

text \<open>
  The pure part of the event module: the versioned contracts of \<open>events/domain/contracts.py\<close>
  (typed payloads, their validators, the envelope and \<open>serialize_event\<close>/\<open>deserialize_event\<close>), the
  fixed consumer subscriptions, the retry policy and the diagnostics allowlists.
\<close>

section \<open>Event types, consumers and payloads\<close>

datatype event_type =
    Order_Submitted | Order_Accepted | Order_Completed | Order_Cancelled | Order_Deleted
  | Menu_Updated | Inventory_State_Changed | Inventory_Low

datatype consumer = Analytics | Alerts | Notification_Sink

definition all_event_types :: "event_type list" where
  "all_event_types = [Order_Submitted, Order_Accepted, Order_Completed, Order_Cancelled,
     Order_Deleted, Menu_Updated, Inventory_State_Changed, Inventory_Low]"

fun event_type_name :: "event_type \<Rightarrow> string" where
  "event_type_name Order_Submitted = ''order.submitted.v1''"
| "event_type_name Order_Accepted = ''order.accepted.v1''"
| "event_type_name Order_Completed = ''order.completed.v1''"
| "event_type_name Order_Cancelled = ''order.cancelled.v1''"
| "event_type_name Order_Deleted = ''order.deleted.v1''"
| "event_type_name Menu_Updated = ''menu.updated.v1''"
| "event_type_name Inventory_State_Changed = ''inventory.state_changed.v1''"
| "event_type_name Inventory_Low = ''inventory.low.v1''"

definition supported_event_type :: "string \<Rightarrow> event_type option" where
  "supported_event_type s = find (\<lambda>t. event_type_name t = s) all_event_types"

text \<open>
  The payload of an event. The parameter is the type of its decimal fields: \<^typ>\<open>decimal\<close> in a
  raw or stored payload, \<^typ>\<open>dec\<close> in a validated one.
\<close>

datatype 'd payload =
    OrderSubmittedPayload (os_order_id: int) (os_status: string)
  | OrderAcceptedPayload (oa_order_id: int) (oa_status: string)
  | OrderCompletedPayload (oc_order_id: int) (oc_total: 'd) (oc_created_at: datetime)
  | OrderCancelledPayload (ox_order_id: int) (ox_status: string)
  | OrderDeletedPayload (od_order_id: int) (od_prior_status: string) (od_total: 'd)
      (od_created_at: datetime)
  | MenuUpdatedPayload (mu_operation: string) (mu_target_type: string) (mu_target_id: int)
      (mu_menu_id: int) (mu_affected: "int list")
  | InventoryStateChangedPayload (isc_ingredient_id: int) (isc_ingredient_name: string)
      (isc_unit: string) (isc_quantity: 'd) (isc_reorder_threshold: 'd) (isc_is_active: bool)
      (isc_is_low: bool) (isc_episode_id: "uuid option") (isc_episode_transition: "string option")
      (isc_resolution_reason: "string option")
  | InventoryLowPayload (il_ingredient_id: int) (il_episode_id: uuid) (il_ingredient_name: string)
      (il_unit: string) (il_opening_quantity: 'd) (il_reorder_threshold: 'd)
      (il_opened_at: datetime)

section \<open>Field validators\<close>

definition decimal_from_lossless_value :: "decimal \<Rightarrow> dec option" where
  "decimal_from_lossless_value v = (if is_finite_decimal v then Some (decimal_value v) else None)"

definition money_value :: "dec \<Rightarrow> dec option" where
  "money_value v = (if v < 0 \<or> v > 9999999999 / 100 then None
     else if \<not> has_places 2 v then None else Some v)"

definition quantity_value :: "dec \<Rightarrow> dec option" where
  "quantity_value v = (if v < 0 \<or> v > 999999999999 / 1000 then None
     else if \<not> has_places 3 v then None else Some v)"

definition utc_timestamp :: "datetime \<Rightarrow> datetime option" where
  "utc_timestamp d = (if is_aware d then Some d else None)"

definition order_creation_timestamp :: "datetime \<Rightarrow> datetime" where
  "order_creation_timestamp d = (case d of Naive t \<Rightarrow> Aware t | Aware t \<Rightarrow> Aware t)"

definition money_string :: "decimal \<Rightarrow> dec option" where
  "money_string v = Option.bind (decimal_from_lossless_value v) money_value"

definition quantity_string :: "decimal \<Rightarrow> dec option" where
  "quantity_string v = Option.bind (decimal_from_lossless_value v) quantity_value"

definition valid_unit :: "string \<Rightarrow> bool" where
  "valid_unit u = (u \<in> set [''g'', ''ml'', ''piece''])"

definition name_in_bounds :: "string \<Rightarrow> bool" where
  "name_in_bounds s = (1 \<le> length s \<and> length s \<le> 255)"

text \<open>\<open>MenuUpdatedPayload.validate_affected_ids\<close>.\<close>

definition validate_affected_ids :: "int list \<Rightarrow> bool" where
  "validate_affected_ids ids = (list_all (\<lambda>i. 0 < i) ids \<and> distinct ids)"

text \<open>\<open>InventoryStateChangedPayload.validate_state_and_episode\<close>.\<close>

definition validate_state_and_episode ::
  "dec \<Rightarrow> dec \<Rightarrow> bool \<Rightarrow> bool \<Rightarrow> uuid option \<Rightarrow> string option \<Rightarrow> string option \<Rightarrow> bool" where
  "validate_state_and_episode quantity threshold is_active is_low episode_id transition reason =
     (let expected_low = (is_active \<and> quantity \<le> threshold) in
      if is_low \<noteq> expected_low then False
      else if transition = Some ''opened'' \<and> (\<not> is_low \<or> episode_id = None) then False
      else if transition = Some ''resolved''
        then \<not> is_low \<and> episode_id \<noteq> None \<and> reason \<noteq> None
      else reason = None)"

definition transition_literal :: "string option \<Rightarrow> bool" where
  "transition_literal x = (case x of None \<Rightarrow> True | Some s \<Rightarrow> s \<in> set [''opened'', ''resolved''])"

definition reason_literal :: "string option \<Rightarrow> bool" where
  "reason_literal x = (case x of None \<Rightarrow> True
     | Some s \<Rightarrow> s \<in> set [''stock_recovered'', ''threshold_changed'', ''archived''])"

section \<open>Payload contracts\<close>

text \<open>
  Constructing the typed payload of an event type from a raw payload: \<open>None\<close> when pydantic would
  report a validation error, which includes a payload of another shape.
\<close>

fun validate_payload :: "event_type \<Rightarrow> decimal payload \<Rightarrow> dec payload option" where
  "validate_payload t (OrderSubmittedPayload oid st) =
     (if t = Order_Submitted \<and> 0 < oid \<and> st = ''SUBMITTED''
      then Some (OrderSubmittedPayload oid st) else None)"
| "validate_payload t (OrderAcceptedPayload oid st) =
     (if t = Order_Accepted \<and> 0 < oid \<and> st = ''ACCEPTED''
      then Some (OrderAcceptedPayload oid st) else None)"
| "validate_payload t (OrderCompletedPayload oid tot created) =
     (if t = Order_Completed \<and> 0 < oid
      then map_option (\<lambda>m. OrderCompletedPayload oid m (order_creation_timestamp created))
        (money_string tot) else None)"
| "validate_payload t (OrderCancelledPayload oid st) =
     (if t = Order_Cancelled \<and> 0 < oid \<and> st = ''CANCELLED''
      then Some (OrderCancelledPayload oid st) else None)"
| "validate_payload t (OrderDeletedPayload oid prior tot created) =
     (if t = Order_Deleted \<and> 0 < oid \<and> 1 \<le> length prior \<and> length prior \<le> 50
      then map_option (\<lambda>m. OrderDeletedPayload oid prior m (order_creation_timestamp created))
        (money_string tot) else None)"
| "validate_payload t (MenuUpdatedPayload operation target_type target_id menu_id affected) =
     (if t = Menu_Updated
         \<and> operation \<in> set [''created'', ''edited'', ''deactivated'', ''deleted'']
         \<and> target_type \<in> set [''menu'', ''menu_item''] \<and> 0 < target_id \<and> 0 < menu_id
         \<and> validate_affected_ids affected
      then Some (MenuUpdatedPayload operation target_type target_id menu_id affected) else None)"
| "validate_payload t
     (InventoryStateChangedPayload iid name unit quantity threshold active low eid transition reason) =
     (case (quantity_string quantity, quantity_string threshold) of
        (Some q, Some h) \<Rightarrow>
          (if t = Inventory_State_Changed
              \<and> 0 < iid \<and> name_in_bounds name \<and> valid_unit unit
              \<and> transition_literal transition \<and> reason_literal reason
              \<and> validate_state_and_episode q h active low eid transition reason
           then Some (InventoryStateChangedPayload iid name unit q h active low eid transition reason)
           else None)
      | _ \<Rightarrow> None)"
| "validate_payload t (InventoryLowPayload iid eid name unit quantity threshold opened_at) =
     (case (quantity_string quantity, quantity_string threshold, utc_timestamp opened_at) of
        (Some q, Some h, Some ts) \<Rightarrow>
          (if t = Inventory_Low \<and> 0 < iid \<and> name_in_bounds name \<and> valid_unit unit \<and> \<not> q > h
           then Some (InventoryLowPayload iid eid name unit q h ts) else None)
      | _ \<Rightarrow> None)"

section \<open>Envelopes\<close>

text \<open>
  \<open>raw_envelope\<close> is the dictionary given to \<open>deserialize_event\<close> (and the row stored in the outbox);
  \<open>envelope\<close> is the validated \<open>EventEnvelope\<close>.
\<close>

record raw_envelope =
  raw_event_id :: uuid
  raw_event_type :: string
  raw_schema_version :: int
  raw_organization_id :: uuid
  raw_restaurant_id :: int
  raw_aggregate_type :: string
  raw_aggregate_id :: string
  raw_aggregate_revision :: int
  raw_occurred_at :: datetime
  raw_correlation_id :: string
  raw_payload :: "decimal payload"

record envelope =
  env_event_id :: uuid
  env_event_type :: event_type
  env_organization_id :: uuid
  env_restaurant_id :: int
  env_aggregate_type :: string
  env_aggregate_id :: string
  env_aggregate_revision :: int
  env_occurred_at :: datetime
  env_correlation_id :: string
  env_payload :: "dec payload"

text \<open>\<open>str(n)\<close> of a Python integer.\<close>

fun nat_digits :: "nat \<Rightarrow> string" where
  "nat_digits n = (if n < 10 then [char_of (48 + n)] else nat_digits (n div 10) @ [char_of (48 + n mod 10)])"

declare nat_digits.simps [simp del]

definition py_str_int :: "int \<Rightarrow> string" where
  "py_str_int i = (if i < 0 then CHR ''-'' # nat_digits (nat (- i)) else nat_digits (nat i))"

text \<open>The pattern \<open>[A-Za-z0-9][A-Za-z0-9._-]{0,127}\<close>.\<close>

definition is_identifier_char :: "char \<Rightarrow> bool" where
  "is_identifier_char c = (is_alnum_char c \<or> c = CHR ''.'' \<or> c = CHR ''_'' \<or> c = CHR ''-'')"

definition identifier_pattern :: "string \<Rightarrow> bool" where
  "identifier_pattern s = (case s of [] \<Rightarrow> False
     | c # cs \<Rightarrow> is_alnum_char c \<and> list_all is_identifier_char cs \<and> length cs \<le> 127)"

text \<open>The aggregate types an event class admits, and the identifier its payload names.\<close>

fun aggregate_type_matches :: "event_type \<Rightarrow> string \<Rightarrow> bool" where
  "aggregate_type_matches Menu_Updated a = (a \<in> set [''menu'', ''menu_item''])"
| "aggregate_type_matches Inventory_State_Changed a = (a = ''ingredient'')"
| "aggregate_type_matches Inventory_Low a = (a = ''ingredient'')"
| "aggregate_type_matches _ a = (a = ''order'')"

fun payload_identity :: "'d payload \<Rightarrow> int" where
  "payload_identity (OrderSubmittedPayload i _) = i"
| "payload_identity (OrderAcceptedPayload i _) = i"
| "payload_identity (OrderCompletedPayload i _ _) = i"
| "payload_identity (OrderCancelledPayload i _) = i"
| "payload_identity (OrderDeletedPayload i _ _ _) = i"
| "payload_identity (MenuUpdatedPayload _ _ i _ _) = i"
| "payload_identity (InventoryStateChangedPayload i _ _ _ _ _ _ _ _ _) = i"
| "payload_identity (InventoryLowPayload i _ _ _ _ _ _) = i"

definition identity_matches_payload :: "string \<Rightarrow> string \<Rightarrow> 'd payload \<Rightarrow> bool" where
  "identity_matches_payload aggregate_type aggregate_id p =
     ((case p of MenuUpdatedPayload _ target_type _ _ _ \<Rightarrow> aggregate_type = target_type | _ \<Rightarrow> True)
      \<and> aggregate_id = py_str_int (payload_identity p))"

definition contract_error :: app_error where
  "contract_error = ValueError ''event envelope failed contract validation''"

definition deserialize_event :: "raw_envelope \<Rightarrow> envelope result" where
  "deserialize_event raw =
     or_raise (supported_event_type (raw_event_type raw))
       (UnsupportedEventVersion ''unsupported event type'') (\<lambda>t.
     raise_if (raw_schema_version raw \<noteq> 1)
       (UnsupportedEventVersion ''unsupported schema version'') (
     or_raise (validate_payload t (raw_payload raw)) contract_error (\<lambda>p.
     or_raise (utc_timestamp (raw_occurred_at raw)) contract_error (\<lambda>ts.
     raise_if (\<not> (0 < raw_restaurant_id raw
         \<and> aggregate_type_matches t (raw_aggregate_type raw)
         \<and> 1 \<le> length (raw_aggregate_id raw) \<and> length (raw_aggregate_id raw) \<le> 100
         \<and> 1 \<le> raw_aggregate_revision raw
         \<and> identifier_pattern (raw_correlation_id raw)
         \<and> identity_matches_payload (raw_aggregate_type raw) (raw_aggregate_id raw) p))
       contract_error (
     Inr \<lparr>env_event_id = raw_event_id raw, env_event_type = t,
          env_organization_id = raw_organization_id raw, env_restaurant_id = raw_restaurant_id raw,
          env_aggregate_type = raw_aggregate_type raw, env_aggregate_id = raw_aggregate_id raw,
          env_aggregate_revision = raw_aggregate_revision raw, env_occurred_at = ts,
          env_correlation_id = raw_correlation_id raw, env_payload = p\<rparr>)))))"

text \<open>
  \<open>serialize_event\<close>: the JSON-safe dictionary of an envelope. Decimal fields become the decimal
  strings that denote them, which a raw payload carries as finite decimals.
\<close>

definition serialize_event :: "envelope \<Rightarrow> raw_envelope" where
  "serialize_event e =
     \<lparr>raw_event_id = env_event_id e, raw_event_type = event_type_name (env_event_type e),
      raw_schema_version = 1, raw_organization_id = env_organization_id e,
      raw_restaurant_id = env_restaurant_id e, raw_aggregate_type = env_aggregate_type e,
      raw_aggregate_id = env_aggregate_id e, raw_aggregate_revision = env_aggregate_revision e,
      raw_occurred_at = env_occurred_at e, raw_correlation_id = env_correlation_id e,
      raw_payload = map_payload Finite (env_payload e)\<rparr>"

section \<open>Subscriptions, retries and diagnostics\<close>

fun consumers_for :: "event_type \<Rightarrow> consumer list" where
  "consumers_for Order_Submitted = [Notification_Sink]"
| "consumers_for Order_Accepted = [Notification_Sink]"
| "consumers_for Order_Completed = [Analytics, Notification_Sink]"
| "consumers_for Order_Cancelled = [Notification_Sink]"
| "consumers_for Order_Deleted = [Analytics, Notification_Sink]"
| "consumers_for Menu_Updated = [Notification_Sink]"
| "consumers_for Inventory_State_Changed = [Alerts]"
| "consumers_for Inventory_Low = [Alerts, Notification_Sink]"

definition retry_policy_ok :: "int \<Rightarrow> bool" where
  "retry_policy_ok max_attempts = (1 \<le> max_attempts \<and> max_attempts \<le> 100)"

text \<open>\<open>RetryPolicy.delay_seconds\<close>; the jitter is the value drawn from \<open>random.random\<close>.\<close>

definition delay_seconds :: "int \<Rightarrow> dec \<Rightarrow> dec result" where
  "delay_seconds attempt_count jitter =
     raise_if (attempt_count < 1 \<or> \<not> (0 \<le> jitter \<and> jitter \<le> 1))
       (ValueError ''Invalid retry policy input'') (
     let base = min 60 (2 ^ nat (min (attempt_count - 1) 6)) in
     Inr (min 60 (base * (1 + jitter / 10))))"

definition error_categories :: "string list" where
  "error_categories = [''unsupported_version'', ''invalid_payload'', ''event_constraint'',
     ''event_transient'', ''handler_failure'', ''worker_interrupted'', ''attempt_limit'',
     ''postgres_unavailable'', ''dependency_unavailable'', ''redis_unavailable'',
     ''redis_timeout'', ''redis_connection'', ''redis_command'', ''handler_unavailable'',
     ''redis_stream_recovered'', ''timeout'', ''connection'', ''command'']"

definition safe_category :: "string option \<Rightarrow> string option" where
  "safe_category v = (case v of None \<Rightarrow> None
     | Some c \<Rightarrow> if c \<in> set error_categories then Some c else Some ''redacted'')"

definition safe_identifier :: "string \<Rightarrow> string" where
  "safe_identifier s = (if identifier_pattern s then s else ''redacted'')"

section \<open>Lemmas\<close>

lemma supported_event_type_name [simp]: "supported_event_type (event_type_name t) = Some t"
  by (cases t) (simp_all add: supported_event_type_def all_event_types_def)

lemma supported_event_type_Some: "supported_event_type s = Some t \<Longrightarrow> event_type_name t = s"
  unfolding supported_event_type_def by (auto simp: find_Some_iff)

lemma distinct_consumers_for: "distinct (consumers_for t)"
  by (cases t) simp_all

lemma money_string_Finite: "money_string v = Some m \<Longrightarrow> money_string (Finite m) = Some m"
  by (auto simp: money_string_def decimal_from_lossless_value_def money_value_def
      is_finite_decimal_def decimal_value_def split: if_splits)

lemma quantity_string_Finite: "quantity_string v = Some q \<Longrightarrow> quantity_string (Finite q) = Some q"
  by (auto simp: quantity_string_def decimal_from_lossless_value_def quantity_value_def
      is_finite_decimal_def decimal_value_def split: if_splits)

lemma quantity_string_finite_iff:
  "quantity_string (Finite q) = Some h \<longleftrightarrow>
     h = q \<and> 0 \<le> q \<and> q \<le> 999999999999 / 1000 \<and> has_places 3 q"
  by (auto simp: quantity_string_def decimal_from_lossless_value_def quantity_value_def
      is_finite_decimal_def decimal_value_def)

lemma money_string_finite_iff:
  "money_string (Finite q) = Some h \<longleftrightarrow>
     h = q \<and> 0 \<le> q \<and> q \<le> 9999999999 / 100 \<and> has_places 2 q"
  by (auto simp: money_string_def decimal_from_lossless_value_def money_value_def
      is_finite_decimal_def decimal_value_def)

lemma order_creation_timestamp_idem [simp]:
  "order_creation_timestamp (order_creation_timestamp d) = order_creation_timestamp d"
  by (simp add: order_creation_timestamp_def split: datetime.splits)

lemma utc_timestamp_Some: "utc_timestamp d = Some d' \<Longrightarrow> d' = d \<and> utc_timestamp d' = Some d'"
  by (auto simp: utc_timestamp_def split: if_splits)

text \<open>Validation is idempotent through serialization: a valid payload validates to itself.\<close>

lemma validate_payload_stable:
  assumes "validate_payload t raw = Some p"
  shows "validate_payload t (map_payload Finite p) = Some p"
proof (cases raw)
  case (InventoryStateChangedPayload iid name unit q h act low eid tr re)
  with assms obtain q' h' where "quantity_string q = Some q'" "quantity_string h = Some h'"
    by (auto split: option.splits)
  with assms InventoryStateChangedPayload show ?thesis
    using quantity_string_Finite by (fastforce split: if_splits)
next
  case (InventoryLowPayload iid eid name unit q h opened)
  with assms obtain q' h' where "quantity_string q = Some q'" "quantity_string h = Some h'"
    by (auto split: option.splits)
  with assms InventoryLowPayload show ?thesis
    using quantity_string_Finite utc_timestamp_Some
    by (fastforce split: if_splits option.splits)
next
  case (OrderCompletedPayload oid m d)
  with assms show ?thesis using money_string_Finite by (auto split: if_splits)
next
  case (OrderDeletedPayload oid pr m d)
  with assms show ?thesis using money_string_Finite by (auto split: if_splits)
qed (use assms in \<open>auto split: if_splits\<close>)

lemma nat_digits_nonempty [simp]: "nat_digits n \<noteq> []"
  by (subst nat_digits.simps) simp

lemma length_py_str_int: "1 \<le> length (py_str_int i)"
  by (cases "nat_digits (nat i)") (auto simp: py_str_int_def Suc_le_eq)

lemma payload_identity_map [simp]: "payload_identity (map_payload f p) = payload_identity p"
  by (cases p) simp_all

end
