(* ===== verification/Inventory_Domain.thy ===== *)
theory Inventory_Domain
  imports Prelude
begin

text \<open>
  The pure inventory rules: the quantity policy (\<open>inventory/domain/policies.py\<close>), the commands
  (\<open>domain/commands.py\<close>), the state snapshots, episode facts and transition rules of
  \<open>domain/transitions.py\<close>. A dataclass whose \<open>__post_init__\<close> can raise is a record together with
  a constructor function that returns the record or the error.
\<close>

section \<open>Quantities\<close>

definition max_quantity :: dec where
  "max_quantity = 999999999999 / 1000"

definition quantity_valid :: "dec \<Rightarrow> bool" where
  "quantity_valid q = (0 \<le> q \<and> q \<le> max_quantity \<and> has_places 3 q)"

definition quantity_error :: app_error where
  "quantity_error = ValidationError ''Quantity must be finite, nonnegative, at most 999999999.999, with at most three decimal places''"

definition quantity :: "bool \<Rightarrow> decimal \<Rightarrow> dec result" where
  "quantity positive value =
     (let valid = (is_finite_decimal value \<and> quantity_valid (decimal_value value)) in
      raise_if (\<not> valid \<or> (positive \<and> decimal_value value = 0)) quantity_error
        (Inr (decimal_value value)))"

section \<open>Commands\<close>

record create_ingredient =
  ci_name :: string
  ci_unit :: string
  ci_reorder_threshold :: decimal
  ci_opening_quantity :: decimal
  ci_idempotency_key :: string

record update_ingredient =
  ui_name :: string
  ui_unit :: string
  ui_reorder_threshold :: decimal
  ui_is_active :: bool

record change_stock =
  cs_kind :: string
  cs_quantity :: decimal
  cs_reason :: string
  cs_expected_version :: "int option"
  cs_idempotency_key :: string

section \<open>State snapshots and episodes\<close>

record state_snapshot =
  st_organization_id :: uuid
  st_restaurant_id :: int
  st_ingredient_id :: int
  st_state_revision :: int
  st_ingredient_name :: string
  st_unit :: string
  st_quantity :: dec
  st_reorder_threshold :: dec
  st_is_active :: bool

definition is_low :: "state_snapshot \<Rightarrow> bool" where
  "is_low s = (st_is_active s \<and> st_quantity s \<le> st_reorder_threshold s)"

record episode_transition =
  et_episode_id :: uuid
  et_kind :: string
  et_occurred_at :: datetime
  et_resolution_reason :: "string option"

definition make_episode_transition :: "episode_transition \<Rightarrow> episode_transition result" where
  "make_episode_transition t =
     raise_if (\<not> is_aware (et_occurred_at t))
       (ValueError ''inventory episode transition time must be timezone-aware'') (
     raise_if (et_kind t = ''opened'' \<and> et_resolution_reason t \<noteq> None)
       (ValueError ''an opened episode cannot have a resolution reason'') (
     raise_if (et_kind t = ''resolved'' \<and> et_resolution_reason t = None)
       (ValueError ''a resolved episode requires a resolution reason'') (
     Inr t)))"

text \<open>
  One low-stock episode. The stored row \<open>InventoryLowStockEpisode\<close> and the dataclass
  \<open>InventoryEpisodeFacts\<close> have the same fields; the record stands for both.
\<close>

record episode =
  ep_episode_id :: uuid
  ep_organization_id :: uuid
  ep_restaurant_id :: int
  ep_ingredient_id :: int
  ep_ingredient_name :: string
  ep_unit :: string
  ep_opening_quantity :: dec
  ep_opening_reorder_threshold :: dec
  ep_opened_at :: datetime
  ep_opening_revision :: int
  ep_opening_source :: string
  ep_opening_actor_user_id :: "uuid option"
  ep_opening_order_id :: "int option"
  ep_notification_suppressed :: bool
  ep_resolved_at :: "datetime option"
  ep_resolution_reason :: "string option"
  ep_closing_quantity :: "dec option"
  ep_closing_reorder_threshold :: "dec option"
  ep_closing_is_active :: "bool option"
  ep_resolution_revision :: "int option"
  ep_resolution_source :: "string option"
  ep_resolution_actor_user_id :: "uuid option"
  ep_resolution_order_id :: "int option"

text \<open>Which of the seven required resolution values are present.\<close>

definition resolution_values :: "episode \<Rightarrow> bool list" where
  "resolution_values e =
     [ep_resolved_at e \<noteq> None, ep_resolution_reason e \<noteq> None, ep_closing_quantity e \<noteq> None,
      ep_closing_reorder_threshold e \<noteq> None, ep_closing_is_active e \<noteq> None,
      ep_resolution_revision e \<noteq> None, ep_resolution_source e \<noteq> None]"

definition make_episode_facts :: "episode \<Rightarrow> episode result" where
  "make_episode_facts e =
     raise_if (ep_restaurant_id e \<le> 0 \<or> ep_ingredient_id e \<le> 0)
       (ValueError ''inventory episode identities must be positive'') (
     raise_if (ep_opening_revision e < 1)
       (ValueError ''inventory episode opening revision must be positive'') (
     raise_if (\<not> is_aware (ep_opened_at e))
       (ValueError ''inventory episode opening time must be timezone-aware'') (
     raise_if (list_ex id (resolution_values e) \<and> \<not> list_all id (resolution_values e))
       (ValueError ''inventory episode resolution facts must be complete'') (
     raise_if (case ep_resolved_at e of None \<Rightarrow> False | Some t \<Rightarrow> \<not> is_aware t)
       (ValueError ''inventory episode resolution time must be timezone-aware'') (
     raise_if (case ep_resolution_revision e of None \<Rightarrow> False | Some r \<Rightarrow> r \<le> ep_opening_revision e)
       (ValueError ''resolution revision must follow the opening revision'') (
     raise_if (ep_notification_suppressed e \<and> ep_opening_source e \<noteq> ''maintenance_initialization'')
       (ValueError ''only initialization baseline episodes suppress notices'') (
     Inr e)))))))"

record inventory_transition =
  tr_state :: state_snapshot
  tr_episode_id :: "uuid option"
  tr_episode_transition :: "episode_transition option"
  tr_episode_facts :: "episode option"

definition make_inventory_transition :: "inventory_transition \<Rightarrow> inventory_transition result" where
  "make_inventory_transition t =
     raise_if (st_restaurant_id (tr_state t) \<le> 0 \<or> st_ingredient_id (tr_state t) \<le> 0)
       (ValueError ''inventory transition identities must be positive'') (
     raise_if (st_state_revision (tr_state t) < 1)
       (ValueError ''inventory state revision must be positive'') (
     raise_if (case tr_episode_transition t of None \<Rightarrow> False
         | Some x \<Rightarrow> tr_episode_id t \<noteq> Some (et_episode_id x))
       (ValueError ''episode transition ID must match the current episode ID'') (
     raise_if (case tr_episode_facts t of None \<Rightarrow> False
         | Some f \<Rightarrow> tr_episode_id t \<noteq> Some (ep_episode_id f))
       (ValueError ''episode facts ID must match the current episode ID'') (
     raise_if (case tr_episode_transition t of None \<Rightarrow> False
         | Some x \<Rightarrow> et_kind x = ''opened'' \<and> \<not> is_low (tr_state t))
       (ValueError ''an opened episode requires a low resulting state'') (
     raise_if (case tr_episode_transition t of None \<Rightarrow> False
         | Some x \<Rightarrow> et_kind x = ''resolved'' \<and> is_low (tr_state t))
       (ValueError ''a resolved episode requires a non-low resulting state'') (
     Inr t))))))"

section \<open>Transition rules\<close>

definition inventory_state_changed :: "state_snapshot option \<Rightarrow> state_snapshot \<Rightarrow> bool" where
  "inventory_state_changed before after = (case before of None \<Rightarrow> True
     | Some b \<Rightarrow> st_quantity b \<noteq> st_quantity after
         \<or> st_reorder_threshold b \<noteq> st_reorder_threshold after
         \<or> st_is_active b \<noteq> st_is_active after)"

definition low_episode_transition :: "state_snapshot option \<Rightarrow> state_snapshot \<Rightarrow> string option" where
  "low_episode_transition before after =
     (let was_low = (case before of None \<Rightarrow> False | Some b \<Rightarrow> is_low b) in
      if \<not> was_low \<and> is_low after then Some ''opened''
      else if was_low \<and> \<not> is_low after then Some ''resolved''
      else None)"

definition episode_resolution_reason :: "state_snapshot \<Rightarrow> state_snapshot \<Rightarrow> string result" where
  "episode_resolution_reason before after =
     raise_if (\<not> is_low before \<or> is_low after)
       (ValueError ''resolution reasons apply only when a low episode closes'') (
     if st_is_active before \<and> \<not> st_is_active after then Inr ''archived''
     else if st_reorder_threshold before \<noteq> st_reorder_threshold after then Inr ''threshold_changed''
     else Inr ''stock_recovered'')"

section \<open>Lemmas\<close>

lemma quantity_Inr [res_simps]:
  "quantity positive v = Inr q \<longleftrightarrow> v = Finite q \<and> quantity_valid q \<and> (positive \<longrightarrow> q \<noteq> 0)"
  by (cases v) (auto simp: quantity_def Let_def raise_if_def is_finite_decimal_def decimal_value_def)

lemma quantity_valid_0 [simp]: "quantity_valid 0"
  by (simp add: quantity_valid_def max_quantity_def)

lemma make_episode_transition_Inr [res_simps]:
  "make_episode_transition t = Inr t' \<longleftrightarrow> t' = t \<and> is_aware (et_occurred_at t)
     \<and> (et_kind t = ''opened'' \<longrightarrow> et_resolution_reason t = None)
     \<and> (et_kind t = ''resolved'' \<longrightarrow> et_resolution_reason t \<noteq> None)"
  by (auto simp: make_episode_transition_def res_simps)

lemma make_inventory_transition_eq: "make_inventory_transition t = Inr t' \<Longrightarrow> t' = t"
  by (auto simp: make_inventory_transition_def res_simps)

lemma make_episode_facts_eq: "make_episode_facts e = Inr e' \<Longrightarrow> e' = e"
  by (auto simp: make_episode_facts_def res_simps)

lemma low_episode_transition_opened [simp]:
  "low_episode_transition before after = Some ''opened'' \<longleftrightarrow>
     (case before of None \<Rightarrow> True | Some b \<Rightarrow> \<not> is_low b) \<and> is_low after"
  by (auto simp: low_episode_transition_def Let_def split: option.splits)

lemma low_episode_transition_resolved [simp]:
  "low_episode_transition before after = Some ''resolved'' \<longleftrightarrow>
     (\<exists>b. before = Some b \<and> is_low b) \<and> \<not> is_low after"
  by (auto simp: low_episode_transition_def Let_def split: option.splits)

text \<open>When an episode closes, a reason exists, and it is one of the three approved ones.\<close>

lemma episode_resolution_reason_total:
  "is_low before \<Longrightarrow> \<not> is_low after \<Longrightarrow>
   \<exists>r \<in> set [''archived'', ''threshold_changed'', ''stock_recovered''].
     episode_resolution_reason before after = Inr r"
  by (auto simp: episode_resolution_reason_def)

text \<open>The reason names a change that really happened.\<close>

lemma episode_resolution_reason_sound:
  assumes "episode_resolution_reason before after = Inr r"
  shows "(r = ''archived'' \<longleftrightarrow> \<not> st_is_active after)
    \<and> (r = ''threshold_changed'' \<longrightarrow> st_reorder_threshold before \<noteq> st_reorder_threshold after)
    \<and> (r = ''stock_recovered'' \<longrightarrow> st_quantity before < st_quantity after)"
  using assms by (auto simp: episode_resolution_reason_def res_simps is_low_def split: if_splits)

end
