(* ===== verification/Order_Policies.thy ===== *)
theory Order_Policies
  imports Prelude
begin

text \<open>
  The pure order rules of \<open>orders/domain/policies.py\<close> and \<open>orders/domain/revisions.py\<close>: the status
  lifecycle, the aliases and normalisation of status inputs, payment statuses, the item lock and
  the aggregate revision.
\<close>

section \<open>Lifecycle\<close>

definition order_transitions :: "(string \<times> string list) list" where
  "order_transitions =
     [(''DRAFT'', [''SUBMITTED'', ''CANCELLED'']),
      (''SUBMITTED'', [''ACCEPTED'', ''CANCELLED'']),
      (''ACCEPTED'', [''PREPARING'', ''CANCELLED'']),
      (''PREPARING'', [''READY'', ''CANCELLED'']),
      (''READY'', [''COMPLETED'', ''CANCELLED'']),
      (''COMPLETED'', []),
      (''CANCELLED'', [])]"

definition payment_statuses :: "string list" where
  "payment_statuses = [''UNPAID'', ''PAID'', ''VOID'']"

definition order_status_aliases :: "(string \<times> string) list" where
  "order_status_aliases =
     [(''PENDING'', ''DRAFT''), (''COMPLETE'', ''COMPLETED''), (''CANCELLED'', ''CANCELLED'')]"

definition normalize_order_status :: "string \<Rightarrow> string" where
  "normalize_order_status value =
     (let normalized = py_upper (py_strip value) in
      case map_of order_status_aliases normalized of Some s \<Rightarrow> s | None \<Rightarrow> normalized)"

definition allowed_next :: "string \<Rightarrow> string list" where
  "allowed_next s = (case map_of order_transitions s of Some ss \<Rightarrow> ss | None \<Rightarrow> [])"

definition ensure_valid_order_transition :: "string \<Rightarrow> string \<Rightarrow> string result" where
  "ensure_valid_order_transition current requested =
     (let normalized_current = normalize_order_status current;
          normalized_requested = normalize_order_status requested in
      if normalized_requested = normalized_current then Inr normalized_requested
      else raise_if (normalized_requested \<notin> set (allowed_next normalized_current))
             (ConflictError ''Invalid order status transition'')
             (Inr normalized_requested))"

definition normalize_payment_status :: "string \<Rightarrow> string" where
  "normalize_payment_status value = py_upper (py_strip value)"

definition ensure_valid_payment_status :: "string \<Rightarrow> string result" where
  "ensure_valid_payment_status value =
     (let normalized = normalize_payment_status value in
      raise_if (normalized \<notin> set payment_statuses) (ValidationError ''Invalid payment status'')
        (Inr normalized))"

definition ensure_order_items_mutable :: "string \<Rightarrow> unit result" where
  "ensure_order_items_mutable order_status =
     raise_if (normalize_order_status order_status \<noteq> ''DRAFT'')
       (ConflictError ''Order items can only be changed while an order is in DRAFT'') (Inr ())"

definition next_order_revision :: "int \<Rightarrow> int result" where
  "next_order_revision current_revision =
     raise_if (current_revision < 1) (ValueError ''order revision must be a positive integer'')
       (Inr (current_revision + 1))"

section \<open>Lemmas\<close>

definition order_statuses :: "string list" where
  "order_statuses = map fst order_transitions"

text \<open>How far an order has got; cancellation is the last rank.\<close>

definition status_rank :: "string \<Rightarrow> nat" where
  "status_rank s = (case map_of (zip order_statuses [0..<7]) s of Some n \<Rightarrow> n | None \<Rightarrow> 7)"

lemmas status_table_defs = order_transitions_def order_statuses_def order_status_aliases_def

lemma normalize_known [simp]:
  "normalize_order_status ''DRAFT'' = ''DRAFT''"
  "normalize_order_status ''SUBMITTED'' = ''SUBMITTED''"
  "normalize_order_status ''ACCEPTED'' = ''ACCEPTED''"
  "normalize_order_status ''PREPARING'' = ''PREPARING''"
  "normalize_order_status ''READY'' = ''READY''"
  "normalize_order_status ''COMPLETED'' = ''COMPLETED''"
  "normalize_order_status ''CANCELLED'' = ''CANCELLED''"
  by (simp_all add: normalize_order_status_def order_status_aliases_def py_simps)

lemma order_statuses_normalized: "s \<in> set order_statuses \<Longrightarrow> normalize_order_status s = s"
  by (auto simp: status_table_defs)

lemma allowed_next_simps [simp]:
  "allowed_next ''DRAFT'' = [''SUBMITTED'', ''CANCELLED'']"
  "allowed_next ''SUBMITTED'' = [''ACCEPTED'', ''CANCELLED'']"
  "allowed_next ''ACCEPTED'' = [''PREPARING'', ''CANCELLED'']"
  "allowed_next ''PREPARING'' = [''READY'', ''CANCELLED'']"
  "allowed_next ''READY'' = [''COMPLETED'', ''CANCELLED'']"
  "allowed_next ''COMPLETED'' = []"
  "allowed_next ''CANCELLED'' = []"
  by (simp_all add: allowed_next_def order_transitions_def)

lemma allowed_next_known: "s' \<in> set (allowed_next s) \<Longrightarrow> s \<in> set order_statuses \<and> s' \<in> set order_statuses"
  by (auto simp: allowed_next_def status_table_defs split: option.splits if_splits)

lemma transition_Inr:
  assumes "s \<in> set order_statuses" and "ensure_valid_order_transition s r = Inr s'"
  shows "s' = s \<or> s' \<in> set (allowed_next s)"
  using assms by (auto simp: ensure_valid_order_transition_def order_statuses_normalized Let_def
      res_simps split: if_splits)

lemma transition_known:
  assumes "s \<in> set order_statuses" and "ensure_valid_order_transition s r = Inr s'"
  shows "s' \<in> set order_statuses"
  using transition_Inr [OF assms] assms(1) allowed_next_known by blast

text \<open>Every move of the lifecycle raises the rank, so no status is ever entered twice.\<close>

lemma allowed_next_rank: "s' \<in> set (allowed_next s) \<Longrightarrow> status_rank s < status_rank s'"
  by (auto simp: allowed_next_def order_transitions_def status_rank_def order_statuses_def
      upt_rec split: option.splits if_splits)

lemma next_order_revision_Inr [res_simps]:
  "next_order_revision r = Inr r' \<longleftrightarrow> 1 \<le> r \<and> r' = r + 1"
  by (auto simp: next_order_revision_def raise_if_def)

lemma ensure_order_items_mutable_Inr [res_simps]:
  "ensure_order_items_mutable s = Inr u \<longleftrightarrow> normalize_order_status s = ''DRAFT''"
  by (simp add: ensure_order_items_mutable_def res_simps)

lemma ensure_valid_payment_status_known:
  "ensure_valid_payment_status v = Inr s \<Longrightarrow> s \<in> set payment_statuses"
  by (auto simp: ensure_valid_payment_status_def Let_def res_simps)

end
