(* ===== verification/Tenancy_Policies.thy ===== *)
theory Tenancy_Policies
  imports Prelude
begin

text \<open>
  Roles, capabilities and the access context of \<open>tenancy/domain/roles.py\<close> and
  \<open>tenancy/domain/policies.py\<close>, with the field and transition rules of an order update.
\<close>

section \<open>Roles and capabilities\<close>

datatype membership_role = OWNER | MANAGER | EMPLOYEE

definition read_capabilities :: "string list" where
  "read_capabilities = [''restaurant.read'', ''menu.read'', ''order.read'', ''order.status.update'']"

definition manager_capabilities :: "string list" where
  "manager_capabilities = read_capabilities @
     [''restaurant.update'', ''menu.manage'', ''order.create'', ''order.details.update'',
      ''order.items.manage'', ''order.payment.update'', ''order.cancel'', ''analytics.read'',
      ''inventory.read'', ''inventory.manage'']"

fun role_capabilities :: "membership_role \<Rightarrow> string list" where
  "role_capabilities OWNER = manager_capabilities @
     [''restaurant.create'', ''restaurant.delete'', ''order.delete'', ''staff.manage'',
      ''audit.read'']"
| "role_capabilities MANAGER = manager_capabilities"
| "role_capabilities EMPLOYEE = read_capabilities"

definition employee_transitions :: "(string \<times> string) list" where
  "employee_transitions = [(''ACCEPTED'', ''PREPARING''), (''PREPARING'', ''READY'')]"

record access_context =
  ac_user_id :: uuid
  ac_membership_id :: uuid
  ac_organization_id :: uuid
  ac_organization_number :: int
  ac_role :: membership_role
  ac_restaurant_ids :: "int list"

definition permission_denied :: app_error where
  "permission_denied = ForbiddenError ''Permission denied''"

text \<open>\<open>context.require(capability)\<close> followed by the rest of the operation.\<close>

definition require_capability :: "access_context \<Rightarrow> string \<Rightarrow> 'a result \<Rightarrow> 'a result" where
  "require_capability context capability rest =
     raise_if (capability \<notin> set (role_capabilities (ac_role context))) permission_denied rest"

definition permits_restaurant :: "access_context \<Rightarrow> int \<Rightarrow> bool" where
  "permits_restaurant context restaurant_id =
     (ac_role context = OWNER \<or> restaurant_id \<in> set (ac_restaurant_ids context))"

section \<open>Order updates\<close>

text \<open>The fields of an order update, by the names the request carries.\<close>

definition order_field_capabilities :: "(string \<times> string) list" where
  "order_field_capabilities =
     [(''status'', ''order.status.update''), (''payment_status'', ''order.payment.update''),
      (''items'', ''order.items.manage''), (''table_number'', ''order.details.update''),
      (''customer_name'', ''order.details.update''), (''notes'', ''order.details.update'')]"

definition check_field :: "access_context \<Rightarrow> string \<Rightarrow> unit \<Rightarrow> unit result" where
  "check_field context field u =
     or_raise (map_of order_field_capabilities field) permission_denied (\<lambda>capability.
     require_capability context capability (Inr ()))"

definition employee_error :: app_error where
  "employee_error = ForbiddenError ''Employees may only start preparation or mark an order ready''"

definition authorize_order_update ::
  "access_context \<Rightarrow> string list \<Rightarrow> string \<Rightarrow> string option \<Rightarrow> unit result" where
  "authorize_order_update context names current requested =
     bindR (for_each (check_field context) names ()) (\<lambda>_.
     raise_if (ac_role context = EMPLOYEE
         \<and> (set names \<noteq> {''status''}
            \<or> (case requested of None \<Rightarrow> True
               | Some r \<Rightarrow> (current, py_upper (py_strip r)) \<notin> set employee_transitions)))
       employee_error (Inr ()))"

section \<open>Lemmas\<close>

lemma require_capability_Inr [res_simps]:
  "require_capability context c rest = Inr y \<longleftrightarrow>
     c \<in> set (role_capabilities (ac_role context)) \<and> rest = Inr y"
  by (simp add: require_capability_def res_simps)

lemma require_capability_allowed [simp]:
  "c \<in> set (role_capabilities (ac_role context)) \<Longrightarrow> require_capability context c rest = rest"
  by (simp add: require_capability_def)

lemmas capability_defs = read_capabilities_def manager_capabilities_def

text \<open>What a manager may do an owner may do, and what an employee may do a manager may do.\<close>

lemma role_capabilities_mono:
  "set (role_capabilities EMPLOYEE) \<subseteq> set (role_capabilities MANAGER)"
  "set (role_capabilities MANAGER) \<subseteq> set (role_capabilities OWNER)"
  by (auto simp: capability_defs)

lemma authorize_order_update_employee:
  assumes "authorize_order_update context names current requested = Inr u"
    and "ac_role context = EMPLOYEE"
  shows "set names = {''status''} \<and> (\<exists>r. requested = Some r
    \<and> (current, py_upper (py_strip r)) \<in> set employee_transitions)"
  using assms by (auto simp: authorize_order_update_def res_simps split: option.splits)

lemma authorize_order_update_fields:
  assumes "authorize_order_update context names current requested = Inr u" and "f \<in> set names"
  shows "\<exists>c. map_of order_field_capabilities f = Some c
    \<and> c \<in> set (role_capabilities (ac_role context))"
proof -
  have "for_each (check_field context) names () = Inr ()"
    using assms(1) by (auto simp: authorize_order_update_def res_simps)
  then show ?thesis using assms(2)
    by (induction names) (auto simp: check_field_def res_simps)
qed

end
