(* ===== verification/Schema.thy ===== *)
theory Schema
  imports Event_Contracts Inventory_Domain Order_Policies Tenancy_Policies
begin

text \<open>
  The database: a record type per table (the \<open>repo/models.py\<close> files), the record \<open>db\<close> of all
  tables with their identity sequences, and the CHECK and UNIQUE constraints the models declare, as
  executable predicates. A transaction is a function from \<open>db\<close> to an error (rolled back) or a
  value with the new \<open>db\<close>.

  Columns that no modelled operation reads (\<open>updated_at\<close>, some \<open>created_at\<close>) are left out.
  Instants of the database clock are microseconds (\<^typ>\<open>instant\<close>); timestamps that the code
  itself checks for a time zone are \<^typ>\<open>datetime\<close>.
\<close>

section \<open>JSON values\<close>

datatype json =
    JNull | JBool bool | JInt int | JDec dec | JStr string | JTime datetime
  | JList "json list" | JObj "(string \<times> json) list"

definition json_opt :: "('a \<Rightarrow> json) \<Rightarrow> 'a option \<Rightarrow> json" where
  "json_opt f x = (case x of None \<Rightarrow> JNull | Some v \<Rightarrow> f v)"

text \<open>\<open>str\<close> of a UUID: 32 hexadecimal digits in groups of 8, 4, 4, 4 and 12.\<close>

definition hex_digit :: "nat \<Rightarrow> char" where
  "hex_digit n = (if n < 10 then char_of (48 + n) else char_of (87 + n))"

primrec hex_digits :: "nat \<Rightarrow> nat \<Rightarrow> string" where
  "hex_digits 0 n = []"
| "hex_digits (Suc k) n = hex_digits k (n div 16) @ [hex_digit (n mod 16)]"

definition py_str_uuid :: "uuid \<Rightarrow> string" where
  "py_str_uuid u = (let h = hex_digits 32 u in
     take 8 h @ ''-'' @ take 4 (drop 8 h) @ ''-'' @ take 4 (drop 12 h) @ ''-''
     @ take 4 (drop 16 h) @ ''-'' @ drop 20 h)"

section \<open>Tenancy rows\<close>

record user =
  usr_id :: uuid
  usr_email :: string
  usr_password_hash :: string
  usr_status :: string

record organization =
  org_id :: uuid
  org_number :: int
  org_name :: string
  org_slug :: string
  org_status :: string

record membership =
  mem_id :: uuid
  mem_user_id :: uuid
  mem_organization_id :: uuid
  mem_role :: membership_role
  mem_status :: string
  mem_created_at :: instant

record assignment =
  asg_membership_id :: uuid
  asg_restaurant_id :: int
  asg_organization_id :: uuid

record restaurant =
  rst_id :: int
  rst_organization_id :: uuid
  rst_name :: string
  rst_address :: "string option"
  rst_phone :: "string option"

record audit_entry =
  aud_id :: uuid
  aud_organization_id :: uuid
  aud_restaurant_id :: "int option"
  aud_actor_user_id :: "uuid option"
  aud_action :: string
  aud_resource_type :: string
  aud_resource_id :: string
  aud_changes :: "(string \<times> json) list"
  aud_request_id :: "string option"
  aud_occurred_at :: instant

section \<open>Catalog and recipe rows\<close>

record menu =
  mnu_id :: int
  mnu_restaurant_id :: int
  mnu_name :: string
  mnu_description :: "string option"

record menu_item =
  mi_id :: int
  mi_menu_id :: int
  mi_name :: string
  mi_description :: "string option"
  mi_price :: dec
  mi_is_available :: bool
  mi_inventory_tracking :: bool

record recipe_component =
  rc_id :: int
  rc_menu_item_id :: int
  rc_ingredient_id :: int
  rc_quantity :: dec

section \<open>Inventory rows\<close>

record ingredient =
  ing_id :: int
  ing_restaurant_id :: int
  ing_name :: string
  ing_normalized_name :: string
  ing_unit :: string
  ing_reorder_threshold :: dec
  ing_is_active :: bool
  ing_state_revision :: int

record balance =
  bal_ingredient_id :: int
  bal_quantity :: dec
  bal_version :: int

record movement =
  mov_id :: int
  mov_ingredient_id :: int
  mov_kind :: string
  mov_quantity_delta :: dec
  mov_balance_after :: dec
  mov_version_after :: int
  mov_actor_user_id :: "uuid option"
  mov_order_id :: "int option"
  mov_reason :: string
  mov_idempotency_key :: "string option"
  mov_request_fingerprint :: "string option"
  mov_occurred_at :: instant

section \<open>Order rows\<close>

record order =
  ord_id :: int
  ord_restaurant_id :: int
  ord_table_number :: "string option"
  ord_customer_name :: "string option"
  ord_status :: string
  ord_payment_status :: string
  ord_notes :: "string option"
  ord_subtotal :: dec
  ord_total :: dec
  ord_inventory_processed :: bool
  ord_revision :: int
  ord_created_at :: datetime
  ord_updated_at :: datetime

record order_item =
  oi_id :: int
  oi_order_id :: int
  oi_menu_item_id :: "int option"
  oi_quantity :: int
  oi_unit_price :: dec
  oi_item_name :: string
  oi_line_total :: dec
  oi_notes :: "string option"

record order_submission =
  sub_id :: int
  sub_restaurant_id :: int
  sub_idempotency_key :: string
  sub_order_id :: "int option"
  sub_request_fingerprint :: string
  sub_response_snapshot :: json

section \<open>Event rows\<close>

record outbox_event =
  evt_facts :: raw_envelope
  evt_traceparent :: "string option"
  evt_recorded_at :: instant

definition evt_event_id :: "outbox_event \<Rightarrow> uuid" where
  "evt_event_id e = raw_event_id (evt_facts e)"

datatype delivery_status = Pending | Processing | Succeeded | Failed

record delivery =
  dlv_id :: uuid
  dlv_event_id :: uuid
  dlv_consumer :: consumer
  dlv_status :: delivery_status
  dlv_attempt_count :: int
  dlv_retry_cycle :: int
  dlv_next_attempt_at :: instant
  dlv_published_at :: "instant option"
  dlv_claim_token :: "uuid option"
  dlv_claim_owner :: "string option"
  dlv_claimed_at :: "instant option"
  dlv_claim_expires_at :: "instant option"
  dlv_last_error_category :: "string option"
  dlv_created_at :: instant

datatype receipt_outcome = Processed | Skipped

record receipt =
  rcp_consumer :: consumer
  rcp_event_id :: uuid
  rcp_outcome :: receipt_outcome

datatype attempt_status = Att_Running | Att_Succeeded | Att_Failed | Att_Skipped

record attempt =
  att_id :: uuid
  att_delivery_id :: uuid
  att_retry_cycle :: int
  att_attempt_number :: int
  att_status :: attempt_status
  att_claim_token :: "uuid option"
  att_started_at :: instant
  att_finished_at :: "instant option"
  att_error_category :: "string option"

record delivery_replay =
  rpl_id :: uuid
  rpl_delivery_id :: uuid
  rpl_from_cycle :: int
  rpl_to_cycle :: int
  rpl_operator :: string
  rpl_reason :: string
  rpl_correlation_id :: string
  rpl_requested_at :: instant

section \<open>Projection rows\<close>

text \<open>
  \<open>AlertEpisode\<close> has the fields of \<^typ>\<open>episode\<close>: every column is written by
  \<open>_store_episode_facts\<close>, so the table is a list of episodes.
\<close>

record alert_state =
  als_organization_id :: uuid
  als_restaurant_id :: int
  als_ingredient_id :: int
  als_revision :: int
  als_ingredient_name :: string
  als_unit :: string
  als_quantity :: dec
  als_reorder_threshold :: dec
  als_is_active :: bool
  als_is_low :: bool
  als_episode_id :: "uuid option"
  als_occurred_at :: datetime

datatype contribution_state = Completed | Inactive | Deleted

record contribution =
  con_restaurant_id :: int
  con_order_id :: int
  con_organization_id :: uuid
  con_revision :: int
  con_creation_date :: int
  con_total :: dec
  con_state :: contribution_state

record daily_sales =
  day_restaurant_id :: int
  day_creation_date :: int
  day_organization_id :: uuid
  day_order_count :: int
  day_sales :: dec

record notification_stub =
  ntf_id :: uuid
  ntf_episode_id :: uuid
  ntf_event_id :: uuid
  ntf_organization_id :: uuid
  ntf_restaurant_id :: int
  ntf_ingredient_id :: int
  ntf_ingredient_name :: string
  ntf_unit :: string
  ntf_opening_quantity :: dec
  ntf_reorder_threshold :: dec
  ntf_opened_at :: datetime
  ntf_outcome :: string
  ntf_reason :: "string option"
  ntf_correlation_id :: string

record event_diagnostic =
  dgn_event_id :: uuid
  dgn_organization_id :: uuid
  dgn_restaurant_id :: int
  dgn_event_type :: string
  dgn_aggregate_type :: string
  dgn_aggregate_id :: string
  dgn_aggregate_revision :: int
  dgn_correlation_id :: string
  dgn_facts :: "(string \<times> json) list"

section \<open>The database\<close>

text \<open>
  All tables, a counter per identity column, and the supply of UUIDs: \<open>uuid4()\<close> returns a value
  that has not been used, which the model draws from \<open>next_uuid\<close>.
\<close>

record db =
  users :: "user list"
  organizations :: "organization list"
  memberships :: "membership list"
  restaurant_assignments :: "assignment list"
  restaurants :: "restaurant list"
  audit_entries :: "audit_entry list"
  menus :: "menu list"
  menu_items :: "menu_item list"
  recipe_components :: "recipe_component list"
  ingredients :: "ingredient list"
  balances :: "balance list"
  episodes :: "episode list"
  movements :: "movement list"
  orders :: "order list"
  order_items :: "order_item list"
  order_submissions :: "order_submission list"
  outbox_events :: "outbox_event list"
  deliveries :: "delivery list"
  receipts :: "receipt list"
  attempts :: "attempt list"
  replays :: "delivery_replay list"
  alert_episodes :: "episode list"
  alert_states :: "alert_state list"
  contributions :: "contribution list"
  daily_rows :: "daily_sales list"
  notification_stubs :: "notification_stub list"
  diagnostics :: "event_diagnostic list"
  next_uuid :: uuid
  next_serial :: int

text \<open>
  \<open>next_serial\<close> feeds every integer identity column. PostgreSQL keeps a sequence per table; what
  the code relies on is that a new identity is positive and unused in its table.
\<close>

definition empty_db :: db where
  "empty_db = \<lparr>users = [], organizations = [], memberships = [], restaurant_assignments = [],
     restaurants = [], audit_entries = [], menus = [], menu_items = [], recipe_components = [],
     ingredients = [], balances = [], episodes = [], movements = [], orders = [],
     order_items = [], order_submissions = [], outbox_events = [], deliveries = [],
     receipts = [], attempts = [], replays = [], alert_episodes = [], alert_states = [],
     contributions = [], daily_rows = [], notification_stubs = [], diagnostics = [],
     next_uuid = 1, next_serial = 1\<rparr>"

text \<open>
  What the environment supplies to one call: the authenticated principal, the request and
  correlation identifiers, the current trace and the clock.
\<close>

record invocation =
  iv_user_id :: uuid
  iv_request_id :: "string option"
  iv_correlation_id :: string
  iv_traceparent :: "string option"
  iv_now :: instant

section \<open>Constraints\<close>

definition organization_check :: "organization \<Rightarrow> bool" where
  "organization_check o' = (py_strip (org_name o') \<noteq> []
     \<and> org_slug o' = py_casefold (py_strip (org_slug o')) \<and> org_slug o' \<noteq> []
     \<and> org_status o' \<in> set [''active'', ''archived''])"

definition ingredient_check :: "ingredient \<Rightarrow> bool" where
  "ingredient_check i = (valid_unit (ing_unit i)
     \<and> 0 \<le> ing_reorder_threshold i \<and> ing_reorder_threshold i \<le> 999999999999 / 1000
     \<and> 1 \<le> ing_state_revision i)"

definition balance_check :: "balance \<Rightarrow> bool" where
  "balance_check b = (0 \<le> bal_quantity b \<and> bal_quantity b \<le> 999999999999 / 1000
     \<and> 1 \<le> bal_version b)"

definition movement_check :: "movement \<Rightarrow> bool" where
  "movement_check m =
     (- (999999999999 / 1000) \<le> mov_quantity_delta m \<and> mov_quantity_delta m \<le> 999999999999 / 1000
     \<and> 1 \<le> mov_version_after m
     \<and> (mov_kind m \<in> set [''opening'', ''receipt''] \<and> 0 \<le> mov_quantity_delta m
        \<or> mov_kind m \<in> set [''waste'', ''consumption''] \<and> mov_quantity_delta m < 0
        \<or> mov_kind m = ''count'')
     \<and> mov_kind m \<in> set [''opening'', ''receipt'', ''waste'', ''count'', ''consumption'']
     \<and> (mov_kind m = ''consumption'' \<and> mov_order_id m \<noteq> None \<and> mov_idempotency_key m = None
        \<or> mov_kind m \<noteq> ''consumption'' \<and> mov_order_id m = None \<and> mov_idempotency_key m \<noteq> None)
     \<and> 0 \<le> mov_balance_after m \<and> mov_balance_after m \<le> 999999999999 / 1000)"

definition episode_sources :: "string list" where
  "episode_sources = [''ingredient_creation'', ''ingredient_update'', ''stock_command'',
     ''order_acceptance'', ''maintenance_initialization'']"

definition episode_opening_check :: "episode \<Rightarrow> bool" where
  "episode_opening_check e =
     (0 < ep_restaurant_id e \<and> 0 < ep_ingredient_id e \<and> valid_unit (ep_unit e)
     \<and> py_strip (ep_ingredient_name e) \<noteq> []
     \<and> 0 \<le> ep_opening_quantity e \<and> ep_opening_quantity e \<le> 999999999999 / 1000
     \<and> 0 \<le> ep_opening_reorder_threshold e \<and> ep_opening_reorder_threshold e \<le> 999999999999 / 1000
     \<and> ep_opening_quantity e \<le> ep_opening_reorder_threshold e
     \<and> 1 \<le> ep_opening_revision e
     \<and> ep_opening_source e \<in> set episode_sources
     \<and> (ep_opening_source e = ''order_acceptance'' \<longleftrightarrow> ep_opening_order_id e \<noteq> None)
     \<and> (\<not> ep_notification_suppressed e \<or> ep_opening_source e = ''maintenance_initialization''))"

definition episode_unresolved :: "episode \<Rightarrow> bool" where
  "episode_unresolved e = (ep_resolved_at e = None \<and> ep_resolution_reason e = None
     \<and> ep_closing_quantity e = None \<and> ep_closing_reorder_threshold e = None
     \<and> ep_closing_is_active e = None \<and> ep_resolution_revision e = None
     \<and> ep_resolution_source e = None \<and> ep_resolution_actor_user_id e = None
     \<and> ep_resolution_order_id e = None)"

definition episode_resolution_check :: "episode \<Rightarrow> bool" where
  "episode_resolution_check e =
     ((episode_unresolved e \<or> list_all id (resolution_values e))
     \<and> (case ep_resolution_reason e of None \<Rightarrow> True
        | Some r \<Rightarrow> r \<in> set [''stock_recovered'', ''threshold_changed'', ''archived''])
     \<and> (case ep_resolution_source e of None \<Rightarrow> ep_resolution_order_id e = None
        | Some s \<Rightarrow> s \<in> set episode_sources
            \<and> (s = ''order_acceptance'' \<longleftrightarrow> ep_resolution_order_id e \<noteq> None))
     \<and> (case ep_resolution_revision e of None \<Rightarrow> True | Some r \<Rightarrow> ep_opening_revision e < r)
     \<and> (case (ep_closing_is_active e, ep_closing_quantity e, ep_closing_reorder_threshold e) of
          (Some True, Some q, Some h) \<Rightarrow> h < q | _ \<Rightarrow> True))"

definition episode_check :: "episode \<Rightarrow> bool" where
  "episode_check e = (episode_opening_check e \<and> episode_resolution_check e)"

definition claim_fields_ok :: "delivery \<Rightarrow> bool" where
  "claim_fields_ok d =
     (dlv_claim_token d = None \<and> dlv_claim_owner d = None \<and> dlv_claim_expires_at d = None
      \<or> dlv_claim_token d \<noteq> None \<and> dlv_claim_owner d \<noteq> None \<and> dlv_claim_expires_at d \<noteq> None)"

definition delivery_check :: "delivery \<Rightarrow> bool" where
  "delivery_check d = (0 \<le> dlv_attempt_count d \<and> 0 \<le> dlv_retry_cycle d \<and> claim_fields_ok d)"

definition outbox_event_check :: "outbox_event \<Rightarrow> bool" where
  "outbox_event_check e = (let r = evt_facts e in
     supported_event_type (raw_event_type r) \<noteq> None \<and> raw_schema_version r = 1
     \<and> raw_aggregate_type r \<in> set [''order'', ''menu'', ''menu_item'', ''ingredient'']
     \<and> 1 \<le> raw_aggregate_revision r \<and> 0 < raw_restaurant_id r)"

definition contribution_check :: "contribution \<Rightarrow> bool" where
  "contribution_check c = (1 \<le> con_revision c \<and> 0 < con_order_id c \<and> 0 \<le> con_total c
     \<and> (con_state c = Completed \<or> con_total c = 0))"

definition daily_check :: "daily_sales \<Rightarrow> bool" where
  "daily_check d = (0 \<le> day_order_count d \<and> 0 \<le> day_sales d)"

definition alert_state_check :: "alert_state \<Rightarrow> bool" where
  "alert_state_check s = (0 < als_ingredient_id s \<and> 1 \<le> als_revision s
     \<and> 0 \<le> als_quantity s \<and> 0 \<le> als_reorder_threshold s
     \<and> als_is_low s = (als_is_active s \<and> als_quantity s \<le> als_reorder_threshold s))"

end
