(* ===== verification/Access.thy ===== *)
theory Access
  imports Schema
begin

text \<open>
  The tenancy interface every service goes through (\<open>tenancy/access.py\<close>,
  \<open>tenancy/repo/access.py\<close>): the access context of the principal, read afresh from the database,
  and the predicate that scopes a query to the restaurants of that context. Row locks
  (\<open>with_for_update\<close>) serialise concurrent transactions; a transaction of the model runs alone.
\<close>

section \<open>Operations\<close>

definition active_organization :: "db \<Rightarrow> uuid \<Rightarrow> organization option" where
  "active_organization s organization_id =
     select_one (\<lambda>o'. org_id o' = organization_id \<and> org_status o' = ''active'') (organizations s)"

definition no_membership_error :: app_error where
  "no_membership_error = ForbiddenError ''Active organization membership required''"

definition current :: "db \<Rightarrow> uuid \<Rightarrow> access_context result" where
  "current s principal_id =
     or_raise (select_one (\<lambda>m. mem_user_id m = principal_id \<and> mem_status m = ''active''
         \<and> active_organization s (mem_organization_id m) \<noteq> None) (memberships s))
       no_membership_error (\<lambda>m.
     or_raise (active_organization s (mem_organization_id m)) no_membership_error (\<lambda>o'.
     Inr \<lparr>ac_user_id = principal_id, ac_membership_id = mem_id m,
          ac_organization_id = mem_organization_id m, ac_organization_number = org_number o',
          ac_role = mem_role m,
          ac_restaurant_ids = map asg_restaurant_id
            (filter (\<lambda>a. asg_membership_id a = mem_id m
               \<and> asg_organization_id a = mem_organization_id m) (restaurant_assignments s))\<rparr>))"

definition restaurant_scope :: "access_context \<Rightarrow> restaurant \<Rightarrow> bool" where
  "restaurant_scope context r = (rst_organization_id r = ac_organization_id context
     \<and> (ac_role context \<noteq> OWNER \<longrightarrow> rst_id r \<in> set (ac_restaurant_ids context)))"

definition restaurant_exists :: "db \<Rightarrow> access_context \<Rightarrow> int \<Rightarrow> bool" where
  "restaurant_exists s context restaurant_id =
     exists_row (\<lambda>r. rst_id r = restaurant_id \<and> restaurant_scope context r) (restaurants s)"

definition restaurant_not_found :: app_error where
  "restaurant_not_found = NotFoundError ''Restaurant not found''"

text \<open>\<open>await self._access.restaurant(context, restaurant_id, capability)\<close>, then the rest.\<close>

definition access_restaurant ::
  "db \<Rightarrow> access_context \<Rightarrow> int \<Rightarrow> string \<Rightarrow> 'a result \<Rightarrow> 'a result" where
  "access_restaurant s context restaurant_id capability rest =
     raise_if (\<not> restaurant_exists s context restaurant_id) restaurant_not_found
       (require_capability context capability rest)"

text \<open>\<open>normalize_email\<close> and \<open>active_account_id\<close> of the authentication module.\<close>

definition normalize_email :: "string \<Rightarrow> string" where
  "normalize_email email = py_casefold (py_strip email)"

definition active_account_id :: "db \<Rightarrow> string \<Rightarrow> uuid option" where
  "active_account_id s email =
     (case select_one (\<lambda>u. usr_email u = normalize_email email) (users s) of
        None \<Rightarrow> None
      | Some u \<Rightarrow> if usr_status u = ''active'' then Some (usr_id u) else None)"

section \<open>Lemmas\<close>

lemma access_restaurant_Inr [res_simps]:
  "access_restaurant s context rid c rest = Inr y \<longleftrightarrow>
     restaurant_exists s context rid \<and> c \<in> set (role_capabilities (ac_role context)) \<and> rest = Inr y"
  by (simp add: access_restaurant_def res_simps)

text \<open>The context belongs to an active membership of the principal in an active organization.\<close>

lemma current_Inr:
  assumes "current s u = Inr context"
  shows "ac_user_id context = u
    \<and> (\<exists>m \<in> set (memberships s). mem_id m = ac_membership_id context \<and> mem_user_id m = u
        \<and> mem_status m = ''active'' \<and> mem_role m = ac_role context
        \<and> mem_organization_id m = ac_organization_id context)
    \<and> (\<exists>o' \<in> set (organizations s). org_id o' = ac_organization_id context
        \<and> org_status o' = ''active'')"
proof -
  obtain m o' where m: "select_one (\<lambda>m. mem_user_id m = u \<and> mem_status m = ''active''
         \<and> active_organization s (mem_organization_id m) \<noteq> None) (memberships s) = Some m"
    and o': "active_organization s (mem_organization_id m) = Some o'"
    and ctx: "ac_user_id context = u" "ac_membership_id context = mem_id m"
      "ac_organization_id context = mem_organization_id m" "ac_role context = mem_role m"
    using assms by (auto simp: current_def res_simps)
  from select_one_Some [OF m] select_one_Some [OF o' [unfolded active_organization_def]]
  show ?thesis using ctx by auto
qed

lemma current_organization_in_scope:
  assumes "restaurant_exists s context rid"
  shows "\<exists>r \<in> set (restaurants s). rst_id r = rid
    \<and> rst_organization_id r = ac_organization_id context \<and> permits_restaurant context rid"
  using assms by (auto simp: restaurant_exists_def exists_row_iff restaurant_scope_def
      permits_restaurant_def)

text \<open>Reads of the access context only look at the tenancy tables.\<close>

lemma current_cong:
  "memberships s = memberships t \<Longrightarrow> organizations s = organizations t \<Longrightarrow>
   restaurant_assignments s = restaurant_assignments t \<Longrightarrow> current s u = current t u"
  by (simp add: current_def active_organization_def)

lemma restaurant_exists_cong:
  "restaurants s = restaurants t \<Longrightarrow> restaurant_exists s context rid = restaurant_exists t context rid"
  by (simp add: restaurant_exists_def)

end
