(* ===== verification/Audit_Trail.thy ===== *)
theory Audit_Trail
  imports Access
begin

text \<open>
  The audit module: the field allowlist (\<open>audit/domain/policies.py\<close>), staging an entry in the
  caller's transaction (\<open>audit/service.py\<close>) and the owner's read of the organization's entries.
\<close>

section \<open>Operations\<close>

definition safe_fields :: "string list" where
  "safe_fields = [''role'', ''status'', ''restaurant_ids'', ''price'', ''is_available'',
     ''payment_status'', ''quantity'', ''total'', ''fields'', ''outcome'']"

definition safe_changes :: "(string \<times> json) list \<Rightarrow> (string \<times> json) list" where
  "safe_changes changes = filter (\<lambda>(key, value). key \<in> set safe_fields) changes"

text \<open>\<open>record(session, context, action, resource_type, resource_id, restaurant_id=, changes=)\<close>.\<close>

definition record_audit ::
  "invocation \<Rightarrow> access_context \<Rightarrow> string \<Rightarrow> string \<Rightarrow> string \<Rightarrow> int option
     \<Rightarrow> (string \<times> json) list \<Rightarrow> db \<Rightarrow> db" where
  "record_audit iv context action resource_type resource_id restaurant_id changes s =
     s\<lparr>audit_entries := audit_entries s @
         [\<lparr>aud_id = next_uuid s, aud_organization_id = ac_organization_id context,
           aud_restaurant_id = restaurant_id, aud_actor_user_id = Some (ac_user_id context),
           aud_action = action, aud_resource_type = resource_type,
           aud_resource_id = resource_id, aud_changes = safe_changes changes,
           aud_request_id = iv_request_id iv, aud_occurred_at = iv_now iv\<rparr>],
       next_uuid := next_uuid s + 1\<rparr>"

definition list_entries :: "db \<Rightarrow> uuid \<Rightarrow> nat \<Rightarrow> nat \<Rightarrow> audit_entry list" where
  "list_entries s organization_id limit offset =
     take limit (drop offset
       (sort_key (\<lambda>a. - aud_occurred_at a) (sort_key aud_id
         (filter (\<lambda>a. aud_organization_id a = organization_id) (audit_entries s)))))"

definition audit_entries_of :: "invocation \<Rightarrow> nat \<Rightarrow> nat \<Rightarrow> db \<Rightarrow> audit_entry list result" where
  "audit_entries_of iv limit offset s =
     bindR (current s (iv_user_id iv)) (\<lambda>context.
     require_capability context ''audit.read'' (
     Inr (list_entries s (ac_organization_id context) limit offset)))"

section \<open>Lemmas\<close>

text \<open>An audit entry touches the audit table and the UUID supply, nothing else.\<close>

lemma record_audit_simps [simp]:
  "users (record_audit iv c a t i r ch s) = users s"
  "organizations (record_audit iv c a t i r ch s) = organizations s"
  "memberships (record_audit iv c a t i r ch s) = memberships s"
  "restaurant_assignments (record_audit iv c a t i r ch s) = restaurant_assignments s"
  "restaurants (record_audit iv c a t i r ch s) = restaurants s"
  "menus (record_audit iv c a t i r ch s) = menus s"
  "menu_items (record_audit iv c a t i r ch s) = menu_items s"
  "recipe_components (record_audit iv c a t i r ch s) = recipe_components s"
  "ingredients (record_audit iv c a t i r ch s) = ingredients s"
  "balances (record_audit iv c a t i r ch s) = balances s"
  "episodes (record_audit iv c a t i r ch s) = episodes s"
  "movements (record_audit iv c a t i r ch s) = movements s"
  "orders (record_audit iv c a t i r ch s) = orders s"
  "order_items (record_audit iv c a t i r ch s) = order_items s"
  "order_submissions (record_audit iv c a t i r ch s) = order_submissions s"
  "outbox_events (record_audit iv c a t i r ch s) = outbox_events s"
  "deliveries (record_audit iv c a t i r ch s) = deliveries s"
  "receipts (record_audit iv c a t i r ch s) = receipts s"
  "attempts (record_audit iv c a t i r ch s) = attempts s"
  "next_serial (record_audit iv c a t i r ch s) = next_serial s"
  "next_uuid (record_audit iv c a t i r ch s) = next_uuid s + 1"
  by (simp_all add: record_audit_def)

lemma safe_changes_fields: "(k, v) \<in> set (safe_changes changes) \<Longrightarrow> k \<in> set safe_fields"
  by (auto simp: safe_changes_def)

end
