(* ===== verification/Tenancy.thy ===== *)
theory Tenancy
  imports Audit_Trail
begin

text \<open>
  Organization bootstrap and owner-only membership administration (\<open>tenancy/service.py\<close> and
  \<open>tenancy/repo/memberships.py\<close>).
\<close>

section \<open>Repository\<close>

definition membership_get :: "db \<Rightarrow> uuid \<Rightarrow> uuid \<Rightarrow> membership option" where
  "membership_get s membership_id organization_id =
     select_one (\<lambda>m. mem_id m = membership_id \<and> mem_organization_id m = organization_id)
       (memberships s)"

definition membership_for_user :: "db \<Rightarrow> uuid \<Rightarrow> membership option" where
  "membership_for_user s user_id = select_one (\<lambda>m. mem_user_id m = user_id) (memberships s)"

definition list_for_organization :: "db \<Rightarrow> uuid \<Rightarrow> membership list" where
  "list_for_organization s organization_id =
     sort_key mem_created_at (sort_key mem_id
       (filter (\<lambda>m. mem_organization_id m = organization_id) (memberships s)))"

definition is_active_owner :: "db \<Rightarrow> uuid \<Rightarrow> membership \<Rightarrow> bool" where
  "is_active_owner s organization_id m = (mem_organization_id m = organization_id
     \<and> mem_status m = ''active'' \<and> mem_role m = OWNER
     \<and> exists_row (\<lambda>u. usr_id u = mem_user_id m \<and> usr_status u = ''active'') (users s))"

definition owner_count :: "db \<Rightarrow> uuid \<Rightarrow> nat" where
  "owner_count s organization_id = length (filter (is_active_owner s organization_id) (memberships s))"

text \<open>\<open>assign\<close>: \<open>None\<close> stands for the return value \<open>False\<close>.\<close>

definition assign :: "membership \<Rightarrow> int list \<Rightarrow> db \<Rightarrow> db option" where
  "assign member restaurant_ids s =
     (let allowed = map rst_id (filter (\<lambda>r. rst_organization_id r = mem_organization_id member
            \<and> rst_id r \<in> set restaurant_ids) (restaurants s)) in
      if set restaurant_ids \<noteq> set allowed then None
      else Some (s\<lparr>restaurant_assignments :=
        delete_where (\<lambda>a. asg_membership_id a = mem_id member) (restaurant_assignments s)
        @ map (\<lambda>i. \<lparr>asg_membership_id = mem_id member, asg_restaurant_id = i,
                     asg_organization_id = mem_organization_id member\<rparr>)
            (sort (remdups restaurant_ids))\<rparr>))"

definition save_membership :: "membership \<Rightarrow> db \<Rightarrow> db" where
  "save_membership m s = s\<lparr>memberships := store_row mem_id m (memberships s)\<rparr>"

section \<open>Service\<close>

definition role_name :: "membership_role \<Rightarrow> string" where
  "role_name r = (case r of OWNER \<Rightarrow> ''OWNER'' | MANAGER \<Rightarrow> ''MANAGER'' | EMPLOYEE \<Rightarrow> ''EMPLOYEE'')"

definition create_organization :: "invocation \<Rightarrow> string \<Rightarrow> string \<Rightarrow> db \<Rightarrow> (organization \<times> db) result" where
  "create_organization iv name slug s =
     raise_if (membership_for_user s (iv_user_id iv) \<noteq> None)
       (ConflictError ''User already belongs to an organization'') (
     let org = \<lparr>org_id = next_uuid s, org_number = next_serial s, org_name = name,
                org_slug = slug, org_status = ''active''\<rparr>;
         owner = \<lparr>mem_id = next_uuid s + 1, mem_user_id = iv_user_id iv,
                  mem_organization_id = org_id org, mem_role = OWNER, mem_status = ''active'',
                  mem_created_at = iv_now iv\<rparr> in
     raise_if (\<not> organization_check org
         \<or> exists_row (\<lambda>o'. org_slug o' = slug) (organizations s)
         \<or> \<not> exists_row (\<lambda>u. usr_id u = iv_user_id iv) (users s))
       (ConflictError ''Organization or membership already exists'') (
     let context = \<lparr>ac_user_id = iv_user_id iv, ac_membership_id = mem_id owner,
                    ac_organization_id = org_id org, ac_organization_number = org_number org,
                    ac_role = mem_role owner, ac_restaurant_ids = []\<rparr>;
         s1 = s\<lparr>organizations := organizations s @ [org], memberships := memberships s @ [owner],
                next_uuid := next_uuid s + 2, next_serial := next_serial s + 1\<rparr>;
         s2 = record_audit iv context ''organization.created'' ''organization''
                (py_str_uuid (org_id org)) None [] s1;
         s3 = record_audit iv context ''membership.created'' ''membership''
                (py_str_uuid (mem_id owner)) None [(''role'', JStr ''OWNER'')] s2 in
     Inr (org, s3)))"

definition organization_of :: "invocation \<Rightarrow> db \<Rightarrow> organization result" where
  "organization_of iv s =
     bindR (current s (iv_user_id iv)) (\<lambda>context.
     or_raise (select_one (\<lambda>o'. org_id o' = ac_organization_id context) (organizations s))
       (AssertionError ''org is not None'') Inr)"

definition list_memberships :: "invocation \<Rightarrow> db \<Rightarrow> membership list result" where
  "list_memberships iv s =
     bindR (current s (iv_user_id iv)) (\<lambda>context.
     require_capability context ''staff.manage'' (
     Inr (list_for_organization s (ac_organization_id context))))"

text \<open>\<open>_owner\<close>: the second read sees the same rows, the organization being locked in between.\<close>

definition owner_context :: "invocation \<Rightarrow> db \<Rightarrow> access_context result" where
  "owner_context iv s =
     bindR (current s (iv_user_id iv)) (\<lambda>_.
     bindR (current s (iv_user_id iv)) (\<lambda>context.
     require_capability context ''staff.manage'' (Inr context)))"

definition create_membership ::
  "invocation \<Rightarrow> string \<Rightarrow> membership_role \<Rightarrow> int list \<Rightarrow> db \<Rightarrow> (membership \<times> db) result" where
  "create_membership iv email role restaurant_ids s =
     bindR (owner_context iv s) (\<lambda>context.
     or_raise (active_account_id s email) (NotFoundError ''Active provisioned account not found'')
     (\<lambda>user_id.
     raise_if (membership_for_user s user_id \<noteq> None)
       (ConflictError ''User already belongs to an organization'') (
     let member = \<lparr>mem_id = next_uuid s, mem_user_id = user_id,
                   mem_organization_id = ac_organization_id context, mem_role = role,
                   mem_status = ''active'', mem_created_at = iv_now iv\<rparr>;
         s1 = s\<lparr>memberships := memberships s @ [member], next_uuid := next_uuid s + 1\<rparr> in
     or_raise (assign member restaurant_ids s1) restaurant_not_found (\<lambda>s2.
     Inr (member, record_audit iv context ''membership.created'' ''membership''
       (py_str_uuid (mem_id member)) None
       [(''role'', JStr (role_name role)),
        (''restaurant_ids'', JList (map JInt (sort (remdups restaurant_ids))))] s2)))))"

definition before_after :: "string \<Rightarrow> string \<Rightarrow> json" where
  "before_after x y = JObj [(''before'', JStr x), (''after'', JStr y)]"

definition update_membership ::
  "invocation \<Rightarrow> uuid \<Rightarrow> membership_role option \<Rightarrow> int list option \<Rightarrow> bool \<Rightarrow> db
     \<Rightarrow> (membership \<times> db) result" where
  "update_membership iv membership_id role restaurant_ids revoke s =
     bindR (owner_context iv s) (\<lambda>context.
     or_raise (membership_get s membership_id (ac_organization_id context))
       (NotFoundError ''Membership not found'') (\<lambda>before.
     raise_if (mem_role before = OWNER \<and> mem_status before = ''active''
         \<and> (revoke \<or> role \<notin> {None, Some OWNER})
         \<and> owner_count s (ac_organization_id context) \<le> 1)
       (ConflictError ''Cannot remove or demote the last active owner'') (
     let member = before\<lparr>mem_role := (case role of None \<Rightarrow> mem_role before | Some r \<Rightarrow> r),
                         mem_status := (if revoke then ''revoked'' else mem_status before)\<rparr>;
         s1 = save_membership member s in
     or_raise (case restaurant_ids of None \<Rightarrow> Some s1 | Some ids \<Rightarrow> assign member ids s1)
       restaurant_not_found (\<lambda>s2.
     Inr (member, record_audit iv context
       (if revoke then ''membership.revoked'' else ''membership.updated'') ''membership''
       (py_str_uuid (mem_id member)) None
       [(''role'', before_after (role_name (mem_role before)) (role_name (mem_role member))),
        (''status'', before_after (mem_status before) (mem_status member)),
        (''restaurant_ids'',
           json_opt (\<lambda>ids. JList (map JInt (sort (remdups ids)))) restaurant_ids)] s2)))))"

section \<open>Invariant\<close>

definition tenancy_inv :: "db \<Rightarrow> bool" where
  "tenancy_inv s = (unique_keys mem_id (memberships s) \<and> unique_keys mem_user_id (memberships s)
     \<and> (\<forall>m \<in> set (memberships s). mem_id m < next_uuid s)
     \<and> (\<forall>a \<in> set (restaurant_assignments s). \<exists>r \<in> set (restaurants s).
          rst_id r = asg_restaurant_id a \<and> rst_organization_id r = asg_organization_id a))"

text \<open>The writes of the service, by any caller with any arguments.\<close>

inductive tenancy_step :: "db \<Rightarrow> db \<Rightarrow> bool" where
  step_create_organization: "create_organization iv name slug s = Inr (org, t) \<Longrightarrow> tenancy_step s t"
| step_create_membership: "create_membership iv email role ids s = Inr (m, t) \<Longrightarrow> tenancy_step s t"
| step_update_membership:
    "update_membership iv mid new_role new_ids revoke s = Inr (m, t) \<Longrightarrow> tenancy_step s t"

inductive_cases tenancy_stepE: "tenancy_step s t"

lemma assign_Some:
  assumes "assign member ids s = Some t"
  shows "memberships t = memberships s \<and> users t = users s \<and> restaurants t = restaurants s
    \<and> organizations t = organizations s \<and> next_uuid t = next_uuid s
    \<and> (\<forall>a \<in> set (restaurant_assignments t). a \<in> set (restaurant_assignments s)
        \<or> (\<exists>r \<in> set (restaurants s). rst_id r = asg_restaurant_id a
             \<and> rst_organization_id r = asg_organization_id a))"
proof -
  let ?allowed = "map rst_id (filter (\<lambda>r. rst_organization_id r = mem_organization_id member
    \<and> rst_id r \<in> set ids) (restaurants s))"
  have ids: "set ids = set ?allowed" and t: "t = s\<lparr>restaurant_assignments :=
        delete_where (\<lambda>a. asg_membership_id a = mem_id member) (restaurant_assignments s)
        @ map (\<lambda>i. \<lparr>asg_membership_id = mem_id member, asg_restaurant_id = i,
                     asg_organization_id = mem_organization_id member\<rparr>)
            (sort (remdups ids))\<rparr>"
    using assms by (auto simp: assign_def Let_def split: if_splits)
  have "\<exists>r \<in> set (restaurants s). rst_id r = i \<and> rst_organization_id r = mem_organization_id member"
    if "i \<in> set ids" for i
  proof -
    have "i \<in> set ?allowed" using that ids by blast
    then show ?thesis by auto
  qed
  then show ?thesis by (auto simp: t set_delete_where)
qed

lemma owner_context_Inr:
  "owner_context iv s = Inr context \<Longrightarrow> current s (iv_user_id iv) = Inr context"
  by (auto simp: owner_context_def res_simps)

text \<open>What an accepted membership update writes.\<close>

lemma update_membership_Inr:
  assumes "update_membership iv mid role ids revoke s = Inr (member, t)"
  obtains ctx before where
    "current s (iv_user_id iv) = Inr ctx"
    "membership_get s mid (ac_organization_id ctx) = Some before"
    "mem_id member = mem_id before" "mem_user_id member = mem_user_id before"
    "mem_organization_id member = mem_organization_id before"
    "memberships t = store_row mem_id member (memberships s)"
    "users t = users s" "restaurants t = restaurants s" "next_uuid s \<le> next_uuid t"
    "mem_role before = OWNER \<Longrightarrow> mem_status before = ''active'' \<Longrightarrow>
       mem_role member = OWNER \<and> mem_status member = ''active''
       \<or> 1 < owner_count s (ac_organization_id ctx)"
    "\<forall>a \<in> set (restaurant_assignments t). a \<in> set (restaurant_assignments s)
        \<or> (\<exists>r \<in> set (restaurants s). rst_id r = asg_restaurant_id a
             \<and> rst_organization_id r = asg_organization_id a)"
proof -
  from assms obtain ctx before s2 where
    oc: "owner_context iv s = Inr ctx"
    and before: "membership_get s mid (ac_organization_id ctx) = Some before"
    and guard: "\<not> (mem_role before = OWNER \<and> mem_status before = ''active''
         \<and> (revoke \<or> role \<notin> {None, Some OWNER}) \<and> owner_count s (ac_organization_id ctx) \<le> 1)"
    and member: "member = before\<lparr>mem_role := (case role of None \<Rightarrow> mem_role before | Some r \<Rightarrow> r),
         mem_status := (if revoke then ''revoked'' else mem_status before)\<rparr>"
    and s2: "(case ids of None \<Rightarrow> Some (save_membership member s)
         | Some i \<Rightarrow> assign member i (save_membership member s)) = Some s2"
    and t: "\<exists>a ch. t = record_audit iv ctx a ''membership'' (py_str_uuid (mem_id member)) None ch s2"
    unfolding update_membership_def Let_def res_simps prod.inject sum.inject by blast
  have s2': "memberships s2 = store_row mem_id member (memberships s) \<and> users s2 = users s
    \<and> restaurants s2 = restaurants s \<and> next_uuid s2 = next_uuid s
    \<and> (\<forall>a \<in> set (restaurant_assignments s2). a \<in> set (restaurant_assignments s)
        \<or> (\<exists>r \<in> set (restaurants s). rst_id r = asg_restaurant_id a
             \<and> rst_organization_id r = asg_organization_id a))"
    using s2 by (cases ids) (auto simp: save_membership_def dest!: assign_Some)
  show ?thesis
    by (rule that [OF owner_context_Inr [OF oc] before])
      (use t s2' guard in \<open>auto simp: member split: option.splits\<close>)
qed

text \<open>Table contracts of the memberships.\<close>

interpretation membership_repo: repository mem_id memberships save_membership
  by standard (simp add: save_membership_def)

lemma unique_user_store_row:
  assumes "unique_keys mem_user_id rows" "before \<in> set rows" "unique_keys mem_id rows"
    and "mem_id member = mem_id before" "mem_user_id member = mem_user_id before"
  shows "unique_keys mem_user_id (store_row mem_id member rows)"
proof -
  have "x = before" if "x \<in> set rows" "mem_id x = mem_id member" for x
    using unique_keys_eq [OF assms(3) that(1) assms(2)] that(2) assms(4) by simp
  then have "map mem_user_id (store_row mem_id member rows) = map mem_user_id rows"
    using assms(5) by (auto simp: store_row_def update_where_def)
  then show ?thesis using assms(1) by (simp add: unique_keys_def)
qed

lemma update_membership_inv:
  assumes "update_membership iv mid role ids revoke s = Inr (member, t)" and inv: "tenancy_inv s"
  shows "tenancy_inv t"
  using assms(1)
proof (cases rule: update_membership_Inr)
  case (1 ctx before)
  have before: "before \<in> set (memberships s)"
    using select_one_Some [OF 1(2) [unfolded membership_get_def]] by simp
  show ?thesis unfolding tenancy_inv_def
  proof (intro conjI)
    show "unique_keys mem_user_id (memberships t)"
      using unique_user_store_row [OF _ before] inv 1 by (auto simp: tenancy_inv_def)
    show "\<forall>m \<in> set (memberships t). mem_id m < next_uuid t"
      using before inv 1(3,6,9) by (fastforce simp: tenancy_inv_def dest: in_store_row)
  qed (use inv 1 in \<open>auto simp: tenancy_inv_def\<close>)
qed

lemma update_membership_owner:
  assumes "update_membership iv mid role ids revoke s = Inr (member, t)" and inv: "tenancy_inv s"
    and "1 \<le> owner_count s org"
  shows "1 \<le> owner_count t org"
  using assms(1)
proof (cases rule: update_membership_Inr)
  case (1 ctx before)
  have before: "before \<in> set (memberships s)" "mem_organization_id before = ac_organization_id ctx"
    using select_one_Some [OF 1(2) [unfolded membership_get_def]] by simp_all
  have owner_t: "is_active_owner t org = is_active_owner s org"
    by (rule ext) (simp add: is_active_owner_def 1(7))
  have same: "x = before" if "x \<in> set (memberships s)" "mem_id x = mem_id member" for x
    using unique_keys_eq [where key = mem_id, OF _ that(1) before(1)] inv that(2) 1(3)
    by (simp add: tenancy_inv_def)
  show ?thesis
  proof (cases "is_active_owner s org before \<and> \<not> is_active_owner s org member")
    case True
    then have "1 < owner_count s org" using 1(4,5,10) before(2) by (auto simp: is_active_owner_def)
    moreover have "owner_count s org \<le> owner_count t org + 1"
      using inv unfolding owner_count_def owner_t 1(6)
      by (intro length_filter_store_row) (simp add: tenancy_inv_def)
    ultimately show ?thesis by simp
  next
    case False
    then have "owner_count s org \<le> owner_count t org"
      unfolding owner_count_def owner_t 1(6)
      by (intro length_filter_store_row_mono) (use same in blast)
    then show ?thesis using assms(3) by simp
  qed
qed

lemma create_membership_Inr:
  assumes "create_membership iv email role ids s = Inr (m, t)"
  shows "memberships t = memberships s @ [m] \<and> users t = users s \<and> restaurants t = restaurants s
    \<and> mem_id m = next_uuid s \<and> next_uuid s < next_uuid t
    \<and> mem_user_id m \<notin> mem_user_id ` set (memberships s)
    \<and> (\<forall>a \<in> set (restaurant_assignments t). a \<in> set (restaurant_assignments s)
        \<or> (\<exists>r \<in> set (restaurants s). rst_id r = asg_restaurant_id a
             \<and> rst_organization_id r = asg_organization_id a))"
proof -
  from assms obtain ctx user_id s2 where
    u: "membership_for_user s user_id = None"
    and m: "m = \<lparr>mem_id = next_uuid s, mem_user_id = user_id,
         mem_organization_id = ac_organization_id ctx, mem_role = role,
         mem_status = ''active'', mem_created_at = iv_now iv\<rparr>"
    and s2: "assign m ids (s\<lparr>memberships := memberships s @ [m], next_uuid := next_uuid s + 1\<rparr>) = Some s2"
    and t: "\<exists>a ch. t = record_audit iv ctx a ''membership'' (py_str_uuid (mem_id m)) None ch s2"
    unfolding create_membership_def Let_def res_simps prod.inject sum.inject by blast
  have "user_id \<notin> mem_user_id ` set (memberships s)"
    using u by (auto simp: membership_for_user_def select_one_None)
  with assign_Some [OF s2] t show ?thesis by (auto simp: m)
qed

lemma create_organization_Inr:
  assumes "create_organization iv name slug s = Inr (org, t)"
  shows "\<exists>m. memberships t = memberships s @ [m] \<and> mem_id m = next_uuid s + 1
    \<and> mem_user_id m = iv_user_id iv \<and> mem_organization_id m = org_id org \<and> mem_role m = OWNER
    \<and> mem_status m = ''active'' \<and> iv_user_id iv \<notin> mem_user_id ` set (memberships s)
    \<and> users t = users s \<and> restaurants t = restaurants s \<and> next_uuid s + 1 < next_uuid t
    \<and> restaurant_assignments t = restaurant_assignments s
    \<and> organizations t = organizations s @ [org]"
proof -
  have none: "membership_for_user s (iv_user_id iv) = None"
    using assms by (auto simp: create_organization_def res_simps)
  then have "iv_user_id iv \<notin> mem_user_id ` set (memberships s)"
    by (auto simp: membership_for_user_def select_one_None)
  then show ?thesis using assms none by (auto simp: create_organization_def Let_def res_simps)
qed

lemma tenancy_inv_add:
  assumes "tenancy_inv s" and "memberships t = memberships s @ [m]" "restaurants t = restaurants s"
    and "next_uuid s \<le> mem_id m" "mem_id m < next_uuid t"
    and "mem_user_id m \<notin> mem_user_id ` set (memberships s)"
    and "\<forall>a \<in> set (restaurant_assignments t). a \<in> set (restaurant_assignments s)
        \<or> (\<exists>r \<in> set (restaurants s). rst_id r = asg_restaurant_id a
             \<and> rst_organization_id r = asg_organization_id a)"
  shows "tenancy_inv t"
proof -
  have "mem_id m \<notin> mem_id ` set (memberships s)"
    using assms(1,4) by (auto simp: tenancy_inv_def)
  moreover have "\<forall>x \<in> set (memberships s). mem_id x < next_uuid t"
    using assms(1,4,5) by (auto simp: tenancy_inv_def)
  ultimately show ?thesis using assms by (auto simp: tenancy_inv_def)
qed

lemma tenancy_step_inv: "tenancy_step s t \<Longrightarrow> tenancy_inv s \<Longrightarrow> tenancy_inv t"
proof (erule tenancy_stepE)
  fix iv email role ids m
  assume "create_membership iv email role ids s = Inr (m, t)" "tenancy_inv s"
  then show "tenancy_inv t"
    using create_membership_Inr [of iv email role ids s m t] by (auto intro: tenancy_inv_add)
next
  fix iv name slug org
  assume "create_organization iv name slug s = Inr (org, t)" "tenancy_inv s"
  then show "tenancy_inv t"
    using create_organization_Inr [of iv name slug s org t] tenancy_inv_add [of s t] by force
qed (rule update_membership_inv)

lemma tenancy_step_owner:
  "tenancy_step s t \<Longrightarrow> tenancy_inv s \<Longrightarrow> 1 \<le> owner_count s org \<Longrightarrow> 1 \<le> owner_count t org"
proof (erule tenancy_stepE)
  fix iv email role ids m
  assume "create_membership iv email role ids s = Inr (m, t)" "1 \<le> owner_count s org"
  moreover from this(1) have "is_active_owner t org = is_active_owner s org"
    by (intro ext) (auto dest: create_membership_Inr simp: is_active_owner_def)
  ultimately show "1 \<le> owner_count t org"
    by (auto dest!: create_membership_Inr simp: owner_count_def)
next
  fix iv name slug org'
  assume "create_organization iv name slug s = Inr (org', t)" "1 \<le> owner_count s org"
  moreover from this(1) have "is_active_owner t org = is_active_owner s org"
    by (intro ext) (auto dest: create_organization_Inr simp: is_active_owner_def)
  ultimately show "1 \<le> owner_count t org"
    by (auto dest!: create_organization_Inr simp: owner_count_def)
qed (rule update_membership_owner)

interpretation tenancy_states: step_invariant tenancy_step tenancy_inv
  by standard (rule tenancy_step_inv)

interpretation owner_states: step_invariant tenancy_step
  "\<lambda>s. tenancy_inv s \<and> 1 \<le> owner_count s org" for org
  by standard (auto intro: tenancy_step_inv tenancy_step_owner [simplified])

section \<open>Properties\<close>

text \<open>
  C30. An organization that has an active owner (an active owner membership of an active user) keeps
  one: no sequence of organization creations, membership creations, role changes and
  revocations, by any caller, removes or demotes the last one.
\<close>

theorem last_owner_is_kept:
  assumes "tenancy_step\<^sup>*\<^sup>* s t" and "tenancy_inv s" and "1 \<le> owner_count s org"
  shows "tenancy_inv t \<and> 1 \<le> owner_count t org"
  using owner_states.reachable_keeps [OF assms(1)] assms(2,3) by simp

definition demo_invocation :: invocation where
  "demo_invocation = \<lparr>iv_user_id = 100, iv_request_id = None, iv_correlation_id = ''demo'',
     iv_traceparent = None, iv_now = 5\<rparr>"

text \<open>One organization with its first owner, a restaurant, and a second account.\<close>

definition demo_tenancy :: db where
  "demo_tenancy = empty_db\<lparr>
     users := [\<lparr>usr_id = 100, usr_email = ''o'', usr_password_hash = ''h'', usr_status = ''active''\<rparr>,
               \<lparr>usr_id = 101, usr_email = ''m'', usr_password_hash = ''h'', usr_status = ''active''\<rparr>],
     organizations := [\<lparr>org_id = 1, org_number = 1, org_name = ''Org'', org_slug = ''org'',
       org_status = ''active''\<rparr>],
     memberships := [\<lparr>mem_id = 2, mem_user_id = 100, mem_organization_id = 1, mem_role = OWNER,
       mem_status = ''active'', mem_created_at = 0\<rparr>],
     restaurants := [\<lparr>rst_id = 1, rst_organization_id = 1, rst_name = ''R'', rst_address = None,
       rst_phone = None\<rparr>],
     next_uuid := 200, next_serial := 2\<rparr>"

lemmas demo_defs = demo_invocation_def demo_tenancy_def empty_db_def

lemma demo_owner_promotes:
  "(case create_membership demo_invocation '' M'' OWNER [1] demo_tenancy of
      Inl _ \<Rightarrow> False | Inr (m, t) \<Rightarrow> mem_role m = OWNER)"
  "tenancy_inv demo_tenancy" "1 \<le> owner_count demo_tenancy 1"
  by code_simp+

theorem last_owner_is_kept_witness:
  "\<exists>m t. create_membership demo_invocation '' M'' OWNER [1] demo_tenancy = Inr (m, t)
     \<and> 1 \<le> owner_count t 1"
proof -
  obtain m t where c: "create_membership demo_invocation '' M'' OWNER [1] demo_tenancy = Inr (m, t)"
    and o: "1 \<le> owner_count demo_tenancy 1" "tenancy_inv demo_tenancy"
    using demo_owner_promotes by (auto split: sum.splits)
  have "tenancy_step\<^sup>*\<^sup>* demo_tenancy t" using c by (blast intro: step_create_membership)
  from last_owner_is_kept [OF this o(2,1)] c show ?thesis by blast
qed

text \<open>
  The branch scope of a member is confined to the member's own organization: every restaurant
  a caller may reach through the access context, in any state the service reaches, is a
  restaurant of the organization in which the caller holds an active membership.
\<close>

theorem access_stays_in_organization:
  assumes "tenancy_step\<^sup>*\<^sup>* s t" and "tenancy_inv s"
    and "current t (iv_user_id iv) = Inr ctx" and "rid \<in> set (ac_restaurant_ids ctx)"
  shows "(\<exists>r \<in> set (restaurants t). rst_id r = rid
      \<and> rst_organization_id r = ac_organization_id ctx)
    \<and> (\<exists>m \<in> set (memberships t). mem_user_id m = iv_user_id iv \<and> mem_status m = ''active''
      \<and> mem_organization_id m = ac_organization_id ctx)"
proof -
  have "tenancy_inv t" using tenancy_states.reachable_keeps [OF assms(1,2)] .
  moreover obtain a where "a \<in> set (restaurant_assignments t)" "asg_restaurant_id a = rid"
    "asg_organization_id a = ac_organization_id ctx"
    using assms(3,4) by (auto simp: current_def res_simps)
  ultimately have "\<exists>r \<in> set (restaurants t). rst_id r = rid
      \<and> rst_organization_id r = ac_organization_id ctx"
    by (fastforce simp: tenancy_inv_def)
  then show ?thesis using current_Inr [OF assms(3)] by blast
qed

definition demo_manager_state :: db where
  "demo_manager_state = demo_tenancy\<lparr>
     memberships := memberships demo_tenancy @ [\<lparr>mem_id = 3, mem_user_id = 101,
       mem_organization_id = 1, mem_role = MANAGER, mem_status = ''active'', mem_created_at = 0\<rparr>],
     restaurant_assignments := [\<lparr>asg_membership_id = 3, asg_restaurant_id = 1,
       asg_organization_id = 1\<rparr>]\<rparr>"

theorem access_stays_in_organization_witness:
  "\<exists>r \<in> set (restaurants demo_manager_state). rst_id r = 1 \<and> rst_organization_id r = 1"
proof -
  have "tenancy_inv demo_manager_state"
    by (simp add: tenancy_inv_def demo_manager_state_def demo_defs)
  moreover have "current demo_manager_state (iv_user_id (demo_invocation\<lparr>iv_user_id := 101\<rparr>)) =
    Inr \<lparr>ac_user_id = 101, ac_membership_id = 3, ac_organization_id = 1,
      ac_organization_number = 1, ac_role = MANAGER, ac_restaurant_ids = [1]\<rparr>"
    by (simp add: current_def active_organization_def demo_manager_state_def demo_defs)
  ultimately show ?thesis
    using access_stays_in_organization [of demo_manager_state demo_manager_state
        "demo_invocation\<lparr>iv_user_id := 101\<rparr>" _ 1] by fastforce
qed

end
