(* ===== verification/Restaurants.thy ===== *)
theory Restaurants
  imports Tenancy
begin

text \<open>
  The restaurant service (\<open>restaurants/service.py\<close>) and its repository
  (\<open>restaurants/repo/queries.py\<close>): creation, scoped reads, updates and the guarded deletion.
\<close>

section \<open>Commands and repository\<close>

record create_restaurant_command =
  cr_name :: string
  cr_address :: "string option"
  cr_phone :: "string option"

record update_restaurant_command =
  ur_name :: "string option"
  ur_address :: "string option"
  ur_phone :: "string option"
  ur_fields :: "string list"

definition restaurant_by_id :: "db \<Rightarrow> access_context \<Rightarrow> int \<Rightarrow> restaurant option" where
  "restaurant_by_id s scope restaurant_id =
     select_one (\<lambda>r. rst_id r = restaurant_id \<and> restaurant_scope scope r) (restaurants s)"

definition restaurants_list_all :: "db \<Rightarrow> access_context \<Rightarrow> restaurant list" where
  "restaurants_list_all s scope = sort_key rst_id (filter (restaurant_scope scope) (restaurants s))"

definition has_dependents :: "db \<Rightarrow> access_context \<Rightarrow> int \<Rightarrow> bool" where
  "has_dependents s scope restaurant_id =
     (restaurant_by_id s scope restaurant_id \<noteq> None
     \<and> (exists_row (\<lambda>i. ing_restaurant_id i = restaurant_id) (ingredients s)
       \<or> exists_row (\<lambda>m. mnu_restaurant_id m = restaurant_id) (menus s)
       \<or> exists_row (\<lambda>d. ord_restaurant_id d = restaurant_id) (orders s)
       \<or> exists_row (\<lambda>a. asg_restaurant_id a = restaurant_id) (restaurant_assignments s)
       \<or> exists_row (\<lambda>a. aud_restaurant_id a = Some restaurant_id) (audit_entries s)))"

text \<open>
  The remaining foreign keys that refer to a restaurant with \<open>ON DELETE RESTRICT\<close>; a referenced
  row makes the \<open>DELETE\<close> fail when the transaction flushes.
\<close>

definition restaurant_referenced :: "db \<Rightarrow> int \<Rightarrow> bool" where
  "restaurant_referenced s restaurant_id =
     (exists_row (\<lambda>e. raw_restaurant_id (evt_facts e) = restaurant_id) (outbox_events s)
     \<or> exists_row (\<lambda>x. sub_restaurant_id x = restaurant_id) (order_submissions s)
     \<or> exists_row (\<lambda>e. ep_restaurant_id e = restaurant_id) (alert_episodes s)
     \<or> exists_row (\<lambda>a. als_restaurant_id a = restaurant_id) (alert_states s)
     \<or> exists_row (\<lambda>c. con_restaurant_id c = restaurant_id) (contributions s)
     \<or> exists_row (\<lambda>d. day_restaurant_id d = restaurant_id) (daily_rows s)
     \<or> exists_row (\<lambda>n. ntf_restaurant_id n = restaurant_id) (notification_stubs s)
     \<or> exists_row (\<lambda>d. dgn_restaurant_id d = restaurant_id) (diagnostics s))"

definition save_restaurant :: "restaurant \<Rightarrow> db \<Rightarrow> db" where
  "save_restaurant r s = s\<lparr>restaurants := store_row rst_id r (restaurants s)\<rparr>"

section \<open>Service\<close>

definition create_restaurant ::
  "invocation \<Rightarrow> create_restaurant_command \<Rightarrow> db \<Rightarrow> (restaurant \<times> db) result" where
  "create_restaurant iv command s =
     bindR (current s (iv_user_id iv)) (\<lambda>context.
     require_capability context ''restaurant.create'' (
     let r = \<lparr>rst_id = next_serial s, rst_organization_id = ac_organization_id context,
              rst_name = cr_name command, rst_address = cr_address command,
              rst_phone = cr_phone command\<rparr>;
         s1 = s\<lparr>restaurants := restaurants s @ [r], next_serial := next_serial s + 1\<rparr> in
     Inr (r, record_audit iv context ''restaurant.created'' ''restaurant'' (py_str_int (rst_id r))
       (Some (rst_id r)) [] s1)))"

definition list_restaurants :: "invocation \<Rightarrow> db \<Rightarrow> restaurant list result" where
  "list_restaurants iv s =
     bindR (current s (iv_user_id iv)) (\<lambda>context.
     require_capability context ''restaurant.read'' (Inr (restaurants_list_all s context)))"

definition get_restaurant :: "invocation \<Rightarrow> int \<Rightarrow> db \<Rightarrow> restaurant result" where
  "get_restaurant iv restaurant_id s =
     bindR (current s (iv_user_id iv)) (\<lambda>context.
     access_restaurant s context restaurant_id ''restaurant.read'' (
     or_raise (restaurant_by_id s context restaurant_id) restaurant_not_found Inr))"

text \<open>A null name is left to the \<open>NOT NULL\<close> column, which rejects it at the flush.\<close>

definition update_restaurant ::
  "invocation \<Rightarrow> int \<Rightarrow> update_restaurant_command \<Rightarrow> db \<Rightarrow> (restaurant \<times> db) result" where
  "update_restaurant iv restaurant_id command s =
     bindR (current s (iv_user_id iv)) (\<lambda>context.
     access_restaurant s context restaurant_id ''restaurant.update'' (
     or_raise (restaurant_by_id s context restaurant_id) restaurant_not_found (\<lambda>r.
     raise_if (''name'' \<in> set (ur_fields command) \<and> ur_name command = None)
       (IntegrityError ''restaurants.name'') (
     let r1 = (case ur_name command of
                 Some n \<Rightarrow> if ''name'' \<in> set (ur_fields command) then r\<lparr>rst_name := n\<rparr> else r
               | None \<Rightarrow> r);
         r2 = (if ''address'' \<in> set (ur_fields command)
               then r1\<lparr>rst_address := ur_address command\<rparr> else r1);
         r3 = (if ''phone'' \<in> set (ur_fields command)
               then r2\<lparr>rst_phone := ur_phone command\<rparr> else r2) in
     Inr (r3, record_audit iv context ''restaurant.updated'' ''restaurant'' (py_str_int (rst_id r3))
       (Some (rst_id r3)) [(''fields'', JList (map JStr (sort (remdups (ur_fields command)))))]
       (save_restaurant r3 s))))))"

definition delete_restaurant :: "invocation \<Rightarrow> int \<Rightarrow> db \<Rightarrow> db result" where
  "delete_restaurant iv restaurant_id s =
     bindR (current s (iv_user_id iv)) (\<lambda>context.
     access_restaurant s context restaurant_id ''restaurant.delete'' (
     or_raise (restaurant_by_id s context restaurant_id) restaurant_not_found (\<lambda>r.
     let s1 = record_audit iv context ''restaurant.deleted'' ''restaurant''
                (py_str_int (rst_id r)) None [] s in
     raise_if (has_dependents s1 context restaurant_id)
       (ConflictError ''Restaurant has operational history; deletion is unavailable'') (
     raise_if (restaurant_referenced s1 restaurant_id) (IntegrityError ''restaurants'') (
     Inr (s1\<lparr>restaurants := delete_where (\<lambda>x. rst_id x = restaurant_id) (restaurants s1)\<rparr>))))))"

section \<open>Properties\<close>

interpretation restaurant_repo: repository rst_id restaurants save_restaurant
  by standard (simp add: save_restaurant_def)

lemma restaurant_by_id_record_audit [simp]:
  "restaurant_by_id (record_audit iv c a t i r ch s) scope rid = restaurant_by_id s scope rid"
  by (simp add: restaurant_by_id_def)

lemma create_restaurant_audit:
  assumes "create_restaurant iv command s = Inr (r, t)"
  shows "\<exists>a \<in> set (audit_entries t). aud_restaurant_id a = Some (rst_id r)"
  using assms by (auto simp: create_restaurant_def res_simps Let_def record_audit_def)

text \<open>
  C33. A restaurant that was created through the service can never be deleted through it: the
  creation itself leaves an audit entry that names the restaurant, the deletion guard counts
  audit entries as operational history, and audit entries are only ever added.
\<close>

theorem created_restaurant_is_never_deletable:
  assumes "create_restaurant iv command s = Inr (r, t)"
    and "set (audit_entries t) \<subseteq> set (audit_entries u)"
  shows "delete_restaurant iv' (rst_id r) u \<noteq> Inr v"
proof
  assume "delete_restaurant iv' (rst_id r) u = Inr v"
  then obtain ctx r' where r': "restaurant_by_id u ctx (rst_id r) = Some r'"
    and free: "\<not> has_dependents (record_audit iv' ctx ''restaurant.deleted'' ''restaurant''
                (py_str_int (rst_id r')) None [] u) ctx (rst_id r)"
    unfolding delete_restaurant_def Let_def res_simps by blast
  obtain a where "a \<in> set (audit_entries u)" "aud_restaurant_id a = Some (rst_id r)"
    using create_restaurant_audit [OF assms(1)] assms(2) by blast
  then show False using r' free
    by (auto simp: has_dependents_def exists_row_iff record_audit_def restaurant_by_id_def)
qed

theorem created_restaurant_is_never_deletable_witness:
  "\<exists>r t. create_restaurant demo_invocation \<lparr>cr_name = ''A'', cr_address = None, cr_phone = None\<rparr>
       demo_tenancy = Inr (r, t) \<and> delete_restaurant demo_invocation (rst_id r) t \<noteq> Inr t"
proof -
  have "\<not> (case create_restaurant demo_invocation \<lparr>cr_name = ''A'', cr_address = None,
    cr_phone = None\<rparr> demo_tenancy of Inl _ \<Rightarrow> True | Inr _ \<Rightarrow> False)"
    by code_simp
  then obtain r t where c: "create_restaurant demo_invocation \<lparr>cr_name = ''A'', cr_address = None,
    cr_phone = None\<rparr> demo_tenancy = Inr (r, t)"
    by (auto split: sum.splits)
  from created_restaurant_is_never_deletable [OF c order.refl] c show ?thesis by blast
qed

end
