(* ===== verification/Outbox.thy ===== *)
theory Outbox
  imports Audit_Trail
begin

text \<open>
  The transactional event append of \<open>events/service.py\<close>: one immutable outbox row and its fixed
  consumer fan-out, staged in the caller's transaction, and the revision counter of the catalog.
\<close>

section \<open>Operations\<close>

definition restaurant_matches_organization :: "db \<Rightarrow> int \<Rightarrow> uuid \<Rightarrow> bool" where
  "restaurant_matches_organization s restaurant_id organization_id =
     exists_row (\<lambda>r. rst_id r = restaurant_id \<and> rst_organization_id r = organization_id)
       (restaurants s)"

text \<open>A new delivery row: the column defaults of \<open>EventDelivery\<close>.\<close>

definition new_delivery :: "invocation \<Rightarrow> uuid \<Rightarrow> uuid \<Rightarrow> consumer \<Rightarrow> delivery" where
  "new_delivery iv delivery_id event_id c =
     \<lparr>dlv_id = delivery_id, dlv_event_id = event_id, dlv_consumer = c, dlv_status = Pending,
      dlv_attempt_count = 0, dlv_retry_cycle = 0, dlv_next_attempt_at = iv_now iv,
      dlv_published_at = None, dlv_claim_token = None, dlv_claim_owner = None,
      dlv_claimed_at = None, dlv_claim_expires_at = None, dlv_last_error_category = None,
      dlv_created_at = iv_now iv\<rparr>"

definition fan_out :: "invocation \<Rightarrow> uuid \<Rightarrow> uuid \<Rightarrow> consumer list \<Rightarrow> delivery list" where
  "fan_out iv first_id event_id cs =
     map (\<lambda>(k, c). new_delivery iv (first_id + k) event_id c) (zip [0..<length cs] cs)"

definition append_event :: "invocation \<Rightarrow> envelope \<Rightarrow> db \<Rightarrow> (outbox_event \<times> db) result" where
  "append_event iv envelope s =
     raise_if (\<not> restaurant_matches_organization s (env_restaurant_id envelope)
         (env_organization_id envelope))
       (EventScopeMismatch ''event restaurant is not in its declared organization'') (
     let event = \<lparr>evt_facts = serialize_event envelope, evt_traceparent = iv_traceparent iv,
                  evt_recorded_at = iv_now iv\<rparr>;
         cs = consumers_for (env_event_type envelope) in
     Inr (event, s\<lparr>outbox_events := outbox_events s @ [event],
       deliveries := deliveries s @ fan_out iv (next_uuid s) (env_event_id envelope) cs,
       next_uuid := next_uuid s + length cs\<rparr>))"

text \<open>\<open>CommandEvents.append\<close>: the event identifier is a fresh UUID.\<close>

definition append_command_event ::
  "invocation \<Rightarrow> event_type \<Rightarrow> uuid \<Rightarrow> int \<Rightarrow> string \<Rightarrow> int \<Rightarrow> int \<Rightarrow> decimal payload \<Rightarrow> db
     \<Rightarrow> (outbox_event \<times> db) result" where
  "append_command_event iv event_type organization_id restaurant_id aggregate_type aggregate_id
      aggregate_revision payload s =
     bindR (deserialize_event
       \<lparr>raw_event_id = next_uuid s, raw_event_type = event_type_name event_type,
        raw_schema_version = 1, raw_organization_id = organization_id,
        raw_restaurant_id = restaurant_id, raw_aggregate_type = aggregate_type,
        raw_aggregate_id = py_str_int aggregate_id, raw_aggregate_revision = aggregate_revision,
        raw_occurred_at = Aware (iv_now iv), raw_correlation_id = iv_correlation_id iv,
        raw_payload = payload\<rparr>) (\<lambda>envelope.
     append_event iv envelope (s\<lparr>next_uuid := next_uuid s + 1\<rparr>))"

definition next_catalog_revision :: "db \<Rightarrow> uuid \<Rightarrow> int \<Rightarrow> string \<Rightarrow> int \<Rightarrow> int" where
  "next_catalog_revision s organization_id restaurant_id aggregate_type aggregate_id =
     (let revisions = map (\<lambda>e. raw_aggregate_revision (evt_facts e))
            (filter (\<lambda>e. raw_organization_id (evt_facts e) = organization_id
               \<and> raw_restaurant_id (evt_facts e) = restaurant_id
               \<and> raw_aggregate_type (evt_facts e) = aggregate_type
               \<and> raw_aggregate_id (evt_facts e) = py_str_int aggregate_id) (outbox_events s)) in
      (if revisions = [] then 0 else Max (set revisions)) + 1)"

section \<open>Lemmas\<close>

lemma fan_out_map [simp]:
  "map dlv_consumer (fan_out iv u e cs) = cs"
  "map dlv_event_id (fan_out iv u e cs) = replicate (length cs) e"
  "map dlv_id (fan_out iv u e cs) = map (\<lambda>k. u + k) [0..<length cs]"
proof -
  show "map dlv_consumer (fan_out iv u e cs) = cs"
    by (rule nth_equalityI) (auto simp: fan_out_def new_delivery_def)
  show "map dlv_event_id (fan_out iv u e cs) = replicate (length cs) e"
    by (rule nth_equalityI) (auto simp: fan_out_def new_delivery_def)
  show "map dlv_id (fan_out iv u e cs) = map (\<lambda>k. u + k) [0..<length cs]"
    by (rule nth_equalityI) (auto simp: fan_out_def new_delivery_def)
qed

lemma in_fan_out:
  "d \<in> set (fan_out iv u e cs) \<Longrightarrow> \<exists>k < length cs. d = new_delivery iv (u + k) e (cs ! k)"
  by (auto simp: fan_out_def set_zip)

text \<open>What a successful append writes: one event row and its deliveries, nothing else.\<close>

lemma append_command_event_Inr:
  assumes "append_command_event iv ty org rid at' aid rvn p s = Inr (e, t)"
  shows "\<exists>p'. validate_payload ty p = Some p' \<and> 1 \<le> rvn \<and> 0 < rid
    \<and> aggregate_type_matches ty at' \<and> restaurant_matches_organization s rid org
    \<and> evt_facts e = \<lparr>raw_event_id = next_uuid s, raw_event_type = event_type_name ty,
        raw_schema_version = 1, raw_organization_id = org, raw_restaurant_id = rid,
        raw_aggregate_type = at', raw_aggregate_id = py_str_int aid,
        raw_aggregate_revision = rvn, raw_occurred_at = Aware (iv_now iv),
        raw_correlation_id = iv_correlation_id iv, raw_payload = map_payload Finite p'\<rparr>
    \<and> t = s\<lparr>outbox_events := outbox_events s @ [e],
        deliveries := deliveries s @ fan_out iv (next_uuid s + 1) (next_uuid s) (consumers_for ty),
        next_uuid := next_uuid s + 1 + length (consumers_for ty)\<rparr>"
  using assms
  by (auto simp: append_command_event_def append_event_def deserialize_event_def res_simps Let_def
      serialize_event_def utc_timestamp_def is_aware_def restaurant_matches_organization_def)

text \<open>The frame of event appends: only the outbox, the deliveries and the UUID supply grow.\<close>

definition events_only :: "db \<Rightarrow> db \<Rightarrow> bool" where
  "events_only s t = (\<exists>ev ds n. next_uuid s \<le> n \<and>
     t = s\<lparr>outbox_events := outbox_events s @ ev, deliveries := deliveries s @ ds, next_uuid := n\<rparr>)"

lemma events_only_refl [simp]: "events_only s s"
proof -
  have "s = s\<lparr>outbox_events := outbox_events s @ [], deliveries := deliveries s @ [],
    next_uuid := next_uuid s\<rparr>" by simp
  then show ?thesis unfolding events_only_def by blast
qed

lemma events_only_trans:
  assumes "events_only s t" and "events_only t u"
  shows "events_only s u"
proof -
  obtain ev ds n where t: "next_uuid s \<le> n"
    "t = s\<lparr>outbox_events := outbox_events s @ ev, deliveries := deliveries s @ ds, next_uuid := n\<rparr>"
    using assms(1) unfolding events_only_def by blast
  obtain ev' ds' n' where u: "next_uuid t \<le> n'"
    "u = t\<lparr>outbox_events := outbox_events t @ ev', deliveries := deliveries t @ ds', next_uuid := n'\<rparr>"
    using assms(2) unfolding events_only_def by blast
  have "u = s\<lparr>outbox_events := outbox_events s @ (ev @ ev'),
    deliveries := deliveries s @ (ds @ ds'), next_uuid := n'\<rparr>" and "next_uuid s \<le> n'"
    using t u by simp_all
  then show ?thesis unfolding events_only_def by blast
qed

lemma events_only_append:
  "append_command_event iv ty org rid aty aid rvn p s = Inr (e, t) \<Longrightarrow> events_only s t"
  unfolding events_only_def
  by (rule exI [of _ "[e]"],
      rule exI [of _ "fan_out iv (next_uuid s + 1) (next_uuid s) (consumers_for ty)"],
      rule exI [of _ "next_uuid s + 1 + length (consumers_for ty)"])
    (drule append_command_event_Inr, auto)

lemma events_only_tables:
  assumes "events_only s t"
  shows "users t = users s" "organizations t = organizations s" "memberships t = memberships s"
    "restaurant_assignments t = restaurant_assignments s" "restaurants t = restaurants s"
    "audit_entries t = audit_entries s" "menus t = menus s" "menu_items t = menu_items s"
    "recipe_components t = recipe_components s" "ingredients t = ingredients s"
    "balances t = balances s" "episodes t = episodes s" "movements t = movements s"
    "orders t = orders s" "order_items t = order_items s"
    "order_submissions t = order_submissions s" "receipts t = receipts s"
    "attempts t = attempts s" "next_serial t = next_serial s" "next_uuid s \<le> next_uuid t"
    "set (outbox_events s) \<subseteq> set (outbox_events t)"
  using assms by (auto simp: events_only_def)

text \<open>When an append succeeds.\<close>

lemma append_command_event_total:
  assumes "restaurant_matches_organization s rid org" and "0 < rid"
    and "aggregate_type_matches ty at'" and "1 \<le> rvn"
    and "identifier_pattern (iv_correlation_id iv)" and "length (py_str_int aid) \<le> 100"
    and "validate_payload ty p = Some p'" and "identity_matches_payload at' (py_str_int aid) p'"
  shows "\<exists>e t. append_command_event iv ty org rid at' aid rvn p s = Inr (e, t)"
proof -
  have "1 \<le> length (py_str_int aid)" by (rule length_py_str_int)
  then show ?thesis using assms
    by (simp add: append_command_event_def append_event_def deserialize_event_def Let_def
        utc_timestamp_def is_aware_def restaurant_matches_organization_def)
qed

lemma next_catalog_revision_above:
  assumes "e \<in> set (outbox_events s)" and "raw_organization_id (evt_facts e) = org"
    and "raw_restaurant_id (evt_facts e) = rid" and "raw_aggregate_type (evt_facts e) = aty"
    and "raw_aggregate_id (evt_facts e) = py_str_int aid"
  shows "raw_aggregate_revision (evt_facts e) < next_catalog_revision s org rid aty aid"
proof -
  let ?R = "map (\<lambda>e. raw_aggregate_revision (evt_facts e))
    (filter (\<lambda>e. raw_organization_id (evt_facts e) = org \<and> raw_restaurant_id (evt_facts e) = rid
       \<and> raw_aggregate_type (evt_facts e) = aty
       \<and> raw_aggregate_id (evt_facts e) = py_str_int aid) (outbox_events s))"
  have "raw_aggregate_revision (evt_facts e) \<in> set ?R" using assms by auto
  moreover from this have "raw_aggregate_revision (evt_facts e) \<le> Max (set ?R)" by (intro Max_ge) auto
  moreover from calculation(1) have "?R \<noteq> []" by (metis list.set(1) empty_iff)
  ultimately show ?thesis unfolding next_catalog_revision_def Let_def by simp
qed

section \<open>Fan-out invariant\<close>

text \<open>
  Identifiers are below the UUID supply; the deliveries of an event are exactly the consumers
  subscribed to its type, once each.
\<close>

definition deliveries_of :: "db \<Rightarrow> uuid \<Rightarrow> delivery list" where
  "deliveries_of s event_id = filter (\<lambda>d. dlv_event_id d = event_id) (deliveries s)"

definition event_type_of :: "outbox_event \<Rightarrow> event_type option" where
  "event_type_of e = supported_event_type (raw_event_type (evt_facts e))"

definition outbox_inv :: "db \<Rightarrow> bool" where
  "outbox_inv s = (unique_keys evt_event_id (outbox_events s)
     \<and> (\<forall>e \<in> set (outbox_events s). evt_event_id e < next_uuid s
          \<and> outbox_event_check e
          \<and> (case event_type_of e of None \<Rightarrow> False
             | Some ty \<Rightarrow> map dlv_consumer (deliveries_of s (evt_event_id e)) = consumers_for ty))
     \<and> unique_keys dlv_id (deliveries s)
     \<and> (\<forall>d \<in> set (deliveries s). dlv_id d < next_uuid s \<and> dlv_event_id d < next_uuid s
          \<and> dlv_event_id d \<in> evt_event_id ` set (outbox_events s)))"

text \<open>Only the event tables and the UUID supply matter to the invariant.\<close>

lemma outbox_inv_cong:
  assumes "outbox_inv s" and "outbox_events t = outbox_events s" "deliveries t = deliveries s"
    and "next_uuid s \<le> next_uuid t"
  shows "outbox_inv t"
proof -
  have same: "deliveries_of t = deliveries_of s"
    by (rule ext) (simp add: deliveries_of_def assms(3))
  have lt: "x < next_uuid s \<Longrightarrow> x < next_uuid t" for x using assms(4) by simp
  from assms(1) show ?thesis unfolding outbox_inv_def same assms(2,3) by (blast intro: lt)
qed

lemma aggregate_type_known:
  "aggregate_type_matches ty a \<Longrightarrow> a \<in> set [''order'', ''menu'', ''menu_item'', ''ingredient'']"
  by (cases ty) auto

lemma deliveries_of_append:
  assumes "\<forall>d \<in> set (deliveries s). dlv_event_id d < u"
    and "deliveries t = deliveries s @ fan_out iv v u cs"
  shows "map dlv_consumer (deliveries_of t u) = cs"
    and "x < u \<Longrightarrow> deliveries_of t x = deliveries_of s x"
proof -
  have new: "\<forall>d \<in> set (fan_out iv v u cs). dlv_event_id d = u"
    by (auto dest!: in_fan_out simp: new_delivery_def)
  then have "filter (\<lambda>d. dlv_event_id d = u) (fan_out iv v u cs) = fan_out iv v u cs"
    by simp
  moreover have "filter (\<lambda>d. dlv_event_id d = u) (deliveries s) = []"
    using assms(1) by (auto simp: filter_empty_conv)
  ultimately show "map dlv_consumer (deliveries_of t u) = cs"
    by (simp add: deliveries_of_def assms(2))
  show "deliveries_of t x = deliveries_of s x" if "x < u"
    using that new by (simp add: deliveries_of_def assms(2) filter_empty_conv)
qed

lemma append_command_event_outbox_inv:
  assumes "append_command_event iv ty org rid at' aid rvn p s = Inr (e, t)" and inv: "outbox_inv s"
  shows "outbox_inv t"
proof -
  let ?cs = "consumers_for ty" and ?u = "next_uuid s"
  from append_command_event_Inr [OF assms(1)]
  have e: "evt_event_id e = ?u" "event_type_of e = Some ty" "outbox_event_check e"
    and t: "outbox_events t = outbox_events s @ [e]"
      "deliveries t = deliveries s @ fan_out iv (?u + 1) ?u ?cs" "next_uuid t = ?u + 1 + length ?cs"
    using aggregate_type_known by (auto simp: evt_event_id_def event_type_of_def outbox_event_check_def)
  have old: "\<forall>d \<in> set (deliveries s). dlv_event_id d < ?u" using inv by (simp add: outbox_inv_def)
  note of = deliveries_of_append [OF old t(2)]
  have "unique_keys evt_event_id (outbox_events t)"
    using inv e(1) by (auto simp: t(1) outbox_inv_def)
  moreover have "evt_event_id x < next_uuid t \<and> outbox_event_check x
    \<and> (case event_type_of x of None \<Rightarrow> False
       | Some ty \<Rightarrow> map dlv_consumer (deliveries_of t (evt_event_id x)) = consumers_for ty)"
    if "x \<in> set (outbox_events t)" for x
  proof (cases "x = e")
    case True
    then show ?thesis using e of(1) t(3) by simp
  next
    case False
    then have "x \<in> set (outbox_events s)" using that t(1) by simp
    then have "evt_event_id x < ?u" "outbox_event_check x" "(case event_type_of x of None \<Rightarrow> False
       | Some ty \<Rightarrow> map dlv_consumer (deliveries_of s (evt_event_id x)) = consumers_for ty)"
      using inv by (auto simp: outbox_inv_def)
    then show ?thesis using of(2) t(3) by (auto split: option.splits)
  qed
  moreover have "unique_keys dlv_id (deliveries t)"
  proof -
    have "distinct (map dlv_id (fan_out iv (?u + 1) ?u ?cs))"
      unfolding fan_out_map by (simp add: distinct_map)
    moreover have "dlv_id d < ?u" if "d \<in> set (deliveries s)" for d
      using that inv by (simp add: outbox_inv_def)
    moreover have "?u < dlv_id d" if "d \<in> set (fan_out iv (?u + 1) ?u ?cs)" for d
      using in_fan_out [OF that] by (auto simp: new_delivery_def)
    ultimately show ?thesis
      using inv by (fastforce simp: t(2) unique_keys_def outbox_inv_def)
  qed
  moreover have "\<forall>d \<in> set (deliveries t). dlv_id d < next_uuid t \<and> dlv_event_id d < next_uuid t
    \<and> dlv_event_id d \<in> evt_event_id ` set (outbox_events t)"
    using inv e(1) by (fastforce simp: t outbox_inv_def new_delivery_def dest!: in_fan_out)
  ultimately show ?thesis by (simp add: outbox_inv_def)
qed

section \<open>Properties\<close>

lemma stored_event_reads_back:
  assumes "deserialize_event r = Inr env"
  shows "deserialize_event (serialize_event env) = Inr env"
proof -
  from assms obtain t p ts where
    t: "supported_event_type (raw_event_type r) = Some t" and v: "raw_schema_version r = 1"
    and p: "validate_payload t (raw_payload r) = Some p"
    and ts: "utc_timestamp (raw_occurred_at r) = Some ts"
    and ok: "0 < raw_restaurant_id r \<and> aggregate_type_matches t (raw_aggregate_type r)
         \<and> 1 \<le> length (raw_aggregate_id r) \<and> length (raw_aggregate_id r) \<le> 100
         \<and> 1 \<le> raw_aggregate_revision r \<and> identifier_pattern (raw_correlation_id r)
         \<and> identity_matches_payload (raw_aggregate_type r) (raw_aggregate_id r) p"
    and env: "env = \<lparr>env_event_id = raw_event_id r, env_event_type = t,
          env_organization_id = raw_organization_id r, env_restaurant_id = raw_restaurant_id r,
          env_aggregate_type = raw_aggregate_type r, env_aggregate_id = raw_aggregate_id r,
          env_aggregate_revision = raw_aggregate_revision r, env_occurred_at = ts,
          env_correlation_id = raw_correlation_id r, env_payload = p\<rparr>"
    unfolding deserialize_event_def res_simps sum.inject by metis
  have "utc_timestamp ts = Some ts" using utc_timestamp_Some [OF ts] by blast
  with ok show ?thesis
    by (simp add: env deserialize_event_def serialize_event_def validate_payload_stable [OF p])
qed


text \<open>
  C28. Exact fan-out: after an append, the deliveries of the new event are one pending, unclaimed
  delivery for each consumer subscribed to its type, no other delivery changed, and every event of
  the outbox still has exactly its subscribed consumers.
\<close>

theorem append_fans_out_exactly:
  assumes "append_command_event iv ty org rid aty aid rvn p s = Inr (e, t)" and "outbox_inv s"
  shows "map dlv_consumer (deliveries_of t (evt_event_id e)) = consumers_for ty
    \<and> (\<forall>d \<in> set (deliveries_of t (evt_event_id e)). dlv_status d = Pending
         \<and> dlv_attempt_count d = 0 \<and> dlv_claim_token d = None \<and> delivery_check d)
    \<and> (\<forall>x < next_uuid s. deliveries_of t x = deliveries_of s x) \<and> outbox_inv t"
proof -
  let ?u = "next_uuid s"
  from append_command_event_Inr [OF assms(1)]
  have e: "evt_event_id e = ?u"
    and t: "deliveries t = deliveries s @ fan_out iv (?u + 1) ?u (consumers_for ty)"
    by (auto simp: evt_event_id_def)
  have old: "\<forall>d \<in> set (deliveries s). dlv_event_id d < ?u" using assms(2) by (simp add: outbox_inv_def)
  have "\<forall>d \<in> set (deliveries_of t ?u). d \<in> set (fan_out iv (?u + 1) ?u (consumers_for ty))"
    using old by (auto simp: deliveries_of_def t)
  then have "\<forall>d \<in> set (deliveries_of t ?u). dlv_status d = Pending
         \<and> dlv_attempt_count d = 0 \<and> dlv_claim_token d = None \<and> delivery_check d"
    by (auto dest!: bspec in_fan_out simp: new_delivery_def delivery_check_def claim_fields_ok_def)
  with deliveries_of_append [OF old t] append_command_event_outbox_inv [OF assms] e
  show ?thesis by simp
qed

definition demo_low_payload :: "decimal payload" where
  "demo_low_payload = InventoryLowPayload 7 9 ''salt'' ''g'' (Finite 1) (Finite 2) (Aware 5)"

definition demo_scope :: db where
  "demo_scope = empty_db\<lparr>restaurants := [\<lparr>rst_id = 1, rst_organization_id = 1, rst_name = ''R'',
     rst_address = None, rst_phone = None\<rparr>]\<rparr>"

definition demo_call :: invocation where
  "demo_call = \<lparr>iv_user_id = 100, iv_request_id = None, iv_correlation_id = ''demo'',
     iv_traceparent = None, iv_now = 5\<rparr>"

lemma demo_append:
  "\<not> (case append_command_event demo_call Inventory_Low 1 1 ''ingredient'' 7 1 demo_low_payload
     demo_scope of Inl _ \<Rightarrow> True | Inr _ \<Rightarrow> False)"
  "outbox_inv demo_scope"
  by code_simp+


theorem append_fans_out_exactly_witness:
  "\<exists>e t. append_command_event demo_call Inventory_Low 1 1 ''ingredient'' 7 1 demo_low_payload
     demo_scope = Inr (e, t)
     \<and> map dlv_consumer (deliveries_of t (evt_event_id e)) = [Alerts, Notification_Sink]"
proof -
  obtain e t where a: "append_command_event demo_call Inventory_Low 1 1 ''ingredient'' 7 1
    demo_low_payload demo_scope = Inr (e, t)"
    using demo_append(1) by (auto split: sum.splits)
  from append_fans_out_exactly [OF a demo_append(2)] a show ?thesis by auto
qed

end
