(* ===== verification/Inventory.thy ===== *)
theory Inventory
  imports Outbox
begin

text \<open>
  The inventory service (\<open>inventory/service.py\<close>) and its repository
  (\<open>inventory/repo/queries.py\<close>): ingredients, balances, the movement ledger, low-stock episodes and
  the shared transition writer. Every write is a function of the database; the SHA-256 digest of a
  canonical JSON document is the parameter \<open>digest\<close>.
\<close>

section \<open>Repository\<close>

definition save_ingredient :: "ingredient \<Rightarrow> db \<Rightarrow> db" where
  "save_ingredient i s = s\<lparr>ingredients := store_row ing_id i (ingredients s)\<rparr>"

definition save_balance :: "balance \<Rightarrow> db \<Rightarrow> db" where
  "save_balance b s = s\<lparr>balances := store_row bal_ingredient_id b (balances s)\<rparr>"

definition save_episode :: "episode \<Rightarrow> db \<Rightarrow> db" where
  "save_episode e s = s\<lparr>episodes := store_row ep_episode_id e (episodes s)\<rparr>"

definition add_episode :: "episode \<Rightarrow> db \<Rightarrow> db" where
  "add_episode e s = s\<lparr>episodes := episodes s @ [e]\<rparr>"

definition add_movement :: "movement \<Rightarrow> db \<Rightarrow> db" where
  "add_movement m s = s\<lparr>movements := movements s @ [m], next_serial := next_serial s + 1\<rparr>"

definition ingredient_not_found :: app_error where
  "ingredient_not_found = NotFoundError ''Ingredient not found''"

definition with_balance :: "db \<Rightarrow> ingredient \<Rightarrow> (ingredient \<times> balance) option" where
  "with_balance s i = map_option (\<lambda>b. (i, b)) (by_key bal_ingredient_id (ing_id i) (balances s))"

definition lock_restaurant_for_organization :: "db \<Rightarrow> uuid \<Rightarrow> int \<Rightarrow> 'a result \<Rightarrow> 'a result" where
  "lock_restaurant_for_organization s organization_id restaurant_id rest =
     raise_if (\<not> restaurant_matches_organization s restaurant_id organization_id)
       restaurant_not_found rest"

definition ingredient_state :: "db \<Rightarrow> uuid \<Rightarrow> int \<Rightarrow> int \<Rightarrow> (ingredient \<times> balance) result" where
  "ingredient_state s organization_id restaurant_id ingredient_id =
     or_raise (Option.bind (select_one (\<lambda>i. ing_id i = ingredient_id
           \<and> ing_restaurant_id i = restaurant_id
           \<and> restaurant_matches_organization s restaurant_id organization_id) (ingredients s))
         (with_balance s)) ingredient_not_found Inr"

definition open_episode :: "db \<Rightarrow> int \<Rightarrow> episode option" where
  "open_episode s ingredient_id =
     select_one (\<lambda>e. ep_ingredient_id e = ingredient_id \<and> ep_resolved_at e = None) (episodes s)"

definition episode_by_id :: "db \<Rightarrow> uuid \<Rightarrow> episode option" where
  "episode_by_id s episode_id = by_key ep_episode_id episode_id (episodes s)"

definition episodes_for_restaurant :: "db \<Rightarrow> uuid \<Rightarrow> int \<Rightarrow> episode list" where
  "episodes_for_restaurant s organization_id restaurant_id =
     sort_key (\<lambda>e. micros (ep_opened_at e)) (sort_key ep_episode_id
       (filter (\<lambda>e. ep_organization_id e = organization_id \<and> ep_restaurant_id e = restaurant_id)
         (episodes s)))"

definition ingredients_for_restaurant :: "db \<Rightarrow> uuid \<Rightarrow> int \<Rightarrow> (ingredient \<times> balance) list" where
  "ingredients_for_restaurant s organization_id restaurant_id =
     List.map_filter (with_balance s) (sort_key ing_id
       (filter (\<lambda>i. ing_restaurant_id i = restaurant_id
          \<and> restaurant_matches_organization s restaurant_id organization_id) (ingredients s)))"

definition repo_ingredients ::
  "db \<Rightarrow> access_context \<Rightarrow> int \<Rightarrow> nat \<Rightarrow> nat \<Rightarrow> (ingredient \<times> balance) list" where
  "repo_ingredients s context restaurant_id limit offset =
     take limit (drop offset (List.map_filter (with_balance s)
       (sort_key ing_name (sort_key ing_id
         (filter (\<lambda>i. ing_restaurant_id i = restaurant_id
            \<and> restaurant_exists s context restaurant_id) (ingredients s))))))"

definition repo_ingredient ::
  "db \<Rightarrow> access_context \<Rightarrow> int \<Rightarrow> int \<Rightarrow> (ingredient \<times> balance) result" where
  "repo_ingredient s context restaurant_id ingredient_id =
     or_raise (Option.bind (select_one (\<lambda>i. ing_id i = ingredient_id
           \<and> ing_restaurant_id i = restaurant_id
           \<and> restaurant_exists s context restaurant_id) (ingredients s))
         (with_balance s)) ingredient_not_found Inr"

definition duplicate_name :: "db \<Rightarrow> access_context \<Rightarrow> int \<Rightarrow> string \<Rightarrow> int \<Rightarrow> bool" where
  "duplicate_name s context restaurant_id normalized_name exclude =
     exists_row (\<lambda>i. ing_restaurant_id i = restaurant_id \<and> ing_normalized_name i = normalized_name
        \<and> ing_id i \<noteq> exclude \<and> restaurant_exists s context restaurant_id) (ingredients s)"

definition replay_movement ::
  "db \<Rightarrow> access_context \<Rightarrow> int \<Rightarrow> string \<Rightarrow> int option \<Rightarrow> movement option" where
  "replay_movement s context restaurant_id key ingredient_id =
     select_one (\<lambda>m. mov_idempotency_key m = Some key
        \<and> exists_row (\<lambda>i. ing_id i = mov_ingredient_id m \<and> ing_restaurant_id i = restaurant_id)
            (ingredients s)
        \<and> restaurant_exists s context restaurant_id
        \<and> (case ingredient_id of Some i \<Rightarrow> mov_ingredient_id m = i
           | None \<Rightarrow> mov_kind m = ''opening'')) (movements s)"

definition has_history :: "db \<Rightarrow> int \<Rightarrow> bool" where
  "has_history s ingredient_id = exists_row (\<lambda>m. mov_ingredient_id m = ingredient_id) (movements s)"

definition repo_movements :: "db \<Rightarrow> access_context \<Rightarrow> int \<Rightarrow> nat \<Rightarrow> nat \<Rightarrow> (movement \<times> string option) list" where
  "repo_movements s context ingredient_id limit offset =
     take limit (drop offset
       (map (\<lambda>m. (m, Option.bind (mov_actor_user_id m)
                (\<lambda>u. map_option usr_email (by_key usr_id u (users s)))))
         (sort_key (\<lambda>m. - mov_id m)
           (filter (\<lambda>m. mov_ingredient_id m = ingredient_id
              \<and> exists_row (\<lambda>i. ing_id i = ingredient_id
                  \<and> restaurant_exists s context (ing_restaurant_id i)) (ingredients s))
             (movements s)))))"

section \<open>Transitions\<close>

definition inventory_state_snapshot :: "uuid \<Rightarrow> ingredient \<Rightarrow> balance \<Rightarrow> state_snapshot" where
  "inventory_state_snapshot organization_id item bal =
     \<lparr>st_organization_id = organization_id, st_restaurant_id = ing_restaurant_id item,
      st_ingredient_id = ing_id item, st_state_revision = ing_state_revision item,
      st_ingredient_name = ing_name item, st_unit = ing_unit item,
      st_quantity = bal_quantity bal, st_reorder_threshold = ing_reorder_threshold item,
      st_is_active = ing_is_active item\<rparr>"

definition transition_snapshot ::
  "state_snapshot \<Rightarrow> episode option \<Rightarrow> episode_transition option \<Rightarrow> inventory_transition result" where
  "transition_snapshot state episode tfact =
     bindR (case episode of None \<Rightarrow> Inr None
            | Some e \<Rightarrow> bindR (make_episode_facts e) (\<lambda>f. Inr (Some f))) (\<lambda>facts.
     make_inventory_transition
       \<lparr>tr_state = state,
        tr_episode_id = (case episode of Some e \<Rightarrow> Some (ep_episode_id e)
                         | None \<Rightarrow> map_option et_episode_id tfact),
        tr_episode_transition = tfact, tr_episode_facts = facts\<rparr>)"

text \<open>The revision of the changed state: the first one, or the successor of the one before.\<close>

definition advance_revision :: "state_snapshot option \<Rightarrow> ingredient \<Rightarrow> int result" where
  "advance_revision before item = (case before of
      None \<Rightarrow> Inr (max 1 (ing_state_revision item))
    | Some b \<Rightarrow> raise_if (ing_state_revision item \<noteq> st_state_revision b)
        (RuntimeError ''inventory state revision changed outside its lock'')
        (Inr (st_state_revision b + 1)))"

definition new_episode ::
  "uuid \<Rightarrow> datetime \<Rightarrow> string \<Rightarrow> uuid option \<Rightarrow> int option \<Rightarrow> bool \<Rightarrow> state_snapshot \<Rightarrow> episode" where
  "new_episode episode_id opened_at source actor order_id suppressed st =
     \<lparr>ep_episode_id = episode_id, ep_organization_id = st_organization_id st,
      ep_restaurant_id = st_restaurant_id st, ep_ingredient_id = st_ingredient_id st,
      ep_ingredient_name = st_ingredient_name st, ep_unit = st_unit st,
      ep_opening_quantity = st_quantity st, ep_opening_reorder_threshold = st_reorder_threshold st,
      ep_opened_at = opened_at, ep_opening_revision = st_state_revision st,
      ep_opening_source = source, ep_opening_actor_user_id = actor,
      ep_opening_order_id = order_id, ep_notification_suppressed = suppressed,
      ep_resolved_at = None, ep_resolution_reason = None, ep_closing_quantity = None,
      ep_closing_reorder_threshold = None, ep_closing_is_active = None,
      ep_resolution_revision = None, ep_resolution_source = None,
      ep_resolution_actor_user_id = None, ep_resolution_order_id = None\<rparr>"

definition resolve_episode ::
  "datetime \<Rightarrow> string \<Rightarrow> string \<Rightarrow> uuid option \<Rightarrow> int option \<Rightarrow> state_snapshot \<Rightarrow> episode \<Rightarrow> episode" where
  "resolve_episode resolved_at reason source actor order_id st e =
     e\<lparr>ep_resolved_at := Some resolved_at, ep_resolution_reason := Some reason,
       ep_closing_quantity := Some (st_quantity st),
       ep_closing_reorder_threshold := Some (st_reorder_threshold st),
       ep_closing_is_active := Some (st_is_active st),
       ep_resolution_revision := Some (st_state_revision st),
       ep_resolution_source := Some source, ep_resolution_actor_user_id := actor,
       ep_resolution_order_id := order_id\<rparr>"

text \<open>
  The episode boundary of a changed state: an episode opens, the open one resolves, or neither.
\<close>

definition episode_boundary ::
  "invocation \<Rightarrow> state_snapshot option \<Rightarrow> state_snapshot \<Rightarrow> string \<Rightarrow> uuid option \<Rightarrow> int option \<Rightarrow> db
     \<Rightarrow> (episode option \<times> episode_transition option \<times> db) result" where
  "episode_boundary iv before after source actor order_id s =
     (let episode = open_episode s (st_ingredient_id after);
          boundary = low_episode_transition before after; timestamp = Aware (iv_now iv) in
      if boundary = Some ''opened'' then
        raise_if (episode \<noteq> None)
          (RuntimeError ''normal inventory state has an unresolved low episode'') (
        let e = new_episode (next_uuid s) timestamp source actor order_id False after in
        bindR (make_episode_transition \<lparr>et_episode_id = ep_episode_id e, et_kind = ''opened'',
            et_occurred_at = timestamp, et_resolution_reason = None\<rparr>) (\<lambda>tfact.
        Inr (Some e, Some tfact, add_episode e (s\<lparr>next_uuid := next_uuid s + 1\<rparr>))))
      else (case (before, episode) of
          (Some b, Some e) \<Rightarrow>
            if boundary = Some ''resolved'' then
              bindR (episode_resolution_reason b after) (\<lambda>reason.
              let e1 = resolve_episode timestamp reason source actor order_id after e in
              bindR (make_episode_transition \<lparr>et_episode_id = ep_episode_id e1,
                  et_kind = ''resolved'', et_occurred_at = timestamp,
                  et_resolution_reason = Some reason\<rparr>) (\<lambda>tfact.
              Inr (Some e1, Some tfact, save_episode e1 s)))
            else Inr (episode, None, s)
        | _ \<Rightarrow> Inr (episode, None, s)))"

definition state_changed_payload :: "inventory_transition \<Rightarrow> decimal payload" where
  "state_changed_payload t =
     InventoryStateChangedPayload (st_ingredient_id (tr_state t)) (st_ingredient_name (tr_state t))
       (st_unit (tr_state t)) (Finite (st_quantity (tr_state t)))
       (Finite (st_reorder_threshold (tr_state t))) (st_is_active (tr_state t))
       (is_low (tr_state t)) (tr_episode_id t) (map_option et_kind (tr_episode_transition t))
       (Option.bind (tr_episode_transition t) et_resolution_reason)"

definition low_payload :: "int \<Rightarrow> episode \<Rightarrow> decimal payload" where
  "low_payload ingredient_id f =
     InventoryLowPayload ingredient_id (ep_episode_id f) (ep_ingredient_name f) (ep_unit f)
       (Finite (ep_opening_quantity f)) (Finite (ep_opening_reorder_threshold f)) (ep_opened_at f)"

text \<open>The events of a transition: the state change, and the low notice when an episode opened.\<close>

definition announce_transition :: "invocation \<Rightarrow> inventory_transition \<Rightarrow> db \<Rightarrow> db result" where
  "announce_transition iv t s =
     (let st = tr_state t in
      bindR (append_command_event iv Inventory_State_Changed (st_organization_id st)
          (st_restaurant_id st) ''ingredient'' (st_ingredient_id st) (st_state_revision st)
          (state_changed_payload t) s) (\<lambda>(_, s1).
      if (case tr_episode_transition t of None \<Rightarrow> False | Some x \<Rightarrow> et_kind x = ''opened'') then
        or_raise (tr_episode_facts t) (AssertionError ''transition.episode_facts is not None'') (\<lambda>f.
        bindR (append_command_event iv Inventory_Low (st_organization_id st)
            (st_restaurant_id st) ''ingredient'' (st_ingredient_id st) (ep_opening_revision f)
            (low_payload (st_ingredient_id st) f) s1) (\<lambda>(_, s2). Inr s2))
      else Inr s1))"

definition record_inventory_transition ::
  "invocation \<Rightarrow> uuid \<Rightarrow> ingredient \<Rightarrow> balance \<Rightarrow> state_snapshot option \<Rightarrow> string \<Rightarrow> uuid option
     \<Rightarrow> int option \<Rightarrow> db \<Rightarrow> (inventory_transition option \<times> db) result" where
  "record_inventory_transition iv organization_id item bal before source actor order_id s =
     (if \<not> inventory_state_changed before (inventory_state_snapshot organization_id item bal)
      then Inr (None, s)
      else bindR (advance_revision before item) (\<lambda>revision.
        let item1 = item\<lparr>ing_state_revision := revision\<rparr>;
            after = inventory_state_snapshot organization_id item1 bal in
        bindR (episode_boundary iv before after source actor order_id (save_ingredient item1 s))
          (\<lambda>(episode, tfact, s1).
        bindR (transition_snapshot after episode tfact) (\<lambda>transition.
        bindR (announce_transition iv transition s1) (\<lambda>s2.
        Inr (Some transition, s2))))))"

section \<open>Trusted reads\<close>

definition load_inventory_state :: "db \<Rightarrow> uuid \<Rightarrow> int \<Rightarrow> int \<Rightarrow> bool \<Rightarrow> inventory_transition result" where
  "load_inventory_state s organization_id restaurant_id ingredient_id lock =
     (let read = bindR (ingredient_state s organization_id restaurant_id ingredient_id)
        (\<lambda>(item, bal). transition_snapshot (inventory_state_snapshot organization_id item bal)
           (open_episode s ingredient_id) None) in
      if lock then lock_restaurant_for_organization s organization_id restaurant_id read else read)"

definition load_inventory_episode_facts :: "db \<Rightarrow> uuid \<Rightarrow> episode option result" where
  "load_inventory_episode_facts s episode_id = (case episode_by_id s episode_id of
      None \<Rightarrow> Inr None | Some e \<Rightarrow> bindR (make_episode_facts e) (\<lambda>f. Inr (Some f)))"

primrec all_results :: "'a result list \<Rightarrow> 'a list result" where
  "all_results [] = Inr []"
| "all_results (r # rs) = bindR r (\<lambda>x. bindR (all_results rs) (\<lambda>xs. Inr (x # xs)))"

definition load_inventory_episode_history :: "db \<Rightarrow> uuid \<Rightarrow> int \<Rightarrow> episode list result" where
  "load_inventory_episode_history s organization_id restaurant_id =
     all_results (map make_episode_facts (episodes_for_restaurant s organization_id restaurant_id))"

definition load_inventory_restaurant_states ::
  "db \<Rightarrow> uuid \<Rightarrow> int \<Rightarrow> bool \<Rightarrow> inventory_transition list result" where
  "load_inventory_restaurant_states s organization_id restaurant_id lock =
     (let read = all_results (map (\<lambda>(item, bal).
            transition_snapshot (inventory_state_snapshot organization_id item bal)
              (open_episode s (ing_id item)) None)
          (ingredients_for_restaurant s organization_id restaurant_id)) in
      if lock then lock_restaurant_for_organization s organization_id restaurant_id read else read)"

definition record_baseline_inventory_episode ::
  "invocation \<Rightarrow> uuid \<Rightarrow> int \<Rightarrow> int \<Rightarrow> db \<Rightarrow> (inventory_transition \<times> db) result" where
  "record_baseline_inventory_episode iv organization_id restaurant_id ingredient_id s =
     lock_restaurant_for_organization s organization_id restaurant_id (
     bindR (ingredient_state s organization_id restaurant_id ingredient_id) (\<lambda>(item, bal).
     let st = inventory_state_snapshot organization_id item bal;
         found = open_episode s ingredient_id;
         e = new_episode (next_uuid s) (Aware (iv_now iv)) ''maintenance_initialization'' None None
               True st;
         opens = (found = None \<and> ing_is_active item
                  \<and> bal_quantity bal \<le> ing_reorder_threshold item);
         s1 = (if opens then add_episode e (s\<lparr>next_uuid := next_uuid s + 1\<rparr>) else s) in
     bindR (transition_snapshot st (if opens then Some e else found) None) (\<lambda>t. Inr (t, s1))))"

section \<open>Service\<close>

record ingredient_view =
  vw_id :: int
  vw_restaurant_id :: int
  vw_name :: string
  vw_unit :: string
  vw_reorder_threshold :: dec
  vw_is_active :: bool
  vw_quantity :: dec
  vw_version :: int
  vw_low_stock :: bool

definition ingredient_response :: "ingredient \<Rightarrow> balance \<Rightarrow> ingredient_view" where
  "ingredient_response item bal =
     \<lparr>vw_id = ing_id item, vw_restaurant_id = ing_restaurant_id item, vw_name = ing_name item,
      vw_unit = ing_unit item, vw_reorder_threshold = ing_reorder_threshold item,
      vw_is_active = ing_is_active item, vw_quantity = bal_quantity bal,
      vw_version = bal_version bal,
      vw_low_stock = (ing_is_active item \<and> bal_quantity bal \<le> ing_reorder_threshold item)\<rparr>"

text \<open>
  \<open>fingerprint\<close>: the digest of the command without its idempotency key. A decimal enters in
  normalised form, so equal amounts give equal documents; the keys are in sorted order.
\<close>

definition fingerprint_create :: "(json \<Rightarrow> string) \<Rightarrow> create_ingredient \<Rightarrow> string" where
  "fingerprint_create digest data = digest (JObj
     [(''name'', JStr (ci_name data)),
      (''opening_quantity'', JDec (decimal_value (ci_opening_quantity data))),
      (''reorder_threshold'', JDec (decimal_value (ci_reorder_threshold data))),
      (''unit'', JStr (ci_unit data))])"

definition fingerprint_change :: "(json \<Rightarrow> string) \<Rightarrow> change_stock \<Rightarrow> string" where
  "fingerprint_change digest data = digest (JObj
     [(''expected_version'', json_opt JInt (cs_expected_version data)),
      (''kind'', JStr (cs_kind data)),
      (''quantity'', JDec (decimal_value (cs_quantity data))),
      (''reason'', JStr (cs_reason data))])"

definition validate_ingredient :: "string \<Rightarrow> string \<Rightarrow> 'a result \<Rightarrow> 'a result" where
  "validate_ingredient name unit rest =
     raise_if (name \<noteq> py_strip name \<or> name = [] \<or> length name > 255
         \<or> length (py_casefold name) > 765 \<or> unit \<notin> set [''g'', ''ml'', ''piece''])
       (ValidationError ''Valid ingredient name and base unit are required'') rest"

text \<open>
  \<open>prepare\<close>; the row that \<open>lock_restaurant\<close> locks is the one the access check has just found.
\<close>

definition prepare :: "invocation \<Rightarrow> int \<Rightarrow> string \<Rightarrow> db \<Rightarrow> (access_context \<Rightarrow> 'a result) \<Rightarrow> 'a result" where
  "prepare iv restaurant_id capability s rest =
     bindR (current s (iv_user_id iv)) (\<lambda>context.
     access_restaurant s context restaurant_id capability (rest context))"

definition list_ingredients :: "invocation \<Rightarrow> int \<Rightarrow> nat \<Rightarrow> nat \<Rightarrow> db \<Rightarrow> ingredient_view list result" where
  "list_ingredients iv restaurant_id limit offset s =
     prepare iv restaurant_id ''inventory.read'' s (\<lambda>context.
     Inr (map (\<lambda>(item, bal). ingredient_response item bal)
       (repo_ingredients s context restaurant_id limit offset)))"

definition idempotency_conflict :: app_error where
  "idempotency_conflict = ConflictError ''Idempotency key was already used for a different request''"

definition duplicate_name_error :: app_error where
  "duplicate_name_error = ConflictError ''An ingredient with this name already exists''"

definition invalid_key_error :: app_error where
  "invalid_key_error = ValidationError ''Invalid idempotency key''"

definition create_ingredient_command ::
  "(json \<Rightarrow> string) \<Rightarrow> invocation \<Rightarrow> int \<Rightarrow> create_ingredient \<Rightarrow> db \<Rightarrow> (ingredient_view \<times> db) result" where
  "create_ingredient_command digest iv restaurant_id data s =
     prepare iv restaurant_id ''inventory.manage'' s (\<lambda>context.
     validate_ingredient (ci_name data) (ci_unit data) (
     bindR (quantity False (ci_opening_quantity data)) (\<lambda>opening.
     bindR (quantity False (ci_reorder_threshold data)) (\<lambda>threshold.
     raise_if (\<not> idempotency_key_ok (ci_idempotency_key data)) invalid_key_error (
     let signature = fingerprint_create digest data in
     case replay_movement s context restaurant_id (ci_idempotency_key data) None of
       Some replay \<Rightarrow>
         raise_if (mov_request_fingerprint replay \<noteq> Some signature) idempotency_conflict (
         bindR (repo_ingredient s context restaurant_id (mov_ingredient_id replay)) (\<lambda>(item, bal).
         Inr (ingredient_response item bal, s)))
     | None \<Rightarrow>
         raise_if (duplicate_name s context restaurant_id (py_casefold (ci_name data)) 0)
           duplicate_name_error (
         let item = \<lparr>ing_id = next_serial s, ing_restaurant_id = restaurant_id,
               ing_name = ci_name data, ing_normalized_name = py_casefold (ci_name data),
               ing_unit = ci_unit data, ing_reorder_threshold = threshold,
               ing_is_active = True, ing_state_revision = 1\<rparr>;
             bal = \<lparr>bal_ingredient_id = ing_id item, bal_quantity = opening, bal_version = 1\<rparr>;
             s1 = s\<lparr>ingredients := ingredients s @ [item], balances := balances s @ [bal],
                    next_serial := next_serial s + 1\<rparr>;
             s2 = add_movement \<lparr>mov_id = next_serial s1, mov_ingredient_id = ing_id item,
               mov_kind = ''opening'', mov_quantity_delta = opening, mov_balance_after = opening,
               mov_version_after = 1, mov_actor_user_id = Some (ac_user_id context),
               mov_order_id = None, mov_reason = ''Opening stock'',
               mov_idempotency_key = Some (ci_idempotency_key data),
               mov_request_fingerprint = Some signature, mov_occurred_at = iv_now iv\<rparr> s1 in
         bindR (record_inventory_transition iv (ac_organization_id context) item bal None
             ''ingredient_creation'' (Some (ac_user_id context)) None s2) (\<lambda>(_, s3).
         Inr (ingredient_response item bal,
           record_audit iv context ''inventory.ingredient.created'' ''ingredient''
             (py_str_int (ing_id item)) (Some restaurant_id) [(''quantity'', JDec opening)] s3))))))))"

definition update_ingredient_command ::
  "invocation \<Rightarrow> int \<Rightarrow> int \<Rightarrow> update_ingredient \<Rightarrow> db \<Rightarrow> (ingredient_view \<times> db) result" where
  "update_ingredient_command iv restaurant_id ingredient_id data s =
     prepare iv restaurant_id ''inventory.manage'' s (\<lambda>context.
     bindR (repo_ingredient s context restaurant_id ingredient_id) (\<lambda>(item, bal).
     validate_ingredient (ui_name data) (ui_unit data) (
     raise_if (duplicate_name s context restaurant_id (py_casefold (ui_name data)) ingredient_id)
       duplicate_name_error (
     raise_if (ing_unit item \<noteq> ui_unit data \<and> has_history s ingredient_id)
       (ConflictError ''Unit cannot change after stock history exists'') (
     raise_if (\<not> ui_is_active data \<and> bal_quantity bal > 0)
       (ConflictError ''Record remaining stock as waste or count it to zero before archiving'') (
     let before = inventory_state_snapshot (ac_organization_id context) item bal in
     bindR (quantity False (ui_reorder_threshold data)) (\<lambda>threshold.
     let item1 = item\<lparr>ing_name := ui_name data, ing_normalized_name := py_casefold (ui_name data),
           ing_unit := ui_unit data, ing_reorder_threshold := threshold,
           ing_is_active := ui_is_active data\<rparr> in
     bindR (record_inventory_transition iv (ac_organization_id context) item1 bal (Some before)
         ''ingredient_update'' (Some (ac_user_id context)) None (save_ingredient item1 s)) (\<lambda>(_, s1).
     Inr (ingredient_response item1 bal,
       record_audit iv context ''inventory.ingredient.updated'' ''ingredient''
         (py_str_int ingredient_id) (Some restaurant_id)
         [(''fields'', JList (map JStr [''name'', ''unit'', ''reorder_threshold'', ''is_active'']))]
         s1)))))))))"

text \<open>The signed change of a stock command, against the current balance.\<close>

definition stock_delta :: "change_stock \<Rightarrow> dec \<Rightarrow> balance \<Rightarrow> dec result" where
  "stock_delta data amount bal =
     (if cs_kind data = ''count'' then
        raise_if (cs_expected_version data \<noteq> Some (bal_version bal))
          (ConflictError ''Stock changed since this count began. Refresh and count again'')
          (Inr (amount - bal_quantity bal))
      else Inr (if cs_kind data = ''receipt'' then amount else - amount))"

definition change_stock_command ::
  "(json \<Rightarrow> string) \<Rightarrow> invocation \<Rightarrow> int \<Rightarrow> int \<Rightarrow> change_stock \<Rightarrow> db \<Rightarrow> (movement \<times> db) result" where
  "change_stock_command digest iv restaurant_id ingredient_id data s =
     prepare iv restaurant_id ''inventory.manage'' s (\<lambda>context.
     bindR (repo_ingredient s context restaurant_id ingredient_id) (\<lambda>(item, bal).
     raise_if (cs_kind data \<notin> set [''receipt'', ''waste'', ''count'']
         \<or> py_strip (cs_reason data) = [] \<or> length (cs_reason data) > 500)
       (ValidationError ''Valid stock action and reason are required'') (
     bindR (quantity (cs_kind data \<noteq> ''count'') (cs_quantity data)) (\<lambda>amount.
     raise_if (cs_kind data = ''count'' \<and> cs_expected_version data = None)
       (ValidationError ''Physical counts require the stock version'') (
     raise_if (\<not> idempotency_key_ok (cs_idempotency_key data)) invalid_key_error (
     let signature = fingerprint_change digest data in
     case replay_movement s context restaurant_id (cs_idempotency_key data) (Some ingredient_id) of
       Some replay \<Rightarrow>
         raise_if (mov_request_fingerprint replay \<noteq> Some signature) idempotency_conflict
           (Inr (replay, s))
     | None \<Rightarrow>
         raise_if (\<not> ing_is_active item)
           (ConflictError ''Restore this ingredient before changing stock'') (
         bindR (stock_delta data amount bal) (\<lambda>delta.
         let after = bal_quantity bal + delta in
         raise_if (after < 0) (ConflictError ''Insufficient stock'') (
         bindR (quantity False (Finite after)) (\<lambda>_.
         let before = inventory_state_snapshot (ac_organization_id context) item bal;
             bal1 = bal\<lparr>bal_quantity := after, bal_version := bal_version bal + 1\<rparr>;
             m = \<lparr>mov_id = next_serial s, mov_ingredient_id = ingredient_id,
               mov_kind = cs_kind data, mov_quantity_delta = delta, mov_balance_after = after,
               mov_version_after = bal_version bal1, mov_actor_user_id = Some (ac_user_id context),
               mov_order_id = None, mov_reason = cs_reason data,
               mov_idempotency_key = Some (cs_idempotency_key data),
               mov_request_fingerprint = Some signature, mov_occurred_at = iv_now iv\<rparr>;
             s1 = add_movement m (save_balance bal1 s) in
         bindR (record_inventory_transition iv (ac_organization_id context) item bal1 (Some before)
             ''stock_command'' (Some (ac_user_id context)) None s1) (\<lambda>(_, s2).
         Inr (m, record_audit iv context (''inventory.stock.'' @ cs_kind data) ''ingredient''
           (py_str_int ingredient_id) (Some restaurant_id) [(''quantity'', JDec delta)] s2))))))))))))"

definition stock_history ::
  "invocation \<Rightarrow> int \<Rightarrow> int \<Rightarrow> nat \<Rightarrow> nat \<Rightarrow> db \<Rightarrow> (movement \<times> string option) list result" where
  "stock_history iv restaurant_id ingredient_id limit offset s =
     prepare iv restaurant_id ''inventory.read'' s (\<lambda>context.
     bindR (repo_ingredient s context restaurant_id ingredient_id) (\<lambda>_.
     Inr (repo_movements s context ingredient_id limit offset)))"

end
