(* ===== verification/Inventory_Ledger.thy ===== *)
theory Inventory_Ledger
  imports Inventory Tenancy
begin

text \<open>
  Correctness of the inventory service: the movement ledger is the authoritative history of every
  balance, low-stock episodes follow the low state of their ingredient, revisions and events record
  exactly the state changes, and retried commands are idempotent.
\<close>

section \<open>The abstract ledger\<close>

text \<open>
  The specification of a balance: replaying the ingredient's movements from nothing, each of which
  states the balance and version it leaves, gives the stored quantity and version.
\<close>

primrec ledger_from :: "dec \<times> int \<Rightarrow> movement list \<Rightarrow> (dec \<times> int) option" where
  "ledger_from qv [] = Some qv"
| "ledger_from qv (m # ms) =
     (if mov_balance_after m = fst qv + mov_quantity_delta m \<and> mov_version_after m = snd qv + 1
      then ledger_from (mov_balance_after m, mov_version_after m) ms else None)"

definition movements_of :: "db \<Rightarrow> int \<Rightarrow> movement list" where
  "movements_of s i = filter (\<lambda>m. mov_ingredient_id m = i) (movements s)"

definition ledger_ok :: "db \<Rightarrow> balance \<Rightarrow> bool" where
  "ledger_ok s b = (ledger_from (0, 0) (movements_of s (bal_ingredient_id b)) =
     Some (bal_quantity b, bal_version b))"

lemma ledger_from_append:
  "ledger_from qv (ms @ [m]) = (case ledger_from qv ms of None \<Rightarrow> None
     | Some (q, v) \<Rightarrow> if mov_balance_after m = q + mov_quantity_delta m \<and> mov_version_after m = v + 1
         then Some (mov_balance_after m, mov_version_after m) else None)"
  by (induction ms arbitrary: qv) (auto split: prod.splits)

lemma ledger_from_sum:
  "ledger_from (q, v) ms = Some (q', v') \<Longrightarrow>
   q' = q + sum_list (map mov_quantity_delta ms) \<and> v' = v + int (length ms)"
proof (induction ms arbitrary: q v)
  case (Cons m ms)
  then have "ledger_from (q + mov_quantity_delta m, v + 1) ms = Some (q', v')"
    by (auto split: if_splits)
  from Cons.IH [OF this] show ?case by simp
qed simp

section \<open>Stock\<close>

definition stock_at :: "db \<Rightarrow> int \<Rightarrow> (ingredient \<times> balance) option" where
  "stock_at s i = (case (by_key ing_id i (ingredients s), by_key bal_ingredient_id i (balances s)) of
     (Some item, Some bal) \<Rightarrow> Some (item, bal) | _ \<Rightarrow> None)"

definition ingredient_ok :: "ingredient \<Rightarrow> bool" where
  "ingredient_ok i = (0 < ing_id i \<and> ingredient_check i \<and> quantity_valid (ing_reorder_threshold i)
     \<and> name_in_bounds (ing_name i) \<and> py_strip (ing_name i) = ing_name i
     \<and> ing_normalized_name i = py_casefold (ing_name i) \<and> 0 < ing_restaurant_id i)"

definition keyed_movements :: "db \<Rightarrow> (int \<times> string option) list" where
  "keyed_movements s = map (\<lambda>m. (mov_ingredient_id m, mov_idempotency_key m))
     (filter (\<lambda>m. mov_idempotency_key m \<noteq> None) (movements s))"

definition stock_inv :: "db \<Rightarrow> bool" where
  "stock_inv s = (unique_keys ing_id (ingredients s)
     \<and> unique_keys (\<lambda>i. (ing_restaurant_id i, ing_normalized_name i)) (ingredients s)
     \<and> map bal_ingredient_id (balances s) = map ing_id (ingredients s)
     \<and> (\<forall>i \<in> set (ingredients s). ing_id i < next_serial s \<and> ingredient_ok i)
     \<and> (\<forall>b \<in> set (balances s). quantity_valid (bal_quantity b) \<and> 1 \<le> bal_version b \<and> ledger_ok s b)
     \<and> unique_keys mov_id (movements s) \<and> distinct (keyed_movements s)
     \<and> (\<forall>m \<in> set (movements s). mov_id m < next_serial s \<and> movement_check m
          \<and> mov_ingredient_id m \<in> ing_id ` set (ingredients s)))"

interpretation ingredient_repo: repository ing_id ingredients save_ingredient
  by standard (simp add: save_ingredient_def)

interpretation balance_repo: repository bal_ingredient_id balances save_balance
  by standard (simp add: save_balance_def)

interpretation episode_repo: repository ep_episode_id episodes save_episode
  by standard (simp add: save_episode_def)

lemma stock_at_Some:
  "stock_at s i = Some (item, bal) \<longleftrightarrow> by_key ing_id i (ingredients s) = Some item
     \<and> by_key bal_ingredient_id i (balances s) = Some bal"
  by (auto simp: stock_at_def split: option.splits)

lemma stock_at_ids: "stock_at s i = Some (item, bal) \<Longrightarrow> ing_id item = i \<and> bal_ingredient_id bal = i"
  by (auto simp: stock_at_Some dest: by_key_Some)

lemma stock_at_cong:
  "ingredients s = ingredients t \<Longrightarrow> balances s = balances t \<Longrightarrow> stock_at s = stock_at t"
  by (rule ext) (simp add: stock_at_def)

lemma repo_ingredient_Inr:
  assumes "repo_ingredient s ctx rid i = Inr (item, bal)" and "stock_inv s"
  shows "stock_at s i = Some (item, bal) \<and> ing_restaurant_id item = rid"
proof -
  obtain x where x: "select_one (\<lambda>x. ing_id x = i \<and> ing_restaurant_id x = rid
      \<and> restaurant_exists s ctx rid) (ingredients s) = Some x" "with_balance s x = Some (item, bal)"
    using assms(1) by (auto simp: repo_ingredient_def res_simps bind_eq_Some_conv)
  have "x \<in> set (ingredients s)" "ing_id x = i" "ing_restaurant_id x = rid"
    using select_one_Some [OF x(1)] by auto
  then show ?thesis using by_key_member [of ing_id "ingredients s" x] assms(2) x(2)
    by (auto simp: stock_inv_def with_balance_def stock_at_Some)
qed

text \<open>Writing back one ingredient and its balance changes the stock of that ingredient only.\<close>

lemma stock_at_save:
  assumes "stock_at s i = Some (item0, bal0)" and "ing_id item = i" "bal_ingredient_id bal = i"
    and "ingredients t = store_row ing_id item (ingredients s)"
    and "balances t = store_row bal_ingredient_id bal (balances s)"
  shows "stock_at t j = (if j = i then Some (item, bal) else stock_at s j)"
proof -
  have "i \<in> ing_id ` set (ingredients s)" "i \<in> bal_ingredient_id ` set (balances s)"
    using assms(1) by_key_None [of ing_id i "ingredients s"]
      by_key_None [of bal_ingredient_id i "balances s"] by (simp_all add: stock_at_Some)
  then show ?thesis using assms(2-5) by (simp add: stock_at_def by_key_store_row)
qed

lemma stock_at_add:
  assumes "ing_id item \<notin> ing_id ` set (ingredients s)"
    and "bal_ingredient_id bal = ing_id item" "map bal_ingredient_id (balances s) = map ing_id (ingredients s)"
    and "ingredients t = ingredients s @ [item]" "balances t = balances s @ [bal]"
  shows "stock_at t j = (if j = ing_id item then Some (item, bal) else stock_at s j)"
proof -
  have "bal_ingredient_id ` set (balances s) = ing_id ` set (ingredients s)"
    using assms(3) by (metis list.set_map)
  then show ?thesis using assms
    by (auto simp: stock_at_def by_key_append_new split: option.splits)
qed

section \<open>Episodes\<close>

definition episode_fits :: "db \<Rightarrow> episode \<Rightarrow> bool" where
  "episode_fits s e = (case stock_at s (ep_ingredient_id e) of None \<Rightarrow> False
     | Some (item, bal) \<Rightarrow> is_low (inventory_state_snapshot (ep_organization_id e) item bal)
         \<and> ep_restaurant_id e = ing_restaurant_id item
         \<and> ep_opening_revision e \<le> ing_state_revision item)"

definition is_open :: "episode \<Rightarrow> bool" where
  "is_open e = (ep_resolved_at e = None)"

definition episode_inv :: "db \<Rightarrow> bool" where
  "episode_inv s = (unique_keys ep_episode_id (episodes s)
     \<and> unique_keys ep_ingredient_id (filter is_open (episodes s))
     \<and> (\<forall>e \<in> set (episodes s). ep_episode_id e < next_uuid s \<and> episode_check e
          \<and> make_episode_facts e = Inr e)
     \<and> (\<forall>e \<in> set (episodes s). is_open e \<longrightarrow> episode_fits s e))"

text \<open>Every low ingredient has an open episode.\<close>

definition episodes_complete :: "db \<Rightarrow> bool" where
  "episodes_complete s = (\<forall>i \<in> set (ingredients s).
     (case stock_at s (ing_id i) of None \<Rightarrow> True
      | Some (item, bal) \<Rightarrow> is_low (inventory_state_snapshot 0 item bal)
          \<longrightarrow> open_episode s (ing_id i) \<noteq> None))"

lemma open_episode_Some:
  "open_episode s i = Some e \<Longrightarrow> e \<in> set (episodes s) \<and> ep_ingredient_id e = i \<and> is_open e"
  unfolding open_episode_def by (drule select_one_Some) (simp add: is_open_def)

lemma open_episode_None:
  "open_episode s i = None \<longleftrightarrow> (\<forall>e \<in> set (episodes s). is_open e \<longrightarrow> ep_ingredient_id e \<noteq> i)"
  by (auto simp: open_episode_def select_one_None is_open_def)

lemma is_low_org [simp]:
  "is_low (inventory_state_snapshot org item bal) =
     (ing_is_active item \<and> bal_quantity bal \<le> ing_reorder_threshold item)"
  by (simp add: is_low_def inventory_state_snapshot_def)

section \<open>The transition writer\<close>

lemma announce_frame:
  assumes "announce_transition iv tr s = Inr t"
  shows "events_only s t" and "outbox_inv s \<Longrightarrow> outbox_inv t"
  using assms
  by (auto simp: announce_transition_def Let_def res_simps split: if_splits
      intro: events_only_append events_only_trans append_command_event_outbox_inv)

text \<open>The first event of a transition carries the state, at its revision.\<close>

lemma announce_event:
  assumes "announce_transition iv tr s = Inr t"
  shows "\<exists>e ev. outbox_events t = outbox_events s @ e # ev
    \<and> raw_event_type (evt_facts e) = ''inventory.state_changed.v1''
    \<and> raw_aggregate_id (evt_facts e) = py_str_int (st_ingredient_id (tr_state tr))
    \<and> raw_aggregate_revision (evt_facts e) = st_state_revision (tr_state tr)
    \<and> (ev = [] \<longleftrightarrow> (\<forall>x. tr_episode_transition tr = Some x \<longrightarrow> et_kind x \<noteq> ''opened''))
    \<and> (\<forall>l \<in> set ev. raw_event_type (evt_facts l) = ''inventory.low.v1'')
    \<and> length ev \<le> 1"
proof -
  obtain e s1 where e: "append_command_event iv Inventory_State_Changed
      (st_organization_id (tr_state tr)) (st_restaurant_id (tr_state tr)) ''ingredient''
      (st_ingredient_id (tr_state tr)) (st_state_revision (tr_state tr))
      (state_changed_payload tr) s = Inr (e, s1)"
    and rest: "(if (case tr_episode_transition tr of None \<Rightarrow> False | Some x \<Rightarrow> et_kind x = ''opened'') then
        or_raise (tr_episode_facts tr) (AssertionError ''transition.episode_facts is not None'') (\<lambda>f.
        bindR (append_command_event iv Inventory_Low (st_organization_id (tr_state tr))
            (st_restaurant_id (tr_state tr)) ''ingredient'' (st_ingredient_id (tr_state tr))
            (ep_opening_revision f)
            (low_payload (st_ingredient_id (tr_state tr)) f) s1) (\<lambda>(_, s2). Inr s2))
      else Inr s1) = Inr t"
    using assms by (auto simp: announce_transition_def Let_def res_simps)
  from append_command_event_Inr [OF e] have head: "outbox_events s1 = outbox_events s @ [e]"
    "raw_event_type (evt_facts e) = ''inventory.state_changed.v1''"
    "raw_aggregate_id (evt_facts e) = py_str_int (st_ingredient_id (tr_state tr))"
    "raw_aggregate_revision (evt_facts e) = st_state_revision (tr_state tr)"
    by auto
  show ?thesis
  proof (cases "case tr_episode_transition tr of None \<Rightarrow> False | Some x \<Rightarrow> et_kind x = ''opened''")
    case True
    then obtain f l where l: "append_command_event iv Inventory_Low (st_organization_id (tr_state tr))
            (st_restaurant_id (tr_state tr)) ''ingredient'' (st_ingredient_id (tr_state tr))
            (ep_opening_revision f)
            (low_payload (st_ingredient_id (tr_state tr)) f) s1 = Inr (l, t)"
      using rest by (auto simp: res_simps)
    from append_command_event_Inr [OF l] have "outbox_events t = outbox_events s1 @ [l]"
      "raw_event_type (evt_facts l) = ''inventory.low.v1''" by auto
    then show ?thesis using head True
      by (intro exI [of _ e] exI [of _ "[l]"]) (auto split: option.splits)
  next
    case False
    then have "t = s1" using rest by simp
    then show ?thesis using head False
      by (intro exI [of _ e] exI [of _ "[]"]) (auto split: option.splits)
  qed
qed

lemma episode_boundary_Inr:
  assumes "episode_boundary iv before after source actor oid s = Inr (epi, tf, t)"
  obtains (opened) e where "low_episode_transition before after = Some ''opened''"
      "open_episode s (st_ingredient_id after) = None"
      "e = new_episode (next_uuid s) (Aware (iv_now iv)) source actor oid False after"
      "epi = Some e" "t = add_episode e (s\<lparr>next_uuid := next_uuid s + 1\<rparr>)"
      "tf = Some \<lparr>et_episode_id = ep_episode_id e, et_kind = ''opened'',
         et_occurred_at = Aware (iv_now iv), et_resolution_reason = None\<rparr>"
  | (resolved) b e reason e1 where "low_episode_transition before after = Some ''resolved''"
      "before = Some b" "open_episode s (st_ingredient_id after) = Some e"
      "episode_resolution_reason b after = Inr reason"
      "e1 = resolve_episode (Aware (iv_now iv)) reason source actor oid after e"
      "epi = Some e1" "t = save_episode e1 s"
      "tf = Some \<lparr>et_episode_id = ep_episode_id e1, et_kind = ''resolved'',
         et_occurred_at = Aware (iv_now iv), et_resolution_reason = Some reason\<rparr>"
  | (neither) "t = s" "tf = None" "epi = open_episode s (st_ingredient_id after)"
      "low_episode_transition before after = None
       \<or> open_episode s (st_ingredient_id after) = None
         \<and> low_episode_transition before after = Some ''resolved''"
proof -
  have kinds: "low_episode_transition before after \<in> {None, Some ''opened'', Some ''resolved''}"
    by (auto simp: low_episode_transition_def Let_def)
  show ?thesis
  proof (cases "low_episode_transition before after = Some ''opened''")
    case True
    with assms show ?thesis
      by (intro opened) (auto simp: episode_boundary_def Let_def res_simps)
  next
    case not_opened: False
    show ?thesis
    proof (cases "low_episode_transition before after = Some ''resolved''
        \<and> open_episode s (st_ingredient_id after) \<noteq> None")
      case True
      then obtain b e where "before = Some b" "open_episode s (st_ingredient_id after) = Some e"
        by (auto simp: low_episode_transition_def Let_def split: option.splits if_splits)
      with True not_opened assms show ?thesis
        by (auto simp: episode_boundary_def Let_def res_simps intro: resolved)
    next
      case False
      with not_opened assms kinds show ?thesis
        by (intro neither) (auto simp: episode_boundary_def Let_def split: option.splits if_splits)
    qed
  qed
qed

subsection \<open>Episodes across a transition\<close>

definition snapshot_ok :: "state_snapshot \<Rightarrow> bool" where
  "snapshot_ok st = (0 < st_restaurant_id st \<and> 0 < st_ingredient_id st \<and> 1 \<le> st_state_revision st
     \<and> valid_unit (st_unit st) \<and> py_strip (st_ingredient_name st) \<noteq> []
     \<and> quantity_valid (st_quantity st) \<and> quantity_valid (st_reorder_threshold st))"

text \<open>The sources a command may give, and their link to an order.\<close>

definition source_ok :: "string \<Rightarrow> int option \<Rightarrow> bool" where
  "source_ok source order_id = (source \<in> set episode_sources
     \<and> (source = ''order_acceptance'' \<longleftrightarrow> order_id \<noteq> None))"

lemma snapshot_ok_item:
  "ingredient_ok item \<Longrightarrow> quantity_valid (bal_quantity bal) \<Longrightarrow>
   snapshot_ok (inventory_state_snapshot org item bal)"
  by (auto simp: snapshot_ok_def ingredient_ok_def inventory_state_snapshot_def ingredient_check_def
      name_in_bounds_def)

lemma new_episode_ok:
  assumes "snapshot_ok st" "is_low st" "source_ok source oid" "is_aware ts"
    and "suppressed \<Longrightarrow> source = ''maintenance_initialization''"
  shows "episode_check (new_episode u ts source actor oid suppressed st)"
    and "make_episode_facts (new_episode u ts source actor oid suppressed st) =
      Inr (new_episode u ts source actor oid suppressed st)"
  using assms
  by (auto simp: episode_check_def episode_opening_check_def episode_resolution_check_def
      episode_unresolved_def new_episode_def snapshot_ok_def is_low_def source_ok_def
      quantity_valid_def max_quantity_def make_episode_facts_def resolution_values_def raise_if_def)

lemma resolve_episode_ok:
  assumes "episode_check e" "make_episode_facts e = Inr e" "\<not> is_low st" "source_ok source oid"
    and "is_aware ts" "ep_opening_revision e < st_state_revision st"
    and "reason \<in> set [''archived'', ''threshold_changed'', ''stock_recovered'']"
  shows "episode_check (resolve_episode ts reason source actor oid st e)"
    and "make_episode_facts (resolve_episode ts reason source actor oid st e) =
      Inr (resolve_episode ts reason source actor oid st e)"
proof -
  let ?e = "resolve_episode ts reason source actor oid st e"
  have "episode_opening_check ?e"
    using assms(1) by (simp add: episode_check_def episode_opening_check_def resolve_episode_def)
  moreover have "episode_resolution_check ?e"
    using assms(3-7) by (auto simp: episode_resolution_check_def resolve_episode_def
        resolution_values_def is_low_def source_ok_def split: bool.splits)
  ultimately show "episode_check ?e" by (simp add: episode_check_def)
  show "make_episode_facts ?e = Inr ?e"
    using assms(2,5,6) by (auto simp: make_episode_facts_def resolve_episode_def
        resolution_values_def res_simps)
qed

lemma unique_keys_filter_store_row:
  "unique_keys k (filter P rows) \<Longrightarrow> \<not> P r \<Longrightarrow> unique_keys k (filter P (store_row key r rows))"
  by (induction rows) (auto dest!: in_store_row split: if_splits)

lemma episode_inv_same:
  assumes "episode_inv s" and "episodes t = episodes s" "next_uuid s \<le> next_uuid t"
    and "\<And>e. e \<in> set (episodes s) \<Longrightarrow> is_open e \<Longrightarrow> episode_fits s e \<Longrightarrow> episode_fits t e"
  shows "episode_inv t"
  using assms by (fastforce simp: episode_inv_def)

lemma episode_fits_other:
  "stock_at t (ep_ingredient_id e) = stock_at s (ep_ingredient_id e) \<Longrightarrow>
   episode_fits s e \<Longrightarrow> episode_fits t e"
  by (simp add: episode_fits_def)

lemma open_unique:
  assumes "episode_inv s" "open_episode s i = Some e" "x \<in> set (episodes s)" "is_open x"
    "ep_ingredient_id x = i"
  shows "x = e"
  using unique_keys_eq [where key = ep_ingredient_id and rows = "filter is_open (episodes s)" and x = x
      and y = e] assms open_episode_Some [OF assms(2)] by (auto simp: episode_inv_def)

text \<open>An opened episode.\<close>

lemma episode_inv_opened:
  assumes inv: "episode_inv s" and "open_episode s (ep_ingredient_id e) = None" and "is_open e"
    and "episodes t = episodes s @ [e]" "ep_episode_id e < next_uuid t" "next_uuid s \<le> ep_episode_id e"
    and "episode_check e" "make_episode_facts e = Inr e" "episode_fits t e"
    and "\<And>j. j \<noteq> ep_ingredient_id e \<Longrightarrow> stock_at t j = stock_at s j"
  shows "episode_inv t"
proof -
  have other: "ep_ingredient_id x \<noteq> ep_ingredient_id e" if "x \<in> set (episodes s)" "is_open x" for x
    using assms(2) that by (auto simp: open_episode_None)
  have new: "ep_episode_id x < ep_episode_id e" if "x \<in> set (episodes s)" for x
    using inv assms(6) that by (auto simp: episode_inv_def)
  have "unique_keys ep_episode_id (episodes t)"
    using inv new by (fastforce simp: episode_inv_def assms(4))
  moreover have "unique_keys ep_ingredient_id (filter is_open (episodes t))"
    using inv other assms(3) by (fastforce simp: episode_inv_def assms(4))
  moreover have "\<forall>x \<in> set (episodes s). is_open x \<longrightarrow> episode_fits t x"
    using inv other assms(10) by (auto simp: episode_inv_def intro: episode_fits_other)
  moreover have "\<forall>x \<in> set (episodes s). ep_episode_id x < next_uuid t"
    using new assms(5) by (meson order.strict_trans)
  ultimately show ?thesis using assms by (auto simp: episode_inv_def)
qed

text \<open>A resolved episode.\<close>

lemma episode_inv_resolved:
  assumes inv: "episode_inv s" and e: "open_episode s i = Some e" and "\<not> is_open e1"
    and "ep_episode_id e1 = ep_episode_id e"
    and t: "episodes t = store_row ep_episode_id e1 (episodes s)" "next_uuid s \<le> next_uuid t"
    and "episode_check e1" "make_episode_facts e1 = Inr e1"
    and "\<And>j. j \<noteq> i \<Longrightarrow> stock_at t j = stock_at s j"
  shows "episode_inv t"
proof -
  have old: "x = e1 \<or> (x \<in> set (episodes s) \<and> x \<noteq> e)" if "x \<in> set (episodes t)" for x
    using in_store_row [of x ep_episode_id e1 "episodes s"] that t(1) assms(4) by auto
  have fits: "episode_fits t x" if x: "x \<in> set (episodes t)" "is_open x" for x
  proof -
    have "x \<in> set (episodes s)" "x \<noteq> e" using old [OF x(1)] x(2) assms(3) by auto
    then have "ep_ingredient_id x \<noteq> i" using open_unique [OF inv e] x(2) by blast
    then show ?thesis using inv x(2) \<open>x \<in> set (episodes s)\<close> assms(9)
      by (auto simp: episode_inv_def intro: episode_fits_other)
  qed
  have lt: "ep_episode_id e1 < next_uuid s"
    using open_episode_Some [OF e] inv assms(4) by (auto simp: episode_inv_def)
  have "ep_episode_id x < next_uuid t \<and> episode_check x \<and> make_episode_facts x = Inr x"
    if "x \<in> set (episodes t)" for x
    using old [OF that] lt t(2) assms(7,8) inv by (auto simp: episode_inv_def)
  then show ?thesis using inv fits
    by (simp add: episode_inv_def t(1) unique_keys_filter_store_row assms(3))
qed

text \<open>
  What the boundary rule does to the episodes when one ingredient goes from \<open>(item0, bal0)\<close> to
  \<open>(item, bal)\<close>: the invariant holds again, and the ingredient has an open episode afterwards if it
  is low (provided it had one when it was low before).
\<close>

lemma episode_inv_boundary:
  assumes inv: "episode_inv s" and at: "stock_at s i = Some (item0, bal0)"
    and at': "\<And>j. stock_at t j = (if j = i then Some (item, bal) else stock_at s j)"
    and item: "ing_id item = i" "ing_restaurant_id item = ing_restaurant_id item0"
      "ing_state_revision item0 < ing_state_revision item" "ingredient_ok item"
      "quantity_valid (bal_quantity bal)"
    and src: "source_ok source oid"
    and b: "episode_boundary iv (Some (inventory_state_snapshot org item0 bal0))
      (inventory_state_snapshot org item bal) source actor oid v = Inr (epi, tf, w)"
    and v: "episodes v = episodes s" "next_uuid s \<le> next_uuid v"
    and t: "episodes t = episodes w" "next_uuid w \<le> next_uuid t"
  shows "episode_inv t"
proof -
  let ?after = "inventory_state_snapshot org item bal"
  have after: "st_ingredient_id ?after = i" "st_state_revision ?after = ing_state_revision item"
    using item by (simp_all add: inventory_state_snapshot_def)
  have ok: "snapshot_ok ?after" using item by (intro snapshot_ok_item)
  have same_open: "open_episode v i = open_episode s i" by (simp add: open_episode_def v(1))
  from b show ?thesis
  proof (cases rule: episode_boundary_Inr)
    case (opened e)
    then have low: "is_low ?after" by simp
    have e: "is_open e" "ep_ingredient_id e = i" "ep_episode_id e = next_uuid v"
      "ep_restaurant_id e = ing_restaurant_id item" "ep_opening_revision e = ing_state_revision item"
      using opened(3) item(1) by (simp_all add: new_episode_def is_open_def inventory_state_snapshot_def)
    have "episode_fits t e" using low at' e by (simp add: episode_fits_def)
    moreover have "episodes t = episodes s @ [e]" "ep_episode_id e < next_uuid t"
      using opened(5) t v(1) e(3) by (auto simp: add_episode_def)
    moreover have "episode_check e" "make_episode_facts e = Inr e"
      using new_episode_ok [OF ok low src, of "Aware (iv_now iv)" False] opened(3)
      by (simp_all add: is_aware_def)
    moreover have "open_episode s (ep_ingredient_id e) = None"
      using opened(2) after(1) same_open e(2) by simp
    ultimately show ?thesis using e v(2) at' by (intro episode_inv_opened [OF inv]) auto
  next
    case (resolved b' e reason e1)
    have e: "open_episode s i = Some e" using resolved(3) same_open after by simp
    have fits: "ep_opening_revision e < ing_state_revision item"
      using open_episode_Some [OF e] inv at item(3) by (fastforce simp: episode_inv_def episode_fits_def)
    have "episode_check e" "make_episode_facts e = Inr e"
      using open_episode_Some [OF e] inv by (auto simp: episode_inv_def)
    moreover have "\<not> is_low ?after" using resolved(1) by simp
    moreover have "reason \<in> set [''archived'', ''threshold_changed'', ''stock_recovered'']"
      using resolved(4) by (auto simp: episode_resolution_reason_def res_simps split: if_splits)
    ultimately have "episode_check e1" "make_episode_facts e1 = Inr e1"
      using resolve_episode_ok [of e ?after source oid "Aware (iv_now iv)" reason actor] src fits
        resolved(5) after(2) by (simp_all add: is_aware_def)
    then show ?thesis
      using resolved(5,7) t v at' by (intro episode_inv_resolved [OF inv e])
        (auto simp: resolve_episode_def is_open_def save_episode_def)
  next
    case neither
    have "episode_fits t e" if e: "e \<in> set (episodes s)" "is_open e" "episode_fits s e" for e
    proof (cases "ep_ingredient_id e = i")
      case True
      have "is_low (inventory_state_snapshot org item0 bal0)" using e(3) at True
        by (auto simp: episode_fits_def)
      moreover have "open_episode s i \<noteq> None" using e True by (auto simp: open_episode_None)
      ultimately have "is_low ?after" using neither(4) same_open after(1)
        by (auto simp: low_episode_transition_def Let_def split: if_splits)
      then show ?thesis using e(3) at at' True item(2,3) by (auto simp: episode_fits_def)
    qed (use e(3) at' in \<open>auto intro: episode_fits_other\<close>)
    then show ?thesis using neither(1) t v by (intro episode_inv_same [OF inv]) auto
  qed
qed

subsection \<open>What the writer changes\<close>

lemma store_row_twice: "key r = key r' \<Longrightarrow> store_row key r (store_row key r' rows) = store_row key r rows"
  by (induction rows) auto

lemma episode_boundary_frame:
  assumes "episode_boundary iv before after source actor oid s = Inr (epi, tf, t)"
  shows "ingredients t = ingredients s \<and> balances t = balances s \<and> movements t = movements s
    \<and> next_serial t = next_serial s \<and> next_uuid s \<le> next_uuid t \<and> restaurants t = restaurants s
    \<and> orders t = orders s \<and> order_items t = order_items s
    \<and> order_submissions t = order_submissions s \<and> menu_items t = menu_items s
    \<and> menus t = menus s \<and> recipe_components t = recipe_components s
    \<and> memberships t = memberships s \<and> organizations t = organizations s
    \<and> restaurant_assignments t = restaurant_assignments s \<and> users t = users s
    \<and> outbox_events t = outbox_events s \<and> deliveries t = deliveries s"
  using assms by (cases rule: episode_boundary_Inr) (auto simp: add_episode_def save_episode_def)

lemma transition_snapshot_Inr:
  assumes "transition_snapshot st epi tf = Inr tr"
  shows "tr_state tr = st \<and> tr_episode_transition tr = tf \<and> tr_episode_facts tr = epi"
  using assms by (auto simp: transition_snapshot_def res_simps split: option.splits
      dest!: make_inventory_transition_eq make_episode_facts_eq)

lemma record_transition_Inr:
  assumes "record_inventory_transition iv org item bal before source actor oid s = Inr (tr, t)"
  obtains (unchanged) "\<not> inventory_state_changed before (inventory_state_snapshot org item bal)"
      "tr = None" "t = s"
  | (changed) rv item1 epi tf s1 trn where
      "inventory_state_changed before (inventory_state_snapshot org item bal)"
      "advance_revision before item = Inr rv" "item1 = item\<lparr>ing_state_revision := rv\<rparr>"
      "episode_boundary iv before (inventory_state_snapshot org item1 bal) source actor oid
         (save_ingredient item1 s) = Inr (epi, tf, s1)"
      "tr = Some trn" "tr_state trn = inventory_state_snapshot org item1 bal"
      "tr_episode_transition trn = tf" "announce_transition iv trn s1 = Inr t"
proof (cases "inventory_state_changed before (inventory_state_snapshot org item bal)")
  case True
  then obtain rv epi tf s1 trn where *: "advance_revision before item = Inr rv"
      "episode_boundary iv before (inventory_state_snapshot org (item\<lparr>ing_state_revision := rv\<rparr>) bal)
         source actor oid (save_ingredient (item\<lparr>ing_state_revision := rv\<rparr>) s) = Inr (epi, tf, s1)"
      "transition_snapshot (inventory_state_snapshot org (item\<lparr>ing_state_revision := rv\<rparr>) bal) epi tf
         = Inr trn" "announce_transition iv trn s1 = Inr t" "tr = Some trn"
    using assms by (auto simp: record_inventory_transition_def Let_def res_simps)
  from changed [OF True *(1) refl *(2) *(5)] transition_snapshot_Inr [OF *(3)] *(4)
  show ?thesis by blast
next
  case False
  with assms show ?thesis by (intro unchanged) (auto simp: record_inventory_transition_def)
qed

text \<open>
  The writer stores the ingredient with its next revision when the state changed, and otherwise
  leaves the database alone; ledger, orders, catalog and tenancy tables are never touched.
\<close>

lemma record_transition_frame:
  assumes "record_inventory_transition iv org item bal before source actor oid s = Inr (tr, t)"
  shows "(ingredients t = ingredients s \<and> tr = None
      \<or> (\<exists>rv. advance_revision before item = Inr rv \<and> tr \<noteq> None
           \<and> ingredients t = store_row ing_id (item\<lparr>ing_state_revision := rv\<rparr>) (ingredients s)))
    \<and> balances t = balances s \<and> movements t = movements s
    \<and> next_serial t = next_serial s \<and> next_uuid s \<le> next_uuid t \<and> restaurants t = restaurants s
    \<and> orders t = orders s \<and> order_items t = order_items s
    \<and> order_submissions t = order_submissions s \<and> menu_items t = menu_items s
    \<and> menus t = menus s \<and> recipe_components t = recipe_components s
    \<and> memberships t = memberships s \<and> organizations t = organizations s
    \<and> restaurant_assignments t = restaurant_assignments s \<and> users t = users s
    \<and> (outbox_inv s \<longrightarrow> outbox_inv t)"
  using assms
proof (cases rule: record_transition_Inr)
  case (changed rv item1 epi tf s1 trn)
  have "outbox_inv s1" if "outbox_inv s"
    using that episode_boundary_frame [OF changed(4)]
    by (intro outbox_inv_cong [OF that]) (auto simp: save_ingredient_def)
  with announce_frame [OF changed(8)] events_only_tables [OF announce_frame(1) [OF changed(8)]]
    episode_boundary_frame [OF changed(4)] changed(2,3,5)
  show ?thesis by (auto simp: save_ingredient_def)
qed simp

subsection \<open>Stock across a transition\<close>

lemma ledger_from_append_list:
  "ledger_from qv (xs @ ys) = Option.bind (ledger_from qv xs) (\<lambda>qv'. ledger_from qv' ys)"
  by (induction xs arbitrary: qv) auto

lemma unique_store_row_other:
  assumes "unique_keys k rows" "unique_keys key rows" "y \<in> set rows" "key y = key r"
    and "\<And>x. x \<in> set rows \<Longrightarrow> key x \<noteq> key r \<Longrightarrow> k x \<noteq> k r"
  shows "unique_keys k (store_row key r rows)"
  using assms
proof (induction rows)
  case (Cons x rows)
  show ?case
  proof (cases "key x = key r")
    case True
    with Cons.prems(2) have "\<And>z. z \<in> set rows \<Longrightarrow> key z \<noteq> key r" by (auto simp: image_iff)
    then have "store_row key r rows = rows" "k r \<notin> k ` set rows"
      using Cons.prems(5) by (auto simp: store_row_def intro!: update_where_none) force
    then show ?thesis using True Cons.prems(1) by simp
  next
    case False
    then have "y \<in> set rows" using Cons.prems(3,4) by auto
    with Cons have "unique_keys k (store_row key r rows)" by auto
    moreover have "k x \<notin> k ` set (store_row key r rows)"
      using False Cons.prems(1,5) by (auto dest!: in_store_row simp: image_iff)
    ultimately show ?thesis using False by simp
  qed
qed simp

text \<open>
  One ingredient and its balance change together with the movements that explain the change.
\<close>

lemma stock_inv_update:
  assumes inv: "stock_inv s" and at: "stock_at s i = Some (item0, bal0)"
    and item: "ing_id item = i" "ingredient_ok item"
      "\<And>x. x \<in> set (ingredients s) \<Longrightarrow> ing_id x \<noteq> i \<Longrightarrow>
         (ing_restaurant_id x, ing_normalized_name x) \<noteq> (ing_restaurant_id item, ing_normalized_name item)"
    and bal: "bal_ingredient_id bal = i" "quantity_valid (bal_quantity bal)" "1 \<le> bal_version bal"
      "ledger_from (bal_quantity bal0, bal_version bal0) ms = Some (bal_quantity bal, bal_version bal)"
    and ms: "\<forall>m \<in> set ms. mov_ingredient_id m = i \<and> movement_check m \<and> next_serial s \<le> mov_id m
         \<and> mov_id m < next_serial t" "unique_keys mov_id ms" "distinct (keyed_movements t)"
    and t: "ingredients t = store_row ing_id item (ingredients s)"
      "balances t = store_row bal_ingredient_id bal (balances s)"
      "movements t = movements s @ ms" "next_serial s \<le> next_serial t"
  shows "stock_inv t"
proof -
  have at': "by_key ing_id i (ingredients s) = Some item0"
    "by_key bal_ingredient_id i (balances s) = Some bal0"
    using at by (auto simp: stock_at_Some)
  have item0: "item0 \<in> set (ingredients s)" "ing_id item0 = i" using by_key_Some [OF at'(1)] by auto
  have bal0: "bal0 \<in> set (balances s)" "bal_ingredient_id bal0 = i" using by_key_Some [OF at'(2)] by auto
  have ids: "ing_id ` set (ingredients t) = ing_id ` set (ingredients s)"
    using t(1) by simp
  have of_i: "movements_of t i = movements_of s i @ ms"
    using ms(1) by (simp add: movements_of_def t(3))
  have of_other: "movements_of t j = movements_of s j" if "j \<noteq> i" for j
    using ms(1) that by (auto simp: movements_of_def t(3) filter_empty_conv)
  have "ledger_ok t bal"
    using inv bal0 bal(1,4) by (auto simp: ledger_ok_def of_i ledger_from_append_list stock_inv_def)
  moreover have "ledger_ok t b" if "b \<in> set (balances s)" "bal_ingredient_id b \<noteq> i" for b
    using inv that by (auto simp: ledger_ok_def of_other stock_inv_def)
  ultimately have bals: "quantity_valid (bal_quantity b) \<and> 1 \<le> bal_version b \<and> ledger_ok t b"
    if "b \<in> set (balances t)" for b
    using in_store_row [of b bal_ingredient_id bal "balances s"] that t(2) bal inv
    by (auto simp: stock_inv_def)
  have "ing_id x < next_serial t \<and> ingredient_ok x" if "x \<in> set (ingredients t)" for x
    using in_store_row [of x ing_id item "ingredients s"] that t(1,4) item inv item0
    by (fastforce simp: stock_inv_def)
  moreover have "unique_keys (\<lambda>i. (ing_restaurant_id i, ing_normalized_name i)) (ingredients t)"
    unfolding t(1) using inv item0 item
    by (intro unique_store_row_other [where y = item0]) (auto simp: stock_inv_def)
  moreover have "unique_keys mov_id (movements t)"
    using inv ms by (fastforce simp: t(3) stock_inv_def unique_keys_def)
  moreover have "mov_id m < next_serial t \<and> movement_check m \<and> mov_ingredient_id m \<in> ing_id ` set (ingredients t)"
    if "m \<in> set (movements t)" for m
    using that inv ms(1) item0 t(3,4) unfolding ids by (fastforce simp: stock_inv_def)
  ultimately show ?thesis
    using inv bals ms(3) by (simp add: stock_inv_def t(1,2))
qed

section \<open>The inventory invariant\<close>

definition inventory_inv :: "db \<Rightarrow> bool" where
  "inventory_inv s = (stock_inv s \<and> episode_inv s \<and> outbox_inv s)"

lemma ingredient_ok_revision: "ingredient_ok item \<Longrightarrow> 1 \<le> r \<Longrightarrow> ingredient_ok (item\<lparr>ing_state_revision := r\<rparr>)"
  by (simp add: ingredient_ok_def ingredient_check_def)

text \<open>
  The shape of every stock command on an existing ingredient: from \<open>s\<close>, the ingredient and its
  balance are rewritten with the movements \<open>ms\<close> that explain the new balance, giving \<open>u\<close>, and the
  transition writer goes from \<open>u\<close> to \<open>t\<close>.
\<close>

definition stock_command ::
  "db \<Rightarrow> int \<Rightarrow> ingredient \<Rightarrow> balance \<Rightarrow> ingredient \<Rightarrow> balance \<Rightarrow> movement list \<Rightarrow> db \<Rightarrow> bool" where
  "stock_command s i item0 bal0 item bal ms u =
     (stock_at s i = Some (item0, bal0) \<and> ing_id item = i
     \<and> ing_restaurant_id item = ing_restaurant_id item0
     \<and> ing_state_revision item = ing_state_revision item0 \<and> ingredient_ok item
     \<and> (\<forall>x \<in> set (ingredients s). ing_id x \<noteq> i \<longrightarrow>
         (ing_restaurant_id x, ing_normalized_name x) \<noteq> (ing_restaurant_id item, ing_normalized_name item))
     \<and> bal_ingredient_id bal = i \<and> quantity_valid (bal_quantity bal) \<and> 1 \<le> bal_version bal
     \<and> ledger_from (bal_quantity bal0, bal_version bal0) ms = Some (bal_quantity bal, bal_version bal)
     \<and> (\<forall>m \<in> set ms. mov_ingredient_id m = i \<and> movement_check m \<and> next_serial s \<le> mov_id m
          \<and> mov_id m < next_serial u) \<and> unique_keys mov_id ms \<and> distinct (keyed_movements u)
     \<and> ingredients u = store_row ing_id item (ingredients s)
     \<and> balances u = store_row bal_ingredient_id bal (balances s)
     \<and> movements u = movements s @ ms \<and> next_serial s \<le> next_serial u
     \<and> episodes u = episodes s \<and> next_uuid u = next_uuid s
     \<and> outbox_events u = outbox_events s \<and> deliveries u = deliveries s)"

lemma stock_command_stock:
  assumes cmd: "stock_command s i item0 bal0 item bal ms u" and inv: "inventory_inv s"
    and rec: "record_inventory_transition iv org item bal
      (Some (inventory_state_snapshot org item0 bal0)) source actor oid u = Inr (tr, t)"
  obtains item1 where
    "item1 = item\<lparr>ing_state_revision :=
       (if tr = None then ing_state_revision item0 else ing_state_revision item0 + 1)\<rparr>"
    "ingredients t = store_row ing_id item1 (ingredients s)" "stock_inv t"
    "\<And>j. stock_at t j = (if j = i then Some (item1, bal) else stock_at s j)"
proof -
  define rv where "rv = (if tr = None then ing_state_revision item0 else ing_state_revision item0 + 1)"
  define item1 where "item1 = item\<lparr>ing_state_revision := rv\<rparr>"
  note frame = record_transition_frame [OF rec]
  have rev0: "ing_state_revision item = ing_state_revision item0" "1 \<le> ing_state_revision item"
    using cmd by (auto simp: stock_command_def ingredient_ok_def ingredient_check_def)
  have ing: "ingredients t = store_row ing_id item1 (ingredients s)"
  proof (cases "tr = None")
    case True
    then have "item1 = item" using rev0 by (simp add: item1_def rv_def)
    then show ?thesis using frame True cmd by (auto simp: stock_command_def)
  next
    case False
    then have "ingredients t = store_row ing_id item1 (ingredients u)"
      using frame rev0 by (auto simp: advance_revision_def res_simps item1_def rv_def
          inventory_state_snapshot_def)
    then show ?thesis using cmd by (simp add: stock_command_def store_row_twice item1_def)
  qed
  have ok1: "ingredient_ok item1" unfolding item1_def
    using cmd rev0 by (intro ingredient_ok_revision) (auto simp: stock_command_def rv_def)
  have bal: "balances t = store_row bal_ingredient_id bal (balances s)"
    using frame cmd by (simp add: stock_command_def)
  have at: "stock_at t j = (if j = i then Some (item1, bal) else stock_at s j)" for j
    using cmd ing bal by (intro stock_at_save) (auto simp: stock_command_def item1_def)
  have keyed: "keyed_movements t = keyed_movements u" using frame by (simp add: keyed_movements_def)
  have "stock_inv t"
    by (rule stock_inv_update [where item = item1 and bal = bal and ms = ms and t = t])
      (use cmd frame ing bal ok1 inv keyed in
        \<open>auto simp: stock_command_def inventory_inv_def item1_def\<close>)
  with that [of item1] ing at show ?thesis by (auto simp: item1_def rv_def)
qed

lemma stock_command_episodes:
  assumes cmd: "stock_command s i item0 bal0 item bal ms u" and inv: "inventory_inv s"
    and rec: "record_inventory_transition iv org item bal
      (Some (inventory_state_snapshot org item0 bal0)) source actor oid u = Inr (tr, t)"
    and src: "source_ok source oid"
  shows "episode_inv t"
proof -
  obtain item1 where item1: "item1 = item\<lparr>ing_state_revision :=
       (if tr = None then ing_state_revision item0 else ing_state_revision item0 + 1)\<rparr>"
    and at: "\<And>j. stock_at t j = (if j = i then Some (item1, bal) else stock_at s j)"
    using stock_command_stock [OF cmd inv rec] by metis
  have ok: "ingredient_ok item1" unfolding item1
    using cmd by (intro ingredient_ok_revision) (auto simp: stock_command_def ingredient_ok_def ingredient_check_def)
  have at0: "stock_at s i = Some (item0, bal0)" using cmd by (simp add: stock_command_def)
  have einv: "episode_inv s" using inv by (simp add: inventory_inv_def)
  from rec show ?thesis
  proof (cases rule: record_transition_Inr)
    case unchanged
    have "episode_fits t e" if "e \<in> set (episodes s)" "is_open e" "episode_fits s e" for e
      using that at at0 unchanged(1,2) cmd
      by (cases "ep_ingredient_id e = i") (auto simp: episode_fits_def item1 stock_command_def
          inventory_state_changed_def inventory_state_snapshot_def is_low_def)
    then show ?thesis using unchanged(3) cmd
      by (intro episode_inv_same [OF einv]) (auto simp: stock_command_def)
  next
    case (changed rv item1' epi tf s1 trn)
    have "item1' = item1" using changed(2,3,5) cmd
      by (auto simp: item1 advance_revision_def res_simps stock_command_def inventory_state_snapshot_def)
    with changed(4) have b: "episode_boundary iv (Some (inventory_state_snapshot org item0 bal0))
      (inventory_state_snapshot org item1 bal) source actor oid (save_ingredient item1 u)
        = Inr (epi, tf, s1)" by simp
    have "ing_id item1 = i" "ing_restaurant_id item1 = ing_restaurant_id item0"
      "ing_state_revision item0 < ing_state_revision item1" "quantity_valid (bal_quantity bal)"
      "episodes (save_ingredient item1 u) = episodes s" "next_uuid s \<le> next_uuid (save_ingredient item1 u)"
      using cmd changed(5) by (auto simp: stock_command_def item1 save_ingredient_def)
    moreover have "episodes t = episodes s1" "next_uuid s1 \<le> next_uuid t"
      using events_only_tables [OF announce_frame(1) [OF changed(8)]] by auto
    ultimately show ?thesis using ok
      by (intro episode_inv_boundary [OF einv at0 at _ _ _ _ _ src b])
  qed
qed

lemma stock_command_keeps:
  assumes "stock_command s i item0 bal0 item bal ms u" "inventory_inv s"
    and "record_inventory_transition iv org item bal
      (Some (inventory_state_snapshot org item0 bal0)) source actor oid u = Inr (tr, t)"
    and "source_ok source oid"
  shows "inventory_inv t"
proof -
  have "outbox_inv u" using assms(1,2)
    by (auto simp: stock_command_def inventory_inv_def intro: outbox_inv_cong [of s])
  then have "outbox_inv t" using record_transition_frame [OF assms(3)] by blast
  moreover have "stock_inv t" by (rule stock_command_stock [OF assms(1-3)])
  ultimately show ?thesis using stock_command_episodes [OF assms] by (simp add: inventory_inv_def)
qed

lemma inventory_inv_cong:
  assumes "inventory_inv s"
    and "ingredients t = ingredients s" "balances t = balances s" "movements t = movements s"
      "episodes t = episodes s" "outbox_events t = outbox_events s" "deliveries t = deliveries s"
      "next_uuid s \<le> next_uuid t" "next_serial s \<le> next_serial t"
  shows "inventory_inv t"
proof -
  have at: "stock_at t = stock_at s" by (rule stock_at_cong) (simp_all add: assms)
  have ledger: "ledger_ok t = ledger_ok s"
    by (rule ext) (simp add: ledger_ok_def movements_of_def assms)
  have lt: "x < next_serial s \<Longrightarrow> x < next_serial t" for x using assms(9) by simp
  have "stock_inv t" using assms(1)
    unfolding inventory_inv_def stock_inv_def keyed_movements_def assms(2-4) ledger
    by (blast intro: lt)
  moreover have "episode_inv t" using assms(1,5,8)
    by (auto simp: inventory_inv_def episode_fits_def at intro: episode_inv_same [of s])
  moreover have "outbox_inv t" using assms
    by (auto simp: inventory_inv_def intro: outbox_inv_cong [of s])
  ultimately show ?thesis by (simp add: inventory_inv_def)
qed

lemma inventory_inv_audit: "inventory_inv s \<Longrightarrow> inventory_inv (record_audit iv c a ty i r ch s)"
  by (rule inventory_inv_cong [of s]) simp_all

subsection \<open>Stock changes\<close>

lemma prepare_Inr [res_simps]:
  "prepare iv rid c s rest = Inr y \<longleftrightarrow> (\<exists>ctx. current s (iv_user_id iv) = Inr ctx
     \<and> restaurant_exists s ctx rid \<and> c \<in> set (role_capabilities (ac_role ctx)) \<and> rest ctx = Inr y)"
  by (auto simp: prepare_def res_simps)

lemma validate_ingredient_Inr [res_simps]:
  "validate_ingredient name unit rest = Inr y \<longleftrightarrow>
     name = py_strip name \<and> name_in_bounds name \<and> valid_unit unit \<and> rest = Inr y"
  by (cases name) (auto simp: validate_ingredient_def raise_if_def valid_unit_def name_in_bounds_def)

definition change_movement ::
  "(json \<Rightarrow> string) \<Rightarrow> invocation \<Rightarrow> access_context \<Rightarrow> int \<Rightarrow> change_stock \<Rightarrow> dec \<Rightarrow> balance \<Rightarrow> int \<Rightarrow> movement" where
  "change_movement digest iv ctx i data delta bal serial =
     \<lparr>mov_id = serial, mov_ingredient_id = i, mov_kind = cs_kind data,
      mov_quantity_delta = delta, mov_balance_after = bal_quantity bal + delta,
      mov_version_after = bal_version bal + 1, mov_actor_user_id = Some (ac_user_id ctx),
      mov_order_id = None, mov_reason = cs_reason data,
      mov_idempotency_key = Some (cs_idempotency_key data),
      mov_request_fingerprint = Some (fingerprint_change digest data), mov_occurred_at = iv_now iv\<rparr>"

lemma change_stock_Inr:
  assumes "change_stock_command digest iv rid i data s = Inr (m, t)"
  obtains (replayed) ctx where "current s (iv_user_id iv) = Inr ctx" "t = s"
      "replay_movement s ctx rid (cs_idempotency_key data) (Some i) = Some m"
      "mov_request_fingerprint m = Some (fingerprint_change digest data)"
  | (recorded) ctx item bal amount delta bal1 tr s2 where
      "current s (iv_user_id iv) = Inr ctx" "restaurant_exists s ctx rid"
      "''inventory.manage'' \<in> set (role_capabilities (ac_role ctx))"
      "repo_ingredient s ctx rid i = Inr (item, bal)"
      "cs_kind data \<in> set [''receipt'', ''waste'', ''count'']"
      "quantity (cs_kind data \<noteq> ''count'') (cs_quantity data) = Inr amount"
      "replay_movement s ctx rid (cs_idempotency_key data) (Some i) = None"
      "ing_is_active item" "stock_delta data amount bal = Inr delta"
      "quantity_valid (bal_quantity bal + delta)"
      "bal1 = bal\<lparr>bal_quantity := bal_quantity bal + delta, bal_version := bal_version bal + 1\<rparr>"
      "m = change_movement digest iv ctx i data delta bal (next_serial s)"
      "record_inventory_transition iv (ac_organization_id ctx) item bal1
         (Some (inventory_state_snapshot (ac_organization_id ctx) item bal)) ''stock_command''
         (Some (ac_user_id ctx)) None (add_movement m (save_balance bal1 s)) = Inr (tr, s2)"
      "t = record_audit iv ctx (''inventory.stock.'' @ cs_kind data) ''ingredient'' (py_str_int i)
         (Some rid) [(''quantity'', JDec delta)] s2"
proof -
  from assms obtain ctx item bal amount where head:
      "current s (iv_user_id iv) = Inr ctx" "restaurant_exists s ctx rid"
      "''inventory.manage'' \<in> set (role_capabilities (ac_role ctx))"
      "repo_ingredient s ctx rid i = Inr (item, bal)"
      "cs_kind data \<in> set [''receipt'', ''waste'', ''count'']"
      "quantity (cs_kind data \<noteq> ''count'') (cs_quantity data) = Inr amount"
    unfolding change_stock_command_def Let_def prepare_Inr bindR_Inr raise_if_Inr split_paired_Ex
      prod.case by blast
  show ?thesis
  proof (cases "replay_movement s ctx rid (cs_idempotency_key data) (Some i)")
    case None
    with assms head show ?thesis
      by (auto simp: change_stock_command_def Let_def res_simps change_movement_def intro!: recorded)
  next
    case (Some x)
    with assms head show ?thesis
      by (intro replayed) (auto simp: change_stock_command_def Let_def res_simps)
  qed
qed

lemma replay_movement_Some:
  assumes "replay_movement s ctx rid key (Some i) = Some m"
  shows "m \<in> set (movements s) \<and> mov_ingredient_id m = i \<and> mov_idempotency_key m = Some key"
  using select_one_Some [OF assms [unfolded replay_movement_def]] by simp

lemma replay_movement_None:
  assumes "replay_movement s ctx rid key (Some i) = None" and "restaurant_exists s ctx rid"
    and "stock_at s i = Some (item, bal)" "ing_restaurant_id item = rid"
  shows "(i, Some key) \<notin> set (keyed_movements s)"
proof
  assume "(i, Some key) \<in> set (keyed_movements s)"
  then obtain m where m: "m \<in> set (movements s)" "mov_ingredient_id m = i" "mov_idempotency_key m = Some key"
    by (auto simp: keyed_movements_def)
  have "item \<in> set (ingredients s)" "ing_id item = i"
    using assms(3) by (auto simp: stock_at_Some dest: by_key_Some)
  then show False using assms(1,2,4) m
    by (auto simp: replay_movement_def select_one_None exists_row_iff) metis
qed

lemma names_differ:
  assumes "stock_inv s" "stock_at s i = Some (item, bal)" "x \<in> set (ingredients s)" "ing_id x \<noteq> i"
  shows "(ing_restaurant_id x, ing_normalized_name x) \<noteq> (ing_restaurant_id item, ing_normalized_name item)"
proof
  have item: "item \<in> set (ingredients s)" "ing_id item = i"
    using assms(2) by (auto simp: stock_at_Some dest: by_key_Some)
  assume "(ing_restaurant_id x, ing_normalized_name x) = (ing_restaurant_id item, ing_normalized_name item)"
  then have "x = item"
    using unique_keys_eq [where key = "\<lambda>i. (ing_restaurant_id i, ing_normalized_name i)" and rows = "ingredients s"]
      assms(1,3) item(1) by (auto simp: stock_inv_def)
  then show False using item(2) assms(4) by simp
qed

lemma stock_at_ok:
  assumes "stock_inv s" "stock_at s i = Some (item, bal)"
  shows "ing_id item = i \<and> bal_ingredient_id bal = i \<and> ingredient_ok item
    \<and> quantity_valid (bal_quantity bal) \<and> 1 \<le> bal_version bal \<and> ledger_ok s bal
    \<and> item \<in> set (ingredients s) \<and> bal \<in> set (balances s)"
  using assms by (auto simp: stock_at_Some stock_inv_def dest!: by_key_Some)

lemma stock_at_store_same:
  assumes "stock_inv s" "stock_at s i = Some (item, bal)"
  shows "store_row ing_id item (ingredients s) = ingredients s"
    and "store_row bal_ingredient_id bal (balances s) = balances s"
proof -
  have "unique_keys bal_ingredient_id (balances s)"
    using assms(1) by (simp add: stock_inv_def unique_keys_def)
  then show "store_row ing_id item (ingredients s) = ingredients s"
    "store_row bal_ingredient_id bal (balances s) = balances s"
    using assms stock_at_ids [OF assms(2)]
    by (auto simp: stock_at_Some stock_inv_def intro!: store_row_same)
qed

text \<open>A recorded stock change has the shape of a stock command, with one movement.\<close>

lemma change_stock_shape:
  assumes inv: "stock_inv s" and ctx: "restaurant_exists s ctx rid"
    and item: "repo_ingredient s ctx rid i = Inr (item, bal)"
    and kind: "cs_kind data \<in> set [''receipt'', ''waste'', ''count'']"
    and amount: "quantity (cs_kind data \<noteq> ''count'') (cs_quantity data) = Inr amount"
    and fresh: "replay_movement s ctx rid (cs_idempotency_key data) (Some i) = None"
    and delta: "stock_delta data amount bal = Inr delta"
    and after: "quantity_valid (bal_quantity bal + delta)"
    and bal1: "bal1 = bal\<lparr>bal_quantity := bal_quantity bal + delta, bal_version := bal_version bal + 1\<rparr>"
    and m: "m = change_movement digest iv ctx i data delta bal (next_serial s)"
  shows "stock_command s i item bal item bal1 [m] (add_movement m (save_balance bal1 s))"
proof -
  have at: "stock_at s i = Some (item, bal)" "ing_restaurant_id item = rid"
    using repo_ingredient_Inr [OF item inv] by auto
  note ok = stock_at_ok [OF inv at(1)]
  have q: "quantity_valid amount" "cs_kind data \<noteq> ''count'' \<Longrightarrow> amount \<noteq> 0"
    using amount by (auto simp: res_simps)
  have bounds: "0 \<le> bal_quantity bal" "bal_quantity bal \<le> max_quantity" "0 \<le> amount" "amount \<le> max_quantity"
    using ok q(1) by (auto simp: quantity_valid_def)
  have check: "movement_check m"
    using kind delta after bounds ok q(2)
    by (auto simp: movement_check_def m change_movement_def stock_delta_def res_simps quantity_valid_def
        max_quantity_def split: if_splits)
  have "(i, Some (cs_idempotency_key data)) \<notin> set (keyed_movements s)"
    using replay_movement_None [OF fresh ctx at] .
  then have "distinct (keyed_movements (add_movement m (save_balance bal1 s)))"
    using inv by (auto simp: keyed_movements_def add_movement_def save_balance_def m change_movement_def
        stock_inv_def)
  then show ?thesis
    using at(1) ok check after stock_at_store_same(1) [OF inv at(1)] names_differ [OF inv at(1)]
    by (auto simp: stock_command_def bal1 m change_movement_def add_movement_def save_balance_def)
qed

lemma change_stock_keeps:
  assumes "change_stock_command digest iv rid i data s = Inr (m, t)" and inv: "inventory_inv s"
  shows "inventory_inv t"
  using assms(1)
proof (cases rule: change_stock_Inr)
  case (recorded ctx item bal amount delta bal1 tr s2)
  have "stock_command s i item bal item bal1 [m] (add_movement m (save_balance bal1 s))"
    using recorded inv by (intro change_stock_shape) (auto simp: inventory_inv_def)
  from stock_command_keeps [OF this inv recorded(13)] recorded(14)
  show ?thesis by (auto simp: source_ok_def episode_sources_def intro: inventory_inv_audit)
qed (use inv in simp)

subsection \<open>Ingredient updates\<close>

lemma update_ingredient_Inr:
  assumes "update_ingredient_command iv rid i data s = Inr (v, t)"
  obtains ctx item bal threshold item1 tr s1 where
      "current s (iv_user_id iv) = Inr ctx" "restaurant_exists s ctx rid"
      "repo_ingredient s ctx rid i = Inr (item, bal)"
      "ui_name data = py_strip (ui_name data)" "name_in_bounds (ui_name data)" "valid_unit (ui_unit data)"
      "\<not> duplicate_name s ctx rid (py_casefold (ui_name data)) i"
      "ing_unit item = ui_unit data \<or> \<not> has_history s i"
      "ui_is_active data \<or> \<not> bal_quantity bal > 0"
      "quantity False (ui_reorder_threshold data) = Inr threshold"
      "item1 = item\<lparr>ing_name := ui_name data, ing_normalized_name := py_casefold (ui_name data),
         ing_unit := ui_unit data, ing_reorder_threshold := threshold, ing_is_active := ui_is_active data\<rparr>"
      "record_inventory_transition iv (ac_organization_id ctx) item1 bal
         (Some (inventory_state_snapshot (ac_organization_id ctx) item bal)) ''ingredient_update''
         (Some (ac_user_id ctx)) None (save_ingredient item1 s) = Inr (tr, s1)"
      "v = ingredient_response item1 bal"
      "\<exists>ch. t = record_audit iv ctx ''inventory.ingredient.updated'' ''ingredient'' (py_str_int i)
         (Some rid) ch s1"
  using assms
  unfolding update_ingredient_command_def Let_def prepare_Inr bindR_Inr raise_if_Inr
    validate_ingredient_Inr split_paired_Ex prod.case sum.inject prod.inject
  by blast

lemma update_ingredient_shape:
  assumes inv: "stock_inv s" and ctx: "restaurant_exists s ctx rid"
    and item: "repo_ingredient s ctx rid i = Inr (item, bal)"
    and data: "ui_name data = py_strip (ui_name data)" "name_in_bounds (ui_name data)" "valid_unit (ui_unit data)"
      "\<not> duplicate_name s ctx rid (py_casefold (ui_name data)) i"
      "quantity False (ui_reorder_threshold data) = Inr threshold"
    and item1: "item1 = item\<lparr>ing_name := ui_name data, ing_normalized_name := py_casefold (ui_name data),
         ing_unit := ui_unit data, ing_reorder_threshold := threshold, ing_is_active := ui_is_active data\<rparr>"
  shows "stock_command s i item bal item1 bal [] (save_ingredient item1 s)"
proof -
  have at: "stock_at s i = Some (item, bal)" "ing_restaurant_id item = rid"
    using repo_ingredient_Inr [OF item inv] by auto
  note ok = stock_at_ok [OF inv at(1)]
  have "quantity_valid threshold" using data(5) by (simp add: res_simps)
  then have "ingredient_ok item1" using ok data(1-3)
    by (auto simp: ingredient_ok_def ingredient_check_def item1 quantity_valid_def max_quantity_def)
  moreover have "\<forall>x \<in> set (ingredients s). ing_id x \<noteq> i \<longrightarrow>
      (ing_restaurant_id x, ing_normalized_name x) \<noteq> (ing_restaurant_id item1, ing_normalized_name item1)"
    using data(4) ctx at(2) by (auto simp: duplicate_name_def exists_row_iff item1)
  ultimately show ?thesis
    using at(1) ok stock_at_store_same(2) [OF inv at(1)] inv
    by (auto simp: stock_command_def item1 save_ingredient_def keyed_movements_def stock_inv_def)
qed

lemma update_ingredient_keeps:
  assumes "update_ingredient_command iv rid i data s = Inr (v, t)" and inv: "inventory_inv s"
  shows "inventory_inv t"
proof (rule update_ingredient_Inr [OF assms(1)])
  fix ctx item bal threshold item1 tr s1
  assume *: "restaurant_exists s ctx rid" "repo_ingredient s ctx rid i = Inr (item, bal)"
      "ui_name data = py_strip (ui_name data)" "name_in_bounds (ui_name data)" "valid_unit (ui_unit data)"
      "\<not> duplicate_name s ctx rid (py_casefold (ui_name data)) i"
      "quantity False (ui_reorder_threshold data) = Inr threshold"
      "item1 = item\<lparr>ing_name := ui_name data, ing_normalized_name := py_casefold (ui_name data),
         ing_unit := ui_unit data, ing_reorder_threshold := threshold, ing_is_active := ui_is_active data\<rparr>"
    and rec: "record_inventory_transition iv (ac_organization_id ctx) item1 bal
         (Some (inventory_state_snapshot (ac_organization_id ctx) item bal)) ''ingredient_update''
         (Some (ac_user_id ctx)) None (save_ingredient item1 s) = Inr (tr, s1)"
    and t: "\<exists>ch. t = record_audit iv ctx ''inventory.ingredient.updated'' ''ingredient'' (py_str_int i)
         (Some rid) ch s1"
  have "stock_inv s" using inv by (simp add: inventory_inv_def)
  from stock_command_keeps [OF update_ingredient_shape [OF this *] inv rec] t
  show "inventory_inv t" by (auto simp: source_ok_def episode_sources_def intro: inventory_inv_audit)
qed

subsection \<open>Ingredient creation\<close>

definition opening_item :: "int \<Rightarrow> int \<Rightarrow> create_ingredient \<Rightarrow> dec \<Rightarrow> ingredient" where
  "opening_item serial rid data threshold =
     \<lparr>ing_id = serial, ing_restaurant_id = rid, ing_name = ci_name data,
      ing_normalized_name = py_casefold (ci_name data), ing_unit = ci_unit data,
      ing_reorder_threshold = threshold, ing_is_active = True, ing_state_revision = 1\<rparr>"

definition opening_movement ::
  "(json \<Rightarrow> string) \<Rightarrow> invocation \<Rightarrow> access_context \<Rightarrow> create_ingredient \<Rightarrow> dec \<Rightarrow> int \<Rightarrow> movement" where
  "opening_movement digest iv ctx data opening serial =
     \<lparr>mov_id = serial + 1, mov_ingredient_id = serial, mov_kind = ''opening'',
      mov_quantity_delta = opening, mov_balance_after = opening, mov_version_after = 1,
      mov_actor_user_id = Some (ac_user_id ctx), mov_order_id = None,
      mov_reason = ''Opening stock'', mov_idempotency_key = Some (ci_idempotency_key data),
      mov_request_fingerprint = Some (fingerprint_create digest data), mov_occurred_at = iv_now iv\<rparr>"

lemma create_ingredient_Inr:
  assumes "create_ingredient_command digest iv rid data s = Inr (v, t)"
  obtains (replayed) ctx m item bal where "current s (iv_user_id iv) = Inr ctx" "t = s"
      "replay_movement s ctx rid (ci_idempotency_key data) None = Some m"
      "mov_request_fingerprint m = Some (fingerprint_create digest data)"
      "repo_ingredient s ctx rid (mov_ingredient_id m) = Inr (item, bal)" "v = ingredient_response item bal"
  | (recorded) ctx opn threshold item bal m tr s3 where
      "current s (iv_user_id iv) = Inr ctx" "restaurant_exists s ctx rid"
      "ci_name data = py_strip (ci_name data)" "name_in_bounds (ci_name data)" "valid_unit (ci_unit data)"
      "quantity False (ci_opening_quantity data) = Inr opn"
      "quantity False (ci_reorder_threshold data) = Inr threshold"
      "\<not> duplicate_name s ctx rid (py_casefold (ci_name data)) 0"
      "item = opening_item (next_serial s) rid data threshold"
      "bal = \<lparr>bal_ingredient_id = ing_id item, bal_quantity = opn, bal_version = 1\<rparr>"
      "m = opening_movement digest iv ctx data opn (next_serial s)"
      "record_inventory_transition iv (ac_organization_id ctx) item bal None ''ingredient_creation''
         (Some (ac_user_id ctx)) None (add_movement m (s\<lparr>ingredients := ingredients s @ [item],
           balances := balances s @ [bal], next_serial := next_serial s + 1\<rparr>)) = Inr (tr, s3)"
      "v = ingredient_response item bal"
      "\<exists>ch. t = record_audit iv ctx ''inventory.ingredient.created'' ''ingredient''
         (py_str_int (ing_id item)) (Some rid) ch s3"
proof -
  from assms obtain ctx opn threshold where head:
      "current s (iv_user_id iv) = Inr ctx" "restaurant_exists s ctx rid"
      "ci_name data = py_strip (ci_name data)" "name_in_bounds (ci_name data)" "valid_unit (ci_unit data)"
      "quantity False (ci_opening_quantity data) = Inr opn"
      "quantity False (ci_reorder_threshold data) = Inr threshold"
    unfolding create_ingredient_command_def Let_def prepare_Inr bindR_Inr raise_if_Inr
      validate_ingredient_Inr by blast
  show ?thesis
  proof (cases "replay_movement s ctx rid (ci_idempotency_key data) None")
    case None
    with assms head show ?thesis
      by (auto simp: create_ingredient_command_def Let_def res_simps opening_item_def
          opening_movement_def intro!: recorded)
  next
    case (Some x)
    with assms head show ?thesis
      by (auto simp: create_ingredient_command_def Let_def res_simps intro: replayed)
  qed
qed

lemma stock_inv_add:
  assumes inv: "stock_inv s" and item: "ing_id item = next_serial s" "ingredient_ok item"
      "\<And>x. x \<in> set (ingredients s) \<Longrightarrow>
         (ing_restaurant_id x, ing_normalized_name x) \<noteq> (ing_restaurant_id item, ing_normalized_name item)"
    and bal: "bal_ingredient_id bal = ing_id item" "quantity_valid (bal_quantity bal)" "bal_version bal = 1"
    and m: "mov_ingredient_id m = ing_id item" "movement_check m" "mov_id m = next_serial s + 1"
      "mov_quantity_delta m = bal_quantity bal" "mov_balance_after m = bal_quantity bal" "mov_version_after m = 1"
    and t: "ingredients t = ingredients s @ [item]" "balances t = balances s @ [bal]"
      "movements t = movements s @ [m]" "next_serial t = next_serial s + 2"
  shows "stock_inv t"
proof -
  have new: "ing_id x < ing_id item" if "x \<in> set (ingredients s)" for x
    using inv that item(1) by (auto simp: stock_inv_def)
  then have fresh: "ing_id item \<notin> ing_id ` set (ingredients s)" by force
  then have no_moves: "mov_ingredient_id x \<noteq> ing_id item" if "x \<in> set (movements s)" for x
    using inv that by (metis stock_inv_def)
  have bal_ids: "bal_ingredient_id ` set (balances s) = ing_id ` set (ingredients s)"
    using inv unfolding stock_inv_def by (metis list.set_map)
  have "movements_of t (ing_id item) = [m]"
    using no_moves m(1) by (auto simp: movements_of_def t(3) filter_empty_conv)
  then have "ledger_ok t bal" using m bal by (simp add: ledger_ok_def)
  moreover have "ledger_ok t b" if "b \<in> set (balances s)" for b
  proof -
    have "bal_ingredient_id b \<noteq> ing_id item" using fresh bal_ids that by (metis imageI)
    then have "movements_of t (bal_ingredient_id b) = movements_of s (bal_ingredient_id b)"
      using m(1) by (auto simp: movements_of_def t(3))
    then show ?thesis using inv that by (simp add: ledger_ok_def stock_inv_def)
  qed
  moreover have "distinct (keyed_movements t)"
    using inv no_moves m(1) by (fastforce simp: keyed_movements_def t(3) stock_inv_def)
  moreover have "unique_keys mov_id (movements t)"
    using inv m(3) by (fastforce simp: t(3) stock_inv_def)
  moreover have "unique_keys (\<lambda>i. (ing_restaurant_id i, ing_normalized_name i)) (ingredients t)"
    using inv item(3) by (fastforce simp: t(1) stock_inv_def)
  ultimately show ?thesis using inv item bal m fresh unfolding stock_inv_def t
    by (auto simp: less_imp_le intro: less_trans)
qed

lemma new_stock_has_no_open_episode:
  assumes "episode_inv s" "stock_at s i = None"
  shows "open_episode s i = None"
  using assms by (auto simp: open_episode_None episode_inv_def episode_fits_def)

lemma episode_inv_new_stock:
  assumes inv: "episode_inv s" and none: "stock_at s i = None"
    and at: "\<And>j. stock_at t j = (if j = i then Some (item, bal) else stock_at s j)"
    and ok: "ing_id item = i" "ingredient_ok item" "quantity_valid (bal_quantity bal)" "source_ok source oid"
    and b: "episode_boundary iv None (inventory_state_snapshot org item bal) source actor oid v
      = Inr (epi, tf, w)"
    and v: "episodes v = episodes s" "next_uuid s \<le> next_uuid v"
    and t: "episodes t = episodes w" "next_uuid w \<le> next_uuid t"
  shows "episode_inv t"
proof -
  let ?after = "inventory_state_snapshot org item bal"
  have snap: "snapshot_ok ?after" using ok by (intro snapshot_ok_item)
  have no_open: "open_episode s i = None" using new_stock_has_no_open_episode [OF inv none] .
  have other: "ep_ingredient_id x \<noteq> i" if "x \<in> set (episodes s)" "is_open x" for x
    using no_open that by (auto simp: open_episode_None)
  from b show ?thesis
  proof (cases rule: episode_boundary_Inr)
    case (opened e)
    then have low: "is_low ?after" by simp
    have e: "is_open e" "ep_ingredient_id e = i" "ep_episode_id e = next_uuid v"
      "ep_restaurant_id e = ing_restaurant_id item" "ep_opening_revision e = ing_state_revision item"
      using opened(3) ok(1) by (simp_all add: new_episode_def is_open_def inventory_state_snapshot_def)
    have "episode_fits t e" using low at e by (simp add: episode_fits_def)
    moreover have "episodes t = episodes s @ [e]" "ep_episode_id e < next_uuid t"
      using opened(5) t v(1) e(3) by (auto simp: add_episode_def)
    moreover have "episode_check e" "make_episode_facts e = Inr e"
      using new_episode_ok [OF snap low ok(4), of "Aware (iv_now iv)" False] opened(3)
      by (simp_all add: is_aware_def)
    ultimately show ?thesis using e v(2) at no_open by (intro episode_inv_opened [OF inv]) auto
  next
    case neither
    then show ?thesis using t v at other
      by (intro episode_inv_same [OF inv]) (auto intro: episode_fits_other)
  qed (simp add: low_episode_transition_def)
qed

lemma create_ingredient_keeps:
  assumes "create_ingredient_command digest iv rid data s = Inr (v, t)" and inv: "inventory_inv s"
    and rid: "0 < rid" and serial: "0 < next_serial s"
  shows "inventory_inv t"
  using assms(1)
proof (cases rule: create_ingredient_Inr)
  case (recorded ctx opn threshold item bal m tr s3)
  let ?s1 = "s\<lparr>ingredients := ingredients s @ [item], balances := balances s @ [bal],
    next_serial := next_serial s + 1\<rparr>"
  let ?u = "add_movement m ?s1"
  have q: "quantity_valid opn" "quantity_valid threshold" using recorded(6,7) by (auto simp: res_simps)
  have id: "ing_id item = next_serial s" "ing_state_revision item = 1"
    by (simp_all add: recorded(9) opening_item_def)
  have ok: "ingredient_ok item" using q recorded(3-5) rid serial
    by (auto simp: recorded(9) ingredient_ok_def ingredient_check_def opening_item_def
        quantity_valid_def max_quantity_def)
  have sinv: "stock_inv s" "episode_inv s" "outbox_inv s" using inv by (auto simp: inventory_inv_def)
  have zero: "ing_id x \<noteq> 0" if "x \<in> set (ingredients s)" for x
    using sinv(1) that by (auto simp: stock_inv_def ingredient_ok_def)
  have check: "movement_check m" using q(1)
    by (auto simp: recorded(11) opening_movement_def movement_check_def quantity_valid_def max_quantity_def)
  have name: "(ing_restaurant_id x, ing_normalized_name x) \<noteq> (ing_restaurant_id item, ing_normalized_name item)"
    if "x \<in> set (ingredients s)" for x
    using recorded(2,8) zero that
    by (auto simp: recorded(9) opening_item_def duplicate_name_def exists_row_iff)
  have uinv: "stock_inv ?u"
    by (rule stock_inv_add [OF sinv(1) id(1) ok name, of bal m])
      (use q check id in \<open>auto simp: recorded(10,11) opening_movement_def add_movement_def\<close>)
  have fresh: "ing_id item \<notin> ing_id ` set (ingredients s)"
    using sinv(1) id(1) by (auto simp: stock_inv_def)
  have at_u: "stock_at ?u j = (if j = ing_id item then Some (item, bal) else stock_at s j)" for j
    using fresh sinv(1) by (intro stock_at_add) (auto simp: recorded(10) stock_inv_def add_movement_def)
  have none: "stock_at s (ing_id item) = None"
    using fresh by (auto simp: stock_at_def by_key_None split: option.splits)
  have same: "store_row ing_id item (ingredients ?u) = ingredients ?u"
    using stock_at_store_same(1) [OF uinv, of "ing_id item" item bal] at_u by simp
  have ou: "outbox_inv ?u" using sinv(3) by (rule outbox_inv_cong) (simp_all add: add_movement_def)
  have id1: "item\<lparr>ing_state_revision := 1\<rparr> = item" using id(2) by simp
  have frame: "ingredients s3 = ingredients ?u" "balances s3 = balances ?u" "movements s3 = movements ?u"
      "next_serial s3 = next_serial ?u" "outbox_inv s3"
    using record_transition_frame [OF recorded(12)] same id(2) ou id1
    by (auto simp: advance_revision_def)
  have at3: "stock_at s3 = stock_at ?u" by (rule stock_at_cong) (use frame in auto)
  have stock3: "stock_inv s3"
  proof -
    have "ledger_ok s3 = ledger_ok ?u" by (rule ext) (simp add: ledger_ok_def movements_of_def frame)
    then show ?thesis using uinv unfolding stock_inv_def keyed_movements_def frame by simp
  qed
  have "episode_inv s3"
    using recorded(12)
  proof (cases rule: record_transition_Inr)
    case (changed rv item1 epi tf s1 trn)
    have "item1 = item" using changed(2,3) id(2) by (simp add: advance_revision_def)
    with changed(4) have b: "episode_boundary iv None (inventory_state_snapshot (ac_organization_id ctx)
        item bal) ''ingredient_creation'' (Some (ac_user_id ctx)) None (save_ingredient item ?u)
        = Inr (epi, tf, s1)" by simp
    have tail: "episodes s3 = episodes s1" "next_uuid s1 \<le> next_uuid s3"
      using events_only_tables [OF announce_frame(1) [OF changed(8)]] by auto
    have "episodes (save_ingredient item ?u) = episodes s" "next_uuid s \<le> next_uuid (save_ingredient item ?u)"
      by (simp_all add: save_ingredient_def add_movement_def)
    moreover have "\<And>j. stock_at s3 j = (if j = ing_id item then Some (item, bal) else stock_at s j)"
      by (simp add: at3 at_u)
    moreover have "quantity_valid (bal_quantity bal)" "source_ok ''ingredient_creation'' None"
      using q(1) by (simp_all add: recorded(10) source_ok_def episode_sources_def)
    ultimately show ?thesis using tail
      by (intro episode_inv_new_stock [OF sinv(2) none _ refl ok _ _ b])
  qed (simp add: inventory_state_changed_def)
  with stock3 frame(5) have "inventory_inv s3" by (simp add: inventory_inv_def)
  then show ?thesis using recorded(14) by (auto intro: inventory_inv_audit)
qed (use inv in simp)

subsection \<open>Baseline episodes\<close>

lemma baseline_Inr:
  assumes "record_baseline_inventory_episode iv org rid i s = Inr (tr, t)"
  obtains item bal where "ingredient_state s org rid i = Inr (item, bal)"
    "t = s \<or> open_episode s i = None \<and> is_low (inventory_state_snapshot org item bal)
       \<and> t = add_episode (new_episode (next_uuid s) (Aware (iv_now iv)) ''maintenance_initialization''
            None None True (inventory_state_snapshot org item bal)) (s\<lparr>next_uuid := next_uuid s + 1\<rparr>)"
proof -
  from assms obtain item bal where "ingredient_state s org rid i = Inr (item, bal)"
    by (auto simp: record_baseline_inventory_episode_def lock_restaurant_for_organization_def res_simps)
  with assms show ?thesis
    by (intro that [of item bal])
      (auto simp: record_baseline_inventory_episode_def lock_restaurant_for_organization_def res_simps
        Let_def split: if_splits)
qed

lemma ingredient_state_Inr:
  assumes "ingredient_state s org rid i = Inr (item, bal)" and "stock_inv s"
  shows "stock_at s i = Some (item, bal) \<and> ing_restaurant_id item = rid"
proof -
  obtain x where x: "select_one (\<lambda>x. ing_id x = i \<and> ing_restaurant_id x = rid
      \<and> restaurant_matches_organization s rid org) (ingredients s) = Some x"
      "with_balance s x = Some (item, bal)"
    using assms(1) by (auto simp: ingredient_state_def res_simps bind_eq_Some_conv)
  have "x \<in> set (ingredients s)" "ing_id x = i" "ing_restaurant_id x = rid"
    using select_one_Some [OF x(1)] by auto
  then show ?thesis using by_key_member [of ing_id "ingredients s" x] assms(2) x(2)
    by (auto simp: stock_inv_def with_balance_def stock_at_Some)
qed

lemma baseline_keeps:
  assumes "record_baseline_inventory_episode iv org rid i s = Inr (tr, t)" and inv: "inventory_inv s"
  shows "inventory_inv t"
proof (rule baseline_Inr [OF assms(1)])
  fix item bal
  assume item: "ingredient_state s org rid i = Inr (item, bal)"
  let ?st = "inventory_state_snapshot org item bal"
  let ?e = "new_episode (next_uuid s) (Aware (iv_now iv)) ''maintenance_initialization'' None None True ?st"
  assume "t = s \<or> open_episode s i = None \<and> is_low ?st
    \<and> t = add_episode ?e (s\<lparr>next_uuid := next_uuid s + 1\<rparr>)"
  then consider "t = s" | (new) "open_episode s i = None" "is_low ?st"
    "t = add_episode ?e (s\<lparr>next_uuid := next_uuid s + 1\<rparr>)" by argo
  then show "inventory_inv t"
  proof cases
    case new
    have sinv: "stock_inv s" "episode_inv s" "outbox_inv s" using inv by (auto simp: inventory_inv_def)
    have at: "stock_at s i = Some (item, bal)" using ingredient_state_Inr [OF item sinv(1)] by simp
    note ok = stock_at_ok [OF sinv(1) at]
    have at_t: "stock_at t = stock_at s" by (rule stock_at_cong) (simp_all add: new(3) add_episode_def)
    have e: "ep_ingredient_id ?e = i" "is_open ?e" "ep_episode_id ?e = next_uuid s"
      "ep_restaurant_id ?e = ing_restaurant_id item" "ep_opening_revision ?e = ing_state_revision item"
      using ok by (simp_all add: new_episode_def is_open_def inventory_state_snapshot_def)
    have "episode_check ?e" "make_episode_facts ?e = Inr ?e"
      using new_episode_ok [of ?st "''maintenance_initialization''" None "Aware (iv_now iv)" True] ok new(2)
        snapshot_ok_item by (simp_all add: source_ok_def episode_sources_def is_aware_def)
    moreover have "episode_fits t ?e" using e at new(2) by (simp add: episode_fits_def at_t)
    ultimately have "episode_inv t"
      using e new(1,3) at_t by (intro episode_inv_opened [OF sinv(2)]) (auto simp: add_episode_def)
    moreover have "ledger_ok t = ledger_ok s"
      by (rule ext) (simp add: ledger_ok_def movements_of_def new(3) add_episode_def)
    then have "stock_inv t" using sinv(1)
      unfolding stock_inv_def keyed_movements_def by (simp add: new(3) add_episode_def)
    moreover have "outbox_inv t"
      using sinv(3) by (rule outbox_inv_cong) (simp_all add: new(3) add_episode_def)
    ultimately show ?thesis by (simp add: inventory_inv_def)
  qed (use inv in simp)
qed

section \<open>Completeness of episodes\<close>

lemma complete_at:
  "episodes_complete s \<longleftrightarrow> (\<forall>j item bal. stock_at s j = Some (item, bal) \<longrightarrow>
     is_low (inventory_state_snapshot 0 item bal) \<longrightarrow> open_episode s j \<noteq> None)"
proof
  assume c: "episodes_complete s"
  show "\<forall>j item bal. stock_at s j = Some (item, bal) \<longrightarrow>
     is_low (inventory_state_snapshot 0 item bal) \<longrightarrow> open_episode s j \<noteq> None"
  proof (intro allI impI)
    fix j item bal
    assume a: "stock_at s j = Some (item, bal)" "is_low (inventory_state_snapshot 0 item bal)"
    then have "item \<in> set (ingredients s)" "ing_id item = j"
      by (auto simp: stock_at_Some dest: by_key_Some)
    then show "open_episode s j \<noteq> None" using c a by (fastforce simp: episodes_complete_def)
  qed
qed (auto simp: episodes_complete_def split: option.splits)

text \<open>The episodes of other ingredients are not affected by a boundary.\<close>

lemma open_episode_boundary:
  assumes "episode_boundary iv before after source actor oid v = Inr (epi, tf, w)"
    and "unique_keys ep_episode_id (episodes v)"
  shows "j \<noteq> st_ingredient_id after \<Longrightarrow> open_episode w j = open_episode v j"
    and "is_low after \<Longrightarrow> (\<And>b. before = Some b \<Longrightarrow> is_low b \<Longrightarrow> open_episode v (st_ingredient_id after) \<noteq> None)
      \<Longrightarrow> open_episode w (st_ingredient_id after) \<noteq> None"
proof -
  let ?i = "st_ingredient_id after"
  show "open_episode w j = open_episode v j" if j: "j \<noteq> ?i"
    using assms(1)
  proof (cases rule: episode_boundary_Inr)
    case (opened e)
    then show ?thesis using j
      by (auto simp: open_episode_def add_episode_def select_one_append new_episode_def split: option.splits)
  next
    case (resolved b e reason e1)
    have e: "e \<in> set (episodes v)" "ep_ingredient_id e = ?i" using open_episode_Some [OF resolved(3)] by auto
    have "select_one P (store_row ep_episode_id e1 rows) = select_one P rows"
      if "set rows \<subseteq> set (episodes v)" "\<not> P e1" "\<not> P e" for P rows
      using that(1)
    proof (induction rows)
      case (Cons x rows)
      have "x = e" if "ep_episode_id x = ep_episode_id e1"
        using unique_keys_eq [OF assms(2) _ e(1)] that Cons.prems by (auto simp: resolved(5) resolve_episode_def)
      then show ?case using Cons \<open>\<not> P e1\<close> \<open>\<not> P e\<close> by auto
    qed simp
    then show ?thesis using j e(2)
      by (auto simp: open_episode_def save_episode_def resolved(5,7) resolve_episode_def)
  qed simp
  show "open_episode w ?i \<noteq> None"
    if low: "is_low after" and had: "\<And>b. before = Some b \<Longrightarrow> is_low b \<Longrightarrow> open_episode v ?i \<noteq> None"
    using assms(1)
  proof (cases rule: episode_boundary_Inr)
    case (opened e)
    then show ?thesis by (auto simp: open_episode_None add_episode_def new_episode_def is_open_def)
  next
    case (neither)
    then show ?thesis using low had
      by (auto simp: low_episode_transition_def Let_def split: if_splits option.splits)
  qed (use low in simp)
qed

lemma stock_command_complete:
  assumes cmd: "stock_command s i item0 bal0 item bal ms u" and inv: "inventory_inv s"
    and rec: "record_inventory_transition iv org item bal
      (Some (inventory_state_snapshot org item0 bal0)) source actor oid u = Inr (tr, t)"
    and complete: "episodes_complete s"
  shows "episodes_complete t"
proof -
  obtain item1 where item1: "item1 = item\<lparr>ing_state_revision :=
       (if tr = None then ing_state_revision item0 else ing_state_revision item0 + 1)\<rparr>"
    and at: "\<And>j. stock_at t j = (if j = i then Some (item1, bal) else stock_at s j)"
    using stock_command_stock [OF cmd inv rec] by metis
  have c: "open_episode s j \<noteq> None" if "stock_at s j = Some (it, ba)"
    "is_low (inventory_state_snapshot 0 it ba)" for j it ba
    using complete that unfolding complete_at by blast
  have at0: "stock_at s i = Some (item0, bal0)" using cmd by (simp add: stock_command_def)
  from rec show ?thesis
  proof (cases rule: record_transition_Inr)
    case unchanged
    have same: "open_episode t j = open_episode s j" for j
      using cmd unchanged(3) by (simp add: open_episode_def stock_command_def)
    have "is_low (inventory_state_snapshot 0 item0 bal0)" if "is_low (inventory_state_snapshot 0 item1 bal)"
      using that unchanged(1)
      by (auto simp: item1 inventory_state_changed_def inventory_state_snapshot_def is_low_def)
    then show ?thesis unfolding complete_at same using at at0 c by (auto split: if_splits)
  next
    case (changed rv item1' epi tf s1 trn)
    have "item1' = item1" using changed(2,3,5) cmd
      by (auto simp: item1 advance_revision_def res_simps stock_command_def inventory_state_snapshot_def)
    with changed(4) have b: "episode_boundary iv (Some (inventory_state_snapshot org item0 bal0))
      (inventory_state_snapshot org item1 bal) source actor oid (save_ingredient item1 u)
        = Inr (epi, tf, s1)" by simp
    have u: "open_episode (save_ingredient item1 u) j = open_episode s j" for j
      using cmd by (simp add: open_episode_def save_ingredient_def stock_command_def)
    have t: "open_episode t j = open_episode s1 j" for j
      using events_only_tables [OF announce_frame(1) [OF changed(8)]] by (simp add: open_episode_def)
    have uniq: "unique_keys ep_episode_id (episodes (save_ingredient item1 u))"
      using cmd inv by (simp add: save_ingredient_def stock_command_def inventory_inv_def episode_inv_def)
    have i: "st_ingredient_id (inventory_state_snapshot org item1 bal) = i"
      using cmd by (simp add: inventory_state_snapshot_def item1 stock_command_def)
    note ob = open_episode_boundary [OF b uniq, unfolded u i]
    have "open_episode t j \<noteq> None" if "stock_at t j = Some (it, ba)"
      "is_low (inventory_state_snapshot 0 it ba)" for j it ba
      using that at ob c [OF at0] c unfolding t by (cases "j = i") auto
    then show ?thesis unfolding complete_at by blast
  qed
qed

lemma audit_complete: "episodes_complete s \<Longrightarrow> episodes_complete (record_audit iv c a ty i r ch s)"
  unfolding complete_at by (simp add: open_episode_def stock_at_def)

lemma change_stock_complete:
  assumes "change_stock_command digest iv rid i data s = Inr (m, t)" and inv: "inventory_inv s"
    and "episodes_complete s"
  shows "episodes_complete t"
  using assms(1)
proof (cases rule: change_stock_Inr)
  case (recorded ctx item bal amount delta bal1 tr s2)
  have "stock_command s i item bal item bal1 [m] (add_movement m (save_balance bal1 s))"
    using recorded inv by (intro change_stock_shape) (auto simp: inventory_inv_def)
  from stock_command_complete [OF this inv recorded(13) assms(3)] recorded(14)
  show ?thesis by (auto intro: audit_complete)
qed (use assms in simp)

lemma update_ingredient_complete:
  assumes "update_ingredient_command iv rid i data s = Inr (v, t)" and inv: "inventory_inv s"
    and "episodes_complete s"
  shows "episodes_complete t"
proof (rule update_ingredient_Inr [OF assms(1)])
  fix ctx item bal threshold item1 tr s1
  assume *: "restaurant_exists s ctx rid" "repo_ingredient s ctx rid i = Inr (item, bal)"
      "ui_name data = py_strip (ui_name data)" "name_in_bounds (ui_name data)" "valid_unit (ui_unit data)"
      "\<not> duplicate_name s ctx rid (py_casefold (ui_name data)) i"
      "quantity False (ui_reorder_threshold data) = Inr threshold"
      "item1 = item\<lparr>ing_name := ui_name data, ing_normalized_name := py_casefold (ui_name data),
         ing_unit := ui_unit data, ing_reorder_threshold := threshold, ing_is_active := ui_is_active data\<rparr>"
    and rec: "record_inventory_transition iv (ac_organization_id ctx) item1 bal
         (Some (inventory_state_snapshot (ac_organization_id ctx) item bal)) ''ingredient_update''
         (Some (ac_user_id ctx)) None (save_ingredient item1 s) = Inr (tr, s1)"
    and t: "\<exists>ch. t = record_audit iv ctx ''inventory.ingredient.updated'' ''ingredient'' (py_str_int i)
         (Some rid) ch s1"
  have "stock_inv s" using inv by (simp add: inventory_inv_def)
  from stock_command_complete [OF update_ingredient_shape [OF this *] inv rec assms(3)] t
  show "episodes_complete t" by (auto intro: audit_complete)
qed

lemma create_ingredient_complete:
  assumes "create_ingredient_command digest iv rid data s = Inr (v, t)" and inv: "inventory_inv s"
    and complete: "episodes_complete s"
  shows "episodes_complete t"
  using assms(1)
proof (cases rule: create_ingredient_Inr)
  case (recorded ctx opn threshold item bal m tr s3)
  let ?u = "add_movement m (s\<lparr>ingredients := ingredients s @ [item], balances := balances s @ [bal],
    next_serial := next_serial s + 1\<rparr>)"
  have sinv: "stock_inv s" "episode_inv s" using inv by (auto simp: inventory_inv_def)
  have id: "ing_id item = next_serial s" "ing_state_revision item = 1"
    by (simp_all add: recorded(9) opening_item_def)
  have fresh: "ing_id item \<notin> ing_id ` set (ingredients s)"
    using sinv(1) id(1) by (auto simp: stock_inv_def)
  have at_u: "stock_at ?u j = (if j = ing_id item then Some (item, bal) else stock_at s j)" for j
    using fresh sinv(1) by (intro stock_at_add) (auto simp: recorded(10) stock_inv_def add_movement_def)
  have at_u_item: "by_key ing_id (ing_id item) (ingredients ?u) = Some item"
    using at_u [of "ing_id item"] by (simp add: stock_at_Some)
  have uniq_u: "unique_keys ing_id (ingredients ?u)"
    using fresh sinv(1) by (simp add: add_movement_def stock_inv_def)
  have same: "store_row ing_id item (ingredients ?u) = ingredients ?u"
    using store_row_same [OF at_u_item uniq_u] .
  have id1: "item\<lparr>ing_state_revision := 1\<rparr> = item" using id(2) by simp
  have at3: "stock_at s3 = stock_at ?u"
    by (rule stock_at_cong)
      (use record_transition_frame [OF recorded(12)] same id id1 in \<open>auto simp: advance_revision_def\<close>)
  from recorded(12) have "episodes_complete s3"
  proof (cases rule: record_transition_Inr)
    case (changed rv item1 epi tf s1 trn)
    have "item1 = item" using changed(2,3) id(2) by (simp add: advance_revision_def)
    with changed(4) have b: "episode_boundary iv None (inventory_state_snapshot (ac_organization_id ctx)
        item bal) ''ingredient_creation'' (Some (ac_user_id ctx)) None (save_ingredient item ?u)
        = Inr (epi, tf, s1)" by simp
    have u: "open_episode (save_ingredient item ?u) j = open_episode s j" for j
      by (simp add: open_episode_def save_ingredient_def add_movement_def)
    have t: "open_episode s3 j = open_episode s1 j" for j
      using events_only_tables [OF announce_frame(1) [OF changed(8)]] by (simp add: open_episode_def)
    have uniq: "unique_keys ep_episode_id (episodes (save_ingredient item ?u))"
      using sinv(2) by (simp add: save_ingredient_def add_movement_def episode_inv_def)
    have i: "st_ingredient_id (inventory_state_snapshot (ac_organization_id ctx) item bal) = ing_id item"
      by (simp add: inventory_state_snapshot_def)
    note ob = open_episode_boundary [OF b uniq, unfolded u i]
    have "open_episode s3 j \<noteq> None" if "stock_at s3 j = Some (it, ba)"
      "is_low (inventory_state_snapshot 0 it ba)" for j it ba
      using that ob complete unfolding t at3 at_u complete_at by (cases "j = ing_id item") auto
    then show ?thesis unfolding complete_at by blast
  qed (simp add: inventory_state_changed_def)
  then show ?thesis using recorded(14) by (auto intro: audit_complete)
qed (use complete in simp)

lemma baseline_complete:
  assumes "record_baseline_inventory_episode iv org rid i s = Inr (tr, t)" and "episodes_complete s"
  shows "episodes_complete t"
proof (rule baseline_Inr [OF assms(1)])
  fix item bal
  assume "t = s \<or> open_episode s i = None \<and> is_low (inventory_state_snapshot org item bal)
       \<and> t = add_episode (new_episode (next_uuid s) (Aware (iv_now iv)) ''maintenance_initialization''
            None None True (inventory_state_snapshot org item bal)) (s\<lparr>next_uuid := next_uuid s + 1\<rparr>)"
  then have at: "stock_at t = stock_at s" and ep: "set (episodes s) \<subseteq> set (episodes t)"
    by (auto simp: add_episode_def intro!: stock_at_cong)
  have "open_episode t j \<noteq> None" if "open_episode s j \<noteq> None" for j
    using that ep by (auto simp: open_episode_None)
  then show "episodes_complete t" using assms(2) unfolding complete_at at by blast
qed

end
