(* ===== verification/Inventory_Commands.thy ===== *)
theory Inventory_Commands
  imports Inventory_Ledger
begin

text \<open>
  The inventory service as a state machine, and the properties of its commands: every reachable
  state has a consistent ledger and truthful episodes, a stock command does exactly what it says,
  and a retried command finds its first outcome, however much later it is retried.
\<close>

section \<open>Steps\<close>

text \<open>Identities handed out by the database are positive, and so are those of the restaurants.\<close>

definition scope_inv :: "db \<Rightarrow> bool" where
  "scope_inv s = (0 < next_serial s \<and> (\<forall>r \<in> set (restaurants s). 0 < rst_id r))"

inductive inventory_step :: "db \<Rightarrow> db \<Rightarrow> bool" where
  step_create: "create_ingredient_command digest iv rid data s = Inr (v, t) \<Longrightarrow> inventory_step s t"
| step_update: "update_ingredient_command iv rid i upd s = Inr (v, t) \<Longrightarrow> inventory_step s t"
| step_change: "change_stock_command digest iv rid i chg s = Inr (m, t) \<Longrightarrow> inventory_step s t"
| step_baseline: "record_baseline_inventory_episode iv org rid i s = Inr (tr, t) \<Longrightarrow> inventory_step s t"

inductive_cases inventory_stepE: "inventory_step s t"

definition inventory_state_ok :: "db \<Rightarrow> bool" where
  "inventory_state_ok s = (inventory_inv s \<and> scope_inv s)"

lemma inventory_state_okD: "inventory_state_ok s \<Longrightarrow> inventory_inv s"
  by (simp add: inventory_state_ok_def)

lemma restaurant_exists_positive:
  "restaurant_exists s ctx rid \<Longrightarrow> scope_inv s \<Longrightarrow> 0 < rid"
  by (auto simp: restaurant_exists_def exists_row_iff scope_inv_def)

lemma create_requires_restaurant:
  "create_ingredient_command digest iv rid data s = Inr y \<Longrightarrow> \<exists>ctx. restaurant_exists s ctx rid"
  by (auto simp: create_ingredient_command_def prepare_Inr)

text \<open>
  What every command keeps of the tables it does not own, and that ledger rows and ingredients are
  never removed.
\<close>

definition ledger_extends :: "db \<Rightarrow> db \<Rightarrow> bool" where
  "ledger_extends s t = (restaurants t = restaurants s \<and> next_serial s \<le> next_serial t
     \<and> (\<exists>ms. movements t = movements s @ ms)
     \<and> (\<forall>j item bal. stock_at s j = Some (item, bal) \<longrightarrow>
          (\<exists>item' bal'. stock_at t j = Some (item', bal')
             \<and> ing_restaurant_id item' = ing_restaurant_id item
             \<and> ing_state_revision item \<le> ing_state_revision item'
             \<and> bal_version bal \<le> bal_version bal')))"

lemma ledger_extends_refl [simp]: "ledger_extends s s"
  by (auto simp: ledger_extends_def)

lemma ledger_extends_trans: "ledger_extends s t \<Longrightarrow> ledger_extends t u \<Longrightarrow> ledger_extends s u"
  unfolding ledger_extends_def by (elim conjE exE, intro conjI) (simp, simp, simp, fastforce)

lemma ledger_extends_audit: "ledger_extends s t \<Longrightarrow> ledger_extends s (record_audit iv c a ty i r ch t)"
proof -
  have "stock_at (record_audit iv c a ty i r ch t) = stock_at t" by (rule stock_at_cong) simp_all
  then show "ledger_extends s t \<Longrightarrow> ledger_extends s (record_audit iv c a ty i r ch t)"
    by (simp add: ledger_extends_def)
qed

lemma stock_command_extends:
  assumes cmd: "stock_command s i item0 bal0 item bal ms u" and inv: "inventory_inv s"
    and rec: "record_inventory_transition iv org item bal
      (Some (inventory_state_snapshot org item0 bal0)) source actor oid u = Inr (tr, t)"
    and u: "restaurants u = restaurants s"
  shows "ledger_extends s t"
proof -
  obtain item1 where item1: "item1 = item\<lparr>ing_state_revision :=
       (if tr = None then ing_state_revision item0 else ing_state_revision item0 + 1)\<rparr>"
    and at: "\<And>j. stock_at t j = (if j = i then Some (item1, bal) else stock_at s j)"
    using stock_command_stock [OF cmd inv rec] by metis
  have ver: "bal_version bal0 \<le> bal_version bal"
    using cmd ledger_from_sum [of "bal_quantity bal0" "bal_version bal0" ms]
    by (auto simp: stock_command_def)
  show ?thesis using record_transition_frame [OF rec] cmd u at ver
    by (auto simp: ledger_extends_def stock_command_def item1)
qed

lemma change_stock_extends:
  assumes "change_stock_command digest iv rid i data s = Inr (m, t)" and inv: "inventory_inv s"
  shows "ledger_extends s t"
  using assms(1)
proof (cases rule: change_stock_Inr)
  case (recorded ctx item bal amount delta bal1 tr s2)
  have "stock_command s i item bal item bal1 [m] (add_movement m (save_balance bal1 s))"
    using recorded inv by (intro change_stock_shape) (auto simp: inventory_inv_def)
  from stock_command_extends [OF this inv recorded(13)] recorded(14)
  show ?thesis by (auto simp: add_movement_def save_balance_def intro: ledger_extends_audit)
qed simp

lemma update_ingredient_extends:
  assumes "update_ingredient_command iv rid i data s = Inr (v, t)" and inv: "inventory_inv s"
  shows "ledger_extends s t"
proof (rule update_ingredient_Inr [OF assms(1)])
  fix ctx item bal threshold item1 tr s1
  assume *: "restaurant_exists s ctx rid" "repo_ingredient s ctx rid i = Inr (item, bal)"
      "ui_name data = py_strip (ui_name data)" "name_in_bounds (ui_name data)" "valid_unit (ui_unit data)"
      "\<not> duplicate_name s ctx rid (py_casefold (ui_name data)) i"
      "quantity False (ui_reorder_threshold data) = Inr threshold"
      "item1 = item\<lparr>ing_name := ui_name data, ing_normalized_name := py_casefold (ui_name data),
         ing_unit := ui_unit data, ing_reorder_threshold := threshold, ing_is_active := ui_is_active data\<rparr>"
    and rec: "record_inventory_transition iv (ac_organization_id ctx) item1 bal
         (Some (inventory_state_snapshot (ac_organization_id ctx) item bal)) ''ingredient_update''
         (Some (ac_user_id ctx)) None (save_ingredient item1 s) = Inr (tr, s1)"
    and t: "\<exists>ch. t = record_audit iv ctx ''inventory.ingredient.updated'' ''ingredient'' (py_str_int i)
         (Some rid) ch s1"
  have "stock_inv s" using inv by (simp add: inventory_inv_def)
  from stock_command_extends [OF update_ingredient_shape [OF this *] inv rec] t
  show "ledger_extends s t" by (auto simp: save_ingredient_def intro: ledger_extends_audit)
qed

lemma create_ingredient_extends:
  assumes "create_ingredient_command digest iv rid data s = Inr (v, t)" and inv: "inventory_inv s"
  shows "ledger_extends s t"
  using assms(1)
proof (cases rule: create_ingredient_Inr)
  case (recorded ctx opn threshold item bal m tr s3)
  let ?u = "add_movement m (s\<lparr>ingredients := ingredients s @ [item], balances := balances s @ [bal],
    next_serial := next_serial s + 1\<rparr>)"
  have sinv: "stock_inv s" using inv by (auto simp: inventory_inv_def)
  have fresh: "ing_id item \<notin> ing_id ` set (ingredients s)"
    using sinv by (auto simp: stock_inv_def recorded(9) opening_item_def)
  have "stock_at ?u j = (if j = ing_id item then Some (item, bal) else stock_at s j)" for j
    using fresh sinv by (intro stock_at_add) (auto simp: recorded(10) stock_inv_def add_movement_def)
  moreover have "stock_at s (ing_id item) = None"
    using fresh by (auto simp: stock_at_def by_key_None split: option.splits)
  moreover have "stock_at s3 j = stock_at ?u j" if "j \<noteq> ing_id item" for j
    using record_transition_frame [OF recorded(12)] that
    by (auto simp: stock_at_def by_key_store_row)
  ultimately have "stock_at s3 j = Some x" if "stock_at s j = Some x" for j x
    using that by (cases "j = ing_id item") simp_all
  moreover have "restaurants s3 = restaurants s" "movements s3 = movements s @ [m]"
    "next_serial s3 = next_serial s + 2"
    using record_transition_frame [OF recorded(12)] by (simp_all add: add_movement_def)
  ultimately have "ledger_extends s s3" by (simp add: ledger_extends_def)
  then show ?thesis using recorded(14) by (auto intro: ledger_extends_audit)
qed simp

lemma baseline_extends:
  assumes "record_baseline_inventory_episode iv org rid i s = Inr (tr, t)"
  shows "ledger_extends s t"
proof (rule baseline_Inr [OF assms])
  fix item bal
  assume "t = s \<or> open_episode s i = None \<and> is_low (inventory_state_snapshot org item bal)
       \<and> t = add_episode (new_episode (next_uuid s) (Aware (iv_now iv)) ''maintenance_initialization''
            None None True (inventory_state_snapshot org item bal)) (s\<lparr>next_uuid := next_uuid s + 1\<rparr>)"
  then have "stock_at t = stock_at s" "restaurants t = restaurants s" "movements t = movements s"
    "next_serial t = next_serial s"
    by (auto simp: add_episode_def intro!: stock_at_cong)
  then show "ledger_extends s t" by (simp add: ledger_extends_def)
qed

lemma inventory_step_extends: "inventory_step s t \<Longrightarrow> inventory_inv s \<Longrightarrow> ledger_extends s t"
  by (erule inventory_stepE)
    (auto intro: create_ingredient_extends update_ingredient_extends change_stock_extends baseline_extends)

lemma scope_inv_extends: "ledger_extends s t \<Longrightarrow> scope_inv s \<Longrightarrow> scope_inv t"
  by (auto simp: ledger_extends_def scope_inv_def)

lemma inventory_step_ok: "inventory_step s t \<Longrightarrow> inventory_state_ok s \<Longrightarrow> inventory_state_ok t"
  unfolding inventory_state_ok_def
proof (elim conjE, intro conjI)
  assume step: "inventory_step s t" and inv: "inventory_inv s" "scope_inv s"
  show "scope_inv t" using inventory_step_extends [OF step inv(1)] inv(2) by (rule scope_inv_extends)
  show "inventory_inv t" using step
  proof (cases rule: inventory_step.cases)
    case (step_create digest iv rid data v)
    then have "0 < rid" using create_requires_restaurant restaurant_exists_positive inv(2) by metis
    with step_create inv show ?thesis using create_ingredient_keeps by (simp add: scope_inv_def)
  next
    case (step_update iv rid i upd v)
    then show ?thesis using update_ingredient_keeps inv(1) by simp
  next
    case (step_change digest iv rid i chg m)
    then show ?thesis using change_stock_keeps inv(1) by simp
  next
    case (step_baseline iv org rid i tr)
    then show ?thesis using baseline_keeps inv(1) by simp
  qed
qed

lemma inventory_step_complete:
  "inventory_step s t \<Longrightarrow> inventory_inv s \<Longrightarrow> episodes_complete s \<Longrightarrow> episodes_complete t"
  by (erule inventory_stepE) (auto intro: create_ingredient_complete update_ingredient_complete
      change_stock_complete baseline_complete)

interpretation inventory_states: step_invariant inventory_step inventory_state_ok
  by standard (rule inventory_step_ok)

interpretation complete_states: step_invariant inventory_step
  "\<lambda>s. inventory_state_ok s \<and> episodes_complete s"
  by standard (auto intro: inventory_step_ok inventory_step_complete dest: inventory_state_okD)

text \<open>Revisions and versions of an ingredient never go back along a run.\<close>

definition revision_of :: "int \<Rightarrow> db \<Rightarrow> int" where
  "revision_of i s = (case stock_at s i of None \<Rightarrow> 0 | Some (item, _) \<Rightarrow> ing_state_revision item)"

lemma inventory_state_revision_pos:
  "inventory_inv s \<Longrightarrow> stock_at s i = Some (item, bal) \<Longrightarrow> 0 < ing_state_revision item"
  using stock_at_ok by (fastforce simp: inventory_inv_def ingredient_ok_def ingredient_check_def)

interpretation revisions: step_monotone inventory_step inventory_state_ok "revision_of i" for i
proof
  fix s t
  assume ok: "inventory_state_ok s" and step: "inventory_step s t"
  have ext: "ledger_extends s t" and ok': "inventory_inv t"
    using inventory_step_extends [OF step] inventory_step_ok [OF step] ok
    by (auto simp: inventory_state_ok_def)
  show "revision_of i s \<le> revision_of i t"
  proof (cases "stock_at s i")
    case None
    then show ?thesis using inventory_state_revision_pos [OF ok', of i]
      by (fastforce simp: revision_of_def split: option.splits)
  next
    case (Some x)
    then show ?thesis using ext by (cases x) (fastforce simp: ledger_extends_def revision_of_def)
  qed
qed

interpretation ledger_runs: step_invariant inventory_step
  "\<lambda>u. inventory_state_ok u \<and> ledger_extends s u" for s
  by standard (auto intro: inventory_step_ok ledger_extends_trans inventory_step_extends
      dest: inventory_state_okD)

section \<open>Retries\<close>

lemma repo_ingredient_stock_at:
  assumes "stock_inv s" "stock_at s i = Some (item, bal)" "ing_restaurant_id item = rid"
    and "restaurant_exists s ctx rid"
  shows "repo_ingredient s ctx rid i = Inr (item, bal)"
proof -
  have item: "item \<in> set (ingredients s)" "ing_id item = i" using stock_at_ok [OF assms(1,2)] by auto
  let ?P = "\<lambda>x. ing_id x = i \<and> ing_restaurant_id x = rid \<and> restaurant_exists s ctx rid"
  obtain x where x: "select_one ?P (ingredients s) = Some x"
    using item assms(3,4) by (cases "select_one ?P (ingredients s)") (auto simp: select_one_None)
  have "x = item" using select_one_Some [OF x] item unique_keys_eq [of ing_id "ingredients s" x item] assms(1)
    by (auto simp: stock_inv_def)
  then show ?thesis using x assms(2) item(2) by (simp add: repo_ingredient_def with_balance_def stock_at_Some)
qed

lemma keyed_movement_unique:
  assumes "distinct (keyed_movements s)" "x \<in> set (movements s)" "y \<in> set (movements s)"
    "mov_ingredient_id x = mov_ingredient_id y" "mov_idempotency_key x = Some k" "mov_idempotency_key y = Some k"
  shows "x = y"
  using assms unfolding keyed_movements_def distinct_map inj_on_def by auto

lemma replay_finds:
  assumes inv: "stock_inv s" and m: "m \<in> set (movements s)" "mov_ingredient_id m = i"
      "mov_idempotency_key m = Some key"
    and at: "stock_at s i = Some (item, bal)" "ing_restaurant_id item = rid" "restaurant_exists s ctx rid"
  shows "replay_movement s ctx rid key (Some i) = Some m"
proof (cases "replay_movement s ctx rid key (Some i)")
  case None
  from replay_movement_None [OF this at(3,1,2)] m show ?thesis by (auto simp: keyed_movements_def)
next
  case (Some x)
  with replay_movement_Some [OF Some] m inv keyed_movement_unique [of s x m key]
  show ?thesis by (auto simp: stock_inv_def)
qed

lemma change_stock_outcome:
  assumes "change_stock_command digest iv rid i data s = Inr (m, t)" and inv: "inventory_inv s"
  shows "m \<in> set (movements t)" "mov_ingredient_id m = i"
    "mov_idempotency_key m = Some (cs_idempotency_key data)"
    "mov_request_fingerprint m = Some (fingerprint_change digest data)"
    "\<exists>item bal. stock_at t i = Some (item, bal) \<and> ing_restaurant_id item = rid"
proof -
  obtain ctx item bal where "repo_ingredient s ctx rid i = Inr (item, bal)"
    using assms(1) unfolding change_stock_command_def Let_def prepare_Inr bindR_Inr split_paired_Ex by blast
  then have "stock_at s i = Some (item, bal)" "ing_restaurant_id item = rid"
    using repo_ingredient_Inr inv by (auto simp: inventory_inv_def)
  then show "\<exists>item bal. stock_at t i = Some (item, bal) \<and> ing_restaurant_id item = rid"
    using change_stock_extends [OF assms] by (fastforce simp: ledger_extends_def)
  show "m \<in> set (movements t)" "mov_ingredient_id m = i"
    "mov_idempotency_key m = Some (cs_idempotency_key data)"
    "mov_request_fingerprint m = Some (fingerprint_change digest data)"
    using assms(1)
    by (cases rule: change_stock_Inr; use replay_movement_Some record_transition_frame in
        \<open>force simp: change_movement_def add_movement_def\<close>)+
qed

text \<open>
  C27. A stock command is idempotent: once it has succeeded, retrying it with the same key and the
  same data, at any later state of the inventory and by any caller who may manage this
  restaurant's stock, returns the very movement of the first execution and changes nothing.
\<close>

theorem stock_change_retry_is_idempotent:
  assumes first: "change_stock_command digest iv rid i data s = Inr (m, t)" and ok: "inventory_state_ok s"
    and run: "inventory_step\<^sup>*\<^sup>* t u"
    and access: "current u (iv_user_id iv') = Inr ctx" "restaurant_exists u ctx rid"
      "''inventory.manage'' \<in> set (role_capabilities (ac_role ctx))"
  shows "change_stock_command digest iv' rid i data u = Inr (m, u)"
proof -
  have inv: "inventory_inv s" using ok by (rule inventory_state_okD)
  have "inventory_state_ok t" using ok first inventory_step_ok step_change by blast
  then have u: "inventory_state_ok u" "ledger_extends t u"
    using ledger_runs.reachable_keeps [OF run, of t] by simp_all
  then have uinv: "stock_inv u" by (auto simp: inventory_state_ok_def inventory_inv_def)
  note out = change_stock_outcome [OF first inv]
  obtain item bal where at: "stock_at u i = Some (item, bal)" "ing_restaurant_id item = rid"
    using out(5) u(2) by (fastforce simp: ledger_extends_def)
  have "m \<in> set (movements u)" using out(1) u(2) by (auto simp: ledger_extends_def)
  then have replay: "replay_movement u ctx rid (cs_idempotency_key data) (Some i) = Some m"
    using replay_finds [OF uinv _ out(2,3) at access(2)] by blast
  have item: "repo_ingredient u ctx rid i = Inr (item, bal)"
    using repo_ingredient_stock_at [OF uinv at access(2)] .
  show ?thesis
    using first replay item access out(4)
    by (auto simp: change_stock_command_def Let_def res_simps prepare_def access_restaurant_def)
qed

text \<open>A restaurant with one low ingredient, reached from the demonstration tenancy.\<close>

definition demo_digest :: "json \<Rightarrow> string" where
  "demo_digest j = ''d''"

definition demo_salt :: create_ingredient where
  "demo_salt = \<lparr>ci_name = ''salt'', ci_unit = ''g'', ci_reorder_threshold = Finite 5,
     ci_opening_quantity = Finite 3, ci_idempotency_key = ''k1''\<rparr>"

definition demo_receipt :: change_stock where
  "demo_receipt = \<lparr>cs_kind = ''receipt'', cs_quantity = Finite 4, cs_reason = ''delivery'',
     cs_expected_version = None, cs_idempotency_key = ''k2''\<rparr>"

definition demo_stock :: db where
  "demo_stock = (case create_ingredient_command demo_digest demo_invocation 1 demo_salt demo_tenancy of
     Inr (_, t) \<Rightarrow> t | Inl _ \<Rightarrow> empty_db)"

lemma demo_tenancy_stock_ok: "inventory_state_ok demo_tenancy" "episodes_complete demo_tenancy"
  by code_simp+

lemma demo_stock_created:
  "\<exists>v. create_ingredient_command demo_digest demo_invocation 1 demo_salt demo_tenancy = Inr (v, demo_stock)"
proof -
  have "\<not> (case create_ingredient_command demo_digest demo_invocation 1 demo_salt demo_tenancy of
     Inl _ \<Rightarrow> True | Inr _ \<Rightarrow> False)" by code_simp
  then show ?thesis by (auto simp: demo_stock_def split: sum.splits)
qed

lemma demo_stock_ok: "inventory_state_ok demo_stock" "episodes_complete demo_stock"
  using demo_stock_created demo_tenancy_stock_ok inventory_step_ok inventory_step_complete step_create
    inventory_state_okD by blast+

lemma demo_receipt_recorded:
  "\<exists>m t. change_stock_command demo_digest demo_invocation 1 2 demo_receipt demo_stock = Inr (m, t)
     \<and> mov_quantity_delta m = 4"
proof -
  have "\<not> (case change_stock_command demo_digest demo_invocation 1 2 demo_receipt demo_stock of
     Inl _ \<Rightarrow> True | Inr (m, t) \<Rightarrow> mov_quantity_delta m \<noteq> 4)" by code_simp
  then show ?thesis by (auto split: sum.splits)
qed

theorem stock_change_retry_is_idempotent_witness:
  "\<exists>m t. change_stock_command demo_digest demo_invocation 1 2 demo_receipt demo_stock = Inr (m, t)
     \<and> change_stock_command demo_digest demo_invocation 1 2 demo_receipt t = Inr (m, t)"
proof -
  have "succeeds_with (change_stock_command demo_digest demo_invocation 1 2 demo_receipt demo_stock)
      (\<lambda>(m, t). succeeds_with (current t (iv_user_id demo_invocation)) (\<lambda>ctx. restaurant_exists t ctx 1
          \<and> ''inventory.manage'' \<in> set (role_capabilities (ac_role ctx))))"
    by code_simp
  then obtain m t ctx where
    c: "change_stock_command demo_digest demo_invocation 1 2 demo_receipt demo_stock = Inr (m, t)"
    and a: "current t (iv_user_id demo_invocation) = Inr ctx" "restaurant_exists t ctx 1"
      "''inventory.manage'' \<in> set (role_capabilities (ac_role ctx))"
    unfolding succeeds_with_iff by (clarsimp split: prod.splits)
  from stock_change_retry_is_idempotent [OF c demo_stock_ok(1) rtranclp.rtrancl_refl a] c
  show ?thesis by blast
qed

section \<open>Effect of a stock change\<close>

text \<open>The state-changed and low events that a state change adds to the outbox.\<close>

definition state_events :: "int \<Rightarrow> int \<Rightarrow> bool \<Rightarrow> outbox_event list \<Rightarrow> bool" where
  "state_events i revision opened es = (case es of [] \<Rightarrow> False
     | e # low \<Rightarrow> raw_event_type (evt_facts e) = ''inventory.state_changed.v1''
         \<and> raw_aggregate_id (evt_facts e) = py_str_int i
         \<and> raw_aggregate_revision (evt_facts e) = revision
         \<and> (if opened then \<exists>l. low = [l] \<and> raw_event_type (evt_facts l) = ''inventory.low.v1''
            else low = []))"

lemma record_transition_events:
  assumes rec: "record_inventory_transition iv org item bal before source actor oid s = Inr (Some tr, t)"
    and "advance_revision before item = Inr rv"
  shows "\<exists>es. outbox_events t = outbox_events s @ es
    \<and> state_events (ing_id item) rv
        ((case before of None \<Rightarrow> True | Some b \<Rightarrow> \<not> is_low b)
          \<and> is_low (inventory_state_snapshot org item bal)) es"
  using rec
proof (cases rule: record_transition_Inr)
  case (changed rv' item1 epi tf s1 trn)
  have item1: "item1 = item\<lparr>ing_state_revision := rv\<rparr>" using changed(2,3) assms(2) by simp
  have ids: "st_ingredient_id (inventory_state_snapshot org item1 bal) = ing_id item"
    "st_state_revision (inventory_state_snapshot org item1 bal) = rv"
    "is_low (inventory_state_snapshot org item1 bal) = is_low (inventory_state_snapshot org item bal)"
    by (simp_all add: item1 inventory_state_snapshot_def is_low_def)
  have s1: "outbox_events s1 = outbox_events s"
    using episode_boundary_frame [OF changed(4)] by (simp add: save_ingredient_def)
  have opened: "(\<exists>x. tf = Some x \<and> et_kind x = ''opened'') \<longleftrightarrow>
    low_episode_transition before (inventory_state_snapshot org item1 bal) = Some ''opened''"
    using changed(4)
    by (cases rule: episode_boundary_Inr)
      (auto simp del: low_episode_transition_opened low_episode_transition_resolved)
  obtain e ev where "outbox_events t = outbox_events s @ e # ev"
    "raw_event_type (evt_facts e) = ''inventory.state_changed.v1''"
    "raw_aggregate_id (evt_facts e) = py_str_int (ing_id item)"
    "raw_aggregate_revision (evt_facts e) = rv"
    "ev = [] \<longleftrightarrow> (\<forall>x. tf = Some x \<longrightarrow> et_kind x \<noteq> ''opened'')"
    "\<forall>l \<in> set ev. raw_event_type (evt_facts l) = ''inventory.low.v1''" "length ev \<le> 1"
    using announce_event [OF changed(8)] unfolding changed(6,7) ids s1 by blast
  then show ?thesis using opened ids(3)
    by (intro exI [of _ "e # ev"]) (cases ev; auto simp: state_events_def)
qed simp

text \<open>
  C26. A recorded stock command does exactly what it says. The balance of the ingredient moves by
  the signed quantity of the command (a count sets it, a receipt adds, a waste subtracts), never
  below zero or above the maximum, its version goes up by one, one movement is added that states
  the new balance, and no other ingredient changes. The state revision goes up by one exactly
  when the quantity changed, and then exactly one state-changed event with that revision is
  appended, followed by a low-stock event exactly when the ingredient has just become low.
\<close>

theorem stock_change_effect:
  assumes ch: "change_stock_command digest iv rid i data s = Inr (m, t)" and inv: "inventory_inv s"
    and recorded: "movements t \<noteq> movements s"
  shows "\<exists>amount item bal item' bal'. cs_quantity data = Finite amount
    \<and> stock_at s i = Some (item, bal) \<and> stock_at t i = Some (item', bal')
    \<and> bal_quantity bal' = (if cs_kind data = ''count'' then amount
        else if cs_kind data = ''receipt'' then bal_quantity bal + amount else bal_quantity bal - amount)
    \<and> quantity_valid (bal_quantity bal') \<and> bal_version bal' = bal_version bal + 1
    \<and> movements t = movements s @ [m] \<and> mov_balance_after m = bal_quantity bal'
    \<and> mov_quantity_delta m = bal_quantity bal' - bal_quantity bal
    \<and> (\<forall>j. j \<noteq> i \<longrightarrow> stock_at t j = stock_at s j)
    \<and> (if bal_quantity bal' = bal_quantity bal
       then ing_state_revision item' = ing_state_revision item \<and> outbox_events t = outbox_events s
       else ing_state_revision item' = ing_state_revision item + 1
         \<and> (\<exists>es. outbox_events t = outbox_events s @ es
              \<and> state_events i (ing_state_revision item')
                  (\<not> is_low (inventory_state_snapshot 0 item bal)
                     \<and> is_low (inventory_state_snapshot 0 item' bal')) es))"
  using ch
proof (cases rule: change_stock_Inr)
  case (recorded ctx item bal amount delta bal1 tr s2)
  let ?org = "ac_organization_id ctx" and ?u = "add_movement m (save_balance bal1 s)"
  have shape: "stock_command s i item bal item bal1 [m] ?u"
    using recorded inv by (intro change_stock_shape) (auto simp: inventory_inv_def)
  then have at: "stock_at s i = Some (item, bal)" and id: "ing_id item = i"
    by (auto simp: stock_command_def)
  obtain item1 where item1: "item1 = item\<lparr>ing_state_revision :=
       (if tr = None then ing_state_revision item else ing_state_revision item + 1)\<rparr>"
    and at': "\<And>j. stock_at s2 j = (if j = i then Some (item1, bal1) else stock_at s j)"
    using stock_command_stock [OF shape inv recorded(13)] by metis
  have att: "stock_at t = stock_at s2" by (rule stock_at_cong) (simp_all add: recorded(14))
  have tr: "tr = None \<longleftrightarrow> bal_quantity bal1 = bal_quantity bal"
    using recorded(13) by (cases rule: record_transition_Inr)
      (auto simp: inventory_state_changed_def inventory_state_snapshot_def)
  have moves: "movements t = movements s @ [m]"
    using record_transition_frame [OF recorded(13)]
    by (simp add: recorded(14) add_movement_def save_balance_def)
  have "outbox_events t = outbox_events s" if "tr = None"
    using recorded(13) that by (cases rule: record_transition_Inr)
      (simp_all add: recorded(14) add_movement_def save_balance_def)
  moreover have "\<exists>es. outbox_events t = outbox_events s @ es \<and> state_events i (ing_state_revision item1)
      (\<not> is_low (inventory_state_snapshot 0 item bal) \<and> is_low (inventory_state_snapshot 0 item1 bal1)) es"
    if "tr \<noteq> None"
  proof -
    from that obtain trn where trn: "tr = Some trn" by blast
    have "advance_revision (Some (inventory_state_snapshot ?org item bal)) item =
        Inr (ing_state_revision item + 1)"
      by (simp add: advance_revision_def inventory_state_snapshot_def)
    from record_transition_events [OF recorded(13) [unfolded trn] this] show ?thesis
      by (simp add: recorded(14) add_movement_def save_balance_def item1 trn id)
  qed
  moreover have "bal_quantity bal1 = (if cs_kind data = ''count'' then amount
      else if cs_kind data = ''receipt'' then bal_quantity bal + amount else bal_quantity bal - amount)"
    using recorded(9) by (auto simp: recorded(11) stock_delta_def res_simps)
  moreover have "cs_quantity data = Finite amount" using recorded(6) by (simp add: res_simps)
  ultimately show ?thesis using at at' att moves tr recorded(10)
    by (intro exI [of _ amount] exI [of _ item] exI [of _ bal] exI [of _ item1] exI [of _ bal1])
      (auto simp: recorded(11,12) change_movement_def item1)
next
  case (replayed ctx)
  then show ?thesis using assms(3) by simp
qed

theorem stock_change_effect_witness:
  "\<exists>m t item' bal'. change_stock_command demo_digest demo_invocation 1 2 demo_receipt demo_stock = Inr (m, t)
     \<and> stock_at t 2 = Some (item', bal') \<and> bal_version bal' = 2"
proof -
  have "succeeds_with (change_stock_command demo_digest demo_invocation 1 2 demo_receipt demo_stock)
      (\<lambda>(m, t). movements t \<noteq> movements demo_stock)"
    by code_simp
  then obtain m t where
    c: "change_stock_command demo_digest demo_invocation 1 2 demo_receipt demo_stock = Inr (m, t)"
    and n: "movements t \<noteq> movements demo_stock"
    unfolding succeeds_with_iff by (auto split: prod.splits)
  have "map_option (\<lambda>(i, b). bal_version b) (stock_at demo_stock 2) = Some 1" by code_simp
  with stock_change_effect [OF c inventory_state_okD [OF demo_stock_ok(1)] n] c show ?thesis by auto
qed

end
