(* ===== verification/Recipes.thy ===== *)
theory Recipes
  imports Inventory_Commands
begin

text \<open>
  Recipes of menu items (\<open>recipes/service.py\<close>, \<open>recipes/repo/queries.py\<close>): reading and replacing
  a recipe, and the number of portions the present stock covers.
\<close>

section \<open>Commands and repository\<close>

record recipe_component_input =
  rci_ingredient_id :: int
  rci_quantity :: decimal

record replace_recipe =
  rr_inventory_tracking :: bool
  rr_components :: "recipe_component_input list"

record recipe_component_view =
  rcv_ingredient_id :: int
  rcv_ingredient_name :: string
  rcv_unit :: string
  rcv_quantity :: dec

record recipe_view =
  rv_menu_item_id :: int
  rv_restaurant_id :: int
  rv_inventory_tracking :: bool
  rv_components :: "recipe_component_view list"

record menu_item_availability =
  mia_restaurant_id :: int
  mia_inventory_tracking :: bool
  mia_out_of_stock :: bool
  mia_available_portions :: "int option"

definition menu_of :: "db \<Rightarrow> menu_item \<Rightarrow> menu option" where
  "menu_of s item = by_key mnu_id (mi_menu_id item) (menus s)"

definition recipe_menu_item :: "db \<Rightarrow> access_context \<Rightarrow> int \<Rightarrow> (menu_item \<times> int) option" where
  "recipe_menu_item s context menu_item_id =
     Option.bind (select_one (\<lambda>i. mi_id i = menu_item_id
         \<and> (case menu_of s i of None \<Rightarrow> False
            | Some m \<Rightarrow> restaurant_exists s context (mnu_restaurant_id m))) (menu_items s))
       (\<lambda>i. map_option (\<lambda>m. (i, mnu_restaurant_id m)) (menu_of s i))"

definition recipe_ingredients :: "db \<Rightarrow> int \<Rightarrow> int list \<Rightarrow> ingredient list" where
  "recipe_ingredients s restaurant_id ingredient_ids =
     (if ingredient_ids = [] then []
      else sort_key ing_id (filter (\<lambda>i. ing_restaurant_id i = restaurant_id
             \<and> ing_id i \<in> set ingredient_ids) (ingredients s)))"

text \<open>\<open>get_recipe_components\<close>: components joined with their ingredients, by component identity.\<close>

definition get_recipe_components :: "db \<Rightarrow> int \<Rightarrow> (recipe_component \<times> ingredient) list" where
  "get_recipe_components s menu_item_id =
     List.map_filter (\<lambda>c. map_option (Pair c) (by_key ing_id (rc_ingredient_id c) (ingredients s)))
       (sort_key rc_id (filter (\<lambda>c. rc_menu_item_id c = menu_item_id) (recipe_components s)))"

text \<open>\<open>components_for_item\<close>: the same, scoped to the caller and to the menu's own restaurant.\<close>

definition components_for_item ::
  "db \<Rightarrow> access_context \<Rightarrow> int \<Rightarrow> (recipe_component \<times> ingredient) list" where
  "components_for_item s context menu_item_id =
     (case recipe_menu_item s context menu_item_id of None \<Rightarrow> []
      | Some (_, restaurant_id) \<Rightarrow>
          filter (\<lambda>(c, i). ing_restaurant_id i = restaurant_id) (get_recipe_components s menu_item_id))"

definition save_menu_item :: "menu_item \<Rightarrow> db \<Rightarrow> db" where
  "save_menu_item i s = s\<lparr>menu_items := store_row mi_id i (menu_items s)\<rparr>"

text \<open>New component rows, with their identities.\<close>

definition component_rows :: "int \<Rightarrow> int \<Rightarrow> (int \<times> dec) list \<Rightarrow> recipe_component list" where
  "component_rows first_id menu_item_id cs =
     map (\<lambda>(k, (i, q)). \<lparr>rc_id = first_id + int k, rc_menu_item_id = menu_item_id,
       rc_ingredient_id = i, rc_quantity = q\<rparr>) (zip [0..<length cs] cs)"

definition replace_components :: "int \<Rightarrow> (int \<times> dec) list \<Rightarrow> db \<Rightarrow> db" where
  "replace_components menu_item_id cs s =
     s\<lparr>recipe_components :=
         delete_where (\<lambda>c. rc_menu_item_id c = menu_item_id) (recipe_components s)
         @ component_rows (next_serial s) menu_item_id cs,
       next_serial := next_serial s + int (length cs)\<rparr>"

section \<open>Service\<close>

definition menu_item_not_found :: app_error where
  "menu_item_not_found = NotFoundError ''Menu item not found''"

definition get_recipe :: "invocation \<Rightarrow> int \<Rightarrow> db \<Rightarrow> recipe_view result" where
  "get_recipe iv menu_item_id s =
     bindR (current s (iv_user_id iv)) (\<lambda>context.
     or_raise (recipe_menu_item s context menu_item_id) menu_item_not_found (\<lambda>(item, restaurant_id).
     require_capability context ''menu.read'' (
     Inr \<lparr>rv_menu_item_id = menu_item_id, rv_restaurant_id = restaurant_id,
          rv_inventory_tracking = mi_inventory_tracking item,
          rv_components = map (\<lambda>(c, i). \<lparr>rcv_ingredient_id = rc_ingredient_id c,
              rcv_ingredient_name = ing_name i, rcv_unit = ing_unit i, rcv_quantity = rc_quantity c\<rparr>)
            (components_for_item s context menu_item_id)\<rparr>)))"

definition replace_recipe_command ::
  "invocation \<Rightarrow> int \<Rightarrow> replace_recipe \<Rightarrow> db \<Rightarrow> (recipe_view \<times> db) result" where
  "replace_recipe_command iv menu_item_id command s =
     bindR (current s (iv_user_id iv)) (\<lambda>context.
     or_raise (recipe_menu_item s context menu_item_id) menu_item_not_found (\<lambda>(item, restaurant_id).
     require_capability context ''menu.manage'' (
     let ids = map rci_ingredient_id (rr_components command) in
     raise_if (\<not> distinct ids) (ValidationError ''A recipe cannot contain duplicate ingredients'') (
     raise_if (rr_inventory_tracking command \<and> rr_components command = [])
       (ValidationError ''Inventory tracking requires at least one recipe ingredient'') (
     bindR (all_results (map (\<lambda>c. quantity True (rci_quantity c)) (rr_components command))) (\<lambda>quantities.
     let found = recipe_ingredients s restaurant_id ids in
     raise_if (length (remdups (map ing_id found)) \<noteq> length ids) ingredient_not_found (
     raise_if (list_ex (\<lambda>i. \<not> ing_is_active i) found)
       (ConflictError ''Restore inactive ingredients before using them in a recipe'') (
     let item1 = item\<lparr>mi_inventory_tracking := rr_inventory_tracking command\<rparr>;
         s1 = replace_components menu_item_id (zip ids quantities) (save_menu_item item1 s);
         s2 = record_audit iv context ''menu_item.recipe.updated'' ''menu_item''
                (py_str_int menu_item_id) (Some restaurant_id) [] s1 in
     Inr (\<lparr>rv_menu_item_id = menu_item_id, rv_restaurant_id = restaurant_id,
           rv_inventory_tracking = mi_inventory_tracking item1,
           rv_components = List.map_filter (\<lambda>(i, q). map_option (\<lambda>g. \<lparr>rcv_ingredient_id = i,
               rcv_ingredient_name = ing_name g, rcv_unit = ing_unit g, rcv_quantity = q\<rparr>)
               (by_key ing_id i found)) (zip ids quantities)\<rparr>, s2)))))))))"

section \<open>Availability\<close>

text \<open>
  One row of the availability query: the required quantity, the ingredient and the balance, the
  last two by outer joins. The portions are \<open>None\<close> for an unavailable component.
\<close>

definition component_portions :: "db \<Rightarrow> int \<Rightarrow> recipe_component \<Rightarrow> int option" where
  "component_portions s restaurant_id c =
     (case (by_key ing_id (rc_ingredient_id c) (ingredients s),
            by_key bal_ingredient_id (rc_ingredient_id c) (balances s)) of
        (Some i, Some b) \<Rightarrow>
          if ing_restaurant_id i \<noteq> restaurant_id \<or> \<not> ing_is_active i \<or> rc_quantity c \<le> 0 then None
          else Some \<lfloor>bal_quantity b / rc_quantity c\<rfloor>
      | _ \<Rightarrow> None)"

definition item_components :: "db \<Rightarrow> int \<Rightarrow> recipe_component list" where
  "item_components s menu_item_id =
     sort_key rc_id (filter (\<lambda>c. rc_menu_item_id c = menu_item_id) (recipe_components s))"

definition recipe_availability :: "db \<Rightarrow> int \<Rightarrow> int \<Rightarrow> menu_item_availability" where
  "recipe_availability s restaurant_id menu_item_id =
     (let recipe = map (component_portions s restaurant_id) (item_components s menu_item_id);
          portions = List.map_filter id recipe;
          unavailable = (recipe = [] \<or> None \<in> set recipe);
          available = (if unavailable then 0 else if portions = [] then 0 else Min (set portions)) in
      \<lparr>mia_restaurant_id = restaurant_id, mia_inventory_tracking = True,
       mia_out_of_stock = (unavailable \<or> available = 0),
       mia_available_portions = Some available\<rparr>)"

text \<open>
  \<open>for_menu_items\<close> for one item of the page: absent when the row is gone or sits in another menu.
\<close>

definition menu_item_availability_of ::
  "db \<Rightarrow> int option \<Rightarrow> menu_item \<Rightarrow> menu_item_availability option" where
  "menu_item_availability_of s expected_menu_id item =
     (case select_one (\<lambda>r. mi_id r = mi_id item
         \<and> (case expected_menu_id of None \<Rightarrow> True | Some m \<Rightarrow> mi_menu_id r = m)) (menu_items s) of
        None \<Rightarrow> None
      | Some r \<Rightarrow> (case menu_of s r of None \<Rightarrow> None
         | Some m \<Rightarrow>
            if mi_menu_id r \<noteq> mi_menu_id item then None
            else if \<not> mi_inventory_tracking r then
              Some \<lparr>mia_restaurant_id = mnu_restaurant_id m, mia_inventory_tracking = False,
                    mia_out_of_stock = False, mia_available_portions = None\<rparr>
            else Some (recipe_availability s (mnu_restaurant_id m) (mi_id item))))"

definition for_menu_items ::
  "db \<Rightarrow> menu_item list \<Rightarrow> int option \<Rightarrow> (int \<times> menu_item_availability) list" where
  "for_menu_items s items expected_menu_id =
     List.map_filter (\<lambda>i. map_option (Pair (mi_id i)) (menu_item_availability_of s expected_menu_id i)) items"

section \<open>Properties\<close>

lemma portions_iff:
  fixes q :: dec
  assumes "0 < q"
  shows "n \<le> \<lfloor>b / q\<rfloor> \<longleftrightarrow> of_int n * q \<le> b"
  using assms by (simp add: le_floor_iff pos_le_divide_eq)

lemma component_portions_covers:
  assumes "component_portions s rid c = Some k"
  shows "\<exists>item bal. stock_at s (rc_ingredient_id c) = Some (item, bal) \<and> ing_is_active item
    \<and> ing_restaurant_id item = rid \<and> (n \<le> k \<longleftrightarrow> of_int n * rc_quantity c \<le> bal_quantity bal)"
  using assms portions_iff [of "rc_quantity c" n]
  by (auto simp: component_portions_def stock_at_def split: option.splits if_splits)

text \<open>
  C32. The availability shown for a tracked menu item is exact. A positive number \<open>n\<close> of portions is
  at most the reported number exactly when the recipe is not empty and, for every component, the
  ingredient is an active one of the item's restaurant whose balance covers \<open>n\<close> times the
  component's quantity (which is positive).
\<close>

theorem availability_is_exact:
  assumes "0 < n"
  shows "(\<exists>k. mia_available_portions (recipe_availability s rid mid) = Some k \<and> n \<le> k) \<longleftrightarrow>
    item_components s mid \<noteq> [] \<and> (\<forall>c \<in> set (item_components s mid). 0 < rc_quantity c
      \<and> (\<exists>item bal. stock_at s (rc_ingredient_id c) = Some (item, bal) \<and> ing_is_active item
           \<and> ing_restaurant_id item = rid \<and> of_int n * rc_quantity c \<le> bal_quantity bal))"
    (is "?L \<longleftrightarrow> ?R")
proof -
  let ?cs = "item_components s mid" and ?p = "component_portions s rid"
  have one: "(\<exists>k. ?p c = Some k \<and> n \<le> k) \<longleftrightarrow> 0 < rc_quantity c
      \<and> (\<exists>item bal. stock_at s (rc_ingredient_id c) = Some (item, bal) \<and> ing_is_active item
           \<and> ing_restaurant_id item = rid \<and> of_int n * rc_quantity c \<le> bal_quantity bal)" for c
    using portions_iff [of "rc_quantity c" n]
    by (auto simp: component_portions_def stock_at_def split: option.splits)
  have "?L \<longleftrightarrow> ?cs \<noteq> [] \<and> (\<forall>c \<in> set ?cs. \<exists>k. ?p c = Some k \<and> n \<le> k)"
  proof (cases "?cs = [] \<or> None \<in> ?p ` set ?cs")
    case True
    then have "\<not> (?cs \<noteq> [] \<and> (\<forall>c \<in> set ?cs. \<exists>k. ?p c = Some k \<and> n \<le> k))"
      by (metis imageE option.distinct(1))
    then show ?thesis using assms True by (auto simp: recipe_availability_def Let_def)
  next
    case False
    then have some: "\<forall>c \<in> set ?cs. \<exists>k. ?p c = Some k" by (metis image_eqI not_None_eq)
    let ?ks = "List.map_filter id (map ?p ?cs)"
    have ks: "set ?ks = {k. \<exists>c \<in> set ?cs. ?p c = Some k}"
      by (force simp: List.map_filter_def image_iff)
    then have "?ks \<noteq> []" using some False by (metis (mono_tags, lifting) empty_Collect_eq empty_set list.set_sel(1))
    then have min: "n \<le> Min (set ?ks) \<longleftrightarrow> (\<forall>k \<in> set ?ks. n \<le> k)" by (intro Min_ge_iff) auto
    have "mia_available_portions (recipe_availability s rid mid) = Some (Min (set ?ks))"
      using False \<open>?ks \<noteq> []\<close> by (simp add: recipe_availability_def Let_def)
    then have "?L \<longleftrightarrow> (\<forall>k \<in> set ?ks. n \<le> k)" using min by simp
    moreover have "(\<forall>k \<in> set ?ks. n \<le> k) \<longleftrightarrow> (\<forall>c \<in> set ?cs. \<exists>k. ?p c = Some k \<and> n \<le> k)"
      unfolding ks using some by fastforce
    ultimately show ?thesis using False by blast
  qed
  then show ?thesis unfolding one .
qed

text \<open>A menu with one tracked item that needs two grams of salt a portion.\<close>

definition demo_kitchen :: db where
  "demo_kitchen = demo_stock\<lparr>menus := [\<lparr>mnu_id = 1, mnu_restaurant_id = 1, mnu_name = ''Lunch'',
       mnu_description = None\<rparr>],
     menu_items := [\<lparr>mi_id = 1, mi_menu_id = 1, mi_name = ''Soup'', mi_description = None,
       mi_price = 5 / 2, mi_is_available = True, mi_inventory_tracking = True\<rparr>],
     recipe_components := [\<lparr>rc_id = 1, rc_menu_item_id = 1, rc_ingredient_id = 2,
       rc_quantity = 2\<rparr>]\<rparr>"

theorem availability_is_exact_witness:
  "(\<exists>k. mia_available_portions (recipe_availability demo_kitchen 1 1) = Some k \<and> 1 \<le> k)
   \<and> (\<exists>item bal. stock_at demo_kitchen 2 = Some (item, bal) \<and> 2 \<le> bal_quantity bal)"
proof -
  have "mia_available_portions (recipe_availability demo_kitchen 1 1) = Some 1" by code_simp
  moreover have "item_components demo_kitchen 1 = [\<lparr>rc_id = 1, rc_menu_item_id = 1,
    rc_ingredient_id = 2, rc_quantity = 2\<rparr>]" by code_simp
  ultimately show ?thesis using availability_is_exact [of 1 demo_kitchen 1 1] by auto
qed

end
