(* ===== verification/Orders.thy ===== *)
theory Orders
  imports Recipes
begin

text \<open>
  The order service (\<open>orders/service.py\<close>) and its repository (\<open>orders/repo/queries.py\<close>): creation
  with an idempotency record, the whole update handler with the stock consumption of acceptance, the
  guarded deletion, and the scoped reads.
\<close>

section \<open>Commands\<close>

record order_item_command =
  oic_menu_item_id :: int
  oic_quantity :: int
  oic_notes :: "string option"

record create_order_command =
  co_table_number :: "string option"
  co_customer_name :: "string option"
  co_notes :: "string option"
  co_items :: "order_item_command list"
  co_idempotency_key :: string

record update_order_command =
  uo_table_number :: "string option"
  uo_customer_name :: "string option"
  uo_status :: "string option"
  uo_notes :: "string option"
  uo_items :: "order_item_command list option"
  uo_payment_status :: "string option"
  uo_fields :: "string list"

text \<open>\<open>OrderItemCreate\<close>: the request schema admits positive quantities only.\<close>

definition order_items_request_ok :: "order_item_command list \<Rightarrow> bool" where
  "order_items_request_ok items = (items \<noteq> [] \<and> list_all (\<lambda>i. 0 < oic_quantity i) items)"

section \<open>Repository\<close>

definition order_in_scope :: "db \<Rightarrow> access_context \<Rightarrow> order \<Rightarrow> bool" where
  "order_in_scope s scope d = restaurant_exists s scope (ord_restaurant_id d)"

definition order_by_id :: "db \<Rightarrow> access_context \<Rightarrow> int \<Rightarrow> order option" where
  "order_by_id s scope order_id =
     select_one (\<lambda>d. ord_id d = order_id \<and> order_in_scope s scope d) (orders s)"

definition items_of :: "db \<Rightarrow> int \<Rightarrow> order_item list" where
  "items_of s order_id = filter (\<lambda>i. oi_order_id i = order_id) (order_items s)"

definition orders_page :: "db \<Rightarrow> access_context \<Rightarrow> int \<Rightarrow> nat \<Rightarrow> nat \<Rightarrow> order list" where
  "orders_page s scope restaurant_id limit offset =
     take limit (drop offset (sort_key (\<lambda>d. - micros (ord_created_at d)) (sort_key (\<lambda>d. - ord_id d)
       (filter (\<lambda>d. ord_restaurant_id d = restaurant_id \<and> order_in_scope s scope d) (orders s)))))"

definition count_for_restaurant :: "db \<Rightarrow> access_context \<Rightarrow> int \<Rightarrow> nat" where
  "count_for_restaurant s scope restaurant_id =
     length (filter (\<lambda>d. ord_restaurant_id d = restaurant_id \<and> order_in_scope s scope d) (orders s))"

definition menu_items_for_restaurant :: "db \<Rightarrow> access_context \<Rightarrow> int \<Rightarrow> int list \<Rightarrow> menu_item list" where
  "menu_items_for_restaurant s scope restaurant_id ids =
     filter (\<lambda>i. mi_id i \<in> set ids
        \<and> (case menu_of s i of None \<Rightarrow> False | Some m \<Rightarrow> mnu_restaurant_id m = restaurant_id)
        \<and> restaurant_exists s scope restaurant_id) (menu_items s)"

definition order_submission_of :: "db \<Rightarrow> access_context \<Rightarrow> int \<Rightarrow> string \<Rightarrow> order_submission option" where
  "order_submission_of s scope restaurant_id key =
     select_one (\<lambda>x. sub_restaurant_id x = restaurant_id \<and> sub_idempotency_key x = key
        \<and> restaurant_exists s scope restaurant_id) (order_submissions s)"

text \<open>\<open>inventory_balances\<close> and \<open>lock_inventory_balances\<close>, which differ in the row locks only.\<close>

definition inventory_balances ::
  "db \<Rightarrow> access_context \<Rightarrow> int \<Rightarrow> int list \<Rightarrow> (ingredient \<times> balance) list" where
  "inventory_balances s scope restaurant_id ids =
     (if ids = [] then []
      else List.map_filter (with_balance s) (sort_key ing_id
        (filter (\<lambda>i. ing_restaurant_id i = restaurant_id \<and> ing_id i \<in> set ids
           \<and> restaurant_exists s scope restaurant_id) (ingredients s))))"

definition has_order_history :: "db \<Rightarrow> int \<Rightarrow> bool" where
  "has_order_history s order_id = exists_row (\<lambda>m. mov_order_id m = Some order_id) (movements s)"

definition save_order :: "order \<Rightarrow> db \<Rightarrow> db" where
  "save_order d s = s\<lparr>orders := store_row ord_id d (orders s)\<rparr>"

definition order_not_found :: app_error where
  "order_not_found = NotFoundError ''Order not found''"

section \<open>Items and stock\<close>

text \<open>\<open>_build_order_items\<close>; the identities of the rows are assigned when they are inserted.\<close>

definition build_line :: "menu_item list \<Rightarrow> order_item_command \<Rightarrow> order_item result" where
  "build_line by_id c =
     or_raise (by_key mi_id (oic_menu_item_id c) by_id)
       (NotFoundError ''Menu items not found for restaurant'') (\<lambda>item.
     Inr \<lparr>oi_id = 0, oi_order_id = 0, oi_menu_item_id = Some (mi_id item),
          oi_quantity = oic_quantity c, oi_unit_price = mi_price item,
          oi_item_name = mi_name item, oi_line_total = mi_price item * of_int (oic_quantity c),
          oi_notes = oic_notes c\<rparr>)"

definition build_order_items ::
  "db \<Rightarrow> access_context \<Rightarrow> int \<Rightarrow> order_item_command list \<Rightarrow> (order_item list \<times> dec) result" where
  "build_order_items s scope restaurant_id commands =
     (let ids = map oic_menu_item_id commands;
          by_id = menu_items_for_restaurant s scope restaurant_id ids in
      raise_if (\<exists>i \<in> set ids. i \<notin> mi_id ` set by_id)
        (NotFoundError ''Menu items not found for restaurant'') (
      raise_if (list_ex (\<lambda>i. \<not> mi_is_available i) by_id)
        (ValidationError ''Menu items are unavailable'') (
      bindR (all_results (map (build_line by_id) commands)) (\<lambda>lines.
      Inr (lines, sum_list (map oi_line_total lines))))))"

definition portions_of :: "order_item list \<Rightarrow> int \<Rightarrow> int" where
  "portions_of items menu_item_id =
     sum_list (map oi_quantity (filter (\<lambda>i. oi_menu_item_id i = Some menu_item_id) items))"

text \<open>\<open>requirements[i] += q\<close> on the default dictionary, kept as an association list.\<close>

primrec add_requirement :: "int \<Rightarrow> dec \<Rightarrow> (int \<times> dec) list \<Rightarrow> (int \<times> dec) list" where
  "add_requirement i q [] = [(i, q)]"
| "add_requirement i q (x # xs) = (if fst x = i then (i, snd x + q) # xs else x # add_requirement i q xs)"

definition require_component ::
  "int \<Rightarrow> dec \<Rightarrow> recipe_component \<times> ingredient \<Rightarrow> (int \<times> dec) list \<Rightarrow> (int \<times> dec) list result" where
  "require_component restaurant_id portions ci requirements =
     (let (component, ing) = ci in
      raise_if (rc_quantity component \<le> 0)
        (ConflictError ''Tracked menu item has an invalid recipe'') (
      raise_if (ing_restaurant_id ing \<noteq> restaurant_id)
        (ConflictError ''Tracked menu item has an invalid recipe ingredient'') (
      Inr (add_requirement (ing_id ing) (rc_quantity component * portions) requirements))))"

definition require_menu_item ::
  "db \<Rightarrow> int \<Rightarrow> order_item list \<Rightarrow> int \<Rightarrow> (int \<times> dec) list \<times> int list
     \<Rightarrow> ((int \<times> dec) list \<times> int list) result" where
  "require_menu_item s restaurant_id items menu_item_id acc =
     (let (requirements, missing) = acc; components = get_recipe_components s menu_item_id in
      if components = [] then Inr (requirements, missing @ [menu_item_id])
      else bindR (for_each (require_component restaurant_id (of_int (portions_of items menu_item_id)))
             components requirements) (\<lambda>r. Inr (r, missing)))"

definition shortage :: "db \<Rightarrow> (ingredient \<times> balance) list \<Rightarrow> int \<times> dec \<Rightarrow> bool" where
  "shortage s rows req =
     (let i = fst req;
          bal = map_option snd (by_key (\<lambda>r. ing_id (fst r)) i rows);
          active = (case by_key ing_id i (ingredients s) of None \<Rightarrow> False | Some g \<Rightarrow> ing_is_active g);
          available = (case bal of Some b \<Rightarrow> if active then bal_quantity b else 0 | None \<Rightarrow> 0) in
      available < snd req)"

definition stock_row ::
  "(ingredient \<times> balance) list \<Rightarrow> int \<times> dec \<Rightarrow> (ingredient \<times> balance \<times> dec) result" where
  "stock_row rows req =
     or_raise (by_key (\<lambda>r. ing_id (fst r)) (fst req) rows) (RuntimeError ''KeyError'') (\<lambda>(i, b).
     Inr (i, b, snd req))"

definition stock_rows ::
  "db \<Rightarrow> access_context \<Rightarrow> int \<Rightarrow> order_item list \<Rightarrow> (ingredient \<times> balance \<times> dec) list result" where
  "stock_rows s scope restaurant_id items =
     raise_if (list_ex (\<lambda>i. oi_menu_item_id i = None) items)
       (ConflictError ''An order item no longer has a menu item for stock validation'') (
     let ids = sort (remdups (List.map_filter oi_menu_item_id items)) in
     if ids = [] then Inr []
     else
     let menu_rows = menu_items_for_restaurant s scope restaurant_id ids in
     raise_if (\<exists>i \<in> set ids. i \<notin> mi_id ` set menu_rows)
       (ConflictError ''Menu items are no longer available for stock validation'') (
     raise_if (list_ex (\<lambda>i. \<not> mi_is_available i) menu_rows)
       (ConflictError ''Menu items are unavailable'') (
     let tracked = sort (map mi_id (filter mi_inventory_tracking menu_rows)) in
     if tracked = [] then Inr []
     else
     bindR (for_each (require_menu_item s restaurant_id items) tracked ([], [])) (\<lambda>(requirements, missing).
     raise_if (missing \<noteq> []) (ConflictError ''Tracked menu items require recipe ingredients'') (
     let sorted_requirements = sort_key fst requirements;
         rows = inventory_balances s scope restaurant_id (map fst sorted_requirements) in
     raise_if (list_ex (shortage s rows) sorted_requirements)
       (ConflictError ''Insufficient tracked stock'') (
     all_results (map (stock_row rows) sorted_requirements)))))))"

definition consumption_movement ::
  "invocation \<Rightarrow> access_context \<Rightarrow> int \<Rightarrow> ingredient \<Rightarrow> balance \<Rightarrow> dec \<Rightarrow> int \<Rightarrow> movement" where
  "consumption_movement iv context order_id ing bal required serial =
     \<lparr>mov_id = serial, mov_ingredient_id = ing_id ing, mov_kind = ''consumption'',
      mov_quantity_delta = - required, mov_balance_after = bal_quantity bal - required,
      mov_version_after = bal_version bal + 1, mov_actor_user_id = Some (ac_user_id context),
      mov_order_id = Some order_id, mov_reason = ''Order '' @ py_str_int order_id @ '' accepted'',
      mov_idempotency_key = None, mov_request_fingerprint = None, mov_occurred_at = iv_now iv\<rparr>"

definition consume_row ::
  "invocation \<Rightarrow> access_context \<Rightarrow> int \<Rightarrow> ingredient \<times> balance \<times> dec \<Rightarrow> db \<Rightarrow> db result" where
  "consume_row iv context order_id row s =
     (let (ing, bal, required) = row;
          before = inventory_state_snapshot (ac_organization_id context) ing bal;
          bal1 = bal\<lparr>bal_quantity := bal_quantity bal - required, bal_version := bal_version bal + 1\<rparr> in
      bindR (record_inventory_transition iv (ac_organization_id context) ing bal1 (Some before)
          ''order_acceptance'' (Some (ac_user_id context)) (Some order_id) (save_balance bal1 s))
        (\<lambda>(_, s1).
      Inr (add_movement (consumption_movement iv context order_id ing bal required (next_serial s1)) s1)))"

definition consume_order_stock ::
  "invocation \<Rightarrow> access_context \<Rightarrow> order \<Rightarrow> order_item list \<Rightarrow> db \<Rightarrow> db result" where
  "consume_order_stock iv context d items s =
     bindR (stock_rows s context (ord_restaurant_id d) items) (\<lambda>rows.
     for_each (consume_row iv context (ord_id d)) rows s)"

text \<open>\<open>_check_stock\<close>, then the rest.\<close>

definition check_stock ::
  "db \<Rightarrow> access_context \<Rightarrow> int \<Rightarrow> order_item list \<Rightarrow> 'a result \<Rightarrow> 'a result" where
  "check_stock s scope restaurant_id items rest =
     bindR (stock_rows s scope restaurant_id items) (\<lambda>_. rest)"

section \<open>Service\<close>

text \<open>The columns \<open>Numeric(10, 2)\<close> reject larger amounts when the row is flushed.\<close>

definition money_column_ok :: "dec \<Rightarrow> bool" where
  "money_column_ok q = (- (9999999999 / 100) \<le> q \<and> q \<le> 9999999999 / 100)"

definition money_overflow :: app_error where
  "money_overflow = DataError ''numeric field overflow''"

definition request_fingerprint :: "(json \<Rightarrow> string) \<Rightarrow> create_order_command \<Rightarrow> string" where
  "request_fingerprint digest command = digest (JObj
     [(''customer_name'', json_opt JStr (co_customer_name command)),
      (''items'', JList (map (\<lambda>i. JObj
         [(''menu_item_id'', JInt (oic_menu_item_id i)),
          (''notes'', json_opt JStr (oic_notes i)),
          (''quantity'', JInt (oic_quantity i))]) (co_items command))),
      (''notes'', json_opt JStr (co_notes command)),
      (''table_number'', json_opt JStr (co_table_number command))])"

definition creation_response_snapshot :: "order \<Rightarrow> order_item list \<Rightarrow> json" where
  "creation_response_snapshot d items = JObj
     [(''order_id'', JInt (ord_id d)), (''restaurant_id'', JInt (ord_restaurant_id d)),
      (''table_number'', json_opt JStr (ord_table_number d)),
      (''customer_name'', json_opt JStr (ord_customer_name d)),
      (''status'', JStr (ord_status d)), (''payment_status'', JStr (ord_payment_status d)),
      (''notes'', json_opt JStr (ord_notes d)), (''subtotal'', JDec (ord_subtotal d)),
      (''total'', JDec (ord_total d)), (''created_at'', JTime (ord_created_at d)),
      (''updated_at'', JTime (ord_updated_at d)),
      (''items'', JList (map (\<lambda>i. JObj
         [(''order_item_id'', JInt (oi_id i)), (''order_id'', JInt (oi_order_id i)),
          (''menu_item_id'', json_opt JInt (oi_menu_item_id i)),
          (''menu_item_name'', JStr (oi_item_name i)), (''quantity'', JInt (oi_quantity i)),
          (''unit_price'', JDec (oi_unit_price i)), (''line_total'', JDec (oi_line_total i)),
          (''notes'', json_opt JStr (oi_notes i))]) items))]"

definition attach_items :: "int \<Rightarrow> int \<Rightarrow> order_item list \<Rightarrow> order_item list" where
  "attach_items order_id first_id lines =
     map (\<lambda>(k, l). l\<lparr>oi_id := first_id + int k, oi_order_id := order_id\<rparr>)
       (zip [0..<length lines] lines)"

definition create_order ::
  "(json \<Rightarrow> string) \<Rightarrow> invocation \<Rightarrow> int \<Rightarrow> create_order_command \<Rightarrow> db \<Rightarrow> (json \<times> db) result" where
  "create_order digest iv restaurant_id command s =
     bindR (current s (iv_user_id iv)) (\<lambda>context.
     access_restaurant s context restaurant_id ''order.create'' (
     raise_if (\<not> idempotency_key_ok (co_idempotency_key command))
       (ValidationError ''Invalid order idempotency key'') (
     let signature = request_fingerprint digest command in
     case order_submission_of s context restaurant_id (co_idempotency_key command) of
       Some replay \<Rightarrow>
         raise_if (sub_request_fingerprint replay \<noteq> signature)
           (ConflictError ''Idempotency key was already used for a different order'')
           (Inr (sub_response_snapshot replay, s))
     | None \<Rightarrow>
         bindR (build_order_items s context restaurant_id (co_items command)) (\<lambda>(lines, subtotal).
         check_stock s context restaurant_id lines (
         raise_if (\<not> list_all money_column_ok (subtotal # map oi_line_total lines)) money_overflow (
         let d = \<lparr>ord_id = next_serial s, ord_restaurant_id = restaurant_id,
               ord_table_number = co_table_number command,
               ord_customer_name = co_customer_name command, ord_status = ''DRAFT'',
               ord_payment_status = ''UNPAID'', ord_notes = co_notes command,
               ord_subtotal = subtotal, ord_total = subtotal, ord_inventory_processed = False,
               ord_revision = 1, ord_created_at = Naive (iv_now iv),
               ord_updated_at = Naive (iv_now iv)\<rparr>;
             rows = attach_items (ord_id d) (next_serial s + 1) lines;
             snapshot = creation_response_snapshot d rows;
             serial = next_serial s + 1 + int (length lines);
             submission = \<lparr>sub_id = serial, sub_restaurant_id = restaurant_id,
               sub_idempotency_key = co_idempotency_key command, sub_order_id = Some (ord_id d),
               sub_request_fingerprint = signature, sub_response_snapshot = snapshot\<rparr>;
             s1 = s\<lparr>orders := orders s @ [d], order_items := order_items s @ rows,
                    order_submissions := order_submissions s @ [submission],
                    next_serial := serial + 1\<rparr> in
         Inr (snapshot, record_audit iv context ''order.created'' ''order'' (py_str_int (ord_id d))
           (Some restaurant_id) [(''total'', JDec (ord_total d))] s1)))))))"

definition get_order :: "invocation \<Rightarrow> int \<Rightarrow> db \<Rightarrow> (order \<times> order_item list) result" where
  "get_order iv order_id s =
     bindR (current s (iv_user_id iv)) (\<lambda>context.
     require_capability context ''order.read'' (
     or_raise (order_by_id s context order_id) order_not_found (\<lambda>d. Inr (d, items_of s order_id))))"

definition list_orders ::
  "invocation \<Rightarrow> int \<Rightarrow> nat \<Rightarrow> nat \<Rightarrow> db \<Rightarrow> (order list \<times> nat) result" where
  "list_orders iv restaurant_id limit offset s =
     bindR (current s (iv_user_id iv)) (\<lambda>context.
     access_restaurant s context restaurant_id ''order.read'' (
     Inr (orders_page s context restaurant_id limit offset,
          count_for_restaurant s context restaurant_id)))"

text \<open>\<open>_order_state\<close>: what counts as a change of the order.\<close>

type_synonym line_state = "int option \<times> string \<times> int \<times> dec \<times> dec \<times> string option"

definition line_state :: "order_item \<Rightarrow> line_state" where
  "line_state i = (oi_menu_item_id i, oi_item_name i, oi_quantity i, oi_unit_price i,
     oi_line_total i, oi_notes i)"

definition order_state ::
  "order \<Rightarrow> order_item list \<Rightarrow> (string \<times> string \<times> string option \<times> string option \<times> string option
     \<times> dec \<times> dec \<times> bool) \<times> line_state list" where
  "order_state d items = ((ord_status d, ord_payment_status d, ord_table_number d,
     ord_customer_name d, ord_notes d, ord_subtotal d, ord_total d, ord_inventory_processed d),
     map line_state items)"

text \<open>The status part of the update, with the stock check of submission and the consumption.\<close>

definition update_status ::
  "invocation \<Rightarrow> access_context \<Rightarrow> order \<Rightarrow> order_item list \<Rightarrow> string option \<Rightarrow> db
     \<Rightarrow> (order \<times> db) result" where
  "update_status iv context d items status s =
     (case status of None \<Rightarrow> Inr (d, s)
      | Some requested \<Rightarrow>
          bindR (ensure_valid_order_transition (ord_status d) requested) (\<lambda>new_status.
          if new_status = ''SUBMITTED'' then
            check_stock s context (ord_restaurant_id d) items (Inr (d\<lparr>ord_status := new_status\<rparr>, s))
          else if ord_status d \<noteq> ''ACCEPTED'' \<and> new_status = ''ACCEPTED'' then
            bindR (consume_order_stock iv context d items s) (\<lambda>s1.
            Inr (d\<lparr>ord_inventory_processed := True, ord_status := new_status\<rparr>, s1))
          else Inr (d\<lparr>ord_status := new_status\<rparr>, s)))"

definition update_details :: "update_order_command \<Rightarrow> order \<Rightarrow> order result" where
  "update_details command d =
     bindR (case uo_payment_status command of None \<Rightarrow> Inr d
            | Some p \<Rightarrow> bindR (ensure_valid_payment_status p) (\<lambda>v. Inr (d\<lparr>ord_payment_status := v\<rparr>)))
     (\<lambda>d1.
     let d2 = (if uo_table_number command \<noteq> None then d1\<lparr>ord_table_number := uo_table_number command\<rparr> else d1);
         d3 = (if uo_customer_name command \<noteq> None then d2\<lparr>ord_customer_name := uo_customer_name command\<rparr> else d2);
         d4 = (if uo_notes command \<noteq> None then d3\<lparr>ord_notes := uo_notes command\<rparr> else d3) in
     Inr d4)"

text \<open>The item part: the order with its new lines, or the lines it had.\<close>

definition update_items ::
  "access_context \<Rightarrow> order \<Rightarrow> order_item list \<Rightarrow> order_item_command list option \<Rightarrow> db
     \<Rightarrow> (order \<times> order_item list) result" where
  "update_items context d items new_items s =
     (case new_items of None \<Rightarrow> Inr (d, items)
      | Some commands \<Rightarrow>
          bindR (ensure_order_items_mutable (ord_status d)) (\<lambda>_.
          bindR (build_order_items s context (ord_restaurant_id d) commands) (\<lambda>(lines, subtotal).
          check_stock s context (ord_restaurant_id d) lines (
          Inr (d\<lparr>ord_subtotal := subtotal, ord_total := subtotal\<rparr>, lines)))))"

definition status_event :: "order \<Rightarrow> (event_type \<times> decimal payload) option" where
  "status_event d =
     (if ord_status d = ''SUBMITTED'' then
        Some (Order_Submitted, OrderSubmittedPayload (ord_id d) (ord_status d))
      else if ord_status d = ''ACCEPTED'' then
        Some (Order_Accepted, OrderAcceptedPayload (ord_id d) (ord_status d))
      else if ord_status d = ''COMPLETED'' then
        Some (Order_Completed, OrderCompletedPayload (ord_id d) (Finite (ord_total d)) (ord_created_at d))
      else if ord_status d = ''CANCELLED'' then
        Some (Order_Cancelled, OrderCancelledPayload (ord_id d) (ord_status d))
      else None)"

definition announce_status ::
  "invocation \<Rightarrow> access_context \<Rightarrow> string \<Rightarrow> order \<Rightarrow> db \<Rightarrow> db result" where
  "announce_status iv context previous_status d s =
     (if ord_status d = previous_status then Inr s
      else case status_event d of None \<Rightarrow> Inr s
        | Some (ty, payload) \<Rightarrow>
            bindR (append_command_event iv ty (ac_organization_id context) (ord_restaurant_id d)
                ''order'' (ord_id d) (ord_revision d) payload s) (\<lambda>(_, s1). Inr s1))"

text \<open>Replacing the lines of an order deletes the old rows (\<open>delete-orphan\<close>) and inserts new ones.\<close>

definition store_lines :: "int \<Rightarrow> order_item list \<Rightarrow> db \<Rightarrow> db" where
  "store_lines order_id lines s =
     s\<lparr>order_items := delete_where (\<lambda>i. oi_order_id i = order_id) (order_items s)
         @ attach_items order_id (next_serial s) lines,
       next_serial := next_serial s + int (length lines)\<rparr>"

text \<open>The column \<open>updated_at\<close> has \<open>onupdate=datetime.utcnow\<close>: it moves when a column of the row changed.\<close>

definition stamp_update :: "invocation \<Rightarrow> order \<Rightarrow> order \<Rightarrow> order" where
  "stamp_update iv before after =
     (if after \<noteq> before then after\<lparr>ord_updated_at := Naive (iv_now iv)\<rparr> else after)"

definition revise :: "order \<Rightarrow> order_item list \<Rightarrow> order \<Rightarrow> order_item list \<Rightarrow> int result" where
  "revise d items d' lines =
     (if order_state d' lines \<noteq> order_state d items then next_order_revision (ord_revision d')
      else Inr (ord_revision d'))"

definition audit_update ::
  "invocation \<Rightarrow> access_context \<Rightarrow> update_order_command \<Rightarrow> order \<Rightarrow> db \<Rightarrow> db" where
  "audit_update iv context command d s =
     record_audit iv context ''order.updated'' ''order'' (py_str_int (ord_id d))
       (Some (ord_restaurant_id d))
       [(''fields'', JList (map JStr (sort (remdups (uo_fields command))))),
        (''status'', JStr (ord_status d)), (''payment_status'', JStr (ord_payment_status d)),
        (''total'', JDec (ord_total d))] s"

definition update_order ::
  "invocation \<Rightarrow> int \<Rightarrow> update_order_command \<Rightarrow> db \<Rightarrow> (order \<times> db) result" where
  "update_order iv order_id command s =
     bindR (current s (iv_user_id iv)) (\<lambda>context.
     or_raise (order_by_id s context order_id) order_not_found (\<lambda>d.
     bindR (authorize_order_update context (uo_fields command) (ord_status d) (uo_status command)) (\<lambda>_.
     bindR (update_status iv context d (items_of s order_id) (uo_status command) s) (\<lambda>(d1, s1).
     bindR (update_details command d1) (\<lambda>d2.
     bindR (update_items context d2 (items_of s order_id) (uo_items command) s1) (\<lambda>(d3, lines).
     bindR (revise d (items_of s order_id) d3 lines) (\<lambda>revision.
     raise_if (uo_items command \<noteq> None
         \<and> \<not> list_all money_column_ok (ord_total d3 # map oi_line_total lines)) money_overflow (
     let d4 = stamp_update iv d (d3\<lparr>ord_revision := revision\<rparr>);
         s2 = (if uo_items command = None then s1 else store_lines order_id lines s1) in
     bindR (announce_status iv context (ord_status d) d4
         (audit_update iv context command d4 (save_order d4 s2))) (\<lambda>s3.
     Inr (d4, s3))))))))))"

text \<open>
  Deletion: the lines go with the order, and the idempotency record loses its reference
  (\<open>ON DELETE SET NULL\<close>).
\<close>

definition delete_order :: "invocation \<Rightarrow> int \<Rightarrow> db \<Rightarrow> db result" where
  "delete_order iv order_id s =
     bindR (current s (iv_user_id iv)) (\<lambda>context.
     or_raise (order_by_id s context order_id) order_not_found (\<lambda>d.
     require_capability context ''order.delete'' (
     raise_if (has_order_history s order_id)
       (ConflictError ''Orders with inventory history cannot be deleted'') (
     let s1 = record_audit iv context ''order.deleted'' ''order'' (py_str_int order_id)
                (Some (ord_restaurant_id d))
                [(''status'', JStr (ord_status d)), (''total'', JDec (ord_total d))] s in
     bindR (next_order_revision (ord_revision d)) (\<lambda>revision.
     bindR (append_command_event iv Order_Deleted (ac_organization_id context) (ord_restaurant_id d)
         ''order'' (ord_id d) revision
         (OrderDeletedPayload (ord_id d) (ord_status d) (Finite (ord_total d)) (ord_created_at d)) s1)
       (\<lambda>(_, s2).
     Inr (s2\<lparr>orders := delete_where (\<lambda>x. ord_id x = order_id) (orders s2),
             order_items := delete_where (\<lambda>i. oi_order_id i = order_id) (order_items s2),
             order_submissions := update_where (\<lambda>x. sub_order_id x = Some order_id)
               (\<lambda>x. x\<lparr>sub_order_id := None\<rparr>) (order_submissions s2)\<rparr>)))))))"

end
