(* ===== verification/Order_Stock.thy ===== *)
theory Order_Stock
  imports Orders
begin

text \<open>
  Stock consumption of order acceptance: the requirement of an order is the exact sum of recipe
  quantities times portions, the availability check covers it, and the consumption loop takes
  precisely that from every ingredient while keeping the inventory invariant.
\<close>

section \<open>The transition writer does not look at the ledger\<close>

lemma append_command_event_add_movement:
  "append_command_event iv ty org rid aty aid rvn p (add_movement m s) =
     bindR (append_command_event iv ty org rid aty aid rvn p s) (\<lambda>(e, t). Inr (e, add_movement m t))"
proof -
  have r: "restaurant_matches_organization (s\<lparr>movements := x, next_serial := y, next_uuid := z\<rparr>) =
      restaurant_matches_organization (s\<lparr>next_uuid := z\<rparr>)" for x y z
    by (intro ext) (simp add: restaurant_matches_organization_def)
  show ?thesis
    by (simp add: append_command_event_def append_event_def add_movement_def bindR_def raise_if_def Let_def r
        split: sum.splits)
qed

lemma episode_boundary_add_movement:
  "episode_boundary iv before after source actor oid (add_movement m s) =
     bindR (episode_boundary iv before after source actor oid s)
       (\<lambda>(e, f, t). Inr (e, f, add_movement m t))"
proof -
  have "open_episode (add_movement m s) i = open_episode s i" for i
    by (simp add: open_episode_def add_movement_def)
  then show ?thesis
    by (simp add: episode_boundary_def Let_def bindR_def raise_if_def add_movement_def add_episode_def
        save_episode_def split: sum.splits option.splits)
qed

lemma announce_add_movement:
  "announce_transition iv tr (add_movement m s) =
     bindR (announce_transition iv tr s) (\<lambda>t. Inr (add_movement m t))"
  by (auto simp: announce_transition_def Let_def append_command_event_add_movement bindR_def or_raise_def
      split: sum.splits option.splits)

lemma record_transition_add_movement:
  "record_inventory_transition iv org item bal before source actor oid (add_movement m s) =
     bindR (record_inventory_transition iv org item bal before source actor oid s)
       (\<lambda>(tr, t). Inr (tr, add_movement m t))"
proof -
  have "save_ingredient i (add_movement m s) = add_movement m (save_ingredient i s)" for i
    by (simp add: save_ingredient_def add_movement_def)
  then show ?thesis
    by (auto simp: record_inventory_transition_def Let_def episode_boundary_add_movement
        announce_add_movement bindR_def split: sum.splits)
qed

section \<open>Consuming one row\<close>

definition row_ok :: "db \<Rightarrow> int \<Rightarrow> ingredient \<times> balance \<times> dec \<Rightarrow> bool" where
  "row_ok s rid row = (case row of (ing, bal, required) \<Rightarrow>
     stock_at s (ing_id ing) = Some (ing, bal) \<and> ing_restaurant_id ing = rid \<and> ing_is_active ing
     \<and> 0 < required \<and> has_places 3 required \<and> required \<le> bal_quantity bal)"

lemma consume_row_Inr:
  assumes "consume_row iv ctx oid (ing, bal, required) s = Inr t"
  obtains tr s1 bal1 m where
    "bal1 = bal\<lparr>bal_quantity := bal_quantity bal - required, bal_version := bal_version bal + 1\<rparr>"
    "m = consumption_movement iv ctx oid ing bal required (next_serial s)"
    "t = add_movement m s1"
    "record_inventory_transition iv (ac_organization_id ctx) ing bal1
       (Some (inventory_state_snapshot (ac_organization_id ctx) ing bal)) ''order_acceptance''
       (Some (ac_user_id ctx)) (Some oid) (add_movement m (save_balance bal1 s)) = Inr (tr, t)"
proof -
  from assms obtain tr s1 where rec: "record_inventory_transition iv (ac_organization_id ctx) ing
      (bal\<lparr>bal_quantity := bal_quantity bal - required, bal_version := bal_version bal + 1\<rparr>)
      (Some (inventory_state_snapshot (ac_organization_id ctx) ing bal)) ''order_acceptance''
      (Some (ac_user_id ctx)) (Some oid) (save_balance (bal\<lparr>bal_quantity := bal_quantity bal - required,
        bal_version := bal_version bal + 1\<rparr>) s) = Inr (tr, s1)"
    and t: "t = add_movement (consumption_movement iv ctx oid ing bal required (next_serial s1)) s1"
    by (auto simp: consume_row_def Let_def res_simps)
  have "next_serial s1 = next_serial s"
    using record_transition_frame [OF rec] by (simp add: save_balance_def)
  with t have t': "t = add_movement (consumption_movement iv ctx oid ing bal required (next_serial s)) s1"
    by simp
  show ?thesis
    by (rule that [OF refl refl t']) (simp add: record_transition_add_movement rec t')
qed

lemma consume_row_shape:
  assumes inv: "inventory_inv s" and row: "row_ok s rid (ing, bal, required)"
    and bal1: "bal1 = bal\<lparr>bal_quantity := bal_quantity bal - required, bal_version := bal_version bal + 1\<rparr>"
    and m: "m = consumption_movement iv ctx oid ing bal required (next_serial s)"
  shows "stock_command s (ing_id ing) ing bal ing bal1 [m] (add_movement m (save_balance bal1 s))"
proof -
  have sinv: "stock_inv s" using inv by (simp add: inventory_inv_def)
  have at: "stock_at s (ing_id ing) = Some (ing, bal)" using row by (simp add: row_ok_def)
  note ok = stock_at_ok [OF sinv at]
  have "quantity_valid (bal_quantity bal - required)"
    using row ok by (auto simp: row_ok_def quantity_valid_def intro: has_places_diff)
  moreover have "movement_check m"
    using row ok by (auto simp: m consumption_movement_def movement_check_def row_ok_def
        quantity_valid_def max_quantity_def)
  moreover have "keyed_movements (add_movement m (save_balance bal1 s)) = keyed_movements s"
    by (simp add: keyed_movements_def add_movement_def save_balance_def m consumption_movement_def)
  ultimately show ?thesis
    using at ok sinv stock_at_store_same(1) [OF sinv at] names_differ [OF sinv at]
    by (auto simp: stock_command_def bal1 m consumption_movement_def add_movement_def save_balance_def
        stock_inv_def)
qed

text \<open>Tables that consumption leaves alone.\<close>

definition same_business :: "db \<Rightarrow> db \<Rightarrow> bool" where
  "same_business s t = (restaurants t = restaurants s \<and> orders t = orders s
     \<and> order_items t = order_items s \<and> order_submissions t = order_submissions s
     \<and> menu_items t = menu_items s \<and> menus t = menus s
     \<and> recipe_components t = recipe_components s \<and> memberships t = memberships s
     \<and> organizations t = organizations s \<and> restaurant_assignments t = restaurant_assignments s
     \<and> users t = users s)"

lemma same_business_refl [simp]: "same_business s s"
  by (simp add: same_business_def)

lemma same_business_trans: "same_business s t \<Longrightarrow> same_business t u \<Longrightarrow> same_business s u"
  by (simp add: same_business_def)

text \<open>The effect of consuming one row.\<close>

lemma consume_row_effect:
  assumes c: "consume_row iv ctx oid (ing, bal, required) s = Inr t"
    and inv: "inventory_inv s" and row: "row_ok s rid (ing, bal, required)"
  shows "inventory_inv t" "same_business s t" "ledger_extends s t"
    "\<exists>ing1. stock_at t (ing_id ing) = Some (ing1, bal\<lparr>bal_quantity := bal_quantity bal - required,
        bal_version := bal_version bal + 1\<rparr>) \<and> ing_is_active ing1
        \<and> ing_reorder_threshold ing1 = ing_reorder_threshold ing"
    "\<And>j. j \<noteq> ing_id ing \<Longrightarrow> stock_at t j = stock_at s j"
    "movements t = movements s @ [consumption_movement iv ctx oid ing bal required (next_serial s)]"
    "episodes_complete s \<Longrightarrow> episodes_complete t"
proof -
  obtain tr s1 bal1 m where
    bal1: "bal1 = bal\<lparr>bal_quantity := bal_quantity bal - required, bal_version := bal_version bal + 1\<rparr>"
    and m: "m = consumption_movement iv ctx oid ing bal required (next_serial s)"
    and rec: "record_inventory_transition iv (ac_organization_id ctx) ing bal1
       (Some (inventory_state_snapshot (ac_organization_id ctx) ing bal)) ''order_acceptance''
       (Some (ac_user_id ctx)) (Some oid) (add_movement m (save_balance bal1 s)) = Inr (tr, t)"
    using consume_row_Inr [OF c] by metis
  note shape = consume_row_shape [OF inv row bal1 m]
  show "inventory_inv t"
    by (rule stock_command_keeps [OF shape inv rec]) (simp add: source_ok_def episode_sources_def)
  show "episodes_complete t" if "episodes_complete s"
    by (rule stock_command_complete [OF shape inv rec that])
  show "ledger_extends s t"
    by (rule stock_command_extends [OF shape inv rec]) (simp add: add_movement_def save_balance_def)
  show "same_business s t" "movements t = movements s @ [consumption_movement iv ctx oid ing bal required (next_serial s)]"
    using record_transition_frame [OF rec]
    by (auto simp: same_business_def add_movement_def save_balance_def m)
  obtain item1 where item1: "item1 = ing\<lparr>ing_state_revision :=
       (if tr = None then ing_state_revision ing else ing_state_revision ing + 1)\<rparr>"
    and at: "\<And>j. stock_at t j = (if j = ing_id ing then Some (item1, bal1) else stock_at s j)"
    using stock_command_stock [OF shape inv rec] by metis
  show "\<exists>ing1. stock_at t (ing_id ing) = Some (ing1, bal\<lparr>bal_quantity := bal_quantity bal - required,
        bal_version := bal_version bal + 1\<rparr>) \<and> ing_is_active ing1
        \<and> ing_reorder_threshold ing1 = ing_reorder_threshold ing"
    using at row by (simp add: item1 bal1 row_ok_def)
  show "\<And>j. j \<noteq> ing_id ing \<Longrightarrow> stock_at t j = stock_at s j" using at by simp
qed

section \<open>The consumption loop\<close>

definition quantity_at :: "db \<Rightarrow> int \<Rightarrow> dec" where
  "quantity_at s i = (case stock_at s i of None \<Rightarrow> 0 | Some (_, bal) \<Rightarrow> bal_quantity bal)"

definition row_id :: "ingredient \<times> balance \<times> dec \<Rightarrow> int" where
  "row_id row = ing_id (fst row)"

definition row_required :: "ingredient \<times> balance \<times> dec \<Rightarrow> dec" where
  "row_required row = snd (snd row)"

definition taken :: "(ingredient \<times> balance \<times> dec) list \<Rightarrow> int \<Rightarrow> dec" where
  "taken rows i = sum_list (map row_required (filter (\<lambda>r. row_id r = i) rows))"

definition consumption_of :: "int \<Rightarrow> ingredient \<times> balance \<times> dec \<Rightarrow> movement \<Rightarrow> bool" where
  "consumption_of oid row m = (mov_ingredient_id m = row_id row \<and> mov_kind m = ''consumption''
     \<and> mov_order_id m = Some oid \<and> mov_quantity_delta m = - row_required row)"

lemma row_ok_other:
  assumes "row_ok s rid row" and "stock_at t (row_id row) = stock_at s (row_id row)"
  shows "row_ok t rid row"
  using assms by (auto simp: row_ok_def row_id_def split: prod.splits)

lemma consume_rows_effect:
  assumes "for_each (consume_row iv ctx oid) rows s = Inr t" "inventory_inv s"
    "\<forall>row \<in> set rows. row_ok s rid row" "distinct (map row_id rows)"
  shows "inventory_inv t \<and> same_business s t \<and> ledger_extends s t
    \<and> (episodes_complete s \<longrightarrow> episodes_complete t)
    \<and> (\<forall>j. quantity_at t j = quantity_at s j - taken rows j)
    \<and> (\<exists>ms. movements t = movements s @ ms \<and> list_all2 (consumption_of oid) rows ms)"
  using assms
proof (induction rows arbitrary: s)
  case Nil
  then show ?case by (auto simp: taken_def intro!: exI [of _ "[]"])
next
  case (Cons row rows)
  obtain ing bal required where row: "row = (ing, bal, required)" by (cases row)
  from Cons.prems(1) obtain u where u: "consume_row iv ctx oid (ing, bal, required) s = Inr u"
    "for_each (consume_row iv ctx oid) rows u = Inr t" by (auto simp: row res_simps)
  have ok: "row_ok s rid (ing, bal, required)" using Cons.prems(3) by (simp add: row)
  note eff = consume_row_effect [OF u(1) Cons.prems(2) ok]
  have id: "row_id row = ing_id ing" by (simp add: row row_id_def)
  have "\<forall>r \<in> set rows. row_ok u rid r"
  proof
    fix r
    assume r: "r \<in> set rows"
    then have "row_id r \<noteq> ing_id ing" using Cons.prems(4) id by force
    then show "row_ok u rid r" using Cons.prems(3) r eff(5) row_ok_other [of s rid r u] by auto
  qed
  from Cons.IH [OF u(2) eff(1) this] Cons.prems(4)
  have ih: "inventory_inv t" "same_business u t" "ledger_extends u t"
    "episodes_complete u \<longrightarrow> episodes_complete t"
    "\<forall>j. quantity_at t j = quantity_at u j - taken rows j"
    "\<exists>ms. movements t = movements u @ ms \<and> list_all2 (consumption_of oid) rows ms" by auto
  have q: "quantity_at u j = quantity_at s j - (if j = ing_id ing then required else 0)" for j
  proof (cases "j = ing_id ing")
    case True
    then show ?thesis using eff(4) ok by (auto simp: quantity_at_def row_ok_def)
  next
    case False
    then show ?thesis using eff(5) by (simp add: quantity_at_def)
  qed
  have "taken (row # rows) j = (if j = ing_id ing then required else 0) + taken rows j" for j
    by (simp add: taken_def row row_id_def row_required_def)
  then have quant: "\<forall>j. quantity_at t j = quantity_at s j - taken (row # rows) j"
    using ih(5) q by (auto simp: algebra_simps)
  obtain ms where ms: "movements t = movements u @ ms" "list_all2 (consumption_of oid) rows ms"
    using ih(6) by blast
  let ?m = "consumption_movement iv ctx oid ing bal required (next_serial s)"
  have "movements t = movements s @ (?m # ms)" using ms(1) eff(6) by simp
  moreover have "list_all2 (consumption_of oid) (row # rows) (?m # ms)"
    using ms(2) by (simp add: consumption_of_def consumption_movement_def row row_id_def row_required_def)
  ultimately show ?case
    using ih(1-4) eff(2,3,7) quant same_business_trans ledger_extends_trans by blast
qed

section \<open>Requirements\<close>

definition req_of :: "(int \<times> dec) list \<Rightarrow> int \<Rightarrow> dec" where
  "req_of rs i = sum_list (map snd (filter (\<lambda>r. fst r = i) rs))"

text \<open>The specification: recipe quantity times portions, summed over the tracked menu items.\<close>

definition component_sum :: "(recipe_component \<times> ingredient) list \<Rightarrow> dec \<Rightarrow> int \<Rightarrow> dec" where
  "component_sum cs portions i =
     sum_list (map (\<lambda>(c, g). rc_quantity c * portions) (filter (\<lambda>(c, g). ing_id g = i) cs))"

definition required :: "db \<Rightarrow> order_item list \<Rightarrow> int list \<Rightarrow> int \<Rightarrow> dec" where
  "required s items tracked i =
     sum_list (map (\<lambda>mid. component_sum (get_recipe_components s mid)
       (of_int (portions_of items mid)) i) tracked)"

lemma req_of_add [simp]: "req_of (add_requirement i q rs) j = req_of rs j + (if i = j then q else 0)"
  by (induction rs) (auto simp: req_of_def algebra_simps)

lemma keys_add: "fst ` set (add_requirement i q rs) = insert i (fst ` set rs)"
  by (induction rs) auto

lemma distinct_add: "distinct (map fst rs) \<Longrightarrow> distinct (map fst (add_requirement i q rs))"
  by (induction rs) (use keys_add in \<open>auto simp: image_iff\<close>)

definition reqs_ok :: "(int \<times> dec) list \<Rightarrow> bool" where
  "reqs_ok rs = (distinct (map fst rs) \<and> (\<forall>r \<in> set rs. 0 < snd r \<and> has_places 3 (snd r)))"

lemma reqs_ok_add: "reqs_ok rs \<Longrightarrow> 0 < q \<Longrightarrow> has_places 3 q \<Longrightarrow> reqs_ok (add_requirement i q rs)"
proof -
  assume a: "reqs_ok rs" "0 < q" "has_places 3 q"
  have "\<forall>r \<in> set (add_requirement i q rs). 0 < snd r \<and> has_places 3 (snd r)"
    if "\<forall>r \<in> set rs. 0 < snd r \<and> has_places 3 (snd r)" for rs
    using that a(2,3) by (induction rs) (auto intro: has_places_add add_pos_pos)
  then show "reqs_ok (add_requirement i q rs)" using a(1) distinct_add by (auto simp: reqs_ok_def)
qed

text \<open>Recipe quantities are valid and positive.\<close>

definition recipe_inv :: "db \<Rightarrow> bool" where
  "recipe_inv s = (\<forall>c \<in> set (recipe_components s). 0 < rc_quantity c \<and> quantity_valid (rc_quantity c))"

lemma get_recipe_components_member:
  assumes "(c, g) \<in> set (get_recipe_components s mid)"
  shows "c \<in> set (recipe_components s) \<and> rc_menu_item_id c = mid
    \<and> by_key ing_id (rc_ingredient_id c) (ingredients s) = Some g"
  using assms by (auto simp: get_recipe_components_def List.map_filter_def)

lemma require_components:
  assumes "for_each (require_component rid (of_int n)) cs rs = Inr rs'" "0 < n" "reqs_ok rs"
    and "\<forall>(c, g) \<in> set cs. 0 < rc_quantity c \<and> quantity_valid (rc_quantity c)"
  shows "reqs_ok rs' \<and> (\<forall>i. req_of rs' i = req_of rs i + component_sum cs (of_int n) i)
    \<and> fst ` set rs' = fst ` set rs \<union> (\<lambda>x. ing_id (snd x)) ` set cs
    \<and> (\<forall>x \<in> set cs. ing_restaurant_id (snd x) = rid)"
  using assms
proof (induction cs arbitrary: rs)
  case Nil
  then show ?case by (simp add: component_sum_def)
next
  case (Cons x cs)
  obtain c g where x: "x = (c, g)" by (cases x)
  let ?q = "rc_quantity c * of_int n"
  from Cons.prems(1) obtain u where u: "require_component rid (of_int n) (c, g) rs = Inr u"
    "for_each (require_component rid (of_int n)) cs u = Inr rs'" by (auto simp: x res_simps)
  from u(1) have g: "ing_restaurant_id g = rid" and "u = add_requirement (ing_id g) ?q rs"
    by (auto simp: require_component_def Let_def res_simps)
  with u(2) have step:
    "for_each (require_component rid (of_int n)) cs (add_requirement (ing_id g) ?q rs) = Inr rs'" by simp
  have "0 < ?q" "has_places 3 ?q"
    using Cons.prems(2,4) by (auto simp: x quantity_valid_def intro: has_places_mult_int)
  then have "reqs_ok (add_requirement (ing_id g) ?q rs)" by (rule reqs_ok_add [OF Cons.prems(3)])
  from Cons.IH [OF step Cons.prems(2) this] Cons.prems(4) g show ?case
    by (auto simp: x component_sum_def keys_add)
qed

lemma require_menu_items:
  assumes "for_each (require_menu_item s rid items) mids (rs, ms) = Inr (rs', [])" "reqs_ok rs"
    and "\<forall>m \<in> set mids. 0 < portions_of items m" "recipe_inv s"
  shows "ms = [] \<and> reqs_ok rs' \<and> (\<forall>i. req_of rs' i = req_of rs i + required s items mids i)"
  using assms
proof (induction mids arbitrary: rs ms)
  case Nil
  then show ?case by (simp add: required_def)
next
  case (Cons m mids)
  let ?cs = "get_recipe_components s m"
  from Cons.prems(1) obtain u v where u: "require_menu_item s rid items m (rs, ms) = Inr (u, v)"
    "for_each (require_menu_item s rid items) mids (u, v) = Inr (rs', [])"
    by (auto simp: res_simps)
  have pos: "\<forall>(c, g) \<in> set ?cs. 0 < rc_quantity c \<and> quantity_valid (rc_quantity c)"
    using Cons.prems(4) get_recipe_components_member by (fastforce simp: recipe_inv_def)
  show ?case
  proof (cases "?cs = []")
    case True
    then have uv: "u = rs" "v = ms @ [m]" using u(1) by (auto simp: require_menu_item_def Let_def)
    with Cons.IH [OF u(2)] Cons.prems show ?thesis by auto
  next
    case False
    then have v: "v = ms" and f: "for_each (require_component rid (of_int (portions_of items m))) ?cs rs = Inr u"
      using u(1) by (auto simp: require_menu_item_def Let_def res_simps)
    have r: "reqs_ok u" "\<And>i. req_of u i = req_of rs i + component_sum ?cs (of_int (portions_of items m)) i"
      using require_components [OF f _ Cons.prems(2) pos] Cons.prems(3) by auto
    from Cons.IH [OF u(2) r(1)] Cons.prems(3,4) v r(2) show ?thesis
      by (auto simp: required_def)
  qed
qed

section \<open>Stock rows\<close>

lemma sum_list_positive: "xs \<noteq> [] \<Longrightarrow> (\<And>q. q \<in> set xs \<Longrightarrow> 0 < q) \<Longrightarrow> 0 < sum_list (xs :: int list)"
proof (induction xs)
  case (Cons q qs)
  then show ?case by (cases "qs = []") (auto intro: add_pos_pos)
qed simp

lemma portions_of_positive:
  assumes "\<forall>i \<in> set items. 0 < oi_quantity i" "x \<in> set items" "oi_menu_item_id x = Some m"
  shows "0 < portions_of items m"
  unfolding portions_of_def
  by (rule sum_list_positive) (use assms in \<open>auto simp: filter_empty_conv\<close>)

lemma inventory_balances_member:
  assumes "stock_inv s" and "by_key (\<lambda>r. ing_id (fst r)) i (inventory_balances s scope rid ids) = Some (ing, bal)"
  shows "stock_at s i = Some (ing, bal) \<and> ing_restaurant_id ing = rid"
proof -
  have m: "(ing, bal) \<in> set (inventory_balances s scope rid ids)" "ing_id ing = i"
    using by_key_Some [OF assms(2)] by auto
  then have "ing \<in> set (ingredients s)" "ing_restaurant_id ing = rid" "with_balance s ing = Some (ing, bal)"
    by (auto simp: inventory_balances_def List.map_filter_def with_balance_def split: if_splits)
  then show ?thesis using by_key_member [of ing_id "ingredients s" ing] assms(1) m(2)
    by (auto simp: stock_inv_def with_balance_def stock_at_Some)
qed

lemma all_results_Inr: "all_results rs = Inr xs \<longleftrightarrow> rs = map Inr xs"
proof (induction rs arbitrary: xs)
  case (Cons r rs)
  then show ?case by (cases r; cases xs) (auto simp: res_simps)
qed auto

text \<open>The tracked menu items among the lines.\<close>

definition tracked_items :: "db \<Rightarrow> access_context \<Rightarrow> int \<Rightarrow> order_item list \<Rightarrow> int list" where
  "tracked_items s scope rid items =
     sort (map mi_id (filter mi_inventory_tracking
       (menu_items_for_restaurant s scope rid (sort (remdups (List.map_filter oi_menu_item_id items))))))"

lemma tracked_items_portions:
  assumes "\<forall>i \<in> set items. 0 < oi_quantity i" "m \<in> set (tracked_items s scope rid items)"
  shows "0 < portions_of items m"
proof -
  have "m \<in> set (List.map_filter oi_menu_item_id items)"
    using assms(2) by (auto simp: tracked_items_def menu_items_for_restaurant_def)
  then obtain x where "x \<in> set items" "oi_menu_item_id x = Some m"
    by (auto simp: List.map_filter_def)
  then show ?thesis using portions_of_positive [OF assms(1)] by blast
qed

lemma stock_rows_Inr:
  assumes "stock_rows s scope rid items = Inr rows"
  obtains (untracked) "rows = []" "tracked_items s scope rid items = []"
  | (tracked) rs where
      "for_each (require_menu_item s rid items) (tracked_items s scope rid items) ([], []) = Inr (rs, [])"
      "\<not> list_ex (shortage s (inventory_balances s scope rid (map fst (sort_key fst rs)))) (sort_key fst rs)"
      "all_results (map (stock_row (inventory_balances s scope rid (map fst (sort_key fst rs))))
         (sort_key fst rs)) = Inr rows"
proof (cases "sort (remdups (List.map_filter oi_menu_item_id items)) = []
    \<or> tracked_items s scope rid items = []")
  case True
  have "tracked_items s scope rid items = []"
  proof (cases "tracked_items s scope rid items = []")
    case False
    with True have ids: "sort (remdups (List.map_filter oi_menu_item_id items)) = []" by simp
    show ?thesis unfolding tracked_items_def ids by (simp add: menu_items_for_restaurant_def)
  qed
  moreover have "rows = []"
    using assms True calculation
    by (auto simp: stock_rows_def Let_def res_simps tracked_items_def split: if_splits)
  ultimately show ?thesis using untracked by blast
next
  case False
  with assms show ?thesis
    by (auto simp: stock_rows_def Let_def res_simps tracked_items_def intro: tracked split: if_splits)
qed

text \<open>
  A granted stock check returns, for exactly the ingredients the order needs, the present row and
  the exact requirement, which the balance covers.
\<close>

lemma stock_rows_ok:
  assumes "stock_rows s scope rid items = Inr rows" and inv: "stock_inv s" and rinv: "recipe_inv s"
    and pos: "\<forall>i \<in> set items. 0 < oi_quantity i"
  shows "(\<forall>row \<in> set rows. row_ok s rid row) \<and> distinct (map row_id rows)
    \<and> (\<forall>i. taken rows i = required s items (tracked_items s scope rid items) i)"
  using assms(1)
proof (cases rule: stock_rows_Inr)
  case untracked
  then show ?thesis by (simp add: taken_def required_def)
next
  case (tracked rs)
  let ?t = "tracked_items s scope rid items" and ?srs = "sort_key fst rs"
  let ?bal = "inventory_balances s scope rid (map fst ?srs)"
  have r: "reqs_ok rs" "\<And>i. req_of rs i = required s items ?t i"
    using require_menu_items [OF tracked(1) _ _ rinv] tracked_items_portions [OF pos]
    by (auto simp: reqs_ok_def req_of_def)
  have rows: "map (stock_row ?bal) ?srs = map Inr rows" using tracked(3) by (simp add: all_results_Inr)
  then have len: "length ?srs = length rows" by (metis length_map)
  have nth: "stock_row ?bal (?srs ! k) = Inr (rows ! k)" if "k < length rows" for k
    using rows that len by (metis nth_map)
  have one: "row_ok s rid (rows ! k) \<and> row_id (rows ! k) = fst (?srs ! k)
      \<and> row_required (rows ! k) = snd (?srs ! k)" if k: "k < length rows" for k
  proof -
    let ?rq = "?srs ! k"
    have mem: "?rq \<in> set rs" using k len by (metis nth_mem set_sort)
    obtain ing bal where b: "by_key (\<lambda>r. ing_id (fst r)) (fst ?rq) ?bal = Some (ing, bal)"
      and row: "rows ! k = (ing, bal, snd ?rq)"
      using nth [OF k] by (auto simp: stock_row_def res_simps)
    have at: "stock_at s (fst ?rq) = Some (ing, bal)" "ing_restaurant_id ing = rid"
      using inventory_balances_member [OF inv b] by auto
    then have id: "ing_id ing = fst ?rq" using stock_at_ids by blast
    have rq: "0 < snd ?rq" "has_places 3 (snd ?rq)" using r(1) mem by (auto simp: reqs_ok_def)
    have "?rq \<in> set ?srs" using k len by (metis nth_mem)
    then have "\<not> shortage s ?bal ?rq" using tracked(2) by (auto simp: list_ex_iff)
    then have "ing_is_active ing" "snd ?rq \<le> bal_quantity bal"
      using at(1) rq(1) b by (auto simp: shortage_def Let_def stock_at_Some split: if_splits)
    then show ?thesis using at id rq row by (simp add: row_ok_def row_id_def row_required_def)
  qed
  have ids: "map row_id rows = map fst ?srs" "map row_required rows = map snd ?srs"
    using one len by (auto intro!: nth_equalityI)
  have dist: "distinct (map row_id rows)"
  proof -
    have "mset (map fst ?srs) = mset (map fst rs)" by simp
    then show ?thesis unfolding ids using r(1) by (metis mset_eq_imp_distinct_iff reqs_ok_def)
  qed
  have "taken rows i = req_of rs i" for i
  proof -
    have "map row_id rows' = map fst xs \<Longrightarrow> map row_required rows' = map snd xs \<Longrightarrow>
      sum_list (map row_required (filter (\<lambda>r. row_id r = i) rows')) =
      sum_list (map snd (filter (\<lambda>r. fst r = i) xs))" for rows' and xs :: "(int \<times> dec) list"
      by (induction rows' arbitrary: xs) (auto simp: map_eq_Cons_conv)
    then have "taken rows i = sum_list (map snd (filter (\<lambda>r. fst r = i) ?srs))"
      using ids by (simp add: taken_def)
    also have "\<dots> = sum_list (map snd (filter (\<lambda>r. fst r = i) rs))"
    proof -
      have "mset (map snd (filter (\<lambda>r. fst r = i) ?srs)) = mset (map snd (filter (\<lambda>r. fst r = i) rs))"
        by simp
      then show ?thesis by (metis sum_mset_sum_list)
    qed
    also have "\<dots> = req_of rs i" by (simp add: req_of_def)
    finally show ?thesis .
  qed
  moreover have "\<forall>row \<in> set rows. row_ok s rid row" using one by (metis in_set_conv_nth)
  ultimately show ?thesis using dist r(2) by simp
qed

end
