(* ===== verification/Order_Lifecycle.thy ===== *)
theory Order_Lifecycle
  imports Order_Stock
begin

text \<open>
  The order service as a state machine: what an accepted create, update or delete does to the
  orders, the lines, the stock and the outbox, the invariant of the order tables, and the
  properties of the lifecycle.
\<close>

section \<open>What the parts of an update do\<close>

lemma update_status_Inr:
  assumes "update_status iv ctx d items status s = Inr (d1, s1)" and "ord_status d \<in> set order_statuses"
  obtains (kept) st where "s1 = s" "d1 = d\<lparr>ord_status := st\<rparr>"
      "st = ord_status d \<or> st \<in> set (allowed_next (ord_status d))"
      "st = ''ACCEPTED'' \<longrightarrow> ord_status d = ''ACCEPTED''"
  | (accepted) "ord_status d = ''SUBMITTED''" "consume_order_stock iv ctx d items s = Inr s1"
      "d1 = d\<lparr>ord_inventory_processed := True, ord_status := ''ACCEPTED''\<rparr>"
proof (cases status)
  case None
  with assms(1) kept [of "ord_status d"] show ?thesis by (simp add: update_status_def)
next
  case (Some requested)
  with assms(1) obtain st where st: "ensure_valid_order_transition (ord_status d) requested = Inr st"
    and rest: "(if st = ''SUBMITTED'' then
            check_stock s ctx (ord_restaurant_id d) items (Inr (d\<lparr>ord_status := st\<rparr>, s))
          else if ord_status d \<noteq> ''ACCEPTED'' \<and> st = ''ACCEPTED'' then
            bindR (consume_order_stock iv ctx d items s) (\<lambda>s1.
            Inr (d\<lparr>ord_inventory_processed := True, ord_status := st\<rparr>, s1))
          else Inr (d\<lparr>ord_status := st\<rparr>, s)) = Inr (d1, s1)"
    by (auto simp: update_status_def res_simps)
  have next_st: "st = ord_status d \<or> st \<in> set (allowed_next (ord_status d))"
    using transition_Inr [OF assms(2) st] .
  show ?thesis
  proof (cases "ord_status d \<noteq> ''ACCEPTED'' \<and> st = ''ACCEPTED''")
    case True
    then have "ord_status d = ''SUBMITTED''"
      using next_st assms(2) by (auto simp: status_table_defs)
    with True rest accepted show ?thesis by (auto simp: res_simps)
  next
    case False
    then have "s1 = s" "d1 = d\<lparr>ord_status := st\<rparr>"
      using rest by (auto simp: check_stock_def res_simps split: if_splits)
    with next_st False kept show ?thesis by auto
  qed
qed

lemma update_details_Inr:
  assumes "update_details command d = Inr d1"
  shows "ord_id d1 = ord_id d" "ord_restaurant_id d1 = ord_restaurant_id d" "ord_status d1 = ord_status d"
    "ord_subtotal d1 = ord_subtotal d" "ord_total d1 = ord_total d" "ord_revision d1 = ord_revision d"
    "ord_inventory_processed d1 = ord_inventory_processed d" "ord_created_at d1 = ord_created_at d"
    "ord_payment_status d \<in> set payment_statuses \<Longrightarrow> ord_payment_status d1 \<in> set payment_statuses"
proof -
  obtain d0 where d0: "(case uo_payment_status command of None \<Rightarrow> Inr d
      | Some p \<Rightarrow> bindR (ensure_valid_payment_status p) (\<lambda>v. Inr (d\<lparr>ord_payment_status := v\<rparr>))) = Inr d0"
    and d1: "d1 = d0\<lparr>
      ord_table_number := if uo_table_number command \<noteq> None then uo_table_number command else ord_table_number d0,
      ord_customer_name := if uo_customer_name command \<noteq> None then uo_customer_name command else ord_customer_name d0,
      ord_notes := if uo_notes command \<noteq> None then uo_notes command else ord_notes d0\<rparr>"
    using assms by (auto simp: update_details_def Let_def res_simps)
  have "d0 = d \<or> (\<exists>p. d0 = d\<lparr>ord_payment_status := p\<rparr> \<and> p \<in> set payment_statuses)"
    using d0 by (cases "uo_payment_status command") (auto simp: res_simps dest: ensure_valid_payment_status_known)
  then show "ord_id d1 = ord_id d" "ord_restaurant_id d1 = ord_restaurant_id d" "ord_status d1 = ord_status d"
    "ord_subtotal d1 = ord_subtotal d" "ord_total d1 = ord_total d" "ord_revision d1 = ord_revision d"
    "ord_inventory_processed d1 = ord_inventory_processed d" "ord_created_at d1 = ord_created_at d"
    "ord_payment_status d \<in> set payment_statuses \<Longrightarrow> ord_payment_status d1 \<in> set payment_statuses"
    by (auto simp: d1)
qed

lemma update_items_Inr:
  assumes "update_items ctx d items new_items s = Inr (d1, lines)"
  obtains (same) "new_items = None" "d1 = d" "lines = items"
  | (replaced) commands q where "new_items = Some commands" "normalize_order_status (ord_status d) = ''DRAFT''"
      "build_order_items s ctx (ord_restaurant_id d) commands = Inr (lines, q)"
      "d1 = d\<lparr>ord_subtotal := q, ord_total := q\<rparr>"
  using assms
  by (cases new_items) (auto simp: update_items_def check_stock_def res_simps)

lemma build_order_items_Inr:
  assumes "build_order_items s ctx rid commands = Inr (lines, subtotal)"
  shows "subtotal = sum_list (map oi_line_total lines)"
    "list_all2 (\<lambda>c l. oi_quantity l = oic_quantity c \<and> oi_line_total l = oi_unit_price l * of_int (oi_quantity l)
       \<and> (\<exists>i \<in> set (menu_items s). oi_menu_item_id l = Some (mi_id i) \<and> mi_id i = oic_menu_item_id c
            \<and> oi_unit_price l = mi_price i \<and> oi_item_name l = mi_name i \<and> mi_is_available i
            \<and> (\<exists>m. menu_of s i = Some m \<and> mnu_restaurant_id m = rid)))
       commands lines"
proof -
  let ?rows = "menu_items_for_restaurant s ctx rid (map oic_menu_item_id commands)"
  have b: "all_results (map (build_line ?rows) commands) = Inr lines"
      "subtotal = sum_list (map oi_line_total lines)" "list_all mi_is_available ?rows"
    using assms by (auto simp: build_order_items_def Let_def res_simps list_all_iff list_ex_iff)
  show "subtotal = sum_list (map oi_line_total lines)" by (rule b(2))
  have "build_line ?rows c = Inr l \<Longrightarrow> oi_quantity l = oic_quantity c
      \<and> oi_line_total l = oi_unit_price l * of_int (oi_quantity l)
      \<and> (\<exists>i \<in> set ?rows. oi_menu_item_id l = Some (mi_id i) \<and> mi_id i = oic_menu_item_id c
            \<and> oi_unit_price l = mi_price i \<and> oi_item_name l = mi_name i)" for c l
    by (auto simp: build_line_def res_simps dest: by_key_Some)
  moreover have "i \<in> set ?rows \<Longrightarrow> i \<in> set (menu_items s) \<and> mi_is_available i
      \<and> (\<exists>m. menu_of s i = Some m \<and> mnu_restaurant_id m = rid)" for i
    using b(3) by (auto simp: menu_items_for_restaurant_def list_all_iff split: option.splits)
  moreover have "list_all2 (\<lambda>c l. build_line ?rows c = Inr l) commands lines"
    using b(1) by (simp add: all_results_Inr list_all2_conv_all_nth list_eq_iff_nth_eq)
  ultimately show "list_all2 (\<lambda>c l. oi_quantity l = oic_quantity c \<and> oi_line_total l = oi_unit_price l * of_int (oi_quantity l)
       \<and> (\<exists>i \<in> set (menu_items s). oi_menu_item_id l = Some (mi_id i) \<and> mi_id i = oic_menu_item_id c
            \<and> oi_unit_price l = mi_price i \<and> oi_item_name l = mi_name i \<and> mi_is_available i
            \<and> (\<exists>m. menu_of s i = Some m \<and> mnu_restaurant_id m = rid)))
       commands lines"
    by (fast elim: list_all2_mono)
qed

text \<open>The lines of an accepted request have positive quantities.\<close>

lemma build_order_items_lines:
  assumes "build_order_items s ctx rid commands = Inr (lines, subtotal)" "order_items_request_ok commands"
    and "l \<in> set lines"
  shows "0 < oi_quantity l \<and> oi_line_total l = oi_unit_price l * of_int (oi_quantity l)"
proof -
  obtain k where "k < length lines" "l = lines ! k" using assms(3) by (metis in_set_conv_nth)
  then show ?thesis
    using build_order_items_Inr(2) [OF assms(1)] assms(2)
    by (auto simp: list_all2_conv_all_nth order_items_request_ok_def list_all_length)
qed

lemma announce_status_frame:
  assumes "announce_status iv ctx previous d s = Inr t"
  shows "events_only s t \<and> (outbox_inv s \<longrightarrow> outbox_inv t)"
  using assms events_only_append append_command_event_outbox_inv
  by (auto simp: announce_status_def res_simps split: if_splits option.splits)

section \<open>The order invariant\<close>

definition before_acceptance :: "string \<Rightarrow> bool" where
  "before_acceptance status = (status \<in> set [''DRAFT'', ''SUBMITTED''])"

definition after_acceptance :: "string \<Rightarrow> bool" where
  "after_acceptance status = (status \<in> set [''ACCEPTED'', ''PREPARING'', ''READY'', ''COMPLETED''])"

definition order_ok :: "db \<Rightarrow> order \<Rightarrow> bool" where
  "order_ok s d = (ord_id d < next_serial s \<and> ord_status d \<in> set order_statuses
     \<and> ord_payment_status d \<in> set payment_statuses \<and> 1 \<le> ord_revision d
     \<and> ord_subtotal d = sum_list (map oi_line_total (items_of s (ord_id d)))
     \<and> ord_total d = ord_subtotal d
     \<and> (before_acceptance (ord_status d) \<longrightarrow> \<not> ord_inventory_processed d)
     \<and> (after_acceptance (ord_status d) \<longrightarrow> ord_inventory_processed d))"

definition line_ok :: "db \<Rightarrow> order_item \<Rightarrow> bool" where
  "line_ok s l = (oi_order_id l \<in> ord_id ` set (orders s) \<and> 0 < oi_quantity l
     \<and> oi_line_total l = oi_unit_price l * of_int (oi_quantity l))"

text \<open>The consumption recorded for orders, as pairs of order and ingredient.\<close>

definition consumed_pairs :: "db \<Rightarrow> (int option \<times> int) list" where
  "consumed_pairs s = map (\<lambda>m. (mov_order_id m, mov_ingredient_id m))
     (filter (\<lambda>m. mov_order_id m \<noteq> None) (movements s))"

definition processed_order :: "db \<Rightarrow> int \<Rightarrow> bool" where
  "processed_order s oid = (\<exists>d \<in> set (orders s). ord_id d = oid \<and> ord_inventory_processed d)"

definition order_inv :: "db \<Rightarrow> bool" where
  "order_inv s = (unique_keys ord_id (orders s)
     \<and> (\<forall>d \<in> set (orders s). order_ok s d) \<and> (\<forall>l \<in> set (order_items s). line_ok s l)
     \<and> distinct (consumed_pairs s)
     \<and> (\<forall>oid. Some oid \<in> fst ` set (consumed_pairs s) \<longrightarrow> processed_order s oid)
     \<and> distinct (map (\<lambda>x. (sub_restaurant_id x, sub_idempotency_key x)) (order_submissions s)))"

interpretation order_repo: repository ord_id orders save_order
  by standard (simp add: save_order_def)

lemma order_by_id_Some:
  assumes "order_by_id s ctx oid = Some d"
  shows "d \<in> set (orders s)" "ord_id d = oid" "restaurant_exists s ctx (ord_restaurant_id d)"
  using select_one_Some [OF assms [unfolded order_by_id_def]] by (auto simp: order_in_scope_def)

lemma items_of_positive: "order_inv s \<Longrightarrow> \<forall>l \<in> set (items_of s oid). 0 < oi_quantity l"
  by (auto simp: order_inv_def line_ok_def items_of_def)

section \<open>Updates\<close>

lemma update_order_Inr:
  assumes "update_order iv oid command s = Inr (d', t)"
  obtains ctx d d1 s1 d2 d3 lines rvn s2 where
    "current s (iv_user_id iv) = Inr ctx" "order_by_id s ctx oid = Some d"
    "update_status iv ctx d (items_of s oid) (uo_status command) s = Inr (d1, s1)"
    "update_details command d1 = Inr d2"
    "update_items ctx d2 (items_of s oid) (uo_items command) s1 = Inr (d3, lines)"
    "revise d (items_of s oid) d3 lines = Inr rvn"
    "d' = stamp_update iv d (d3\<lparr>ord_revision := rvn\<rparr>)"
    "s2 = (if uo_items command = None then s1 else store_lines oid lines s1)"
    "announce_status iv ctx (ord_status d) d' (audit_update iv ctx command d' (save_order d' s2)) = Inr t"
  using assms unfolding update_order_def Let_def bindR_Inr or_raise_Inr raise_if_Inr
    split_paired_Ex prod.case sum.inject prod.inject
  by blast

lemma stamp_update_simps [simp]:
  "ord_id (stamp_update iv d e) = ord_id e" "ord_restaurant_id (stamp_update iv d e) = ord_restaurant_id e"
  "ord_status (stamp_update iv d e) = ord_status e" "ord_subtotal (stamp_update iv d e) = ord_subtotal e"
  "ord_total (stamp_update iv d e) = ord_total e" "ord_revision (stamp_update iv d e) = ord_revision e"
  "ord_inventory_processed (stamp_update iv d e) = ord_inventory_processed e"
  "ord_created_at (stamp_update iv d e) = ord_created_at e"
  "ord_payment_status (stamp_update iv d e) = ord_payment_status e"
  "order_state (stamp_update iv d e) ls = order_state e ls"
  "order_state (e\<lparr>ord_revision := r\<rparr>) ls = order_state e ls"
  by (simp_all add: stamp_update_def order_state_def)

lemma revise_Inr:
  "revise d items d' lines = Inr r \<longleftrightarrow>
     (if order_state d' lines = order_state d items then r = ord_revision d'
      else 1 \<le> ord_revision d' \<and> r = ord_revision d' + 1)"
  by (auto simp: revise_def res_simps)

text \<open>What the order service writes besides stock: orders, lines, submissions, audit and outbox.\<close>

definition orders_only :: "db \<Rightarrow> db \<Rightarrow> bool" where
  "orders_only s t = (users t = users s \<and> organizations t = organizations s \<and> memberships t = memberships s
     \<and> restaurant_assignments t = restaurant_assignments s \<and> restaurants t = restaurants s
     \<and> menus t = menus s \<and> menu_items t = menu_items s \<and> recipe_components t = recipe_components s
     \<and> ingredients t = ingredients s \<and> balances t = balances s \<and> episodes t = episodes s
     \<and> movements t = movements s \<and> next_serial s \<le> next_serial t \<and> next_uuid s \<le> next_uuid t
     \<and> (outbox_inv s \<longrightarrow> outbox_inv t))"

lemma orders_only_inventory:
  assumes "orders_only s t" "inventory_inv s"
  shows "inventory_inv t"
proof -
  let ?u = "t\<lparr>outbox_events := outbox_events s, deliveries := deliveries s\<rparr>"
  have "inventory_inv ?u"
    by (rule inventory_inv_cong [OF assms(2)]) (use assms(1) in \<open>auto simp: orders_only_def\<close>)
  moreover have "stock_inv ?u = stock_inv t"
    by (simp add: stock_inv_def keyed_movements_def ledger_ok_def movements_of_def)
  moreover have "episode_inv ?u = episode_inv t"
    by (simp add: episode_inv_def episode_fits_def stock_at_cong [of ?u t])
  ultimately show ?thesis using assms by (simp add: inventory_inv_def orders_only_def)
qed

lemma episodes_complete_cong:
  assumes "ingredients t = ingredients s" "balances t = balances s" "episodes t = episodes s"
  shows "episodes_complete t = episodes_complete s"
proof -
  have "open_episode t = open_episode s" "stock_at t = stock_at s"
    using assms by (auto simp: open_episode_def intro: stock_at_cong)
  then show ?thesis using assms(1) unfolding episodes_complete_def by presburger
qed

lemma orders_only_complete: "orders_only s t \<Longrightarrow> episodes_complete s \<Longrightarrow> episodes_complete t"
  using episodes_complete_cong [of t s] by (simp add: orders_only_def)

lemma orders_only_extends:
  assumes "orders_only s t" shows "ledger_extends s t"
  using assms stock_at_cong [of t s] by (auto simp: ledger_extends_def orders_only_def)

lemma orders_only_quantity: "orders_only s t \<Longrightarrow> quantity_at t = quantity_at s"
  by (rule ext) (simp add: quantity_at_def orders_only_def stock_at_cong [of t s])

text \<open>Saving and announcing an order.\<close>

lemma audit_update_simps [simp]:
  "orders (audit_update iv ctx command d s) = orders s"
  "order_items (audit_update iv ctx command d s) = order_items s"
  "order_submissions (audit_update iv ctx command d s) = order_submissions s"
  "outbox_events (audit_update iv ctx command d s) = outbox_events s"
  by (simp_all add: audit_update_def)

lemma finish_update:
  assumes a: "announce_status iv ctx st d (audit_update iv ctx command d (save_order d s)) = Inr t"
  shows "orders_only s t \<and> orders t = store_row ord_id d (orders s) \<and> order_items t = order_items s
    \<and> order_submissions t = order_submissions s \<and> next_serial t = next_serial s"
proof -
  let ?u = "audit_update iv ctx command d (save_order d s)"
  have "events_only ?u t" and o: "outbox_inv ?u \<longrightarrow> outbox_inv t"
    using announce_status_frame [OF a] by auto
  note tabs = events_only_tables [OF this(1)]
  have "outbox_inv s \<longrightarrow> outbox_inv ?u"
    by (auto simp: audit_update_def save_order_def intro: outbox_inv_cong [of s])
  with o tabs show ?thesis by (auto simp: orders_only_def audit_update_def save_order_def)
qed

lemma store_lines_only: "orders_only s (store_lines oid lines s)"
  by (auto simp: orders_only_def store_lines_def intro: outbox_inv_cong [of s])

lemma orders_only_refl [simp]: "orders_only s s"
  by (simp add: orders_only_def)

lemma orders_only_trans: "orders_only s t \<Longrightarrow> orders_only t u \<Longrightarrow> orders_only s u"
  by (auto simp: orders_only_def)

text \<open>The two ways an update treats the stock, and the two ways it treats the lines.\<close>

definition stock_part ::
  "invocation \<Rightarrow> access_context \<Rightarrow> order \<Rightarrow> order_item list \<Rightarrow> order \<Rightarrow> db \<Rightarrow> db \<Rightarrow> bool" where
  "stock_part iv ctx d items d' s s1 =
     (s1 = s \<and> (ord_status d' = ''ACCEPTED'' \<longrightarrow> ord_status d = ''ACCEPTED'')
        \<and> ord_inventory_processed d' = ord_inventory_processed d
      \<or> ord_status d = ''SUBMITTED'' \<and> ord_status d' = ''ACCEPTED'' \<and> ord_inventory_processed d'
        \<and> consume_order_stock iv ctx d items s = Inr s1)"

definition lines_part ::
  "access_context \<Rightarrow> order \<Rightarrow> order_item_command list option \<Rightarrow> order_item list \<Rightarrow> order \<Rightarrow> db \<Rightarrow> db \<Rightarrow> db \<Rightarrow> bool" where
  "lines_part ctx d new_items lines d' s s1 u =
     (new_items = None \<and> lines = items_of s (ord_id d) \<and> u = s1
        \<and> ord_subtotal d' = ord_subtotal d \<and> ord_total d' = ord_total d
      \<or> (\<exists>commands. new_items = Some commands \<and> ord_status d = ''DRAFT'' \<and> ord_status d' = ''DRAFT'' \<and> s1 = s
          \<and> build_order_items s ctx (ord_restaurant_id d) commands = Inr (lines, ord_subtotal d')
          \<and> ord_total d' = ord_subtotal d' \<and> u = store_lines (ord_id d) lines s))"

lemma known_draft: "x \<in> set order_statuses \<Longrightarrow> normalize_order_status x = ''DRAFT'' \<Longrightarrow> x = ''DRAFT''"
  by (simp add: order_statuses_normalized)

lemma never_back_to_draft:
  "''DRAFT'' = x \<or> ''DRAFT'' \<in> set (allowed_next x) \<Longrightarrow> x = ''DRAFT''"
  using allowed_next_rank [of "''DRAFT''" x] by (auto simp: status_rank_def order_statuses_def order_transitions_def upt_rec)

lemma update_order_effect:
  assumes up: "update_order iv oid command s = Inr (d', t)" and inv: "order_inv s"
  obtains ctx d s1 lines u where
    "current s (iv_user_id iv) = Inr ctx" "order_by_id s ctx oid = Some d"
    "stock_part iv ctx d (items_of s oid) d' s s1"
    "lines_part ctx d (uo_items command) lines d' s s1 u"
    "ord_id d' = oid" "ord_restaurant_id d' = ord_restaurant_id d" "ord_created_at d' = ord_created_at d"
    "ord_status d' = ord_status d \<or> ord_status d' \<in> set (allowed_next (ord_status d))"
    "ord_payment_status d' \<in> set payment_statuses"
    "ord_revision d' = (if order_state d' lines = order_state d (items_of s oid) then ord_revision d
       else ord_revision d + 1)"
    "announce_status iv ctx (ord_status d) d' (audit_update iv ctx command d' (save_order d' u)) = Inr t"
proof (rule update_order_Inr [OF up])
  fix ctx d d1 s1 d2 d3 lines rvn u
  assume ctx: "current s (iv_user_id iv) = Inr ctx" and d: "order_by_id s ctx oid = Some d"
    and st: "update_status iv ctx d (items_of s oid) (uo_status command) s = Inr (d1, s1)"
    and dt: "update_details command d1 = Inr d2"
    and it: "update_items ctx d2 (items_of s oid) (uo_items command) s1 = Inr (d3, lines)"
    and rvn: "revise d (items_of s oid) d3 lines = Inr rvn"
    and d': "d' = stamp_update iv d (d3\<lparr>ord_revision := rvn\<rparr>)"
    and u: "u = (if uo_items command = None then s1 else store_lines oid lines s1)"
    and an: "announce_status iv ctx (ord_status d) d' (audit_update iv ctx command d' (save_order d' u)) = Inr t"
  note dd = order_by_id_Some [OF d]
  have ok: "ord_status d \<in> set order_statuses" "ord_payment_status d \<in> set payment_statuses"
    using inv dd(1) by (auto simp: order_inv_def order_ok_def)
  have stock: "stock_part iv ctx d (items_of s oid) d1 s s1"
      "ord_status d1 = ord_status d \<or> ord_status d1 \<in> set (allowed_next (ord_status d))"
    using st ok(1) by (cases rule: update_status_Inr; auto simp: stock_part_def)+
  have fields1: "ord_id d1 = oid" "ord_restaurant_id d1 = ord_restaurant_id d" "ord_created_at d1 = ord_created_at d"
    "ord_payment_status d1 = ord_payment_status d" "ord_subtotal d1 = ord_subtotal d"
    "ord_total d1 = ord_total d" "ord_revision d1 = ord_revision d"
    using st ok(1) dd(2) by (cases rule: update_status_Inr; simp)+
  note dt' = update_details_Inr [OF dt]
  have known: "ord_status d1 \<in> set order_statuses" using stock(2) ok(1) allowed_next_known by metis
  have fields: "ord_id d3 = ord_id d2" "ord_restaurant_id d3 = ord_restaurant_id d2" "ord_status d3 = ord_status d2"
      "ord_payment_status d3 = ord_payment_status d2" "ord_inventory_processed d3 = ord_inventory_processed d2"
      "ord_revision d3 = ord_revision d2" "ord_created_at d3 = ord_created_at d2"
    using it by (cases rule: update_items_Inr; simp)+
  have lines: "lines_part ctx d (uo_items command) lines d3 s s1 u"
    using it
  proof (cases rule: update_items_Inr)
    case same
    then show ?thesis using dt' fields1 dd(2) by (simp add: lines_part_def u)
  next
    case (replaced commands q)
    have draft: "ord_status d1 = ''DRAFT''" using known_draft [OF known] replaced(2) dt'(3) by simp
    have "ord_status d = ''DRAFT''" using stock(2) draft never_back_to_draft by metis
    moreover have "s1 = s" using stock(1) draft by (simp add: stock_part_def)
    ultimately show ?thesis using replaced fields dt' fields1 dd(2) draft by (simp add: lines_part_def u)
  qed
  show ?thesis
  proof (rule that [OF ctx d])
    show "stock_part iv ctx d (items_of s oid) d' s s1"
      using stock dt' fields by (simp add: stock_part_def d')
    show "lines_part ctx d (uo_items command) lines d' s s1 u"
      using lines by (simp add: lines_part_def d')
    show "ord_revision d' = (if order_state d' lines = order_state d (items_of s oid) then ord_revision d
       else ord_revision d + 1)"
      using rvn dt'(6) fields fields1 by (simp add: revise_Inr d' split: if_splits)
  qed (use an fields1 dt' fields stock ok(2) in \<open>simp_all add: d'\<close>)
qed

section \<open>Consumption by acceptance\<close>

lemma consume_order_stock_effect:
  assumes c: "consume_order_stock iv ctx d items s = Inr t" and inv: "inventory_inv s" "recipe_inv s"
    and pos: "\<forall>i \<in> set items. 0 < oi_quantity i"
  shows "inventory_inv t" "same_business s t" "ledger_extends s t"
    "episodes_complete s \<Longrightarrow> episodes_complete t"
    "quantity_at t j = quantity_at s j
       - required s items (tracked_items s ctx (ord_restaurant_id d) items) j"
    "\<exists>rows ms. movements t = movements s @ ms \<and> list_all2 (consumption_of (ord_id d)) rows ms
       \<and> distinct (map row_id rows)
       \<and> (\<forall>i. taken rows i = required s items (tracked_items s ctx (ord_restaurant_id d) items) i)"
proof -
  obtain rows where rows: "stock_rows s ctx (ord_restaurant_id d) items = Inr rows"
    and loop: "for_each (consume_row iv ctx (ord_id d)) rows s = Inr t"
    using c by (auto simp: consume_order_stock_def res_simps)
  have "stock_inv s" using inv(1) by (simp add: inventory_inv_def)
  from stock_rows_ok [OF rows this inv(2) pos]
  have ok: "\<forall>row \<in> set rows. row_ok s (ord_restaurant_id d) row" "distinct (map row_id rows)"
    "\<And>i. taken rows i = required s items (tracked_items s ctx (ord_restaurant_id d) items) i" by auto
  from consume_rows_effect [OF loop inv(1) ok(1,2)] ok(2,3)
  show "inventory_inv t" "same_business s t" "ledger_extends s t"
    "episodes_complete s \<Longrightarrow> episodes_complete t"
    "quantity_at t j = quantity_at s j
       - required s items (tracked_items s ctx (ord_restaurant_id d) items) j"
    "\<exists>rows ms. movements t = movements s @ ms \<and> list_all2 (consumption_of (ord_id d)) rows ms
       \<and> distinct (map row_id rows)
       \<and> (\<forall>i. taken rows i = required s items (tracked_items s ctx (ord_restaurant_id d) items) i)"
    by (blast, blast, blast, blast, metis, blast)
qed

lemma consumption_pairs:
  "list_all2 (consumption_of oid) rows ms \<Longrightarrow>
   map (\<lambda>m. (mov_order_id m, mov_ingredient_id m)) (filter (\<lambda>m. mov_order_id m \<noteq> None) ms)
     = map (\<lambda>r. (Some oid, row_id r)) rows"
  by (induction rule: list_all2_induct) (auto simp: consumption_of_def)

lemma stock_part_effect:
  assumes part: "stock_part iv ctx d items d' s s1" and inv: "inventory_inv s" "recipe_inv s"
    and pos: "\<forall>i \<in> set items. 0 < oi_quantity i"
  shows "inventory_inv s1 \<and> same_business s s1 \<and> ledger_extends s s1 \<and> (episodes_complete s \<longrightarrow> episodes_complete s1)"
    "\<exists>ids. consumed_pairs s1 = consumed_pairs s @ map (\<lambda>i. (Some (ord_id d), i)) ids \<and> distinct ids
       \<and> (ids \<noteq> [] \<longrightarrow> ord_status d = ''SUBMITTED'' \<and> ord_inventory_processed d')"
proof -
  from part consider "s1 = s"
    | "ord_status d = ''SUBMITTED''" "ord_inventory_processed d'" "consume_order_stock iv ctx d items s = Inr s1"
    by (auto simp: stock_part_def)
  note cases = this
  show "inventory_inv s1 \<and> same_business s s1 \<and> ledger_extends s s1 \<and> (episodes_complete s \<longrightarrow> episodes_complete s1)"
    using cases consume_order_stock_effect [OF _ inv pos, of iv ctx d s1] inv by cases (simp, blast)
  show "\<exists>ids. consumed_pairs s1 = consumed_pairs s @ map (\<lambda>i. (Some (ord_id d), i)) ids \<and> distinct ids
       \<and> (ids \<noteq> [] \<longrightarrow> ord_status d = ''SUBMITTED'' \<and> ord_inventory_processed d')"
    using cases
  proof cases
    case 1
    then show ?thesis by (intro exI [of _ "[]"]) simp
  next
    case 2
    obtain rows ms where "movements s1 = movements s @ ms" "list_all2 (consumption_of (ord_id d)) rows ms"
      "distinct (map row_id rows)"
      using consume_order_stock_effect(6) [OF 2(3) inv pos] by blast
    then have "consumed_pairs s1 = consumed_pairs s @ map (\<lambda>i. (Some (ord_id d), i)) (map row_id rows)"
      "distinct (map row_id rows)"
      unfolding consumed_pairs_def using consumption_pairs by fastforce+
    with 2 show ?thesis by blast
  qed
qed

section \<open>Updates keep the invariant\<close>

lemma attach_items_map: "map oi_line_total (attach_items oid n lines) = map oi_line_total lines"
  "map line_state (attach_items oid n lines) = map line_state lines"
  by (auto simp: attach_items_def line_state_def intro!: nth_equalityI)

lemma in_attach_items:
  assumes "l \<in> set (attach_items oid n lines)"
  shows "\<exists>x \<in> set lines. oi_quantity l = oi_quantity x \<and> oi_line_total l = oi_line_total x
    \<and> oi_unit_price l = oi_unit_price x \<and> oi_menu_item_id l = oi_menu_item_id x \<and> oi_order_id l = oid"
  using assms by (auto simp: attach_items_def set_zip)

lemma items_of_store_lines:
  "items_of (store_lines oid lines s) x = (if x = oid then attach_items oid (next_serial s) lines else items_of s x)"
proof -
  have "filter (\<lambda>l. oi_order_id l = x) (attach_items oid n lines) = (if x = oid then attach_items oid n lines else [])" for n
    using in_attach_items by (auto simp: filter_empty_conv filter_id_conv)
  then show ?thesis by (auto simp: items_of_def store_lines_def delete_where_def intro: filter_cong)
qed

text \<open>The order tables after an update, as one fact about the parts.\<close>

lemma lines_part_items:
  assumes "lines_part ctx d new_items lines d' s s1 u" "same_business s s1"
  shows "items_of u x = (if x = ord_id d \<and> new_items \<noteq> None then attach_items x (next_serial s) lines else items_of s x)"
    "orders u = orders s" "order_submissions u = order_submissions s" "orders_only s1 u"
    "movements u = movements s1"
  using assms items_of_store_lines store_lines_only [of s1]
  by (auto simp: lines_part_def same_business_def items_of_def store_lines_def split: if_splits)

definition update_request_ok :: "update_order_command \<Rightarrow> bool" where
  "update_request_ok command = (case uo_items command of None \<Rightarrow> True | Some items \<Rightarrow> order_items_request_ok items)"

lemma allowed_next_processed:
  assumes "x \<in> set order_statuses" "y = x \<or> y \<in> set (allowed_next x)" "y = ''ACCEPTED'' \<longrightarrow> x = ''ACCEPTED''"
  shows "(before_acceptance y \<longrightarrow> before_acceptance x) \<and> (after_acceptance y \<longrightarrow> after_acceptance x)"
proof -
  have "list_all (\<lambda>x. list_all (\<lambda>y. (y = ''ACCEPTED'' \<longrightarrow> x = ''ACCEPTED'') \<longrightarrow>
      (before_acceptance y \<longrightarrow> before_acceptance x) \<and> (after_acceptance y \<longrightarrow> after_acceptance x))
      (x # allowed_next x)) order_statuses"
    by code_simp
  then have "y \<in> set (x # allowed_next x) \<Longrightarrow> ?thesis" using assms(1,3) unfolding list_all_iff by metis
  then show ?thesis using assms(2) by auto
qed

lemma processed_after_update:
  assumes "order_ok s d" "stock_part iv ctx d items d' s s1"
    and "ord_status d' = ord_status d \<or> ord_status d' \<in> set (allowed_next (ord_status d))"
  shows "(before_acceptance (ord_status d') \<longrightarrow> \<not> ord_inventory_processed d')
    \<and> (after_acceptance (ord_status d') \<longrightarrow> ord_inventory_processed d')
    \<and> (ord_inventory_processed d \<longrightarrow> ord_inventory_processed d')"
proof (cases "ord_status d' = ''ACCEPTED'' \<longrightarrow> ord_status d = ''ACCEPTED''")
  case True
  then have "ord_inventory_processed d' = ord_inventory_processed d" using assms(2) by (auto simp: stock_part_def)
  then show ?thesis using assms(1) allowed_next_processed [OF _ assms(3) True] unfolding order_ok_def by blast
next
  case False
  then show ?thesis using assms(2) by (simp add: stock_part_def before_acceptance_def)
qed

text \<open>The consumption records stay one per order and ingredient, and only for processed orders.\<close>

lemma consumed_pairs_after:
  assumes inv: "order_inv s" and d: "d \<in> set (orders s)" "ord_id d' = ord_id d"
    and ot: "orders t = store_row ord_id d' (orders s)"
    and pt: "consumed_pairs t = consumed_pairs s @ map (\<lambda>i. (Some (ord_id d), i)) new" "distinct new"
    and new: "new \<noteq> [] \<longrightarrow> \<not> ord_inventory_processed d \<and> ord_inventory_processed d'"
    and keep: "ord_inventory_processed d \<longrightarrow> ord_inventory_processed d'"
  shows "distinct (consumed_pairs t)" "\<forall>x. Some x \<in> fst ` set (consumed_pairs t) \<longrightarrow> processed_order t x"
proof -
  have self: "ord_inventory_processed d" if "processed_order s (ord_id d)"
    using that d unique_keys_eq [of ord_id "orders s" _ d] inv by (auto simp: processed_order_def order_inv_def)
  have mem: "d' \<in> set (orders t)" using ot d store_row_self by metis
  have old: "processed_order t x" if x: "processed_order s x" for x
  proof (cases "x = ord_id d")
    case True
    then show ?thesis using self x mem keep d(2) by (auto simp: processed_order_def)
  next
    case False
    then show ?thesis using x ot d(2) store_row_other [of _ "orders s" ord_id d'] by (auto simp: processed_order_def)
  qed
  have inv': "distinct (consumed_pairs s)" "\<And>x. Some x \<in> fst ` set (consumed_pairs s) \<Longrightarrow> processed_order s x"
    using inv by (simp_all add: order_inv_def)
  have "Some (ord_id d) \<notin> fst ` set (consumed_pairs s)" if "new \<noteq> []" using that new self inv'(2) by blast
  then have "set (consumed_pairs s) \<inter> set (map (\<lambda>i. (Some (ord_id d), i)) new) = {}" by (force simp: image_iff)
  then show "distinct (consumed_pairs t)" using inv'(1) pt by (simp add: distinct_map inj_on_def)
  have "processed_order t (ord_id d)" if "new \<noteq> []" using that new mem d(2) by (auto simp: processed_order_def)
  then show "\<forall>x. Some x \<in> fst ` set (consumed_pairs t) \<longrightarrow> processed_order t x"
    using pt(1) inv'(2) old by (cases new) auto
qed

lemma order_ok_cong:
  "order_ok s x \<Longrightarrow> items_of t (ord_id x) = items_of s (ord_id x) \<Longrightarrow> next_serial s \<le> next_serial t \<Longrightarrow> order_ok t x"
  by (auto simp: order_ok_def)

lemma update_order_lines:
  assumes lp: "lines_part ctx d new_items lines d' s s1 u" and same: "same_business s s1"
    and inv: "order_inv s" and d: "d \<in> set (orders s)"
    and req: "case new_items of None \<Rightarrow> True | Some items \<Rightarrow> order_items_request_ok items"
  shows "ord_subtotal d' = sum_list (map oi_line_total (items_of u (ord_id d)))" "ord_total d' = ord_subtotal d'"
    "\<forall>l \<in> set (order_items u). oi_order_id l \<in> ord_id ` set (orders s) \<and> 0 < oi_quantity l
       \<and> oi_line_total l = oi_unit_price l * of_int (oi_quantity l)"
    "map line_state (items_of u (ord_id d)) = map line_state lines"
proof -
  have ok: "order_ok s d" "\<forall>l \<in> set (order_items s). line_ok s l" using inv d by (auto simp: order_inv_def)
  have items: "items_of u x = (if x = ord_id d \<and> new_items \<noteq> None then attach_items x (next_serial s) lines else items_of s x)" for x
    by (rule lines_part_items [OF lp same])
  show "ord_subtotal d' = sum_list (map oi_line_total (items_of u (ord_id d)))" "ord_total d' = ord_subtotal d'"
    "map line_state (items_of u (ord_id d)) = map line_state lines"
    using lp ok(1) items build_order_items_Inr(1)
    by (auto simp: lines_part_def order_ok_def attach_items_map)
  have "0 < oi_quantity l \<and> oi_line_total l = oi_unit_price l * of_int (oi_quantity l) \<and> oi_order_id l = ord_id d"
    if l: "l \<in> set (attach_items (ord_id d) n lines)" and new: "new_items = Some cs" for l n cs
  proof -
    have "build_order_items s ctx (ord_restaurant_id d) cs = Inr (lines, ord_subtotal d')"
      using lp new by (auto simp: lines_part_def)
    then show ?thesis using in_attach_items [OF l] build_order_items_lines req new by fastforce
  qed
  then show "\<forall>l \<in> set (order_items u). oi_order_id l \<in> ord_id ` set (orders s) \<and> 0 < oi_quantity l
       \<and> oi_line_total l = oi_unit_price l * of_int (oi_quantity l)"
    using lp ok(2) same d
    by (auto simp: lines_part_def line_ok_def same_business_def store_lines_def set_delete_where)
qed

lemma update_order_keeps:
  assumes up: "update_order iv oid command s = Inr (d', t)" and inv: "order_inv s" "inventory_inv s" "recipe_inv s"
    and req: "update_request_ok command"
  shows "order_inv t \<and> inventory_inv t \<and> recipe_inv t \<and> ledger_extends s t \<and> (episodes_complete s \<longrightarrow> episodes_complete t)"
proof (rule update_order_effect [OF up inv(1)])
  fix ctx d s1 lines u
  assume d: "order_by_id s ctx oid = Some d"
    and sp: "stock_part iv ctx d (items_of s oid) d' s s1"
    and lp: "lines_part ctx d (uo_items command) lines d' s s1 u"
    and f: "ord_id d' = oid" "ord_status d' = ord_status d \<or> ord_status d' \<in> set (allowed_next (ord_status d))"
      "ord_payment_status d' \<in> set payment_statuses"
      "ord_revision d' = (if order_state d' lines = order_state d (items_of s oid) then ord_revision d
         else ord_revision d + 1)"
    and an: "announce_status iv ctx (ord_status d) d' (audit_update iv ctx command d' (save_order d' u)) = Inr t"
  note dd = order_by_id_Some [OF d] and fin = finish_update [OF an]
  note st = stock_part_effect [OF sp inv(2,3) items_of_positive [OF inv(1)]]
  have ok: "order_ok s d" using inv(1) dd(1) by (auto simp: order_inv_def)
  have same: "same_business s s1" using st(1) by blast
  note lpi = lines_part_items [OF lp same]
  have only: "orders_only s1 t" using lpi(4) fin orders_only_trans by blast
  have ext: "ledger_extends s t" using st(1) orders_only_extends [OF only] ledger_extends_trans by blast
  note upl = update_order_lines [OF lp same inv(1) dd(1) req [unfolded update_request_ok_def]]
  have items: "items_of t x = items_of u x" for x using fin by (simp add: items_of_def)
  have ids: "ord_id ` set (orders t) = ord_id ` set (orders s)" using fin lpi(2) by simp
  have "order_ok t x" if "x \<in> set (orders t)" for x
  proof -
    from that have "x = d' \<or> x \<in> set (orders s) \<and> ord_id x \<noteq> oid" using fin lpi(2) in_store_row f(1) by metis
    then show ?thesis
    proof
      assume x: "x = d'"
      have "ord_status d' \<in> set order_statuses" using ok f(2) allowed_next_known by (metis order_ok_def)
      moreover have "oid < next_serial t" "1 \<le> ord_revision d'"
        using ok ext dd(2) f(4) by (auto simp: order_ok_def ledger_extends_def)
      ultimately show ?thesis using f(1,3) upl(1,2) processed_after_update [OF ok sp f(2)] dd(2) items
        unfolding x order_ok_def by simp
    next
      assume x: "x \<in> set (orders s) \<and> ord_id x \<noteq> oid"
      then have "order_ok s x" "items_of t (ord_id x) = items_of s (ord_id x)"
        using inv(1) lpi(1) dd(2) items by (simp_all add: order_inv_def)
      then show ?thesis using ext by (intro order_ok_cong [of s x t]) (simp_all add: ledger_extends_def)
    qed
  qed
  moreover have "\<forall>l \<in> set (order_items t). line_ok t l" using upl(3) fin ids by (simp add: line_ok_def)
  moreover have "distinct (consumed_pairs t)" "\<forall>x. Some x \<in> fst ` set (consumed_pairs t) \<longrightarrow> processed_order t x"
  proof -
    obtain new where new: "consumed_pairs s1 = consumed_pairs s @ map (\<lambda>i. (Some (ord_id d), i)) new" "distinct new"
      "new \<noteq> [] \<longrightarrow> ord_status d = ''SUBMITTED'' \<and> ord_inventory_processed d'" using st(2) by blast
    have "consumed_pairs t = consumed_pairs s1" using only by (simp add: consumed_pairs_def orders_only_def)
    moreover have "ord_status d = ''SUBMITTED'' \<longrightarrow> \<not> ord_inventory_processed d" using ok by (simp add: order_ok_def before_acceptance_def)
    ultimately show "distinct (consumed_pairs t)" "\<forall>x. Some x \<in> fst ` set (consumed_pairs t) \<longrightarrow> processed_order t x"
      using consumed_pairs_after [OF inv(1) dd(1), of d' t new] new fin lpi(2) f(1) dd(2)
        processed_after_update [OF ok sp f(2)] by simp_all
  qed
  ultimately have "order_inv t" using inv(1) fin lpi(2,3) by (simp add: order_inv_def)
  moreover have "inventory_inv t" using st(1) orders_only_inventory [OF only] by blast
  moreover have "recipe_inv t" using inv(3) only same by (simp add: recipe_inv_def orders_only_def same_business_def)
  ultimately show ?thesis using ext st(1) orders_only_complete [OF only] by blast
qed

section \<open>Creation\<close>

definition new_order :: "invocation \<Rightarrow> int \<Rightarrow> create_order_command \<Rightarrow> dec \<Rightarrow> int \<Rightarrow> order" where
  "new_order iv rid command subtotal serial =
     \<lparr>ord_id = serial, ord_restaurant_id = rid, ord_table_number = co_table_number command,
      ord_customer_name = co_customer_name command, ord_status = ''DRAFT'',
      ord_payment_status = ''UNPAID'', ord_notes = co_notes command,
      ord_subtotal = subtotal, ord_total = subtotal, ord_inventory_processed = False,
      ord_revision = 1, ord_created_at = Naive (iv_now iv), ord_updated_at = Naive (iv_now iv)\<rparr>"

lemma create_order_Inr:
  assumes "create_order digest iv rid command s = Inr (snapshot, t)"
  obtains (replayed) ctx sub where "current s (iv_user_id iv) = Inr ctx"
      "order_submission_of s ctx rid (co_idempotency_key command) = Some sub"
      "sub_request_fingerprint sub = request_fingerprint digest command"
      "snapshot = sub_response_snapshot sub" "t = s"
  | (created) ctx lines subtotal rows sub s1 where "current s (iv_user_id iv) = Inr ctx"
      "restaurant_exists s ctx rid"
      "order_submission_of s ctx rid (co_idempotency_key command) = None"
      "build_order_items s ctx rid (co_items command) = Inr (lines, subtotal)"
      "rows = attach_items (next_serial s) (next_serial s + 1) lines"
      "snapshot = creation_response_snapshot (new_order iv rid command subtotal (next_serial s)) rows"
      "sub = \<lparr>sub_id = next_serial s + 1 + int (length lines), sub_restaurant_id = rid,
         sub_idempotency_key = co_idempotency_key command, sub_order_id = Some (next_serial s),
         sub_request_fingerprint = request_fingerprint digest command, sub_response_snapshot = snapshot\<rparr>"
      "s1 = s\<lparr>orders := orders s @ [new_order iv rid command subtotal (next_serial s)],
         order_items := order_items s @ rows, order_submissions := order_submissions s @ [sub],
         next_serial := next_serial s + 1 + int (length lines) + 1\<rparr>"
      "\<exists>ch. t = record_audit iv ctx ''order.created'' ''order'' (py_str_int (next_serial s)) (Some rid) ch s1"
proof -
  obtain ctx where ctx: "current s (iv_user_id iv) = Inr ctx" "restaurant_exists s ctx rid"
    using assms by (auto simp: create_order_def res_simps)
  show ?thesis
  proof (cases "order_submission_of s ctx rid (co_idempotency_key command)")
    case None
    with ctx assms obtain lines subtotal where
      b: "build_order_items s ctx rid (co_items command) = Inr (lines, subtotal)"
      by (auto simp: create_order_def res_simps Let_def)
    show ?thesis
      by (rule created [OF ctx None b refl _ refl refl])
        (use ctx assms None b in \<open>auto simp: create_order_def res_simps Let_def check_stock_def new_order_def\<close>)
  next
    case (Some sub)
    with ctx assms show ?thesis
      by (intro replayed [OF ctx(1) Some]) (auto simp: create_order_def res_simps Let_def)
  qed
qed

lemma submission_fresh:
  assumes "order_submission_of s ctx rid key = None" "restaurant_exists s ctx rid"
  shows "(rid, key) \<notin> (\<lambda>x. (sub_restaurant_id x, sub_idempotency_key x)) ` set (order_submissions s)"
  using assms by (auto simp: order_submission_of_def select_one_None)

lemma items_of_attach_other:
  "x \<noteq> oid \<Longrightarrow> filter (\<lambda>l. oi_order_id l = x) (attach_items oid n lines) = []"
  "filter (\<lambda>l. oi_order_id l = oid) (attach_items oid n lines) = attach_items oid n lines"
  using in_attach_items by (fastforce simp: filter_empty_conv filter_id_conv)+

lemma create_order_keeps:
  assumes cr: "create_order digest iv rid command s = Inr (snapshot, t)" and inv: "order_inv s"
    and req: "order_items_request_ok (co_items command)"
  shows "order_inv t \<and> orders_only s t"
  using cr
proof (cases rule: create_order_Inr)
  case (created ctx lines subtotal rows sub s1)
  let ?d = "new_order iv rid command subtotal (next_serial s)"
  have t: "orders t = orders s @ [?d]" "order_items t = order_items s @ rows"
    "order_submissions t = order_submissions s @ [sub]" "movements t = movements s"
    "next_serial t = next_serial s + 1 + int (length lines) + 1"
    using created(9) by (auto simp: created(8))
  have old: "ord_id x < next_serial s" if "x \<in> set (orders s)" for x
    using inv that by (auto simp: order_inv_def order_ok_def)
  have "oi_order_id l < next_serial s" if "l \<in> set (order_items s)" for l
    using inv that old by (auto simp: order_inv_def line_ok_def)
  then have "filter (\<lambda>l. oi_order_id l = next_serial s) (order_items s) = []" by (force simp: filter_empty_conv)
  then have items: "items_of t x = (if x = next_serial s then rows else items_of s x)" for x
    using items_of_attach_other created(5) by (simp add: items_of_def t(2))
  have "order_ok t ?d" using build_order_items_Inr(1) [OF created(4)] items
    by (simp add: order_ok_def new_order_def t(5) created(5) attach_items_map status_table_defs
        payment_statuses_def after_acceptance_def)
  moreover have "order_ok t x" if "x \<in> set (orders s)" for x
    by (rule order_ok_cong [of s]) (use inv that old [OF that] items t(5) in \<open>auto simp: order_inv_def\<close>)
  moreover have "line_ok t l" if "l \<in> set rows" for l
    using in_attach_items [of l "next_serial s" "next_serial s + 1" lines] build_order_items_lines [OF created(4) req]
      that by (auto simp: line_ok_def created(5) t(1) new_order_def)
  moreover have "line_ok t l" if "l \<in> set (order_items s)" for l
    using inv that by (auto simp: order_inv_def line_ok_def t(1))
  moreover have "consumed_pairs t = consumed_pairs s" by (simp add: consumed_pairs_def t(4))
  moreover have "processed_order s x \<longrightarrow> processed_order t x" for x by (auto simp: processed_order_def t(1))
  moreover have "distinct (map (\<lambda>x. (sub_restaurant_id x, sub_idempotency_key x)) (order_submissions t))"
    using inv submission_fresh [OF created(3,2)] by (simp add: t(3) created(7) order_inv_def)
  moreover have "unique_keys ord_id (orders t)" using inv old by (force simp: t(1) order_inv_def new_order_def)
  ultimately have "order_inv t" using inv unfolding order_inv_def t(1,2) set_append by auto
  moreover have "orders_only s t" using created(9)
    by (auto simp: orders_only_def created(8) intro: outbox_inv_cong [of s])
  ultimately show ?thesis by simp
qed (use inv in simp)

section \<open>Deletion\<close>

lemma delete_order_Inr:
  assumes "delete_order iv oid s = Inr t"
  obtains ctx d e s2 ch where
    "current s (iv_user_id iv) = Inr ctx" "order_by_id s ctx oid = Some d"
    "''order.delete'' \<in> set (role_capabilities (ac_role ctx))" "\<not> has_order_history s oid"
    "append_command_event iv Order_Deleted (ac_organization_id ctx) (ord_restaurant_id d) ''order'' oid
       (ord_revision d + 1) (OrderDeletedPayload oid (ord_status d) (Finite (ord_total d)) (ord_created_at d))
       (record_audit iv ctx ''order.deleted'' ''order'' (py_str_int oid) (Some (ord_restaurant_id d)) ch s) = Inr (e, s2)"
    "t = s2\<lparr>orders := delete_where (\<lambda>x. ord_id x = oid) (orders s2),
       order_items := delete_where (\<lambda>i. oi_order_id i = oid) (order_items s2),
       order_submissions := update_where (\<lambda>x. sub_order_id x = Some oid)
         (\<lambda>x. x\<lparr>sub_order_id := None\<rparr>) (order_submissions s2)\<rparr>"
proof -
  obtain ctx d where d: "current s (iv_user_id iv) = Inr ctx" "order_by_id s ctx oid = Some d"
    using assms by (auto simp: delete_order_def res_simps)
  have "ord_id d = oid" using order_by_id_Some [OF d(2)] by simp
  with d assms show ?thesis by (auto simp: delete_order_def res_simps Let_def intro!: that [OF d])
qed

lemma delete_order_keeps:
  assumes del: "delete_order iv oid s = Inr t" and inv: "order_inv s"
  shows "order_inv t \<and> orders_only s t"
proof (rule delete_order_Inr [OF del])
  fix ctx d e s2 ch
  let ?a = "record_audit iv ctx ''order.deleted'' ''order'' (py_str_int oid) (Some (ord_restaurant_id d)) ch s"
  assume hist: "\<not> has_order_history s oid"
    and ev: "append_command_event iv Order_Deleted (ac_organization_id ctx) (ord_restaurant_id d) ''order'' oid
       (ord_revision d + 1) (OrderDeletedPayload oid (ord_status d) (Finite (ord_total d)) (ord_created_at d)) ?a = Inr (e, s2)"
    and t: "t = s2\<lparr>orders := delete_where (\<lambda>x. ord_id x = oid) (orders s2),
       order_items := delete_where (\<lambda>i. oi_order_id i = oid) (order_items s2),
       order_submissions := update_where (\<lambda>x. sub_order_id x = Some oid)
         (\<lambda>x. x\<lparr>sub_order_id := None\<rparr>) (order_submissions s2)\<rparr>"
  note tabs = events_only_tables [OF events_only_append [OF ev]]
  have tt: "orders t = delete_where (\<lambda>x. ord_id x = oid) (orders s)"
    "order_items t = delete_where (\<lambda>i. oi_order_id i = oid) (order_items s)"
    "order_submissions t = update_where (\<lambda>x. sub_order_id x = Some oid) (\<lambda>x. x\<lparr>sub_order_id := None\<rparr>) (order_submissions s)"
    "movements t = movements s" "next_serial t = next_serial s" using tabs by (simp_all add: t)
  have "items_of t x = items_of s x" if "x \<noteq> oid" for x
    using that by (auto simp: items_of_def tt(2) delete_where_def intro: filter_cong)
  then have "\<forall>x \<in> set (orders t). order_ok t x"
    using inv order_ok_cong [of s _ t] by (simp add: tt(1,5) set_delete_where order_inv_def)
  moreover have "\<forall>l \<in> set (order_items t). line_ok t l"
    using inv by (auto simp: tt(1,2) set_delete_where order_inv_def line_ok_def)
  moreover have pairs: "consumed_pairs t = consumed_pairs s" by (simp add: consumed_pairs_def tt(4))
  moreover have "processed_order t x" if "Some x \<in> fst ` set (consumed_pairs s)" for x
  proof -
    have "x \<noteq> oid" using that hist by (auto simp: consumed_pairs_def has_order_history_def exists_row_iff)
    moreover have "processed_order s x" using inv that by (simp add: order_inv_def)
    ultimately show ?thesis by (auto simp: processed_order_def tt(1) set_delete_where)
  qed
  moreover have "map (\<lambda>x. (sub_restaurant_id x, sub_idempotency_key x)) (order_submissions t) =
      map (\<lambda>x. (sub_restaurant_id x, sub_idempotency_key x)) (order_submissions s)"
    unfolding tt(3) by (rule map_update_where) simp
  moreover have "unique_keys ord_id (orders t)"
    using inv by (auto simp: order_inv_def tt(1) unique_keys_def delete_where_def distinct_map_filter)
  ultimately have "order_inv t" using inv by (simp add: order_inv_def)
  moreover have "outbox_inv s \<longrightarrow> outbox_inv t"
  proof
    assume "outbox_inv s"
    then have "outbox_inv ?a" by (auto intro: outbox_inv_cong [of s])
    then have "outbox_inv s2" by (rule append_command_event_outbox_inv [OF ev])
    then show "outbox_inv t" by (auto simp: t intro: outbox_inv_cong [of s2])
  qed
  ultimately show ?thesis using tabs by (auto simp: orders_only_def t)
qed

section \<open>Inventory and recipe commands leave the orders alone\<close>

definition inventory_only :: "db \<Rightarrow> db \<Rightarrow> bool" where
  "inventory_only s t = (same_business s t \<and> consumed_pairs t = consumed_pairs s)"

lemma inventory_only_movement:
  assumes "movements t = movements s @ [m]" "mov_order_id m = None"
  shows "consumed_pairs t = consumed_pairs s"
  using assms by (simp add: consumed_pairs_def)

lemma record_transition_business:
  assumes "record_inventory_transition iv org item bal before source actor oid s = Inr (tr, t)"
  shows "same_business s t" "movements t = movements s"
  unfolding same_business_def using record_transition_frame [OF assms] by blast+

lemma same_business_audit: "same_business s t \<Longrightarrow> same_business s (record_audit iv c a ty i r ch t)"
  by (simp add: same_business_def)

lemma inventory_step_only:
  assumes "inventory_step s t"
  shows "inventory_only s t"
  using assms
proof (cases rule: inventory_step.cases)
  case (step_create digest iv rid data v)
  then show ?thesis
  proof (cases rule: create_ingredient_Inr)
    case (recorded ctx opn threshold item bal m tr s3)
    note rec = record_transition_business [OF recorded(12)]
    have "same_business s s3" using rec(1) by (simp add: same_business_def add_movement_def)
    moreover have "movements s3 = movements s @ [m]" using rec(2) by (simp add: add_movement_def)
    ultimately show ?thesis using recorded(14) inventory_only_movement [of t s m] same_business_audit
      by (auto simp: inventory_only_def recorded(11) opening_movement_def)
  qed (simp add: inventory_only_def)
next
  case (step_update iv rid i upd v)
  show ?thesis
  proof (rule update_ingredient_Inr [OF step_update])
    fix ctx item1 bal item tr s1
    assume rec: "record_inventory_transition iv (ac_organization_id ctx) item1 bal
         (Some (inventory_state_snapshot (ac_organization_id ctx) item bal)) ''ingredient_update''
         (Some (ac_user_id ctx)) None (save_ingredient item1 s) = Inr (tr, s1)"
      and t: "\<exists>ch. t = record_audit iv ctx ''inventory.ingredient.updated'' ''ingredient'' (py_str_int i)
         (Some rid) ch s1"
    have "same_business s s1" "movements s1 = movements s"
      using record_transition_business [OF rec] by (simp_all add: same_business_def save_ingredient_def)
    then show ?thesis using t same_business_audit by (auto simp: inventory_only_def consumed_pairs_def)
  qed
next
  case (step_change digest iv rid i chg m)
  then show ?thesis
  proof (cases rule: change_stock_Inr)
    case (recorded ctx item bal amount delta bal1 tr s2)
    note rec = record_transition_business [OF recorded(13)]
    have "same_business s s2" using rec(1) by (simp add: same_business_def add_movement_def save_balance_def)
    moreover have "movements s2 = movements s @ [m]" using rec(2) by (simp add: add_movement_def save_balance_def)
    ultimately show ?thesis using inventory_only_movement [of t s m] same_business_audit
      by (simp add: inventory_only_def recorded(14) recorded(12) change_movement_def)
  qed (simp add: inventory_only_def)
next
  case (step_baseline iv org rid i tr)
  show ?thesis
    by (rule baseline_Inr [OF step_baseline])
      (auto simp: inventory_only_def same_business_def consumed_pairs_def add_episode_def)
qed

lemma order_inv_cong:
  assumes "order_inv s" and "orders t = orders s" "order_items t = order_items s"
    "order_submissions t = order_submissions s" "consumed_pairs t = consumed_pairs s" "next_serial s \<le> next_serial t"
  shows "order_inv t"
proof -
  have "order_ok s x \<longrightarrow> order_ok t x" "line_ok t l = line_ok s l" "processed_order t i = processed_order s i" for x l i
    using assms by (auto simp: order_ok_def line_ok_def processed_order_def items_of_def)
  then show ?thesis using assms by (simp add: order_inv_def)
qed

lemma replace_recipe_Inr:
  assumes "replace_recipe_command iv mid command s = Inr (v, t)"
  obtains ctx item quantities ids ch where
    "recipe_menu_item s ctx mid = Some item" "list_all quantity_valid quantities" "list_all (\<lambda>q. 0 < q) quantities"
    "t = record_audit iv ctx ''menu_item.recipe.updated'' ''menu_item'' (py_str_int mid) (Some (snd item)) ch
       (replace_components mid (zip ids quantities)
         (save_menu_item ((fst item)\<lparr>mi_inventory_tracking := rr_inventory_tracking command\<rparr>) s))"
proof -
  obtain ctx item rid quantities where
    i: "recipe_menu_item s ctx mid = Some (item, rid)"
    and q: "all_results (map (\<lambda>c. quantity True (rci_quantity c)) (rr_components command)) = Inr quantities"
    and t: "t = record_audit iv ctx ''menu_item.recipe.updated'' ''menu_item'' (py_str_int mid) (Some rid) []
       (replace_components mid (zip (map rci_ingredient_id (rr_components command)) quantities)
         (save_menu_item (item\<lparr>mi_inventory_tracking := rr_inventory_tracking command\<rparr>) s))"
    using assms unfolding replace_recipe_command_def Let_def bindR_Inr or_raise_Inr raise_if_Inr
      require_capability_Inr split_paired_Ex prod.case sum.inject prod.inject by blast
  have "quantity_valid x \<and> 0 < x" if "x \<in> set quantities" for x
  proof -
    have "Inr x \<in> set (map (\<lambda>c. quantity True (rci_quantity c)) (rr_components command))"
      using q that by (simp only: all_results_Inr) simp
    then obtain c where "c \<in> set (rr_components command)" "Inr x = quantity True (rci_quantity c)" by auto
    from this(2) [symmetric] show ?thesis unfolding quantity_Inr by (auto simp: quantity_valid_def)
  qed
  with i t show ?thesis by (intro that [of ctx "(item, rid)" quantities]) (auto simp: list_all_iff)
qed

lemma replace_recipe_keeps:
  assumes "replace_recipe_command iv mid command s = Inr (v, t)"
  shows "inventory_inv s \<Longrightarrow> inventory_inv t" "recipe_inv s \<Longrightarrow> recipe_inv t"
    "order_inv s \<Longrightarrow> order_inv t" "ledger_extends s t" "episodes_complete s \<Longrightarrow> episodes_complete t"
    "orders t = orders s \<and> order_submissions t = order_submissions s \<and> consumed_pairs t = consumed_pairs s"
proof -
  obtain ctx item quantities ids ch where q: "list_all quantity_valid quantities" "list_all (\<lambda>q. 0 < q) quantities"
    and t: "t = record_audit iv ctx ''menu_item.recipe.updated'' ''menu_item'' (py_str_int mid) (Some (snd item)) ch
       (replace_components mid (zip ids quantities)
         (save_menu_item ((fst item)\<lparr>mi_inventory_tracking := rr_inventory_tracking command\<rparr>) s))"
    by (rule replace_recipe_Inr [OF assms])
  have tabs: "ingredients t = ingredients s" "balances t = balances s" "movements t = movements s"
    "episodes t = episodes s" "outbox_events t = outbox_events s" "deliveries t = deliveries s"
    "next_uuid s \<le> next_uuid t" "next_serial s \<le> next_serial t" "restaurants t = restaurants s"
    "orders t = orders s" "order_items t = order_items s" "order_submissions t = order_submissions s"
    by (simp_all add: t replace_components_def save_menu_item_def)
  then show "inventory_inv s \<Longrightarrow> inventory_inv t" by (intro inventory_inv_cong [of s t])
  have pairs: "consumed_pairs t = consumed_pairs s" by (simp add: consumed_pairs_def tabs)
  then show "order_inv s \<Longrightarrow> order_inv t" using tabs by (intro order_inv_cong [of s t])
  show "episodes_complete s \<Longrightarrow> episodes_complete t" using episodes_complete_cong tabs by metis
  show "ledger_extends s t" using tabs stock_at_cong [of t s] by (auto simp: ledger_extends_def)
  show "orders t = orders s \<and> order_submissions t = order_submissions s \<and> consumed_pairs t = consumed_pairs s"
    using tabs pairs by simp
  have "\<forall>c \<in> set (component_rows n mid (zip ids quantities)). 0 < rc_quantity c \<and> quantity_valid (rc_quantity c)" for n
    using q by (auto simp: component_rows_def list_all_iff dest!: set_zip_rightD)
  then show "recipe_inv s \<Longrightarrow> recipe_inv t"
    by (auto simp: recipe_inv_def t replace_components_def save_menu_item_def set_delete_where)
qed

section \<open>The kitchen as a state machine\<close>

inductive kitchen_step :: "db \<Rightarrow> db \<Rightarrow> bool" where
  kitchen_inventory: "inventory_step s t \<Longrightarrow> kitchen_step s t"
| kitchen_recipe: "replace_recipe_command iv mid recipe s = Inr (v, t) \<Longrightarrow> kitchen_step s t"
| kitchen_create: "create_order digest iv rid co s = Inr (snapshot, t) \<Longrightarrow> order_items_request_ok (co_items co)
    \<Longrightarrow> kitchen_step s t"
| kitchen_update: "update_order iv oid uo s = Inr (d, t) \<Longrightarrow> update_request_ok uo \<Longrightarrow> kitchen_step s t"
| kitchen_delete: "delete_order iv oid s = Inr t \<Longrightarrow> kitchen_step s t"

inductive_cases kitchen_stepE: "kitchen_step s t"

definition kitchen_ok :: "db \<Rightarrow> bool" where
  "kitchen_ok s = (inventory_state_ok s \<and> order_inv s \<and> recipe_inv s)"

lemma kitchen_okD:
  "kitchen_ok s \<Longrightarrow> inventory_inv s" "kitchen_ok s \<Longrightarrow> order_inv s" "kitchen_ok s \<Longrightarrow> recipe_inv s"
  "kitchen_ok s \<Longrightarrow> scope_inv s" "kitchen_ok s \<Longrightarrow> stock_inv s"
  by (simp_all add: kitchen_ok_def inventory_state_ok_def inventory_inv_def)

lemma orders_only_recipe: "orders_only s t \<Longrightarrow> recipe_inv s \<Longrightarrow> recipe_inv t"
  by (simp add: orders_only_def recipe_inv_def)

lemma kitchen_step_keeps:
  assumes "kitchen_step s t" "kitchen_ok s"
  shows "order_inv t" "recipe_inv t" "inventory_inv t" "ledger_extends s t"
    "episodes_complete s \<Longrightarrow> episodes_complete t"
proof -
  note ok = kitchen_okD [OF assms(2)]
  have "order_inv t \<and> recipe_inv t \<and> inventory_inv t \<and> ledger_extends s t
      \<and> (episodes_complete s \<longrightarrow> episodes_complete t)"
    using assms(1)
  proof (cases rule: kitchen_step.cases)
    case kitchen_inventory
    note only = inventory_step_only [OF this] and ext = inventory_step_extends [OF this ok(1)]
    have "order_inv t"
      by (rule order_inv_cong [OF ok(2)])
        (use only ext in \<open>auto simp: inventory_only_def same_business_def ledger_extends_def\<close>)
    moreover have "recipe_inv t" using only ok(3) by (simp add: inventory_only_def same_business_def recipe_inv_def)
    ultimately show ?thesis using ext ok inventory_step_complete [OF kitchen_inventory ok(1)]
        inventory_step_ok [OF kitchen_inventory] by (auto simp: inventory_state_ok_def)
  next
    case (kitchen_recipe iv mid recipe v)
    then show ?thesis using replace_recipe_keeps [OF kitchen_recipe] ok by blast
  next
    case (kitchen_create digest iv rid co snapshot)
    from create_order_keeps [OF kitchen_create(1) ok(2) kitchen_create(2)] show ?thesis
      using ok orders_only_inventory orders_only_recipe orders_only_extends orders_only_complete by blast
  next
    case (kitchen_update iv oid uo d)
    show ?thesis using update_order_keeps [OF kitchen_update(1) ok(2,1,3) kitchen_update(2)] by blast
  next
    case (kitchen_delete iv oid)
    from delete_order_keeps [OF kitchen_delete ok(2)] show ?thesis
      using ok orders_only_inventory orders_only_recipe orders_only_extends orders_only_complete by blast
  qed
  then show "order_inv t" "recipe_inv t" "inventory_inv t" "ledger_extends s t"
    "episodes_complete s \<Longrightarrow> episodes_complete t" by blast+
qed

lemma kitchen_step_ok: "kitchen_step s t \<Longrightarrow> kitchen_ok s \<Longrightarrow> kitchen_ok t"
proof -
  assume "kitchen_step s t" "kitchen_ok s"
  note keeps = kitchen_step_keeps [OF this] and ok = kitchen_okD [OF this(2)]
  show "kitchen_ok t" using keeps scope_inv_extends [OF keeps(4) ok(4)]
    by (simp add: kitchen_ok_def inventory_state_ok_def)
qed

interpretation kitchen_states: step_invariant kitchen_step kitchen_ok
  by standard (rule kitchen_step_ok)

interpretation kitchen_complete: step_invariant kitchen_step "\<lambda>s. kitchen_ok s \<and> episodes_complete s"
  by standard (auto intro: kitchen_step_ok kitchen_step_keeps)

interpretation kitchen_ledger: step_invariant kitchen_step "\<lambda>u. kitchen_ok u \<and> ledger_extends s u" for s
  by standard (auto intro: kitchen_step_ok kitchen_step_keeps ledger_extends_trans)

end
