(* ===== verification/Order_Properties.thy ===== *)
theory Order_Properties
  imports Order_Lifecycle
begin

text \<open>
  The properties of the order service: acceptance consumes exactly the recipes, once; no other
  operation touches the stock; the lifecycle only moves forward; totals and announcements agree
  with the rows; and a retried creation finds its first outcome.
\<close>

section \<open>A demonstration order\<close>

text \<open>
  A restaurant with salt in stock, one tracked menu item that needs two grams of it, and a submitted
  order for one portion.
\<close>

definition demo_counter :: db where
  "demo_counter = demo_tenancy\<lparr>
     menus := [\<lparr>mnu_id = 1, mnu_restaurant_id = 1, mnu_name = ''Lunch'', mnu_description = None\<rparr>],
     menu_items := [\<lparr>mi_id = 1, mi_menu_id = 1, mi_name = ''Soup'', mi_description = None,
       mi_price = 5 / 2, mi_is_available = True, mi_inventory_tracking = True\<rparr>],
     recipe_components := [\<lparr>rc_id = 1, rc_menu_item_id = 1, rc_ingredient_id = 2, rc_quantity = 2\<rparr>],
     ingredients := [\<lparr>ing_id = 2, ing_restaurant_id = 1, ing_name = ''salt'', ing_normalized_name = ''salt'',
       ing_unit = ''g'', ing_reorder_threshold = 2, ing_is_active = True, ing_state_revision = 1\<rparr>],
     balances := [\<lparr>bal_ingredient_id = 2, bal_quantity = 3, bal_version = 1\<rparr>],
     movements := [\<lparr>mov_id = 3, mov_ingredient_id = 2, mov_kind = ''opening'', mov_quantity_delta = 3,
       mov_balance_after = 3, mov_version_after = 1, mov_actor_user_id = None, mov_order_id = None,
       mov_reason = ''Opening stock'', mov_idempotency_key = Some ''k1'',
       mov_request_fingerprint = Some ''d'', mov_occurred_at = 1\<rparr>],
     orders := [\<lparr>ord_id = 4, ord_restaurant_id = 1, ord_table_number = Some ''4'', ord_customer_name = None,
       ord_status = ''SUBMITTED'', ord_payment_status = ''UNPAID'', ord_notes = None, ord_subtotal = 5 / 2,
       ord_total = 5 / 2, ord_inventory_processed = False, ord_revision = 2, ord_created_at = Naive 1,
       ord_updated_at = Naive 2\<rparr>],
     order_items := [\<lparr>oi_id = 5, oi_order_id = 4, oi_menu_item_id = Some 1, oi_quantity = 1,
       oi_unit_price = 5 / 2, oi_item_name = ''Soup'', oi_line_total = 5 / 2, oi_notes = None\<rparr>],
     next_serial := 7\<rparr>"

definition demo_order_command :: create_order_command where
  "demo_order_command = \<lparr>co_table_number = Some ''4'', co_customer_name = None, co_notes = None,
     co_items = [\<lparr>oic_menu_item_id = 1, oic_quantity = 1, oic_notes = None\<rparr>], co_idempotency_key = ''o1''\<rparr>"

definition demo_status_command :: "string \<Rightarrow> update_order_command" where
  "demo_status_command status = \<lparr>uo_table_number = None, uo_customer_name = None, uo_status = Some status,
     uo_notes = None, uo_items = None, uo_payment_status = None, uo_fields = [''status'']\<rparr>"

lemma demo_counter_ok: "kitchen_ok demo_counter" "episodes_complete demo_counter"
proof -
  have "inventory_state_ok demo_counter" "recipe_inv demo_counter" by code_simp+
  moreover have "unique_keys ord_id (orders demo_counter) \<and> list_all (order_ok demo_counter) (orders demo_counter)
      \<and> list_all (line_ok demo_counter) (order_items demo_counter) \<and> consumed_pairs demo_counter = []
      \<and> order_submissions demo_counter = []" by code_simp
  ultimately show "kitchen_ok demo_counter" by (simp add: kitchen_ok_def order_inv_def list_all_iff)
  show "episodes_complete demo_counter" by code_simp
qed

lemma demo_requests_ok:
  "order_items_request_ok (co_items demo_order_command)" "update_request_ok (demo_status_command status)"
  by (simp_all add: order_items_request_ok_def demo_order_command_def update_request_ok_def demo_status_command_def)

section \<open>Stock\<close>

lemma order_by_key:
  assumes "order_inv s" "order_by_id s ctx oid = Some d"
  shows "by_key ord_id oid (orders s) = Some d"
  using by_key_member [of ord_id "orders s" d] order_by_id_Some [OF assms(2)] assms(1)
  by (simp add: order_inv_def)

text \<open>What one list of movements takes from an ingredient.\<close>

definition delta_of :: "movement list \<Rightarrow> int \<Rightarrow> dec" where
  "delta_of ms i = sum_list (map mov_quantity_delta (filter (\<lambda>m. mov_ingredient_id m = i) ms))"

lemma consumption_delta:
  "list_all2 (consumption_of oid) rows ms \<Longrightarrow> delta_of ms i = - taken rows i"
  by (induction rule: list_all2_induct) (auto simp: delta_of_def taken_def consumption_of_def)

lemma consumption_members:
  "list_all2 (consumption_of oid) rows ms \<Longrightarrow> m \<in> set ms \<Longrightarrow> mov_kind m = ''consumption'' \<and> mov_order_id m = Some oid"
  by (induction rule: list_all2_induct) (auto simp: consumption_of_def)

text \<open>
  C1. Accepting a submitted order consumes exactly its recipes: every ingredient's balance falls by
  the sum, over the tracked menu items of the order, of recipe quantity times ordered portions, and
  the ledger grows by consumption movements of this order that account for precisely those
  amounts; the order is marked as processed.
\<close>

theorem acceptance_consumes_exactly:
  assumes up: "update_order iv oid command s = Inr (d', t)" and ok: "kitchen_ok s"
    and d: "by_key ord_id oid (orders s) = Some d"
    and accept: "ord_status d = ''SUBMITTED''" "ord_status d' = ''ACCEPTED''"
  shows "\<exists>ctx ms. current s (iv_user_id iv) = Inr ctx \<and> movements t = movements s @ ms
    \<and> (\<forall>m \<in> set ms. mov_kind m = ''consumption'' \<and> mov_order_id m = Some oid)
    \<and> (\<forall>i. delta_of ms i =
          - required s (items_of s oid) (tracked_items s ctx (ord_restaurant_id d) (items_of s oid)) i)
    \<and> (\<forall>i. quantity_at t i = quantity_at s i
          - required s (items_of s oid) (tracked_items s ctx (ord_restaurant_id d) (items_of s oid)) i)
    \<and> ord_inventory_processed d'"
proof (rule update_order_effect [OF up kitchen_okD(2) [OF ok]])
  fix ctx e s1 lines u
  assume ctx: "current s (iv_user_id iv) = Inr ctx" and e: "order_by_id s ctx oid = Some e"
    and sp: "stock_part iv ctx e (items_of s oid) d' s s1"
    and lp: "lines_part ctx e (uo_items command) lines d' s s1 u"
    and an: "announce_status iv ctx (ord_status e) d' (audit_update iv ctx command d' (save_order d' u)) = Inr t"
  have de: "e = d" using order_by_key [OF kitchen_okD(2) [OF ok] e] d by simp
  have c: "consume_order_stock iv ctx d (items_of s oid) s = Inr s1" "ord_inventory_processed d'"
    using sp accept by (auto simp: stock_part_def de)
  note eff = consume_order_stock_effect [OF c(1) kitchen_okD(1,3) [OF ok] items_of_positive [OF kitchen_okD(2) [OF ok]]]
  have only: "orders_only s1 t"
    using lines_part_items(4) [OF lp eff(2)] finish_update [OF an] orders_only_trans by blast
  have id: "ord_id d = oid" using by_key_Some [OF d] by simp
  obtain rows ms where ms: "movements s1 = movements s @ ms" "list_all2 (consumption_of oid) rows ms"
    "\<And>i. taken rows i = required s (items_of s oid) (tracked_items s ctx (ord_restaurant_id d) (items_of s oid)) i"
    using eff(6) unfolding id by metis
  have "movements t = movements s @ ms" using ms(1) only by (simp add: orders_only_def)
  moreover have "quantity_at t i = quantity_at s1 i" for i using orders_only_quantity [OF only] by simp
  ultimately show ?thesis
    using ctx c(2) eff(5) consumption_delta [OF ms(2)] consumption_members [OF ms(2)] ms(3) by metis
qed

theorem acceptance_consumes_exactly_witness:
  "\<exists>d' t. update_order demo_invocation 4 (demo_status_command ''accepted'') demo_counter = Inr (d', t)
    \<and> ord_inventory_processed d' \<and> quantity_at demo_counter 2 = 3 \<and> quantity_at t 2 = 1
    \<and> (\<exists>ms. movements t = movements demo_counter @ ms \<and> (\<forall>m \<in> set ms. mov_order_id m = Some 4))"
proof -
  have "succeeds_with (update_order demo_invocation 4 (demo_status_command ''accepted'') demo_counter)
      (\<lambda>(d, t). ord_status d = ''ACCEPTED'' \<and> quantity_at t 2 = 1)" by code_simp
  then obtain d' t where r: "update_order demo_invocation 4 (demo_status_command ''accepted'') demo_counter = Inr (d', t)"
    "ord_status d' = ''ACCEPTED''" "quantity_at t 2 = 1" unfolding succeeds_with_iff by auto
  have "(case by_key ord_id 4 (orders demo_counter) of None \<Rightarrow> False | Some d \<Rightarrow> ord_status d = ''SUBMITTED'')
    \<and> quantity_at demo_counter 2 = 3" by code_simp
  then obtain d where d: "by_key ord_id 4 (orders demo_counter) = Some d" "ord_status d = ''SUBMITTED''"
    "quantity_at demo_counter 2 = 3" by (auto split: option.splits)
  from acceptance_consumes_exactly [OF r(1) demo_counter_ok(1) d(1,2) r(2)] r(1,3) d(3) show ?thesis by blast
qed

text \<open>
  C4. Nothing else of the order service touches the stock: creating an order, deleting one, and
  every update other than the acceptance of a submitted order leave ingredients, balances,
  movements and episodes as they were. In particular a cancellation returns nothing.
\<close>

theorem only_acceptance_moves_stock:
  assumes ok: "kitchen_ok s"
    and op: "(\<exists>digest iv rid co snapshot. create_order digest iv rid co s = Inr (snapshot, t)
          \<and> order_items_request_ok (co_items co))
      \<or> (\<exists>iv oid. delete_order iv oid s = Inr t)
      \<or> (\<exists>iv oid command d d'. update_order iv oid command s = Inr (d', t)
          \<and> by_key ord_id oid (orders s) = Some d
          \<and> \<not> (ord_status d = ''SUBMITTED'' \<and> ord_status d' = ''ACCEPTED''))"
  shows "ingredients t = ingredients s \<and> balances t = balances s \<and> movements t = movements s
    \<and> episodes t = episodes s"
proof -
  have "orders_only s t"
    using op
  proof (elim disjE exE conjE)
    fix iv oid command d d'
    assume up: "update_order iv oid command s = Inr (d', t)" and d: "by_key ord_id oid (orders s) = Some d"
      and no: "\<not> (ord_status d = ''SUBMITTED'' \<and> ord_status d' = ''ACCEPTED'')"
    show ?thesis
    proof (rule update_order_effect [OF up kitchen_okD(2) [OF ok]])
      fix ctx e s1 lines u
      assume e: "order_by_id s ctx oid = Some e"
        and sp: "stock_part iv ctx e (items_of s oid) d' s s1"
        and lp: "lines_part ctx e (uo_items command) lines d' s s1 u"
        and an: "announce_status iv ctx (ord_status e) d' (audit_update iv ctx command d' (save_order d' u)) = Inr t"
      have "e = d" using order_by_key [OF kitchen_okD(2) [OF ok] e] d by simp
      then have "s1 = s" using sp no by (auto simp: stock_part_def)
      then show ?thesis
        using lines_part_items(4) [OF lp] finish_update [OF an] orders_only_trans by fastforce
    qed
  qed (use create_order_keeps delete_order_keeps kitchen_okD(2) [OF ok] in blast)+
  then show ?thesis by (simp add: orders_only_def)
qed

theorem only_acceptance_moves_stock_witness:
  "\<exists>d' t. update_order demo_invocation 4 (demo_status_command ''cancelled'') demo_counter = Inr (d', t)
    \<and> ord_status d' = ''CANCELLED'' \<and> movements t = movements demo_counter"
proof -
  have "succeeds_with (update_order demo_invocation 4 (demo_status_command ''cancelled'') demo_counter)
      (\<lambda>(d, t). ord_status d = ''CANCELLED'')" by code_simp
  then obtain d' t where r: "update_order demo_invocation 4 (demo_status_command ''cancelled'') demo_counter = Inr (d', t)"
    "ord_status d' = ''CANCELLED''" unfolding succeeds_with_iff by auto
  have "by_key ord_id 4 (orders demo_counter) = Some (hd (orders demo_counter))" by (simp add: demo_counter_def)
  with r only_acceptance_moves_stock [OF demo_counter_ok(1), of t] show ?thesis by fastforce
qed

text \<open>
  C3. Stock is consumed at most once per order and ingredient, over any run of the kitchen: the
  ledger never holds two consumption movements of one order for one ingredient, and every
  consumption belongs to an order that still exists and is marked as processed.
\<close>

theorem stock_consumed_at_most_once:
  assumes "kitchen_step\<^sup>*\<^sup>* s t" "kitchen_ok s"
  shows "distinct (consumed_pairs t)
    \<and> (\<forall>m \<in> set (movements t). \<forall>oid. mov_order_id m = Some oid \<longrightarrow>
         (\<exists>d \<in> set (orders t). ord_id d = oid \<and> ord_inventory_processed d))"
proof -
  have inv: "order_inv t" using kitchen_states.reachable_keeps [OF assms] by (rule kitchen_okD(2))
  have "Some oid \<in> fst ` set (consumed_pairs t)" if "m \<in> set (movements t)" "mov_order_id m = Some oid" for m oid
    using that by (force simp: consumed_pairs_def)
  then show ?thesis using inv by (auto simp: order_inv_def processed_order_def)
qed

lemma demo_accept:
  "\<exists>d' t. update_order demo_invocation 4 (demo_status_command ''accepted'') demo_counter = Inr (d', t)
     \<and> ord_status d' = ''ACCEPTED'' \<and> ord_revision d' = 3 \<and> length (consumed_pairs t) = 1"
proof -
  have "succeeds_with (update_order demo_invocation 4 (demo_status_command ''accepted'') demo_counter)
      (\<lambda>(d, t). ord_status d = ''ACCEPTED'' \<and> ord_revision d = 3 \<and> length (consumed_pairs t) = 1)" by code_simp
  then show ?thesis unfolding succeeds_with_iff by auto
qed

theorem stock_consumed_at_most_once_witness:
  "\<exists>t. kitchen_step\<^sup>*\<^sup>* demo_counter t \<and> length (consumed_pairs t) = 1 \<and> distinct (consumed_pairs t)"
proof -
  obtain d' t where r: "update_order demo_invocation 4 (demo_status_command ''accepted'') demo_counter = Inr (d', t)"
    "length (consumed_pairs t) = 1" using demo_accept by blast
  then have "kitchen_step demo_counter t" using kitchen_update demo_requests_ok(2) by blast
  then have "kitchen_step\<^sup>*\<^sup>* demo_counter t" by blast
  with stock_consumed_at_most_once [OF this demo_counter_ok(1)] r(2) show ?thesis by blast
qed

section \<open>Lifecycle\<close>

text \<open>How an order may differ from an earlier state of itself.\<close>

definition order_advances :: "order \<Rightarrow> order \<Rightarrow> bool" where
  "order_advances d d' = (ord_restaurant_id d' = ord_restaurant_id d \<and> ord_created_at d' = ord_created_at d
     \<and> status_rank (ord_status d) \<le> status_rank (ord_status d') \<and> ord_revision d \<le> ord_revision d'
     \<and> (ord_status d \<in> set [''COMPLETED'', ''CANCELLED''] \<longrightarrow> ord_status d' = ord_status d)
     \<and> (ord_revision d' = ord_revision d \<longrightarrow> ord_status d' = ord_status d \<and> ord_total d' = ord_total d
          \<and> ord_payment_status d' = ord_payment_status d))"

lemma order_advances_refl [simp]: "order_advances d d"
  by (simp add: order_advances_def)

lemma order_advances_trans: "order_advances d e \<Longrightarrow> order_advances e f \<Longrightarrow> order_advances d f"
  by (auto simp: order_advances_def)

lemma terminal_status:
  "x \<in> set [''COMPLETED'', ''CANCELLED''] \<Longrightarrow> y = x \<or> y \<in> set (allowed_next x) \<Longrightarrow> y = x"
  by auto

lemma update_order_advances:
  assumes up: "update_order iv oid command s = Inr (d', t)" and inv: "order_inv s"
    and d: "by_key ord_id oid (orders s) = Some d"
  shows "order_advances d d'"
proof (rule update_order_effect [OF up inv])
  fix ctx e s1 lines u
  assume e: "order_by_id s ctx oid = Some e"
    and f: "ord_restaurant_id d' = ord_restaurant_id e" "ord_created_at d' = ord_created_at e"
      "ord_status d' = ord_status e \<or> ord_status d' \<in> set (allowed_next (ord_status e))"
      "ord_revision d' = (if order_state d' lines = order_state e (items_of s oid) then ord_revision e
         else ord_revision e + 1)"
  have de: "e = d" using order_by_key [OF inv e] d by simp
  have "status_rank (ord_status d) \<le> status_rank (ord_status d')"
    using f(3) allowed_next_rank by (fastforce simp: de)
  moreover have "ord_revision d' = ord_revision d \<longrightarrow> ord_status d' = ord_status d \<and> ord_total d' = ord_total d
      \<and> ord_payment_status d' = ord_payment_status d"
    using f(4) by (auto simp: de order_state_def split: if_splits)
  ultimately show ?thesis using f terminal_status by (auto simp: order_advances_def de)
qed

definition orders_advance :: "db \<Rightarrow> db \<Rightarrow> bool" where
  "orders_advance s t = ((\<forall>d \<in> set (orders s). \<forall>d' \<in> set (orders t). ord_id d' = ord_id d \<longrightarrow> order_advances d d')
     \<and> (\<forall>d' \<in> set (orders t). ord_id d' < next_serial s \<longrightarrow> ord_id d' \<in> ord_id ` set (orders s))
     \<and> next_serial s \<le> next_serial t)"

text \<open>Rows that stay as they are, and new rows with fresh identities.\<close>

lemma orders_advanceI:
  assumes "\<forall>e \<in> set (orders t). e \<in> set (orders s) \<or> next_serial s \<le> ord_id e" "order_inv s"
    "next_serial s \<le> next_serial t"
  shows "orders_advance s t"
proof -
  have old: "ord_id d < next_serial s" if "d \<in> set (orders s)" for d
    using assms(2) that by (auto simp: order_inv_def order_ok_def)
  have "order_advances d e" if d: "d \<in> set (orders s)" "e \<in> set (orders t)" "ord_id e = ord_id d" for d e
  proof -
    have "e \<in> set (orders s)" using assms(1) d old [OF d(1)] by force
    then have "e = d" using d unique_keys_eq [of ord_id "orders s" e d] assms(2) by (simp add: order_inv_def)
    then show ?thesis by simp
  qed
  then show ?thesis using assms(1,3) by (fastforce simp: orders_advance_def)
qed

lemma orders_advance_trans:
  assumes "orders_advance s t" "orders_advance t u" "order_inv s"
  shows "orders_advance s u"
proof -
  have "order_advances d f" if d: "d \<in> set (orders s)" and f: "f \<in> set (orders u)" "ord_id f = ord_id d" for d f
  proof -
    have "ord_id f < next_serial t" using d f(2) assms(1,3) by (auto simp: order_inv_def order_ok_def orders_advance_def)
    then obtain e where "e \<in> set (orders t)" "ord_id e = ord_id f" using assms(2) f(1) by (auto simp: orders_advance_def)
    then have "order_advances d e" "order_advances e f" using assms(1,2) d f by (simp_all add: orders_advance_def)
    then show ?thesis by (rule order_advances_trans)
  qed
  moreover have "ord_id f \<in> ord_id ` set (orders s)" if f: "f \<in> set (orders u)" "ord_id f < next_serial s" for f
  proof -
    have "ord_id f < next_serial t" using f(2) assms(1) by (simp add: orders_advance_def)
    then have "ord_id f \<in> ord_id ` set (orders t)" using assms(2) f(1) by (simp add: orders_advance_def)
    then show ?thesis using assms(1) f(2) by (auto simp: orders_advance_def)
  qed
  ultimately show ?thesis using assms(1,2) by (simp add: orders_advance_def)
qed

lemma orders_advance_update:
  assumes up: "update_order iv oid command s = Inr (d', t)" and inv: "order_inv s"
    and ser: "next_serial s \<le> next_serial t"
  shows "orders_advance s t"
proof (rule update_order_effect [OF up inv])
  fix ctx d s1 lines u
  assume d: "order_by_id s ctx oid = Some d"
    and sp: "stock_part iv ctx d (items_of s oid) d' s s1"
    and lp: "lines_part ctx d (uo_items command) lines d' s s1 u" and id: "ord_id d' = oid"
    and an: "announce_status iv ctx (ord_status d) d' (audit_update iv ctx command d' (save_order d' u)) = Inr t"
  note dd = order_by_id_Some [OF d]
  have adv: "order_advances d d'" using update_order_advances [OF up inv order_by_key [OF inv d]] .
  have ot: "orders t = store_row ord_id d' (orders s)"
  proof -
    have "orders s1 = orders s"
    proof (cases "s1 = s")
      case False
      then have c: "consume_order_stock iv ctx d (items_of s oid) s = Inr s1" using sp by (auto simp: stock_part_def)
      then obtain rows where "for_each (consume_row iv ctx (ord_id d)) rows s = Inr s1"
        by (auto simp: consume_order_stock_def res_simps)
      then show ?thesis
        by (rule for_each_invariant [where P = "\<lambda>x. orders x = orders s"])
          (auto simp: consume_row_def Let_def res_simps add_movement_def save_balance_def dest!: record_transition_frame)
    qed simp
    moreover have "orders u = orders s1 \<or> orders u = orders s" using lp by (auto simp: lines_part_def store_lines_def)
    ultimately show ?thesis using finish_update [OF an] by simp
  qed
  have "order_advances e e'" if e: "e \<in> set (orders s)" "e' \<in> set (orders t)" "ord_id e' = ord_id e" for e e'
  proof (cases "ord_id e = oid")
    case True
    then have "e = d" using e(1) dd unique_keys_eq [of ord_id "orders s" e d] inv by (simp add: order_inv_def)
    moreover have "e' = d'" using in_store_row [of e' ord_id d' "orders s"] e ot True id by auto
    ultimately show ?thesis using adv by simp
  next
    case False
    then have "e' \<in> set (orders s)" using in_store_row [of e' ord_id d' "orders s"] e ot id by auto
    then have "e' = e" using e unique_keys_eq [of ord_id "orders s" e' e] inv by (simp add: order_inv_def)
    then show ?thesis by simp
  qed
  moreover have "ord_id e \<in> ord_id ` set (orders s)" if "e \<in> set (orders t)" for e
    using that by (metis ot imageI keys_store_row)
  ultimately show ?thesis using ser by (simp add: orders_advance_def)
qed

lemma kitchen_step_advances:
  assumes "kitchen_step s t" "kitchen_ok s"
  shows "orders_advance s t"
proof -
  note inv = kitchen_okD(2) [OF assms(2)]
  have ser: "next_serial s \<le> next_serial t" using kitchen_step_keeps(4) [OF assms] by (simp add: ledger_extends_def)
  show ?thesis using assms(1)
  proof (cases rule: kitchen_step.cases)
    case kitchen_inventory
    then have "orders t = orders s" using inventory_step_only by (simp add: inventory_only_def same_business_def)
    then show ?thesis using ser inv by (intro orders_advanceI) simp_all
  next
    case (kitchen_recipe iv mid recipe v)
    then have "orders t = orders s" using replace_recipe_keeps(6) by blast
    then show ?thesis using ser inv by (intro orders_advanceI) simp_all
  next
    case (kitchen_create digest iv rid co snapshot)
    have "\<forall>e \<in> set (orders t). e \<in> set (orders s) \<or> next_serial s \<le> ord_id e"
      using kitchen_create(1) by (cases rule: create_order_Inr) (auto simp: new_order_def)
    then show ?thesis using ser inv by (intro orders_advanceI) simp_all
  next
    case (kitchen_update iv oid uo d)
    then show ?thesis using orders_advance_update inv ser by blast
  next
    case (kitchen_delete iv oid)
    have "set (orders t) \<subseteq> set (orders s)"
      by (rule delete_order_Inr [OF kitchen_delete])
        (auto simp: set_delete_where events_only_tables [OF events_only_append])
    then show ?thesis using ser inv by (intro orders_advanceI) auto
  qed
qed

interpretation kitchen_lifecycle: step_invariant kitchen_step "\<lambda>u. kitchen_ok u \<and> orders_advance s u \<and> order_inv s" for s
  by standard (auto intro: kitchen_step_ok orders_advance_trans kitchen_step_advances)



text \<open>
  C22. In every reachable state an order's total is the sum of its lines, each line is its unit price
  times its positive quantity, the status and the payment status are known ones, and an order is
  marked as processed exactly when it was accepted (a cancelled order keeps its mark).
\<close>

theorem order_rows_are_consistent:
  assumes "kitchen_step\<^sup>*\<^sup>* s t" "kitchen_ok s" "d \<in> set (orders t)"
  shows "ord_total d = sum_list (map (\<lambda>l. oi_unit_price l * of_int (oi_quantity l)) (items_of t (ord_id d)))
    \<and> (\<forall>l \<in> set (items_of t (ord_id d)). 0 < oi_quantity l)
    \<and> ord_status d \<in> set order_statuses \<and> ord_payment_status d \<in> set payment_statuses \<and> 1 \<le> ord_revision d
    \<and> (ord_status d \<noteq> ''CANCELLED'' \<longrightarrow> ord_inventory_processed d = (2 \<le> status_rank (ord_status d)))"
proof -
  have inv: "order_inv t" using kitchen_states.reachable_keeps [OF assms(1,2)] by (rule kitchen_okD(2))
  then have ok: "order_ok t d" using assms(3) by (simp add: order_inv_def)
  have lines: "\<forall>l \<in> set (items_of t (ord_id d)). 0 < oi_quantity l \<and> oi_line_total l = oi_unit_price l * of_int (oi_quantity l)"
    using inv by (auto simp: order_inv_def line_ok_def items_of_def)
  then have sums: "map oi_line_total (items_of t (ord_id d)) =
      map (\<lambda>l. oi_unit_price l * of_int (oi_quantity l)) (items_of t (ord_id d))"
    by simp
  have "list_all (\<lambda>x. x \<noteq> ''CANCELLED'' \<longrightarrow> (before_acceptance x \<and> \<not> 2 \<le> status_rank x)
      \<or> (after_acceptance x \<and> 2 \<le> status_rank x)) order_statuses" by code_simp
  then have "ord_status d \<noteq> ''CANCELLED'' \<longrightarrow> (before_acceptance (ord_status d) \<and> \<not> 2 \<le> status_rank (ord_status d))
      \<or> (after_acceptance (ord_status d) \<and> 2 \<le> status_rank (ord_status d))"
    using ok unfolding order_ok_def list_all_iff by blast
  then have "ord_status d \<noteq> ''CANCELLED'' \<longrightarrow> ord_inventory_processed d = (2 \<le> status_rank (ord_status d))"
    using ok unfolding order_ok_def by argo
  then show ?thesis using ok lines unfolding order_ok_def sums by simp
qed

theorem order_rows_are_consistent_witness:
  "ord_total (hd (orders demo_counter))
     = sum_list (map (\<lambda>l. oi_unit_price l * of_int (oi_quantity l)) (items_of demo_counter 4))"
proof -
  have "hd (orders demo_counter) \<in> set (orders demo_counter)" "ord_id (hd (orders demo_counter)) = 4"
    by (simp_all add: demo_counter_def)
  with order_rows_are_consistent [OF rtranclp.rtrancl_refl demo_counter_ok(1)] show ?thesis by metis
qed

section \<open>Announcements\<close>

lemma announce_status_new:
  assumes "announce_status iv ctx previous d s = Inr t" "ord_status d \<noteq> previous" "status_event d = Some (ty, payload)"
  shows "\<exists>e. outbox_events t = outbox_events s @ [e] \<and> raw_event_type (evt_facts e) = event_type_name ty
    \<and> raw_organization_id (evt_facts e) = ac_organization_id ctx \<and> raw_restaurant_id (evt_facts e) = ord_restaurant_id d
    \<and> raw_aggregate_type (evt_facts e) = ''order'' \<and> raw_aggregate_id (evt_facts e) = py_str_int (ord_id d)
    \<and> raw_aggregate_revision (evt_facts e) = ord_revision d"
proof -
  obtain e where "append_command_event iv ty (ac_organization_id ctx) (ord_restaurant_id d)
                ''order'' (ord_id d) (ord_revision d) payload s = Inr (e, t)"
    using assms by (auto simp: announce_status_def res_simps)
  from append_command_event_Inr [OF this] show ?thesis by auto
qed

end
