(* ===== verification/Order_Retries.thy ===== *)
theory Order_Retries
  imports Order_Properties
begin

text \<open>
  Announcements, retries, deletion and role restrictions of the order service.
\<close>

section \<open>Announcements\<close>

lemma update_order_outbox:
  assumes up: "update_order iv oid command s = Inr (d', t)" and inv: "order_inv s"
    and d: "by_key ord_id oid (orders s) = Some d" and ch: "ord_status d' \<noteq> ord_status d"
    and ev: "status_event d' = Some (ty, payload)"
  shows "\<exists>e ctx. current s (iv_user_id iv) = Inr ctx \<and> last (outbox_events t) = e \<and> e \<in> set (outbox_events t)
    \<and> raw_event_type (evt_facts e) = event_type_name ty
    \<and> raw_organization_id (evt_facts e) = ac_organization_id ctx
    \<and> raw_restaurant_id (evt_facts e) = ord_restaurant_id d
    \<and> raw_aggregate_id (evt_facts e) = py_str_int oid
    \<and> raw_aggregate_revision (evt_facts e) = ord_revision d + 1 \<and> ord_revision d' = ord_revision d + 1"
proof (rule update_order_effect [OF up inv])
  fix ctx e s1 lines u
  assume ctx: "current s (iv_user_id iv) = Inr ctx" and e: "order_by_id s ctx oid = Some e"
    and f: "ord_id d' = oid" "ord_restaurant_id d' = ord_restaurant_id e"
      "ord_revision d' = (if order_state d' lines = order_state e (items_of s oid) then ord_revision e
         else ord_revision e + 1)"
    and an: "announce_status iv ctx (ord_status e) d' (audit_update iv ctx command d' (save_order d' u)) = Inr t"
  have de: "e = d" using order_by_key [OF inv e] d by simp
  have rv: "ord_revision d' = ord_revision d + 1" using f(3) ch by (auto simp: de order_state_def)
  from announce_status_new [OF an ch [folded de] ev] rv f(1,2) ctx show ?thesis by (auto simp: de)
qed

text \<open>
  C23. A status change that consumers follow is announced in the same transaction: when an update moves
  an order into submitted, accepted, completed or cancelled, the newest event of the outbox is the
  announcement of that status, for this order, in the caller's organization and the order's
  restaurant, and it carries the order's new revision, one above the old.
\<close>

theorem status_change_is_announced:
  assumes up: "update_order iv oid command s = Inr (d', t)" and ok: "kitchen_ok s"
    and d: "by_key ord_id oid (orders s) = Some d" and ch: "ord_status d' \<noteq> ord_status d"
    and st: "(ord_status d', ty) \<in> set [(''SUBMITTED'', Order_Submitted), (''ACCEPTED'', Order_Accepted),
      (''COMPLETED'', Order_Completed), (''CANCELLED'', Order_Cancelled)]"
  shows "\<exists>e ctx. current s (iv_user_id iv) = Inr ctx \<and> last (outbox_events t) = e \<and> e \<in> set (outbox_events t)
    \<and> raw_event_type (evt_facts e) = event_type_name ty
    \<and> raw_organization_id (evt_facts e) = ac_organization_id ctx
    \<and> raw_restaurant_id (evt_facts e) = ord_restaurant_id d
    \<and> raw_aggregate_id (evt_facts e) = py_str_int oid
    \<and> raw_aggregate_revision (evt_facts e) = ord_revision d + 1 \<and> ord_revision d' = ord_revision d + 1"
proof -
  obtain payload where "status_event d' = Some (ty, payload)" using st by (auto simp: status_event_def)
  from update_order_outbox [OF up kitchen_okD(2) [OF ok] d ch this] show ?thesis .
qed

theorem status_change_is_announced_witness:
  "\<exists>d' t e. update_order demo_invocation 4 (demo_status_command ''accepted'') demo_counter = Inr (d', t)
     \<and> e \<in> set (outbox_events t) \<and> raw_event_type (evt_facts e) = ''order.accepted.v1''
     \<and> raw_aggregate_revision (evt_facts e) = 3"
proof -
  obtain d' t where r: "update_order demo_invocation 4 (demo_status_command ''accepted'') demo_counter = Inr (d', t)"
    "ord_status d' = ''ACCEPTED''" "ord_revision d' = 3" using demo_accept by blast
  have d: "by_key ord_id 4 (orders demo_counter) = Some (hd (orders demo_counter))"
    "ord_status (hd (orders demo_counter)) = ''SUBMITTED''" by (simp_all add: demo_counter_def)
  have "ord_status d' \<noteq> ord_status (hd (orders demo_counter))" using r(2) d(2) by simp
  from status_change_is_announced [OF r(1) demo_counter_ok(1) d(1) this, of Order_Accepted] r show ?thesis
    by auto
qed

section \<open>Retried creation\<close>

text \<open>What stays of an idempotency record; the reference to the order may be cleared.\<close>

definition submission_facts :: "order_submission \<Rightarrow> int \<times> string \<times> string \<times> json" where
  "submission_facts x = (sub_restaurant_id x, sub_idempotency_key x, sub_request_fingerprint x, sub_response_snapshot x)"

definition submissions_kept :: "db \<Rightarrow> db \<Rightarrow> bool" where
  "submissions_kept s t = (submission_facts ` set (order_submissions s) \<subseteq> submission_facts ` set (order_submissions t))"

lemma submissions_kept_same: "order_submissions t = order_submissions s \<Longrightarrow> submissions_kept s t"
  by (simp add: submissions_kept_def)

lemma submissions_kept_trans: "submissions_kept s t \<Longrightarrow> submissions_kept t u \<Longrightarrow> submissions_kept s u"
  by (auto simp: submissions_kept_def)

lemma submission_facts_update:
  "submission_facts ` set (update_where P (\<lambda>x. x\<lparr>sub_order_id := None\<rparr>) xs) = submission_facts ` set xs"
proof -
  have "map submission_facts (update_where P (\<lambda>x. x\<lparr>sub_order_id := None\<rparr>) xs) = map submission_facts xs"
    by (rule map_update_where) (simp add: submission_facts_def)
  from arg_cong [OF this, of set] show ?thesis by simp
qed

lemma kitchen_step_submissions:
  assumes "kitchen_step s t" "kitchen_ok s"
  shows "submissions_kept s t"
  using assms(1)
proof (cases rule: kitchen_step.cases)
  case kitchen_inventory
  then show ?thesis using inventory_step_only
    by (intro submissions_kept_same) (simp add: inventory_only_def same_business_def)
next
  case (kitchen_recipe iv mid recipe v)
  then show ?thesis using replace_recipe_keeps(6) by (intro submissions_kept_same) blast
next
  case (kitchen_create digest iv rid co snapshot)
  from kitchen_create(1) show ?thesis
    by (cases rule: create_order_Inr) (auto simp: submissions_kept_def)
next
  case (kitchen_update iv oid uo d)
  show ?thesis
  proof (rule update_order_effect [OF kitchen_update(1) kitchen_okD(2) [OF assms(2)]])
    fix ctx e s1 lines u
    assume sp: "stock_part iv ctx e (items_of s oid) d s s1"
      and lp: "lines_part ctx e (uo_items uo) lines d s s1 u"
      and an: "announce_status iv ctx (ord_status e) d (audit_update iv ctx uo d (save_order d u)) = Inr t"
    note ok = kitchen_okD [OF assms(2)]
    have "same_business s s1" using stock_part_effect(1) [OF sp ok(1,3) items_of_positive [OF ok(2)]] by blast
    then show ?thesis using lines_part_items(3) [OF lp] finish_update [OF an] by (intro submissions_kept_same) simp
  qed
next
  case (kitchen_delete iv oid)
  show ?thesis
    by (rule delete_order_Inr [OF kitchen_delete])
      (auto simp: submissions_kept_def submission_facts_update events_only_tables [OF events_only_append])
qed

interpretation kitchen_submissions: step_invariant kitchen_step "\<lambda>u. kitchen_ok u \<and> submissions_kept s u" for s
  by standard (auto intro: kitchen_step_ok submissions_kept_trans kitchen_step_submissions)

lemma create_order_stored:
  assumes "create_order digest iv rid command s = Inr (snapshot, t)"
  shows "(rid, co_idempotency_key command, request_fingerprint digest command, snapshot)
    \<in> submission_facts ` set (order_submissions t)"
  using assms
proof (cases rule: create_order_Inr)
  case (replayed ctx sub)
  from select_one_Some [OF replayed(2) [unfolded order_submission_of_def]] replayed(3-5)
  show ?thesis by (force simp: submission_facts_def)
next
  case (created ctx lines subtotal rows sub s1)
  then show ?thesis by (auto simp: submission_facts_def)
qed

lemma submission_found:
  assumes inv: "order_inv s" and "restaurant_exists s ctx rid"
    and "(rid, key, fp, snapshot) \<in> submission_facts ` set (order_submissions s)"
  shows "\<exists>sub. order_submission_of s ctx rid key = Some sub \<and> sub_request_fingerprint sub = fp
    \<and> sub_response_snapshot sub = snapshot"
proof -
  obtain x where x: "x \<in> set (order_submissions s)" "submission_facts x = (rid, key, fp, snapshot)"
    using assms(3) by (metis imageE)
  let ?P = "\<lambda>y. sub_restaurant_id y = rid \<and> sub_idempotency_key y = key \<and> restaurant_exists s ctx rid"
  obtain y where y: "select_one ?P (order_submissions s) = Some y"
    using x assms(2) by (cases "select_one ?P (order_submissions s)") (auto simp: select_one_None submission_facts_def)
  have "inj_on (\<lambda>x. (sub_restaurant_id x, sub_idempotency_key x)) (set (order_submissions s))"
    using inv by (simp add: order_inv_def distinct_map)
  then have "y = x" using select_one_Some [OF y] x by (auto simp: submission_facts_def inj_on_def)
  then show ?thesis using y x(2) by (simp add: order_submission_of_def submission_facts_def)
qed



section \<open>Deletion\<close>

lemma delete_order_effect:
  assumes del: "delete_order iv oid s = Inr t" and acc: "current s (iv_user_id iv) = Inr ctx" "order_by_id s ctx oid = Some d"
  shows "orders t = filter (\<lambda>x. ord_id x \<noteq> oid) (orders s) \<and> items_of t oid = []
      \<and> submission_facts ` set (order_submissions t) = submission_facts ` set (order_submissions s)
      \<and> (\<exists>e. outbox_events t = outbox_events s @ [e] \<and> raw_event_type (evt_facts e) = ''order.deleted.v1''
           \<and> raw_aggregate_id (evt_facts e) = py_str_int oid
           \<and> raw_aggregate_revision (evt_facts e) = ord_revision d + 1)"
proof (rule delete_order_Inr [OF del])
  fix ctx' d' e s2 ch
  assume c': "current s (iv_user_id iv) = Inr ctx'" "order_by_id s ctx' oid = Some d'"
    and ev: "append_command_event iv Order_Deleted (ac_organization_id ctx') (ord_restaurant_id d') ''order'' oid
      (ord_revision d' + 1) (OrderDeletedPayload oid (ord_status d') (Finite (ord_total d')) (ord_created_at d'))
      (record_audit iv ctx' ''order.deleted'' ''order'' (py_str_int oid) (Some (ord_restaurant_id d')) ch s) = Inr (e, s2)"
    and t: "t = s2\<lparr>orders := delete_where (\<lambda>x. ord_id x = oid) (orders s2),
      order_items := delete_where (\<lambda>i. oi_order_id i = oid) (order_items s2),
      order_submissions := update_where (\<lambda>x. sub_order_id x = Some oid)
        (\<lambda>x. x\<lparr>sub_order_id := None\<rparr>) (order_submissions s2)\<rparr>"
  have same: "ctx' = ctx" "d' = d" using c' acc by simp_all
  note tabs = events_only_tables [OF events_only_append [OF ev]]
  from append_command_event_Inr [OF ev]
  have "outbox_events s2 = outbox_events s @ [e]" "raw_event_type (evt_facts e) = ''order.deleted.v1''"
    "raw_aggregate_id (evt_facts e) = py_str_int oid" "raw_aggregate_revision (evt_facts e) = ord_revision d + 1"
    by (auto simp: same(2))
  then show ?thesis using tabs by (simp add: t delete_where_def items_of_def submission_facts_update)
qed



section \<open>Roles\<close>

text \<open>The request names every field it supplies (\<open>model_fields_set\<close>).\<close>

definition update_fields_ok :: "update_order_command \<Rightarrow> bool" where
  "update_fields_ok command =
     ((uo_items command \<noteq> None \<longrightarrow> ''items'' \<in> set (uo_fields command))
      \<and> (uo_payment_status command \<noteq> None \<longrightarrow> ''payment_status'' \<in> set (uo_fields command))
      \<and> (uo_table_number command \<noteq> None \<longrightarrow> ''table_number'' \<in> set (uo_fields command))
      \<and> (uo_customer_name command \<noteq> None \<longrightarrow> ''customer_name'' \<in> set (uo_fields command))
      \<and> (uo_notes command \<noteq> None \<longrightarrow> ''notes'' \<in> set (uo_fields command)))"

lemma employee_authorized:
  assumes "authorize_order_update ctx names st requested = Inr u" "ac_role ctx = EMPLOYEE"
  shows "set names = {''status''} \<and> (\<exists>r. requested = Some r
    \<and> (st = ''ACCEPTED'' \<and> py_upper (py_strip r) = ''PREPARING''
       \<or> st = ''PREPARING'' \<and> py_upper (py_strip r) = ''READY''))"
  using assms by (auto simp: authorize_order_update_def res_simps employee_transitions_def split: option.splits)

lemma employee_transition:
  "py_upper (py_strip r) = ''PREPARING'' \<Longrightarrow> ensure_valid_order_transition ''ACCEPTED'' r = Inr ''PREPARING''"
  "py_upper (py_strip r) = ''READY'' \<Longrightarrow> ensure_valid_order_transition ''PREPARING'' r = Inr ''READY''"
  by (simp_all add: ensure_valid_order_transition_def normalize_order_status_def [of r] order_status_aliases_def Let_def)

text \<open>
  C24. An employee can only start preparation or mark an order ready: a successful update by an
  employee takes an accepted order to preparing or a preparing order to ready, and changes
  neither payment, table, customer, notes, lines, amounts nor stock.
\<close>

theorem employee_updates_are_limited:
  assumes up: "update_order iv oid command s = Inr (d', t)" and ok: "kitchen_ok s"
    and d: "by_key ord_id oid (orders s) = Some d" and fields: "update_fields_ok command"
    and role: "current s (iv_user_id iv) = Inr ctx" "ac_role ctx = EMPLOYEE"
  shows "(ord_status d, ord_status d') \<in> set employee_transitions
    \<and> d' = d\<lparr>ord_status := ord_status d', ord_revision := ord_revision d + 1, ord_updated_at := Naive (iv_now iv)\<rparr>
    \<and> order_items t = order_items s \<and> balances t = balances s \<and> movements t = movements s"
proof (rule update_order_Inr [OF up])
  fix ctx' e d1 s1 d2 d3 lines rvn u
  assume c: "current s (iv_user_id iv) = Inr ctx'" and e: "order_by_id s ctx' oid = Some e"
    and st: "update_status iv ctx' e (items_of s oid) (uo_status command) s = Inr (d1, s1)"
    and dt: "update_details command d1 = Inr d2"
    and it: "update_items ctx' d2 (items_of s oid) (uo_items command) s1 = Inr (d3, lines)"
    and rv: "revise e (items_of s oid) d3 lines = Inr rvn"
    and d': "d' = stamp_update iv e (d3\<lparr>ord_revision := rvn\<rparr>)"
    and u: "u = (if uo_items command = None then s1 else store_lines oid lines s1)"
    and an: "announce_status iv ctx' (ord_status e) d' (audit_update iv ctx' command d' (save_order d' u)) = Inr t"
  have same: "e = d" "ctx' = ctx" using order_by_key [OF kitchen_okD(2) [OF ok] e] d c role(1) by simp_all
  have "authorize_order_update ctx (uo_fields command) (ord_status d) (uo_status command) = Inr ()"
    using up role(1) e by (auto simp: update_order_def res_simps same)
  note emp = employee_authorized [OF this role(2)]
  then obtain r where r: "uo_status command = Some r"
    "ord_status d = ''ACCEPTED'' \<and> py_upper (py_strip r) = ''PREPARING''
     \<or> ord_status d = ''PREPARING'' \<and> py_upper (py_strip r) = ''READY''" by blast
  have none: "uo_items command = None" "uo_payment_status command = None" "uo_table_number command = None"
    "uo_customer_name command = None" "uo_notes command = None"
    using fields emp by (auto simp: update_fields_ok_def)
  obtain st' where s1: "s1 = s" "d1 = d\<lparr>ord_status := st'\<rparr>" "(ord_status d, st') \<in> set employee_transitions"
    using st r employee_transition [of r] by (auto simp: same update_status_def employee_transitions_def)
  have d3: "d3 = d1" "lines = items_of s oid" using dt it none by (auto simp: update_details_def update_items_def)
  have "ord_status d \<noteq> st'" using s1(3) by (auto simp: employee_transitions_def)
  then have "rvn = ord_revision d + 1" using rv by (auto simp: revise_Inr d3 same s1(2) order_state_def)
  then have eq: "d3\<lparr>ord_revision := rvn\<rparr> = d\<lparr>ord_status := st', ord_revision := ord_revision d + 1\<rparr>" (is "_ = ?n")
    by (simp add: d3 s1(2))
  have "ord_status ?n \<noteq> ord_status d" using \<open>ord_status d \<noteq> st'\<close> by simp
  then have "?n \<noteq> d" by metis
  then have d'': "d' = d\<lparr>ord_status := st', ord_revision := ord_revision d + 1, ord_updated_at := Naive (iv_now iv)\<rparr>"
    unfolding d' eq same stamp_update_def by simp
  have "u = s" using none(1) s1(1) u by simp
  then show ?thesis using s1(3) finish_update [OF an] by (simp add: d'' orders_only_def)
qed

text \<open>The demonstration tenancy with an employee of the restaurant and an accepted order.\<close>

definition demo_shift :: db where
  "demo_shift = demo_counter\<lparr>
     memberships := memberships demo_counter @ [\<lparr>mem_id = 50, mem_user_id = 150, mem_organization_id = 1,
       mem_role = EMPLOYEE, mem_status = ''active'', mem_created_at = 1\<rparr>],
     restaurant_assignments := [\<lparr>asg_membership_id = 50, asg_restaurant_id = 1, asg_organization_id = 1\<rparr>],
     orders := map (\<lambda>d. d\<lparr>ord_status := ''ACCEPTED'', ord_inventory_processed := True\<rparr>) (orders demo_counter)\<rparr>"

lemma demo_shift_ok: "kitchen_ok demo_shift"
proof -
  have "inventory_state_ok demo_shift" "recipe_inv demo_shift" by code_simp+
  moreover have "unique_keys ord_id (orders demo_shift) \<and> list_all (order_ok demo_shift) (orders demo_shift)
      \<and> list_all (line_ok demo_shift) (order_items demo_shift) \<and> consumed_pairs demo_shift = []
      \<and> order_submissions demo_shift = []" by code_simp
  ultimately show ?thesis by (simp add: kitchen_ok_def order_inv_def list_all_iff)
qed

theorem employee_updates_are_limited_witness:
  "\<exists>d' t. update_order (demo_invocation\<lparr>iv_user_id := 150\<rparr>) 4 (demo_status_command ''preparing'') demo_shift = Inr (d', t)
     \<and> ord_status d' = ''PREPARING'' \<and> balances t = balances demo_shift"
proof -
  have "succeeds_with (update_order (demo_invocation\<lparr>iv_user_id := 150\<rparr>) 4 (demo_status_command ''preparing'') demo_shift)
      (\<lambda>(d, t). ord_status d = ''PREPARING'')
    \<and> succeeds_with (current demo_shift 150) (\<lambda>ctx. ac_role ctx = EMPLOYEE)
    \<and> by_key ord_id 4 (orders demo_shift) \<noteq> None \<and> update_fields_ok (demo_status_command ''preparing'')" by code_simp
  then obtain d' t ctx d where r:
    "update_order (demo_invocation\<lparr>iv_user_id := 150\<rparr>) 4 (demo_status_command ''preparing'') demo_shift = Inr (d', t)"
    "ord_status d' = ''PREPARING''" "current demo_shift 150 = Inr ctx" "ac_role ctx = EMPLOYEE"
    "by_key ord_id 4 (orders demo_shift) = Some d" "update_fields_ok (demo_status_command ''preparing'')"
    unfolding succeeds_with_iff by auto
  from employee_updates_are_limited [OF r(1) demo_shift_ok r(5,6)] r show ?thesis by auto
qed

end
