(* ===== verification/Delivery.thy ===== *)
theory Delivery
  imports Outbox
begin

text \<open>
  Delivery of outbox events to their consumers: the fenced PostgreSQL operations of the relay
  (\<open>events/repo/worker_queries.py\<close>), the execution service that claims, runs and settles attempts
  (\<open>events/execution.py\<close>, \<open>events/repo/delivery_queries.py\<close>) and the operator's use cases
  (\<open>events/operator.py\<close>). Each definition is one transaction; the clock readings and whether
  another transaction holds the row lock are arguments. Test hooks, logging and metrics are left
  out.
\<close>

section \<open>Failures\<close>

text \<open>
  The exceptions the classifier tells apart. \<open>DBAPI_Error\<close> carries whether it is an
  \<open>IntegrityError\<close>, whether the connection was invalidated, and the SQLSTATE of the driver's error.
\<close>

datatype failure_cause =
    Dependency_Unavailable | Pool_Timeout | OS_Error | Timeout_Error | Event_Transient
  | DBAPI_Error bool bool "string option"
  | Other_Error "string option"

record failure =
  fl_category :: string
  fl_infrastructure :: bool
  fl_permanent :: bool

definition failure_code :: "failure_cause \<Rightarrow> string option" where
  "failure_code e = (case e of DBAPI_Error _ _ c \<Rightarrow> c | Other_Error c \<Rightarrow> c | _ \<Rightarrow> None)"

definition starts_with :: "string \<Rightarrow> string \<Rightarrow> bool" where
  "starts_with pre s = (take (length pre) s = pre)"

definition code_matches :: "(string \<Rightarrow> bool) \<Rightarrow> string option \<Rightarrow> bool" where
  "code_matches P c = (case c of None \<Rightarrow> False | Some s \<Rightarrow> P s)"

definition classify_failure :: "failure_cause \<Rightarrow> failure" where
  "classify_failure e =
     (if e = Dependency_Unavailable then
        \<lparr>fl_category = ''dependency_unavailable'', fl_infrastructure = True, fl_permanent = False\<rparr>
      else if e \<in> {Pool_Timeout, OS_Error, Timeout_Error} then
        \<lparr>fl_category = ''postgres_unavailable'', fl_infrastructure = True, fl_permanent = False\<rparr>
      else if (case e of DBAPI_Error _ invalidated _ \<Rightarrow> invalidated | _ \<Rightarrow> False)
        \<or> code_matches (\<lambda>c. list_ex (\<lambda>p. starts_with p c) [''08'', ''28'', ''53'']
            \<or> c \<in> set [''57P01'', ''57P02'', ''57P03'', ''58030'']) (failure_code e) then
        \<lparr>fl_category = ''postgres_unavailable'', fl_infrastructure = True, fl_permanent = False\<rparr>
      else if (case e of DBAPI_Error integrity _ _ \<Rightarrow> integrity | _ \<Rightarrow> False)
        \<or> code_matches (starts_with ''23'') (failure_code e) then
        \<lparr>fl_category = ''event_constraint'', fl_infrastructure = False, fl_permanent = True\<rparr>
      else if code_matches (\<lambda>c. c \<in> set [''40001'', ''40P01'']) (failure_code e) then
        \<lparr>fl_category = ''event_transient'', fl_infrastructure = False, fl_permanent = False\<rparr>
      else if e = Event_Transient then
        \<lparr>fl_category = ''event_transient'', fl_infrastructure = False, fl_permanent = False\<rparr>
      else \<lparr>fl_category = ''handler_failure'', fl_infrastructure = False, fl_permanent = False\<rparr>)"

text \<open>The cause the classifier sees for an error of the modelled handlers.\<close>

definition cause_of :: "app_error \<Rightarrow> failure_cause" where
  "cause_of e = (case e of IntegrityError _ \<Rightarrow> DBAPI_Error True False (Some ''23505'')
     | DataError _ \<Rightarrow> DBAPI_Error False False (Some ''22003'')
     | _ \<Rightarrow> Other_Error None)"

section \<open>Records of the execution service\<close>

record execution_result =
  er_outcome :: string
  er_acknowledge :: bool
  er_correlation_id :: "string option"

record attempt_claim =
  cl_event :: envelope
  cl_consumer :: consumer
  cl_token :: uuid
  cl_attempt_id :: uuid
  cl_attempt_number :: int
  cl_retry_cycle :: int
  cl_replay_id :: "uuid option"
  cl_traceparent :: "string option"

text \<open>What the service is configured with; the delay for infrastructure failures is in seconds.\<close>

record execution_config =
  cfg_max_attempts :: int
  cfg_lease_seconds :: int
  cfg_infrastructure_delay :: dec

text \<open>The metadata of a stream reference, as the mapping of strings the transport delivers.\<close>

record reference =
  ref_event_id :: "string option"
  ref_event_type :: "string option"
  ref_schema_version :: "string option"
  ref_correlation_id :: "string option"

text \<open>
  A consumer's effect runs in the caller's transaction and returns its durable outcome; the
  registry maps every consumer to its effect, or to \<open>None\<close> when there is no implementation.
\<close>

type_synonym effect = "envelope \<Rightarrow> db \<Rightarrow> (string \<times> db) result"
type_synonym registry = "consumer \<Rightarrow> effect option"

section \<open>Queries\<close>

definition outbox_event_by_id :: "db \<Rightarrow> uuid \<Rightarrow> outbox_event option" where
  "outbox_event_by_id s event_id = by_key evt_event_id event_id (outbox_events s)"

definition lock_delivery :: "db \<Rightarrow> uuid \<Rightarrow> consumer \<Rightarrow> delivery option" where
  "lock_delivery s event_id c = select_one (\<lambda>d. dlv_event_id d = event_id \<and> dlv_consumer d = c) (deliveries s)"

definition receipt_of :: "db \<Rightarrow> uuid \<Rightarrow> consumer \<Rightarrow> receipt option" where
  "receipt_of s event_id c = select_one (\<lambda>r. rcp_consumer r = c \<and> rcp_event_id r = event_id) (receipts s)"

definition max_or_zero :: "int list \<Rightarrow> int" where
  "max_or_zero xs = (if xs = [] then 0 else Max (set xs))"

definition next_attempt_number :: "db \<Rightarrow> delivery \<Rightarrow> int" where
  "next_attempt_number s d = max_or_zero (map att_attempt_number
     (filter (\<lambda>a. att_delivery_id a = dlv_id d \<and> att_retry_cycle a = dlv_retry_cycle d) (attempts s))) + 1"

definition is_running_of :: "uuid \<Rightarrow> attempt \<Rightarrow> bool" where
  "is_running_of delivery_id a = (att_delivery_id a = delivery_id \<and> att_status a = Att_Running)"

definition replay_identity :: "db \<Rightarrow> delivery \<Rightarrow> uuid option" where
  "replay_identity s d = map_option rpl_id
     (select_one (\<lambda>r. rpl_delivery_id r = dlv_id d \<and> rpl_to_cycle r = dlv_retry_cycle d) (replays s))"

definition save_delivery :: "delivery \<Rightarrow> db \<Rightarrow> db" where
  "save_delivery d s = s\<lparr>deliveries := store_row dlv_id d (deliveries s)\<rparr>"

definition save_attempt :: "attempt \<Rightarrow> db \<Rightarrow> db" where
  "save_attempt a s = s\<lparr>attempts := store_row att_id a (attempts s)\<rparr>"

definition clear_claim :: "delivery \<Rightarrow> delivery" where
  "clear_claim d = d\<lparr>dlv_claim_token := None, dlv_claim_owner := None, dlv_claimed_at := None,
     dlv_claim_expires_at := None\<rparr>"

text \<open>Attempts left running by a worker that lost its lease are closed.\<close>

definition interrupt_attempts :: "uuid \<Rightarrow> instant \<Rightarrow> db \<Rightarrow> db" where
  "interrupt_attempts delivery_id now s = s\<lparr>attempts := update_where (is_running_of delivery_id)
     (\<lambda>a. a\<lparr>att_status := Att_Failed, att_error_category := Some ''worker_interrupted'',
            att_finished_at := Some now\<rparr>) (attempts s)\<rparr>"

text \<open>Microseconds of \<open>timedelta(seconds=q)\<close>, which rounds half to even.\<close>

definition timedelta_us :: "dec \<Rightarrow> int" where
  "timedelta_us q = (let x = q * 1000000; f = \<lfloor>x\<rfloor>; r = x - of_int f in
     if r < 1 / 2 then f else if r > 1 / 2 then f + 1 else if even f then f else f + 1)"

section \<open>Starting an attempt\<close>

definition outcome :: "string \<Rightarrow> bool \<Rightarrow> string option \<Rightarrow> execution_result" where
  "outcome name acknowledge correlation =
     \<lparr>er_outcome = name, er_acknowledge = acknowledge, er_correlation_id = correlation\<rparr>"

definition reference_matches :: "reference \<Rightarrow> outbox_event \<Rightarrow> bool" where
  "reference_matches ref event = (let facts = evt_facts event in
     ref_event_id ref = Some (py_str_uuid (raw_event_id facts))
     \<and> ref_event_type ref = Some (raw_event_type facts)
     \<and> ref_schema_version ref = Some (py_str_int (raw_schema_version facts))
     \<and> ref_correlation_id ref = Some (raw_correlation_id facts))"

definition is_unsubscribed :: "outbox_event \<Rightarrow> consumer \<Rightarrow> bool" where
  "is_unsubscribed event c = (case supported_event_type (raw_event_type (evt_facts event)) of
     None \<Rightarrow> False | Some ty \<Rightarrow> c \<notin> set (consumers_for ty))"

definition contract_failure :: "envelope result \<Rightarrow> string option" where
  "contract_failure decoded = (case decoded of Inr _ \<Rightarrow> None
     | Inl (UnsupportedEventVersion _) \<Rightarrow> Some ''unsupported_version''
     | Inl _ \<Rightarrow> Some ''invalid_payload'')"

definition new_attempt :: "delivery \<Rightarrow> db \<Rightarrow> string option \<Rightarrow> instant \<Rightarrow> attempt" where
  "new_attempt d s category now =
     \<lparr>att_id = next_uuid s + 1, att_delivery_id = dlv_id d, att_retry_cycle = dlv_retry_cycle d,
      att_attempt_number = next_attempt_number s d,
      att_status = (if category = None then Att_Running else Att_Failed),
      att_claim_token = Some (next_uuid s), att_started_at = now,
      att_finished_at = (if category = None then None else Some now), att_error_category = category\<rparr>"

definition start_processing ::
  "execution_config \<Rightarrow> string option \<Rightarrow> uuid \<Rightarrow> string \<Rightarrow> instant \<Rightarrow> delivery \<Rightarrow> delivery" where
  "start_processing cfg category token worker_id now d =
     d\<lparr>dlv_attempt_count := dlv_attempt_count d + 1,
       dlv_status := (if category = None then Processing else Failed),
       dlv_last_error_category := category, dlv_claim_token := Some token,
       dlv_claim_owner := Some worker_id, dlv_claimed_at := Some now,
       dlv_claim_expires_at := Some (now + cfg_lease_seconds cfg * 1000000)\<rparr>"

text \<open>The part of \<open>_start\<close> after the delivery was found free: it decodes the event and claims.\<close>

definition begin_attempt ::
  "registry \<Rightarrow> execution_config \<Rightarrow> outbox_event \<Rightarrow> delivery \<Rightarrow> consumer \<Rightarrow> string option \<Rightarrow> string
     \<Rightarrow> instant \<Rightarrow> db \<Rightarrow> (execution_result + attempt_claim) \<times> db" where
  "begin_attempt registry cfg event d c correlation worker_id now s =
     (let decoded = deserialize_event (evt_facts event); category = contract_failure decoded in
      if (case decoded of Inl _ \<Rightarrow> False | Inr env \<Rightarrow> c \<notin> set (consumers_for (env_event_type env)))
      then (Inl (outcome ''subscription_conflict'' False correlation), s)
      else if category = None \<and> registry c = None
      then (Inl (outcome ''handler_unavailable'' False correlation), s)
      else if dlv_attempt_count d \<ge> cfg_max_attempts cfg
      then (Inl (outcome ''durable_failure_acknowledged'' True correlation),
            save_delivery (clear_claim (d\<lparr>dlv_status := Failed,
              dlv_last_error_category := Some ''attempt_limit''\<rparr>)) s)
      else
        let token = next_uuid s; a = new_attempt d s category now;
            s1 = s\<lparr>attempts := attempts s @ [a], next_uuid := next_uuid s + 2\<rparr>;
            d1 = start_processing cfg category token worker_id now d in
        case (category, decoded) of
          (None, Inr env) \<Rightarrow>
            (Inr \<lparr>cl_event = env, cl_consumer = c, cl_token = token, cl_attempt_id = att_id a,
                  cl_attempt_number = att_attempt_number a, cl_retry_cycle = dlv_retry_cycle d1,
                  cl_replay_id = replay_identity s1 d1, cl_traceparent = evt_traceparent event\<rparr>,
             save_delivery d1 s1)
        | (Some name, _) \<Rightarrow>
            (Inl (outcome name True correlation), save_delivery (clear_claim d1) s1)
        | (None, Inl _) \<Rightarrow> (Inl (outcome ''handler_unavailable'' False correlation), s))"

definition start_delivery ::
  "registry \<Rightarrow> execution_config \<Rightarrow> outbox_event \<Rightarrow> delivery \<Rightarrow> consumer \<Rightarrow> string option \<Rightarrow> string
     \<Rightarrow> instant \<Rightarrow> db \<Rightarrow> (execution_result + attempt_claim) \<times> db" where
  "start_delivery registry cfg event d c correlation worker_id now s =
     (let received = receipt_of s (dlv_event_id d) c \<noteq> None in
      if received \<and> dlv_status d = Succeeded
      then (Inl (outcome ''durable_receipt_acknowledged'' True correlation), s)
      else if dlv_status d = Failed
      then (Inl (outcome ''durable_failure_acknowledged'' True correlation), s)
      else if dlv_status d = Succeeded \<or> received
      then (Inl (outcome ''inconsistent_receipt_retained'' False correlation), s)
      else if dlv_next_attempt_at d > now
      then (Inl (outcome ''subscribed_delivery_not_due'' False correlation), s)
      else if dlv_status d = Processing
        \<and> (case dlv_claim_expires_at d of None \<Rightarrow> False | Some e \<Rightarrow> e > now)
      then (Inl (outcome ''consumer_claim_active'' False correlation), s)
      else if dlv_status d = Processing then
        let s1 = interrupt_attempts (dlv_id d) now s; d1 = clear_claim (d\<lparr>dlv_status := Pending\<rparr>) in
        if dlv_attempt_count d1 \<ge> cfg_max_attempts cfg
        then (Inl (outcome ''durable_failure_acknowledged'' True correlation),
              save_delivery (d1\<lparr>dlv_status := Failed, dlv_last_error_category := Some ''attempt_limit''\<rparr>) s1)
        else begin_attempt registry cfg event d1 c correlation worker_id now (save_delivery d1 s1)
      else begin_attempt registry cfg event d c correlation worker_id now s)"

text \<open>
  \<open>_start\<close>. The row lock is taken with \<open>skip_locked\<close>: when another transaction holds it
  (\<open>busy\<close>), the delivery is not seen.
\<close>

definition start_attempt ::
  "registry \<Rightarrow> execution_config \<Rightarrow> uuid \<Rightarrow> consumer \<Rightarrow> reference \<Rightarrow> string \<Rightarrow> bool \<Rightarrow> instant \<Rightarrow> db
     \<Rightarrow> (execution_result + attempt_claim) \<times> db" where
  "start_attempt registry cfg event_id c ref worker_id busy now s =
     (case outbox_event_by_id s event_id of
        None \<Rightarrow> (Inl (outcome ''event_not_found'' False None), s)
      | Some event \<Rightarrow>
          if \<not> reference_matches ref event then (Inl (outcome ''reference_conflict'' False None), s)
          else
            let correlation = Some (safe_identifier (raw_correlation_id (evt_facts event))) in
            case (if busy then None else lock_delivery s event_id c) of
              None \<Rightarrow>
                (Inl (outcome (if is_unsubscribed event c then ''unsubscribed_acknowledged''
                   else ''delivery_missing_or_busy'') (is_unsubscribed event c) correlation), s)
            | Some d \<Rightarrow> start_delivery registry cfg event d c correlation worker_id now s)"

section \<open>Effect and settlement\<close>

definition holds_claim :: "attempt_claim \<Rightarrow> delivery \<Rightarrow> bool" where
  "holds_claim claim d = (dlv_status d = Processing \<and> dlv_claim_token d = Some (cl_token claim))"

definition superseded :: execution_result where
  "superseded = outcome ''claim_superseded'' False None"

text \<open>\<open>_effect\<close>: the handler, the receipt and the settled delivery in one transaction.\<close>

definition run_effect ::
  "registry \<Rightarrow> attempt_claim \<Rightarrow> instant \<Rightarrow> instant \<Rightarrow> db \<Rightarrow> (execution_result \<times> db) result" where
  "run_effect registry claim now finished s =
     (let event_id = env_event_id (cl_event claim); c = cl_consumer claim in
      case lock_delivery s event_id c of
        None \<Rightarrow> Inr (superseded, s)
      | Some d \<Rightarrow>
          if \<not> holds_claim claim d then Inr (superseded, s)
          else if (case dlv_claim_expires_at d of None \<Rightarrow> True | Some e \<Rightarrow> e \<le> now)
          then Inr (outcome ''claim_expired'' False None, s)
          else
            or_raise (registry c) (AssertionError ''handler'') (\<lambda>handler.
            bindR (handler (cl_event claim) s) (\<lambda>(result, s1).
            raise_if (result \<notin> set [''processed'', ''skipped''])
              (ValueError ''Handler must return a durable outcome'') (
            raise_if (receipt_of s1 event_id c \<noteq> None) (IntegrityError ''event_receipts_pkey'') (
            let s2 = s1\<lparr>receipts := receipts s1 @ [\<lparr>rcp_consumer = c, rcp_event_id = event_id,
                  rcp_outcome = (if result = ''skipped'' then Skipped else Processed)\<rparr>]\<rparr>;
                d1 = clear_claim (d\<lparr>dlv_status := Succeeded, dlv_last_error_category := None\<rparr>) in
            or_raise (by_key att_id (cl_attempt_id claim) (attempts s2)) (AssertionError ''attempt'') (\<lambda>a.
            Inr (outcome ''consumer_committed'' True (Some (env_correlation_id (cl_event claim))),
                 save_attempt (a\<lparr>att_status := (if result = ''skipped'' then Att_Skipped else Att_Succeeded),
                   att_finished_at := Some finished\<rparr>) (save_delivery d1 s2))))))))"

text \<open>\<open>_finish_failure\<close>; \<open>jitter\<close> is the value drawn for the retry delay.\<close>

definition failure_delay :: "execution_config \<Rightarrow> failure \<Rightarrow> int \<Rightarrow> dec \<Rightarrow> dec result" where
  "failure_delay cfg failure attempt_count jitter =
     (if fl_infrastructure failure then Inr (cfg_infrastructure_delay cfg)
      else delay_seconds attempt_count jitter)"

definition finish_failure ::
  "execution_config \<Rightarrow> attempt_claim \<Rightarrow> failure \<Rightarrow> dec \<Rightarrow> instant \<Rightarrow> db \<Rightarrow> (execution_result \<times> db) result" where
  "finish_failure cfg claim failure jitter now s =
     (case lock_delivery s (env_event_id (cl_event claim)) (cl_consumer claim) of
        None \<Rightarrow> Inr (superseded, s)
      | Some d \<Rightarrow>
          if \<not> holds_claim claim d then Inr (superseded, s)
          else
            or_raise (by_key att_id (cl_attempt_id claim) (attempts s)) (AssertionError ''attempt'') (\<lambda>a.
            let a1 = a\<lparr>att_status := Att_Failed, att_error_category := Some (fl_category failure),
                  att_finished_at := Some now\<rparr>;
                count = (if fl_infrastructure failure then dlv_attempt_count d - 1 else dlv_attempt_count d);
                terminal = (fl_permanent failure
                  \<or> \<not> fl_infrastructure failure \<and> count \<ge> cfg_max_attempts cfg) in
            bindR (failure_delay cfg failure count jitter) (\<lambda>delay.
            let d1 = clear_claim (d\<lparr>dlv_attempt_count := count,
                  dlv_status := (if terminal then Failed else Pending),
                  dlv_last_error_category := Some (fl_category failure),
                  dlv_next_attempt_at := now + timedelta_us delay, dlv_published_at := None\<rparr>) in
            Inr (outcome (if terminal then ''consumer_failed'' else ''consumer_retry_scheduled'') terminal
                   (Some (env_correlation_id (cl_event claim))),
                 save_attempt a1 (save_delivery d1 s)))))"

text \<open>\<open>settle_failures\<close>: attempts whose failure could not be recorded when it happened.\<close>

definition settle_failures ::
  "execution_config \<Rightarrow> dec \<Rightarrow> instant \<Rightarrow> (attempt_claim \<times> failure) list \<Rightarrow> db \<Rightarrow> db result" where
  "settle_failures cfg jitter now unsettled s =
     for_each (\<lambda>(claim, failure) s. bindR (finish_failure cfg claim failure jitter now s) (\<lambda>(_, s1). Inr s1))
       unsettled s"

text \<open>
  \<open>execute\<close>: settle, start, run the effect; when it raises, record the failure in a transaction
  of its own. An infrastructure failure is reported to the worker loop as an outage.
\<close>

definition execute ::
  "registry \<Rightarrow> execution_config \<Rightarrow> uuid \<Rightarrow> consumer \<Rightarrow> reference \<Rightarrow> string \<Rightarrow> bool \<Rightarrow> dec
     \<Rightarrow> instant \<Rightarrow> instant \<Rightarrow> instant \<Rightarrow> (attempt_claim \<times> failure) list \<Rightarrow> db
     \<Rightarrow> ((failure_cause + execution_result) \<times> db) result" where
  "execute registry cfg event_id c ref worker_id busy jitter t0 t1 t2 unsettled s =
     bindR (settle_failures cfg jitter t0 unsettled s) (\<lambda>s0.
     case start_attempt registry cfg event_id c ref worker_id busy t0 s0 of
       (Inl r, s1) \<Rightarrow> Inr (Inr r, s1)
     | (Inr claim, s1) \<Rightarrow>
         (case run_effect registry claim t1 t2 s1 of
            Inr (r, s2) \<Rightarrow> Inr (Inr r, s2)
          | Inl e \<Rightarrow>
              let failure = classify_failure (cause_of e) in
              bindR (finish_failure cfg claim failure jitter t2 s1) (\<lambda>(r, s2).
              Inr (if fl_infrastructure failure then Inl Dependency_Unavailable else Inr r, s2))))"

definition recover_delivery :: "execution_config \<Rightarrow> instant \<Rightarrow> delivery \<Rightarrow> db \<Rightarrow> db" where
  "recover_delivery cfg now d s =
     save_delivery (clear_claim (d\<lparr>
       dlv_status := (if dlv_attempt_count d \<ge> cfg_max_attempts cfg then Failed else Pending),
       dlv_last_error_category := Some ''worker_interrupted'', dlv_next_attempt_at := now,
       dlv_published_at := None\<rparr>)) (interrupt_attempts (dlv_id d) now s)"

text \<open>\<open>recover_expired\<close>, after the settlement; \<open>skip_locked\<close> leaves out rows another worker holds.\<close>

definition expired_deliveries :: "(uuid \<Rightarrow> bool) \<Rightarrow> nat \<Rightarrow> instant \<Rightarrow> db \<Rightarrow> delivery list" where
  "expired_deliveries locked limit now s =
     take limit (sort_key (\<lambda>d. case dlv_claim_expires_at d of None \<Rightarrow> 0 | Some e \<Rightarrow> e)
       (filter (\<lambda>d. dlv_status d = Processing
          \<and> (case dlv_claim_expires_at d of None \<Rightarrow> False | Some e \<Rightarrow> e \<le> now)
          \<and> \<not> locked (dlv_id d)) (deliveries s)))"

definition recover_expired ::
  "execution_config \<Rightarrow> (uuid \<Rightarrow> bool) \<Rightarrow> nat \<Rightarrow> instant \<Rightarrow> db \<Rightarrow> int \<times> db" where
  "recover_expired cfg locked limit now s =
     (let rows = expired_deliveries locked limit now s in
      (int (length rows), fold (recover_delivery cfg now) rows s))"

end
