(* ===== verification/Relay.thy ===== *)
theory Relay
  imports Delivery "HOL-Library.Product_Lexorder"
begin

text \<open>
  The relay's side of delivery (\<open>events/repo/worker_queries.py\<close>, behind \<open>EventWorkerService\<close>): it
  claims due deliveries for publication, records or defers the publication under the claim's fence,
  and forgets publications lost with the stream; the backlog reads; and the operator's use cases of
  \<open>events/operator.py\<close>. Each definition is one transaction, \<open>now\<close> the database clock and
  \<open>locked\<close> the rows that other transactions hold (\<open>skip_locked\<close>).
\<close>

section \<open>Relay claims\<close>

record relay_claim =
  rlc_delivery_id :: uuid
  rlc_event_id :: uuid
  rlc_consumer :: consumer
  rlc_event_type :: string
  rlc_schema_version :: int
  rlc_correlation_id :: string
  rlc_claim_token :: uuid
  rlc_claim_owner :: string
  rlc_traceparent :: "string option"

definition subscribed_route_pairs :: "(string \<times> consumer) list" where
  "subscribed_route_pairs =
     concat (map (\<lambda>ty. map (\<lambda>c. (event_type_name ty, c)) (consumers_for ty)) all_event_types)"

definition claim_lapsed :: "instant \<Rightarrow> delivery \<Rightarrow> bool" where
  "claim_lapsed now d = (dlv_claim_token d = None
     \<or> (case dlv_claim_expires_at d of None \<Rightarrow> False | Some e \<Rightarrow> e \<le> now))"

definition publishable :: "int \<Rightarrow> instant \<Rightarrow> db \<Rightarrow> delivery \<Rightarrow> bool" where
  "publishable republish_after_seconds now s d =
     (dlv_status d = Pending \<and> dlv_next_attempt_at d \<le> now \<and> claim_lapsed now d
     \<and> (case dlv_published_at d of None \<Rightarrow> True
        | Some p \<Rightarrow> p \<le> now - republish_after_seconds * 1000000)
     \<and> (case outbox_event_by_id s (dlv_event_id d) of None \<Rightarrow> False
        | Some e \<Rightarrow> (raw_event_type (evt_facts e), dlv_consumer d) \<in> set subscribed_route_pairs))"

definition due_deliveries :: "(uuid \<Rightarrow> bool) \<Rightarrow> nat \<Rightarrow> int \<Rightarrow> instant \<Rightarrow> db \<Rightarrow> delivery list" where
  "due_deliveries locked limit republish_after_seconds now s =
     take limit (sort_key (\<lambda>d. (dlv_next_attempt_at d, dlv_created_at d, dlv_id d))
       (filter (\<lambda>d. publishable republish_after_seconds now s d \<and> \<not> locked (dlv_id d)) (deliveries s)))"

definition relay_claim_of :: "string \<Rightarrow> uuid \<Rightarrow> delivery \<Rightarrow> outbox_event \<Rightarrow> relay_claim" where
  "relay_claim_of owner token d e =
     \<lparr>rlc_delivery_id = dlv_id d, rlc_event_id = evt_event_id e, rlc_consumer = dlv_consumer d,
      rlc_event_type = raw_event_type (evt_facts e),
      rlc_schema_version = raw_schema_version (evt_facts e),
      rlc_correlation_id = raw_correlation_id (evt_facts e), rlc_claim_token = token,
      rlc_claim_owner = owner, rlc_traceparent = evt_traceparent e\<rparr>"

text \<open>The loop of \<open>claim_due_deliveries\<close>: a fresh token for every selected row.\<close>

primrec claim_rows ::
  "string \<Rightarrow> int \<Rightarrow> instant \<Rightarrow> delivery list \<Rightarrow> db \<Rightarrow> relay_claim list \<times> db" where
  "claim_rows owner lease_seconds now [] s = ([], s)"
| "claim_rows owner lease_seconds now (d # ds) s =
     (let token = next_uuid s;
          d1 = d\<lparr>dlv_claim_token := Some token, dlv_claim_owner := Some owner,
            dlv_claimed_at := Some now,
            dlv_claim_expires_at := Some (now + lease_seconds * 1000000)\<rparr>;
          (claims, s1) = claim_rows owner lease_seconds now ds
            (save_delivery d1 (s\<lparr>next_uuid := token + 1\<rparr>)) in
      (case outbox_event_by_id s (dlv_event_id d) of None \<Rightarrow> claims
       | Some e \<Rightarrow> relay_claim_of owner token d e # claims, s1))"

definition claim_due_deliveries ::
  "(uuid \<Rightarrow> bool) \<Rightarrow> string \<Rightarrow> nat \<Rightarrow> int \<Rightarrow> int \<Rightarrow> instant \<Rightarrow> db \<Rightarrow> relay_claim list \<times> db" where
  "claim_due_deliveries locked owner limit lease_seconds republish_after_seconds now s =
     claim_rows owner lease_seconds now
       (due_deliveries locked limit republish_after_seconds now s) s"

definition relay_holds :: "relay_claim \<Rightarrow> instant \<Rightarrow> delivery \<Rightarrow> bool" where
  "relay_holds claim now d = (dlv_id d = rlc_delivery_id claim \<and> dlv_status d = Pending
     \<and> dlv_claim_token d = Some (rlc_claim_token claim)
     \<and> dlv_claim_owner d = Some (rlc_claim_owner claim)
     \<and> (case dlv_claim_expires_at d of None \<Rightarrow> False | Some e \<Rightarrow> now < e))"

definition observe_publication :: "relay_claim \<Rightarrow> instant \<Rightarrow> db \<Rightarrow> bool \<times> db" where
  "observe_publication claim now s =
     (exists_row (relay_holds claim now) (deliveries s),
      s\<lparr>deliveries := update_where (relay_holds claim now)
          (\<lambda>d. (clear_claim d)\<lparr>dlv_published_at := Some now, dlv_last_error_category := None\<rparr>)
          (deliveries s)\<rparr>)"

definition defer_claim_after_transport_failure ::
  "relay_claim \<Rightarrow> int \<Rightarrow> string \<Rightarrow> instant \<Rightarrow> db \<Rightarrow> bool \<times> db" where
  "defer_claim_after_transport_failure claim retry_after_ms failure_category now s =
     (exists_row (relay_holds claim now) (deliveries s),
      s\<lparr>deliveries := update_where (relay_holds claim now)
          (\<lambda>d. d\<lparr>dlv_claim_expires_at := Some (now + retry_after_ms * 1000),
                 dlv_last_error_category := Some failure_category\<rparr>) (deliveries s)\<rparr>)"

definition lost_observations :: "(uuid \<Rightarrow> bool) \<Rightarrow> instant \<Rightarrow> nat \<Rightarrow> instant \<Rightarrow> db \<Rightarrow> delivery list" where
  "lost_observations locked cutoff limit now s =
     take limit (sort_key (\<lambda>d. (case dlv_published_at d of None \<Rightarrow> 0 | Some p \<Rightarrow> p, dlv_id d))
       (filter (\<lambda>d. dlv_status d = Pending \<and> dlv_next_attempt_at d \<le> now
          \<and> (case dlv_published_at d of None \<Rightarrow> False | Some p \<Rightarrow> p \<le> cutoff)
          \<and> claim_lapsed now d \<and> \<not> locked (dlv_id d)) (deliveries s)))"

definition reset_observations_before ::
  "(uuid \<Rightarrow> bool) \<Rightarrow> instant \<Rightarrow> nat \<Rightarrow> instant \<Rightarrow> db \<Rightarrow> int \<times> db" where
  "reset_observations_before locked cutoff limit now s =
     (let rows = lost_observations locked cutoff limit now s in
      (int (length rows),
       fold (\<lambda>d. save_delivery ((clear_claim d)\<lparr>dlv_published_at := None,
         dlv_last_error_category := Some ''redis_stream_recovered''\<rparr>)) rows s))"

text \<open>
  The stream entry of a claim (\<open>EventStreams.publish\<close>): identity and routing metadata only.
\<close>

definition publish_reference :: "relay_claim \<Rightarrow> reference" where
  "publish_reference claim =
     \<lparr>ref_event_id = Some (py_str_uuid (rlc_event_id claim)), ref_event_type = Some (rlc_event_type claim),
      ref_schema_version = Some (py_str_int (rlc_schema_version claim)),
      ref_correlation_id = Some (rlc_correlation_id claim)\<rparr>"

section \<open>Backoff of the worker loops\<close>

record backoff_settings =
  bo_initial_ms :: int
  bo_max_ms :: int

definition next_backoff :: "backoff_settings \<Rightarrow> int \<Rightarrow> int" where
  "next_backoff b delay = min (bo_max_ms b) (max (bo_initial_ms b) (delay * 2))"

definition reference_retry_delay :: "backoff_settings \<Rightarrow> int \<Rightarrow> int" where
  "reference_retry_delay b failure_count =
     ((next_backoff b) ^^ nat (min (max (failure_count - 1) 0) 16)) (bo_initial_ms b)"

text \<open>The pause before a reference whose delivery was locked is routed again, in milliseconds.\<close>

definition busy_retry_delay :: "int \<Rightarrow> int" where
  "busy_retry_delay revisits = min (50 * 2 ^ nat (min (revisits - 1) 3)) 250"

section \<open>Reads of the worker\<close>

record stored_delivery =
  sd_event :: envelope
  sd_status :: "delivery_status option"
  sd_next_attempt_at :: "instant option"
  sd_is_due :: bool
  sd_receipt_outcome :: "receipt_outcome option"
  sd_traceparent :: "string option"

definition load_stored_delivery ::
  "db \<Rightarrow> uuid \<Rightarrow> consumer \<Rightarrow> instant \<Rightarrow> stored_delivery option result" where
  "load_stored_delivery s event_id c now =
     (case outbox_event_by_id s event_id of None \<Rightarrow> Inr None
      | Some event \<Rightarrow>
          let d = lock_delivery s event_id c in
          bindR (deserialize_event (evt_facts event)) (\<lambda>envelope.
          Inr (Some \<lparr>sd_event = envelope, sd_status = map_option dlv_status d,
            sd_next_attempt_at = map_option dlv_next_attempt_at d,
            sd_is_due = (case d of None \<Rightarrow> False | Some x \<Rightarrow> dlv_next_attempt_at x \<le> now),
            sd_receipt_outcome = map_option rcp_outcome (receipt_of s event_id c),
            sd_traceparent = evt_traceparent event\<rparr>)))"

record retained_work =
  rw_events :: nat
  rw_deliveries :: nat
  rw_receipts :: nat
  rw_attempts :: nat
  rw_unfinished :: nat

definition unfinished :: "delivery \<Rightarrow> bool" where
  "unfinished d = (dlv_status d = Pending \<or> dlv_status d = Processing)"

definition retained_work_counts :: "db \<Rightarrow> retained_work" where
  "retained_work_counts s =
     \<lparr>rw_events = length (outbox_events s), rw_deliveries = length (deliveries s),
      rw_receipts = length (receipts s), rw_attempts = length (attempts s),
      rw_unfinished = length (filter unfinished (deliveries s))\<rparr>"

datatype backlog_state = Terminal | In_Flight | Recovery_Due | Retry_Delayed | Queued

definition backlog_state_of :: "instant \<Rightarrow> delivery \<Rightarrow> backlog_state" where
  "backlog_state_of now d =
     (if dlv_status d = Failed then Terminal
      else if (case dlv_claim_expires_at d of None \<Rightarrow> False | Some e \<Rightarrow> now < e) then In_Flight
      else if dlv_status d = Processing then Recovery_Due
      else if now < dlv_next_attempt_at d then Retry_Delayed else Queued)"

record backlog_sample =
  bs_consumer :: consumer
  bs_state :: backlog_state
  bs_depth :: nat
  bs_oldest_us :: int

text \<open>
  \<open>GROUP BY consumer, state\<close>: one sample per group that has a row; ages are in microseconds. SQL
  leaves the order of the groups open, the model lists them as their first rows appear.
\<close>

definition backlog_samples :: "instant \<Rightarrow> db \<Rightarrow> backlog_sample list" where
  "backlog_samples now s =
     (let rows = filter (\<lambda>d. dlv_status d \<noteq> Succeeded) (deliveries s);
          group = (\<lambda>d. (dlv_consumer d, backlog_state_of now d)) in
      map (\<lambda>(c, st). let members = filter (\<lambda>d. group d = (c, st)) rows in
          \<lparr>bs_consumer = c, bs_state = st, bs_depth = length members,
           bs_oldest_us = max 0 (now - Min (set (map dlv_created_at members)))\<rparr>)
        (remdups (map group rows)))"

section \<open>Operator\<close>

definition consumer_order :: "consumer list" where
  "consumer_order = [Analytics, Alerts, Notification_Sink]"

record status_row =
  sr_consumer :: consumer
  sr_pending :: nat
  sr_oldest_age_us :: "int option"
  sr_retries :: nat
  sr_failed :: nat
  sr_retained_deliveries :: nat
  sr_retained_attempts :: nat
  sr_retained_receipts :: nat

definition being_retried :: "delivery \<Rightarrow> bool" where
  "being_retried d = (dlv_status d = Pending \<and> dlv_attempt_count d > 0
     \<or> dlv_status d = Processing \<and> dlv_attempt_count d > 1)"

definition status_row_of :: "instant \<Rightarrow> db \<Rightarrow> consumer \<Rightarrow> status_row" where
  "status_row_of now s c =
     (let rows = filter (\<lambda>d. dlv_consumer d = c) (deliveries s); open_rows = filter unfinished rows in
      \<lparr>sr_consumer = c, sr_pending = length open_rows,
       sr_oldest_age_us = (if open_rows = [] then None
         else Some (max 0 (now - Min (set (map dlv_created_at open_rows))))),
       sr_retries = length (filter being_retried rows),
       sr_failed = length (filter (\<lambda>d. dlv_status d = Failed) rows),
       sr_retained_deliveries = length rows,
       sr_retained_attempts = length (filter (\<lambda>a. exists_row (\<lambda>d. dlv_id d = att_delivery_id a) rows)
         (attempts s)),
       sr_retained_receipts = length (filter (\<lambda>r. rcp_consumer r = c) (receipts s))\<rparr>)"

record operator_status =
  os_consumers :: "status_row list"
  os_retained_events :: nat
  os_retained_replays :: nat

definition operator_status_report :: "instant \<Rightarrow> db \<Rightarrow> operator_status" where
  "operator_status_report now s =
     \<lparr>os_consumers = map (status_row_of now s) consumer_order,
      os_retained_events = length (outbox_events s), os_retained_replays = length (replays s)\<rparr>"

definition delivery_history :: "db \<Rightarrow> uuid \<Rightarrow> attempt list \<times> delivery_replay list" where
  "delivery_history s delivery_id =
     (sort_key (\<lambda>a. (att_retry_cycle a, att_attempt_number a))
        (filter (\<lambda>a. att_delivery_id a = delivery_id) (attempts s)),
      sort_key rpl_to_cycle (filter (\<lambda>r. rpl_delivery_id r = delivery_id) (replays s)))"

text \<open>What \<open>inspect\<close> reports: free text is redacted, and of a replay's reason only its presence.\<close>

record inspected_attempt =
  ia_attempt_id :: string
  ia_retry_cycle :: int
  ia_attempt_number :: int
  ia_status :: attempt_status
  ia_started_at :: instant
  ia_finished_at :: "instant option"
  ia_error_category :: "string option"

record inspected_replay =
  ir_replay_id :: string
  ir_from_cycle :: int
  ir_to_cycle :: int
  ir_operator :: string
  ir_reason_recorded :: bool
  ir_requested_at :: instant

record inspection =
  ins_delivery_id :: string
  ins_event_id :: string
  ins_consumer :: consumer
  ins_status :: delivery_status
  ins_event_type :: string
  ins_schema_version :: int
  ins_organization_id :: string
  ins_restaurant_id :: int
  ins_aggregate_type :: string
  ins_aggregate_id :: string
  ins_aggregate_revision :: int
  ins_correlation_id :: string
  ins_attempt_count :: int
  ins_retry_cycle :: int
  ins_next_attempt_at :: instant
  ins_last_error_category :: "string option"
  ins_receipt_outcome :: "receipt_outcome option"
  ins_attempts :: "inspected_attempt list"
  ins_replays :: "inspected_replay list"

definition inspect_attempt :: "attempt \<Rightarrow> inspected_attempt" where
  "inspect_attempt a =
     \<lparr>ia_attempt_id = py_str_uuid (att_id a), ia_retry_cycle = att_retry_cycle a,
      ia_attempt_number = att_attempt_number a, ia_status = att_status a,
      ia_started_at = att_started_at a, ia_finished_at = att_finished_at a,
      ia_error_category = safe_category (att_error_category a)\<rparr>"

definition inspect_replay :: "delivery_replay \<Rightarrow> inspected_replay" where
  "inspect_replay r =
     \<lparr>ir_replay_id = py_str_uuid (rpl_id r), ir_from_cycle = rpl_from_cycle r,
      ir_to_cycle = rpl_to_cycle r, ir_operator = safe_identifier (rpl_operator r),
      ir_reason_recorded = (rpl_reason r \<noteq> []), ir_requested_at = rpl_requested_at r\<rparr>"

definition inspect_delivery :: "db \<Rightarrow> uuid \<Rightarrow> inspection result" where
  "inspect_delivery s delivery_id =
     or_raise (by_key dlv_id delivery_id (deliveries s)) (ValueError ''Delivery not found'') (\<lambda>d.
     or_raise (outbox_event_by_id s (dlv_event_id d)) (ValueError ''Event not found'') (\<lambda>event.
     let (atts, rpls) = delivery_history s delivery_id; facts = evt_facts event in
     Inr \<lparr>ins_delivery_id = py_str_uuid (dlv_id d), ins_event_id = py_str_uuid (raw_event_id facts),
       ins_consumer = dlv_consumer d, ins_status = dlv_status d,
       ins_event_type = safe_identifier (raw_event_type facts),
       ins_schema_version = raw_schema_version facts,
       ins_organization_id = py_str_uuid (raw_organization_id facts),
       ins_restaurant_id = raw_restaurant_id facts,
       ins_aggregate_type = safe_identifier (raw_aggregate_type facts),
       ins_aggregate_id = safe_identifier (raw_aggregate_id facts),
       ins_aggregate_revision = raw_aggregate_revision facts,
       ins_correlation_id = safe_identifier (raw_correlation_id facts),
       ins_attempt_count = dlv_attempt_count d, ins_retry_cycle = dlv_retry_cycle d,
       ins_next_attempt_at = dlv_next_attempt_at d,
       ins_last_error_category = safe_category (dlv_last_error_category d),
       ins_receipt_outcome = map_option rcp_outcome (receipt_of s (dlv_event_id d) (dlv_consumer d)),
       ins_attempts = map inspect_attempt atts, ins_replays = map inspect_replay rpls\<rparr>))"

definition replay_reason_ok :: "string \<Rightarrow> bool" where
  "replay_reason_ok reason = (py_strip reason \<noteq> [] \<and> length reason \<le> 1000
     \<and> list_all (\<lambda>c. 32 \<le> (of_char c :: nat)) reason)"

definition replay_delivery ::
  "string \<Rightarrow> uuid \<Rightarrow> string \<Rightarrow> instant \<Rightarrow> db \<Rightarrow> (uuid \<times> db) result" where
  "replay_delivery operator_name delivery_id reason now s =
     raise_if (\<not> replay_reason_ok reason)
       (ValueError ''Replay reason must be 1-1000 characters without control characters'') (
     or_raise (by_key dlv_id delivery_id (deliveries s)) (ValueError ''Delivery not found'') (\<lambda>d.
     raise_if (dlv_status d \<noteq> Failed \<or> receipt_of s (dlv_event_id d) (dlv_consumer d) \<noteq> None)
       (ValueError ''Replay requires exactly one failed delivery without a receipt'') (
     or_raise (outbox_event_by_id s (dlv_event_id d)) (ValueError ''Event not found'') (\<lambda>event.
     let r = \<lparr>rpl_id = next_uuid s, rpl_delivery_id = dlv_id d, rpl_from_cycle = dlv_retry_cycle d,
              rpl_to_cycle = dlv_retry_cycle d + 1, rpl_operator = operator_name,
              rpl_reason = py_strip reason,
              rpl_correlation_id = raw_correlation_id (evt_facts event), rpl_requested_at = now\<rparr>;
         d1 = clear_claim (d\<lparr>dlv_retry_cycle := dlv_retry_cycle d + 1, dlv_attempt_count := 0,
              dlv_status := Pending, dlv_next_attempt_at := now, dlv_published_at := None,
              dlv_last_error_category := None\<rparr>) in
     Inr (rpl_id r, save_delivery d1
       (s\<lparr>replays := replays s @ [r], next_uuid := next_uuid s + 1\<rparr>))))))"

end
