(* ===== verification/Delivery_Fencing.thy ===== *)
theory Delivery_Fencing
  imports Relay
begin

text \<open>
  The state invariant of event delivery and that every transaction of the execution service, the
  relay and the operator keeps it: receipts exist exactly for the deliveries that succeeded, a
  delivery that is being processed has exactly one running attempt and both carry the same token,
  attempts are bounded, and every claim in flight can be told from a superseded one by its token.
\<close>

section \<open>Invariant\<close>

definition identity :: "delivery \<Rightarrow> uuid \<times> uuid \<times> consumer" where
  "identity d = (dlv_id d, dlv_event_id d, dlv_consumer d)"

definition attempt_key :: "attempt \<Rightarrow> uuid \<times> int \<times> int" where
  "attempt_key a = (att_delivery_id a, att_retry_cycle a, att_attempt_number a)"

definition receipt_key :: "receipt \<Rightarrow> uuid \<times> consumer" where
  "receipt_key r = (rcp_event_id r, rcp_consumer r)"

definition delivery_key :: "delivery \<Rightarrow> uuid \<times> consumer" where
  "delivery_key d = (dlv_event_id d, dlv_consumer d)"

definition row_ok :: "int \<Rightarrow> uuid \<Rightarrow> delivery \<Rightarrow> bool" where
  "row_ok limit supply d = (0 \<le> dlv_attempt_count d \<and> dlv_attempt_count d \<le> limit
     \<and> 0 \<le> dlv_retry_cycle d \<and> claim_fields_ok d
     \<and> (case dlv_claim_token d of None \<Rightarrow> dlv_status d \<noteq> Processing | Some k \<Rightarrow> k < supply)
     \<and> (dlv_status d = Processing \<longrightarrow> 1 \<le> dlv_attempt_count d)
     \<and> (dlv_status d = Succeeded \<or> dlv_status d = Failed \<longrightarrow> dlv_claim_token d = None))"

definition claimed_by :: "attempt \<Rightarrow> delivery \<Rightarrow> bool" where
  "claimed_by a d = (dlv_id d = att_delivery_id a \<and> dlv_status d = Processing
     \<and> dlv_claim_token d = att_claim_token a)"

definition attempts_fresh :: "db \<Rightarrow> bool" where
  "attempts_fresh s = (unique_keys att_id (attempts s) \<and> unique_keys att_claim_token (attempts s)
     \<and> unique_keys attempt_key (attempts s)
     \<and> (\<forall>a \<in> set (attempts s). att_id a < next_uuid s
          \<and> (case att_claim_token a of None \<Rightarrow> False | Some k \<Rightarrow> k < next_uuid s)))"

definition running_matches :: "db \<Rightarrow> bool" where
  "running_matches s =
     ((\<forall>a \<in> set (attempts s). att_status a = Att_Running \<longrightarrow> (\<exists>d \<in> set (deliveries s). claimed_by a d))
     \<and> (\<forall>d \<in> set (deliveries s). dlv_status d = Processing \<longrightarrow>
          (\<exists>a \<in> set (attempts s). att_status a = Att_Running \<and> claimed_by a d)))"

definition receipts_match :: "db \<Rightarrow> bool" where
  "receipts_match s = (unique_keys receipt_key (receipts s)
     \<and> receipt_key ` set (receipts s)
         = delivery_key ` {d \<in> set (deliveries s). dlv_status d = Succeeded})"

definition delivery_inv :: "int \<Rightarrow> db \<Rightarrow> bool" where
  "delivery_inv limit s = (outbox_inv s \<and> (\<forall>d \<in> set (deliveries s). row_ok limit (next_uuid s) d)
     \<and> attempts_fresh s \<and> running_matches s \<and> receipts_match s)"

text \<open>
  What a transaction leaves behind: the invariant, and all deliveries and attempts that were there,
  with the same identities and tokens.
\<close>

definition stamp :: "attempt \<Rightarrow> uuid \<times> uuid option \<times> uuid \<times> int \<times> int" where
  "stamp a = (att_id a, att_claim_token a, attempt_key a)"

definition extends :: "db \<Rightarrow> db \<Rightarrow> bool" where
  "extends s t = (identity ` set (deliveries s) \<subseteq> identity ` set (deliveries t)
     \<and> stamp ` set (attempts s) \<subseteq> stamp ` set (attempts t) \<and> next_uuid s \<le> next_uuid t)"

definition advances :: "int \<Rightarrow> db \<Rightarrow> db \<Rightarrow> bool" where
  "advances limit s t = (delivery_inv limit t \<and> extends s t)"

lemma extends_refl [simp]: "extends s s"
  by (simp add: extends_def)

lemma extends_trans: "extends s t \<Longrightarrow> extends t u \<Longrightarrow> extends s u"
  unfolding extends_def by (meson order_trans)

lemma advances_refl: "delivery_inv limit s \<Longrightarrow> advances limit s s"
  by (simp add: advances_def)

lemma advances_trans: "advances limit s t \<Longrightarrow> advances limit t u \<Longrightarrow> advances limit s u"
  unfolding advances_def using extends_trans by blast

lemma advancesD: "advances limit s t \<Longrightarrow> delivery_inv limit t"
  by (simp add: advances_def)

section \<open>Rows and keys\<close>

lemma outbox_inv_identity:
  assumes "outbox_inv s" and "outbox_events t = outbox_events s"
    and ids: "map identity (deliveries t) = map identity (deliveries s)"
    and "next_uuid s \<le> next_uuid t"
  shows "outbox_inv t"
proof -
  have of: "map dlv_consumer (deliveries_of x e)
      = map (\<lambda>(i, e, c). c) (filter (\<lambda>(i, e', c). e' = e) (map identity (deliveries x)))" for x e
    by (simp add: deliveries_of_def identity_def filter_map comp_def)
  have key: "map dlv_id (deliveries x) = map fst (map identity (deliveries x))" for x
    by (simp add: identity_def)
  have lt: "x < next_uuid s \<Longrightarrow> x < next_uuid t" for x using assms(4) by simp
  have "dlv_id d < next_uuid t \<and> dlv_event_id d < next_uuid t
      \<and> dlv_event_id d \<in> evt_event_id ` set (outbox_events t)" if "d \<in> set (deliveries t)" for d
  proof -
    have "identity d \<in> set (map identity (deliveries s))" using that by (simp flip: ids)
    then obtain d' where d': "d' \<in> set (deliveries s)" "dlv_id d = dlv_id d'"
      "dlv_event_id d = dlv_event_id d'" by (auto simp: identity_def)
    have "dlv_id d' < next_uuid s \<and> dlv_event_id d' < next_uuid s
        \<and> dlv_event_id d' \<in> evt_event_id ` set (outbox_events s)"
      using assms(1) d'(1) by (simp add: outbox_inv_def)
    then show ?thesis by (simp add: d' assms(2) lt)
  qed
  moreover have "unique_keys dlv_id (deliveries t)"
    using assms(1) unfolding outbox_inv_def unique_keys_def key ids by blast
  moreover have "\<forall>e \<in> set (outbox_events t). evt_event_id e < next_uuid t \<and> outbox_event_check e
      \<and> (case event_type_of e of None \<Rightarrow> False
         | Some ty \<Rightarrow> map dlv_consumer (deliveries_of t (evt_event_id e)) = consumers_for ty)"
    using assms(1) unfolding outbox_inv_def of ids assms(2) by (blast intro: lt)
  ultimately show ?thesis using assms(1,2) by (simp add: outbox_inv_def)
qed

lemma map_identity_store:
  assumes "unique_keys dlv_id ds" and "d \<in> set ds" and "identity d1 = identity d"
  shows "map identity (store_row dlv_id d1 ds) = map identity ds"
proof -
  have "identity (if dlv_id x = dlv_id d1 then d1 else x) = identity x" if "x \<in> set ds" for x
    using unique_keys_eq [OF assms(1) that assms(2)] assms(3) by (auto simp: identity_def)
  then show ?thesis by (simp add: store_row_def update_where_def)
qed

text \<open>An event has at most one delivery per consumer: its deliveries are its subscribed consumers.\<close>

lemma unique_delivery_key:
  assumes inv: "outbox_inv s" and "d \<in> set (deliveries s)" and "d' \<in> set (deliveries s)"
    and "dlv_event_id d = dlv_event_id d'" and "dlv_consumer d = dlv_consumer d'"
  shows "d = d'"
proof -
  from inv assms(2) obtain e where e: "e \<in> set (outbox_events s)" "evt_event_id e = dlv_event_id d"
    by (auto simp: outbox_inv_def)
  then obtain ty where "map dlv_consumer (deliveries_of s (dlv_event_id d)) = consumers_for ty"
    using inv by (fastforce simp: outbox_inv_def split: option.splits)
  then have "distinct (map dlv_consumer (deliveries_of s (dlv_event_id d)))"
    by (simp add: distinct_consumers_for)
  then show ?thesis using assms(2-) by (auto simp: deliveries_of_def distinct_map inj_on_def)
qed

lemma lock_delivery_Some:
  "lock_delivery s e c = Some d \<Longrightarrow> d \<in> set (deliveries s) \<and> dlv_event_id d = e \<and> dlv_consumer d = c"
  unfolding lock_delivery_def by (drule select_one_Some) simp

lemma lock_delivery_member:
  assumes "outbox_inv s" and "d \<in> set (deliveries s)"
  shows "lock_delivery s (dlv_event_id d) (dlv_consumer d) = Some d"
proof -
  have "lock_delivery s (dlv_event_id d) (dlv_consumer d) \<noteq> None"
    using assms(2) by (auto simp: lock_delivery_def select_one_None)
  then obtain x where "lock_delivery s (dlv_event_id d) (dlv_consumer d) = Some x" by auto
  moreover from lock_delivery_Some [OF this] have "x = d"
    using unique_delivery_key [OF assms(1)] assms(2) by blast
  ultimately show ?thesis by simp
qed

lemma receipt_of_iff: "receipt_of s e c \<noteq> None \<longleftrightarrow> (e, c) \<in> receipt_key ` set (receipts s)"
  by (auto simp: receipt_of_def select_one_None receipt_key_def)

lemma delivery_invD:
  assumes "delivery_inv limit s"
  shows "outbox_inv s" "unique_keys dlv_id (deliveries s)"
    "d \<in> set (deliveries s) \<Longrightarrow> row_ok limit (next_uuid s) d"
    "attempts_fresh s" "running_matches s" "receipts_match s"
  using assms by (auto simp: delivery_inv_def outbox_inv_def)

text \<open>A delivery has a receipt exactly when it succeeded.\<close>

lemma receipt_iff_succeeded:
  assumes "delivery_inv limit s" and "d \<in> set (deliveries s)"
  shows "receipt_of s (dlv_event_id d) (dlv_consumer d) \<noteq> None \<longleftrightarrow> dlv_status d = Succeeded"
proof -
  have "receipt_key ` set (receipts s) = delivery_key ` {d \<in> set (deliveries s). dlv_status d = Succeeded}"
    using delivery_invD(6) [OF assms(1)] by (simp add: receipts_match_def)
  then show ?thesis
    unfolding receipt_of_iff using unique_delivery_key [OF delivery_invD(1) [OF assms(1)]] assms(2)
    by (auto simp: delivery_key_def image_iff)
qed

section \<open>One delivery changes\<close>

lemma row_ok_mono: "row_ok limit k d \<Longrightarrow> k \<le> k' \<Longrightarrow> row_ok limit k' d"
  by (auto simp: row_ok_def split: option.splits)

text \<open>
  Every transaction changes the rows of one delivery at a time: its row, its attempts and, when it
  succeeds, its receipt. This lemma carries the invariant over such a change.
\<close>

lemma in_store_row_iff:
  assumes "unique_keys key rows" and "x \<in> set rows" and "key r = key x"
  shows "y \<in> set (store_row key r rows) \<longleftrightarrow> y = r \<or> y \<in> set rows \<and> y \<noteq> x"
  using assms unique_keys_eq [OF assms(1) _ assms(2)] store_row_self [OF assms(2), of key r]
    store_row_other [of y rows key r] in_store_row [of y key r rows]
  by auto

lemma running_matches_change:
  assumes inv: "running_matches s" and u: "unique_keys dlv_id (deliveries s)"
    and d: "d \<in> set (deliveries s)" and id: "dlv_id d1 = dlv_id d"
    and t: "deliveries t = store_row dlv_id d1 (deliveries s)"
    and other: "\<And>a. att_delivery_id a \<noteq> dlv_id d \<Longrightarrow> a \<in> set (attempts t) \<longleftrightarrow> a \<in> set (attempts s)"
    and own: "\<And>a. a \<in> set (attempts t) \<Longrightarrow> att_status a = Att_Running
      \<Longrightarrow> att_delivery_id a = dlv_id d \<Longrightarrow> claimed_by a d1"
    and proc: "dlv_status d1 = Processing
      \<Longrightarrow> \<exists>a \<in> set (attempts t). att_status a = Att_Running \<and> claimed_by a d1"
  shows "running_matches t"
proof -
  note rows = in_store_row_iff [OF u d id, folded t]
  have "\<exists>x \<in> set (deliveries t). claimed_by a x"
    if a: "a \<in> set (attempts t)" "att_status a = Att_Running" for a
  proof (cases "att_delivery_id a = dlv_id d")
    case True
    then show ?thesis using own [OF a] rows by blast
  next
    case False
    then obtain x where "x \<in> set (deliveries s)" "claimed_by a x"
      using inv a other by (auto simp: running_matches_def)
    moreover from this False have "x \<noteq> d" by (auto simp: claimed_by_def)
    ultimately show ?thesis using rows by blast
  qed
  moreover have "\<exists>a \<in> set (attempts t). att_status a = Att_Running \<and> claimed_by a x"
    if x: "x \<in> set (deliveries t)" "dlv_status x = Processing" for x
  proof (cases "x = d1")
    case True
    then show ?thesis using proc x(2) by blast
  next
    case False
    then have x': "x \<in> set (deliveries s)" "x \<noteq> d" using rows x(1) by blast+
    then have "dlv_id x \<noteq> dlv_id d" using unique_keys_eq [OF u _ d] by blast
    moreover obtain a where "a \<in> set (attempts s)" "att_status a = Att_Running" "claimed_by a x"
      using inv x' x(2) by (auto simp: running_matches_def)
    moreover from this have "att_delivery_id a = dlv_id x" by (simp add: claimed_by_def)
    ultimately show ?thesis using other by auto
  qed
  ultimately show ?thesis by (simp add: running_matches_def)
qed

lemma receipts_match_change:
  assumes inv: "receipts_match s" "outbox_inv s" and u: "unique_keys dlv_id (deliveries s)"
    and d: "d \<in> set (deliveries s)" and id: "identity d1 = identity d"
    and t: "deliveries t = store_row dlv_id d1 (deliveries s)"
    and rcp: "receipts t = receipts s \<and> (dlv_status d1 = Succeeded \<longleftrightarrow> dlv_status d = Succeeded)
      \<or> (\<exists>r. receipts t = receipts s @ [r] \<and> receipt_key r = delivery_key d
           \<and> dlv_status d \<noteq> Succeeded \<and> dlv_status d1 = Succeeded)"
  shows "receipts_match t"
proof -
  have id': "dlv_id d1 = dlv_id d" "delivery_key d1 = delivery_key d"
    using id by (auto simp: identity_def delivery_key_def)
  note rows = in_store_row_iff [OF u d id'(1), folded t]
  let ?S = "\<lambda>x. {d \<in> set (deliveries x). dlv_status d = Succeeded}"
  have "delivery_key d \<notin> delivery_key ` ?S s" if "dlv_status d \<noteq> Succeeded"
    using that unique_delivery_key [OF inv(2) d] by (auto simp: delivery_key_def)
  moreover have "delivery_key ` ?S t = (if dlv_status d1 = Succeeded
      then insert (delivery_key d) (delivery_key ` (?S s - {d})) else delivery_key ` (?S s - {d}))"
  proof -
    have "?S t = (if dlv_status d1 = Succeeded then insert d1 (?S s - {d}) else ?S s - {d})"
      using rows by auto
    then show ?thesis by (simp add: id'(2))
  qed
  ultimately show ?thesis
    using inv(1) rcp d unfolding receipts_match_def
    by (elim disjE conjE exE) (auto simp: insert_absorb image_iff)
qed

lemma delivery_change:
  assumes inv: "delivery_inv limit s" and d: "d \<in> set (deliveries s)"
    and id: "identity d1 = identity d"
    and t: "deliveries t = store_row dlv_id d1 (deliveries s)"
      "outbox_events t = outbox_events s" "next_uuid s \<le> next_uuid t"
    and row: "row_ok limit (next_uuid t) d1" and fresh: "attempts_fresh t"
    and other: "\<And>a. att_delivery_id a \<noteq> dlv_id d \<Longrightarrow> a \<in> set (attempts t) \<longleftrightarrow> a \<in> set (attempts s)"
    and own: "\<And>a. a \<in> set (attempts t) \<Longrightarrow> att_status a = Att_Running
      \<Longrightarrow> att_delivery_id a = dlv_id d \<Longrightarrow> claimed_by a d1"
    and proc: "dlv_status d1 = Processing
      \<Longrightarrow> \<exists>a \<in> set (attempts t). att_status a = Att_Running \<and> claimed_by a d1"
    and rcp: "receipts t = receipts s \<and> (dlv_status d1 = Succeeded \<longleftrightarrow> dlv_status d = Succeeded)
      \<or> (\<exists>r. receipts t = receipts s @ [r] \<and> receipt_key r = delivery_key d
           \<and> dlv_status d \<noteq> Succeeded \<and> dlv_status d1 = Succeeded)"
    and stamps: "stamp ` set (attempts s) \<subseteq> stamp ` set (attempts t)"
  shows "advances limit s t"
proof -
  note inv' = delivery_invD [OF inv]
  have id': "dlv_id d1 = dlv_id d" using id by (simp add: identity_def)
  have ids: "map identity (deliveries t) = map identity (deliveries s)"
    by (simp add: t(1) map_identity_store [OF inv'(2) d id])
  then have "identity ` set (deliveries t) = identity ` set (deliveries s)"
    by (metis list.set_map)
  then have "extends s t" using t(3) stamps by (simp add: extends_def)
  moreover have "outbox_inv t" by (rule outbox_inv_identity [OF inv'(1) t(2) ids t(3)])
  moreover have "row_ok limit (next_uuid t) x" if "x \<in> set (deliveries t)" for x
    using in_store_row [OF that [unfolded t(1)]] inv'(3) row row_ok_mono t(3) by blast
  moreover have "running_matches t"
    by (rule running_matches_change [OF inv'(5,2) d id' t(1) other own proc])
  moreover have "receipts_match t"
    by (rule receipts_match_change [OF inv'(6,1,2) d id t(1) rcp])
  ultimately show ?thesis using fresh by (simp add: advances_def delivery_inv_def)
qed

section \<open>Attempts\<close>

lemma attempts_fresh_same:
  assumes "attempts_fresh s" and same: "map stamp (attempts t) = map stamp (attempts s)"
    and "next_uuid s \<le> next_uuid t"
  shows "attempts_fresh t"
proof -
  have cols: "map att_id (attempts x) = map fst (map stamp (attempts x))"
    "map att_claim_token (attempts x) = map (\<lambda>(i, k, _). k) (map stamp (attempts x))"
    "map attempt_key (attempts x) = map (\<lambda>(i, k, w). w) (map stamp (attempts x))" for x
    by (simp_all add: stamp_def)
  have "att_id a < next_uuid t \<and> (case att_claim_token a of None \<Rightarrow> False | Some k \<Rightarrow> k < next_uuid t)"
    if "a \<in> set (attempts t)" for a
  proof -
    have "stamp a \<in> set (map stamp (attempts s))" using that by (simp flip: same)
    then obtain b where b: "b \<in> set (attempts s)" "att_id a = att_id b"
      "att_claim_token a = att_claim_token b" by (auto simp: stamp_def)
    have "att_id b < next_uuid s \<and> (case att_claim_token b of None \<Rightarrow> False | Some k \<Rightarrow> k < next_uuid s)"
      using assms(1) b(1) by (simp add: attempts_fresh_def)
    then show ?thesis using assms(3) by (auto simp: b(2,3) split: option.splits)
  qed
  then show ?thesis using assms(1) unfolding attempts_fresh_def unique_keys_def cols same by blast
qed

lemma stamp_store:
  assumes "unique_keys att_id as" and "a \<in> set as" and "stamp a1 = stamp a"
  shows "map stamp (store_row att_id a1 as) = map stamp as"
proof -
  have "stamp (if att_id x = att_id a1 then a1 else x) = stamp x" if "x \<in> set as" for x
    using unique_keys_eq [OF assms(1) that assms(2)] assms(3) by (auto simp: stamp_def)
  then show ?thesis by (simp add: store_row_def update_where_def)
qed

lemma max_or_zero_ge: "x \<in> set xs \<Longrightarrow> x \<le> max_or_zero xs"
  by (auto simp: max_or_zero_def)

lemma next_attempt_number_fresh:
  assumes "a \<in> set (attempts s)" and "att_delivery_id a = dlv_id d"
    and "att_retry_cycle a = dlv_retry_cycle d"
  shows "att_attempt_number a < next_attempt_number s d"
  unfolding next_attempt_number_def
  by (rule order.strict_trans1 [OF max_or_zero_ge [of "att_attempt_number a"]]) (use assms in auto)

lemma attempts_fresh_new:
  assumes "attempts_fresh s"
    and t: "attempts t = attempts s @ [new_attempt d s category now]" "next_uuid t = next_uuid s + 2"
  shows "attempts_fresh t"
proof -
  let ?a = "new_attempt d s category now"
  have "attempt_key ?a \<notin> attempt_key ` set (attempts s)"
    using next_attempt_number_fresh [of _ s d] by (fastforce simp: attempt_key_def new_attempt_def)
  moreover have "att_id ?a \<notin> att_id ` set (attempts s)"
    "att_claim_token ?a \<notin> att_claim_token ` set (attempts s)"
    using assms(1) by (fastforce simp: attempts_fresh_def new_attempt_def split: option.splits)+
  moreover have "att_id a < next_uuid t \<and> (case att_claim_token a of None \<Rightarrow> False | Some k \<Rightarrow> k < next_uuid t)"
    if "a \<in> set (attempts s)" for a
  proof -
    have "att_id a < next_uuid s \<and> (case att_claim_token a of None \<Rightarrow> False | Some k \<Rightarrow> k < next_uuid s)"
      using assms(1) that by (simp add: attempts_fresh_def)
    then show ?thesis by (auto simp: t(2) split: option.splits)
  qed
  moreover have "att_id ?a < next_uuid t \<and> (case att_claim_token ?a of None \<Rightarrow> False | Some k \<Rightarrow> k < next_uuid t)"
    by (simp add: new_attempt_def t(2))
  ultimately show ?thesis using assms(1) unfolding attempts_fresh_def t(1) by simp
qed

lemma interrupt_attempts_stamps [simp]:
  "map stamp (attempts (interrupt_attempts i now s)) = map stamp (attempts s)"
  "stamp ` set (attempts (interrupt_attempts i now s)) = stamp ` set (attempts s)"
proof -
  show same: "map stamp (attempts (interrupt_attempts i now s)) = map stamp (attempts s)"
    by (simp add: interrupt_attempts_def map_update_where stamp_def attempt_key_def)
  show "stamp ` set (attempts (interrupt_attempts i now s)) = stamp ` set (attempts s)"
    using arg_cong [OF same, of set] by simp
qed

lemma interrupt_attempts_fresh [simp]:
  "attempts_fresh (save_delivery d (interrupt_attempts i now s)) = attempts_fresh s"
proof -
  let ?t = "save_delivery d (interrupt_attempts i now s)"
  have "map stamp (attempts ?t) = map stamp (attempts s)" "next_uuid ?t = next_uuid s"
    using interrupt_attempts_stamps(1) [of i now s]
    by (simp_all add: save_delivery_def interrupt_attempts_def)
  then show ?thesis using attempts_fresh_same [of s ?t] attempts_fresh_same [of ?t s] by auto
qed

lemma image_of_others:
  assumes "\<And>b. k (f b) = k b" and "\<And>b. f b = b \<or> k b = i" and "k a \<noteq> i"
  shows "a \<in> f ` S \<longleftrightarrow> a \<in> S"
proof
  assume "a \<in> f ` S"
  then obtain b where "b \<in> S" "a = f b" by blast
  then show "a \<in> S" using assms by metis
next
  assume "a \<in> S"
  then show "a \<in> f ` S" using assms(2) [of a] assms(3) by (metis image_eqI)
qed

lemma interrupted_attempts:
  shows "att_delivery_id a \<noteq> i
      \<Longrightarrow> a \<in> set (attempts (interrupt_attempts i now s)) \<longleftrightarrow> a \<in> set (attempts s)"
    and "a \<in> set (attempts (interrupt_attempts i now s)) \<Longrightarrow> att_delivery_id a = i
      \<Longrightarrow> att_status a \<noteq> Att_Running"
proof -
  let ?f = "\<lambda>a. if is_running_of i a then a\<lparr>att_status := Att_Failed,
    att_error_category := Some ''worker_interrupted'', att_finished_at := Some now\<rparr> else a"
  have rows: "set (attempts (interrupt_attempts i now s)) = ?f ` set (attempts s)"
    by (simp add: interrupt_attempts_def set_update_where)
  have own: "att_delivery_id (?f b) = att_delivery_id b" "?f b = b \<or> att_delivery_id b = i"
    "att_delivery_id b = i \<Longrightarrow> att_status (?f b) \<noteq> Att_Running" for b
    by (simp_all add: is_running_of_def)
  show "a \<in> set (attempts (interrupt_attempts i now s)) \<longleftrightarrow> a \<in> set (attempts s)"
    if "att_delivery_id a \<noteq> i"
    unfolding rows using own(1,2) that by (rule image_of_others)
  show "att_status a \<noteq> Att_Running"
    if "a \<in> set (attempts (interrupt_attempts i now s))" "att_delivery_id a = i"
  proof -
    from that(1) obtain b where "a = ?f b" unfolding rows by (rule imageE)
    then show ?thesis using that(2) own(1) [of b] own(3) [of b] by simp
  qed
qed

lemma save_delivery_tables [simp]:
  "deliveries (save_delivery d s) = store_row dlv_id d (deliveries s)"
  "outbox_events (save_delivery d s) = outbox_events s" "next_uuid (save_delivery d s) = next_uuid s"
  "attempts (save_delivery d s) = attempts s" "receipts (save_delivery d s) = receipts s"
  "replays (save_delivery d s) = replays s"
  by (simp_all add: save_delivery_def)

lemma save_attempt_tables [simp]:
  "attempts (save_attempt a s) = store_row att_id a (attempts s)"
  "outbox_events (save_attempt a s) = outbox_events s" "next_uuid (save_attempt a s) = next_uuid s"
  "deliveries (save_attempt a s) = deliveries s" "receipts (save_attempt a s) = receipts s"
  "replays (save_attempt a s) = replays s"
  by (simp_all add: save_attempt_def)

lemma interrupt_attempts_tables [simp]:
  "deliveries (interrupt_attempts i now s) = deliveries s"
  "outbox_events (interrupt_attempts i now s) = outbox_events s"
  "next_uuid (interrupt_attempts i now s) = next_uuid s"
  "receipts (interrupt_attempts i now s) = receipts s"
  "replays (interrupt_attempts i now s) = replays s"
  by (simp_all add: interrupt_attempts_def)

lemma clear_claim_simps [simp]:
  "dlv_id (clear_claim d) = dlv_id d" "dlv_event_id (clear_claim d) = dlv_event_id d"
  "dlv_consumer (clear_claim d) = dlv_consumer d" "dlv_status (clear_claim d) = dlv_status d"
  "dlv_attempt_count (clear_claim d) = dlv_attempt_count d"
  "dlv_retry_cycle (clear_claim d) = dlv_retry_cycle d"
  "dlv_claim_token (clear_claim d) = None" "dlv_claim_owner (clear_claim d) = None"
  "dlv_claim_expires_at (clear_claim d) = None"
  "dlv_next_attempt_at (clear_claim d) = dlv_next_attempt_at d"
  "identity (clear_claim d) = identity d" "claim_fields_ok (clear_claim d)"
  by (simp_all add: clear_claim_def identity_def claim_fields_ok_def)

section \<open>Every transaction keeps the invariant\<close>

text \<open>A change of the row alone: the status, when it changes, is not one that involves attempts.\<close>

lemma save_delivery_keeps:
  assumes inv: "delivery_inv limit s" and d: "d \<in> set (deliveries s)"
    and id: "identity d1 = identity d" and row: "row_ok limit (next_uuid s) d1"
    and st: "dlv_status d \<notin> {Processing, Succeeded}" "dlv_status d1 \<notin> {Processing, Succeeded}"
  shows "advances limit s (save_delivery d1 s)"
proof (rule delivery_change [OF inv d id])
  show "claimed_by a d1"
    if a: "a \<in> set (attempts (save_delivery d1 s))" "att_status a = Att_Running"
      "att_delivery_id a = dlv_id d" for a
  proof -
    obtain x where "x \<in> set (deliveries s)" "claimed_by a x"
      using delivery_invD(5) [OF inv] a(1,2) by (auto simp: running_matches_def)
    moreover from this have "x = d" using unique_keys_eq [OF delivery_invD(2) [OF inv] _ d] a(3)
      by (auto simp: claimed_by_def)
    ultimately show ?thesis using st(1) by (simp add: claimed_by_def)
  qed
  show "attempts_fresh (save_delivery d1 s)"
    using delivery_invD(4) [OF inv] by (rule attempts_fresh_same) simp_all
qed (use row st in auto)

text \<open>The delivery leaves processing and its running attempts are closed.\<close>

lemma interrupt_keeps:
  assumes inv: "delivery_inv limit s" and d: "d \<in> set (deliveries s)"
    and id: "identity d1 = identity d" and row: "row_ok limit (next_uuid s) d1"
    and st: "dlv_status d = Processing" "dlv_status d1 \<notin> {Processing, Succeeded}"
  shows "advances limit s (save_delivery d1 (interrupt_attempts (dlv_id d) now s))"
  by (rule delivery_change [OF inv d id])
    (use row st delivery_invD(4) [OF inv] interrupted_attempts [where s = s] in auto)

lemma recover_delivery_keeps:
  assumes "delivery_inv (cfg_max_attempts cfg) s" and "d \<in> set (deliveries s)"
    and "dlv_status d = Processing"
  shows "advances (cfg_max_attempts cfg) s (recover_delivery cfg now d s)"
  unfolding recover_delivery_def
  using delivery_invD(3) [OF assms(1,2)]
  by (intro interrupt_keeps [OF assms(1,2) _ _ assms(3)]) (auto simp: row_ok_def identity_def)

text \<open>Of a delivery that is not being processed, no attempt runs.\<close>

lemma no_running_attempt:
  assumes inv: "delivery_inv limit s" and d: "d \<in> set (deliveries s)"
    and "dlv_status d \<noteq> Processing" and "a \<in> set (attempts s)" and "att_delivery_id a = dlv_id d"
  shows "att_status a \<noteq> Att_Running"
proof
  assume "att_status a = Att_Running"
  then obtain x where x: "x \<in> set (deliveries s)" "claimed_by a x"
    using delivery_invD(5) [OF inv] assms(4) by (auto simp: running_matches_def)
  then have "x = d" using unique_keys_eq [OF delivery_invD(2) [OF inv] _ d] assms(5)
    by (auto simp: claimed_by_def)
  then show False using x(2) assms(3) by (simp add: claimed_by_def)
qed

lemma new_attempt_keeps:
  assumes inv: "delivery_inv limit s" and d: "d \<in> set (deliveries s)" and pend: "dlv_status d = Pending"
    and id: "identity d1 = identity d" and row: "row_ok limit (next_uuid s + 2) d1"
    and st: "dlv_status d1 = (if category = None then Processing else Failed)"
    and token: "category = None \<Longrightarrow> dlv_claim_token d1 = Some (next_uuid s)"
  shows "advances limit s (save_delivery d1
    (s\<lparr>attempts := attempts s @ [new_attempt d s category now], next_uuid := next_uuid s + 2\<rparr>))"
    (is "advances limit s ?t")
proof (rule delivery_change [OF inv d id])
  let ?a = "new_attempt d s category now"
  have a: "att_delivery_id ?a = dlv_id d" "att_claim_token ?a = Some (next_uuid s)"
    "att_status ?a = (if category = None then Att_Running else Att_Failed)"
    by (simp_all add: new_attempt_def)
  have id': "dlv_id d1 = dlv_id d" using id by (simp add: identity_def)
  show "attempts_fresh ?t" using delivery_invD(4) [OF inv]
    by (rule attempts_fresh_new [where d = d and category = category and now = now]) simp_all
  show "claimed_by b d1" if "b \<in> set (attempts ?t)" "att_status b = Att_Running"
      "att_delivery_id b = dlv_id d" for b
    using that no_running_attempt [OF inv d, of b] pend a st token id'
    by (auto simp: claimed_by_def split: if_splits)
  show "\<exists>b \<in> set (attempts ?t). att_status b = Att_Running \<and> claimed_by b d1"
    if "dlv_status d1 = Processing"
    using that a st token id' by (auto simp: claimed_by_def split: if_splits)
  show "b \<in> set (attempts ?t) \<longleftrightarrow> b \<in> set (attempts s)" if "att_delivery_id b \<noteq> dlv_id d" for b
    using that a(1) by auto
  show "receipts ?t = receipts s \<and> (dlv_status d1 = Succeeded) = (dlv_status d = Succeeded)
      \<or> (\<exists>r. receipts ?t = receipts s @ [r] \<and> receipt_key r = delivery_key d
          \<and> dlv_status d \<noteq> Succeeded \<and> dlv_status d1 = Succeeded)"
    using st pend by simp
  show "row_ok limit (next_uuid ?t) d1" using row by simp
  show "stamp ` set (attempts s) \<subseteq> stamp ` set (attempts ?t)" by (simp add: subset_insertI)
qed simp_all

text \<open>The ways an attempt begins: nothing changes, the limit is reached, or an attempt is recorded.\<close>

lemma begin_attempt_cases:
  assumes "begin_attempt registry cfg event d c correlation worker_id now s = (r, t)"
  obtains (unchanged) o' where "r = Inl o'" "\<not> er_acknowledge o'" "t = s"
  | (exhausted) o' where "r = Inl o'" "cfg_max_attempts cfg \<le> dlv_attempt_count d"
      "t = save_delivery (clear_claim (d\<lparr>dlv_status := Failed,
              dlv_last_error_category := Some ''attempt_limit''\<rparr>)) s"
  | (rejected) o' category where "r = Inl o'" "dlv_attempt_count d < cfg_max_attempts cfg"
      "category \<noteq> None" "t = save_delivery (clear_claim (start_processing cfg category (next_uuid s) worker_id now d))
        (s\<lparr>attempts := attempts s @ [new_attempt d s category now], next_uuid := next_uuid s + 2\<rparr>)"
  | (claimed) claim env where "r = Inr claim" "dlv_attempt_count d < cfg_max_attempts cfg"
      "deserialize_event (evt_facts event) = Inr env" "c \<in> set (consumers_for (env_event_type env))"
      "cl_event claim = env" "cl_consumer claim = c" "cl_token claim = next_uuid s"
      "cl_attempt_id claim = next_uuid s + 1" "registry c \<noteq> None"
      "t = save_delivery (start_processing cfg None (next_uuid s) worker_id now d)
        (s\<lparr>attempts := attempts s @ [new_attempt d s None now], next_uuid := next_uuid s + 2\<rparr>)"
proof -
  have known: "contract_failure (Inr env :: envelope result) = None" for env
    by (simp add: contract_failure_def)
  have unknown: "\<exists>name. contract_failure (Inl e :: envelope result) = Some name" for e
    by (cases e) (auto simp: contract_failure_def)
  show ?thesis
  proof (cases "deserialize_event (evt_facts event)")
    case (Inl e)
    then obtain name where "contract_failure (deserialize_event (evt_facts event)) = Some name"
      using unknown by auto
    with Inl assms show ?thesis
      unfolding begin_attempt_def Let_def
      by (auto split: if_splits intro: exhausted rejected)
  next
    case (Inr env)
    then have "contract_failure (deserialize_event (evt_facts event)) = None" by (simp add: known)
    with Inr assms show ?thesis
      unfolding begin_attempt_def Let_def
      by (auto simp: new_attempt_def outcome_def split: if_splits intro: unchanged exhausted claimed)
  qed
qed

lemma start_processing_simps [simp]:
  "identity (start_processing cfg category token worker_id now d) = identity d"
  "dlv_status (start_processing cfg category token worker_id now d)
     = (if category = None then Processing else Failed)"
  "dlv_claim_token (start_processing cfg category token worker_id now d) = Some token"
  "dlv_attempt_count (start_processing cfg category token worker_id now d) = dlv_attempt_count d + 1"
  "dlv_id (start_processing cfg category token worker_id now d) = dlv_id d"
  "dlv_event_id (start_processing cfg category token worker_id now d) = dlv_event_id d"
  "dlv_consumer (start_processing cfg category token worker_id now d) = dlv_consumer d"
  by (simp_all add: start_processing_def identity_def)

lemma start_processing_row_ok:
  assumes "row_ok limit k d" and "dlv_attempt_count d < limit" and "token < k'" and "k \<le> k'"
  shows "row_ok limit k' (start_processing cfg None token worker_id now d)"
    and "category \<noteq> None \<Longrightarrow> row_ok limit k' (clear_claim (start_processing cfg category token worker_id now d))"
  using assms by (auto simp: row_ok_def start_processing_def clear_claim_def claim_fields_ok_def)

lemma begin_attempt_keeps:
  assumes inv: "delivery_inv (cfg_max_attempts cfg) s" and d: "d \<in> set (deliveries s)"
    and pend: "dlv_status d = Pending"
    and "begin_attempt registry cfg event d c correlation worker_id now s = (r, t)"
  shows "advances (cfg_max_attempts cfg) s t"
proof -
  note row = delivery_invD(3) [OF inv d]
  from assms(4) show ?thesis
  proof (cases rule: begin_attempt_cases)
    case unchanged
    then show ?thesis using advances_refl [OF inv] by simp
  next
    case exhausted
    show ?thesis unfolding exhausted(3)
      by (rule save_delivery_keeps [OF inv d]) (use row pend in \<open>auto simp: row_ok_def identity_def\<close>)
  next
    case (rejected o' category)
    show ?thesis unfolding rejected(4)
      by (rule new_attempt_keeps [OF inv d pend])
        (use rejected(2,3) start_processing_row_ok(2) [OF row] in auto)
  next
    case claimed
    show ?thesis unfolding claimed(10)
      by (rule new_attempt_keeps [OF inv d pend])
        (use claimed(2) start_processing_row_ok(1) [OF row] in auto)
  qed
qed

text \<open>Starting: an expired claim is taken over, then an attempt begins.\<close>

lemma start_delivery_keeps:
  assumes inv: "delivery_inv (cfg_max_attempts cfg) s" and d: "d \<in> set (deliveries s)"
    and "start_delivery registry cfg event d c correlation worker_id now s = (r, t)"
  shows "advances (cfg_max_attempts cfg) s t"
proof (cases "dlv_status d = Processing")
  case True
  note row = delivery_invD(3) [OF inv d]
  let ?d = "clear_claim (d\<lparr>dlv_status := Pending\<rparr>)"
  let ?s = "save_delivery ?d (interrupt_attempts (dlv_id d) now s)"
  have free: "advances (cfg_max_attempts cfg) s ?s"
    by (rule interrupt_keeps [OF inv d _ _ True]) (use row in \<open>auto simp: row_ok_def identity_def\<close>)
  have fail: "advances (cfg_max_attempts cfg) s (save_delivery (?d\<lparr>dlv_status := Failed,
      dlv_last_error_category := Some ''attempt_limit''\<rparr>) (interrupt_attempts (dlv_id d) now s))"
    by (rule interrupt_keeps [OF inv d _ _ True])
      (use row in \<open>auto simp: row_ok_def identity_def claim_fields_ok_def\<close>)
  have "?d \<in> set (deliveries ?s)" using d by (auto intro: store_row_self)
  then have "advances (cfg_max_attempts cfg) s t"
    if "begin_attempt registry cfg event ?d c correlation worker_id now ?s = (r, t)"
    using begin_attempt_keeps [OF advancesD [OF free] _ _ that] advances_trans [OF free] by simp
  then show ?thesis using assms(3) True advances_refl [OF inv] fail
    by (auto simp: start_delivery_def Let_def split: if_splits)
next
  case False
  have "dlv_status d = Pending \<Longrightarrow> begin_attempt registry cfg event d c correlation worker_id now s = (r, t)
      \<Longrightarrow> ?thesis"
    by (rule begin_attempt_keeps [OF inv d])
  then show ?thesis using assms(3) False advances_refl [OF inv]
    by (cases "dlv_status d") (auto simp: start_delivery_def Let_def split: if_splits)
qed

lemma start_attempt_keeps:
  assumes inv: "delivery_inv (cfg_max_attempts cfg) s"
    and "start_attempt registry cfg event_id c ref worker_id busy now s = (r, t)"
  shows "advances (cfg_max_attempts cfg) s t"
  using assms(2) advances_refl [OF inv] start_delivery_keeps [OF inv]
  by (auto simp: start_attempt_def Let_def dest: lock_delivery_Some split: option.splits if_splits)

text \<open>The claims a worker may hold, possibly long after they were superseded.\<close>

definition claim_ok :: "db \<Rightarrow> attempt_claim \<Rightarrow> bool" where
  "claim_ok s claim = (\<exists>i w. (cl_attempt_id claim, Some (cl_token claim), i, w) \<in> stamp ` set (attempts s)
     \<and> (i, env_event_id (cl_event claim), cl_consumer claim) \<in> identity ` set (deliveries s))"

lemma claim_ok_extends: "claim_ok s claim \<Longrightarrow> extends s t \<Longrightarrow> claim_ok t claim"
  unfolding claim_ok_def extends_def by blast

text \<open>A claim that still holds its delivery names the one attempt that runs for it.\<close>

lemma claimed_attempt:
  assumes inv: "delivery_inv limit s" and "claim_ok s claim"
    and lock: "lock_delivery s (env_event_id (cl_event claim)) (cl_consumer claim) = Some d"
    and holds: "holds_claim claim d"
  obtains a where "by_key att_id (cl_attempt_id claim) (attempts s) = Some a" "a \<in> set (attempts s)"
    "att_id a = cl_attempt_id claim" "att_claim_token a = Some (cl_token claim)" "claimed_by a d"
    "\<And>b. b \<in> set (attempts s) \<Longrightarrow> att_delivery_id b = dlv_id d \<Longrightarrow> att_status b = Att_Running \<Longrightarrow> b = a"
proof -
  from assms(2) obtain a x where a: "a \<in> set (attempts s)" "att_id a = cl_attempt_id claim"
    "att_claim_token a = Some (cl_token claim)" and x: "x \<in> set (deliveries s)"
    "dlv_id x = att_delivery_id a" "dlv_event_id x = env_event_id (cl_event claim)"
    "dlv_consumer x = cl_consumer claim"
    by (auto simp: claim_ok_def stamp_def identity_def attempt_key_def)
  have d: "d \<in> set (deliveries s)" and "x = d"
    using lock_delivery_member [OF delivery_invD(1) [OF inv] x(1)] lock lock_delivery_Some [OF lock]
    by (simp_all add: x(3,4))
  then have cb: "claimed_by a d" using x(2) a(3) holds by (simp add: claimed_by_def holds_claim_def)
  have "b = a" if b: "b \<in> set (attempts s)" "att_delivery_id b = dlv_id d" "att_status b = Att_Running" for b
  proof -
    obtain y where y: "y \<in> set (deliveries s)" "claimed_by b y"
      using delivery_invD(5) [OF inv] b by (auto simp: running_matches_def)
    then have "y = d" using unique_keys_eq [OF delivery_invD(2) [OF inv] _ d] b(2)
      by (auto simp: claimed_by_def)
    then have "att_claim_token b = att_claim_token a" using y(2) cb by (simp add: claimed_by_def)
    then show ?thesis using unique_keys_eq [of att_claim_token "attempts s" b a] a(1) b(1)
      delivery_invD(4) [OF inv] by (simp add: attempts_fresh_def)
  qed
  moreover have "by_key att_id (cl_attempt_id claim) (attempts s) = Some a"
    using by_key_member [of att_id "attempts s" a] a delivery_invD(4) [OF inv]
    by (simp add: attempts_fresh_def)
  ultimately show ?thesis using that a cb by blast
qed

text \<open>Settling the attempt that runs: the delivery leaves processing together with it.\<close>

lemma settle_keeps:
  assumes inv: "delivery_inv limit s" and d: "d \<in> set (deliveries s)" and a: "a \<in> set (attempts s)"
    and own: "\<And>b. b \<in> set (attempts s) \<Longrightarrow> att_delivery_id b = dlv_id d
      \<Longrightarrow> att_status b = Att_Running \<Longrightarrow> b = a" "att_delivery_id a = dlv_id d"
    and id: "identity d1 = identity d" and row: "row_ok limit (next_uuid s) d1"
    and st: "dlv_status d1 \<noteq> Processing" and a1: "stamp a1 = stamp a" "att_status a1 \<noteq> Att_Running"
    and t: "deliveries t = store_row dlv_id d1 (deliveries s)" "attempts t = store_row att_id a1 (attempts s)"
      "outbox_events t = outbox_events s" "next_uuid t = next_uuid s"
    and rcp: "receipts t = receipts s \<and> (dlv_status d1 = Succeeded \<longleftrightarrow> dlv_status d = Succeeded)
      \<or> (\<exists>r. receipts t = receipts s @ [r] \<and> receipt_key r = delivery_key d
           \<and> dlv_status d \<noteq> Succeeded \<and> dlv_status d1 = Succeeded)"
  shows "advances limit s t"
proof -
  have u: "unique_keys att_id (attempts s)" using delivery_invD(4) [OF inv] by (simp add: attempts_fresh_def)
  have same: "map stamp (attempts t) = map stamp (attempts s)"
    unfolding t(2) by (rule stamp_store [OF u a a1(1)])
  have a1': "att_id a1 = att_id a" "att_delivery_id a1 = dlv_id d"
    using a1(1) own(2) by (simp_all add: stamp_def attempt_key_def)
  note rows = in_store_row_iff [OF u a a1'(1), folded t(2)]
  show ?thesis
  proof (rule delivery_change [OF inv d id t(1,3) _ _ _ _ _ _ rcp])
    show "attempts_fresh t"
      using delivery_invD(4) [OF inv] same by (rule attempts_fresh_same) (simp add: t(4))
    show "b \<in> set (attempts t) \<longleftrightarrow> b \<in> set (attempts s)" if "att_delivery_id b \<noteq> dlv_id d" for b
      using that rows own(2) a1'(2) by auto
    show "claimed_by b d1" if "b \<in> set (attempts t)" "att_status b = Att_Running"
      "att_delivery_id b = dlv_id d" for b
      using that rows own(1) a1(2) by metis
    show "stamp ` set (attempts s) \<subseteq> stamp ` set (attempts t)"
      using same by (metis list.set_map order_refl)
  qed (use row st t(4) in auto)
qed

section \<open>Effects and failures\<close>

text \<open>
  The contract of a consumer's effect: it works in the caller's transaction on its own tables and
  touches neither the outbox nor the delivery tables, so that fencing stays with the service.
\<close>

definition keeps_deliveries :: "db \<Rightarrow> db \<Rightarrow> bool" where
  "keeps_deliveries s t = (outbox_events t = outbox_events s \<and> deliveries t = deliveries s
     \<and> receipts t = receipts s \<and> attempts t = attempts s \<and> replays t = replays s
     \<and> next_uuid s \<le> next_uuid t)"

lemma keeps_deliveries_refl [simp]: "keeps_deliveries s s"
  by (simp add: keeps_deliveries_def)

lemma keeps_deliveries_trans:
  "keeps_deliveries s t \<Longrightarrow> keeps_deliveries t u \<Longrightarrow> keeps_deliveries s u"
  by (auto simp: keeps_deliveries_def)

lemma keeps_deliveries_advances:
  assumes "keeps_deliveries s t" and inv: "delivery_inv limit s"
  shows "advances limit s t"
proof -
  have t: "outbox_events t = outbox_events s" "deliveries t = deliveries s"
    "receipts t = receipts s" "attempts t = attempts s" "next_uuid s \<le> next_uuid t"
    using assms(1) by (simp_all add: keeps_deliveries_def)
  have "outbox_inv t" by (rule outbox_inv_cong [OF delivery_invD(1) [OF inv] t(1,2,5)])
  moreover have "attempts_fresh t"
    by (rule attempts_fresh_same [OF delivery_invD(4) [OF inv]]) (simp_all add: t)
  moreover have "row_ok limit (next_uuid t) d" if "d \<in> set (deliveries t)" for d
    using delivery_invD(3) [OF inv] row_ok_mono t(2,5) that by metis
  ultimately show ?thesis
    using delivery_invD(5,6) [OF inv] t
    by (simp add: advances_def delivery_inv_def extends_def running_matches_def receipts_match_def)
qed

locale consumer_effects =
  fixes registry :: registry
  assumes effect_keeps: "registry c = Some h \<Longrightarrow> h env s = Inr (r, t) \<Longrightarrow> keeps_deliveries s t"
begin

text \<open>What a committed effect wrote: the handler's change, one receipt, the settled delivery.\<close>

lemma run_effect_cases:
  assumes "run_effect registry claim now finished s = Inr (r, t)"
  obtains (fenced) "\<not> er_acknowledge r" "t = s"
  | (committed) d h result s1 a a1 d1 o' where
      "lock_delivery s (env_event_id (cl_event claim)) (cl_consumer claim) = Some d"
      "holds_claim claim d" "er_acknowledge r" "er_outcome r = ''consumer_committed''"
      "registry (cl_consumer claim) = Some h" "h (cl_event claim) s = Inr (result, s1)"
      "receipt_of s1 (env_event_id (cl_event claim)) (cl_consumer claim) = None"
      "by_key att_id (cl_attempt_id claim) (attempts s1) = Some a"
      "stamp a1 = stamp a" "att_status a1 \<noteq> Att_Running" "identity d1 = identity d"
      "d1 = clear_claim (d\<lparr>dlv_status := Succeeded, dlv_last_error_category := None\<rparr>)"
      "t = save_attempt a1 (save_delivery d1 (s1\<lparr>receipts := receipts s1 @ [\<lparr>rcp_consumer = cl_consumer claim,
         rcp_event_id = env_event_id (cl_event claim), rcp_outcome = o'\<rparr>]\<rparr>))"
proof -
  let ?lock = "lock_delivery s (env_event_id (cl_event claim)) (cl_consumer claim)"
  show ?thesis
  proof (cases "\<exists>d. ?lock = Some d \<and> holds_claim claim d
      \<and> \<not> (case dlv_claim_expires_at d of None \<Rightarrow> True | Some e \<Rightarrow> e \<le> now)")
    case False
    then have "\<not> er_acknowledge r \<and> t = s"
      using assms by (auto simp: run_effect_def Let_def superseded_def outcome_def split: option.splits if_splits)
    then show ?thesis using fenced by blast
  next
    case True
    then obtain d where d: "?lock = Some d" "holds_claim claim d"
      "\<not> (case dlv_claim_expires_at d of None \<Rightarrow> True | Some e \<Rightarrow> e \<le> now)" by blast
    from assms obtain h result s1 a where h: "registry (cl_consumer claim) = Some h"
      "h (cl_event claim) s = Inr (result, s1)"
      and none: "receipt_of s1 (env_event_id (cl_event claim)) (cl_consumer claim) = None"
      and a: "by_key att_id (cl_attempt_id claim) (attempts s1) = Some a"
      and r: "r = outcome ''consumer_committed'' True (Some (env_correlation_id (cl_event claim)))"
      and t: "t = save_attempt (a\<lparr>att_status := (if result = ''skipped'' then Att_Skipped else Att_Succeeded),
           att_finished_at := Some finished\<rparr>)
         (save_delivery (clear_claim (d\<lparr>dlv_status := Succeeded, dlv_last_error_category := None\<rparr>))
           (s1\<lparr>receipts := receipts s1 @ [\<lparr>rcp_consumer = cl_consumer claim,
              rcp_event_id = env_event_id (cl_event claim),
              rcp_outcome = (if result = ''skipped'' then Skipped else Processed)\<rparr>]\<rparr>))"
      by (auto simp: run_effect_def Let_def d res_simps)
    show ?thesis
      by (rule committed [OF d(1,2) _ _ h none a _ _ _ refl t])
        (simp_all add: r outcome_def stamp_def attempt_key_def identity_def clear_claim_def)
  qed
qed

lemma run_effect_keeps:
  assumes inv: "delivery_inv limit s" and ok: "claim_ok s claim"
    and run: "run_effect registry claim now finished s = Inr (r, t)"
  shows "advances limit s t"
  using run
proof (cases rule: run_effect_cases)
  case fenced
  then show ?thesis using advances_refl [OF inv] by simp
next
  case (committed d h result s1 a a1 d1 o')
  note keep = effect_keeps [OF committed(5,6)]
  note adv = keeps_deliveries_advances [OF keep inv]
  have rows: "deliveries s1 = deliveries s" "attempts s1 = attempts s"
    using keep by (simp_all add: keeps_deliveries_def)
  note d = lock_delivery_Some [OF committed(1)]
  obtain b where b: "by_key att_id (cl_attempt_id claim) (attempts s) = Some b" "b \<in> set (attempts s)"
    "claimed_by b d"
    "\<And>x. x \<in> set (attempts s) \<Longrightarrow> att_delivery_id x = dlv_id d \<Longrightarrow> att_status x = Att_Running \<Longrightarrow> x = b"
    using claimed_attempt [OF inv ok committed(1,2)] by metis
  have "a = b" using b(1) committed(8) rows(2) by simp
  have row: "row_ok limit (next_uuid s1) d1"
    using delivery_invD(3) [OF advancesD [OF adv], of d] d rows(1) committed(12)
    by (auto simp: row_ok_def)
  have "advances limit s1 t"
    by (rule settle_keeps [OF advancesD [OF adv], of d a d1 a1])
      (use d b \<open>a = b\<close> committed(2,9-12) row rows in
        \<open>auto simp: committed(13) claimed_by_def receipt_key_def delivery_key_def holds_claim_def\<close>)
  then show ?thesis by (rule advances_trans [OF adv])
qed

end

lemma finish_failure_cases:
  assumes "finish_failure cfg claim failure jitter now s = Inr (r, t)"
  obtains (fenced) "\<not> er_acknowledge r" "t = s"
  | (settled) d a a1 d1 where
      "lock_delivery s (env_event_id (cl_event claim)) (cl_consumer claim) = Some d"
      "holds_claim claim d" "by_key att_id (cl_attempt_id claim) (attempts s) = Some a"
      "stamp a1 = stamp a" "att_status a1 \<noteq> Att_Running" "identity d1 = identity d"
      "dlv_status d1 = (if er_acknowledge r then Failed else Pending)"
      "dlv_claim_token d1 = None" "claim_fields_ok d1" "dlv_retry_cycle d1 = dlv_retry_cycle d"
      "dlv_attempt_count d1 = (if fl_infrastructure failure then dlv_attempt_count d - 1
         else dlv_attempt_count d)"
      "t = save_attempt a1 (save_delivery d1 s)"
proof -
  show ?thesis
  proof (cases "\<exists>d. lock_delivery s (env_event_id (cl_event claim)) (cl_consumer claim) = Some d
      \<and> holds_claim claim d")
    case False
    then have "\<not> er_acknowledge r \<and> t = s"
      using assms by (auto simp: finish_failure_def superseded_def outcome_def split: option.splits if_splits)
    then show ?thesis using fenced by blast
  next
    case True
    then obtain d where d: "lock_delivery s (env_event_id (cl_event claim)) (cl_consumer claim) = Some d"
      "holds_claim claim d" by blast
    let ?count = "if fl_infrastructure failure then dlv_attempt_count d - 1 else dlv_attempt_count d"
    let ?terminal = "fl_permanent failure \<or> \<not> fl_infrastructure failure \<and> ?count \<ge> cfg_max_attempts cfg"
    from assms obtain a delay where a: "by_key att_id (cl_attempt_id claim) (attempts s) = Some a"
      and r: "r = outcome (if ?terminal then ''consumer_failed'' else ''consumer_retry_scheduled'') ?terminal
        (Some (env_correlation_id (cl_event claim)))"
      and t: "t = save_attempt (a\<lparr>att_status := Att_Failed, att_error_category := Some (fl_category failure),
          att_finished_at := Some now\<rparr>)
        (save_delivery (clear_claim (d\<lparr>dlv_attempt_count := ?count,
                  dlv_status := (if ?terminal then Failed else Pending),
                  dlv_last_error_category := Some (fl_category failure),
                  dlv_next_attempt_at := now + timedelta_us delay, dlv_published_at := None\<rparr>)) s)"
      unfolding finish_failure_def d(1) option.case Let_def using d(2)
      by (simp only: simp_thms if_False bindR_Inr or_raise_Inr sum.inject prod.inject) blast
    show ?thesis
      by (rule settled [OF d a _ _ _ _ _ _ _ _ t])
        (simp_all add: r outcome_def stamp_def attempt_key_def identity_def clear_claim_def
          claim_fields_ok_def)
  qed
qed

lemma finish_failure_keeps:
  assumes inv: "delivery_inv limit s" and ok: "claim_ok s claim"
    and "finish_failure cfg claim failure jitter now s = Inr (r, t)"
  shows "advances limit s t"
  using assms(3)
proof (cases rule: finish_failure_cases)
  case fenced
  then show ?thesis using advances_refl [OF inv] by simp
next
  case (settled d a a1 d1)
  note d = lock_delivery_Some [OF settled(1)]
  obtain b where b: "by_key att_id (cl_attempt_id claim) (attempts s) = Some b" "b \<in> set (attempts s)"
    "claimed_by b d"
    "\<And>x. x \<in> set (attempts s) \<Longrightarrow> att_delivery_id x = dlv_id d \<Longrightarrow> att_status x = Att_Running \<Longrightarrow> x = b"
    using claimed_attempt [OF inv ok settled(1,2)] by metis
  have "a = b" using b(1) settled(3) by simp
  have row: "row_ok limit (next_uuid s) d1"
    using delivery_invD(3) [OF inv, of d] d settled by (auto simp: row_ok_def holds_claim_def)
  show ?thesis
    by (rule settle_keeps [OF inv, of d a d1 a1])
      (use d b \<open>a = b\<close> settled row in \<open>auto simp: claimed_by_def holds_claim_def\<close>)
qed

text \<open>The retry policy never refuses a claim in flight, so a failure can always be recorded.\<close>

lemma delay_seconds_total:
  "1 \<le> n \<Longrightarrow> 0 \<le> j \<Longrightarrow> j \<le> 1 \<Longrightarrow> \<exists>q. delay_seconds n j = Inr q \<and> 1 \<le> q \<and> q \<le> 60"
proof -
  assume a: "1 \<le> n" "0 \<le> j" "j \<le> 1"
  let ?b = "min 60 (2 ^ nat (min (n - 1) 6)) :: rat"
  have "1 \<le> ?b" by simp
  then have "1 * 1 \<le> ?b * (1 + j / 10)" using a by (intro mult_mono) auto
  then show ?thesis using a by (auto simp: delay_seconds_def Let_def)
qed

lemma finish_failure_total:
  assumes inv: "delivery_inv limit s" and ok: "claim_ok s claim" and "0 \<le> jitter" and "jitter \<le> 1"
  shows "\<exists>r t. finish_failure cfg claim failure jitter now s = Inr (r, t)"
proof (cases "\<exists>d. lock_delivery s (env_event_id (cl_event claim)) (cl_consumer claim) = Some d
      \<and> holds_claim claim d")
  case False
  then show ?thesis by (auto simp: finish_failure_def split: option.splits)
next
  case True
  then obtain d where d: "lock_delivery s (env_event_id (cl_event claim)) (cl_consumer claim) = Some d"
    "holds_claim claim d" by blast
  obtain a where a: "by_key att_id (cl_attempt_id claim) (attempts s) = Some a"
    using claimed_attempt [OF inv ok d] by metis
  have "1 \<le> dlv_attempt_count d"
    using delivery_invD(3) [OF inv, of d] lock_delivery_Some [OF d(1)] d(2)
    by (auto simp: row_ok_def holds_claim_def)
  then obtain q where "delay_seconds (dlv_attempt_count d) jitter = Inr q"
    using delay_seconds_total assms(3,4) by blast
  then show ?thesis by (simp add: finish_failure_def d a Let_def failure_delay_def)
qed

lemma settle_failures_keeps:
  assumes "settle_failures cfg jitter now unsettled s = Inr t" and "delivery_inv limit s"
    and "\<forall>(claim, failure) \<in> set unsettled. claim_ok s claim"
  shows "advances limit s t"
proof -
  let ?P = "\<lambda>x. advances limit s x"
  have "?P t"
    using assms(1) unfolding settle_failures_def
  proof (rule for_each_invariant [where P = ?P])
    show "?P s" using assms(2) by (rule advances_refl)
    show "?P v" if p: "p \<in> set unsettled" and u: "?P u" and v: "(case p of (claim, failure) \<Rightarrow>
      \<lambda>s. bindR (finish_failure cfg claim failure jitter now s) (\<lambda>(_, s1). Inr s1)) u = Inr v" for p u v
    proof -
      obtain claim failure where cf: "p = (claim, failure)" by force
      have "claim_ok u claim" using assms(3) p cf u claim_ok_extends by (auto simp: advances_def)
      moreover obtain r where "finish_failure cfg claim failure jitter now u = Inr (r, v)"
        using v cf by (auto simp: res_simps)
      ultimately show ?thesis using finish_failure_keeps advancesD [OF u] advances_trans [OF u] by blast
    qed
  qed
  then show ?thesis .
qed

lemma settle_failures_total:
  assumes "delivery_inv limit s" and "\<forall>(claim, failure) \<in> set unsettled. claim_ok s claim"
    and j: "0 \<le> jitter" "jitter \<le> 1"
  shows "\<exists>t. settle_failures cfg jitter now unsettled s = Inr t"
  using assms(1,2) unfolding settle_failures_def
proof (induction unsettled arbitrary: s)
  case (Cons p unsettled)
  obtain claim failure where p: "p = (claim, failure)" by force
  then obtain r t where t: "finish_failure cfg claim failure jitter now s = Inr (r, t)"
    using finish_failure_total [OF Cons.prems(1) _ j] Cons.prems(2) by fastforce
  have "claim_ok s claim" using Cons.prems(2) p by auto
  note adv = finish_failure_keeps [OF Cons.prems(1) this t]
  have "\<forall>(claim, failure) \<in> set unsettled. claim_ok t claim"
    using Cons.prems(2) adv claim_ok_extends by (fastforce simp: advances_def)
  from Cons.IH [OF advancesD [OF adv] this] show ?case by (simp add: p t)
qed simp

section \<open>Batches: recovery and relay\<close>

lemma selected_rows:
  "unique_keys key rows \<Longrightarrow> distinct (map key (take n (sort_key g (filter P rows))))"
  "set (take n (sort_key g (filter P rows))) \<subseteq> {r \<in> set rows. P r}"
proof -
  show "set (take n (sort_key g (filter P rows))) \<subseteq> {r \<in> set rows. P r}"
    by (auto dest: in_set_takeD)
  assume "unique_keys key rows"
  then have "distinct rows" "inj_on key (set rows)" by (simp_all add: unique_keys_def distinct_map)
  then have "distinct (map key (sort_key g (filter P rows)))"
    by (auto simp: distinct_map intro: inj_on_subset)
  then show "distinct (map key (take n (sort_key g (filter P rows))))"
    by (simp add: distinct_take flip: take_map)
qed

lemma distinct_map_other: "distinct (map key (d # ds)) \<Longrightarrow> x \<in> set ds \<Longrightarrow> key x \<noteq> key d"
  by (metis distinct.simps(2) image_eqI list.set_map list.simps(9))

text \<open>A batch works on the rows it selected; each pass replaces its own row only.\<close>

lemma fold_rows_keeps:
  assumes "delivery_inv limit s" and "set ds \<subseteq> set (deliveries s)" and "distinct (map dlv_id ds)"
    and pass: "\<And>d x. d \<in> set ds \<Longrightarrow> delivery_inv limit x \<Longrightarrow> d \<in> set (deliveries x) \<Longrightarrow>
      advances limit x (f d x) \<and> (\<exists>d1. dlv_id d1 = dlv_id d
        \<and> deliveries (f d x) = store_row dlv_id d1 (deliveries x))"
  shows "advances limit s (fold f ds s)"
  using assms
proof (induction ds arbitrary: s)
  case Nil
  then show ?case by (simp add: advances_refl)
next
  case (Cons d ds)
  have d: "d \<in> set (deliveries s)" using Cons.prems(2) by simp
  from Cons.prems(4) [of d s] obtain d1 where adv: "advances limit s (f d s)"
    and d1: "dlv_id d1 = dlv_id d" "deliveries (f d s) = store_row dlv_id d1 (deliveries s)"
    using Cons.prems(1) d by auto
  have "x \<in> set (deliveries (f d s))" if "x \<in> set ds" for x
    unfolding d1(2) using distinct_map_other [OF Cons.prems(3) that] Cons.prems(2) that d1(1)
    by (auto intro!: store_row_other)
  then have "advances limit (f d s) (fold f ds (f d s))"
    using Cons.prems(3,4) by (intro Cons.IH [OF advancesD [OF adv]]) auto
  then show ?case using advances_trans [OF adv] by simp
qed

lemma recover_expired_keeps:
  assumes inv: "delivery_inv (cfg_max_attempts cfg) s"
    and "recover_expired cfg locked limit now s = (n, t)"
  shows "advances (cfg_max_attempts cfg) s t"
proof -
  let ?ds = "expired_deliveries locked limit now s"
  have sel: "set ?ds \<subseteq> {d \<in> set (deliveries s). dlv_status d = Processing}" "distinct (map dlv_id ?ds)"
    unfolding expired_deliveries_def
    using selected_rows(1) [OF delivery_invD(2) [OF inv]] selected_rows(2)
    by (auto dest: in_set_takeD)
  have "advances (cfg_max_attempts cfg) s (fold (recover_delivery cfg now) ?ds s)"
  proof (rule fold_rows_keeps [OF inv])
    show "set ?ds \<subseteq> set (deliveries s)" "distinct (map dlv_id ?ds)" using sel by auto
    show "advances (cfg_max_attempts cfg) x (recover_delivery cfg now d x) \<and> (\<exists>d1. dlv_id d1 = dlv_id d
        \<and> deliveries (recover_delivery cfg now d x) = store_row dlv_id d1 (deliveries x))"
      if "d \<in> set ?ds" "delivery_inv (cfg_max_attempts cfg) x" "d \<in> set (deliveries x)" for d x
    proof -
      have "dlv_status d = Processing" using that(1) sel(1) by blast
      then show ?thesis
        using recover_delivery_keeps [OF that(2,3)] unfolding recover_delivery_def
        by (intro conjI exI [of _ "clear_claim (d\<lparr>
          dlv_status := (if dlv_attempt_count d \<ge> cfg_max_attempts cfg then Failed else Pending),
          dlv_last_error_category := Some ''worker_interrupted'', dlv_next_attempt_at := now,
          dlv_published_at := None\<rparr>)"]) simp_all
    qed
  qed
  then show ?thesis using assms(2) by (simp add: recover_expired_def Let_def)
qed

text \<open>A relay claim on a pending delivery, and its release.\<close>

lemma pending_row_keeps:
  assumes inv: "delivery_inv limit s" and d: "d \<in> set (deliveries s)" and "dlv_status d = Pending"
    and "identity d1 = identity d" "dlv_status d1 = Pending" "dlv_attempt_count d1 = dlv_attempt_count d"
      "dlv_retry_cycle d1 = dlv_retry_cycle d" "claim_fields_ok d1"
    and "dlv_claim_token d1 = None \<or> dlv_claim_token d1 = dlv_claim_token d"
  shows "advances limit s (save_delivery d1 s)"
  by (rule save_delivery_keeps [OF inv d])
    (use assms(3-) delivery_invD(3) [OF inv d] in \<open>auto simp: row_ok_def split: option.splits\<close>)

lemma claim_rows_keeps:
  assumes "delivery_inv limit s" and "set ds \<subseteq> set (deliveries s)" and "distinct (map dlv_id ds)"
    and "\<forall>d \<in> set ds. dlv_status d = Pending" and "claim_rows owner lease now ds s = (cs, t)"
  shows "advances limit s t"
  using assms
proof (induction ds arbitrary: s cs t)
  case Nil
  then show ?case by (simp add: advances_refl)
next
  case (Cons d ds)
  let ?d = "d\<lparr>dlv_claim_token := Some (next_uuid s), dlv_claim_owner := Some owner,
    dlv_claimed_at := Some now, dlv_claim_expires_at := Some (now + lease * 1000000)\<rparr>"
  let ?u = "s\<lparr>next_uuid := next_uuid s + 1\<rparr>"
  have keep: "keeps_deliveries s ?u" by (simp add: keeps_deliveries_def)
  note adv0 = keeps_deliveries_advances [OF keep Cons.prems(1)]
  have row: "row_ok limit (next_uuid s) d" using delivery_invD(3) [OF Cons.prems(1)] Cons.prems(2) by simp
  have adv: "advances limit ?u (save_delivery ?d ?u)"
    by (rule save_delivery_keeps [OF advancesD [OF adv0], of d])
      (use Cons.prems(2,4) row in \<open>auto simp: row_ok_def identity_def claim_fields_ok_def\<close>)
  obtain cs' where "claim_rows owner lease now ds (save_delivery ?d ?u) = (cs', t)"
    using Cons.prems(5) by (auto simp: Let_def split: prod.splits)
  moreover have "x \<in> set (deliveries (save_delivery ?d ?u))" if "x \<in> set ds" for x
    using distinct_map_other [OF Cons.prems(3) that] Cons.prems(2) that
    by (auto intro!: store_row_other)
  ultimately have "advances limit (save_delivery ?d ?u) t"
    using Cons.prems(3,4) by (intro Cons.IH [OF advancesD [OF adv]]) auto
  then show ?case using advances_trans [OF adv0] advances_trans [OF adv] by blast
qed

lemma claim_due_deliveries_keeps:
  assumes inv: "delivery_inv limit s"
    and "claim_due_deliveries locked owner n lease republish now s = (cs, t)"
  shows "advances limit s t"
proof (rule claim_rows_keeps [OF inv])
  show "claim_rows owner lease now (due_deliveries locked n republish now s) s = (cs, t)"
    using assms(2) by (simp add: claim_due_deliveries_def)
  show "distinct (map dlv_id (due_deliveries locked n republish now s))"
    unfolding due_deliveries_def by (rule selected_rows(1) [OF delivery_invD(2) [OF inv]])
qed (auto simp: due_deliveries_def publishable_def dest: in_set_takeD)

lemma update_where_one:
  assumes "unique_keys key rows" and "\<And>d. P d \<Longrightarrow> key d = k" and "\<And>d. key (f d) = key d"
  shows "update_where P f rows = rows
    \<or> (\<exists>d \<in> set rows. P d \<and> update_where P f rows = store_row key (f d) rows)"
proof (cases "\<exists>d \<in> set rows. P d")
  case True
  then obtain d where d: "d \<in> set rows" "P d" by blast
  have "(if P x then f x else x) = (if key x = key (f d) then f d else x)" if "x \<in> set rows" for x
    using unique_keys_eq [OF assms(1) that d(1)] assms(2,3) d(2) by metis
  then have "update_where P f rows = store_row key (f d) rows"
    by (simp add: update_where_def store_row_def)
  with d show ?thesis by blast
qed (auto intro: update_where_none)

lemma relay_update_keeps:
  assumes inv: "delivery_inv limit s"
    and t: "t = s\<lparr>deliveries := update_where (relay_holds claim now) f (deliveries s)\<rparr>"
    and f: "\<And>d. identity (f d) = identity d \<and> dlv_status (f d) = dlv_status d
      \<and> dlv_attempt_count (f d) = dlv_attempt_count d \<and> dlv_retry_cycle (f d) = dlv_retry_cycle d
      \<and> (relay_holds claim now d \<longrightarrow> claim_fields_ok d \<longrightarrow> claim_fields_ok (f d))
      \<and> (dlv_claim_token (f d) = None \<or> dlv_claim_token (f d) = dlv_claim_token d)"
  shows "advances limit s t"
proof -
  have "update_where (relay_holds claim now) f (deliveries s) = deliveries s
    \<or> (\<exists>d \<in> set (deliveries s). relay_holds claim now d
       \<and> update_where (relay_holds claim now) f (deliveries s) = store_row dlv_id (f d) (deliveries s))"
    by (rule update_where_one [OF delivery_invD(2) [OF inv], of _ "rlc_delivery_id claim"])
      (use f in \<open>auto simp: relay_holds_def identity_def\<close>)
  then show ?thesis
  proof
    assume "update_where (relay_holds claim now) f (deliveries s) = deliveries s"
    then have "t = s" using t by simp
    then show ?thesis using advances_refl [OF inv] by simp
  next
    assume "\<exists>d \<in> set (deliveries s). relay_holds claim now d
       \<and> update_where (relay_holds claim now) f (deliveries s) = store_row dlv_id (f d) (deliveries s)"
    then obtain d where d: "d \<in> set (deliveries s)" "relay_holds claim now d" "t = save_delivery (f d) s"
      using t by (auto simp: save_delivery_def)
    have "claim_fields_ok d" using delivery_invD(3) [OF inv d(1)] by (simp add: row_ok_def)
    then show ?thesis unfolding d(3)
      by (intro pending_row_keeps [OF inv d(1)]) (use f [of d] d(2) in \<open>auto simp: relay_holds_def\<close>)
  qed
qed

lemma observe_publication_keeps:
  assumes "delivery_inv limit s" and "observe_publication claim now s = (b, t)"
  shows "advances limit s t"
  by (rule relay_update_keeps [OF assms(1), of _ claim now])
    (use assms(2) in \<open>auto simp: observe_publication_def clear_claim_def identity_def claim_fields_ok_def\<close>)

lemma defer_claim_keeps:
  assumes "delivery_inv limit s"
    and "defer_claim_after_transport_failure claim retry category now s = (b, t)"
  shows "advances limit s t"
  by (rule relay_update_keeps [OF assms(1), of _ claim now])
    (use assms(2) in \<open>auto simp: defer_claim_after_transport_failure_def identity_def claim_fields_ok_def
      relay_holds_def\<close>)

lemma reset_observations_keeps:
  assumes inv: "delivery_inv limit s" and "reset_observations_before locked cutoff n now s = (k, t)"
  shows "advances limit s t"
proof -
  let ?ds = "lost_observations locked cutoff n now s"
  let ?g = "\<lambda>d. (clear_claim d)\<lparr>dlv_published_at := None,
         dlv_last_error_category := Some ''redis_stream_recovered''\<rparr>"
  have sel: "set ?ds \<subseteq> {d \<in> set (deliveries s). dlv_status d = Pending}" "distinct (map dlv_id ?ds)"
    unfolding lost_observations_def using selected_rows(1) [OF delivery_invD(2) [OF inv]]
    by (auto dest: in_set_takeD)
  have "advances limit s (fold (\<lambda>d. save_delivery (?g d)) ?ds s)"
  proof (rule fold_rows_keeps [OF inv])
    show "set ?ds \<subseteq> set (deliveries s)" "distinct (map dlv_id ?ds)" using sel by auto
    show "advances limit x (save_delivery (?g d) x) \<and> (\<exists>d1. dlv_id d1 = dlv_id d
        \<and> deliveries (save_delivery (?g d) x) = store_row dlv_id d1 (deliveries x))"
      if "d \<in> set ?ds" "delivery_inv limit x" "d \<in> set (deliveries x)" for d x
    proof (intro conjI exI [of _ "?g d"])
      show "advances limit x (save_delivery (?g d) x)"
        by (rule pending_row_keeps [OF that(2,3)])
          (use that(1) sel(1) in \<open>auto simp: clear_claim_def identity_def claim_fields_ok_def\<close>)
    qed simp_all
  qed
  then show ?thesis using assms(2) by (simp add: reset_observations_before_def Let_def)
qed

lemma replay_delivery_Inr:
  assumes "replay_delivery operator_name delivery_id reason now s = Inr (rid, t)"
  shows "\<exists>d e. by_key dlv_id delivery_id (deliveries s) = Some d \<and> dlv_status d = Failed
    \<and> receipt_of s (dlv_event_id d) (dlv_consumer d) = None
    \<and> outbox_event_by_id s (dlv_event_id d) = Some e \<and> replay_reason_ok reason \<and> rid = next_uuid s
    \<and> t = save_delivery (clear_claim (d\<lparr>dlv_retry_cycle := dlv_retry_cycle d + 1, dlv_attempt_count := 0,
              dlv_status := Pending, dlv_next_attempt_at := now, dlv_published_at := None,
              dlv_last_error_category := None\<rparr>))
            (s\<lparr>replays := replays s @ [\<lparr>rpl_id = next_uuid s, rpl_delivery_id = dlv_id d,
                 rpl_from_cycle = dlv_retry_cycle d, rpl_to_cycle = dlv_retry_cycle d + 1,
                 rpl_operator = operator_name, rpl_reason = py_strip reason,
                 rpl_correlation_id = raw_correlation_id (evt_facts e), rpl_requested_at = now\<rparr>],
               next_uuid := next_uuid s + 1\<rparr>)"
  using assms by (auto simp: replay_delivery_def res_simps Let_def)

lemma replay_delivery_keeps:
  assumes inv: "delivery_inv limit s" and "0 \<le> limit"
    and "replay_delivery operator_name delivery_id reason now s = Inr (rid, t)"
  shows "advances limit s t"
proof -
  from replay_delivery_Inr [OF assms(3)] obtain d r where
    d: "by_key dlv_id delivery_id (deliveries s) = Some d" "dlv_status d = Failed"
    and t: "t = save_delivery (clear_claim (d\<lparr>dlv_retry_cycle := dlv_retry_cycle d + 1,
              dlv_attempt_count := 0, dlv_status := Pending, dlv_next_attempt_at := now,
              dlv_published_at := None, dlv_last_error_category := None\<rparr>))
            (s\<lparr>replays := replays s @ [r], next_uuid := next_uuid s + 1\<rparr>)"
    by blast
  let ?u = "s\<lparr>replays := replays s @ [r], next_uuid := next_uuid s + 1\<rparr>"
  have inv': "delivery_inv limit ?u"
    using inv by (auto simp: delivery_inv_def outbox_inv_def attempts_fresh_def running_matches_def
        receipts_match_def deliveries_of_def split: option.splits intro: row_ok_mono)
  have ext: "extends s ?u" by (simp add: extends_def)
  have row: "row_ok limit (next_uuid s) d" using delivery_invD(3) [OF inv] by_key_Some [OF d(1)] by simp
  have "advances limit ?u t" unfolding t
    by (rule save_delivery_keeps [OF inv', of d])
      (use by_key_Some [OF d(1)] d(2) row assms(2) in \<open>auto simp: row_ok_def identity_def\<close>)
  then show ?thesis using extends_trans [OF ext] by (simp add: advances_def)
qed

section \<open>New events\<close>

lemma append_keeps_deliveries:
  assumes app: "append_command_event iv ty org rid aty aid rvn p s = Inr (e, t)"
    and inv: "delivery_inv limit s" and "0 \<le> limit"
  shows "advances limit s t"
proof -
  from append_command_event_Inr [OF app]
  have t: "deliveries t = deliveries s @ fan_out iv (next_uuid s + 1) (next_uuid s) (consumers_for ty)"
    "attempts t = attempts s" "receipts t = receipts s" "next_uuid s \<le> next_uuid t"
    by auto
  have new: "d \<in> set (fan_out iv (next_uuid s + 1) (next_uuid s) (consumers_for ty)) \<Longrightarrow>
      dlv_status d = Pending \<and> dlv_event_id d = next_uuid s \<and> row_ok limit (next_uuid t) d" for d
    using assms(3) by (auto dest!: in_fan_out simp: new_delivery_def row_ok_def claim_fields_ok_def)
  have "outbox_inv t"
    by (rule append_command_event_outbox_inv [OF app delivery_invD(1) [OF inv]])
  moreover have "row_ok limit (next_uuid t) d" if "d \<in> set (deliveries t)" for d
    using that new delivery_invD(3) [OF inv] row_ok_mono [OF _ t(4)] unfolding t(1) by auto
  moreover have "attempts_fresh t"
    by (rule attempts_fresh_same [OF delivery_invD(4) [OF inv]]) (simp_all add: t)
  moreover have "running_matches t"
    using delivery_invD(5) [OF inv] new unfolding running_matches_def t(1,2)
    by (metis UnE UnI1 delivery_status.distinct(1) set_append)
  moreover have "{d \<in> set (deliveries t). dlv_status d = Succeeded}
      = {d \<in> set (deliveries s). dlv_status d = Succeeded}"
    unfolding t(1) using new by auto
  moreover have "extends s t" using t by (auto simp: extends_def)
  ultimately show ?thesis
    using delivery_invD(6) [OF inv] by (simp add: advances_def delivery_inv_def receipts_match_def t(3))
qed

end
