(* ===== verification/Delivery_Steps.thy ===== *)
theory Delivery_Steps
  imports Delivery_Fencing
begin

text \<open>
  The delivery subsystem as a state machine. Any number of workers interleave their transactions;
  each keeps the claims it was given, also after the lease expired or another worker took over. The
  state carries, beside the database, every claim ever given out and the log of committed effects,
  so that what a late worker can still do is part of the state.
\<close>

section \<open>Steps\<close>

record delivery_state =
  ws_db :: db
  ws_claims :: "attempt_claim list"
  ws_effects :: "(uuid \<times> consumer) list"

definition claim_key :: "attempt_claim \<Rightarrow> uuid \<times> consumer" where
  "claim_key claim = (env_event_id (cl_event claim), cl_consumer claim)"

inductive delivery_step :: "registry \<Rightarrow> execution_config \<Rightarrow> delivery_state \<Rightarrow> delivery_state \<Rightarrow> bool"
  for registry cfg where
  produce: "append_command_event iv ty org rid aty aid rvn p (ws_db w) = Inr (e, t)
    \<Longrightarrow> delivery_step registry cfg w (w\<lparr>ws_db := t\<rparr>)"
| business: "keeps_deliveries (ws_db w) t \<Longrightarrow> delivery_step registry cfg w (w\<lparr>ws_db := t\<rparr>)"
| relay_claim: "claim_due_deliveries locked owner n lease republish now (ws_db w) = (cs, t)
    \<Longrightarrow> delivery_step registry cfg w (w\<lparr>ws_db := t\<rparr>)"
| relay_observe: "observe_publication claim now (ws_db w) = (b, t)
    \<Longrightarrow> delivery_step registry cfg w (w\<lparr>ws_db := t\<rparr>)"
| relay_defer: "defer_claim_after_transport_failure claim retry category now (ws_db w) = (b, t)
    \<Longrightarrow> delivery_step registry cfg w (w\<lparr>ws_db := t\<rparr>)"
| relay_reset: "reset_observations_before locked cutoff n now (ws_db w) = (k, t)
    \<Longrightarrow> delivery_step registry cfg w (w\<lparr>ws_db := t\<rparr>)"
| start: "start_attempt registry cfg event_id c ref worker_id busy now (ws_db w) = (r, t)
    \<Longrightarrow> delivery_step registry cfg w (w\<lparr>ws_db := t,
          ws_claims := (case r of Inl _ \<Rightarrow> ws_claims w | Inr claim \<Rightarrow> ws_claims w @ [claim])\<rparr>)"
| effect: "claim \<in> set (ws_claims w) \<Longrightarrow> run_effect registry claim now finished (ws_db w) = Inr (r, t)
    \<Longrightarrow> delivery_step registry cfg w (w\<lparr>ws_db := t,
          ws_effects := (if er_outcome r = ''consumer_committed'' then ws_effects w @ [claim_key claim]
            else ws_effects w)\<rparr>)"
| fail: "claim \<in> set (ws_claims w)
    \<Longrightarrow> finish_failure cfg claim (classify_failure cause) jitter now (ws_db w) = Inr (r, t)
    \<Longrightarrow> delivery_step registry cfg w (w\<lparr>ws_db := t\<rparr>)"
| recover: "recover_expired cfg locked n now (ws_db w) = (k, t)
    \<Longrightarrow> delivery_step registry cfg w (w\<lparr>ws_db := t\<rparr>)"
| replay: "replay_delivery operator_name delivery_id reason now (ws_db w) = Inr (rpl, t)
    \<Longrightarrow> delivery_step registry cfg w (w\<lparr>ws_db := t\<rparr>)"

inductive_cases delivery_stepE: "delivery_step registry cfg w v"

definition delivery_state_inv :: "int \<Rightarrow> delivery_state \<Rightarrow> bool" where
  "delivery_state_inv limit w = (delivery_inv limit (ws_db w)
     \<and> (\<forall>claim \<in> set (ws_claims w). claim_ok (ws_db w) claim)
     \<and> distinct (map cl_token (ws_claims w))
     \<and> (\<forall>claim \<in> set (ws_claims w). cl_token claim < next_uuid (ws_db w))
     \<and> ws_effects w = map receipt_key (receipts (ws_db w)))"

text \<open>A fresh deployment: no events, no deliveries, no claims.\<close>

definition fresh_deployment :: "delivery_state \<Rightarrow> bool" where
  "fresh_deployment w = (outbox_events (ws_db w) = [] \<and> deliveries (ws_db w) = []
     \<and> receipts (ws_db w) = [] \<and> attempts (ws_db w) = [] \<and> ws_claims w = [] \<and> ws_effects w = [])"

lemma fresh_deployment_inv: "fresh_deployment w \<Longrightarrow> delivery_state_inv limit w"
  by (simp add: fresh_deployment_def delivery_state_inv_def delivery_inv_def outbox_inv_def
      attempts_fresh_def running_matches_def receipts_match_def)

section \<open>New claims\<close>

lemma deserialize_event_id: "deserialize_event r = Inr env \<Longrightarrow> env_event_id env = raw_event_id r"
  by (auto simp: deserialize_event_def res_simps)

lemma begin_attempt_claim:
  assumes "begin_attempt registry cfg event d c correlation worker_id now s = (Inr claim, t)"
    and "d \<in> set (deliveries s)" "dlv_event_id d = evt_event_id event" "dlv_consumer d = c"
  shows "claim_ok t claim \<and> cl_token claim = next_uuid s \<and> next_uuid t = next_uuid s + 2
    \<and> claim_key claim = delivery_key d \<and> receipts t = receipts s"
  using assms(1)
proof (cases rule: begin_attempt_cases)
  case (claimed claim' env)
  let ?d = "start_processing cfg None (next_uuid s) worker_id now d"
  have "env_event_id env = dlv_event_id d"
    using deserialize_event_id [OF claimed(3)] assms(3) by (simp add: evt_event_id_def)
  moreover have "?d \<in> set (deliveries t)" unfolding claimed(10) using assms(2)
    by (auto intro: store_row_self)
  moreover have "new_attempt d s None now \<in> set (attempts t)" unfolding claimed(10) by simp
  moreover have "identity ?d = (dlv_id d, dlv_event_id d, c)"
    "stamp (new_attempt d s None now) = (next_uuid s + 1, Some (next_uuid s), dlv_id d,
       dlv_retry_cycle d, next_attempt_number s d)"
    using assms(4) by (simp_all add: identity_def stamp_def new_attempt_def attempt_key_def)
  ultimately have "claim_ok t claim"
    using claimed(1,5-8) unfolding claim_ok_def by (metis Inr_inject image_eqI)
  then show ?thesis
    using claimed assms(4) \<open>env_event_id env = dlv_event_id d\<close>
    by (simp add: claim_key_def delivery_key_def)
qed simp_all

lemma start_attempt_claim:
  assumes inv: "delivery_inv (cfg_max_attempts cfg) s"
    and "start_attempt registry cfg event_id c ref worker_id busy now s = (Inr claim, t)"
  shows "claim_ok t claim \<and> cl_token claim = next_uuid s \<and> next_uuid t = next_uuid s + 2
    \<and> claim_key claim = (event_id, c) \<and> receipts t = receipts s"
proof -
  from assms(2) obtain event d where e: "outbox_event_by_id s event_id = Some event"
    and lock: "lock_delivery s event_id c = Some d"
    and sd: "start_delivery registry cfg event d c (Some (safe_identifier (raw_correlation_id (evt_facts event))))
       worker_id now s = (Inr claim, t)"
    by (auto simp: start_attempt_def Let_def split: option.splits if_splits)
  note d = lock_delivery_Some [OF lock]
  have eid: "evt_event_id event = event_id"
    using e unfolding outbox_event_by_id_def by (drule_tac by_key_Some) simp
  let ?d = "clear_claim (d\<lparr>dlv_status := Pending\<rparr>)"
  let ?s = "save_delivery ?d (interrupt_attempts (dlv_id d) now s)"
  let ?c = "Some (safe_identifier (raw_correlation_id (evt_facts event)))"
  have "begin_attempt registry cfg event d c ?c worker_id now s = (Inr claim, t)
      \<or> begin_attempt registry cfg event ?d c ?c worker_id now ?s = (Inr claim, t)"
    using sd by (auto simp: start_delivery_def Let_def split: if_splits)
  then show ?thesis
  proof
    assume b: "begin_attempt registry cfg event d c ?c worker_id now s = (Inr claim, t)"
    show ?thesis using begin_attempt_claim [OF b] d eid by (simp add: delivery_key_def)
  next
    assume b: "begin_attempt registry cfg event ?d c ?c worker_id now ?s = (Inr claim, t)"
    have "?d \<in> set (deliveries ?s)" using d by (auto intro: store_row_self)
    then show ?thesis using begin_attempt_claim [OF b] d eid by (simp add: delivery_key_def)
  qed
qed

section \<open>Receipts are written by effects only\<close>

lemma begin_attempt_receipts:
  "begin_attempt registry cfg event d c correlation worker_id now s = (r, t) \<Longrightarrow> receipts t = receipts s"
  by (erule begin_attempt_cases) simp_all

lemma start_attempt_receipts:
  "start_attempt registry cfg event_id c ref worker_id busy now s = (r, t) \<Longrightarrow> receipts t = receipts s"
  by (auto simp: start_attempt_def start_delivery_def Let_def dest: begin_attempt_receipts
      split: option.splits if_splits)

lemma fold_receipts: "(\<And>d s. receipts (f d s) = receipts s) \<Longrightarrow> receipts (fold f ds s) = receipts s"
  by (induction ds arbitrary: s) simp_all

lemma claim_rows_receipts:
  "claim_rows owner lease now ds s = (cs, t) \<Longrightarrow> receipts t = receipts s"
  by (induction ds arbitrary: s cs t) (auto simp: Let_def split: prod.splits)

lemma delivery_step_receipts:
  assumes "delivery_step registry cfg w v"
  shows "receipts (ws_db v) = receipts (ws_db w) \<and> ws_effects v = ws_effects w
    \<or> (\<exists>claim now finished r. claim \<in> set (ws_claims w)
        \<and> run_effect registry claim now finished (ws_db w) = Inr (r, ws_db v)
        \<and> ws_effects v = (if er_outcome r = ''consumer_committed'' then ws_effects w @ [claim_key claim]
            else ws_effects w))"
  using assms
proof cases
  case (produce iv ty org rid aty aid rvn p e t)
  then show ?thesis by (auto dest: append_command_event_Inr)
next
  case (fail claim cause jitter now r t)
  from fail(3) show ?thesis by (cases rule: finish_failure_cases) (simp_all add: fail(1))
next
  case (replay operator_name delivery_id reason now rpl t)
  then show ?thesis by (auto dest: replay_delivery_Inr)
next
  case (relay_claim locked owner n lease republish now cs t)
  then show ?thesis by (auto simp: claim_due_deliveries_def dest: claim_rows_receipts)
next
  case (start event_id c ref worker_id busy now r t)
  then show ?thesis by (auto dest: start_attempt_receipts)
next
  case (effect claim now finished r t)
  then show ?thesis by auto
next
  case (recover locked n now k t)
  then show ?thesis by (auto simp: recover_expired_def Let_def recover_delivery_def fold_receipts)
next
  case (relay_reset locked cutoff n now k t)
  then show ?thesis by (auto simp: reset_observations_before_def Let_def fold_receipts)
qed (auto simp: keeps_deliveries_def observe_publication_def defer_claim_after_transport_failure_def)

section \<open>The invariant of every interleaving\<close>

definition state_ok :: "execution_config \<Rightarrow> delivery_state \<Rightarrow> bool" where
  "state_ok cfg w = (retry_policy_ok (cfg_max_attempts cfg)
     \<and> delivery_state_inv (cfg_max_attempts cfg) w)"

lemma state_okD:
  assumes "state_ok cfg w"
  shows "0 \<le> cfg_max_attempts cfg" "delivery_inv (cfg_max_attempts cfg) (ws_db w)"
    "claim \<in> set (ws_claims w) \<Longrightarrow> claim_ok (ws_db w) claim" "distinct (map cl_token (ws_claims w))"
    "claim \<in> set (ws_claims w) \<Longrightarrow> cl_token claim < next_uuid (ws_db w)"
    "ws_effects w = map receipt_key (receipts (ws_db w))"
  using assms by (auto simp: state_ok_def retry_policy_ok_def delivery_state_inv_def)

context consumer_effects
begin

lemma step_advances:
  assumes ok: "state_ok cfg w" and "delivery_step registry cfg w v"
  shows "advances (cfg_max_attempts cfg) (ws_db w) (ws_db v)"
  using assms(2)
proof cases
  case (produce iv ty org rid aty aid rvn p e t)
  then show ?thesis using append_keeps_deliveries [OF _ state_okD(2,1) [OF ok]] by simp
next
  case (business t)
  then show ?thesis using keeps_deliveries_advances [OF _ state_okD(2) [OF ok]] by simp
next
  case (relay_claim locked owner n lease republish now cs t)
  then show ?thesis using claim_due_deliveries_keeps [OF state_okD(2) [OF ok]] by simp
next
  case (relay_observe claim now b t)
  then show ?thesis using observe_publication_keeps [OF state_okD(2) [OF ok]] by simp
next
  case (relay_defer claim retry category now b t)
  then show ?thesis using defer_claim_keeps [OF state_okD(2) [OF ok]] by simp
next
  case (relay_reset locked cutoff n now k t)
  then show ?thesis using reset_observations_keeps [OF state_okD(2) [OF ok]] by simp
next
  case (start event_id c ref worker_id busy now r t)
  then show ?thesis using start_attempt_keeps [OF state_okD(2) [OF ok]] by simp
next
  case (effect claim now finished r t)
  then show ?thesis using run_effect_keeps [OF state_okD(2,3) [OF ok]] by simp
next
  case (fail claim cause jitter now r t)
  then show ?thesis using finish_failure_keeps [OF state_okD(2,3) [OF ok]] by simp
next
  case (recover locked n now k t)
  then show ?thesis using recover_expired_keeps [OF state_okD(2) [OF ok]] by simp
next
  case (replay operator_name delivery_id reason now rpl t)
  then show ?thesis using replay_delivery_keeps [OF state_okD(2,1) [OF ok]] by simp
qed

lemma effect_receipts:
  assumes "run_effect registry claim now finished s = Inr (r, t)"
  shows "map receipt_key (receipts t) = (if er_outcome r = ''consumer_committed''
    then map receipt_key (receipts s) @ [claim_key claim] else map receipt_key (receipts s))"
  using assms
proof (cases rule: run_effect_cases)
  case fenced
  then have "er_outcome r \<noteq> ''consumer_committed''"
    using assms by (auto simp: run_effect_def Let_def superseded_def outcome_def res_simps
        split: option.splits if_splits)
  then show ?thesis using fenced by simp
next
  case (committed d h result s1 a a1 d1 o')
  then show ?thesis using effect_keeps [OF committed(5,6)]
    by (simp add: keeps_deliveries_def receipt_key_def claim_key_def)
qed

lemma step_claims:
  assumes ok: "state_ok cfg w" and "delivery_step registry cfg w v"
  shows "ws_claims v = ws_claims w \<or> (\<exists>claim. ws_claims v = ws_claims w @ [claim]
    \<and> claim_ok (ws_db v) claim \<and> cl_token claim = next_uuid (ws_db w)
    \<and> cl_token claim < next_uuid (ws_db v))"
  using assms(2)
proof cases
  case (start event_id c ref worker_id busy now r t)
  then show ?thesis using start_attempt_claim [OF state_okD(2) [OF ok]] by (cases r) auto
qed simp_all

lemma step_state_ok:
  assumes ok: "state_ok cfg w" and step: "delivery_step registry cfg w v"
  shows "state_ok cfg v"
proof -
  note adv = step_advances [OF assms]
  have old: "claim_ok (ws_db v) claim \<and> cl_token claim < next_uuid (ws_db v)"
    if "claim \<in> set (ws_claims w)" for claim
    using state_okD(3,5) [OF ok that] claim_ok_extends adv by (auto simp: advances_def extends_def)
  have "ws_effects v = map receipt_key (receipts (ws_db v))"
    using delivery_step_receipts [OF step] state_okD(6) [OF ok] effect_receipts by auto
  moreover have "(\<forall>claim \<in> set (ws_claims v). claim_ok (ws_db v) claim \<and> cl_token claim < next_uuid (ws_db v))
      \<and> distinct (map cl_token (ws_claims v))"
    using step_claims [OF assms] old state_okD(4,5) [OF ok] by fastforce
  ultimately show ?thesis
    using ok advancesD [OF adv] by (simp add: state_ok_def delivery_state_inv_def)
qed

end

sublocale consumer_effects \<subseteq> runs: step_invariant "delivery_step registry cfg" "state_ok cfg" for cfg
  by unfold_locales (rule step_state_ok)

text \<open>
  What every interleaving guarantees, as lemmas of the interface: committed effects and receipts
  agree and are unique, and of all claims ever given out for a delivery at most one is live.
\<close>

definition live_claim :: "db \<Rightarrow> attempt_claim \<Rightarrow> bool" where
  "live_claim s claim = (case lock_delivery s (env_event_id (cl_event claim)) (cl_consumer claim) of
     None \<Rightarrow> False | Some d \<Rightarrow> holds_claim claim d)"

context consumer_effects
begin

lemma effects_exactly_once:
  assumes "(delivery_step registry cfg)\<^sup>*\<^sup>* w v" and "fresh_deployment w"
    and "retry_policy_ok (cfg_max_attempts cfg)"
  shows "distinct (ws_effects v) \<and> set (ws_effects v)
    = delivery_key ` {d \<in> set (deliveries (ws_db v)). dlv_status d = Succeeded}"
proof -
  have "state_ok cfg w" using assms(2,3) fresh_deployment_inv by (simp add: state_ok_def)
  then have ok: "state_ok cfg v" by (rule runs.reachable_keeps [OF assms(1)])
  then show ?thesis
    using delivery_invD(6) [OF state_okD(2) [OF ok]] state_okD(6) [OF ok]
    by (simp add: receipts_match_def unique_keys_def)
qed

lemma at_most_one_live_claim:
  assumes "state_ok cfg w" and "x \<in> set (ws_claims w)" "y \<in> set (ws_claims w)"
    and "claim_key x = claim_key y" and "live_claim (ws_db w) x" "live_claim (ws_db w) y"
  shows "x = y"
proof -
  have "cl_token x = cl_token y"
    using assms(4-) by (auto simp: live_claim_def claim_key_def holds_claim_def split: option.splits)
  then show ?thesis using state_okD(4) [OF assms(1)] assms(2,3) by (auto simp: distinct_map inj_on_def)
qed

end

section \<open>Events are appended only, and decode\<close>

definition events_decode :: "db \<Rightarrow> bool" where
  "events_decode s = (\<forall>e \<in> set (outbox_events s). \<exists>env. deserialize_event (evt_facts e) = Inr env)"

lemma append_decodes:
  assumes "append_command_event iv ty org rid aty aid rvn p s = Inr (e, t)"
  shows "outbox_events t = outbox_events s @ [e] \<and> (\<exists>env. deserialize_event (evt_facts e) = Inr env)"
proof
  show "outbox_events t = outbox_events s @ [e]" using append_command_event_Inr [OF assms] by auto
  from assms obtain raw env where "deserialize_event raw = Inr env" "evt_facts e = serialize_event env"
    by (auto simp: append_command_event_def append_event_def res_simps Let_def)
  then show "\<exists>env. deserialize_event (evt_facts e) = Inr env" using stored_event_reads_back by auto
qed

lemma begin_attempt_events:
  "begin_attempt registry cfg event d c correlation worker_id now s = (r, t) \<Longrightarrow> outbox_events t = outbox_events s"
  by (erule begin_attempt_cases) simp_all

lemma start_attempt_events:
  "start_attempt registry cfg event_id c ref worker_id busy now s = (r, t) \<Longrightarrow> outbox_events t = outbox_events s"
  by (auto simp: start_attempt_def start_delivery_def Let_def dest: begin_attempt_events
      split: option.splits if_splits)

lemma fold_events: "(\<And>d s. outbox_events (f d s) = outbox_events s) \<Longrightarrow> outbox_events (fold f ds s) = outbox_events s"
  by (induction ds arbitrary: s) simp_all

lemma claim_rows_events:
  "claim_rows owner lease now ds s = (cs, t) \<Longrightarrow> outbox_events t = outbox_events s"
  by (induction ds arbitrary: s cs t) (auto simp: Let_def split: prod.splits)

context consumer_effects
begin

lemma run_effect_events:
  "run_effect registry claim now finished s = Inr (r, t) \<Longrightarrow> outbox_events t = outbox_events s"
  by (erule run_effect_cases) (auto simp: keeps_deliveries_def dest: effect_keeps)

lemma step_decodes:
  assumes "delivery_step registry cfg w v" and "events_decode (ws_db w)"
  shows "events_decode (ws_db v)"
  using assms(1)
proof cases
  case (produce iv ty org rid aty aid rvn p e t)
  then show ?thesis using append_decodes [OF produce(2)] assms(2) by (auto simp: events_decode_def)
next
  case (fail claim cause jitter now r t)
  from fail(3) show ?thesis using assms(2)
    by (cases rule: finish_failure_cases) (simp_all add: fail(1) events_decode_def)
next
  case (replay operator_name delivery_id reason now rpl t)
  then show ?thesis using assms(2) by (auto dest: replay_delivery_Inr simp: events_decode_def)
next
  case (relay_claim locked owner n lease republish now cs t)
  then show ?thesis using assms(2) by (auto simp: claim_due_deliveries_def events_decode_def dest: claim_rows_events)
next
  case (start event_id c ref worker_id busy now r t)
  then show ?thesis using assms(2) by (auto dest: start_attempt_events simp: events_decode_def)
next
  case (effect claim now finished r t)
  then show ?thesis using assms(2) by (auto dest: run_effect_events simp: events_decode_def)
next
  case (recover locked n now k t)
  then show ?thesis using assms(2)
    by (auto simp: recover_expired_def Let_def recover_delivery_def fold_events events_decode_def)
next
  case (relay_reset locked cutoff n now k t)
  then show ?thesis using assms(2) by (auto simp: reset_observations_before_def Let_def fold_events events_decode_def)
qed (use assms(2) in \<open>auto simp: events_decode_def keeps_deliveries_def observe_publication_def
    defer_claim_after_transport_failure_def\<close>)

text \<open>What holds in every state a deployment reaches from an empty outbox.\<close>

lemma reachable_ok:
  assumes "(delivery_step registry cfg)\<^sup>*\<^sup>* w v" and "fresh_deployment w"
    and "retry_policy_ok (cfg_max_attempts cfg)"
  shows "state_ok cfg v" and "events_decode (ws_db v)"
proof -
  have "state_ok cfg w" using assms(2,3) fresh_deployment_inv by (simp add: state_ok_def)
  then show "state_ok cfg v" by (rule runs.reachable_keeps [OF assms(1)])
  have "events_decode (ws_db w)" using assms(2) by (simp add: fresh_deployment_def events_decode_def)
  with assms(1) show "events_decode (ws_db v)"
    by (induction rule: rtranclp_induct) (auto intro: step_decodes)
qed

end

end
