(* ===== verification/Delivery_Execution.thy ===== *)
theory Delivery_Execution
  imports Delivery_Steps
begin

text \<open>
  What one call of \<open>ConsumerExecutionService.execute\<close> guarantees to the worker loop: it never fails
  on its own bookkeeping, it lets the worker acknowledge a stream reference only when the outcome is
  durable, and a delivery that is due and free makes progress. Recovery and replay bring deliveries
  back; neither can repeat an effect.
\<close>

section \<open>Acknowledgement\<close>

text \<open>The delivery has reached an outcome that no redelivery of its reference can change.\<close>

definition durable :: "db \<Rightarrow> uuid \<Rightarrow> consumer \<Rightarrow> bool" where
  "durable s event_id c = ((\<exists>d \<in> set (deliveries s). delivery_key d = (event_id, c)
       \<and> (dlv_status d = Succeeded \<and> receipt_of s event_id c \<noteq> None \<or> dlv_status d = Failed))
     \<or> (\<exists>e \<in> set (outbox_events s). evt_event_id e = event_id \<and> is_unsubscribed e c))"

lemma durable_row:
  "d \<in> set (deliveries s) \<Longrightarrow> delivery_key d = (event_id, c) \<Longrightarrow> dlv_status d = Failed
     \<Longrightarrow> durable s event_id c"
  by (auto simp: durable_def)

lemma begin_attempt_durable:
  assumes "begin_attempt registry cfg event d c correlation worker_id now s = (Inl r, t)"
    and "er_acknowledge r" and "d \<in> set (deliveries s)" and "delivery_key d = (event_id, c)"
  shows "durable t event_id c"
  using assms(1)
proof (cases rule: begin_attempt_cases)
  case (exhausted o')
  show ?thesis
    by (rule durable_row [of "clear_claim (d\<lparr>dlv_status := Failed,
              dlv_last_error_category := Some ''attempt_limit''\<rparr>)"])
      (use assms(3,4) in \<open>auto simp: exhausted(3) delivery_key_def intro: store_row_self\<close>)
next
  case (rejected o' category)
  show ?thesis
    by (rule durable_row [of "clear_claim (start_processing cfg category (next_uuid s) worker_id now d)"])
      (use assms(3,4) rejected(3) in \<open>auto simp: rejected(4) delivery_key_def intro: store_row_self\<close>)
qed (use assms(2) in simp_all)

lemma start_delivery_durable:
  assumes inv: "delivery_inv limit s" and d: "d \<in> set (deliveries s)" "delivery_key d = (event_id, c)"
    and "start_delivery registry cfg event d c correlation worker_id now s = (Inl r, t)"
    and ack: "er_acknowledge r"
  shows "durable t event_id c"
proof -
  let ?d = "clear_claim (d\<lparr>dlv_status := Pending\<rparr>)"
  let ?u = "interrupt_attempts (dlv_id d) now s"
  have d': "?d \<in> set (deliveries (save_delivery ?d ?u))"
    "?d\<lparr>dlv_status := Failed, dlv_last_error_category := Some ''attempt_limit''\<rparr>
      \<in> set (deliveries (save_delivery (?d\<lparr>dlv_status := Failed,
           dlv_last_error_category := Some ''attempt_limit''\<rparr>) ?u))"
    using d(1) by (auto intro: store_row_self)
  have key: "delivery_key ?d = (event_id, c)" using d(2) by (simp add: delivery_key_def)
  have "dlv_status d = Succeeded \<Longrightarrow> receipt_of s (dlv_event_id d) c \<noteq> None \<Longrightarrow> durable s event_id c"
    using d by (auto simp: durable_def delivery_key_def)
  moreover have "dlv_status d = Failed \<Longrightarrow> durable s event_id c" using d durable_row by blast
  moreover have "durable (save_delivery (?d\<lparr>dlv_status := Failed,
           dlv_last_error_category := Some ''attempt_limit''\<rparr>) ?u) event_id c"
    by (rule durable_row [OF d'(2)]) (use key in \<open>simp_all add: delivery_key_def\<close>)
  ultimately show ?thesis
    using assms(4) ack begin_attempt_durable [OF _ _ d'(1) key] begin_attempt_durable [OF _ _ d]
    by (auto simp: start_delivery_def Let_def outcome_def split: if_splits)
qed

lemma start_attempt_durable:
  assumes "delivery_inv limit s" and "er_acknowledge r"
    and "start_attempt registry cfg event_id c ref worker_id busy now s = (Inl r, t)"
  shows "durable t event_id c"
proof -
  from assms(3,2) obtain event where e: "outbox_event_by_id s event_id = Some event"
    by (auto simp: start_attempt_def outcome_def split: option.splits)
  have "event \<in> set (outbox_events s)" "evt_event_id event = event_id"
    using by_key_Some [OF e [unfolded outbox_event_by_id_def]] by auto
  then have "is_unsubscribed event c \<Longrightarrow> durable s event_id c" by (auto simp: durable_def)
  then show ?thesis
    using assms(3,2) e start_delivery_durable [OF assms(1)]
    by (auto simp: start_attempt_def Let_def outcome_def delivery_key_def
        dest!: lock_delivery_Some split: option.splits if_splits)
qed

lemma finish_failure_durable:
  assumes "finish_failure cfg claim failure jitter now s = Inr (r, t)" and ack: "er_acknowledge r"
    and "claim_key claim = (event_id, c)"
  shows "durable t event_id c"
  using assms(1)
proof (cases rule: finish_failure_cases)
  case (settled d a a1 d1)
  note d = lock_delivery_Some [OF settled(1)]
  show ?thesis
    by (rule durable_row [of d1])
      (use d settled(6,7) ack assms(3) in \<open>auto simp: settled(12) delivery_key_def claim_key_def identity_def
        intro: store_row_self\<close>)
qed (use ack in simp)

context consumer_effects
begin

lemma run_effect_durable:
  assumes "run_effect registry claim now finished s = Inr (r, t)" and ack: "er_acknowledge r"
    and "claim_key claim = (event_id, c)"
  shows "durable t event_id c"
  using assms(1)
proof (cases rule: run_effect_cases)
  case (committed d h result s1 a a1 d1 o')
  note d = lock_delivery_Some [OF committed(1)]
  have "deliveries s1 = deliveries s" using effect_keeps [OF committed(5,6)] by (simp add: keeps_deliveries_def)
  then have "d1 \<in> set (deliveries t)" using d by (auto simp: committed(12,13) intro: store_row_self)
  moreover have "receipt_of t event_id c \<noteq> None"
    unfolding receipt_of_iff using assms(3) by (simp add: committed(13) claim_key_def receipt_key_def)
  moreover have "delivery_key d1 = (event_id, c)" "dlv_status d1 = Succeeded"
    using d assms(3) by (simp_all add: committed(12) delivery_key_def claim_key_def)
  ultimately show ?thesis by (auto simp: durable_def)
qed (use ack in simp)

lemma execute_cases:
  assumes "execute registry cfg event_id c ref worker_id busy jitter t0 t1 t2 unsettled s = Inr (r, t)"
  obtains (declined) s0 o' where "settle_failures cfg jitter t0 unsettled s = Inr s0" "r = Inr o'"
      "start_attempt registry cfg event_id c ref worker_id busy t0 s0 = (Inl o', t)"
  | (ran) s0 s1 claim o' where "settle_failures cfg jitter t0 unsettled s = Inr s0" "r = Inr o'"
      "start_attempt registry cfg event_id c ref worker_id busy t0 s0 = (Inr claim, s1)"
      "run_effect registry claim t1 t2 s1 = Inr (o', t)"
  | (failed) s0 s1 claim e o' where "settle_failures cfg jitter t0 unsettled s = Inr s0"
      "start_attempt registry cfg event_id c ref worker_id busy t0 s0 = (Inr claim, s1)"
      "run_effect registry claim t1 t2 s1 = Inl e" "r = Inr o' \<or> r = Inl Dependency_Unavailable"
      "finish_failure cfg claim (classify_failure (cause_of e)) jitter t2 s1 = Inr (o', t)"
proof -
  from assms obtain s0 where s0: "settle_failures cfg jitter t0 unsettled s = Inr s0"
    by (auto simp: execute_def res_simps)
  obtain x s1 where x: "start_attempt registry cfg event_id c ref worker_id busy t0 s0 = (x, s1)" by force
  show ?thesis
  proof (cases x)
    case (Inl o')
    then show ?thesis using assms declined [of s0 o'] by (simp add: execute_def s0 x)
  next
    case (Inr claim)
    show ?thesis
    proof (cases "run_effect registry claim t1 t2 s1")
      case (Inl e)
      then show ?thesis using assms failed [OF s0 _ Inl] x \<open>x = Inr claim\<close>
        by (auto simp: execute_def s0 Let_def res_simps split: if_splits)
    next
      case (Inr y)
      then show ?thesis using assms ran [OF s0, of _ claim s1] x \<open>x = Inr claim\<close>
        by (cases y) (auto simp: execute_def s0)
    qed
  qed
qed

lemma execute_acknowledges_durable:
  assumes inv: "delivery_inv (cfg_max_attempts cfg) s"
    and "\<forall>(claim, failure) \<in> set unsettled. claim_ok s claim"
    and "execute registry cfg event_id c ref worker_id busy jitter t0 t1 t2 unsettled s = Inr (Inr r, t)"
    and ack: "er_acknowledge r"
  shows "durable t event_id c"
  using assms(3)
proof (cases rule: execute_cases)
  case (declined s0 o')
  show ?thesis using start_attempt_durable [OF advancesD [OF settle_failures_keeps [OF declined(1) inv assms(2)]]]
    declined(2,3) ack by simp
next
  case (ran s0 s1 claim o')
  note inv0 = advancesD [OF settle_failures_keeps [OF ran(1) inv assms(2)]]
  show ?thesis using run_effect_durable [OF ran(4)] start_attempt_claim [OF inv0 ran(3)] ran(2) ack by simp
next
  case (failed s0 s1 claim e o')
  note inv0 = advancesD [OF settle_failures_keeps [OF failed(1) inv assms(2)]]
  show ?thesis using finish_failure_durable [OF failed(5)] start_attempt_claim [OF inv0 failed(2)] failed(4) ack
    by auto
qed

lemma execute_total:
  assumes inv: "delivery_inv (cfg_max_attempts cfg) s"
    and "\<forall>(claim, failure) \<in> set unsettled. claim_ok s claim" and j: "0 \<le> jitter" "jitter \<le> 1"
  shows "\<exists>r t. execute registry cfg event_id c ref worker_id busy jitter t0 t1 t2 unsettled s = Inr (r, t)"
proof -
  obtain s0 where s0: "settle_failures cfg jitter t0 unsettled s = Inr s0"
    using settle_failures_total [OF inv assms(2) j] by blast
  note inv0 = advancesD [OF settle_failures_keeps [OF s0 inv assms(2)]]
  obtain x s1 where x: "start_attempt registry cfg event_id c ref worker_id busy t0 s0 = (x, s1)" by force
  show ?thesis
  proof (cases x)
    case (Inr claim)
    have "claim_ok s1 claim" using start_attempt_claim [OF inv0] x Inr by simp
    moreover have "delivery_inv (cfg_max_attempts cfg) s1" using start_attempt_keeps [OF inv0 x] by (rule advancesD)
    ultimately have fin: "\<exists>r t. finish_failure cfg claim f jitter t2 s1 = Inr (r, t)" for f
      using finish_failure_total j by blast
    show ?thesis
    proof (cases "run_effect registry claim t1 t2 s1")
      case (Inl e)
      obtain r t where "finish_failure cfg claim (classify_failure (cause_of e)) jitter t2 s1 = Inr (r, t)"
        using fin by blast
      then show ?thesis by (simp add: execute_def s0 x \<open>x = Inr claim\<close> Inl Let_def)
    next
      case (Inr y)
      then show ?thesis by (cases y) (simp add: execute_def s0 x \<open>x = Inr claim\<close>)
    qed
  qed (simp add: execute_def s0 x)
qed

end

section \<open>Progress\<close>

lemma publish_reference_matches:
  "reference_matches (publish_reference (relay_claim_of owner token d e)) e"
  by (simp add: reference_matches_def publish_reference_def relay_claim_of_def evt_event_id_def)

lemma event_of_delivery:
  assumes inv: "outbox_inv s" and "d \<in> set (deliveries s)"
    and "outbox_event_by_id s (dlv_event_id d) = Some event"
    and env: "deserialize_event (evt_facts event) = Inr env"
  shows "dlv_consumer d \<in> set (consumers_for (env_event_type env))"
proof -
  have e: "event \<in> set (outbox_events s)" "evt_event_id event = dlv_event_id d"
    using by_key_Some [OF assms(3) [unfolded outbox_event_by_id_def]] by auto
  have "event_type_of event = Some (env_event_type env)"
    using env by (auto simp: event_type_of_def deserialize_event_def res_simps)
  then have "map dlv_consumer (deliveries_of s (dlv_event_id d)) = consumers_for (env_event_type env)"
    using inv e by (fastforce simp: outbox_inv_def)
  then show ?thesis using assms(2) by (auto simp: deliveries_of_def simp flip: \<open>map _ _ = _\<close>)
qed

text \<open>The state after a free, due delivery was claimed.\<close>

definition started_state :: "execution_config \<Rightarrow> string \<Rightarrow> instant \<Rightarrow> delivery \<Rightarrow> db \<Rightarrow> db" where
  "started_state cfg worker_id now d s =
     save_delivery (start_processing cfg None (next_uuid s) worker_id now d)
       (s\<lparr>attempts := attempts s @ [new_attempt d s None now], next_uuid := next_uuid s + 2\<rparr>)"

lemma due_delivery_starts:
  assumes inv: "delivery_inv limit s" and d: "d \<in> set (deliveries s)" and "dlv_status d = Pending"
    and "dlv_next_attempt_at d \<le> now" and "dlv_attempt_count d < cfg_max_attempts cfg"
    and event: "outbox_event_by_id s (dlv_event_id d) = Some event"
    and env: "deserialize_event (evt_facts event) = Inr env" and "reference_matches ref event"
    and "registry (dlv_consumer d) \<noteq> None"
  shows "\<exists>claim. start_attempt registry cfg (dlv_event_id d) (dlv_consumer d) ref worker_id False now s
      = (Inr claim, started_state cfg worker_id now d s) \<and> cl_event claim = env
    \<and> cl_consumer claim = dlv_consumer d \<and> cl_token claim = next_uuid s
    \<and> cl_attempt_id claim = next_uuid s + 1"
proof -
  have "receipt_of s (dlv_event_id d) (dlv_consumer d) = None"
    using receipt_iff_succeeded [OF inv d] assms(3) by simp
  moreover note lock_delivery_member [OF delivery_invD(1) [OF inv] d]
    event_of_delivery [OF delivery_invD(1) [OF inv] d event env]
  ultimately show ?thesis
    using assms(3-)
    by (simp add: start_attempt_def start_delivery_def begin_attempt_def Let_def contract_failure_def
        started_state_def new_attempt_def)
qed

context consumer_effects
begin

lemma due_delivery_succeeds:
  assumes inv: "delivery_inv (cfg_max_attempts cfg) s" and d: "d \<in> set (deliveries s)"
    and pend: "dlv_status d = Pending" "dlv_next_attempt_at d \<le> t0"
      "dlv_attempt_count d < cfg_max_attempts cfg"
    and event: "outbox_event_by_id s (dlv_event_id d) = Some event"
    and env: "deserialize_event (evt_facts event) = Inr env" and ref: "reference_matches ref event"
    and lease: "t1 < t0 + cfg_lease_seconds cfg * 1000000"
    and h: "registry (dlv_consumer d) = Some h"
      "h env (started_state cfg worker_id t0 d s) = Inr (result, s2)"
      "result \<in> set [''processed'', ''skipped'']"
  shows "\<exists>r t. execute registry cfg (dlv_event_id d) (dlv_consumer d) ref worker_id False jitter t0 t1 t2 [] s
      = Inr (Inr r, t) \<and> er_acknowledge r \<and> er_outcome r = ''consumer_committed''
    \<and> (\<exists>d1 \<in> set (deliveries t). identity d1 = identity d \<and> dlv_status d1 = Succeeded)"
proof -
  let ?s1 = "started_state cfg worker_id t0 d s"
  let ?d = "start_processing cfg None (next_uuid s) worker_id t0 d"
  obtain claim where start: "start_attempt registry cfg (dlv_event_id d) (dlv_consumer d) ref worker_id False t0 s
      = (Inr claim, ?s1)" and claim: "cl_event claim = env" "cl_consumer claim = dlv_consumer d"
      "cl_token claim = next_uuid s" "cl_attempt_id claim = next_uuid s + 1"
    using due_delivery_starts [OF inv d pend event env ref] h(1) by blast
  have inv1: "delivery_inv (cfg_max_attempts cfg) ?s1" by (rule advancesD [OF start_attempt_keeps [OF inv start]])
  have eid: "env_event_id env = dlv_event_id d"
    using deserialize_event_id [OF env] by_key_Some [OF event [unfolded outbox_event_by_id_def]]
    by (simp add: evt_event_id_def)
  have d1: "?d \<in> set (deliveries ?s1)" using d by (auto simp: started_state_def intro: store_row_self)
  have lock: "lock_delivery ?s1 (dlv_event_id d) (dlv_consumer d) = Some ?d"
    using lock_delivery_member [OF delivery_invD(1) [OF inv1] d1] by simp
  have keep: "keeps_deliveries ?s1 s2" by (rule effect_keeps [OF h(1,2)])
  have "receipt_of s2 (dlv_event_id d) (dlv_consumer d) = None"
    using receipt_iff_succeeded [OF inv1 d1] keep by (simp add: receipt_of_def keeps_deliveries_def)
  moreover have "claim_ok ?s1 claim" using start_attempt_claim [OF inv start] by blast
  then obtain a where "by_key att_id (next_uuid s + 1) (attempts s2) = Some a"
    using claimed_attempt [OF inv1, of claim ?d] lock claim eid keep
    by (auto simp: holds_claim_def keeps_deliveries_def)
  moreover have "dlv_claim_expires_at ?d = Some (t0 + cfg_lease_seconds cfg * 1000000)"
    by (simp add: start_processing_def)
  moreover have "deliveries s2 = deliveries ?s1" using keep by (simp add: keeps_deliveries_def)
  moreover have "\<exists>d1 \<in> set (store_row dlv_id (clear_claim (?d\<lparr>dlv_status := Succeeded,
      dlv_last_error_category := None\<rparr>)) (deliveries ?s1)). identity d1 = identity d \<and> dlv_status d1 = Succeeded"
    by (rule bexI [OF _ store_row_self [OF d1]]) (simp_all add: identity_def)
  ultimately show ?thesis
    using lock lease h claim eid start
    by (cases "result = ''skipped''")
      (simp_all add: execute_def settle_failures_def run_effect_def Let_def holds_claim_def outcome_def)
qed

end

end
