(* ===== verification/Analytics.thy ===== *)
theory Analytics
  imports Outbox
begin

text \<open>
  The analytics projection (\<open>analytics/service.py\<close>, \<open>analytics/domain\<close>,
  \<open>analytics/repo/projection.py\<close>): the effect that folds order events into per-order contributions
  and daily totals, its inspection, its reconciliation with the orders, and its rebuild. Dates are
  day numbers since the epoch.
\<close>

section \<open>Domain\<close>

record contribution_value =
  cv_order_id :: int
  cv_revision :: int
  cv_creation_date :: int
  cv_total :: dec
  cv_state :: contribution_state

definition cv_count :: "contribution_value \<Rightarrow> int" where
  "cv_count v = (if cv_state v = Completed then 1 else 0)"

definition microseconds_per_day :: int where
  "microseconds_per_day = 86400000000"

definition creation_date :: "datetime \<Rightarrow> int" where
  "creation_date created_at = micros created_at div microseconds_per_day"

definition should_apply :: "contribution_value option \<Rightarrow> contribution_value \<Rightarrow> bool" where
  "should_apply current_value incoming = (case current_value of None \<Rightarrow> True
     | Some c \<Rightarrow> cv_state c \<noteq> Deleted \<and> cv_revision incoming > cv_revision c)"

section \<open>Repository\<close>

definition analytics_scope :: "db \<Rightarrow> uuid \<Rightarrow> int \<Rightarrow> 'a result \<Rightarrow> 'a result" where
  "analytics_scope s organization_id restaurant_id rest =
     raise_if (\<not> restaurant_matches_organization s restaurant_id organization_id)
       (ValueError ''Unknown analytics scope'') rest"

definition scoped_contributions :: "db \<Rightarrow> uuid \<Rightarrow> int \<Rightarrow> contribution list" where
  "scoped_contributions s organization_id restaurant_id =
     sort_key con_order_id (filter (\<lambda>c. con_restaurant_id c = restaurant_id
       \<and> con_organization_id c = organization_id) (contributions s))"

definition contribution_value_of :: "contribution \<Rightarrow> contribution_value" where
  "contribution_value_of c =
     \<lparr>cv_order_id = con_order_id c, cv_revision = con_revision c,
      cv_creation_date = con_creation_date c, cv_total = con_total c, cv_state = con_state c\<rparr>"

definition get_contribution :: "db \<Rightarrow> uuid \<Rightarrow> int \<Rightarrow> int \<Rightarrow> contribution option" where
  "get_contribution s organization_id restaurant_id order_id =
     select_one (\<lambda>c. con_restaurant_id c = restaurant_id \<and> con_organization_id c = organization_id
       \<and> con_order_id c = order_id) (contributions s)"

definition contribution_key :: "contribution \<Rightarrow> int \<times> int" where
  "contribution_key c = (con_restaurant_id c, con_order_id c)"

definition contribution_row :: "uuid \<Rightarrow> int \<Rightarrow> contribution_value \<Rightarrow> contribution" where
  "contribution_row organization_id restaurant_id v =
     \<lparr>con_restaurant_id = restaurant_id, con_order_id = cv_order_id v,
      con_organization_id = organization_id, con_revision = cv_revision v,
      con_creation_date = cv_creation_date v, con_total = cv_total v, con_state = cv_state v\<rparr>"

definition store_contribution ::
  "uuid \<Rightarrow> int \<Rightarrow> contribution_value \<Rightarrow> contribution option \<Rightarrow> db \<Rightarrow> db" where
  "store_contribution organization_id restaurant_id incoming row s = (case row of
      None \<Rightarrow> s\<lparr>contributions := contributions s @ [contribution_row organization_id restaurant_id incoming]\<rparr>
    | Some r \<Rightarrow> s\<lparr>contributions := store_row contribution_key
        (r\<lparr>con_revision := cv_revision incoming, con_creation_date := cv_creation_date incoming,
           con_total := cv_total incoming, con_state := cv_state incoming\<rparr>) (contributions s)\<rparr>)"

definition daily_key :: "daily_sales \<Rightarrow> int \<times> int" where
  "daily_key d = (day_restaurant_id d, day_creation_date d)"

definition daily_delta :: "uuid \<Rightarrow> int \<Rightarrow> int \<Rightarrow> int \<Rightarrow> dec \<Rightarrow> db \<Rightarrow> db" where
  "daily_delta organization_id restaurant_id day n sales s =
     (case by_key daily_key (restaurant_id, day) (daily_rows s) of
        None \<Rightarrow> s\<lparr>daily_rows := daily_rows s @ [\<lparr>day_restaurant_id = restaurant_id,
          day_creation_date = day, day_organization_id = organization_id,
          day_order_count = 0 + n, day_sales = 0 + sales\<rparr>]\<rparr>
      | Some d \<Rightarrow> s\<lparr>daily_rows := store_row daily_key
          (d\<lparr>day_order_count := day_order_count d + n, day_sales := day_sales d + sales\<rparr>) (daily_rows s)\<rparr>)"

definition daily_totals :: "db \<Rightarrow> uuid \<Rightarrow> int \<Rightarrow> (int \<times> (int \<times> dec)) list" where
  "daily_totals s organization_id restaurant_id =
     map (\<lambda>d. (day_creation_date d, (day_order_count d, day_sales d)))
       (sort_key day_creation_date (filter (\<lambda>d. day_restaurant_id d = restaurant_id
          \<and> day_organization_id d = organization_id) (daily_rows s)))"

definition scoped_orders :: "db \<Rightarrow> uuid \<Rightarrow> int \<Rightarrow> order list" where
  "scoped_orders s organization_id restaurant_id =
     filter (\<lambda>d. ord_restaurant_id d = restaurant_id
       \<and> restaurant_matches_organization s restaurant_id organization_id) (orders s)"

definition authoritative :: "db \<Rightarrow> uuid \<Rightarrow> int \<Rightarrow> (int \<times> (int \<times> dec)) list" where
  "authoritative s organization_id restaurant_id =
     (let rows = filter (\<lambda>d. ord_status d = ''COMPLETED'') (scoped_orders s organization_id restaurant_id);
          day = (\<lambda>d. creation_date (ord_created_at d)) in
      map (\<lambda>k. let members = filter (\<lambda>d. day d = k) rows in
          (k, (int (length members), sum_list (map ord_total members))))
        (remdups (map day rows)))"

text \<open>\<open>values[order_id] = v\<close> of a dictionary in insertion order.\<close>

definition put_value :: "contribution_value \<Rightarrow> contribution_value list \<Rightarrow> contribution_value list" where
  "put_value v vs = (if by_key cv_order_id (cv_order_id v) vs = None then vs @ [v]
     else store_row cv_order_id v vs)"

definition order_baseline :: "order \<Rightarrow> contribution_value" where
  "order_baseline d = (let completed = (ord_status d = ''COMPLETED'') in
     \<lparr>cv_order_id = ord_id d, cv_revision = ord_revision d,
      cv_creation_date = creation_date (ord_created_at d),
      cv_total = (if completed then ord_total d else 0),
      cv_state = (if completed then Completed else Inactive)\<rparr>)"

definition deletion_facts :: "db \<Rightarrow> uuid \<Rightarrow> int \<Rightarrow> outbox_event list" where
  "deletion_facts s organization_id restaurant_id =
     filter (\<lambda>e. raw_restaurant_id (evt_facts e) = restaurant_id
       \<and> raw_organization_id (evt_facts e) = organization_id
       \<and> raw_event_type (evt_facts e) = ''order.deleted.v1'') (outbox_events s)"

definition apply_deletion_fact ::
  "outbox_event \<Rightarrow> contribution_value list \<Rightarrow> contribution_value list result" where
  "apply_deletion_fact e vs =
     (case validate_payload Order_Deleted (raw_payload (evt_facts e)) of
        Some (OrderDeletedPayload order_id prior total_value created_at) \<Rightarrow>
          let v = \<lparr>cv_order_id = order_id, cv_revision = raw_aggregate_revision (evt_facts e),
                   cv_creation_date = creation_date created_at, cv_total = 0, cv_state = Deleted\<rparr> in
          Inr (case by_key cv_order_id order_id vs of
              None \<Rightarrow> put_value v vs
            | Some old \<Rightarrow> if raw_aggregate_revision (evt_facts e) > cv_revision old
                then put_value v vs else vs)
      | _ \<Rightarrow> Inl (ValueError ''OrderDeletedPayload''))"

definition baseline :: "db \<Rightarrow> uuid \<Rightarrow> int \<Rightarrow> contribution_value list result" where
  "baseline s organization_id restaurant_id =
     for_each apply_deletion_fact (deletion_facts s organization_id restaurant_id)
       (fold (\<lambda>d. put_value (order_baseline d)) (scoped_orders s organization_id restaurant_id) [])"

definition clear_daily :: "uuid \<Rightarrow> int \<Rightarrow> db \<Rightarrow> db" where
  "clear_daily organization_id restaurant_id s =
     s\<lparr>daily_rows := delete_where (\<lambda>d. day_restaurant_id d = restaurant_id
        \<and> day_organization_id d = organization_id) (daily_rows s)\<rparr>"

text \<open>The CHECK constraints of the rows of a restaurant, which PostgreSQL enforces at the flush.\<close>

definition flush_analytics :: "int \<Rightarrow> db \<Rightarrow> 'a result \<Rightarrow> 'a result" where
  "flush_analytics restaurant_id s rest =
     raise_if (exists_row (\<lambda>c. con_restaurant_id c = restaurant_id \<and> \<not> contribution_check c) (contributions s)
       \<or> exists_row (\<lambda>d. day_restaurant_id d = restaurant_id \<and> \<not> daily_check d) (daily_rows s))
       (IntegrityError ''analytics check constraint'') rest"

section \<open>The effect\<close>

definition incoming_contribution :: "envelope \<Rightarrow> contribution_value option" where
  "incoming_contribution event = (case env_payload event of
      OrderCompletedPayload order_id total_value created_at \<Rightarrow>
        Some \<lparr>cv_order_id = order_id, cv_revision = env_aggregate_revision event,
          cv_creation_date = creation_date created_at, cv_total = total_value, cv_state = Completed\<rparr>
    | OrderDeletedPayload order_id prior total_value created_at \<Rightarrow>
        Some \<lparr>cv_order_id = order_id, cv_revision = env_aggregate_revision event,
          cv_creation_date = creation_date created_at, cv_total = 0, cv_state = Deleted\<rparr>
    | _ \<Rightarrow> None)"

text \<open>The body of the effect once the revision check passed: take back the old share, add the new.\<close>

definition project_contribution ::
  "uuid \<Rightarrow> int \<Rightarrow> contribution_value \<Rightarrow> contribution option \<Rightarrow> db \<Rightarrow> db" where
  "project_contribution organization_id restaurant_id incoming row s =
     (let s1 = (case map_option contribution_value_of row of None \<Rightarrow> s
            | Some c \<Rightarrow> if cv_count c \<noteq> 0
                then daily_delta organization_id restaurant_id (cv_creation_date c) (- 1) (- cv_total c) s
                else s);
          s2 = (if cv_count incoming \<noteq> 0
                then daily_delta organization_id restaurant_id (cv_creation_date incoming) 1
                  (cv_total incoming) s1 else s1) in
      store_contribution organization_id restaurant_id incoming row s2)"

definition apply_order_event :: "envelope \<Rightarrow> db \<Rightarrow> (string \<times> db) result" where
  "apply_order_event event s =
     (let organization_id = env_organization_id event; restaurant_id = env_restaurant_id event in
      or_raise (incoming_contribution event) (ValueError ''Unsupported analytics event'') (\<lambda>incoming.
      analytics_scope s organization_id restaurant_id (
      let row = get_contribution s organization_id restaurant_id (cv_order_id incoming) in
      if \<not> should_apply (map_option contribution_value_of row) incoming then Inr (''skipped'', s)
      else
        let s1 = project_contribution organization_id restaurant_id incoming row s in
        flush_analytics restaurant_id s1 (Inr (''processed'', s1)))))"

section \<open>Maintenance\<close>

definition inspect_analytics ::
  "uuid \<Rightarrow> int \<Rightarrow> db \<Rightarrow> ((int \<times> (int \<times> dec)) list \<times> contribution_value list) result" where
  "inspect_analytics organization_id restaurant_id s =
     analytics_scope s organization_id restaurant_id (
     Inr (daily_totals s organization_id restaurant_id,
          map contribution_value_of (scoped_contributions s organization_id restaurant_id)))"

definition get_day :: "(int \<times> (int \<times> dec)) list \<Rightarrow> int \<Rightarrow> int \<times> dec" where
  "get_day days k = (case map_of days k of None \<Rightarrow> (0, 0) | Some v \<Rightarrow> v)"

record discrepancy =
  dsc_creation_date :: int
  dsc_authoritative :: "int \<times> dec"
  dsc_projected :: "int \<times> dec"

definition reconcile_analytics :: "uuid \<Rightarrow> int \<Rightarrow> db \<Rightarrow> (bool \<times> discrepancy list) result" where
  "reconcile_analytics organization_id restaurant_id s =
     analytics_scope s organization_id restaurant_id (
     let projected = daily_totals s organization_id restaurant_id;
         actual = authoritative s organization_id restaurant_id;
         days = sort (remdups (map fst projected @ map fst actual));
         differences = map (\<lambda>k. \<lparr>dsc_creation_date = k, dsc_authoritative = get_day actual k,
             dsc_projected = get_day projected k\<rparr>)
           (filter (\<lambda>k. get_day actual k \<noteq> get_day projected k) days) in
     Inr (differences = [], differences))"

definition keep_tombstone ::
  "contribution \<Rightarrow> contribution_value list \<Rightarrow> contribution_value list result" where
  "keep_tombstone row vs = (if by_key cv_order_id (con_order_id row) vs \<noteq> None then Inr vs
     else raise_if (con_state row \<noteq> Deleted)
       (ValueError ''Missing authoritative order/deletion fact'')
       (Inr (put_value (contribution_value_of row) vs)))"

definition rebuild_value ::
  "uuid \<Rightarrow> int \<Rightarrow> contribution list \<Rightarrow> contribution_value \<Rightarrow> db \<Rightarrow> db" where
  "rebuild_value organization_id restaurant_id existing v s =
     (let s1 = store_contribution organization_id restaurant_id v
            (by_key con_order_id (cv_order_id v) existing) s in
      if cv_count v \<noteq> 0
      then daily_delta organization_id restaurant_id (cv_creation_date v) 1 (cv_total v) s1 else s1)"

definition rebuild_analytics_projection :: "uuid \<Rightarrow> int \<Rightarrow> db \<Rightarrow> (unit \<times> db) result" where
  "rebuild_analytics_projection organization_id restaurant_id s =
     analytics_scope s organization_id restaurant_id (
     bindR (baseline s organization_id restaurant_id) (\<lambda>vs.
     let existing = scoped_contributions s organization_id restaurant_id in
     bindR (for_each keep_tombstone existing vs) (\<lambda>values.
     let s1 = fold (rebuild_value organization_id restaurant_id existing) values
           (clear_daily organization_id restaurant_id s) in
     flush_analytics restaurant_id s1 (Inr ((), s1)))))"

section \<open>Sums over tables\<close>

lemma sum_list_store_row:
  fixes f :: "'r \<Rightarrow> 'a::ab_group_add"
  assumes "unique_keys key rows" and "by_key key (key r) rows = Some old"
  shows "(\<Sum>x \<leftarrow> store_row key r rows. f x) = (\<Sum>x \<leftarrow> rows. f x) - f old + f r"
  using assms
proof (induction rows)
  case (Cons x rows)
  show ?case
  proof (cases "key x = key r")
    case True
    with Cons.prems(1) have "\<And>y. y \<in> set rows \<Longrightarrow> key y \<noteq> key r" by (auto simp: image_iff)
    then have "store_row key r rows = rows" by (auto simp: store_row_def intro!: update_where_none)
    then show ?thesis using True Cons.prems by simp
  next
    case False
    then show ?thesis using Cons by (simp add: algebra_simps)
  qed
qed simp

definition day_value :: "db \<Rightarrow> int \<Rightarrow> int \<Rightarrow> int \<times> dec" where
  "day_value s restaurant_id day = (case by_key daily_key (restaurant_id, day) (daily_rows s) of
     None \<Rightarrow> (0, 0) | Some d \<Rightarrow> (day_order_count d, day_sales d))"

definition completed_on :: "int \<Rightarrow> int \<Rightarrow> contribution \<Rightarrow> bool" where
  "completed_on restaurant_id day c = (con_restaurant_id c = restaurant_id
     \<and> con_creation_date c = day \<and> con_state c = Completed)"

text \<open>Count and sales of a day, from the contributions: what the daily row must say.\<close>

definition completed_totals :: "contribution list \<Rightarrow> int \<Rightarrow> int \<Rightarrow> int \<times> dec" where
  "completed_totals cs restaurant_id day =
     ((\<Sum>c \<leftarrow> cs. if completed_on restaurant_id day c then 1 else 0),
      (\<Sum>c \<leftarrow> cs. if completed_on restaurant_id day c then con_total c else 0))"

definition projection_inv :: "db \<Rightarrow> bool" where
  "projection_inv s = (unique_keys daily_key (daily_rows s)
     \<and> unique_keys contribution_key (contributions s) \<and> unique_keys rst_id (restaurants s)
     \<and> (\<forall>c \<in> set (contributions s). restaurant_matches_organization s (con_restaurant_id c) (con_organization_id c))
     \<and> (\<forall>d \<in> set (daily_rows s). restaurant_matches_organization s (day_restaurant_id d) (day_organization_id d))
     \<and> (\<forall>restaurant_id day. day_value s restaurant_id day
          = completed_totals (contributions s) restaurant_id day))"

lemma by_key_daily_append:
  "by_key daily_key k (ds @ [d]) = (case by_key daily_key k ds of None \<Rightarrow>
     if daily_key d = k then Some d else None | Some x \<Rightarrow> Some x)"
  by (simp add: by_key_def select_one_append split: option.splits)

lemma daily_delta_frame [simp]:
  "contributions (daily_delta org rid day n x s) = contributions s"
  "restaurants (daily_delta org rid day n x s) = restaurants s"
  "orders (daily_delta org rid day n x s) = orders s"
  "outbox_events (daily_delta org rid day n x s) = outbox_events s"
  "deliveries (daily_delta org rid day n x s) = deliveries s"
  "receipts (daily_delta org rid day n x s) = receipts s"
  "attempts (daily_delta org rid day n x s) = attempts s"
  "replays (daily_delta org rid day n x s) = replays s"
  "next_uuid (daily_delta org rid day n x s) = next_uuid s"
  by (simp_all add: daily_delta_def split: option.splits)

lemma store_contribution_frame [simp]:
  "daily_rows (store_contribution org rid v row s) = daily_rows s"
  "restaurants (store_contribution org rid v row s) = restaurants s"
  "orders (store_contribution org rid v row s) = orders s"
  "outbox_events (store_contribution org rid v row s) = outbox_events s"
  "deliveries (store_contribution org rid v row s) = deliveries s"
  "receipts (store_contribution org rid v row s) = receipts s"
  "attempts (store_contribution org rid v row s) = attempts s"
  "replays (store_contribution org rid v row s) = replays s"
  "next_uuid (store_contribution org rid v row s) = next_uuid s"
  by (simp_all add: store_contribution_def split: option.splits)

lemma day_value_store [simp]:
  "day_value (store_contribution org rid v row s) r k = day_value s r k"
  by (simp add: day_value_def)

lemma day_value_delta:
  "day_value (daily_delta org rid day n x s) r k = (if (r, k) = (rid, day)
     then (fst (day_value s r k) + n, snd (day_value s r k) + x) else day_value s r k)"
proof (cases "by_key daily_key (rid, day) (daily_rows s)")
  case None
  then show ?thesis
    by (simp add: day_value_def daily_delta_def by_key_daily_append daily_key_def split: option.splits)
next
  case (Some d)
  then have "daily_key d = (rid, day)" "(rid, day) \<in> daily_key ` set (daily_rows s)"
    using by_key_Some [OF Some] by (metis image_eqI)+
  then show ?thesis using Some
    by (simp add: day_value_def daily_delta_def by_key_store_row daily_key_def)
qed

lemma unique_daily_delta:
  "unique_keys daily_key (daily_rows s) \<Longrightarrow> unique_keys daily_key (daily_rows (daily_delta org rid day n x s))"
  by (auto simp: daily_delta_def daily_key_def by_key_None split: option.splits)

lemma daily_delta_scope:
  assumes "\<forall>d \<in> set (daily_rows s). P (day_restaurant_id d) (day_organization_id d)" and "P rid org"
  shows "\<forall>d \<in> set (daily_rows (daily_delta org rid day n x s)). P (day_restaurant_id d) (day_organization_id d)"
proof (cases "by_key daily_key (rid, day) (daily_rows s)")
  case (Some d)
  then show ?thesis using assms by_key_Some [OF Some] by (auto simp: daily_delta_def dest!: in_store_row)
qed (use assms in \<open>auto simp: daily_delta_def\<close>)

lemma restaurant_matches_cong:
  "restaurants t = restaurants s \<Longrightarrow>
   restaurant_matches_organization t rid org = restaurant_matches_organization s rid org"
  by (simp add: restaurant_matches_organization_def)

lemma restaurant_organization_unique:
  assumes "unique_keys rst_id (restaurants s)" and "restaurant_matches_organization s rid org"
    and "restaurant_matches_organization s rid org'"
  shows "org = org'"
  using assms unique_keys_eq [OF assms(1)]
  by (auto simp: restaurant_matches_organization_def exists_row_iff)

section \<open>The effect keeps the daily totals exact\<close>

definition counted :: "contribution_value \<Rightarrow> int \<Rightarrow> int \<times> dec" where
  "counted v day = (if cv_state v = Completed \<and> cv_creation_date v = day then (1, cv_total v) else (0, 0))"

lemma completed_totals_append:
  "completed_totals (cs @ [contribution_row org rid v]) r k =
     (if r = rid then (fst (completed_totals cs r k) + fst (counted v k),
        snd (completed_totals cs r k) + snd (counted v k)) else completed_totals cs r k)"
  by (auto simp: completed_totals_def completed_on_def contribution_row_def counted_def)

lemma completed_totals_store:
  assumes "unique_keys contribution_key cs" and "row \<in> set cs" and "con_restaurant_id row = rid"
  shows "completed_totals (store_row contribution_key (row\<lparr>con_revision := cv_revision v,
        con_creation_date := cv_creation_date v, con_total := cv_total v, con_state := cv_state v\<rparr>) cs) r k =
     (if r = rid then
        (fst (completed_totals cs r k) - fst (counted (contribution_value_of row) k) + fst (counted v k),
         snd (completed_totals cs r k) - snd (counted (contribution_value_of row) k) + snd (counted v k))
      else completed_totals cs r k)"
proof -
  let ?r = "row\<lparr>con_revision := cv_revision v, con_creation_date := cv_creation_date v,
    con_total := cv_total v, con_state := cv_state v\<rparr>"
  have "by_key contribution_key (contribution_key ?r) cs = Some row"
    using by_key_member [OF assms(1,2)] by (simp add: contribution_key_def)
  note sums = sum_list_store_row [OF assms(1) this]
  have on: "completed_on r k ?r \<longleftrightarrow> r = rid \<and> cv_creation_date v = k \<and> cv_state v = Completed"
    "completed_on r k row \<longleftrightarrow> r = rid \<and> con_creation_date row = k \<and> con_state row = Completed"
    using assms(3) by (auto simp: completed_on_def)
  show ?thesis unfolding completed_totals_def sums on
    by (auto simp: counted_def contribution_value_of_def)
qed

lemma get_contribution_Some:
  "get_contribution s org rid oid = Some c \<Longrightarrow> c \<in> set (contributions s) \<and> con_restaurant_id c = rid
     \<and> con_organization_id c = org \<and> con_order_id c = oid"
  unfolding get_contribution_def by (drule select_one_Some) simp

text \<open>Within a restaurant's scope, the scoped lookup finds the row of the primary key.\<close>

lemma get_contribution_by_key:
  assumes "projection_inv s" and "restaurant_matches_organization s rid org"
  shows "get_contribution s org rid oid = by_key contribution_key (rid, oid) (contributions s)"
proof (cases "by_key contribution_key (rid, oid) (contributions s)")
  case None
  then have "get_contribution s org rid oid = None"
    by (auto simp: get_contribution_def by_key_None select_one_None contribution_key_def image_iff)
  with None show ?thesis by simp
next
  case (Some c)
  have c: "c \<in> set (contributions s)" "con_restaurant_id c = rid" "con_order_id c = oid"
    using by_key_Some [OF Some] by (auto simp: contribution_key_def)
  have "con_organization_id c = org"
    using restaurant_organization_unique [of s rid] assms c by (auto simp: projection_inv_def)
  then have "get_contribution s org rid oid \<noteq> None"
    using c by (auto simp: get_contribution_def select_one_None)
  then obtain x where x: "get_contribution s org rid oid = Some x" by auto
  have "x = c" using get_contribution_Some [OF x] c unique_keys_eq [of contribution_key "contributions s" x c] assms(1)
    by (auto simp: projection_inv_def contribution_key_def)
  then show ?thesis using x Some by simp
qed

lemma project_contribution_frame [simp]:
  "restaurants (project_contribution org rid v row s) = restaurants s"
  "orders (project_contribution org rid v row s) = orders s"
  "outbox_events (project_contribution org rid v row s) = outbox_events s"
  "deliveries (project_contribution org rid v row s) = deliveries s"
  "receipts (project_contribution org rid v row s) = receipts s"
  "attempts (project_contribution org rid v row s) = attempts s"
  "replays (project_contribution org rid v row s) = replays s"
  "next_uuid (project_contribution org rid v row s) = next_uuid s"
  by (auto simp: project_contribution_def Let_def split: option.splits)

lemma contributions_project:
  "contributions (project_contribution org rid v row s) = contributions (store_contribution org rid v row s)"
  by (auto simp: project_contribution_def Let_def store_contribution_def split: option.splits)

text \<open>What every daily change keeps, the effect keeps of the daily rows.\<close>

lemma project_daily_invariant:
  assumes "P (daily_rows s)"
    and "\<And>x day n y. P (daily_rows x) \<Longrightarrow> P (daily_rows (daily_delta org rid day n y x))"
  shows "P (daily_rows (project_contribution org rid v row s))"
  using assms by (simp add: project_contribution_def Let_def split: option.split)

lemma contribution_row_simps [simp]:
  "contribution_key (contribution_row org rid v) = (rid, cv_order_id v)"
  "con_restaurant_id (contribution_row org rid v) = rid"
  "con_organization_id (contribution_row org rid v) = org"
  "contribution_value_of (contribution_row org rid v) = v"
  by (simp_all add: contribution_row_def contribution_key_def contribution_value_of_def)

text \<open>One contribution is stored: the sums change by its new share less its old one.\<close>

definition old_share :: "contribution option \<Rightarrow> int \<Rightarrow> int \<times> dec" where
  "old_share row k = (case row of None \<Rightarrow> (0, 0) | Some c \<Rightarrow> counted (contribution_value_of c) k)"

lemma day_value_project:
  "day_value (project_contribution org rid v row s) r k = (if r = rid then
     (fst (day_value s r k) - fst (old_share row k) + fst (counted v k),
      snd (day_value s r k) - snd (old_share row k) + snd (counted v k)) else day_value s r k)"
  by (cases row)
    (auto simp: project_contribution_def Let_def day_value_delta counted_def cv_count_def old_share_def)

lemma store_contribution_effect:
  assumes u: "unique_keys contribution_key (contributions s)"
    and row: "row = by_key contribution_key (rid, cv_order_id v) (contributions s)"
    and t: "t = store_contribution org rid v row s"
  shows "unique_keys contribution_key (contributions t)"
    and "completed_totals (contributions t) r k = (if r = rid then
       (fst (completed_totals (contributions s) r k) - fst (old_share row k) + fst (counted v k),
        snd (completed_totals (contributions s) r k) - snd (old_share row k) + snd (counted v k))
      else completed_totals (contributions s) r k)"
    and "oid \<noteq> cv_order_id v \<Longrightarrow>
      by_key contribution_key (rid, oid) (contributions t) = by_key contribution_key (rid, oid) (contributions s)"
    and "\<forall>c \<in> set (contributions s). P (con_restaurant_id c) (con_organization_id c) \<Longrightarrow> P rid org \<Longrightarrow>
      \<forall>c \<in> set (contributions t). P (con_restaurant_id c) (con_organization_id c)"
proof -
  let ?A = "\<lambda>xs. unique_keys contribution_key xs \<and> completed_totals xs r k = (if r = rid then
       (fst (completed_totals (contributions s) r k) - fst (old_share row k) + fst (counted v k),
        snd (completed_totals (contributions s) r k) - snd (old_share row k) + snd (counted v k))
      else completed_totals (contributions s) r k)
    \<and> (oid \<noteq> cv_order_id v \<longrightarrow>
      by_key contribution_key (rid, oid) xs = by_key contribution_key (rid, oid) (contributions s))
    \<and> ((\<forall>c \<in> set (contributions s). P (con_restaurant_id c) (con_organization_id c)) \<longrightarrow> P rid org \<longrightarrow>
      (\<forall>c \<in> set xs. P (con_restaurant_id c) (con_organization_id c)))"
  have "?A (contributions t)"
  proof (cases row)
    case None
    then have "contribution_key (contribution_row org rid v) \<notin> contribution_key ` set (contributions s)"
      using row by (simp add: by_key_None)
    moreover have "contributions t = contributions s @ [contribution_row org rid v]"
      by (simp add: t store_contribution_def None)
    ultimately show ?thesis
      using None u by (simp add: completed_totals_append by_key_append_new old_share_def)
  next
    case (Some c)
    let ?c = "c\<lparr>con_revision := cv_revision v, con_creation_date := cv_creation_date v,
      con_total := cv_total v, con_state := cv_state v\<rparr>"
    have c: "c \<in> set (contributions s)" "con_restaurant_id c = rid" "con_order_id c = cv_order_id v"
      using by_key_Some [OF row [symmetric, unfolded Some]] by (auto simp: contribution_key_def)
    have ct: "contributions t = store_row contribution_key ?c (contributions s)"
      by (simp add: t store_contribution_def Some)
    have "P (con_restaurant_id x) (con_organization_id x)"
      if "\<forall>c \<in> set (contributions s). P (con_restaurant_id c) (con_organization_id c)"
        "x \<in> set (contributions t)" for x
      using in_store_row [OF that(2) [unfolded ct]] that(1) c(1) by auto
    moreover have "contribution_key ?c = (rid, cv_order_id v)" using c by (simp add: contribution_key_def)
    ultimately show ?thesis unfolding ct
      using u completed_totals_store [OF u c(1,2)] by (simp add: Some old_share_def by_key_store_row)
  qed
  then show "unique_keys contribution_key (contributions t)"
    and "completed_totals (contributions t) r k = (if r = rid then
       (fst (completed_totals (contributions s) r k) - fst (old_share row k) + fst (counted v k),
        snd (completed_totals (contributions s) r k) - snd (old_share row k) + snd (counted v k))
      else completed_totals (contributions s) r k)"
    and "oid \<noteq> cv_order_id v \<Longrightarrow>
      by_key contribution_key (rid, oid) (contributions t) = by_key contribution_key (rid, oid) (contributions s)"
    and "\<forall>c \<in> set (contributions s). P (con_restaurant_id c) (con_organization_id c) \<Longrightarrow> P rid org \<Longrightarrow>
      \<forall>c \<in> set (contributions t). P (con_restaurant_id c) (con_organization_id c)"
    by blast+
qed

lemma project_contribution_keeps:
  assumes inv: "projection_inv s" and scope: "restaurant_matches_organization s rid org"
    and row: "row = get_contribution s org rid (cv_order_id v)"
  shows "projection_inv (project_contribution org rid v row s)"
proof -
  let ?t = "project_contribution org rid v row s"
  have row': "row = by_key contribution_key (rid, cv_order_id v) (contributions s)"
    using row get_contribution_by_key [OF inv scope] by simp
  have u: "unique_keys contribution_key (contributions s)" using inv by (simp add: projection_inv_def)
  note stored = store_contribution_effect [OF u row' refl, folded contributions_project]
  have scope': "restaurant_matches_organization ?t = restaurant_matches_organization s"
    by (intro ext restaurant_matches_cong) simp
  have "unique_keys daily_key (daily_rows ?t)"
    by (rule project_daily_invariant) (use inv in \<open>simp_all add: projection_inv_def unique_daily_delta\<close>)
  moreover have "\<forall>d \<in> set (daily_rows ?t). restaurant_matches_organization s (day_restaurant_id d) (day_organization_id d)"
  proof (rule project_daily_invariant)
    show "\<forall>d \<in> set (daily_rows s). restaurant_matches_organization s (day_restaurant_id d) (day_organization_id d)"
      using inv by (simp add: projection_inv_def)
  qed (rule daily_delta_scope [where P = "restaurant_matches_organization s"], use scope in simp_all)
  moreover have "\<forall>c \<in> set (contributions ?t). restaurant_matches_organization s (con_restaurant_id c) (con_organization_id c)"
    by (rule stored(4) [where P = "restaurant_matches_organization s"])
      (use inv scope in \<open>simp_all add: projection_inv_def\<close>)
  ultimately show ?thesis
    using inv stored(1,2) by (simp add: projection_inv_def scope' day_value_project)
qed

lemma apply_order_event_Inr:
  assumes "apply_order_event event s = Inr (r, t)"
  obtains (skipped) v where "incoming_contribution event = Some v" "r = ''skipped''" "t = s"
      "\<not> should_apply (map_option contribution_value_of
         (get_contribution s (env_organization_id event) (env_restaurant_id event) (cv_order_id v))) v"
      "restaurant_matches_organization s (env_restaurant_id event) (env_organization_id event)"
  | (applied) v where "incoming_contribution event = Some v" "r = ''processed''"
      "should_apply (map_option contribution_value_of
         (get_contribution s (env_organization_id event) (env_restaurant_id event) (cv_order_id v))) v"
      "t = project_contribution (env_organization_id event) (env_restaurant_id event) v
         (get_contribution s (env_organization_id event) (env_restaurant_id event) (cv_order_id v)) s"
      "restaurant_matches_organization s (env_restaurant_id event) (env_organization_id event)"
      "\<forall>d \<in> set (daily_rows t). day_restaurant_id d = env_restaurant_id event \<longrightarrow> daily_check d"
  using assms
  by (auto simp: apply_order_event_def res_simps Let_def analytics_scope_def flush_analytics_def
      exists_row_iff split: if_splits)

lemma apply_order_event_keeps:
  assumes "projection_inv s" and "apply_order_event event s = Inr (r, t)"
  shows "projection_inv t"
  using assms(2)
  by (cases rule: apply_order_event_Inr) (use assms(1) project_contribution_keeps in auto)

section \<open>Reordered and repeated events\<close>

text \<open>The contribution on record for an order, and how one event changes it.\<close>

definition recorded :: "db \<Rightarrow> uuid \<Rightarrow> int \<Rightarrow> int \<Rightarrow> contribution_value option" where
  "recorded s organization_id restaurant_id order_id =
     map_option contribution_value_of (get_contribution s organization_id restaurant_id order_id)"

definition absorb :: "contribution_value \<Rightarrow> contribution_value option \<Rightarrow> contribution_value option" where
  "absorb v c = (if should_apply c v then Some v else c)"

lemma recorded_project:
  assumes inv: "projection_inv s" and scope: "restaurant_matches_organization s rid org"
    and row: "row = get_contribution s org rid (cv_order_id v)"
  shows "recorded (project_contribution org rid v row s) org rid oid
    = (if oid = cv_order_id v then Some v else recorded s org rid oid)"
proof -
  let ?t = "project_contribution org rid v row s"
  have scope': "restaurant_matches_organization ?t rid org"
    using scope restaurant_matches_cong [of ?t s] by simp
  have get: "get_contribution x org rid oid' = by_key contribution_key (rid, oid') (contributions x)"
    if "x = s \<or> x = ?t" for x oid'
    using that get_contribution_by_key [OF inv scope]
      get_contribution_by_key [OF project_contribution_keeps [OF assms] scope'] by blast
  show ?thesis
  proof (cases row)
    case None
    then have "contribution_key (contribution_row org rid v) \<notin> contribution_key ` set (contributions s)"
      using row get [of s] by (simp add: by_key_None)
    moreover have "contributions ?t = contributions s @ [contribution_row org rid v]"
      by (simp add: contributions_project store_contribution_def None)
    ultimately show ?thesis
      using get by (simp add: recorded_def by_key_append_new)
  next
    case (Some c)
    let ?c = "c\<lparr>con_revision := cv_revision v, con_creation_date := cv_creation_date v,
      con_total := cv_total v, con_state := cv_state v\<rparr>"
    note c = get_contribution_Some [OF row [symmetric, unfolded Some]]
    have "contributions ?t = store_row contribution_key ?c (contributions s)"
      by (simp add: contributions_project store_contribution_def Some)
    moreover have "contribution_key ?c = (rid, cv_order_id v)" using c by (simp add: contribution_key_def)
    moreover have "(rid, cv_order_id v) \<in> contribution_key ` set (contributions s)"
      using c by (auto simp: contribution_key_def image_iff)
    moreover have "contribution_value_of ?c = v" using c by (simp add: contribution_value_of_def)
    ultimately show ?thesis using get by (simp add: recorded_def by_key_store_row)
  qed
qed

lemma apply_order_event_absorbs:
  assumes inv: "projection_inv s" and "apply_order_event event s = Inr (r, t)"
    and org: "env_organization_id event = org" "env_restaurant_id event = rid"
  shows "recorded t org rid oid = (case incoming_contribution event of None \<Rightarrow> recorded s org rid oid
    | Some v \<Rightarrow> if cv_order_id v = oid then absorb v (recorded s org rid oid) else recorded s org rid oid)"
  using assms(2)
proof (cases rule: apply_order_event_Inr)
  case (skipped v)
  then show ?thesis using org by (auto simp: absorb_def recorded_def)
next
  case (applied v)
  then show ?thesis using recorded_project [OF inv, of rid org] org by (auto simp: absorb_def recorded_def)
qed

definition deliver_all :: "envelope list \<Rightarrow> db \<Rightarrow> db result" where
  "deliver_all = for_each (\<lambda>e s. bindR (apply_order_event e s) (\<lambda>(_, t). Inr t))"

definition order_facts :: "int \<Rightarrow> envelope list \<Rightarrow> contribution_value list" where
  "order_facts order_id events = filter (\<lambda>v. cv_order_id v = order_id)
     (List.map_filter incoming_contribution events)"

lemma deliver_all_absorbs:
  assumes "deliver_all events s = Inr t" and "projection_inv s"
    and "\<forall>e \<in> set events. env_organization_id e = org \<and> env_restaurant_id e = rid"
  shows "recorded t org rid oid = fold absorb (order_facts oid events) (recorded s org rid oid)"
  using assms
proof (induction events arbitrary: s)
  case Nil
  then show ?case by (simp add: deliver_all_def order_facts_def map_filter_simps)
next
  case (Cons e events)
  from Cons.prems(1) obtain r u where u: "apply_order_event e s = Inr (r, u)" "deliver_all events u = Inr t"
    by (auto simp: deliver_all_def res_simps)
  have "recorded t org rid oid = fold absorb (order_facts oid events) (recorded u org rid oid)"
    by (rule Cons.IH [OF u(2) apply_order_event_keeps [OF Cons.prems(2) u(1)]]) (use Cons.prems(3) in simp)
  moreover have "fold absorb (order_facts oid (e # events)) c = fold absorb (order_facts oid events)
      (case incoming_contribution e of None \<Rightarrow> c
       | Some v \<Rightarrow> if cv_order_id v = oid then absorb v c else c)" for c
    by (simp add: order_facts_def map_filter_simps split: option.splits)
  ultimately show ?case
    using apply_order_event_absorbs [OF Cons.prems(2) u(1), of org rid] Cons.prems(3) by simp
qed

lemma fold_absorb_latest:
  assumes "vs \<noteq> []" and "\<forall>v \<in> set vs. \<forall>w \<in> set vs. cv_state v = Deleted \<longrightarrow> w \<noteq> v \<longrightarrow> cv_revision w < cv_revision v"
  shows "\<exists>v \<in> set vs. fold absorb vs None = Some v \<and> (\<forall>w \<in> set vs. cv_revision w \<le> cv_revision v)"
  using assms
proof (induction vs rule: rev_induct)
  case (snoc x vs)
  show ?case
  proof (cases "vs = []")
    case False
    then obtain v where v: "v \<in> set vs" "fold absorb vs None = Some v" "\<forall>w \<in> set vs. cv_revision w \<le> cv_revision v"
      using snoc by auto
    have step: "fold absorb (vs @ [x]) None = absorb x (Some v)" using v(2) by simp
    show ?thesis
    proof (cases "should_apply (Some v) x")
      case True
      then have "fold absorb (vs @ [x]) None = Some x" using step by (simp add: absorb_def)
      moreover have "cv_revision v < cv_revision x" using True by (simp add: should_apply_def)
      then have "\<forall>w \<in> set (vs @ [x]). cv_revision w \<le> cv_revision x" using v(3) by force
      ultimately show ?thesis by (intro bexI [of _ x]) simp_all
    next
      case not: False
      then have "fold absorb (vs @ [x]) None = Some v" using step by (simp add: absorb_def)
      moreover have "cv_revision x \<le> cv_revision v"
        using not snoc.prems(2) v(1) by (force simp: should_apply_def)
      ultimately show ?thesis using v(1,3) by (intro bexI [of _ v]) auto
    qed
  qed (simp add: absorb_def should_apply_def)
qed simp

text \<open>
  C16. Late, repeated and reordered deliveries converge: whatever the order in which a restaurant's
  order events are applied, and however often each is, the contribution on record for an order is
  the one with the highest revision among the events applied, and the daily totals are exactly the
  sums over the completed contributions on record. The events of an order end with its deletion,
  which no event of the order follows.
\<close>

theorem latest_revision_wins:
  assumes "deliver_all events s = Inr t" and "projection_inv s"
    and "\<forall>e \<in> set events. env_organization_id e = org \<and> env_restaurant_id e = rid"
    and "recorded s org rid oid = None" and "order_facts oid events \<noteq> []"
    and "\<forall>v \<in> set (order_facts oid events). \<forall>w \<in> set (order_facts oid events).
      cv_state v = Deleted \<longrightarrow> w \<noteq> v \<longrightarrow> cv_revision w < cv_revision v"
  shows "projection_inv t \<and> (\<exists>v \<in> set (order_facts oid events). recorded t org rid oid = Some v
    \<and> (\<forall>w \<in> set (order_facts oid events). cv_revision w \<le> cv_revision v))"
proof
  show "projection_inv t"
    using assms(1) unfolding deliver_all_def
    by (rule for_each_invariant) (use assms(2) apply_order_event_keeps in \<open>auto simp: res_simps\<close>)
  show "\<exists>v \<in> set (order_facts oid events). recorded t org rid oid = Some v
    \<and> (\<forall>w \<in> set (order_facts oid events). cv_revision w \<le> cv_revision v)"
    using deliver_all_absorbs [OF assms(1-3)] fold_absorb_latest [OF assms(5,6)] assms(4) by simp
qed

definition demo_order_event :: "int \<Rightarrow> dec payload \<Rightarrow> envelope" where
  "demo_order_event rvn p = \<lparr>env_event_id = 1, env_event_type = Order_Completed,
     env_organization_id = 1, env_restaurant_id = 1, env_aggregate_type = ''order'',
     env_aggregate_id = ''7'', env_aggregate_revision = rvn, env_occurred_at = Aware 5,
     env_correlation_id = ''demo'', env_payload = p\<rparr>"

text \<open>An order's deletion arrives twice, before its completion.\<close>

definition demo_late_events :: "envelope list" where
  "demo_late_events = [demo_order_event 3 (OrderDeletedPayload 7 ''COMPLETED'' 10 (Naive 0)),
     demo_order_event 2 (OrderCompletedPayload 7 10 (Naive 0)),
     demo_order_event 3 (OrderDeletedPayload 7 ''COMPLETED'' 10 (Naive 0))]"

lemma demo_late_delivery:
  "succeeds_with (deliver_all demo_late_events demo_scope) (\<lambda>t. daily_rows t = [])"
  "recorded demo_scope 1 1 7 = None" "order_facts 7 demo_late_events \<noteq> []"
  "\<forall>e \<in> set demo_late_events. env_organization_id e = 1 \<and> env_restaurant_id e = 1"
  "list_all (\<lambda>v. list_all (\<lambda>w. cv_state v = Deleted \<longrightarrow> w \<noteq> v \<longrightarrow> cv_revision w < cv_revision v)
     (order_facts 7 demo_late_events)) (order_facts 7 demo_late_events)"
  by code_simp+

lemma demo_scope_projection: "projection_inv demo_scope"
  by (simp add: projection_inv_def demo_scope_def empty_db_def day_value_def completed_totals_def)

theorem latest_revision_wins_witness:
  "\<exists>t v. deliver_all demo_late_events demo_scope = Inr t \<and> daily_rows t = [] \<and> projection_inv t
     \<and> recorded t 1 1 7 = Some v \<and> (\<forall>w \<in> set (order_facts 7 demo_late_events). cv_revision w \<le> cv_revision v)"
proof -
  obtain t where t: "deliver_all demo_late_events demo_scope = Inr t" "daily_rows t = []"
    using demo_late_delivery(1) unfolding succeeds_with_iff by blast
  show ?thesis
    using latest_revision_wins [OF t(1) demo_scope_projection demo_late_delivery(4,2,3)]
      demo_late_delivery(5) t by (auto simp: list_all_iff)
qed

end
