(* ===== verification/Analytics_Rebuild.thy ===== *)
theory Analytics_Rebuild
  imports Analytics
begin

text \<open>
  The rebuild of the analytics projection against its specification: afterwards the daily totals are
  those of the completed orders themselves, so that reconciliation reports no discrepancy, and the
  projection invariant holds again.
\<close>

section \<open>The baseline\<close>

lemma in_put_value: "x \<in> set (put_value v vs) \<Longrightarrow> x = v \<or> x \<in> set vs"
  by (auto simp: put_value_def dest: in_store_row split: if_splits)

lemma unique_put_value: "unique_keys cv_order_id vs \<Longrightarrow> unique_keys cv_order_id (put_value v vs)"
  by (auto simp: put_value_def by_key_None)

lemma ids_put_value: "cv_order_id ` set (put_value v vs) = insert (cv_order_id v) (cv_order_id ` set vs)"
  by (auto simp: put_value_def by_key_None)

text \<open>Every live order contributes itself, once.\<close>

lemma fold_put_orders:
  assumes "distinct (map ord_id (ds' @ ds))"
  shows "fold (\<lambda>d. put_value (order_baseline d)) ds (map order_baseline ds') = map order_baseline (ds' @ ds)"
  using assms
proof (induction ds arbitrary: ds')
  case (Cons d ds)
  have "by_key cv_order_id (ord_id d) (map order_baseline ds') = None"
    using Cons.prems by (auto simp: by_key_None order_baseline_def Let_def)
  then have "put_value (order_baseline d) (map order_baseline ds') = map order_baseline (ds' @ [d])"
    by (simp add: put_value_def order_baseline_def Let_def)
  then show ?case using Cons.IH [of "ds' @ [d]"] Cons.prems by simp
qed simp

text \<open>The vals of the live orders, followed by tombstones of other orders.\<close>

definition baseline_shape :: "order list \<Rightarrow> contribution_value list \<Rightarrow> bool" where
  "baseline_shape ds vs = (unique_keys cv_order_id vs
     \<and> (\<exists>ts. vs = map order_baseline ds @ ts \<and> (\<forall>v \<in> set ts. cv_state v = Deleted)))"

lemma baseline_shape_put:
  assumes "baseline_shape ds vs" and "cv_state v = Deleted" and "cv_order_id v \<notin> ord_id ` set ds"
  shows "baseline_shape ds (put_value v vs)"
proof -
  obtain ts where ts: "vs = map order_baseline ds @ ts" "\<forall>v \<in> set ts. cv_state v = Deleted"
    and u: "unique_keys cv_order_id vs" using assms(1) by (auto simp: baseline_shape_def)
  have "put_value v vs = map order_baseline ds @ put_value v ts"
  proof -
    have "store_row cv_order_id v (map order_baseline ds) = map order_baseline ds"
      using assms(3) unfolding store_row_def
      by (intro update_where_none) (auto simp: order_baseline_def Let_def image_iff)
    moreover have "by_key cv_order_id (cv_order_id v) vs = by_key cv_order_id (cv_order_id v) ts"
      using assms(3) unfolding ts(1) by (induction ds) (auto simp: order_baseline_def Let_def)
    ultimately show ?thesis by (simp add: put_value_def ts(1) store_row_def)
  qed
  moreover have "\<forall>x \<in> set (put_value v ts). cv_state x = Deleted"
    using ts(2) assms(2) in_put_value by blast
  ultimately show ?thesis using unique_put_value [OF u] unfolding baseline_shape_def by blast
qed

text \<open>The orders whose deletion is on record are gone.\<close>

definition deletions_are_final :: "db \<Rightarrow> uuid \<Rightarrow> int \<Rightarrow> bool" where
  "deletions_are_final s organization_id restaurant_id =
     list_all (\<lambda>e. case validate_payload Order_Deleted (raw_payload (evt_facts e)) of
         Some (OrderDeletedPayload order_id prior total_value created_at) \<Rightarrow> order_id \<notin> ord_id ` set (orders s)
       | _ \<Rightarrow> True) (deletion_facts s organization_id restaurant_id)"

lemma apply_deletion_fact_shape:
  assumes "apply_deletion_fact e vs = Inr ws" and "baseline_shape ds vs"
    and "case validate_payload Order_Deleted (raw_payload (evt_facts e)) of
         Some (OrderDeletedPayload order_id prior total_value created_at) \<Rightarrow> order_id \<notin> ord_id ` set ds
       | _ \<Rightarrow> True"
  shows "baseline_shape ds ws"
  using assms
  by (auto simp: apply_deletion_fact_def Let_def intro!: baseline_shape_put
      split: option.splits payload.splits if_splits)

lemma baseline_shape_baseline:
  assumes "baseline s org rid = Inr vs" and "unique_keys ord_id (orders s)"
    and "deletions_are_final s org rid"
  shows "baseline_shape (scoped_orders s org rid) vs"
  using assms(1) unfolding baseline_def
proof (rule for_each_invariant)
  have "distinct (map ord_id (scoped_orders s org rid))"
    using assms(2) unfolding unique_keys_def scoped_orders_def by (rule distinct_map_filter)
  then show "baseline_shape (scoped_orders s org rid)
      (fold (\<lambda>d. put_value (order_baseline d)) (scoped_orders s org rid) [])"
    using fold_put_orders [of "[]" "scoped_orders s org rid"]
    by (auto simp: baseline_shape_def unique_keys_def order_baseline_def Let_def comp_def)
  show "baseline_shape (scoped_orders s org rid) w"
    if "e \<in> set (deletion_facts s org rid)" "baseline_shape (scoped_orders s org rid) u"
      "apply_deletion_fact e u = Inr w" for e u w
    using that(3,2)
  proof (rule apply_deletion_fact_shape)
    show "case validate_payload Order_Deleted (raw_payload (evt_facts e)) of
         Some (OrderDeletedPayload order_id prior total_value created_at) \<Rightarrow>
           order_id \<notin> ord_id ` set (scoped_orders s org rid)
       | _ \<Rightarrow> True"
      using assms(3) that(1)
      by (auto simp: deletions_are_final_def list_all_iff scoped_orders_def split: option.splits payload.splits)
  qed
qed

lemma keep_tombstone_shape:
  assumes "for_each keep_tombstone existing vs = Inr vals" and "baseline_shape ds vs"
  shows "baseline_shape ds vals \<and> con_order_id ` set existing \<subseteq> cv_order_id ` set vals"
  using assms
proof (induction existing arbitrary: vs)
  case (Cons c existing)
  from Cons.prems(1) obtain u where u: "keep_tombstone c vs = Inr u" "for_each keep_tombstone existing u = Inr vals"
    by (auto simp: res_simps)
  have ids: "cv_order_id ` set (map order_baseline ds) = ord_id ` set ds"
    by (simp add: image_image order_baseline_def Let_def)
  have "baseline_shape ds u \<and> con_order_id c \<in> cv_order_id ` set u"
  proof (cases "by_key cv_order_id (con_order_id c) vs")
    case None
    then have new: "con_order_id c \<notin> cv_order_id ` set vs" by (simp add: by_key_None)
    then have "con_order_id c \<notin> ord_id ` set ds"
      using Cons.prems(2) unfolding ids [symmetric] by (auto simp: baseline_shape_def image_Un)
    then show ?thesis
      using u(1) None Cons.prems(2) baseline_shape_put [of ds vs "contribution_value_of c"]
      by (auto simp: keep_tombstone_def res_simps ids_put_value contribution_value_of_def)
  next
    case (Some v)
    then have "u = vs" "con_order_id c \<in> cv_order_id ` set vs"
      using u(1) by_key_Some [OF Some] by (auto simp: keep_tombstone_def intro: rev_image_eqI)
    then show ?thesis using Cons.prems(2) by simp
  qed
  moreover have "cv_order_id ` set u \<subseteq> cv_order_id ` set vals"
    using u(2) by (rule for_each_invariant)
      (auto simp: keep_tombstone_def res_simps ids_put_value split: if_splits)
  ultimately show ?case using Cons.IH [OF u(2)] by auto
qed simp

section \<open>Writing the projection\<close>

definition sum_counted :: "contribution_value list \<Rightarrow> int \<Rightarrow> int \<times> dec" where
  "sum_counted vs k = ((\<Sum>v \<leftarrow> vs. fst (counted v k)), (\<Sum>v \<leftarrow> vs. snd (counted v k)))"

lemma rebuild_value_frame [simp]:
  "restaurants (rebuild_value org rid ex v s) = restaurants s"
  "orders (rebuild_value org rid ex v s) = orders s"
  "outbox_events (rebuild_value org rid ex v s) = outbox_events s"
  "contributions (rebuild_value org rid ex v s)
     = contributions (store_contribution org rid v (by_key con_order_id (cv_order_id v) ex) s)"
  by (auto simp: rebuild_value_def Let_def)

lemma fold_rebuild_frame [simp]:
  "restaurants (fold (rebuild_value org rid ex) vs s) = restaurants s"
  "orders (fold (rebuild_value org rid ex) vs s) = orders s"
  "outbox_events (fold (rebuild_value org rid ex) vs s) = outbox_events s"
  by (induction vs arbitrary: s) simp_all

lemma day_value_rebuild:
  "day_value (rebuild_value org rid ex v s) r k = (if r = rid then
     (fst (day_value s r k) + fst (counted v k), snd (day_value s r k) + snd (counted v k)) else day_value s r k)"
  by (auto simp: rebuild_value_def Let_def day_value_delta counted_def cv_count_def)

lemma day_value_fold_rebuild:
  "day_value (fold (rebuild_value org rid ex) vs s) r k = (if r = rid then
     (fst (day_value s r k) + fst (sum_counted vs k), snd (day_value s r k) + snd (sum_counted vs k))
     else day_value s r k)"
  by (induction vs arbitrary: s) (auto simp: day_value_rebuild sum_counted_def)

lemma fold_rebuild_daily_invariant:
  assumes "P (daily_rows s)"
    and "\<And>x day n y. P (daily_rows x) \<Longrightarrow> P (daily_rows (daily_delta org rid day n y x))"
  shows "P (daily_rows (fold (rebuild_value org rid ex) vs s))"
  using assms(1)
proof (induction vs arbitrary: s)
  case (Cons v vs)
  have "P (daily_rows (rebuild_value org rid ex v s))"
    using Cons.prems assms(2) [of "store_contribution org rid v (by_key con_order_id (cv_order_id v) ex) s"]
    by (simp add: rebuild_value_def Let_def)
  then show ?case using Cons.IH by simp
qed simp

lemma by_key_delete_where:
  "by_key daily_key (r, k) (delete_where (\<lambda>d. day_restaurant_id d = rid \<and> day_organization_id d = org) ds)
     = (if r = rid then None else by_key daily_key (r, k) ds)"
  if "\<forall>d \<in> set ds. day_restaurant_id d = rid \<longrightarrow> day_organization_id d = org"
  using that by (induction ds) (auto simp: daily_key_def)

text \<open>Clearing leaves nothing of the restaurant, whose rows are all in its organization's scope.\<close>

lemma day_value_clear:
  assumes inv: "projection_inv s" and scope: "restaurant_matches_organization s rid org"
  shows "day_value (clear_daily org rid s) r k = (if r = rid then (0, 0) else day_value s r k)"
proof -
  have "d \<in> set (daily_rows s) \<Longrightarrow> day_restaurant_id d = rid \<Longrightarrow> day_organization_id d = org" for d
    using inv restaurant_organization_unique [of s rid] scope by (auto simp: projection_inv_def)
  then have "by_key daily_key (r, k) (daily_rows (clear_daily org rid s))
      = (if r = rid then None else by_key daily_key (r, k) (daily_rows s))"
    using by_key_delete_where [of "daily_rows s" rid org r k] by (simp add: clear_daily_def)
  then show ?thesis by (simp add: day_value_def)
qed

definition sum_old :: "contribution list \<Rightarrow> contribution_value list \<Rightarrow> int \<Rightarrow> int \<times> dec" where
  "sum_old ex vs k = ((\<Sum>v \<leftarrow> vs. fst (old_share (by_key con_order_id (cv_order_id v) ex) k)),
     (\<Sum>v \<leftarrow> vs. snd (old_share (by_key con_order_id (cv_order_id v) ex) k)))"

lemma fold_rebuild_contributions:
  assumes "unique_keys contribution_key (contributions s)" and "distinct (map cv_order_id vs)"
    and "\<forall>v \<in> set vs. by_key con_order_id (cv_order_id v) ex
      = by_key contribution_key (rid, cv_order_id v) (contributions s)"
    and "\<forall>c \<in> set (contributions s). P (con_restaurant_id c) (con_organization_id c)" and "P rid org"
  shows "unique_keys contribution_key (contributions (fold (rebuild_value org rid ex) vs s))
    \<and> (\<forall>c \<in> set (contributions (fold (rebuild_value org rid ex) vs s)).
         P (con_restaurant_id c) (con_organization_id c))
    \<and> completed_totals (contributions (fold (rebuild_value org rid ex) vs s)) r k = (if r = rid then
       (fst (completed_totals (contributions s) r k) - fst (sum_old ex vs k) + fst (sum_counted vs k),
        snd (completed_totals (contributions s) r k) - snd (sum_old ex vs k) + snd (sum_counted vs k))
      else completed_totals (contributions s) r k)"
  using assms
proof (induction vs arbitrary: s)
  case Nil
  then show ?case by (simp add: sum_old_def sum_counted_def)
next
  case (Cons v vs)
  let ?s = "rebuild_value org rid ex v s"
  have row: "by_key con_order_id (cv_order_id v) ex = by_key contribution_key (rid, cv_order_id v) (contributions s)"
    using Cons.prems(3) by simp
  note stored = store_contribution_effect [OF Cons.prems(1) row refl, folded rebuild_value_frame(4)]
  have "cv_order_id w \<noteq> cv_order_id v" if "w \<in> set vs" for w
    using Cons.prems(2) that by (auto simp: image_iff)
  then have "\<forall>w \<in> set vs. by_key con_order_id (cv_order_id w) ex
      = by_key contribution_key (rid, cv_order_id w) (contributions ?s)"
    using Cons.prems(3) stored(3) by simp
  from Cons.IH [OF stored(1) _ this stored(4) [OF Cons.prems(4,5)] Cons.prems(5)] Cons.prems(2)
  show ?case by (auto simp: stored(2) sum_old_def sum_counted_def simp del: rebuild_value_frame(4))
qed

text \<open>The old shares that the rebuild takes back are all there were.\<close>

lemma sum_over_values:
  fixes g :: "contribution \<Rightarrow> 'a::comm_monoid_add"
  assumes "distinct (map cv_order_id vs)" and "unique_keys con_order_id ex"
    and "con_order_id ` set ex \<subseteq> cv_order_id ` set vs"
  shows "(\<Sum>v \<leftarrow> vs. case by_key con_order_id (cv_order_id v) ex of None \<Rightarrow> 0 | Some c \<Rightarrow> g c) = (\<Sum>c \<leftarrow> ex. g c)"
proof -
  let ?h = "\<lambda>i. case by_key con_order_id i ex of None \<Rightarrow> 0 | Some c \<Rightarrow> g c"
  have none: "?h i = 0" if "i \<notin> con_order_id ` set ex" for i
    using that by_key_None [of con_order_id i ex] by simp
  have "(\<Sum>v \<leftarrow> vs. ?h (cv_order_id v)) = sum_list (map ?h (map cv_order_id vs))" by (simp add: comp_def)
  also have "\<dots> = sum ?h (set (map cv_order_id vs))" by (rule sum_list_distinct_conv_sum_set [OF assms(1)])
  also have "\<dots> = sum ?h (con_order_id ` set ex)"
    using assms(3) by (intro sum.mono_neutral_right) (auto simp: none)
  also have "\<dots> = sum_list (map ?h (map con_order_id ex))"
    using sum_list_distinct_conv_sum_set [of "map con_order_id ex" ?h] assms(2) by (simp add: unique_keys_def)
  also have "\<dots> = (\<Sum>c \<leftarrow> ex. g c)"
    using by_key_member [OF assms(2)] by (auto intro!: arg_cong [where f = sum_list])
  finally show ?thesis .
qed

lemma sum_list_sort_key: "(\<Sum>x \<leftarrow> sort_key key xs. f x) = (\<Sum>x \<leftarrow> xs. f x :: 'a::comm_monoid_add)"
  by (metis mset_map mset_sort sum_mset_sum_list)

lemma completed_totals_scoped:
  assumes inv: "projection_inv s" and scope: "restaurant_matches_organization s rid org"
  shows "completed_totals (contributions s) rid k =
    ((\<Sum>c \<leftarrow> scoped_contributions s org rid. fst (counted (contribution_value_of c) k)),
     (\<Sum>c \<leftarrow> scoped_contributions s org rid. snd (counted (contribution_value_of c) k)))"
proof -
  have org: "con_restaurant_id c = rid \<longrightarrow> con_organization_id c = org" if "c \<in> set (contributions s)" for c
    using that inv restaurant_organization_unique [of s rid] scope by (auto simp: projection_inv_def)
  have "(\<Sum>c \<leftarrow> filter (\<lambda>c. con_restaurant_id c = rid \<and> con_organization_id c = org) cs. f (contribution_value_of c))
      = (\<Sum>c \<leftarrow> cs. if con_restaurant_id c = rid then f (contribution_value_of c) else (0 :: 'b::comm_monoid_add))"
    if "\<forall>c \<in> set cs. con_restaurant_id c = rid \<longrightarrow> con_organization_id c = org"
    for cs and f :: "contribution_value \<Rightarrow> 'b::comm_monoid_add"
    using that by (induction cs) auto
  note sums = this [of "contributions s"]
  show ?thesis unfolding scoped_contributions_def sum_list_sort_key completed_totals_def
    by (subst (1 2) sums) (use org in \<open>auto intro!: arg_cong [where f = sum_list] simp: completed_on_def counted_def contribution_value_of_def\<close>)
qed

section \<open>Reconciliation\<close>

lemma get_day_daily:
  assumes inv: "projection_inv t" and scope: "restaurant_matches_organization t rid org"
  shows "get_day (daily_totals t org rid) k = day_value t rid k"
proof -
  let ?rows = "filter (\<lambda>d. day_restaurant_id d = rid \<and> day_organization_id d = org) (daily_rows t)"
  let ?f = "\<lambda>d. (day_creation_date d, (day_order_count d, day_sales d))"
  have org: "d \<in> set ?rows \<longleftrightarrow> d \<in> set (daily_rows t) \<and> day_restaurant_id d = rid" for d
    using inv restaurant_organization_unique [of t rid] scope by (auto simp: projection_inv_def)
  have u: "unique_keys daily_key (daily_rows t)" using inv by (simp add: projection_inv_def)
  have "distinct ?rows" using u by (auto simp: unique_keys_def distinct_map)
  moreover have "inj_on day_creation_date (set ?rows)"
    by (rule inj_onI) (use unique_keys_eq [OF u] org in \<open>auto simp: daily_key_def\<close>)
  ultimately have dist: "distinct (map fst (daily_totals t org rid))"
    by (simp add: daily_totals_def comp_def distinct_map)
  show ?thesis
  proof (cases "by_key daily_key (rid, k) (daily_rows t)")
    case None
    then have "k \<notin> fst ` set (daily_totals t org rid)"
      by (auto simp: by_key_None daily_totals_def daily_key_def image_iff)
    then have "map_of (daily_totals t org rid) k = None" by (simp add: map_of_eq_None_iff)
    then show ?thesis by (simp add: get_day_def day_value_def None)
  next
    case (Some d)
    then have "d \<in> set ?rows" "day_creation_date d = k"
      using by_key_Some [OF Some] org by (auto simp: daily_key_def)
    then have "(k, day_order_count d, day_sales d) \<in> set (daily_totals t org rid)"
      by (auto simp: daily_totals_def image_iff)
    from map_of_is_SomeI [OF dist this] show ?thesis by (simp add: get_day_def day_value_def Some)
  qed
qed

lemma sum_counted_orders:
  "sum_counted (map order_baseline ds) k =
     (let members = filter (\<lambda>d. creation_date (ord_created_at d) = k)
        (filter (\<lambda>d. ord_status d = ''COMPLETED'') ds) in
      (int (length members), sum_list (map ord_total members)))"
  by (induction ds) (auto simp: sum_counted_def counted_def order_baseline_def Let_def)

lemma get_day_authoritative:
  "get_day (authoritative s org rid) k = sum_counted (map order_baseline (scoped_orders s org rid)) k"
proof -
  let ?rows = "filter (\<lambda>d. ord_status d = ''COMPLETED'') (scoped_orders s org rid)"
  let ?f = "\<lambda>k. let members = filter (\<lambda>d. creation_date (ord_created_at d) = k) ?rows in
    (int (length members), sum_list (map ord_total members))"
  have "authoritative s org rid = map (\<lambda>k. (k, ?f k)) (remdups (map (\<lambda>d. creation_date (ord_created_at d)) ?rows))"
    by (simp add: authoritative_def Let_def)
  then have "map_of (authoritative s org rid) k = (if k \<in> (\<lambda>d. creation_date (ord_created_at d)) ` set ?rows
      then Some (?f k) else None)"
    by (simp add: map_of_map_restrict restrict_map_def)
  moreover have "?f k = (0, 0)" if "k \<notin> (\<lambda>d. creation_date (ord_created_at d)) ` set ?rows"
  proof -
    have "filter (\<lambda>d. creation_date (ord_created_at d) = k) ?rows = []"
      using that by (auto simp: filter_empty_conv image_iff)
    then show ?thesis by (simp add: Let_def del: filter_filter)
  qed
  ultimately show ?thesis unfolding sum_counted_orders by (simp add: get_day_def split: if_splits)
qed

lemma sum_counted_shape:
  "baseline_shape ds vs \<Longrightarrow> sum_counted vs k = sum_counted (map order_baseline ds) k"
proof -
  assume "baseline_shape ds vs"
  then obtain ts where ts: "vs = map order_baseline ds @ ts" "\<forall>v \<in> set ts. cv_state v = Deleted"
    by (auto simp: baseline_shape_def)
  from ts(2) have "sum_counted ts k = (0, 0)" by (induction ts) (auto simp: sum_counted_def counted_def)
  then show ?thesis by (simp add: ts(1) sum_counted_def)
qed

lemma scoped_by_key:
  assumes inv: "projection_inv s" and scope: "restaurant_matches_organization s rid org"
  shows "unique_keys con_order_id (scoped_contributions s org rid)"
    and "by_key con_order_id oid (scoped_contributions s org rid) = by_key contribution_key (rid, oid) (contributions s)"
proof -
  have u: "unique_keys contribution_key (contributions s)" using inv by (simp add: projection_inv_def)
  have mem: "c \<in> set (scoped_contributions s org rid) \<longleftrightarrow> c \<in> set (contributions s) \<and> con_restaurant_id c = rid" for c
    using inv restaurant_organization_unique [of s rid] scope
    by (auto simp: projection_inv_def scoped_contributions_def)
  have "distinct (scoped_contributions s org rid)"
    using u by (auto simp: unique_keys_def distinct_map scoped_contributions_def)
  then show u': "unique_keys con_order_id (scoped_contributions s org rid)"
    unfolding unique_keys_def distinct_map
    by (intro conjI inj_onI) (use mem unique_keys_eq [OF u] in \<open>auto simp: contribution_key_def\<close>)
  show "by_key con_order_id oid (scoped_contributions s org rid) = by_key contribution_key (rid, oid) (contributions s)"
  proof (cases "by_key contribution_key (rid, oid) (contributions s)")
    case None
    then have "oid \<notin> con_order_id ` set (scoped_contributions s org rid)"
      using mem by (auto simp: by_key_None contribution_key_def image_iff)
    then show ?thesis using None by_key_None [of con_order_id oid "scoped_contributions s org rid"] by simp
  next
    case (Some c)
    then have "c \<in> set (scoped_contributions s org rid)" "con_order_id c = oid"
      using by_key_Some [OF Some] mem by (auto simp: contribution_key_def)
    then show ?thesis using by_key_member [OF u'] Some by auto
  qed
qed

section \<open>Rebuild\<close>

lemma rebuild_Inr:
  assumes "rebuild_analytics_projection org rid s = Inr (u, t)"
  obtains vs vals where "restaurant_matches_organization s rid org" "baseline s org rid = Inr vs"
    "for_each keep_tombstone (scoped_contributions s org rid) vs = Inr vals"
    "t = fold (rebuild_value org rid (scoped_contributions s org rid)) vals (clear_daily org rid s)"
  using assms
  by (auto simp: rebuild_analytics_projection_def analytics_scope_def flush_analytics_def res_simps Let_def)

lemma rebuild_totals:
  assumes inv: "projection_inv s" and scope: "restaurant_matches_organization s rid org"
    and u: "distinct (map cv_order_id vals)"
    and cover: "con_order_id ` set (scoped_contributions s org rid) \<subseteq> cv_order_id ` set vals"
    and t: "t = fold (rebuild_value org rid (scoped_contributions s org rid)) vals (clear_daily org rid s)"
  shows "projection_inv t \<and> (\<forall>k. day_value t rid k = sum_counted vals k)"
proof -
  let ?ex = "scoped_contributions s org rid" and ?s0 = "clear_daily org rid s"
  let ?P = "restaurant_matches_organization s"
  note inv' = inv [unfolded projection_inv_def]
  have cs: "contributions ?s0 = contributions s" by (simp add: clear_daily_def)
  have daily: "day_value t r k = (if r = rid then sum_counted vals k else day_value s r k)" for r k
    unfolding t by (simp add: day_value_fold_rebuild day_value_clear [OF inv scope])
  have con: "unique_keys contribution_key (contributions t)
    \<and> (\<forall>c \<in> set (contributions t). ?P (con_restaurant_id c) (con_organization_id c))
    \<and> completed_totals (contributions t) r k = (if r = rid then
       (fst (completed_totals (contributions s) r k) - fst (sum_old ?ex vals k) + fst (sum_counted vals k),
        snd (completed_totals (contributions s) r k) - snd (sum_old ?ex vals k) + snd (sum_counted vals k))
      else completed_totals (contributions s) r k)" for r k
    using fold_rebuild_contributions [of ?s0 vals ?ex rid ?P org r k]
    by (simp add: cs u scope inv' scoped_by_key(2) [OF inv scope] flip: t)
  have share: "fst (old_share row k) = (case row of None \<Rightarrow> 0 | Some c \<Rightarrow> fst (counted (contribution_value_of c) k))"
    "snd (old_share row k) = (case row of None \<Rightarrow> 0 | Some c \<Rightarrow> snd (counted (contribution_value_of c) k))" for row k
    by (simp_all add: old_share_def split: option.splits)
  have old: "completed_totals (contributions s) rid k = sum_old ?ex vals k" for k
    unfolding completed_totals_scoped [OF inv scope] sum_old_def share
    by (simp add: sum_over_values [OF u scoped_by_key(1) [OF inv scope] cover])
  have "unique_keys daily_key (daily_rows t)" unfolding t
    by (rule fold_rebuild_daily_invariant)
      (use inv' in \<open>simp_all add: clear_daily_def delete_where_def unique_keys_def distinct_map_filter
        unique_daily_delta [unfolded unique_keys_def]\<close>)
  moreover have "\<forall>d \<in> set (daily_rows t). ?P (day_restaurant_id d) (day_organization_id d)" unfolding t
  proof (rule fold_rebuild_daily_invariant)
    show "\<forall>d \<in> set (daily_rows ?s0). ?P (day_restaurant_id d) (day_organization_id d)"
      using inv' by (simp add: clear_daily_def set_delete_where)
  qed (rule daily_delta_scope [where P = ?P], use scope in simp_all)
  moreover have "restaurants t = restaurants s" by (simp add: t clear_daily_def)
  moreover have "day_value t r k = completed_totals (contributions t) r k" for r k
  proof (cases "r = rid")
    case True
    then show ?thesis using con [of rid k] daily [of rid k] old [of k] by simp
  next
    case False
    then show ?thesis using con [of r k] daily [of r k] inv' by simp
  qed
  moreover have "restaurant_matches_organization t = ?P"
    by (intro ext restaurant_matches_cong) (simp add: \<open>restaurants t = restaurants s\<close>)
  ultimately have "projection_inv t" using con inv' by (simp add: projection_inv_def)
  then show ?thesis using daily by simp
qed

text \<open>
  C15. The rebuild restores agreement with the orders: whatever the state of the projection's
  contributions, a rebuild that succeeds leaves daily totals that reconciliation finds equal to those
  computed from the completed orders, day by day and with no discrepancy, and the projection invariant
  holds, so that later events keep being applied exactly. The rebuild relies on deletion being final:
  an order whose deletion is on record has no row.
\<close>

theorem rebuild_reconciles:
  assumes "rebuild_analytics_projection org rid s = Inr (u, t)" and "projection_inv s"
    and "unique_keys ord_id (orders s)" and "deletions_are_final s org rid"
  shows "reconcile_analytics org rid t = Inr (True, []) \<and> projection_inv t"
  using assms(1)
proof (cases rule: rebuild_Inr)
  case (1 vs vals)
  let ?ds = "scoped_orders s org rid"
  have shape: "baseline_shape ?ds vals"
    and cover: "con_order_id ` set (scoped_contributions s org rid) \<subseteq> cv_order_id ` set vals"
    using keep_tombstone_shape [OF 1(3) baseline_shape_baseline [OF 1(2) assms(3,4)]] by auto
  have dist: "distinct (map cv_order_id vals)" using shape by (simp add: baseline_shape_def unique_keys_def)
  note totals = rebuild_totals [OF assms(2) 1(1) dist cover 1(4)]
  have same: "restaurants t = restaurants s" "orders t = orders s" by (simp_all add: 1(4) clear_daily_def)
  have scope: "restaurant_matches_organization t rid org" using 1(1) restaurant_matches_cong [OF same(1)] by simp
  have "scoped_orders t org rid = ?ds"
    by (simp add: scoped_orders_def same restaurant_matches_cong [OF same(1)])
  then have "get_day (authoritative t org rid) k = get_day (daily_totals t org rid) k" for k
    using totals get_day_daily [OF _ scope] sum_counted_shape [OF shape] by (simp add: get_day_authoritative)
  then show ?thesis using totals scope by (simp add: reconcile_analytics_def analytics_scope_def Let_def)
qed

text \<open>Two orders of one day, one of them completed, and no projection yet.\<close>

definition demo_day_order :: "int \<Rightarrow> string \<Rightarrow> order" where
  "demo_day_order oid st = \<lparr>ord_id = oid, ord_restaurant_id = 1, ord_table_number = None,
     ord_customer_name = None, ord_status = st, ord_payment_status = ''UNPAID'', ord_notes = None,
     ord_subtotal = 10, ord_total = 10, ord_inventory_processed = True, ord_revision = 3,
     ord_created_at = Naive 5, ord_updated_at = Naive 5\<rparr>"

definition demo_sales :: db where
  "demo_sales = demo_scope\<lparr>orders := [demo_day_order 7 ''COMPLETED'', demo_day_order 8 ''ACCEPTED'']\<rparr>"

lemma demo_sales_facts:
  "succeeds_with (rebuild_analytics_projection 1 1 demo_sales)
     (\<lambda>(u, t). daily_totals t 1 1 = [(0, (1, 10))] \<and> length (contributions t) = 2)"
  "unique_keys ord_id (orders demo_sales)" "deletions_are_final demo_sales 1 1"
  by code_simp+

lemma demo_sales_projection: "projection_inv demo_sales"
  by (simp add: projection_inv_def demo_sales_def demo_scope_def empty_db_def day_value_def completed_totals_def)

theorem rebuild_reconciles_witness:
  "\<exists>t. rebuild_analytics_projection 1 1 demo_sales = Inr ((), t) \<and> daily_totals t 1 1 = [(0, (1, 10))]
     \<and> reconcile_analytics 1 1 t = Inr (True, []) \<and> projection_inv t"
proof -
  obtain t where t: "rebuild_analytics_projection 1 1 demo_sales = Inr ((), t)" "daily_totals t 1 1 = [(0, (1, 10))]"
    using demo_sales_facts(1) unfolding succeeds_with_iff by auto
  from rebuild_reconciles [OF t(1) demo_sales_projection demo_sales_facts(2,3)] t show ?thesis by auto
qed

end
