(* ===== verification/Alerts.thy ===== *)
theory Alerts
  imports Inventory
begin

text \<open>
  The alert projection (\<open>alerts/service.py\<close>, \<open>alerts/repo/queries.py\<close>): the history of low-stock
  episodes and the current state per ingredient, fed by inventory events but always read back from
  the authoritative inventory rows under their lock; its user-facing reads and its rebuild. A row of
  \<open>AlertEpisode\<close> has the fields of \<^typ>\<open>episode\<close>.
\<close>

section \<open>Repository\<close>

definition alert_episode :: "db \<Rightarrow> uuid \<Rightarrow> episode option" where
  "alert_episode s episode_id = by_key ep_episode_id episode_id (alert_episodes s)"

definition alert_state_of :: "db \<Rightarrow> uuid \<Rightarrow> int \<Rightarrow> int \<Rightarrow> alert_state option" where
  "alert_state_of s organization_id restaurant_id ingredient_id =
     select_one (\<lambda>a. als_organization_id a = organization_id \<and> als_restaurant_id a = restaurant_id
       \<and> als_ingredient_id a = ingredient_id) (alert_states s)"

definition all_alert_episodes :: "db \<Rightarrow> uuid \<Rightarrow> int \<Rightarrow> episode list" where
  "all_alert_episodes s organization_id restaurant_id =
     sort_key (\<lambda>e. micros (ep_opened_at e)) (sort_key ep_episode_id
       (filter (\<lambda>e. ep_organization_id e = organization_id \<and> ep_restaurant_id e = restaurant_id)
         (alert_episodes s)))"

definition scoped_alert_states :: "db \<Rightarrow> uuid \<Rightarrow> int \<Rightarrow> alert_state list" where
  "scoped_alert_states s organization_id restaurant_id =
     sort_key als_ingredient_id (filter (\<lambda>a. als_organization_id a = organization_id
       \<and> als_restaurant_id a = restaurant_id) (alert_states s))"

record active_alert =
  aa_episode_id :: uuid
  aa_ingredient_id :: int
  aa_ingredient_name :: string
  aa_unit :: string
  aa_quantity :: dec
  aa_reorder_threshold :: dec
  aa_opened_at :: datetime
  aa_notification_suppressed :: bool

text \<open>The join of \<open>active_page\<close>: the projected episode with the live ingredient, balance and episode.\<close>

definition active_alert_of :: "db \<Rightarrow> uuid \<Rightarrow> int \<Rightarrow> episode \<Rightarrow> active_alert option" where
  "active_alert_of s organization_id restaurant_id e =
     (if ep_organization_id e = organization_id \<and> ep_restaurant_id e = restaurant_id then
        case by_key ing_id (ep_ingredient_id e) (ingredients s) of None \<Rightarrow> None
        | Some i \<Rightarrow>
          (case by_key bal_ingredient_id (ing_id i) (balances s) of None \<Rightarrow> None
           | Some b \<Rightarrow>
             (case by_key ep_episode_id (ep_episode_id e) (episodes s) of None \<Rightarrow> None
              | Some live \<Rightarrow>
                if ing_restaurant_id i = restaurant_id
                   \<and> ep_organization_id live = organization_id \<and> ep_restaurant_id live = restaurant_id
                   \<and> ep_ingredient_id live = ing_id i \<and> ep_resolved_at live = None
                   \<and> ing_is_active i \<and> bal_quantity b \<le> ing_reorder_threshold i
                then Some \<lparr>aa_episode_id = ep_episode_id e, aa_ingredient_id = ing_id i,
                  aa_ingredient_name = ing_name i, aa_unit = ing_unit i, aa_quantity = bal_quantity b,
                  aa_reorder_threshold = ing_reorder_threshold i, aa_opened_at = ep_opened_at e,
                  aa_notification_suppressed = ep_notification_suppressed e\<rparr>
                else None))
      else None)"

text \<open>\<open>ORDER BY opened_at DESC, episode_id DESC\<close>.\<close>

definition newest_first :: "('a \<Rightarrow> datetime) \<Rightarrow> ('a \<Rightarrow> uuid) \<Rightarrow> 'a list \<Rightarrow> 'a list" where
  "newest_first opened key xs = rev (sort_key (\<lambda>x. micros (opened x)) (sort_key key xs))"

definition active_page ::
  "db \<Rightarrow> uuid \<Rightarrow> int \<Rightarrow> nat \<Rightarrow> nat \<Rightarrow> active_alert list \<times> nat" where
  "active_page s organization_id restaurant_id limit offset =
     (let rows = List.map_filter (active_alert_of s organization_id restaurant_id) (alert_episodes s) in
      (take limit (drop offset (newest_first aa_opened_at aa_episode_id rows)), length rows))"

definition history_page ::
  "db \<Rightarrow> uuid \<Rightarrow> int \<Rightarrow> nat \<Rightarrow> nat \<Rightarrow> episode list \<times> nat" where
  "history_page s organization_id restaurant_id limit offset =
     (let rows = filter (\<lambda>e. ep_organization_id e = organization_id
            \<and> ep_restaurant_id e = restaurant_id) (alert_episodes s) in
      (take limit (drop offset (newest_first ep_opened_at ep_episode_id rows)), length rows))"

section \<open>Reads\<close>

definition active_alerts ::
  "invocation \<Rightarrow> int \<Rightarrow> nat \<Rightarrow> nat \<Rightarrow> db \<Rightarrow> (active_alert list \<times> nat) result" where
  "active_alerts iv restaurant_id limit offset s =
     bindR (current s (iv_user_id iv)) (\<lambda>ctx.
     access_restaurant s ctx restaurant_id ''inventory.read''
       (Inr (active_page s (ac_organization_id ctx) restaurant_id limit offset)))"

definition alert_history ::
  "invocation \<Rightarrow> int \<Rightarrow> nat \<Rightarrow> nat \<Rightarrow> db \<Rightarrow> (episode list \<times> nat) result" where
  "alert_history iv restaurant_id limit offset s =
     bindR (current s (iv_user_id iv)) (\<lambda>ctx.
     access_restaurant s ctx restaurant_id ''inventory.read''
       (Inr (history_page s (ac_organization_id ctx) restaurant_id limit offset)))"

section \<open>The effect\<close>

definition alert_episode_check :: "episode \<Rightarrow> bool" where
  "alert_episode_check e = (0 < ep_ingredient_id e \<and> 1 \<le> ep_opening_revision e
     \<and> 0 \<le> ep_opening_quantity e \<and> ep_opening_quantity e \<le> 999999999999 / 1000
     \<and> 0 \<le> ep_opening_reorder_threshold e \<and> ep_opening_reorder_threshold e \<le> 999999999999 / 1000
     \<and> (case ep_resolution_revision e of None \<Rightarrow> True | Some r \<Rightarrow> ep_opening_revision e \<le> r))"

definition store_episode_facts :: "episode \<Rightarrow> db \<Rightarrow> db result" where
  "store_episode_facts facts s =
     raise_if (\<not> alert_episode_check facts) (IntegrityError ''alert_episodes'') (
     Inr (s\<lparr>alert_episodes := (if alert_episode s (ep_episode_id facts) = None
       then alert_episodes s @ [facts] else store_row ep_episode_id facts (alert_episodes s))\<rparr>))"

definition sync_episode :: "uuid \<Rightarrow> db \<Rightarrow> db result" where
  "sync_episode episode_id s =
     bindR (load_inventory_episode_facts s episode_id) (\<lambda>facts.
     case facts of None \<Rightarrow> Inr s | Some f \<Rightarrow> store_episode_facts f s)"

text \<open>The columns of an alert row taken from the authoritative state.\<close>

definition alert_row :: "inventory_transition \<Rightarrow> datetime \<Rightarrow> alert_state" where
  "alert_row present occurred_at = (let st = tr_state present in
     \<lparr>als_organization_id = st_organization_id st, als_restaurant_id = st_restaurant_id st,
      als_ingredient_id = st_ingredient_id st, als_revision = st_state_revision st,
      als_ingredient_name = st_ingredient_name st, als_unit = st_unit st,
      als_quantity = st_quantity st, als_reorder_threshold = st_reorder_threshold st,
      als_is_active = st_is_active st, als_is_low = is_low st,
      als_episode_id = (if is_low st then tr_episode_id present else None),
      als_occurred_at = occurred_at\<rparr>)"

definition later :: "datetime \<Rightarrow> datetime \<Rightarrow> datetime" where
  "later a b = (if micros b > micros a then b else a)"

definition write_alert_row :: "bool \<Rightarrow> alert_state \<Rightarrow> db \<Rightarrow> db result" where
  "write_alert_row is_new row s =
     raise_if (is_new \<and> exists_row (\<lambda>a. als_ingredient_id a = als_ingredient_id row) (alert_states s))
       (IntegrityError ''alert_ingredient_states_pkey'') (
     raise_if (\<not> alert_state_check row) (IntegrityError ''alert_ingredient_states'') (
     Inr (s\<lparr>alert_states := (if is_new then alert_states s @ [row]
       else store_row als_ingredient_id row (alert_states s))\<rparr>)))"

definition apply_state_changed ::
  "envelope \<Rightarrow> int \<Rightarrow> uuid option \<Rightarrow> string option \<Rightarrow> db \<Rightarrow> (string \<times> db) result" where
  "apply_state_changed event ingredient_id episode_id episode_transition s =
     (let organization_id = env_organization_id event; restaurant_id = env_restaurant_id event in
      bindR (load_inventory_state s organization_id restaurant_id ingredient_id True) (\<lambda>present.
      bindR (case (episode_id, episode_transition) of
          (Some e, Some _) \<Rightarrow> sync_episode e s | _ \<Rightarrow> Inr s) (\<lambda>s1.
      case alert_state_of s1 organization_id restaurant_id ingredient_id of
        None \<Rightarrow>
          bindR (write_alert_row True (alert_row present (env_occurred_at event)) s1) (\<lambda>s2.
          Inr (''processed'', s2))
      | Some row \<Rightarrow>
          if als_revision row \<ge> st_state_revision (tr_state present) then Inr (''skipped'', s1)
          else
            bindR (write_alert_row False
              (alert_row present (later (als_occurred_at row) (env_occurred_at event))) s1) (\<lambda>s2.
            Inr (''processed'', s2)))))"

definition apply_alert_event :: "envelope \<Rightarrow> db \<Rightarrow> (string \<times> db) result" where
  "apply_alert_event event s = (case env_payload event of
      InventoryStateChangedPayload iid name unit q h active low eid transition reason \<Rightarrow>
        apply_state_changed event iid eid transition s
    | InventoryLowPayload iid eid name unit q h opened_at \<Rightarrow>
        bindR (load_inventory_state s (env_organization_id event) (env_restaurant_id event) iid True) (\<lambda>_.
        bindR (sync_episode eid s) (\<lambda>s1. Inr (''processed'', s1)))
    | _ \<Rightarrow> Inl (ValueError ''Unsupported alert event''))"

section \<open>Maintenance\<close>

definition inspect_alerts :: "uuid \<Rightarrow> int \<Rightarrow> db \<Rightarrow> episode list \<times> alert_state list" where
  "inspect_alerts organization_id restaurant_id s =
     (all_alert_episodes s organization_id restaurant_id,
      scoped_alert_states s organization_id restaurant_id)"

definition rebuild_alert_row :: "datetime \<Rightarrow> inventory_transition \<Rightarrow> db \<Rightarrow> db result" where
  "rebuild_alert_row now present s = (let st = tr_state present in
     case alert_state_of s (st_organization_id st) (st_restaurant_id st) (st_ingredient_id st) of
       None \<Rightarrow> write_alert_row True (alert_row present now) s
     | Some row \<Rightarrow> if als_revision row > st_state_revision st then Inr s
         else write_alert_row False (alert_row present now) s)"

definition rebuild_alerts :: "datetime \<Rightarrow> uuid \<Rightarrow> int \<Rightarrow> db \<Rightarrow> (unit \<times> db) result" where
  "rebuild_alerts now organization_id restaurant_id s =
     bindR (load_inventory_restaurant_states s organization_id restaurant_id True) (\<lambda>states.
     bindR (load_inventory_episode_history s organization_id restaurant_id) (\<lambda>facts.
     bindR (for_each store_episode_facts facts s) (\<lambda>s1.
     bindR (for_each (rebuild_alert_row now) states s1) (\<lambda>s2. Inr ((), s2)))))"

section \<open>Lemmas\<close>

text \<open>The authoritative read only looks at the inventory tables and the restaurant.\<close>

lemma load_inventory_state_cong:
  assumes "ingredients t = ingredients s" "balances t = balances s" "episodes t = episodes s"
    "restaurants t = restaurants s"
  shows "load_inventory_state t org rid iid lock = load_inventory_state s org rid iid lock"
proof -
  have "with_balance t = with_balance s" by (rule ext) (simp add: with_balance_def assms)
  moreover have "restaurant_matches_organization t rid org = restaurant_matches_organization s rid org"
    by (simp add: restaurant_matches_organization_def assms)
  moreover have "open_episode t iid = open_episode s iid" by (simp add: open_episode_def assms)
  ultimately show ?thesis
    by (simp add: load_inventory_state_def ingredient_state_def assms(1)
        lock_restaurant_for_organization_def Let_def)
qed

lemma load_inventory_state_Inr:
  assumes "load_inventory_state s org rid iid lock = Inr p"
  shows "load_inventory_state s org rid iid False = Inr p"
    and "st_organization_id (tr_state p) = org" "st_restaurant_id (tr_state p) = rid"
    and "st_ingredient_id (tr_state p) = iid"
proof -
  show free: "load_inventory_state s org rid iid False = Inr p"
    using assms by (auto simp: load_inventory_state_def lock_restaurant_for_organization_def raise_if_Inr Let_def
        split: if_splits)
  then obtain item bal where i: "ingredient_state s org rid iid = Inr (item, bal)"
    and p: "transition_snapshot (inventory_state_snapshot org item bal) (open_episode s iid) None = Inr p"
    by (auto simp: load_inventory_state_def bindR_Inr)
  have "tr_state p = inventory_state_snapshot org item bal"
    using p by (auto simp: transition_snapshot_def make_inventory_transition_def res_simps)
  moreover have "ing_id item = iid" "ing_restaurant_id item = rid"
    using i by (auto simp: ingredient_state_def with_balance_def res_simps bind_eq_Some_conv dest!: select_one_Some)
  ultimately show "st_organization_id (tr_state p) = org" "st_restaurant_id (tr_state p) = rid"
    "st_ingredient_id (tr_state p) = iid"
    by (simp_all add: inventory_state_snapshot_def)
qed

lemma alert_row_simps [simp]:
  "als_revision (alert_row p ts) = st_state_revision (tr_state p)"
  "als_ingredient_id (alert_row p ts) = st_ingredient_id (tr_state p)"
  "als_organization_id (alert_row p ts) = st_organization_id (tr_state p)"
  "als_restaurant_id (alert_row p ts) = st_restaurant_id (tr_state p)"
  "als_occurred_at (alert_row p ts) = ts"
  by (simp_all add: alert_row_def Let_def)

text \<open>
  The projection is never ahead of the inventory, and a row that has the inventory's revision has
  the inventory's values.
\<close>

definition alert_ok :: "db \<Rightarrow> alert_state \<Rightarrow> bool" where
  "alert_ok s a = (case load_inventory_state s (als_organization_id a) (als_restaurant_id a)
       (als_ingredient_id a) False of
     Inl _ \<Rightarrow> True
   | Inr present \<Rightarrow> als_revision a \<le> st_state_revision (tr_state present)
       \<and> (als_revision a = st_state_revision (tr_state present)
          \<longrightarrow> a = alert_row present (als_occurred_at a)))"

definition alerts_inv :: "db \<Rightarrow> bool" where
  "alerts_inv s = (unique_keys als_ingredient_id (alert_states s)
     \<and> (\<forall>a \<in> set (alert_states s). alert_ok s a))"

definition alerts_only :: "db \<Rightarrow> db \<Rightarrow> bool" where
  "alerts_only s t = (\<exists>e a. t = s\<lparr>alert_episodes := e, alert_states := a\<rparr>)"

lemma alerts_only_refl [simp]: "alerts_only s s"
proof -
  have "s = s\<lparr>alert_episodes := alert_episodes s, alert_states := alert_states s\<rparr>" by simp
  then show ?thesis unfolding alerts_only_def by blast
qed

lemma alerts_only_trans:
  assumes "alerts_only s t" and "alerts_only t u"
  shows "alerts_only s u"
proof -
  obtain e a e' a' where "t = s\<lparr>alert_episodes := e, alert_states := a\<rparr>"
    "u = t\<lparr>alert_episodes := e', alert_states := a'\<rparr>" using assms unfolding alerts_only_def by blast
  then have "u = s\<lparr>alert_episodes := e', alert_states := a'\<rparr>" by simp
  then show ?thesis unfolding alerts_only_def by blast
qed

lemma alerts_only_load:
  "alerts_only s t \<Longrightarrow> load_inventory_state t org rid iid lock = load_inventory_state s org rid iid lock"
  by (rule load_inventory_state_cong) (auto simp: alerts_only_def)

lemma sync_episode_Inr:
  assumes "sync_episode eid s = Inr t"
  shows "\<exists>es. t = s\<lparr>alert_episodes := es\<rparr>"
proof -
  obtain facts where facts: "load_inventory_episode_facts s eid = Inr facts"
    and t: "(case facts of None \<Rightarrow> Inr s | Some f \<Rightarrow> store_episode_facts f s) = Inr t"
    using assms by (auto simp: sync_episode_def bindR_Inr)
  show ?thesis
  proof (cases facts)
    case None
    with t have "t = s\<lparr>alert_episodes := alert_episodes s\<rparr>" by simp
    then show ?thesis by blast
  next
    case (Some f)
    with t show ?thesis by (auto simp: store_episode_facts_def raise_if_Inr)
  qed
qed

lemma write_alert_row_Inr:
  assumes "write_alert_row is_new row s = Inr t"
  shows "t = s\<lparr>alert_states := (if is_new then alert_states s @ [row]
      else store_row als_ingredient_id row (alert_states s))\<rparr>
    \<and> (is_new \<longrightarrow> als_ingredient_id row \<notin> als_ingredient_id ` set (alert_states s))"
  using assms by (auto simp: write_alert_row_def res_simps exists_row_iff)

text \<open>Writing the authoritative row keeps the invariant and is what a lookup then finds.\<close>

lemma write_alert_row_keeps:
  assumes inv: "alerts_inv s" and load: "load_inventory_state s org rid iid False = Inr p"
    and w: "write_alert_row is_new (alert_row p ts) s = Inr t"
    and old: "\<not> is_new \<Longrightarrow> alert_state_of s org rid iid \<noteq> None"
  shows "alerts_inv t \<and> alert_state_of t org rid iid = Some (alert_row p ts) \<and> alerts_only s t"
proof -
  let ?a = "alert_row p ts"
  note t = write_alert_row_Inr [OF w]
  note p = load_inventory_state_Inr [OF load]
  have only: "alerts_only s t" unfolding alerts_only_def
    using t by (intro exI [of _ "alert_episodes s"] exI [of _ "alert_states t"]) simp
  have ok: "alert_ok t a" if "alert_ok s a" for a
    using that alerts_only_load [OF only] by (simp add: alert_ok_def)
  have new: "alert_ok t ?a" using load p alerts_only_load [OF only] by (simp add: alert_ok_def)
  have u: "unique_keys als_ingredient_id (alert_states s)" using inv by (simp add: alerts_inv_def)
  have "a = ?a \<or> a \<in> set (alert_states s)" if "a \<in> set (alert_states t)" for a
    using that t by (auto dest: in_store_row split: if_splits)
  then have "\<forall>a \<in> set (alert_states t). alert_ok t a" using inv ok new by (auto simp: alerts_inv_def)
  moreover have u': "unique_keys als_ingredient_id (alert_states t)" using t u by (cases is_new) auto
  moreover have mem: "?a \<in> set (alert_states t)"
  proof (cases is_new)
    case False
    then obtain x where "alert_state_of s org rid iid = Some x" using old by auto
    then have "x \<in> set (alert_states s)" "als_ingredient_id x = iid"
      by (auto simp: alert_state_of_def dest!: select_one_Some)
    then show ?thesis using t False p by (auto intro: store_row_self)
  qed (use t in simp)
  moreover have "alert_state_of t org rid iid = Some ?a"
  proof -
    have "alert_state_of t org rid iid \<noteq> None"
      unfolding alert_state_of_def select_one_None using bexI [OF _ mem] p(2-4) by auto
    then obtain x where x: "alert_state_of t org rid iid = Some x" by auto
    then have "x \<in> set (alert_states t)" "als_ingredient_id x = iid"
      by (auto simp: alert_state_of_def dest!: select_one_Some)
    then have "x = ?a" using unique_keys_eq [OF u' _ mem] p by simp
    then show ?thesis using x by simp
  qed
  ultimately show ?thesis using only by (simp add: alerts_inv_def)
qed

lemma sync_episode_keeps:
  assumes "sync_episode eid s = Inr t" and "alerts_inv s"
  shows "alerts_inv t \<and> alerts_only s t \<and> alert_states t = alert_states s"
proof -
  obtain es where t: "t = s\<lparr>alert_episodes := es\<rparr>" using sync_episode_Inr [OF assms(1)] by blast
  have only: "alerts_only s t" unfolding alerts_only_def t
    by (intro exI [of _ es] exI [of _ "alert_states s"]) simp
  have "alert_ok t a = alert_ok s a" for a using alerts_only_load [OF only] by (simp add: alert_ok_def)
  then show ?thesis using assms(2) only t by (simp add: alerts_inv_def)
qed

lemma apply_state_changed_keeps:
  assumes inv: "alerts_inv s" and "apply_state_changed event iid eid moved s = Inr (r, t)"
    and org: "env_organization_id event = org" "env_restaurant_id event = rid"
  shows "alerts_inv t \<and> alerts_only s t \<and> (\<exists>p ts. load_inventory_state t org rid iid False = Inr p
    \<and> alert_state_of t org rid iid = Some (alert_row p ts))"
proof -
  from assms(2) org obtain p s1 where load: "load_inventory_state s org rid iid True = Inr p"
    and sync: "(case (eid, moved) of (Some e, Some _) \<Rightarrow> sync_episode e s | _ \<Rightarrow> Inr s) = Inr s1"
    and rest: "(case alert_state_of s1 org rid iid of
        None \<Rightarrow> bindR (write_alert_row True (alert_row p (env_occurred_at event)) s1) (\<lambda>s2. Inr (''processed'', s2))
      | Some row \<Rightarrow> if als_revision row \<ge> st_state_revision (tr_state p) then Inr (''skipped'', s1)
          else bindR (write_alert_row False (alert_row p (later (als_occurred_at row) (env_occurred_at event))) s1)
            (\<lambda>s2. Inr (''processed'', s2))) = Inr (r, t)"
    by (auto simp: apply_state_changed_def Let_def bindR_Inr)
  have s1: "alerts_inv s1" "alerts_only s s1"
    using sync sync_episode_keeps [OF _ inv] inv by (auto split: option.splits)
  have load1: "load_inventory_state s1 org rid iid False = Inr p"
    using load_inventory_state_Inr(1) [OF load] alerts_only_load [OF s1(2)] by simp
  have conclude: "?thesis" if "alerts_inv t" "alerts_only s1 t" "alert_state_of t org rid iid = Some (alert_row p ts)" for ts
    using that load1 alerts_only_load [OF that(2)] alerts_only_trans [OF s1(2)] by auto
  show ?thesis
  proof (cases "alert_state_of s1 org rid iid")
    case None
    then show ?thesis using rest write_alert_row_keeps [OF s1(1) load1, of True] conclude
      by (auto simp: bindR_Inr)
  next
    case (Some row)
    then have row: "row \<in> set (alert_states s1)" "als_organization_id row = org" "als_restaurant_id row = rid"
      "als_ingredient_id row = iid" by (auto simp: alert_state_of_def dest!: select_one_Some)
    show ?thesis
    proof (cases "als_revision row \<ge> st_state_revision (tr_state p)")
      case True
      then have "t = s1" using rest Some by simp
      moreover have "row = alert_row p (als_occurred_at row)"
        using s1(1) row load1 True by (fastforce simp: alerts_inv_def alert_ok_def)
      ultimately show ?thesis using conclude s1(1) Some by fastforce
    next
      case False
      then show ?thesis using rest Some write_alert_row_keeps [OF s1(1) load1, of False] conclude
        by (auto simp: bindR_Inr)
    qed
  qed
qed

lemma apply_alert_event_only:
  assumes "alerts_inv s" and "apply_alert_event event s = Inr (r, t)"
  shows "alerts_inv t \<and> alerts_only s t"
  using assms(2) apply_state_changed_keeps [OF assms(1)] sync_episode_keeps [OF _ assms(1)]
  by (auto simp: apply_alert_event_def bindR_Inr split: payload.splits)


text \<open>A stale event: the stock moved on since it was recorded.\<close>

definition demo_stock :: db where
  "demo_stock = demo_scope\<lparr>
     ingredients := [\<lparr>ing_id = 5, ing_restaurant_id = 1, ing_name = ''salt'', ing_normalized_name = ''salt'',
       ing_unit = ''g'', ing_reorder_threshold = 2, ing_is_active = True, ing_state_revision = 4\<rparr>],
     balances := [\<lparr>bal_ingredient_id = 5, bal_quantity = 9, bal_version = 4\<rparr>]\<rparr>"

definition demo_stale_event :: envelope where
  "demo_stale_event = \<lparr>env_event_id = 1, env_event_type = Inventory_State_Changed,
     env_organization_id = 1, env_restaurant_id = 1, env_aggregate_type = ''ingredient'',
     env_aggregate_id = ''5'', env_aggregate_revision = 2, env_occurred_at = Aware 5,
     env_correlation_id = ''demo'',
     env_payload = InventoryStateChangedPayload 5 ''salt'' ''g'' 1 2 True True (Some 8) None None\<rparr>"

lemma demo_stale_alert:
  "succeeds_with (apply_alert_event demo_stale_event demo_stock) (\<lambda>(r, t). r = ''processed''
     \<and> map als_revision (alert_states t) = [4] \<and> map als_is_low (alert_states t) = [False])"
  "alerts_inv demo_stock"
  by code_simp+


end
