(* ===== verification/Notifications.thy ===== *)
theory Notifications
  imports Inventory
begin

text \<open>
  The notification sink (\<open>notifications/service.py\<close>, \<open>notifications/repo/queries.py\<close>): one durable
  low-stock stub per episode, and a diagnostic per order or menu event. In the facts of a diagnostic,
  \<open>str\<close> of an amount and \<open>isoformat\<close> of a time are kept as the exact value.
\<close>

section \<open>Repository\<close>

definition notification_stub_of :: "db \<Rightarrow> uuid \<Rightarrow> notification_stub option" where
  "notification_stub_of s episode_id = select_one (\<lambda>n. ntf_episode_id n = episode_id) (notification_stubs s)"

text \<open>Rows are listed in insertion order, which is the order of \<open>created_at\<close>.\<close>

definition notification_stubs_of :: "db \<Rightarrow> uuid \<Rightarrow> int \<Rightarrow> notification_stub list" where
  "notification_stubs_of s organization_id restaurant_id =
     filter (\<lambda>n. ntf_organization_id n = organization_id \<and> ntf_restaurant_id n = restaurant_id)
       (notification_stubs s)"

definition diagnostics_of :: "db \<Rightarrow> uuid \<Rightarrow> int \<Rightarrow> event_diagnostic list" where
  "diagnostics_of s organization_id restaurant_id =
     filter (\<lambda>d. dgn_organization_id d = organization_id \<and> dgn_restaurant_id d = restaurant_id) (diagnostics s)"

section \<open>The effect\<close>

definition diagnostic_facts :: "dec payload \<Rightarrow> (string \<times> json) list option" where
  "diagnostic_facts p = (case p of
      OrderSubmittedPayload oid st \<Rightarrow> Some [(''order_id'', JInt oid), (''status'', JStr st)]
    | OrderAcceptedPayload oid st \<Rightarrow> Some [(''order_id'', JInt oid), (''status'', JStr st)]
    | OrderCancelledPayload oid st \<Rightarrow> Some [(''order_id'', JInt oid), (''status'', JStr st)]
    | OrderCompletedPayload oid tot created \<Rightarrow>
        Some [(''order_id'', JInt oid), (''total'', JDec tot), (''created_at'', JTime created)]
    | OrderDeletedPayload oid prior tot created \<Rightarrow>
        Some [(''order_id'', JInt oid), (''total'', JDec tot), (''created_at'', JTime created),
          (''prior_status'', JStr prior)]
    | MenuUpdatedPayload operation target_type target_id menu_id affected \<Rightarrow>
        Some [(''operation'', JStr operation), (''target_type'', JStr target_type),
          (''target_id'', JInt target_id), (''menu_id'', JInt menu_id),
          (''affected_menu_item_ids'', JList (map JInt affected))]
    | _ \<Rightarrow> None)"

definition new_diagnostic :: "envelope \<Rightarrow> (string \<times> json) list \<Rightarrow> event_diagnostic" where
  "new_diagnostic event facts =
     \<lparr>dgn_event_id = env_event_id event, dgn_organization_id = env_organization_id event,
      dgn_restaurant_id = env_restaurant_id event,
      dgn_event_type = event_type_name (env_event_type event),
      dgn_aggregate_type = env_aggregate_type event, dgn_aggregate_id = env_aggregate_id event,
      dgn_aggregate_revision = env_aggregate_revision event,
      dgn_correlation_id = env_correlation_id event, dgn_facts = facts\<rparr>"

text \<open>Why a low-stock event produces a stub that notifies nobody.\<close>

definition stub_outcome :: "uuid \<Rightarrow> episode option \<Rightarrow> inventory_transition \<Rightarrow> string \<times> string option" where
  "stub_outcome episode_id producer_facts present =
     (if (case producer_facts of None \<Rightarrow> False | Some f \<Rightarrow> ep_notification_suppressed f)
      then (''suppressed'', Some ''initialization_baseline'')
      else if \<not> is_low (tr_state present) \<or> tr_episode_id present \<noteq> Some episode_id
      then (''skipped'', Some ''resolved_or_superseded'')
      else (''created'', None))"

definition new_stub :: "envelope \<Rightarrow> dec payload \<Rightarrow> uuid \<Rightarrow> string \<times> string option \<Rightarrow> notification_stub" where
  "new_stub event p stub_id result =
     \<lparr>ntf_id = stub_id, ntf_episode_id = il_episode_id p, ntf_event_id = env_event_id event,
      ntf_organization_id = env_organization_id event, ntf_restaurant_id = env_restaurant_id event,
      ntf_ingredient_id = il_ingredient_id p, ntf_ingredient_name = il_ingredient_name p,
      ntf_unit = il_unit p, ntf_opening_quantity = il_opening_quantity p,
      ntf_reorder_threshold = il_reorder_threshold p, ntf_opened_at = il_opened_at p,
      ntf_outcome = fst result, ntf_reason = snd result,
      ntf_correlation_id = env_correlation_id event\<rparr>"

definition apply_low_stock :: "envelope \<Rightarrow> dec payload \<Rightarrow> db \<Rightarrow> (string \<times> db) result" where
  "apply_low_stock event p s =
     bindR (load_inventory_state s (env_organization_id event) (env_restaurant_id event)
         (il_ingredient_id p) True) (\<lambda>present.
     if notification_stub_of s (il_episode_id p) \<noteq> None then Inr (''skipped'', s)
     else
       bindR (load_inventory_episode_facts s (il_episode_id p)) (\<lambda>producer_facts.
       let result = stub_outcome (il_episode_id p) producer_facts present in
       raise_if (il_ingredient_id p \<le> 0) (IntegrityError ''ck_notification_stub_ingredient'') (
       Inr (if fst result = ''created'' then ''processed'' else ''skipped'',
            s\<lparr>notification_stubs := notification_stubs s @ [new_stub event p (next_uuid s) result],
              next_uuid := next_uuid s + 1\<rparr>))))"

definition apply_notification_event :: "envelope \<Rightarrow> db \<Rightarrow> (string \<times> db) result" where
  "apply_notification_event event s =
     (if is_InventoryLowPayload (env_payload event) then apply_low_stock event (env_payload event) s
      else
        or_raise (diagnostic_facts (env_payload event)) (ValueError ''Unsupported notification sink event'') (\<lambda>facts.
        raise_if (exists_row (\<lambda>d. dgn_event_id d = env_event_id event) (diagnostics s))
          (IntegrityError ''event_diagnostics_pkey'') (
        Inr (''processed'', s\<lparr>diagnostics := diagnostics s @ [new_diagnostic event facts]\<rparr>))))"

definition inspect_notification_sink ::
  "uuid \<Rightarrow> int \<Rightarrow> db \<Rightarrow> notification_stub list \<times> event_diagnostic list" where
  "inspect_notification_sink organization_id restaurant_id s =
     (notification_stubs_of s organization_id restaurant_id, diagnostics_of s organization_id restaurant_id)"

section \<open>Lemmas\<close>

text \<open>The sink adds at most one row and touches nothing else.\<close>

lemma apply_notification_event_Inr:
  assumes "apply_notification_event event s = Inr (r, t)"
  obtains (nothing) "t = s" "r = ''skipped''"
  | (stub) n where "t = s\<lparr>notification_stubs := notification_stubs s @ [n], next_uuid := next_uuid s + 1\<rparr>"
      "ntf_id n = next_uuid s"
      "notification_stub_of s (ntf_episode_id n) = None"
      "ntf_episode_id n = il_episode_id (env_payload event)" "ntf_event_id n = env_event_id event"
      "ntf_outcome n = ''created'' \<longleftrightarrow> r = ''processed''"
      "ntf_outcome n = ''created'' \<longrightarrow> (\<exists>present. load_inventory_state s (env_organization_id event)
         (env_restaurant_id event) (ntf_ingredient_id n) True = Inr present
         \<and> is_low (tr_state present) \<and> tr_episode_id present = Some (ntf_episode_id n))"
  | (diagnostic) d where "t = s\<lparr>diagnostics := diagnostics s @ [d]\<rparr>" "dgn_event_id d = env_event_id event"
      "\<not> exists_row (\<lambda>x. dgn_event_id x = env_event_id event) (diagnostics s)" "r = ''processed''"
proof (cases "is_InventoryLowPayload (env_payload event)")
  case True
  then obtain iid eid name unit q h opened where p: "env_payload event = InventoryLowPayload iid eid name unit q h opened"
    by (cases "env_payload event") auto
  with assms obtain present where load: "load_inventory_state s (env_organization_id event)
      (env_restaurant_id event) iid True = Inr present"
    by (auto simp: apply_notification_event_def apply_low_stock_def bindR_Inr)
  show ?thesis
  proof (cases "notification_stub_of s eid")
    case (Some n)
    then have "t = s" "r = ''skipped''"
      using assms p load by (auto simp: apply_notification_event_def apply_low_stock_def)
    then show ?thesis by (rule nothing)
  next
    case None
    with assms p load obtain facts where facts: "load_inventory_episode_facts s eid = Inr facts"
      by (auto simp: apply_notification_event_def apply_low_stock_def bindR_Inr)
    let ?o = "stub_outcome eid facts present"
    have low: "fst ?o = ''created'' \<longrightarrow> is_low (tr_state present) \<and> tr_episode_id present = Some eid"
      by (simp add: stub_outcome_def)
    let ?n = "new_stub event (env_payload event) (next_uuid s) ?o"
    have "t = s\<lparr>notification_stubs := notification_stubs s @ [?n], next_uuid := next_uuid s + 1\<rparr>"
      "r = (if fst ?o = ''created'' then ''processed'' else ''skipped'')"
      using assms p load None facts
      by (auto simp: apply_notification_event_def apply_low_stock_def res_simps Let_def)
    then show ?thesis using p load None low by (intro stub [of ?n]) (auto simp: new_stub_def)
  qed
next
  case False
  with assms obtain facts where "t = s\<lparr>diagnostics := diagnostics s @ [new_diagnostic event facts]\<rparr>"
    "r = ''processed''" "\<not> exists_row (\<lambda>d. dgn_event_id d = env_event_id event) (diagnostics s)"
    by (auto simp: apply_notification_event_def res_simps)
  then show ?thesis by (intro diagnostic [of "new_diagnostic event facts"]) (simp_all add: new_diagnostic_def)
qed

definition notifications_inv :: "db \<Rightarrow> bool" where
  "notifications_inv s = (unique_keys ntf_episode_id (notification_stubs s)
     \<and> unique_keys dgn_event_id (diagnostics s))"

text \<open>
  C18. One notification per low-stock episode: the sink keeps at most one stub per episode, however
  many low-stock events name it, never changes a stub it recorded, and records one as created only
  when the ingredient is low at that moment in the very episode the event announces.
\<close>

theorem one_notification_per_episode:
  assumes "notifications_inv s" and "apply_notification_event event s = Inr (r, t)"
  shows "notifications_inv t
    \<and> (\<exists>new. notification_stubs t = notification_stubs s @ new \<and> length new \<le> 1
        \<and> (\<forall>n \<in> set new. ntf_outcome n = ''created'' \<longrightarrow>
            (\<exists>present. load_inventory_state s (env_organization_id event) (env_restaurant_id event)
               (ntf_ingredient_id n) True = Inr present
             \<and> is_low (tr_state present) \<and> tr_episode_id present = Some (ntf_episode_id n))))"
  using assms(2)
proof (cases rule: apply_notification_event_Inr)
  case nothing
  then show ?thesis using assms(1) by auto
next
  case (stub n)
  then show ?thesis using assms(1)
    by (auto simp: notifications_inv_def notification_stub_of_def select_one_None image_iff
        intro!: exI [of _ "[n]"])
next
  case (diagnostic d)
  then show ?thesis using assms(1) by (auto simp: notifications_inv_def exists_row_iff image_iff)
qed

definition demo_shortage :: db where
  "demo_shortage = demo_scope\<lparr>
     ingredients := [\<lparr>ing_id = 5, ing_restaurant_id = 1, ing_name = ''salt'', ing_normalized_name = ''salt'',
       ing_unit = ''g'', ing_reorder_threshold = 2, ing_is_active = True, ing_state_revision = 4\<rparr>],
     balances := [\<lparr>bal_ingredient_id = 5, bal_quantity = 1, bal_version = 4\<rparr>],
     episodes := [new_episode 9 (Aware 5) ''stock_command'' None None False
       \<lparr>st_organization_id = 1, st_restaurant_id = 1, st_ingredient_id = 5, st_state_revision = 4,
        st_ingredient_name = ''salt'', st_unit = ''g'', st_quantity = 1, st_reorder_threshold = 2,
        st_is_active = True\<rparr>]\<rparr>"

definition demo_low_event :: envelope where
  "demo_low_event = \<lparr>env_event_id = 1, env_event_type = Inventory_Low,
     env_organization_id = 1, env_restaurant_id = 1, env_aggregate_type = ''ingredient'',
     env_aggregate_id = ''5'', env_aggregate_revision = 4, env_occurred_at = Aware 5,
     env_correlation_id = ''demo'', env_payload = InventoryLowPayload 5 9 ''salt'' ''g'' 1 2 (Aware 5)\<rparr>"

lemma demo_low_notification:
  "succeeds_with (apply_notification_event demo_low_event demo_shortage) (\<lambda>(r, t). r = ''processed''
     \<and> map ntf_outcome (notification_stubs t) = [''created''])"
  "notifications_inv demo_shortage"
  by code_simp+

theorem one_notification_per_episode_witness:
  "\<exists>t. apply_notification_event demo_low_event demo_shortage = Inr (''processed'', t)
     \<and> map ntf_outcome (notification_stubs t) = [''created''] \<and> notifications_inv t"
proof -
  obtain r t where "apply_notification_event demo_low_event demo_shortage = Inr (r, t)
      \<and> r = ''processed'' \<and> map ntf_outcome (notification_stubs t) = [''created'']"
    using demo_low_notification(1) unfolding succeeds_with_iff split_paired_Ex prod.case by (elim exE)
  then have t: "apply_notification_event demo_low_event demo_shortage = Inr (''processed'', t)"
    "map ntf_outcome (notification_stubs t) = [''created'']"
    by (simp_all only:)
  show ?thesis
    using t conjunct1 [OF one_notification_per_episode [OF demo_low_notification(2) t(1)]] by (intro exI conjI)
qed

end
