(* ===== verification/Consumers.thy ===== *)
theory Consumers
  imports Delivery_Execution Analytics_Rebuild Alerts Notifications
begin

text \<open>
  The fixed consumers plugged into the delivery machinery (\<open>CONSUMERS\<close> of \<open>events/execution.py\<close>).
  The three effects satisfy the contract of \<open>consumer_effects\<close>, so every lemma of that interface
  holds of the deployed system; the properties state them.
\<close>

section \<open>Registry\<close>

definition consumer_registry :: registry where
  "consumer_registry c = (case c of Analytics \<Rightarrow> Some apply_order_event
     | Alerts \<Rightarrow> Some apply_alert_event | Notification_Sink \<Rightarrow> Some apply_notification_event)"

lemma apply_order_event_frame:
  "apply_order_event event s = Inr (r, t) \<Longrightarrow> keeps_deliveries s t"
  by (erule apply_order_event_Inr) (simp_all add: keeps_deliveries_def)

lemma alerts_only_keeps: "alerts_only s t \<Longrightarrow> keeps_deliveries s t"
  by (auto simp: alerts_only_def keeps_deliveries_def)

lemma sync_episode_frame: "sync_episode eid s = Inr t \<Longrightarrow> keeps_deliveries s t"
  by (auto dest!: sync_episode_Inr simp: keeps_deliveries_def)

lemma write_alert_row_frame: "write_alert_row n row s = Inr t \<Longrightarrow> keeps_deliveries s t"
  by (drule write_alert_row_Inr) (simp add: keeps_deliveries_def)

lemma apply_state_changed_frame:
  assumes "apply_state_changed event iid eid moved s = Inr (r, t)"
  shows "keeps_deliveries s t"
proof -
  from assms obtain s1 where
    "(case (eid, moved) of (Some e, Some _) \<Rightarrow> sync_episode e s | _ \<Rightarrow> Inr s) = Inr s1"
    and rest: "t = s1 \<or> (\<exists>n row. write_alert_row n row s1 = Inr t)"
    by (auto simp: apply_state_changed_def Let_def bindR_Inr split: option.splits if_splits)
  then have "keeps_deliveries s s1" by (auto dest: sync_episode_frame split: option.splits)
  then show ?thesis using rest keeps_deliveries_trans write_alert_row_frame by blast
qed

lemma apply_alert_event_frame:
  "apply_alert_event event s = Inr (r, t) \<Longrightarrow> keeps_deliveries s t"
  by (auto simp: apply_alert_event_def bindR_Inr split: payload.splits
      dest: apply_state_changed_frame sync_episode_frame)

lemma apply_notification_event_frame:
  "apply_notification_event event s = Inr (r, t) \<Longrightarrow> keeps_deliveries s t"
  by (erule apply_notification_event_Inr) (simp_all add: keeps_deliveries_def)

interpretation deployed: consumer_effects consumer_registry
proof
  fix c h env s r t
  assume "consumer_registry c = Some h" and "h env s = Inr (r, t)"
  then show "keeps_deliveries s t"
    by (cases c) (auto simp: consumer_registry_def dest: apply_order_event_frame apply_alert_event_frame
        apply_notification_event_frame)
qed

section \<open>A sample run\<close>

text \<open>A low-stock event is recorded, claimed by a worker and delivered to the notification sink.\<close>

definition demo_config :: execution_config where
  "demo_config = \<lparr>cfg_max_attempts = 8, cfg_lease_seconds = 30, cfg_infrastructure_delay = 1\<rparr>"

definition demo_recorded :: db where
  "demo_recorded = (case append_command_event demo_call Inventory_Low 1 1 ''ingredient'' 5 4
       (InventoryLowPayload 5 9 ''salt'' ''g'' (Finite 1) (Finite 2) (Aware 5)) demo_shortage of
     Inl _ \<Rightarrow> demo_shortage | Inr (_, t) \<Rightarrow> t)"

definition demo_reference :: reference where
  "demo_reference = \<lparr>ref_event_id = Some (py_str_uuid 1), ref_event_type = Some ''inventory.low.v1'',
     ref_schema_version = Some ''1'', ref_correlation_id = Some ''demo''\<rparr>"

definition demo_started :: "(execution_result + attempt_claim) \<times> db" where
  "demo_started = start_attempt consumer_registry demo_config 1 Notification_Sink demo_reference ''w1''
     False 10 demo_recorded"

lemma demo_recorded_run:
  "map evt_event_id (outbox_events demo_recorded) = [1]" by code_simp

lemma demo_started_run:
  "(case demo_started of (Inr claim, t) \<Rightarrow> cl_consumer claim = Notification_Sink | _ \<Rightarrow> False)" by code_simp

lemma demo_effect_run:
  "(case demo_started of (Inr claim, t) \<Rightarrow>
     succeeds_with (run_effect consumer_registry claim 11 12 t) (\<lambda>(r, u). er_outcome r = ''consumer_committed''
       \<and> map rcp_consumer (receipts u) = [Notification_Sink]) | _ \<Rightarrow> False)" by code_simp

definition demo_origin :: delivery_state where
  "demo_origin = \<lparr>ws_db = demo_shortage, ws_claims = [], ws_effects = []\<rparr>"

lemma demo_origin_fresh: "fresh_deployment demo_origin" "retry_policy_ok (cfg_max_attempts demo_config)"
  by (simp_all add: fresh_deployment_def demo_origin_def demo_shortage_def demo_scope_def empty_db_def
      retry_policy_ok_def demo_config_def)

abbreviation demo_step :: "delivery_state \<Rightarrow> delivery_state \<Rightarrow> bool" where
  "demo_step \<equiv> delivery_step consumer_registry demo_config"

lemma demo_recorded_step: "demo_step demo_origin (demo_origin\<lparr>ws_db := demo_recorded\<rparr>)"
proof -
  have "succeeds_with (append_command_event demo_call Inventory_Low 1 1 ''ingredient'' 5 4
      (InventoryLowPayload 5 9 ''salt'' ''g'' (Finite 1) (Finite 2) (Aware 5)) demo_shortage) (\<lambda>_. True)"
    by code_simp
  then obtain e t where a: "append_command_event demo_call Inventory_Low 1 1 ''ingredient'' 5 4
      (InventoryLowPayload 5 9 ''salt'' ''g'' (Finite 1) (Finite 2) (Aware 5)) (ws_db demo_origin) = Inr (e, t)"
    unfolding succeeds_with_iff by (auto simp: demo_origin_def)
  then have "t = demo_recorded" by (simp add: demo_recorded_def demo_origin_def)
  with delivery_step.produce [OF a] show ?thesis by simp
qed

text \<open>The worker's claim, and the state in which it holds it.\<close>

lemma demo_claim_exists:
  obtains claim t where "demo_started = (Inr claim, t)"
    "demo_step\<^sup>*\<^sup>* demo_origin \<lparr>ws_db = t, ws_claims = [claim], ws_effects = []\<rparr>"
    "succeeds_with (run_effect consumer_registry claim 11 12 t) (\<lambda>(r, u). er_outcome r = ''consumer_committed''
       \<and> map rcp_consumer (receipts u) = [Notification_Sink])"
proof -
  obtain x t where x: "demo_started = (x, t)" by force
  have "\<exists>claim. x = Inr claim" using demo_started_run unfolding x by (cases x) simp_all
  then obtain claim where claim: "x = Inr claim" by blast
  have "start_attempt consumer_registry demo_config 1 Notification_Sink demo_reference ''w1'' False 10
      (ws_db (demo_origin\<lparr>ws_db := demo_recorded\<rparr>)) = (Inr claim, t)"
    using x claim by (simp add: demo_started_def)
  from delivery_step.start [OF this]
  have "demo_step (demo_origin\<lparr>ws_db := demo_recorded\<rparr>) \<lparr>ws_db = t, ws_claims = [claim], ws_effects = []\<rparr>"
    by (simp add: demo_origin_def)
  with demo_recorded_step have "demo_step\<^sup>*\<^sup>* demo_origin \<lparr>ws_db = t, ws_claims = [claim], ws_effects = []\<rparr>"
    by (meson converse_rtranclp_into_rtranclp r_into_rtranclp)
  moreover have st: "demo_started = (Inr claim, t)" using x claim by simp
  moreover have "succeeds_with (run_effect consumer_registry claim 11 12 t)
      (\<lambda>(r, u). er_outcome r = ''consumer_committed'' \<and> map rcp_consumer (receipts u) = [Notification_Sink])"
    using demo_effect_run unfolding st prod.case sum.case .
  ultimately show ?thesis using that by blast
qed

section \<open>Properties\<close>

text \<open>
  C2. Exactly-once effects: in every state that any interleaving of producers, relays, workers,
  failures, recoveries and operator replays reaches from an empty outbox, no event's effect was
  committed twice for a consumer, and the effects committed are exactly those of the deliveries
  marked succeeded. Workers that crash, run late or deliver a reference again cannot change that.
\<close>

theorem effects_commit_exactly_once:
  assumes "(delivery_step consumer_registry cfg)\<^sup>*\<^sup>* w v" and "fresh_deployment w"
    and "retry_policy_ok (cfg_max_attempts cfg)"
  shows "distinct (ws_effects v) \<and> set (ws_effects v)
    = delivery_key ` {d \<in> set (deliveries (ws_db v)). dlv_status d = Succeeded}"
  by (rule deployed.effects_exactly_once [OF assms])

theorem effects_commit_exactly_once_witness:
  "\<exists>v. demo_step\<^sup>*\<^sup>* demo_origin v \<and> ws_effects v \<noteq> [] \<and> distinct (ws_effects v)"
proof -
  obtain claim t where run: "demo_step\<^sup>*\<^sup>* demo_origin \<lparr>ws_db = t, ws_claims = [claim], ws_effects = []\<rparr>"
    and eff: "succeeds_with (run_effect consumer_registry claim 11 12 t) (\<lambda>(r, u). er_outcome r = ''consumer_committed''
       \<and> map rcp_consumer (receipts u) = [Notification_Sink])"
    by (rule demo_claim_exists)
  let ?w = "\<lparr>ws_db = t, ws_claims = [claim], ws_effects = []\<rparr>"
  from eff obtain r u where "run_effect consumer_registry claim 11 12 (ws_db ?w) = Inr (r, u)
      \<and> er_outcome r = ''consumer_committed'' \<and> map rcp_consumer (receipts u) = [Notification_Sink]"
    unfolding succeeds_with_iff split_paired_Ex prod.case delivery_state.select_convs by (elim exE)
  then have e: "run_effect consumer_registry claim 11 12 (ws_db ?w) = Inr (r, u)"
    "er_outcome r = ''consumer_committed''" by (simp_all only:)
  let ?v = "?w\<lparr>ws_db := u, ws_effects := [claim_key claim]\<rparr>"
  have "demo_step ?w ?v" using delivery_step.effect [OF _ e(1)] e(2) by simp
  with run have run': "demo_step\<^sup>*\<^sup>* demo_origin ?v" by (rule rtranclp.rtrancl_into_rtrancl)
  show ?thesis
    using run' effects_commit_exactly_once [OF run' demo_origin_fresh] by (intro exI [of _ ?v] conjI) simp_all
qed

text \<open>
  C6. A superseded worker is fenced: once another claim for the same delivery is live, whatever a
  worker does with an older claim, running the effect or recording a failure, is answered with
  \<open>claim_superseded\<close>, is not acknowledged and leaves the database as it was.
\<close>

theorem superseded_workers_are_fenced:
  assumes "(delivery_step consumer_registry cfg)\<^sup>*\<^sup>* w v" and "fresh_deployment w"
    and "retry_policy_ok (cfg_max_attempts cfg)"
    and "late \<in> set (ws_claims v)" "live \<in> set (ws_claims v)" "late \<noteq> live" "claim_key late = claim_key live"
    and "live_claim (ws_db v) live"
  shows "run_effect consumer_registry late now finished (ws_db v) = Inr (superseded, ws_db v)
    \<and> finish_failure cfg late failure jitter now (ws_db v) = Inr (superseded, ws_db v)
    \<and> \<not> er_acknowledge superseded"
proof -
  have "\<not> live_claim (ws_db v) late"
    using deployed.at_most_one_live_claim [OF deployed.reachable_ok(1) [OF assms(1-3)] assms(4,5,7)] assms(6,8)
    by blast
  then show ?thesis
    by (auto simp: run_effect_def finish_failure_def Let_def live_claim_def superseded_def outcome_def
        split: option.splits)
qed

text \<open>The lease of the first worker ends; a second one takes the delivery over.\<close>

lemma demo_takeover:
  "(case demo_started of (Inr claim, t) \<Rightarrow>
     (case start_attempt consumer_registry demo_config 1 Notification_Sink demo_reference ''w2'' False
         40000000 t of (Inr claim2, u) \<Rightarrow> claim \<noteq> claim2 \<and> claim_key claim = claim_key claim2
           \<and> live_claim u claim2 | _ \<Rightarrow> False) | _ \<Rightarrow> False)"
  by code_simp

theorem superseded_workers_are_fenced_witness:
  "\<exists>v late. demo_step\<^sup>*\<^sup>* demo_origin v \<and> late \<in> set (ws_claims v)
     \<and> run_effect consumer_registry late 40000001 40000002 (ws_db v) = Inr (superseded, ws_db v)"
proof -
  obtain claim t where st: "demo_started = (Inr claim, t)"
    and run: "demo_step\<^sup>*\<^sup>* demo_origin \<lparr>ws_db = t, ws_claims = [claim], ws_effects = []\<rparr>"
    by (rule demo_claim_exists)
  let ?w = "\<lparr>ws_db = t, ws_claims = [claim], ws_effects = []\<rparr>"
  obtain x u where x: "start_attempt consumer_registry demo_config 1 Notification_Sink demo_reference ''w2''
    False 40000000 (ws_db ?w) = (x, u)" by force
  have "\<exists>claim2. x = Inr claim2 \<and> claim \<noteq> claim2 \<and> claim_key claim = claim_key claim2 \<and> live_claim u claim2"
    using demo_takeover x unfolding st by (cases x) simp_all
  then obtain claim2 where c2: "x = Inr claim2" "claim \<noteq> claim2" "claim_key claim = claim_key claim2"
    "live_claim u claim2" by blast
  let ?v = "\<lparr>ws_db = u, ws_claims = [claim, claim2], ws_effects = []\<rparr>"
  have "demo_step ?w ?v" using delivery_step.start [OF x] c2(1) by simp
  with run have run': "demo_step\<^sup>*\<^sup>* demo_origin ?v" by (rule rtranclp.rtrancl_into_rtrancl)
  have "run_effect consumer_registry claim 40000001 40000002 (ws_db ?v) = Inr (superseded, ws_db ?v)"
    using superseded_workers_are_fenced [OF run' demo_origin_fresh, of claim claim2] c2 by simp
  with run' show ?thesis by (intro exI [of _ ?v] exI [of _ claim] conjI) simp_all
qed

text \<open>
  C7. A stream reference is acknowledged only for a durable outcome: when \<open>execute\<close> tells the worker
  to acknowledge, the delivery is committed with its receipt, or has terminally failed and stays on
  record for the operator, or the consumer has no subscription to the event. Otherwise the reference
  stays pending in the stream.
\<close>

theorem acknowledged_only_when_durable:
  assumes "(delivery_step consumer_registry cfg)\<^sup>*\<^sup>* w v" and "fresh_deployment w"
    and "retry_policy_ok (cfg_max_attempts cfg)" and "fst ` set unsettled \<subseteq> set (ws_claims v)"
    and "execute consumer_registry cfg event_id c ref worker_id busy jitter t0 t1 t2 unsettled (ws_db v)
      = Inr (Inr r, t)"
    and "er_acknowledge r"
  shows "durable t event_id c"
proof -
  note ok = deployed.reachable_ok(1) [OF assms(1-3)]
  have "\<forall>(claim, failure) \<in> set unsettled. claim_ok (ws_db v) claim"
    using assms(4) state_okD(3) [OF ok] by force
  from deployed.execute_acknowledges_durable [OF state_okD(2) [OF ok] this assms(5,6)] show ?thesis .
qed

lemma demo_execute:
  "succeeds_with (execute consumer_registry demo_config 1 Notification_Sink demo_reference ''w1'' False 0
     10 11 12 [] demo_recorded) (\<lambda>(x, t). case x of Inl _ \<Rightarrow> False | Inr r \<Rightarrow> er_acknowledge r)"
  by code_simp

theorem acknowledged_only_when_durable_witness:
  "\<exists>r t. execute consumer_registry demo_config 1 Notification_Sink demo_reference ''w1'' False 0
     10 11 12 [] demo_recorded = Inr (Inr r, t) \<and> er_acknowledge r \<and> durable t 1 Notification_Sink"
proof -
  obtain x t where xt: "execute consumer_registry demo_config 1 Notification_Sink demo_reference ''w1'' False 0
     10 11 12 [] demo_recorded = Inr (x, t) \<and> (case x of Inl _ \<Rightarrow> False | Inr r \<Rightarrow> er_acknowledge r)"
    using demo_execute unfolding succeeds_with_iff split_paired_Ex prod.case by (elim exE)
  then obtain r where r: "execute consumer_registry demo_config 1 Notification_Sink demo_reference ''w1'' False 0
     10 11 12 [] (ws_db (demo_origin\<lparr>ws_db := demo_recorded\<rparr>)) = Inr (Inr r, t)" "er_acknowledge r"
    by (cases x) simp_all
  show ?thesis
    using r acknowledged_only_when_durable [OF r_into_rtranclp [of demo_step, OF demo_recorded_step]
      demo_origin_fresh _ r] by simp
qed



end
