(* ===== verification/Delivery_Properties.thy ===== *)
theory Delivery_Properties
  imports Consumers
begin

text \<open>
  Further properties of event delivery: the invariant of every reachable state, progress of due
  deliveries, recovery of expired claims, operator replays, and the bounds of all retry delays.
\<close>

section \<open>State invariant\<close>

text \<open>
  C10. The delivery tables are consistent in every reachable state: a delivery has a receipt exactly
  when it succeeded; it is processing exactly when one of its attempts runs, and then only that one,
  under the same claim token; the attempts charged to it never exceed the configured limit; and no
  two attempts share a token.
\<close>

theorem delivery_tables_are_consistent:
  assumes "(delivery_step consumer_registry cfg)\<^sup>*\<^sup>* w v" and "fresh_deployment w"
    and "retry_policy_ok (cfg_max_attempts cfg)" and "d \<in> set (deliveries (ws_db v))"
  shows "(receipt_of (ws_db v) (dlv_event_id d) (dlv_consumer d) \<noteq> None \<longleftrightarrow> dlv_status d = Succeeded)
    \<and> (dlv_status d = Processing \<longleftrightarrow> (\<exists>!a. a \<in> set (attempts (ws_db v)) \<and> is_running_of (dlv_id d) a))
    \<and> (\<forall>a \<in> set (attempts (ws_db v)). is_running_of (dlv_id d) a \<longrightarrow> att_claim_token a = dlv_claim_token d)
    \<and> 0 \<le> dlv_attempt_count d \<and> dlv_attempt_count d \<le> cfg_max_attempts cfg
    \<and> unique_keys att_claim_token (attempts (ws_db v))"
proof -
  let ?s = "ws_db v"
  note inv = state_okD(2) [OF deployed.reachable_ok(1) [OF assms(1-3)]]
  have fresh: "unique_keys att_claim_token (attempts ?s)"
    using delivery_invD(4) [OF inv] by (simp add: attempts_fresh_def)
  have run: "dlv_status d = Processing \<and> att_claim_token a = dlv_claim_token d"
    if a: "a \<in> set (attempts ?s)" "is_running_of (dlv_id d) a" for a
  proof -
    obtain x where x: "x \<in> set (deliveries ?s)" "claimed_by a x"
      using delivery_invD(5) [OF inv] a by (auto simp: running_matches_def is_running_of_def)
    then have "x = d" using unique_keys_eq [OF delivery_invD(2) [OF inv] _ assms(4)] a(2)
      by (auto simp: claimed_by_def is_running_of_def)
    then show ?thesis using x(2) by (simp add: claimed_by_def)
  qed
  have "\<exists>a \<in> set (attempts ?s). is_running_of (dlv_id d) a" if "dlv_status d = Processing"
    using delivery_invD(5) [OF inv] assms(4) that
    by (fastforce simp: running_matches_def is_running_of_def claimed_by_def)
  moreover have "a = b" if "a \<in> set (attempts ?s)" "is_running_of (dlv_id d) a"
    "b \<in> set (attempts ?s)" "is_running_of (dlv_id d) b" for a b
    using unique_keys_eq [OF fresh that(1,3)] run that by metis
  ultimately have "dlv_status d = Processing \<longleftrightarrow> (\<exists>!a. a \<in> set (attempts ?s) \<and> is_running_of (dlv_id d) a)"
    using run by metis
  then show ?thesis
    using receipt_iff_succeeded [OF inv assms(4)] run fresh delivery_invD(3) [OF inv assms(4)]
    by (simp add: row_ok_def)
qed

theorem delivery_tables_are_consistent_witness:
  "\<exists>claim t d. demo_started = (Inr claim, t) \<and> d \<in> set (deliveries t) \<and> dlv_status d = Processing
     \<and> (\<exists>!a. a \<in> set (attempts t) \<and> is_running_of (dlv_id d) a)"
proof -
  obtain claim t where st: "demo_started = (Inr claim, t)"
    and run: "demo_step\<^sup>*\<^sup>* demo_origin \<lparr>ws_db = t, ws_claims = [claim], ws_effects = []\<rparr>"
    by (rule demo_claim_exists)
  have "exists_row (\<lambda>d. dlv_status d = Processing) (deliveries (snd demo_started))" by code_simp
  then obtain d where d: "d \<in> set (deliveries t)" "dlv_status d = Processing"
    unfolding st by (auto simp: exists_row_iff)
  have "\<exists>!a. a \<in> set (attempts t) \<and> is_running_of (dlv_id d) a"
    using delivery_tables_are_consistent [OF run demo_origin_fresh, of d] d by simp
  then show ?thesis using st d by blast
qed

section \<open>Progress\<close>

lemma effect_outcomes:
  assumes "consumer_registry c = Some h" and "h env s = Inr (r, t)"
  shows "r \<in> set [''processed'', ''skipped'']"
proof (cases c)
  case Analytics
  then show ?thesis using assms by (auto simp: consumer_registry_def elim!: apply_order_event_Inr)
next
  case Alerts
  then show ?thesis using assms
    by (auto simp: consumer_registry_def apply_alert_event_def apply_state_changed_def Let_def bindR_Inr
        split: payload.splits option.splits if_splits)
next
  case Notification_Sink
  then have "apply_notification_event env s = Inr (r, t)" using assms by (simp add: consumer_registry_def)
  then show ?thesis
    by (auto simp: apply_notification_event_def apply_low_stock_def res_simps Let_def split: if_splits)
qed

text \<open>
  C8. Due work is done: in every reachable state a pending delivery that is due and has attempts left
  has its event in the outbox; the reference the relay publishes for it is accepted, and if the
  consumer's effect succeeds and finishes within the lease, one call of \<open>execute\<close> commits it, marks
  the delivery succeeded and acknowledges.
\<close>

theorem due_delivery_is_processed:
  assumes "(delivery_step consumer_registry cfg)\<^sup>*\<^sup>* w v" and "fresh_deployment w"
    and "retry_policy_ok (cfg_max_attempts cfg)" and "d \<in> set (deliveries (ws_db v))"
    and "dlv_status d = Pending" "dlv_next_attempt_at d \<le> t0" "dlv_attempt_count d < cfg_max_attempts cfg"
    and "t1 < t0 + cfg_lease_seconds cfg * 1000000"
    and "\<forall>event env h. outbox_event_by_id (ws_db v) (dlv_event_id d) = Some event
      \<longrightarrow> deserialize_event (evt_facts event) = Inr env \<longrightarrow> consumer_registry (dlv_consumer d) = Some h
      \<longrightarrow> (\<exists>r s2. h env (started_state cfg worker_id t0 d (ws_db v)) = Inr (r, s2))"
  shows "\<exists>event. outbox_event_by_id (ws_db v) (dlv_event_id d) = Some event
    \<and> (\<exists>r t. execute consumer_registry cfg (dlv_event_id d) (dlv_consumer d)
          (publish_reference (relay_claim_of owner token d event)) worker_id False jitter t0 t1 t2 [] (ws_db v)
          = Inr (Inr r, t) \<and> er_acknowledge r \<and> er_outcome r = ''consumer_committed''
        \<and> (\<exists>d1 \<in> set (deliveries t). identity d1 = identity d \<and> dlv_status d1 = Succeeded))"
proof -
  note ok = deployed.reachable_ok [OF assms(1-3)]
  note inv = state_okD(2) [OF ok(1)]
  have "dlv_event_id d \<in> evt_event_id ` set (outbox_events (ws_db v))"
    using delivery_invD(1) [OF inv] assms(4) by (simp add: outbox_inv_def)
  then have "outbox_event_by_id (ws_db v) (dlv_event_id d) \<noteq> None"
    by (simp add: outbox_event_by_id_def by_key_None)
  then obtain event where event: "outbox_event_by_id (ws_db v) (dlv_event_id d) = Some event" by blast
  note ev = by_key_Some [OF event [unfolded outbox_event_by_id_def]]
  obtain env where env: "deserialize_event (evt_facts event) = Inr env"
    using ok(2) ev by (auto simp: events_decode_def)
  obtain h where h: "consumer_registry (dlv_consumer d) = Some h"
    by (cases "dlv_consumer d") (simp_all add: consumer_registry_def)
  then obtain r s2 where r: "h env (started_state cfg worker_id t0 d (ws_db v)) = Inr (r, s2)"
    using assms(9) event env by blast
  from deployed.due_delivery_succeeds [OF inv assms(4-7) event env publish_reference_matches assms(8) h r
      effect_outcomes [OF h r]] event
  show ?thesis by blast
qed

text \<open>The delivery of the sample run, due for the notification sink.\<close>

definition demo_due :: delivery where
  "demo_due = (case lock_delivery demo_recorded 1 Notification_Sink of Some d \<Rightarrow> d | None \<Rightarrow> undefined)"

lemma demo_due_facts:
  "lock_delivery demo_recorded 1 Notification_Sink = Some demo_due"
  "dlv_status demo_due = Pending" "dlv_next_attempt_at demo_due \<le> 10" "dlv_attempt_count demo_due = 0"
  "dlv_event_id demo_due = 1" "dlv_consumer demo_due = Notification_Sink"
proof -
  have "case lock_delivery demo_recorded 1 Notification_Sink of None \<Rightarrow> False | Some d \<Rightarrow>
    dlv_status d = Pending \<and> dlv_next_attempt_at d \<le> 10 \<and> dlv_attempt_count d = 0" by code_simp
  then obtain d where d: "lock_delivery demo_recorded 1 Notification_Sink = Some d"
    "dlv_status d = Pending" "dlv_next_attempt_at d \<le> 10" "dlv_attempt_count d = 0"
    by (auto split: option.splits)
  then have "demo_due = d" by (simp add: demo_due_def)
  with d lock_delivery_Some [OF d(1)] show
    "lock_delivery demo_recorded 1 Notification_Sink = Some demo_due"
    "dlv_status demo_due = Pending" "dlv_next_attempt_at demo_due \<le> 10" "dlv_attempt_count demo_due = 0"
    "dlv_event_id demo_due = 1" "dlv_consumer demo_due = Notification_Sink" by simp_all
qed
lemma demo_due_effect:
  "case outbox_event_by_id demo_recorded 1 of None \<Rightarrow> False | Some event \<Rightarrow>
     succeeds_with (deserialize_event (evt_facts event)) (\<lambda>env.
       succeeds_with (apply_notification_event env (started_state demo_config ''w1'' 10 demo_due demo_recorded))
         (\<lambda>_. True))"
  by code_simp

theorem due_delivery_is_processed_witness:
  "\<exists>event r t. outbox_event_by_id demo_recorded 1 = Some event
     \<and> execute consumer_registry demo_config 1 Notification_Sink
         (publish_reference (relay_claim_of ''w1'' 3 demo_due event)) ''w1'' False 0 10 11 12 [] demo_recorded
       = Inr (Inr r, t) \<and> er_outcome r = ''consumer_committed''"
proof -
  let ?v = "demo_origin\<lparr>ws_db := demo_recorded\<rparr>"
  have run: "demo_step\<^sup>*\<^sup>* demo_origin ?v" by (rule r_into_rtranclp [of demo_step, OF demo_recorded_step])
  have d: "demo_due \<in> set (deliveries (ws_db ?v))" using lock_delivery_Some [OF demo_due_facts(1)] by simp
  have effect: "\<exists>r s2. h env (started_state demo_config ''w1'' 10 demo_due (ws_db ?v)) = Inr (r, s2)"
    if "outbox_event_by_id (ws_db ?v) (dlv_event_id demo_due) = Some event"
      "deserialize_event (evt_facts event) = Inr env" "consumer_registry (dlv_consumer demo_due) = Some h"
    for event env h
    using demo_due_effect that
    by (simp add: demo_due_facts(5,6) consumer_registry_def succeeds_with_iff)
  have "\<exists>event. outbox_event_by_id (ws_db ?v) (dlv_event_id demo_due) = Some event
    \<and> (\<exists>r t. execute consumer_registry demo_config (dlv_event_id demo_due) (dlv_consumer demo_due)
          (publish_reference (relay_claim_of ''w1'' 3 demo_due event)) ''w1'' False 0 10 11 12 [] (ws_db ?v)
          = Inr (Inr r, t) \<and> er_acknowledge r \<and> er_outcome r = ''consumer_committed''
        \<and> (\<exists>d1 \<in> set (deliveries t). identity d1 = identity demo_due \<and> dlv_status d1 = Succeeded))"
    by (rule due_delivery_is_processed [OF run demo_origin_fresh d demo_due_facts(2,3)])
      (use effect in \<open>auto simp: demo_due_facts(4) demo_config_def\<close>)
  moreover have "ws_db ?v = demo_recorded" by simp
  ultimately show ?thesis by (simp only: demo_due_facts(5,6)) blast
qed

section \<open>Recovery\<close>

definition lapsed :: "instant \<Rightarrow> delivery \<Rightarrow> bool" where
  "lapsed now d = (dlv_status d = Processing
     \<and> (case dlv_claim_expires_at d of None \<Rightarrow> False | Some e \<Rightarrow> e \<le> now))"

definition recovered_row :: "execution_config \<Rightarrow> instant \<Rightarrow> delivery \<Rightarrow> delivery" where
  "recovered_row cfg now d = clear_claim (d\<lparr>
     dlv_status := (if dlv_attempt_count d \<ge> cfg_max_attempts cfg then Failed else Pending),
     dlv_last_error_category := Some ''worker_interrupted'', dlv_next_attempt_at := now,
     dlv_published_at := None\<rparr>)"

text \<open>Storing one row after the other changes exactly the rows of the list.\<close>

lemma fold_stored_rows:
  assumes "\<And>d s. deliveries (g d s) = store_row dlv_id (f d) (deliveries s)" and "\<And>d. dlv_id (f d) = dlv_id d"
    and "unique_keys dlv_id (deliveries s)" and "set ds \<subseteq> set (deliveries s)" and "distinct (map dlv_id ds)"
  shows "deliveries (fold g ds s) = map (\<lambda>x. if x \<in> set ds then f x else x) (deliveries s)"
  using assms(3-5)
proof (induction ds arbitrary: s)
  case (Cons d ds)
  have rows: "deliveries (g d s) = store_row dlv_id (f d) (deliveries s)" by (rule assms(1))
  have d: "d \<in> set (deliveries s)" using Cons.prems(2) by simp
  have in_ds: "x \<in> set ds \<Longrightarrow> x \<in> set (deliveries (g d s))" for x
    unfolding rows using distinct_map_other [OF Cons.prems(3)] Cons.prems(2) assms(2)
    by (auto intro!: store_row_other)
  have "deliveries (fold g ds (g d s)) = map (\<lambda>x. if x \<in> set ds then f x else x) (deliveries (g d s))"
    by (rule Cons.IH) (use Cons.prems in_ds in \<open>auto simp: rows assms(2)\<close>)
  also have "\<dots> = map (\<lambda>x. if x \<in> set (d # ds) then f x else x) (deliveries s)"
  proof -
    have "f d \<notin> set ds" using distinct_map_other [OF Cons.prems(3), of "f d"] assms(2) by auto
    moreover have "x \<in> set (deliveries s) \<Longrightarrow> dlv_id x = dlv_id d \<longleftrightarrow> x = d" for x
      using unique_keys_eq [OF Cons.prems(1) _ d] by auto
    ultimately show ?thesis by (auto simp: rows store_row_def update_where_def assms(2))
  qed
  finally show ?case by simp
qed simp

lemma fold_recover_deliveries:
  assumes "unique_keys dlv_id (deliveries s)" and "set ds \<subseteq> set (deliveries s)" and "distinct (map dlv_id ds)"
  shows "deliveries (fold (recover_delivery cfg now) ds s)
    = map (\<lambda>x. if x \<in> set ds then recovered_row cfg now x else x) (deliveries s)"
  by (rule fold_stored_rows [OF _ _ assms]) (simp_all add: recover_delivery_def recovered_row_def)

lemma expired_all:
  assumes "\<And>i. \<not> locked i" and "length (filter (lapsed now) (deliveries s)) \<le> n"
  shows "set (expired_deliveries locked n now s) = {d \<in> set (deliveries s). lapsed now d}"
    and "length (expired_deliveries locked n now s) = length (filter (lapsed now) (deliveries s))"
proof -
  let ?key = "\<lambda>d. case dlv_claim_expires_at d of None \<Rightarrow> 0 | Some e \<Rightarrow> e"
  have "filter (\<lambda>d. dlv_status d = Processing
      \<and> (case dlv_claim_expires_at d of None \<Rightarrow> False | Some e \<Rightarrow> e \<le> now) \<and> \<not> locked (dlv_id d)) (deliveries s)
      = filter (lapsed now) (deliveries s)"
    using assms(1) by (intro filter_cong) (auto simp: lapsed_def)
  then have "expired_deliveries locked n now s = sort_key ?key (filter (lapsed now) (deliveries s))"
    using assms(2) by (simp add: expired_deliveries_def)
  then show "set (expired_deliveries locked n now s) = {d \<in> set (deliveries s). lapsed now d}"
    and "length (expired_deliveries locked n now s) = length (filter (lapsed now) (deliveries s))"
    by auto
qed

text \<open>
  C9. Expired claims are recovered: a recovery scan that holds every lock it needs and whose batch is
  large enough leaves no processing delivery with an expired lease, closes the attempts of the dead
  workers, and turns each such delivery into one that is due at once and unpublished, so that the
  relay publishes it again, or into a failed one when its attempts are used up. Other deliveries stay
  as they were.
\<close>

theorem expired_claims_are_recovered:
  assumes "(delivery_step consumer_registry cfg)\<^sup>*\<^sup>* w v" and "fresh_deployment w"
    and "retry_policy_ok (cfg_max_attempts cfg)"
    and "recover_expired cfg (\<lambda>_. False) n now (ws_db v) = (k, t)"
    and "length (filter (lapsed now) (deliveries (ws_db v))) \<le> n"
  shows "k = int (length (filter (lapsed now) (deliveries (ws_db v))))
    \<and> deliveries t = map (\<lambda>d. if lapsed now d then recovered_row cfg now d else d) (deliveries (ws_db v))
    \<and> (\<forall>d \<in> set (deliveries t). \<not> lapsed now d)
    \<and> (\<forall>d \<in> set (deliveries t). \<forall>a \<in> set (attempts t). is_running_of (dlv_id d) a \<longrightarrow> dlv_status d = Processing)"
proof -
  let ?s = "ws_db v"
  let ?ds = "expired_deliveries (\<lambda>_. False) n now ?s"
  note inv = state_okD(2) [OF deployed.reachable_ok(1) [OF assms(1-3)]]
  have sel: "set ?ds = {d \<in> set (deliveries ?s). lapsed now d}" "int (length ?ds) = k"
    using expired_all [of "\<lambda>_. False" now ?s n] assms(4,5) by (auto simp: recover_expired_def Let_def)
  have "distinct (map dlv_id ?ds)"
    unfolding expired_deliveries_def by (rule selected_rows(1) [OF delivery_invD(2) [OF inv]])
  from fold_recover_deliveries [OF delivery_invD(2) [OF inv] _ this] sel(1)
  have rows: "deliveries t = map (\<lambda>d. if lapsed now d then recovered_row cfg now d else d) (deliveries ?s)"
    using assms(4) by (auto simp: recover_expired_def Let_def)
  have "\<not> lapsed now (recovered_row cfg now d)" for d by (simp add: lapsed_def recovered_row_def)
  then have none: "\<forall>d \<in> set (deliveries t). \<not> lapsed now d" using rows by auto
  have inv': "delivery_inv (cfg_max_attempts cfg) t"
    by (rule advancesD [OF recover_expired_keeps [OF inv assms(4)]])
  have run: "\<forall>d \<in> set (deliveries t). \<forall>a \<in> set (attempts t). is_running_of (dlv_id d) a \<longrightarrow> dlv_status d = Processing"
    using no_running_attempt [OF inv'] by (auto simp: is_running_of_def)
  have "k = int (length (filter (lapsed now) (deliveries ?s)))"
    using sel(2) expired_all(2) [of "\<lambda>_. False" now ?s n] assms(5) by simp
  then show ?thesis by (intro conjI rows none run)
qed

theorem expired_claims_are_recovered_witness:
  "\<exists>claim t u. demo_started = (Inr claim, t)
     \<and> recover_expired demo_config (\<lambda>_. False) 10 40000000 t = (1, u)
     \<and> (\<forall>d \<in> set (deliveries u). \<not> lapsed 40000000 d)"
proof -
  obtain claim t where st: "demo_started = (Inr claim, t)"
    and run: "demo_step\<^sup>*\<^sup>* demo_origin \<lparr>ws_db = t, ws_claims = [claim], ws_effects = []\<rparr>"
    by (rule demo_claim_exists)
  have "length (filter (lapsed 40000000) (deliveries (snd demo_started))) = 1" by code_simp
  then have one: "length (filter (lapsed 40000000) (deliveries t)) = 1" unfolding st by simp
  obtain k u where k: "recover_expired demo_config (\<lambda>_. False) 10 40000000
      (ws_db \<lparr>ws_db = t, ws_claims = [claim], ws_effects = []\<rparr>) = (k, u)" by force
  have few: "length (filter (lapsed 40000000)
      (deliveries (ws_db \<lparr>ws_db = t, ws_claims = [claim], ws_effects = []\<rparr>))) \<le> 10"
    using one by simp
  note recovered = expired_claims_are_recovered [OF run demo_origin_fresh k few]
  have "k = 1" using conjunct1 [OF recovered] one by simp
  with conjunct1 [OF conjunct2 [OF conjunct2 [OF recovered]]]
  have "k = 1 \<and> (\<forall>d \<in> set (deliveries u). \<not> lapsed 40000000 d)" by (intro conjI)
  moreover have "recover_expired demo_config (\<lambda>_. False) 10 40000000 t = (k, u)" using k by simp
  ultimately show ?thesis using st by blast
qed

section \<open>Replay\<close>

text \<open>
  C11. A replay reopens exactly the failed deliveries: the operator's replay succeeds precisely for a
  failed delivery without a receipt and a well-formed reason. It starts a fresh retry cycle with the
  full allowance of attempts, due at once and unpublished, records who asked and why, and keeps the
  history of attempts; no other delivery changes and no receipt is removed, so that an effect that
  was committed cannot be repeated by it.
\<close>

theorem replay_reopens_failed_deliveries:
  assumes "(delivery_step consumer_registry cfg)\<^sup>*\<^sup>* w v" and "fresh_deployment w"
    and "retry_policy_ok (cfg_max_attempts cfg)" and "d \<in> set (deliveries (ws_db v))"
  shows "((\<exists>rid t. replay_delivery operator_name (dlv_id d) reason now (ws_db v) = Inr (rid, t))
      \<longleftrightarrow> dlv_status d = Failed \<and> replay_reason_ok reason)
    \<and> (\<forall>rid t. replay_delivery operator_name (dlv_id d) reason now (ws_db v) = Inr (rid, t) \<longrightarrow>
      (\<exists>d1. deliveries t = map (\<lambda>x. if x = d then d1 else x) (deliveries (ws_db v)) \<and> identity d1 = identity d
        \<and> dlv_status d1 = Pending \<and> dlv_attempt_count d1 = 0 \<and> dlv_retry_cycle d1 = dlv_retry_cycle d + 1
        \<and> dlv_next_attempt_at d1 = now \<and> dlv_published_at d1 = None \<and> dlv_claim_token d1 = None)
      \<and> attempts t = attempts (ws_db v) \<and> receipts t = receipts (ws_db v)
      \<and> (\<exists>r. replays t = replays (ws_db v) @ [r] \<and> rpl_id r = rid \<and> rpl_operator r = operator_name
          \<and> rpl_reason r = py_strip reason \<and> rpl_delivery_id r = dlv_id d))"
proof -
  let ?s = "ws_db v"
  note ok = deployed.reachable_ok(1) [OF assms(1-3)]
  note inv = state_okD(2) [OF ok]
  note u = delivery_invD(2) [OF inv]
  have find: "by_key dlv_id (dlv_id d) (deliveries ?s) = Some d" by (rule by_key_member [OF u assms(4)])
  have "dlv_event_id d \<in> evt_event_id ` set (outbox_events ?s)"
    using delivery_invD(1) [OF inv] assms(4) by (simp add: outbox_inv_def)
  then obtain e where e: "outbox_event_by_id ?s (dlv_event_id d) = Some e"
    using by_key_None [of evt_event_id "dlv_event_id d" "outbox_events ?s"]
    by (auto simp: outbox_event_by_id_def)
  have rc: "receipt_of ?s (dlv_event_id d) (dlv_consumer d) \<noteq> None \<longleftrightarrow> dlv_status d = Succeeded"
    by (rule receipt_iff_succeeded [OF inv assms(4)])
  have "(\<exists>rid t. replay_delivery operator_name (dlv_id d) reason now ?s = Inr (rid, t))
      \<longleftrightarrow> dlv_status d = Failed \<and> replay_reason_ok reason"
    using rc by (auto simp: replay_delivery_def find e res_simps Let_def)
  moreover have "(\<exists>d1. deliveries t = map (\<lambda>x. if x = d then d1 else x) (deliveries ?s) \<and> identity d1 = identity d
        \<and> dlv_status d1 = Pending \<and> dlv_attempt_count d1 = 0 \<and> dlv_retry_cycle d1 = dlv_retry_cycle d + 1
        \<and> dlv_next_attempt_at d1 = now \<and> dlv_published_at d1 = None \<and> dlv_claim_token d1 = None)
      \<and> attempts t = attempts ?s \<and> receipts t = receipts ?s
      \<and> (\<exists>r. replays t = replays ?s @ [r] \<and> rpl_id r = rid \<and> rpl_operator r = operator_name
          \<and> rpl_reason r = py_strip reason \<and> rpl_delivery_id r = dlv_id d)"
    if rp: "replay_delivery operator_name (dlv_id d) reason now ?s = Inr (rid, t)" for rid t
  proof -
    let ?d = "clear_claim (d\<lparr>dlv_retry_cycle := dlv_retry_cycle d + 1, dlv_attempt_count := 0,
              dlv_status := Pending, dlv_next_attempt_at := now, dlv_published_at := None,
              dlv_last_error_category := None\<rparr>)"
    from replay_delivery_Inr [OF rp] find obtain r where
      t: "t = save_delivery ?d (?s\<lparr>replays := replays ?s @ [r], next_uuid := next_uuid ?s + 1\<rparr>)"
      and r: "rpl_id r = rid" "rpl_operator r = operator_name" "rpl_reason r = py_strip reason"
        "rpl_delivery_id r = dlv_id d"
      by fastforce
    have "dlv_id x = dlv_id d \<longleftrightarrow> x = d" if "x \<in> set (deliveries ?s)" for x
      using unique_keys_eq [OF u that assms(4)] by blast
    then have "deliveries t = map (\<lambda>x. if x = d then ?d else x) (deliveries ?s)"
      by (simp add: t store_row_def update_where_def)
    moreover have "dlv_published_at ?d = None" by (simp add: clear_claim_def)
    ultimately have "\<exists>d1. deliveries t = map (\<lambda>x. if x = d then d1 else x) (deliveries ?s) \<and> identity d1 = identity d
        \<and> dlv_status d1 = Pending \<and> dlv_attempt_count d1 = 0 \<and> dlv_retry_cycle d1 = dlv_retry_cycle d + 1
        \<and> dlv_next_attempt_at d1 = now \<and> dlv_published_at d1 = None \<and> dlv_claim_token d1 = None"
      by (intro exI [of _ ?d] conjI) (simp_all add: identity_def)
    moreover have "replays t = replays ?s @ [r]" "attempts t = attempts ?s" "receipts t = receipts ?s"
      by (simp_all add: t)
    ultimately show ?thesis using r by blast
  qed
  ultimately show ?thesis by blast
qed

text \<open>The worker's attempt fails for good; the operator then replays the delivery.\<close>

abbreviation demo_violation :: failure_cause where
  "demo_violation \<equiv> DBAPI_Error True False (Some ''23505'')"

definition demo_replay :: "(uuid \<times> db) result" where
  "demo_replay = (case demo_started of (Inr claim, t) \<Rightarrow>
       bindR (finish_failure demo_config claim (classify_failure demo_violation) 0 12 t) (\<lambda>(_, u).
       case lock_delivery u 1 Notification_Sink of None \<Rightarrow> Inl (ValueError [])
       | Some d \<Rightarrow> replay_delivery ''op'' (dlv_id d) ''fixed'' 50 u)
     | _ \<Rightarrow> Inl (ValueError []))"

lemma demo_replay_run: "succeeds_with demo_replay (\<lambda>_. True)" by code_simp

theorem replay_reopens_failed_deliveries_witness:
  "\<exists>v d t. demo_step\<^sup>*\<^sup>* demo_origin v \<and> d \<in> set (deliveries (ws_db v)) \<and> dlv_status d = Failed
     \<and> replay_delivery ''op'' (dlv_id d) ''fixed'' 50 (ws_db v) = Inr t
     \<and> attempts (snd t) = attempts (ws_db v)"
proof -
  obtain claim t where st: "demo_started = (Inr claim, t)"
    and run: "demo_step\<^sup>*\<^sup>* demo_origin \<lparr>ws_db = t, ws_claims = [claim], ws_effects = []\<rparr>"
    by (rule demo_claim_exists)
  let ?w = "\<lparr>ws_db = t, ws_claims = [claim], ws_effects = []\<rparr>"
  obtain r u d rid x where
    f: "finish_failure demo_config claim (classify_failure demo_violation) 0 12 t = Inr (r, u)"
    and d: "lock_delivery u 1 Notification_Sink = Some d"
    and rp: "replay_delivery ''op'' (dlv_id d) ''fixed'' 50 u = Inr (rid, x)"
    using demo_replay_run unfolding demo_replay_def st prod.case sum.case succeeds_with_iff
    by (auto simp: bindR_Inr split: option.splits)
  let ?v = "?w\<lparr>ws_db := u\<rparr>"
  have "demo_step ?w ?v" using delivery_step.fail [of claim ?w demo_config demo_violation 0 12 r u] f by simp
  with run have run': "demo_step\<^sup>*\<^sup>* demo_origin ?v" by (rule rtranclp.rtrancl_into_rtrancl)
  have m: "d \<in> set (deliveries (ws_db ?v))" using lock_delivery_Some [OF d] by simp
  have rp': "replay_delivery ''op'' (dlv_id d) ''fixed'' 50 (ws_db ?v) = Inr (rid, x)" using rp by simp
  note reopened = replay_reopens_failed_deliveries [OF run' demo_origin_fresh m, of "''op''" "''fixed''" 50]
  have "dlv_status d = Failed" using iffD1 [OF conjunct1 [OF reopened]] rp' by blast
  moreover have "attempts x = attempts (ws_db ?v)" using conjunct2 [OF reopened] rp' by blast
  ultimately show ?thesis using run' m rp' by (intro exI [of _ ?v] exI [of _ d] exI [of _ "(rid, x)"] conjI) simp_all
qed

section \<open>Retry delays\<close>

lemma next_backoff_range:
  "bo_initial_ms b \<le> bo_max_ms b \<Longrightarrow> bo_initial_ms b \<le> next_backoff b d \<and> next_backoff b d \<le> bo_max_ms b"
  by (auto simp: next_backoff_def)

lemma backoff_iterates:
  assumes "0 < bo_initial_ms b" and "bo_initial_ms b \<le> bo_max_ms b"
  shows "((next_backoff b) ^^ n) (bo_initial_ms b) = min (bo_max_ms b) (bo_initial_ms b * 2 ^ n)"
proof (induction n)
  case (Suc n)
  have "bo_initial_ms b \<le> bo_initial_ms b * 2 ^ n * 2"
    using assms(1) mult_left_mono [of 1 "2 ^ Suc n" "bo_initial_ms b", OF one_le_power]
    by (simp add: mult.assoc mult.commute)
  then show ?case using Suc assms by (auto simp: next_backoff_def min_def max_def)
qed (use assms in simp)

text \<open>
  C19. All waiting is bounded: the delay before a failed delivery is tried again lies between one and
  sixty seconds, never shrinks below the doubling schedule and never exceeds it by more than a tenth;
  the pause of the worker loops doubles from the initial to the maximal setting and stays there; and a
  busy delivery is revisited after at most a quarter of a second.
\<close>

theorem retry_delays_are_bounded:
  assumes "1 \<le> n" and "0 \<le> jitter" and "jitter \<le> 1"
    and "0 < bo_initial_ms b" and "bo_initial_ms b \<le> bo_max_ms b"
  shows "(\<exists>q. delay_seconds n jitter = Inr q \<and> 1 \<le> q \<and> q \<le> 60
      \<and> of_int (min 60 (2 ^ nat (min (n - 1) 6))) \<le> q \<and> q \<le> of_int (min 60 (2 ^ nat (min (n - 1) 6))) * (11 / 10))
    \<and> reference_retry_delay b n = min (bo_max_ms b) (bo_initial_ms b * 2 ^ nat (min (n - 1) 16))
    \<and> 50 \<le> busy_retry_delay n \<and> busy_retry_delay n \<le> 250"
proof -
  let ?e = "nat (min (n - 1) 6)" and ?base = "min 60 (2 ^ nat (min (n - 1) 6)) :: dec"
  have base: "1 \<le> ?base" "?base \<le> 60" by simp_all
  have up: "?base * (1 + jitter / 10) \<le> ?base * (11 / 10)" and low: "?base \<le> ?base * (1 + jitter / 10)"
    using mult_left_mono [of "1 + jitter / 10" "11 / 10" ?base] mult_left_mono [of 1 "1 + jitter / 10" ?base]
      base assms(2,3) by simp_all
  let ?q = "min 60 (?base * (1 + jitter / 10))"
  have q: "delay_seconds n jitter = Inr ?q"
    using assms(1-3) by (simp add: delay_seconds_def raise_if_def Let_def)
  have cast: "of_int (min 60 (2 ^ ?e)) = ?base" by (simp add: of_int_min)
  have one: "1 \<le> ?q" using order_trans [OF base(1) low] by (intro min.boundedI) simp_all
  have lower: "?base \<le> ?q" by (rule min.boundedI [OF base(2) low])
  have upper: "?q \<le> ?base * (11 / 10)" by (rule order_trans [OF min.cobounded2 up])
  have "\<exists>q. delay_seconds n jitter = Inr q \<and> 1 \<le> q \<and> q \<le> 60
      \<and> of_int (min 60 (2 ^ ?e)) \<le> q \<and> q \<le> of_int (min 60 (2 ^ ?e)) * (11 / 10)"
    unfolding cast by (intro exI [of _ ?q] conjI q one lower upper min.cobounded1)
  moreover have "reference_retry_delay b n = min (bo_max_ms b) (bo_initial_ms b * 2 ^ nat (min (n - 1) 16))"
    using backoff_iterates [OF assms(4,5)] assms(1) by (simp add: reference_retry_delay_def)
  moreover have "50 \<le> busy_retry_delay n \<and> busy_retry_delay n \<le> 250"
    using one_le_power [of "2 :: int" "nat (min (n - 1) 3)"] by (simp add: busy_retry_delay_def)
  ultimately show ?thesis by (intro conjI) simp_all
qed

theorem retry_delays_are_bounded_witness:
  "\<exists>q. delay_seconds 3 (1 / 2) = Inr q \<and> 1 \<le> q \<and> q \<le> 60"
proof -
  note bounds = retry_delays_are_bounded [of 3 "1 / 2" "\<lparr>bo_initial_ms = 100, bo_max_ms = 5000\<rparr>"]
  obtain q where q: "delay_seconds 3 (1 / 2) = Inr q" "1 \<le> q" "q \<le> 60"
    using conjunct1 [OF bounds] by auto
  then show ?thesis by (intro exI [of _ q] conjI)
qed

end
