(* ===== verification/Catalog.thy ===== *)
theory Catalog
  imports Recipes
begin

text \<open>
  The catalog service (\<open>catalog/service.py\<close>, \<open>catalog/domain/policies.py\<close>,
  \<open>catalog/repo/queries.py\<close>): menus and menu items, their scoped reads, the guarded deletions and the
  change events. The write operations are the transactions; the cache reads and invalidations around
  them are in the theory \<open>Menu_Cache\<close>.
\<close>

section \<open>Commands and policies\<close>

record create_menu_command =
  cm_name :: string
  cm_description :: "string option"

record update_menu_command =
  um_name :: "string option"
  um_description :: "string option"

record create_item_command =
  ci_name :: string
  ci_description :: "string option"
  ci_price :: decimal
  ci_is_available :: bool

record update_item_command =
  ui_name :: "string option"
  ui_description :: "string option"
  ui_price :: "decimal option"
  ui_is_available :: "bool option"

datatype delete_item_outcome = Item_Deleted | Item_Deactivated

definition max_menu_price :: dec where
  "max_menu_price = 9999999999 / 100"

definition validate_menu_price :: "decimal \<Rightarrow> dec result" where
  "validate_menu_price price =
     (if \<not> is_finite_decimal price
         \<or> \<not> (0 \<le> decimal_value price \<and> decimal_value price \<le> max_menu_price)
         \<or> \<not> has_places 2 (decimal_value price)
      then Inl (ValidationError ''Price must be between 0 and 99999999.99 with at most two decimal places'')
      else Inr (decimal_value price))"

section \<open>Repository\<close>

definition get_menu_by_id :: "db \<Rightarrow> access_context \<Rightarrow> int \<Rightarrow> menu option" where
  "get_menu_by_id s scope menu_id =
     select_one (\<lambda>m. mnu_id m = menu_id \<and> restaurant_exists s scope (mnu_restaurant_id m)) (menus s)"

text \<open>The queries below have no \<open>ORDER BY\<close>; the model lists rows in insertion order.\<close>

definition list_menus_for_restaurant :: "db \<Rightarrow> access_context \<Rightarrow> int \<Rightarrow> menu list" where
  "list_menus_for_restaurant s scope restaurant_id =
     filter (\<lambda>m. mnu_restaurant_id m = restaurant_id \<and> restaurant_exists s scope restaurant_id) (menus s)"

definition item_in_scope :: "db \<Rightarrow> access_context \<Rightarrow> menu_item \<Rightarrow> bool" where
  "item_in_scope s scope i = (case menu_of s i of None \<Rightarrow> False
     | Some m \<Rightarrow> restaurant_exists s scope (mnu_restaurant_id m))"

definition get_menu_item_by_id :: "db \<Rightarrow> access_context \<Rightarrow> int \<Rightarrow> menu_item option" where
  "get_menu_item_by_id s scope menu_item_id =
     select_one (\<lambda>i. mi_id i = menu_item_id \<and> item_in_scope s scope i) (menu_items s)"

definition list_menu_items_for_menu :: "db \<Rightarrow> access_context \<Rightarrow> int \<Rightarrow> menu_item list" where
  "list_menu_items_for_menu s scope menu_id =
     filter (\<lambda>i. mi_menu_id i = menu_id \<and> item_in_scope s scope i) (menu_items s)"

definition menu_has_items :: "db \<Rightarrow> access_context \<Rightarrow> int \<Rightarrow> bool" where
  "menu_has_items s scope menu_id = (list_menu_items_for_menu s scope menu_id \<noteq> [])"

definition menu_item_has_order_history :: "db \<Rightarrow> access_context \<Rightarrow> int \<Rightarrow> bool" where
  "menu_item_has_order_history s scope menu_item_id =
     exists_row (\<lambda>l. oi_menu_item_id l = Some menu_item_id
       \<and> exists_row (\<lambda>d. ord_id d = oi_order_id l \<and> restaurant_exists s scope (ord_restaurant_id d))
           (orders s)) (order_items s)"

definition add_menu :: "menu \<Rightarrow> db \<Rightarrow> db" where
  "add_menu m s = s\<lparr>menus := menus s @ [m], next_serial := next_serial s + 1\<rparr>"

definition save_menu :: "menu \<Rightarrow> db \<Rightarrow> db" where
  "save_menu m s = s\<lparr>menus := store_row mnu_id m (menus s)\<rparr>"

definition add_menu_item :: "menu_item \<Rightarrow> db \<Rightarrow> db" where
  "add_menu_item i s = s\<lparr>menu_items := menu_items s @ [i], next_serial := next_serial s + 1\<rparr>"

definition remove_menu :: "int \<Rightarrow> db \<Rightarrow> db" where
  "remove_menu menu_id s = s\<lparr>menus := delete_where (\<lambda>m. mnu_id m = menu_id) (menus s)\<rparr>"

text \<open>
  Deleting an item cascades to its recipe and clears the reference of order lines
  (\<open>ondelete\<close> of the foreign keys).
\<close>

definition remove_menu_item :: "int \<Rightarrow> db \<Rightarrow> db" where
  "remove_menu_item menu_item_id s =
     s\<lparr>menu_items := delete_where (\<lambda>i. mi_id i = menu_item_id) (menu_items s),
       recipe_components := delete_where (\<lambda>c. rc_menu_item_id c = menu_item_id) (recipe_components s),
       order_items := update_where (\<lambda>l. oi_menu_item_id l = Some menu_item_id)
         (\<lambda>l. l\<lparr>oi_menu_item_id := None\<rparr>) (order_items s)\<rparr>"

section \<open>Shared steps of the service\<close>

definition menu_not_found :: app_error where
  "menu_not_found = NotFoundError ''Menu not found''"

definition change_target :: "menu \<Rightarrow> menu_item option \<Rightarrow> string \<times> int" where
  "change_target m item = (case item of None \<Rightarrow> (''menu'', mnu_id m) | Some i \<Rightarrow> (''menu_item'', mi_id i))"

definition change_payload :: "menu \<Rightarrow> string \<Rightarrow> menu_item option \<Rightarrow> decimal payload" where
  "change_payload m operation item = (let (target_type, target_id) = change_target m item in
     MenuUpdatedPayload operation target_type target_id (mnu_id m)
       (if item = None then [] else [target_id]))"

definition emit_change ::
  "invocation \<Rightarrow> access_context \<Rightarrow> menu \<Rightarrow> string \<Rightarrow> menu_item option \<Rightarrow> db \<Rightarrow> db result" where
  "emit_change iv context m operation item s =
     (let (target_type, target_id) = change_target m item in
      bindR (append_command_event iv Menu_Updated (ac_organization_id context) (mnu_restaurant_id m)
          target_type target_id
          (next_catalog_revision s (ac_organization_id context) (mnu_restaurant_id m) target_type target_id)
          (change_payload m operation item) s) (\<lambda>(event, s1). Inr s1))"

definition lock_restaurant :: "db \<Rightarrow> access_context \<Rightarrow> int \<Rightarrow> 'a result \<Rightarrow> 'a result" where
  "lock_restaurant s context restaurant_id rest =
     raise_if (\<not> restaurant_exists s context restaurant_id) restaurant_not_found rest"

definition lock_menu :: "db \<Rightarrow> access_context \<Rightarrow> menu \<Rightarrow> (menu \<Rightarrow> 'a result) \<Rightarrow> 'a result" where
  "lock_menu s context m rest =
     lock_restaurant s context (mnu_restaurant_id m) (
     or_raise (get_menu_by_id s context (mnu_id m)) menu_not_found rest)"

text \<open>A menu item with the response-only attributes read live from stock.\<close>

record menu_item_view =
  miv_item :: menu_item
  miv_availability :: menu_item_availability

definition attach_menu_item_availability ::
  "db \<Rightarrow> menu_item list \<Rightarrow> int option \<Rightarrow> bool \<Rightarrow> menu_item_view list option result" where
  "attach_menu_item_availability s items expected_menu_id missing_is_cache_miss =
     (let availability = map_of (for_menu_items s items expected_menu_id) in
      if list_all (\<lambda>i. availability (mi_id i) \<noteq> None) items
      then Inr (Some (map (\<lambda>i. let status = the (availability (mi_id i)) in
             \<lparr>miv_item = i\<lparr>mi_inventory_tracking := mia_inventory_tracking status\<rparr>,
              miv_availability = status\<rparr>) items))
      else if missing_is_cache_miss then Inr None else Inl menu_item_not_found)"

text \<open>\<open>await self._attach_menu_item_availability([menu_item])\<close>, as the response of a write.\<close>

definition item_view :: "db \<Rightarrow> menu_item \<Rightarrow> menu_item_view result" where
  "item_view s i =
     bindR (attach_menu_item_availability s [i] None False) (\<lambda>views.
     case views of Some [v] \<Rightarrow> Inr v | _ \<Rightarrow> Inl (AssertionError ''view''))"

section \<open>Menus\<close>

definition create_menu ::
  "invocation \<Rightarrow> int \<Rightarrow> create_menu_command \<Rightarrow> db \<Rightarrow> (menu \<times> db) result" where
  "create_menu iv restaurant_id command s =
     bindR (current s (iv_user_id iv)) (\<lambda>context.
     access_restaurant s context restaurant_id ''menu.manage'' (
     lock_restaurant s context restaurant_id (
     let m = \<lparr>mnu_id = next_serial s, mnu_restaurant_id = restaurant_id, mnu_name = cm_name command,
              mnu_description = cm_description command\<rparr>;
         s1 = record_audit iv context ''menu.created'' ''menu'' (py_str_int (mnu_id m))
                (Some (mnu_restaurant_id m)) [] (add_menu m s) in
     bindR (emit_change iv context m ''created'' None s1) (\<lambda>s2. Inr (m, s2)))))"

definition get_menu :: "invocation \<Rightarrow> int \<Rightarrow> db \<Rightarrow> menu result" where
  "get_menu iv menu_id s =
     bindR (current s (iv_user_id iv)) (\<lambda>context.
     or_raise (get_menu_by_id s context menu_id) menu_not_found (\<lambda>m.
     require_capability context ''menu.read'' (Inr m)))"

definition edited_menu :: "update_menu_command \<Rightarrow> menu \<Rightarrow> menu" where
  "edited_menu command m =
     (let m1 = (case um_name command of None \<Rightarrow> m | Some n \<Rightarrow> m\<lparr>mnu_name := n\<rparr>) in
      case um_description command of None \<Rightarrow> m1 | Some x \<Rightarrow> m1\<lparr>mnu_description := Some x\<rparr>)"

definition update_menu ::
  "invocation \<Rightarrow> int \<Rightarrow> update_menu_command \<Rightarrow> db \<Rightarrow> (menu \<times> db) result" where
  "update_menu iv menu_id command s =
     bindR (current s (iv_user_id iv)) (\<lambda>context.
     or_raise (get_menu_by_id s context menu_id) menu_not_found (\<lambda>found.
     require_capability context ''menu.manage'' (
     lock_menu s context found (\<lambda>m.
     let m1 = edited_menu command m;
         s1 = record_audit iv context ''menu.updated'' ''menu'' (py_str_int (mnu_id m1))
                (Some (mnu_restaurant_id m1)) [] (save_menu m1 s) in
     if (mnu_name m1, mnu_description m1) \<noteq> (mnu_name m, mnu_description m)
     then bindR (emit_change iv context m1 ''edited'' None s1) (\<lambda>s2. Inr (m1, s2))
     else Inr (m1, s1)))))"

definition delete_menu :: "invocation \<Rightarrow> int \<Rightarrow> db \<Rightarrow> (int \<times> db) result" where
  "delete_menu iv menu_id s =
     bindR (current s (iv_user_id iv)) (\<lambda>context.
     or_raise (get_menu_by_id s context menu_id) menu_not_found (\<lambda>found.
     require_capability context ''menu.manage'' (
     lock_menu s context found (\<lambda>m.
     raise_if (menu_has_items s context menu_id)
       (ConflictError ''Remove menu items before deleting the menu'') (
     bindR (emit_change iv context m ''deleted'' None
         (record_audit iv context ''menu.deleted'' ''menu'' (py_str_int menu_id)
            (Some (mnu_restaurant_id m)) [] s)) (\<lambda>s1.
     Inr (mnu_restaurant_id m, remove_menu menu_id s1)))))))"

section \<open>Menu items\<close>

definition item_changes :: "menu_item \<Rightarrow> (string \<times> json) list" where
  "item_changes i = [(''price'', JDec (mi_price i)), (''is_available'', JBool (mi_is_available i))]"

definition create_menu_item ::
  "invocation \<Rightarrow> int \<Rightarrow> create_item_command \<Rightarrow> db \<Rightarrow> (menu_item_view \<times> db) result" where
  "create_menu_item iv menu_id command s =
     bindR (current s (iv_user_id iv)) (\<lambda>context.
     or_raise (get_menu_by_id s context menu_id) menu_not_found (\<lambda>found.
     require_capability context ''menu.manage'' (
     lock_menu s context found (\<lambda>m.
     bindR (validate_menu_price (ci_price command)) (\<lambda>price.
     let i = \<lparr>mi_id = next_serial s, mi_menu_id = menu_id, mi_name = ci_name command,
              mi_description = ci_description command, mi_price = price,
              mi_is_available = ci_is_available command, mi_inventory_tracking = False\<rparr>;
         s1 = record_audit iv context ''menu_item.created'' ''menu_item'' (py_str_int (mi_id i))
                (Some (mnu_restaurant_id m)) (item_changes i) (add_menu_item i s) in
     bindR (emit_change iv context m ''created'' (Some i) s1) (\<lambda>s2.
     bindR (item_view s2 i) (\<lambda>v. Inr (v, s2))))))))"

definition get_menu_item :: "invocation \<Rightarrow> int \<Rightarrow> db \<Rightarrow> menu_item_view result" where
  "get_menu_item iv menu_item_id s =
     bindR (current s (iv_user_id iv)) (\<lambda>context.
     or_raise (get_menu_item_by_id s context menu_item_id) menu_item_not_found (\<lambda>i.
     require_capability context ''menu.read'' (item_view s i)))"

definition edited_item :: "update_item_command \<Rightarrow> menu_item \<Rightarrow> menu_item result" where
  "edited_item command i =
     (let i1 = (case ui_name command of None \<Rightarrow> i | Some n \<Rightarrow> i\<lparr>mi_name := n\<rparr>);
          i2 = (case ui_description command of None \<Rightarrow> i1 | Some x \<Rightarrow> i1\<lparr>mi_description := Some x\<rparr>) in
      bindR (case ui_price command of None \<Rightarrow> Inr i2
        | Some p \<Rightarrow> bindR (validate_menu_price p) (\<lambda>price. Inr (i2\<lparr>mi_price := price\<rparr>))) (\<lambda>i3.
      Inr (case ui_is_available command of None \<Rightarrow> i3 | Some a \<Rightarrow> i3\<lparr>mi_is_available := a\<rparr>)))"

definition visible_fields :: "menu_item \<Rightarrow> string \<times> string option \<times> dec \<times> bool" where
  "visible_fields i = (mi_name i, mi_description i, mi_price i, mi_is_available i)"

definition change_operation :: "menu_item \<Rightarrow> menu_item \<Rightarrow> string" where
  "change_operation before after =
     (if mi_is_available before \<and> \<not> mi_is_available after then ''deactivated'' else ''edited'')"

definition update_menu_item ::
  "invocation \<Rightarrow> int \<Rightarrow> update_item_command \<Rightarrow> db \<Rightarrow> (menu_item_view \<times> db) result" where
  "update_menu_item iv menu_item_id command s =
     bindR (current s (iv_user_id iv)) (\<lambda>context.
     or_raise (get_menu_item_by_id s context menu_item_id) menu_item_not_found (\<lambda>i.
     require_capability context ''menu.manage'' (
     or_raise (get_menu_by_id s context (mi_menu_id i)) (AssertionError ''menu'') (\<lambda>m.
     lock_restaurant s context (mnu_restaurant_id m) (
     bindR (edited_item command i) (\<lambda>i1.
     let s1 = record_audit iv context ''menu_item.updated'' ''menu_item'' (py_str_int (mi_id i1))
                (Some (mnu_restaurant_id m)) (item_changes i1) (save_menu_item i1 s) in
     bindR (if visible_fields i1 \<noteq> visible_fields i
            then emit_change iv context m (change_operation i i1) (Some i1) s1 else Inr s1) (\<lambda>s2.
     bindR (item_view s2 i1) (\<lambda>v. Inr (v, s2)))))))))"

definition delete_menu_item ::
  "invocation \<Rightarrow> int \<Rightarrow> db \<Rightarrow> (delete_item_outcome \<times> db) result" where
  "delete_menu_item iv menu_item_id s =
     bindR (current s (iv_user_id iv)) (\<lambda>context.
     or_raise (get_menu_item_by_id s context menu_item_id) menu_item_not_found (\<lambda>i.
     require_capability context ''menu.manage'' (
     or_raise (get_menu_by_id s context (mi_menu_id i)) (AssertionError ''menu'') (\<lambda>m.
     lock_restaurant s context (mnu_restaurant_id m) (
     if menu_item_has_order_history s context menu_item_id then
       let i1 = i\<lparr>mi_is_available := False\<rparr>;
           s1 = record_audit iv context ''menu_item.deactivated'' ''menu_item'' (py_str_int menu_item_id)
                  (Some (mnu_restaurant_id m)) [(''is_available'', JBool False)] (save_menu_item i1 s) in
       bindR (if mi_is_available i then emit_change iv context m ''deactivated'' (Some i1) s1 else Inr s1)
         (\<lambda>s2. Inr (Item_Deactivated, s2))
     else
       bindR (emit_change iv context m ''deleted'' (Some i)
           (record_audit iv context ''menu_item.deleted'' ''menu_item'' (py_str_int menu_item_id)
              (Some (mnu_restaurant_id m)) [] s)) (\<lambda>s1.
       Inr (Item_Deleted, remove_menu_item menu_item_id s1)))))))"

section \<open>Lemmas\<close>

lemma emit_change_Inr:
  assumes "emit_change iv context m operation item s = Inr t"
  obtains e where "events_only s t" "outbox_events t = outbox_events s @ [e]"
    "validate_payload Menu_Updated (change_payload m operation item) \<noteq> None"
    "raw_event_type (evt_facts e) = event_type_name Menu_Updated"
    "raw_payload (evt_facts e) = change_payload m operation item"
    "raw_organization_id (evt_facts e) = ac_organization_id context"
    "raw_restaurant_id (evt_facts e) = mnu_restaurant_id m"
    "raw_aggregate_type (evt_facts e) = fst (change_target m item)"
    "raw_aggregate_id (evt_facts e) = py_str_int (snd (change_target m item))"
    "raw_aggregate_revision (evt_facts e) = next_catalog_revision s (ac_organization_id context)
       (mnu_restaurant_id m) (fst (change_target m item)) (snd (change_target m item))"
proof -
  obtain ty i where target: "change_target m item = (ty, i)" by force
  from assms obtain e where a: "append_command_event iv Menu_Updated (ac_organization_id context)
      (mnu_restaurant_id m) ty i (next_catalog_revision s (ac_organization_id context) (mnu_restaurant_id m) ty i)
      (change_payload m operation item) s = Inr (e, t)"
    by (auto simp: emit_change_def target bindR_Inr)
  obtain p' where p': "validate_payload Menu_Updated (change_payload m operation item) = Some p'"
    and e: "raw_payload (evt_facts e) = map_payload Finite p'"
      "raw_event_type (evt_facts e) = event_type_name Menu_Updated"
      "raw_organization_id (evt_facts e) = ac_organization_id context"
      "raw_restaurant_id (evt_facts e) = mnu_restaurant_id m"
      "raw_aggregate_type (evt_facts e) = ty" "raw_aggregate_id (evt_facts e) = py_str_int i"
      "raw_aggregate_revision (evt_facts e) =
         next_catalog_revision s (ac_organization_id context) (mnu_restaurant_id m) ty i"
      "outbox_events t = outbox_events s @ [e]"
    using append_command_event_Inr [OF a] by auto
  have "map_payload Finite p' = change_payload m operation item"
    using p' by (auto simp: change_payload_def split: prod.splits if_splits)
  then show ?thesis using that [OF events_only_append [OF a]] p' e target by simp
qed

text \<open>The tables of the catalog that a reader sees.\<close>

definition item_facts :: "menu_item \<Rightarrow> int \<times> int \<times> string \<times> string option \<times> dec \<times> bool" where
  "item_facts i = (mi_id i, mi_menu_id i, visible_fields i)"

definition catalog_view :: "db \<Rightarrow> menu list \<times> (int \<times> int \<times> string \<times> string option \<times> dec \<times> bool) list" where
  "catalog_view s = (menus s, map item_facts (menu_items s))"

definition catalog_keys :: "db \<Rightarrow> bool" where
  "catalog_keys s = (unique_keys mnu_id (menus s) \<and> unique_keys mi_id (menu_items s)
     \<and> (\<forall>m \<in> set (menus s). mnu_id m < next_serial s) \<and> (\<forall>i \<in> set (menu_items s). mi_id i < next_serial s))"

interpretation menu_repo: repository mnu_id menus save_menu
  by standard (simp add: save_menu_def)

interpretation menu_item_repo: repository mi_id menu_items save_menu_item
  by standard (simp add: save_menu_item_def)

lemma catalog_keys_cong:
  "catalog_keys s \<Longrightarrow> menus t = menus s \<Longrightarrow> menu_items t = menu_items s \<Longrightarrow> next_serial t = next_serial s
    \<Longrightarrow> catalog_keys t"
  by (simp add: catalog_keys_def)

lemma get_menu_by_id_Some:
  "get_menu_by_id s ctx i = Some m \<Longrightarrow> m \<in> set (menus s) \<and> mnu_id m = i \<and> restaurant_exists s ctx (mnu_restaurant_id m)"
  unfolding get_menu_by_id_def by (drule select_one_Some) simp

lemma get_menu_item_by_id_Some:
  "get_menu_item_by_id s ctx i = Some x \<Longrightarrow> x \<in> set (menu_items s) \<and> mi_id x = i \<and> item_in_scope s ctx x"
  unfolding get_menu_item_by_id_def by (drule select_one_Some) simp

lemma edited_menu_same:
  "(mnu_name (edited_menu c m), mnu_description (edited_menu c m)) = (mnu_name m, mnu_description m)
    \<longleftrightarrow> edited_menu c m = m"
  and edited_menu_id [simp]: "mnu_id (edited_menu c m) = mnu_id m"
    "mnu_restaurant_id (edited_menu c m) = mnu_restaurant_id m"
  by (cases m; auto simp: edited_menu_def Let_def split: option.splits)+

lemma edited_item_Inr:
  assumes "edited_item c i = Inr j"
  shows "mi_id j = mi_id i" "mi_menu_id j = mi_menu_id i" "mi_inventory_tracking j = mi_inventory_tracking i"
  using assms by (auto simp: edited_item_def Let_def bindR_Inr split: option.splits)

lemma item_facts_same:
  assumes "mi_id j = mi_id i" "mi_menu_id j = mi_menu_id i"
  shows "item_facts j = item_facts i \<longleftrightarrow> visible_fields j = visible_fields i"
  using assms by (simp add: item_facts_def)

lemma store_row_eq_iff:
  assumes "unique_keys key rows" "x \<in> set rows" "key x = key r"
  shows "map f (store_row key r rows) = map f rows \<longleftrightarrow> f r = f x"
proof -
  have only: "y \<in> set rows \<Longrightarrow> key y = key r \<Longrightarrow> y = x" for y
    using unique_keys_eq [OF assms(1) _ assms(2)] assms(3) by simp
  have "map f (store_row key r rows) = map f rows \<longleftrightarrow> (\<forall>y \<in> set rows. key y = key r \<longrightarrow> f r = f y)"
    by (simp add: store_row_def update_where_def)
  also have "\<dots> \<longleftrightarrow> f r = f x"
  proof
    assume "\<forall>y \<in> set rows. key y = key r \<longrightarrow> f r = f y"
    then show "f r = f x" using assms(2,3) by blast
  next
    assume "f r = f x"
    then show "\<forall>y \<in> set rows. key y = key r \<longrightarrow> f r = f y" using only by auto
  qed
  finally show ?thesis .
qed

section \<open>Every change is announced\<close>

text \<open>The operations of the service, and the database after one of them.\<close>

datatype catalog_op =
    Create_Menu int create_menu_command
  | Update_Menu int update_menu_command
  | Delete_Menu int
  | Create_Menu_Item int create_item_command
  | Update_Menu_Item int update_item_command
  | Delete_Menu_Item int

definition catalog_write :: "invocation \<Rightarrow> catalog_op \<Rightarrow> db \<Rightarrow> db result" where
  "catalog_write iv op s = (case op of
      Create_Menu rid c \<Rightarrow> bindR (create_menu iv rid c s) (\<lambda>(_, t). Inr t)
    | Update_Menu mid c \<Rightarrow> bindR (update_menu iv mid c s) (\<lambda>(_, t). Inr t)
    | Delete_Menu mid \<Rightarrow> bindR (delete_menu iv mid s) (\<lambda>(_, t). Inr t)
    | Create_Menu_Item mid c \<Rightarrow> bindR (create_menu_item iv mid c s) (\<lambda>(_, t). Inr t)
    | Update_Menu_Item i c \<Rightarrow> bindR (update_menu_item iv i c s) (\<lambda>(_, t). Inr t)
    | Delete_Menu_Item i \<Rightarrow> bindR (delete_menu_item iv i s) (\<lambda>(_, t). Inr t))"

definition same_target :: "outbox_event \<Rightarrow> outbox_event \<Rightarrow> bool" where
  "same_target e x =
     (raw_organization_id (evt_facts x) = raw_organization_id (evt_facts e)
     \<and> raw_restaurant_id (evt_facts x) = raw_restaurant_id (evt_facts e)
     \<and> raw_aggregate_type (evt_facts x) = raw_aggregate_type (evt_facts e)
     \<and> raw_aggregate_id (evt_facts x) = raw_aggregate_id (evt_facts e))"

definition newest :: "outbox_event \<Rightarrow> outbox_event list \<Rightarrow> bool" where
  "newest e es = (\<forall>x \<in> set es. same_target e x
     \<longrightarrow> raw_aggregate_revision (evt_facts x) < raw_aggregate_revision (evt_facts e))"

text \<open>
  The step either left the visible catalog and the outbox alone, or changed the catalog and appended
  exactly one change event, newer than every earlier event about its target.
\<close>

definition announced :: "db \<Rightarrow> db \<Rightarrow> bool" where
  "announced s t = (if catalog_view t = catalog_view s then outbox_events t = outbox_events s
     else (\<exists>e. outbox_events t = outbox_events s @ [e] \<and> newest e (outbox_events s)
       \<and> raw_event_type (evt_facts e) = event_type_name Menu_Updated))"

text \<open>What a write leaves alone: everything but the catalog tables, the audit trail and the outbox.\<close>

definition catalog_frame :: "db \<Rightarrow> db \<Rightarrow> bool" where
  "catalog_frame s t = (users t = users s \<and> organizations t = organizations s \<and> memberships t = memberships s
     \<and> restaurant_assignments t = restaurant_assignments s \<and> restaurants t = restaurants s
     \<and> ingredients t = ingredients s \<and> balances t = balances s \<and> episodes t = episodes s
     \<and> movements t = movements s \<and> orders t = orders s \<and> order_submissions t = order_submissions s
     \<and> next_serial s \<le> next_serial t)"

lemma emit_change_newest:
  assumes "emit_change iv context m operation item s = Inr t"
  shows "\<exists>e. outbox_events t = outbox_events s @ [e] \<and> newest e (outbox_events s)
    \<and> raw_event_type (evt_facts e) = event_type_name Menu_Updated"
proof -
  from assms obtain e where e: "outbox_events t = outbox_events s @ [e]"
    "raw_event_type (evt_facts e) = event_type_name Menu_Updated"
    "raw_organization_id (evt_facts e) = ac_organization_id context"
    "raw_restaurant_id (evt_facts e) = mnu_restaurant_id m"
    "raw_aggregate_type (evt_facts e) = fst (change_target m item)"
    "raw_aggregate_id (evt_facts e) = py_str_int (snd (change_target m item))"
    "raw_aggregate_revision (evt_facts e) = next_catalog_revision s (ac_organization_id context)
       (mnu_restaurant_id m) (fst (change_target m item)) (snd (change_target m item))"
    by (rule emit_change_Inr)
  have "newest e (outbox_events s)"
    by (auto simp: newest_def same_target_def e(3-7) intro!: next_catalog_revision_above)
  with e(1,2) show ?thesis by blast
qed

lemma emit_change_frame:
  assumes "emit_change iv context m operation item s = Inr t"
  shows "events_only s t"
  using assms by (rule emit_change_Inr)

text \<open>One emission over a prepared state whose outbox is still the old one.\<close>

lemma announced_by_emit:
  assumes "emit_change iv context m operation item s1 = Inr s2"
    and "outbox_events s1 = outbox_events s" "outbox_events t = outbox_events s2"
    and "catalog_view t \<noteq> catalog_view s"
  shows "announced s t"
  using emit_change_newest [OF assms(1)] assms(2-4) by (simp add: announced_def)

lemma catalog_view_events: "events_only s t \<Longrightarrow> catalog_view t = catalog_view s"
  by (simp add: catalog_view_def events_only_tables)

lemma delete_where_present: "x \<in> set rows \<Longrightarrow> P x \<Longrightarrow> map f (delete_where P rows) \<noteq> map f rows"
proof
  assume "x \<in> set rows" "P x" and eq: "map f (delete_where P rows) = map f rows"
  then have "length (delete_where P rows) < length rows"
    by (simp add: delete_where_def length_filter_less)
  moreover have "length (delete_where P rows) = length rows" using eq by (metis length_map)
  ultimately show False by simp
qed

lemma create_menu_effect:
  assumes "create_menu iv rid c s = Inr (m, t)" and "catalog_keys s"
  shows "announced s t \<and> catalog_keys t \<and> catalog_frame s t \<and> order_items t = order_items s"
proof -
  from assms(1) obtain ctx s1 s2 where
    s1: "s1 = record_audit iv ctx ''menu.created'' ''menu'' (py_str_int (mnu_id m)) (Some (mnu_restaurant_id m)) []
      (add_menu m s)" and m: "mnu_id m = next_serial s"
    and e: "emit_change iv ctx m ''created'' None s1 = Inr t"
    by (auto simp: create_menu_def Let_def res_simps lock_restaurant_def)
  note frame = events_only_tables [OF emit_change_frame [OF e]]
  have tables: "menus t = menus s @ [m]" "menu_items t = menu_items s" "next_serial t = next_serial s + 1"
    using frame by (simp_all add: s1 add_menu_def)
  have "announced s t"
    by (rule announced_by_emit [OF e]) (simp_all add: s1 add_menu_def catalog_view_def tables)
  moreover have "catalog_keys t" using assms(2) m by (auto simp: catalog_keys_def tables)
  moreover have "catalog_frame s t \<and> order_items t = order_items s"
    using frame by (simp add: catalog_frame_def s1 add_menu_def)
  ultimately show ?thesis by blast
qed

lemma update_menu_effect:
  assumes "update_menu iv mid c s = Inr (m1, t)" and "catalog_keys s"
  shows "announced s t \<and> catalog_keys t \<and> catalog_frame s t \<and> order_items t = order_items s"
proof -
  let ?s1 = "\<lambda>ctx m. record_audit iv ctx ''menu.updated'' ''menu'' (py_str_int (mnu_id m))
      (Some (mnu_restaurant_id m)) [] (save_menu (edited_menu c m) s)"
  from assms(1) obtain ctx n m where m: "get_menu_by_id s ctx n = Some m"
    and r: "(if (mnu_name (edited_menu c m), mnu_description (edited_menu c m)) \<noteq> (mnu_name m, mnu_description m)
      then bindR (emit_change iv ctx (edited_menu c m) ''edited'' None (?s1 ctx m)) (\<lambda>s2. Inr (edited_menu c m, s2))
      else Inr (edited_menu c m, ?s1 ctx m)) = Inr (m1, t)"
    unfolding update_menu_def Let_def lock_menu_def lock_restaurant_def edited_menu_id
    by (simp only: bindR_Inr or_raise_Inr raise_if_Inr require_capability_Inr) blast
  define s1 where "s1 = ?s1 ctx m"
  have m1: "m1 = edited_menu c m" and rest: "if m1 \<noteq> m then emit_change iv ctx m1 ''edited'' None s1 = Inr t else t = s1"
    using r by (auto simp: s1_def edited_menu_same bindR_Inr split: if_splits)
  note s1 = s1_def
  note row = get_menu_by_id_Some [OF m]
  have frame: "events_only s1 t" using rest emit_change_frame by (auto split: if_splits)
  note tables = events_only_tables [OF frame]
  have view: "catalog_view t = catalog_view s \<longleftrightarrow> m1 = m"
    using store_row_eq_iff [of mnu_id "menus s" m m1 id] assms(2) row tables
    by (simp add: catalog_view_def s1 save_menu_def m1 catalog_keys_def)
  have "announced s t"
  proof (cases "m1 = m")
    case True
    then show ?thesis using rest view by (simp add: announced_def s1 save_menu_def)
  next
    case False
    then have e: "emit_change iv ctx m1 ''edited'' None s1 = Inr t" using rest by simp
    show ?thesis by (rule announced_by_emit [OF e]) (use False view in \<open>simp_all add: s1 save_menu_def\<close>)
  qed
  moreover have "catalog_keys t"
    using assms(2) row tables by (auto simp: catalog_keys_def s1 save_menu_def m1 dest!: in_store_row)
  moreover have "catalog_frame s t \<and> order_items t = order_items s"
    using tables by (simp add: catalog_frame_def s1 save_menu_def)
  ultimately show ?thesis by blast
qed

lemma delete_menu_effect:
  assumes "delete_menu iv mid s = Inr (rid, t)" and "catalog_keys s"
  shows "announced s t \<and> catalog_keys t \<and> catalog_frame s t \<and> order_items t = order_items s"
proof -
  from assms(1) obtain ctx m s1 s2 where row: "m \<in> set (menus s)" "mnu_id m = mid"
    and s1: "s1 = record_audit iv ctx ''menu.deleted'' ''menu'' (py_str_int mid) (Some (mnu_restaurant_id m)) [] s"
    and e: "emit_change iv ctx m ''deleted'' None s1 = Inr s2" and t: "t = remove_menu mid s2"
    by (auto simp: delete_menu_def Let_def res_simps lock_menu_def lock_restaurant_def
        dest!: get_menu_by_id_Some)
  note tables = events_only_tables [OF emit_change_frame [OF e]]
  have "menus t \<noteq> menus s"
    using delete_where_present [of m "menus s" "\<lambda>x. mnu_id x = mid" id] row tables
    by (simp add: t remove_menu_def s1)
  then have "announced s t"
    by (intro announced_by_emit [OF e]) (simp_all add: t s1 remove_menu_def catalog_view_def)
  moreover have "catalog_keys t"
    using assms(2) tables
    by (auto simp: catalog_keys_def t s1 remove_menu_def delete_where_def unique_keys_def distinct_map_filter)
  moreover have "catalog_frame s t \<and> order_items t = order_items s"
    using tables by (simp add: catalog_frame_def t s1 remove_menu_def)
  ultimately show ?thesis by blast
qed

lemma create_menu_item_effect:
  assumes "create_menu_item iv mid c s = Inr (v, t)" and "catalog_keys s"
  shows "announced s t \<and> catalog_keys t \<and> catalog_frame s t \<and> order_items t = order_items s"
proof -
  let ?i = "\<lambda>price. \<lparr>mi_id = next_serial s, mi_menu_id = mid, mi_name = ci_name c,
     mi_description = ci_description c, mi_price = price, mi_is_available = ci_is_available c,
     mi_inventory_tracking = False\<rparr>"
  from assms(1) obtain ctx m price where e: "emit_change iv ctx m ''created'' (Some (?i price))
      (record_audit iv ctx ''menu_item.created'' ''menu_item'' (py_str_int (next_serial s))
         (Some (mnu_restaurant_id m)) (item_changes (?i price)) (add_menu_item (?i price) s)) = Inr t"
    by (auto simp: create_menu_item_def Let_def res_simps lock_menu_def lock_restaurant_def)
  define i where "i = ?i price"
  define s1 where "s1 = record_audit iv ctx ''menu_item.created'' ''menu_item'' (py_str_int (next_serial s))
         (Some (mnu_restaurant_id m)) (item_changes i) (add_menu_item i s)"
  have i: "mi_id i = next_serial s" and e: "emit_change iv ctx m ''created'' (Some i) s1 = Inr t"
    using e by (simp_all add: i_def s1_def)
  note tables = events_only_tables [OF emit_change_frame [OF e]]
  have rows: "menu_items t = menu_items s @ [i]" "menus t = menus s" "next_serial t = next_serial s + 1"
    using tables by (simp_all add: s1_def add_menu_item_def)
  have "announced s t"
    by (rule announced_by_emit [OF e]) (simp_all add: s1_def add_menu_item_def catalog_view_def rows)
  moreover have "catalog_keys t" using assms(2) i by (auto simp: catalog_keys_def rows)
  moreover have "catalog_frame s t \<and> order_items t = order_items s"
    using tables by (simp add: catalog_frame_def s1_def add_menu_item_def)
  ultimately show ?thesis by blast
qed

text \<open>An item that is stored back: the shape of an update and of a deactivation.\<close>

lemma stored_item_effect:
  assumes keys: "catalog_keys s" and row: "i \<in> set (menu_items s)" "mi_id j = mi_id i" "mi_menu_id j = mi_menu_id i"
    and s1: "s1 = record_audit iv ctx a b n r changes (save_menu_item j s)"
    and rest: "if visible_fields j \<noteq> visible_fields i then emit_change iv ctx m op (Some j) s1 = Inr t else t = s1"
  shows "announced s t \<and> catalog_keys t \<and> catalog_frame s t \<and> order_items t = order_items s"
proof -
  have frame: "events_only s1 t" using rest emit_change_frame by (auto split: if_splits)
  note tables = events_only_tables [OF frame]
  have view: "catalog_view t = catalog_view s \<longleftrightarrow> visible_fields j = visible_fields i"
    using store_row_eq_iff [of mi_id "menu_items s" i j item_facts] keys row tables item_facts_same [of j i]
    by (simp add: catalog_view_def s1 save_menu_item_def catalog_keys_def)
  have "announced s t"
  proof (cases "visible_fields j = visible_fields i")
    case True
    then show ?thesis using rest view by (simp add: announced_def s1 save_menu_item_def)
  next
    case False
    then have e: "emit_change iv ctx m op (Some j) s1 = Inr t" using rest by simp
    show ?thesis by (rule announced_by_emit [OF e]) (use False view in \<open>simp_all add: s1 save_menu_item_def\<close>)
  qed
  moreover have "catalog_keys t"
    using keys row tables by (auto simp: catalog_keys_def s1 save_menu_item_def dest!: in_store_row)
  moreover have "catalog_frame s t \<and> order_items t = order_items s"
    using tables by (simp add: catalog_frame_def s1 save_menu_item_def)
  ultimately show ?thesis by blast
qed

lemma update_menu_item_effect:
  assumes "update_menu_item iv iid c s = Inr (v, t)" and "catalog_keys s"
  shows "announced s t \<and> catalog_keys t \<and> catalog_frame s t \<and> order_items t = order_items s"
proof -
  from assms(1) obtain ctx i j m where i: "get_menu_item_by_id s ctx iid = Some i"
    and j: "edited_item c i = Inr j"
    and rest: "(if visible_fields j \<noteq> visible_fields i
        then emit_change iv ctx m (change_operation i j) (Some j)
          (record_audit iv ctx ''menu_item.updated'' ''menu_item'' (py_str_int (mi_id j))
             (Some (mnu_restaurant_id m)) (item_changes j) (save_menu_item j s))
        else Inr (record_audit iv ctx ''menu_item.updated'' ''menu_item'' (py_str_int (mi_id j))
             (Some (mnu_restaurant_id m)) (item_changes j) (save_menu_item j s))) = Inr t"
    by (auto simp: update_menu_item_def Let_def res_simps lock_restaurant_def)
  show ?thesis
    by (rule stored_item_effect [OF assms(2) _ edited_item_Inr(1,2) [OF j] refl])
      (use get_menu_item_by_id_Some [OF i] rest in \<open>auto split: if_splits\<close>)
qed

text \<open>
  Order lines refer to items of their own restaurant, so the scoped history check of
  \<open>delete_menu_item\<close> sees every line of an item.
\<close>

definition lines_local :: "db \<Rightarrow> bool" where
  "lines_local s = (\<forall>l \<in> set (order_items s). \<forall>i \<in> set (menu_items s). oi_menu_item_id l = Some (mi_id i) \<longrightarrow>
     (\<exists>d \<in> set (orders s). ord_id d = oi_order_id l
        \<and> (case menu_of s i of None \<Rightarrow> True | Some m \<Rightarrow> ord_restaurant_id d = mnu_restaurant_id m)))"

lemma unused_item_lines:
  assumes "lines_local s" and "i \<in> set (menu_items s)" and "item_in_scope s ctx i"
    and "\<not> menu_item_has_order_history s ctx (mi_id i)"
  shows "order_items (remove_menu_item (mi_id i) s) = order_items s"
proof -
  obtain m where m: "menu_of s i = Some m" "restaurant_exists s ctx (mnu_restaurant_id m)"
    using assms(3) by (auto simp: item_in_scope_def split: option.splits)
  have "oi_menu_item_id l \<noteq> Some (mi_id i)" if "l \<in> set (order_items s)" for l
  proof
    assume "oi_menu_item_id l = Some (mi_id i)"
    with assms(1,2) that m obtain d where "d \<in> set (orders s)" "ord_id d = oi_order_id l"
      "ord_restaurant_id d = mnu_restaurant_id m"
      unfolding lines_local_def by fastforce
    then have "\<exists>d \<in> set (orders s). ord_id d = oi_order_id l \<and> restaurant_exists s ctx (ord_restaurant_id d)"
      using m(2) by (intro bexI [of _ d]) simp_all
    with that \<open>oi_menu_item_id l = Some (mi_id i)\<close> have "menu_item_has_order_history s ctx (mi_id i)"
      unfolding menu_item_has_order_history_def exists_row_iff by blast
    with assms(4) show False by blast
  qed
  then show ?thesis by (simp add: remove_menu_item_def update_where_none)
qed

lemma delete_menu_item_effect:
  assumes "delete_menu_item iv iid s = Inr (v, t)" and "catalog_keys s"
  shows "announced s t \<and> catalog_keys t \<and> catalog_frame s t \<and> (lines_local s \<longrightarrow> order_items t = order_items s)"
proof -
  from assms(1) obtain ctx i m where i: "get_menu_item_by_id s ctx iid = Some i"
    and rest: "(if menu_item_has_order_history s ctx iid
      then bindR (if mi_is_available i
          then emit_change iv ctx m ''deactivated'' (Some (i\<lparr>mi_is_available := False\<rparr>))
            (record_audit iv ctx ''menu_item.deactivated'' ''menu_item'' (py_str_int iid)
              (Some (mnu_restaurant_id m)) [(''is_available'', JBool False)] (save_menu_item (i\<lparr>mi_is_available := False\<rparr>) s))
          else Inr (record_audit iv ctx ''menu_item.deactivated'' ''menu_item'' (py_str_int iid)
              (Some (mnu_restaurant_id m)) [(''is_available'', JBool False)] (save_menu_item (i\<lparr>mi_is_available := False\<rparr>) s)))
        (\<lambda>s2. Inr (Item_Deactivated, s2))
      else bindR (emit_change iv ctx m ''deleted'' (Some i)
           (record_audit iv ctx ''menu_item.deleted'' ''menu_item'' (py_str_int iid)
              (Some (mnu_restaurant_id m)) [] s)) (\<lambda>s1. Inr (Item_Deleted, remove_menu_item iid s1))) = Inr (v, t)"
    unfolding delete_menu_item_def Let_def lock_restaurant_def
    by (simp only: bindR_Inr or_raise_Inr raise_if_Inr require_capability_Inr) blast
  note row = get_menu_item_by_id_Some [OF i]
  show ?thesis
  proof (cases "menu_item_has_order_history s ctx iid")
    case True
    let ?j = "i\<lparr>mi_is_available := False\<rparr>"
    have "visible_fields ?j \<noteq> visible_fields i \<longleftrightarrow> mi_is_available i" by (simp add: visible_fields_def)
    then have "announced s t \<and> catalog_keys t \<and> catalog_frame s t \<and> order_items t = order_items s"
      by (intro stored_item_effect [OF assms(2), of i ?j _ iv ctx _ _ _ _ _ m "''deactivated''", OF _ _ _ refl])
        (use row rest True in \<open>auto simp: bindR_Inr split: if_splits\<close>)
    then show ?thesis by blast
  next
    case False
    define s1 where "s1 = record_audit iv ctx ''menu_item.deleted'' ''menu_item'' (py_str_int iid)
      (Some (mnu_restaurant_id m)) [] s"
    obtain s2 where e: "emit_change iv ctx m ''deleted'' (Some i) s1 = Inr s2" and t: "t = remove_menu_item iid s2"
      using rest False by (auto simp: bindR_Inr s1_def)
    note tables = events_only_tables [OF emit_change_frame [OF e]]
    have "map item_facts (menu_items t) \<noteq> map item_facts (menu_items s)"
      using delete_where_present [of i "menu_items s" "\<lambda>x. mi_id x = iid" item_facts] row tables
      by (simp add: t remove_menu_item_def s1_def)
    then have "announced s t"
      by (intro announced_by_emit [OF e]) (simp_all add: t s1_def remove_menu_item_def catalog_view_def)
    moreover have "catalog_keys t"
      using assms(2) tables
      by (auto simp: catalog_keys_def t s1_def remove_menu_item_def delete_where_def unique_keys_def distinct_map_filter)
    moreover have "catalog_frame s t"
      using tables by (simp add: catalog_frame_def t s1_def remove_menu_item_def)
    moreover have "order_items t = order_items s" if "lines_local s"
      using unused_item_lines [OF that, of i ctx] row False tables
      by (simp add: t remove_menu_item_def s1_def)
    ultimately show ?thesis by blast
  qed
qed

lemmas catalog_effects = create_menu_effect update_menu_effect delete_menu_effect create_menu_item_effect
  update_menu_item_effect delete_menu_item_effect

lemma catalog_write_effect:
  assumes "catalog_write iv op s = Inr t" and "catalog_keys s"
  shows "announced s t \<and> catalog_keys t \<and> catalog_frame s t \<and> (lines_local s \<longrightarrow> order_items t = order_items s)"
  using assms(1) catalog_effects [OF _ assms(2)]
  by (cases op) (auto simp: catalog_write_def bindR_Inr)


definition demo_price_change :: catalog_op where
  "demo_price_change = Update_Menu_Item 1 \<lparr>ui_name = None, ui_description = None,
     ui_price = Some (Finite 3), ui_is_available = None\<rparr>"

lemma demo_price_change_run:
  "succeeds_with (catalog_write demo_invocation demo_price_change demo_kitchen)
     (\<lambda>t. map mi_price (menu_items t) = [3] \<and> length (outbox_events t) = length (outbox_events demo_kitchen) + 1)"
  "catalog_keys demo_kitchen" "lines_local demo_kitchen"
  by code_simp+


end
