(* ===== verification/Redis_Adapter.thy ===== *)
theory Redis_Adapter
  imports Schema
begin

text \<open>
  The Redis transport (\<open>redis/adapter.py\<close>): the ways a command can end, the classification of the
  driver's exceptions, the adapter's own state (a client or none, and the event loop that opened it),
  and the key namespaces. The driver itself is a parameter; metrics are left out.
\<close>

section \<open>Outcomes of a command\<close>

datatype failure_kind = Redis_Timeout | Redis_Connection | Redis_Command | Redis_Closed

text \<open>How a command ends: with a reply, with a \<open>RedisFailure\<close>, or cancelled with its task.\<close>

datatype 'a reply = Reply 'a | Redis_Failure failure_kind | Cancelled

text \<open>
  What the driver's coroutine can end with: a value, the exception classes \<open>_bounded\<close> names (in
  redis-py \<open>TimeoutError\<close>, \<open>ConnectionError\<close> and \<open>InvalidResponse\<close> are subclasses of \<open>RedisError\<close>,
  so the order of the handlers counts), a cancellation, or the elapsed operation budget.
\<close>

datatype 'a driver_end =
    Driver_Value 'a
  | Budget_Elapsed
  | Driver_Timeout
  | Driver_Connection_Error
  | Driver_Invalid_Response
  | Driver_OS_Error
  | Driver_Redis_Error
  | Driver_Cancelled

definition bounded :: "'a driver_end \<Rightarrow> 'a reply" where
  "bounded ending = (case ending of
      Driver_Value x \<Rightarrow> Reply x
    | Budget_Elapsed \<Rightarrow> Redis_Failure Redis_Timeout
    | Driver_Timeout \<Rightarrow> Redis_Failure Redis_Timeout
    | Driver_Connection_Error \<Rightarrow> Redis_Failure Redis_Connection
    | Driver_Invalid_Response \<Rightarrow> Redis_Failure Redis_Connection
    | Driver_OS_Error \<Rightarrow> Redis_Failure Redis_Connection
    | Driver_Redis_Error \<Rightarrow> Redis_Failure Redis_Command
    | Driver_Cancelled \<Rightarrow> Cancelled)"

section \<open>The adapter\<close>

text \<open>\<open>'c\<close> are the driver's clients, made by the parameter \<open>factory\<close>; \<open>'l\<close> the event loops.\<close>

record ('c, 'l) adapter =
  ad_client :: "'c option"
  ad_loop :: "'l option"

definition closed_adapter :: "('c, 'l) adapter" where
  "closed_adapter = \<lparr>ad_client = None, ad_loop = None\<rparr>"

definition open_adapter :: "'c \<Rightarrow> 'l \<Rightarrow> ('c, 'l) adapter \<Rightarrow> ('c, 'l) adapter" where
  "open_adapter made running a = (case ad_client a of
      None \<Rightarrow> a\<lparr>ad_client := Some made, ad_loop := Some running\<rparr>
    | Some _ \<Rightarrow> a)"

definition owns_current_loop :: "'l \<Rightarrow> ('c, 'l) adapter \<Rightarrow> bool" where
  "owns_current_loop running a = (ad_client a \<noteq> None \<and> ad_loop a = Some running)"

definition execute_command :: "('c \<Rightarrow> 'a driver_end) \<Rightarrow> ('c, 'l) adapter \<Rightarrow> 'a reply" where
  "execute_command driver a = (case ad_client a of
      None \<Rightarrow> Redis_Failure Redis_Closed
    | Some client \<Rightarrow> bounded (driver client))"

text \<open>The client is given up before it is closed, so a failing close leaves the adapter closed.\<close>

definition close_adapter :: "('c \<Rightarrow> unit driver_end) \<Rightarrow> ('c, 'l) adapter \<Rightarrow> unit reply \<times> ('c, 'l) adapter" where
  "close_adapter aclose a =
     (let b = a\<lparr>ad_client := None\<rparr> in
      case ad_client a of None \<Rightarrow> (Reply (), b) | Some client \<Rightarrow> (bounded (aclose client), b))"

lemma close_is_final: "close_adapter aclose a = (y, b) \<Longrightarrow> execute_command driver b = Redis_Failure Redis_Closed"
  by (auto simp: close_adapter_def execute_command_def Let_def split: option.splits)

lemma open_keeps_client: "ad_client a = Some c \<Longrightarrow> open_adapter made running a = a"
  by (simp add: open_adapter_def)

section \<open>Namespaces\<close>

text \<open>\<open>RedisAdapter.namespace\<close>, with the pattern \<open>[a-z][a-z0-9_-]{0,39}\<close>.\<close>

definition is_lower_char :: "char \<Rightarrow> bool" where
  "is_lower_char c = (let n = of_char c :: nat in 97 \<le> n \<and> n \<le> 122)"

definition is_namespace_char :: "char \<Rightarrow> bool" where
  "is_namespace_char c = (let n = of_char c :: nat in
     is_lower_char c \<or> (48 \<le> n \<and> n \<le> 57) \<or> c = CHR ''_'' \<or> c = CHR ''-'')"

definition use_case_ok :: "string \<Rightarrow> bool" where
  "use_case_ok u = (case u of [] \<Rightarrow> False
     | c # cs \<Rightarrow> is_lower_char c \<and> list_all is_namespace_char cs \<and> length cs \<le> 39)"

record redis_settings =
  rs_environment :: string
  rs_test_namespace :: string

definition redis_namespace :: "redis_settings \<Rightarrow> string \<Rightarrow> int \<Rightarrow> string result" where
  "redis_namespace cfg use_case version =
     raise_if (\<not> use_case_ok use_case \<or> version < 1) (ValueError ''Invalid Redis namespace'') (
     Inr (''restaurantos:'' @ rs_environment cfg
       @ (if rs_environment cfg = ''test'' then '':'' @ rs_test_namespace cfg else [])
       @ '':'' @ use_case @ '':v'' @ py_str_int version @ '':''))"

end
