(* ===== verification/Menu_Cache.thy ===== *)
theory Menu_Cache
  imports Catalog Redis_Adapter
begin

text \<open>
  The read-through cache of the catalog's lists (\<open>catalog/menu_cache.py\<close>) with its circuit breaker,
  and the cached reads and invalidations of \<open>catalog/service.py\<close>. The Redis server, reached through
  \<open>RedisAdapter.execute\<close>, is the parameter \<open>redis\<close>; pydantic's JSON encoding of a payload is the
  parameter \<open>codec\<close>, into texts of an abstract type \<open>'x\<close>. Clock readings are arguments, in seconds.
\<close>

section \<open>Commands and keys\<close>

datatype 'x redis_value = Raw_Text 'x | Raw_Other

record ('x, 'r) redis =
  redis_get :: "string \<Rightarrow> 'r \<Rightarrow> 'x redis_value option reply \<times> 'r"
  redis_set :: "string \<Rightarrow> 'x \<Rightarrow> int \<Rightarrow> 'r \<Rightarrow> unit reply \<times> 'r"
  redis_del :: "string list \<Rightarrow> 'r \<Rightarrow> unit reply \<times> 'r"

definition catalog_prefix :: "redis_settings \<Rightarrow> string" where
  "catalog_prefix cfg = (case redis_namespace cfg ''catalog'' 1 of Inl _ \<Rightarrow> [] | Inr p \<Rightarrow> p)"

definition menus_key :: "redis_settings \<Rightarrow> uuid \<Rightarrow> int \<Rightarrow> string" where
  "menus_key cfg organization_id restaurant_id = catalog_prefix cfg @ ''org:'' @ py_str_uuid organization_id
     @ '':restaurant:'' @ py_str_int restaurant_id @ '':menus''"

definition menu_items_key :: "redis_settings \<Rightarrow> uuid \<Rightarrow> int \<Rightarrow> string" where
  "menu_items_key cfg organization_id menu_id = catalog_prefix cfg @ ''org:'' @ py_str_uuid organization_id
     @ '':menu:'' @ py_str_int menu_id @ '':items''"

section \<open>Payloads\<close>

text \<open>
  \<open>MenuListPayload\<close> and \<open>MenuItemListPayload\<close>: the scope is the restaurant, or the menu with its
  restaurant. A \<open>CachedMenu\<close> has the fields of a \<^typ>\<open>menu\<close>.
\<close>

record ('k, 'c) cache_payload =
  cp_schema_version :: int
  cp_scope :: 'k
  cp_source_started_at :: decimal
  cp_content :: "'c list"

record cached_menu_item =
  cmi_menu_item_id :: int
  cmi_menu_id :: int
  cmi_restaurant_id :: int
  cmi_name :: string
  cmi_description :: "string option"
  cmi_price :: dec
  cmi_is_available :: bool

record ('k, 'c, 'x) codec =
  cd_dump :: "('k, 'c) cache_payload \<Rightarrow> 'x"
  cd_parse :: "'x \<Rightarrow> ('k, 'c) cache_payload option"

definition max_age_seconds :: dec where
  "max_age_seconds = 10"

definition max_age_ms :: int where
  "max_age_ms = 10 * 1000"

definition valid_payload ::
  "('k, 'c, 'x) codec \<Rightarrow> ('k \<Rightarrow> 'c list \<Rightarrow> bool) \<Rightarrow> 'k \<Rightarrow> dec \<Rightarrow> 'x redis_value \<Rightarrow> 'c list option" where
  "valid_payload codec content_ok scope wall raw = (case raw of
      Raw_Other \<Rightarrow> None
    | Raw_Text text \<Rightarrow>
        (case cd_parse codec text of None \<Rightarrow> None
         | Some p \<Rightarrow>
            let age = wall - decimal_value (cp_source_started_at p) in
            if cp_schema_version p \<noteq> 1 \<or> cp_scope p \<noteq> scope \<or> \<not> is_finite_decimal (cp_source_started_at p)
              \<or> age < 0 \<or> age \<ge> max_age_seconds \<or> \<not> content_ok scope (cp_content p)
            then None else Some (cp_content p)))"

definition menus_ok :: "int \<Rightarrow> menu list \<Rightarrow> bool" where
  "menus_ok restaurant_id ms = list_all (\<lambda>m. mnu_restaurant_id m = restaurant_id) ms"

definition items_ok :: "int \<times> int \<Rightarrow> cached_menu_item list \<Rightarrow> bool" where
  "items_ok scope items = (case scope of (menu_id, restaurant_id) \<Rightarrow>
     distinct (map cmi_menu_item_id items)
     \<and> list_all (\<lambda>i. cmi_menu_id i = menu_id \<and> cmi_restaurant_id i = restaurant_id) items)"

section \<open>Circuit breaker\<close>

record circuit =
  ci_open_until :: "dec option"
  ci_opened_at :: "dec option"
  ci_probe_in_flight :: bool

definition closed_circuit :: circuit where
  "closed_circuit = \<lparr>ci_open_until = None, ci_opened_at = None, ci_probe_in_flight = False\<rparr>"

definition cooldown_seconds :: dec where
  "cooldown_seconds = 5"

definition begin_lookup :: "dec \<Rightarrow> circuit \<Rightarrow> (bool \<times> bool) \<times> circuit" where
  "begin_lookup now c = (case ci_open_until c of
      None \<Rightarrow> ((True, False), c)
    | Some t \<Rightarrow> if now < t \<or> ci_probe_in_flight c then ((False, False), c)
        else ((True, True), c\<lparr>ci_probe_in_flight := True\<rparr>))"

definition finish_probe :: "bool \<Rightarrow> circuit \<Rightarrow> circuit" where
  "finish_probe success c =
     (let c1 = c\<lparr>ci_probe_in_flight := False\<rparr> in
      if success \<and> ci_open_until c1 \<noteq> None then c1\<lparr>ci_open_until := None, ci_opened_at := None\<rparr> else c1)"

definition open_circuit :: "dec \<Rightarrow> circuit \<Rightarrow> circuit" where
  "open_circuit now c =
     (let c1 = c\<lparr>ci_open_until := Some (now + cooldown_seconds)\<rparr> in
      if ci_open_until c = None then c1\<lparr>ci_opened_at := Some now\<rparr> else c1)"

definition trips :: "failure_kind \<Rightarrow> bool" where
  "trips k = (k \<in> set [Redis_Timeout, Redis_Connection, Redis_Closed])"

text \<open>The circuit after the reply to an admitted lookup, in every outcome.\<close>

definition conclude_lookup :: "bool \<Rightarrow> 'a reply \<Rightarrow> dec \<Rightarrow> circuit \<Rightarrow> circuit" where
  "conclude_lookup is_probe reply now c = (case reply of
      Redis_Failure k \<Rightarrow>
        let c1 = (if trips k then open_circuit now c else c) in
        if is_probe then finish_probe False c1 else c1
    | Cancelled \<Rightarrow> if is_probe then finish_probe False c else c
    | Reply _ \<Rightarrow> if is_probe then finish_probe True c else c)"

section \<open>Lookup, store and invalidation\<close>

text \<open>
  The content found, if any, and whether Redis answered; \<open>None\<close> when the task was cancelled.
  \<open>lookup\<close> and \<open>lookup_menu_items\<close> differ in the payload's validation only.
\<close>

definition lookup ::
  "('x, 'r) redis \<Rightarrow> ('x redis_value \<Rightarrow> 'c list option) \<Rightarrow> string \<Rightarrow> dec \<Rightarrow> dec \<Rightarrow> circuit \<Rightarrow> 'r
     \<Rightarrow> ('c list option \<times> bool) option \<times> circuit \<times> 'r" where
  "lookup redis valid key t0 t1 c r =
     (case begin_lookup t0 c of ((allowed, is_probe), c1) \<Rightarrow>
      if \<not> allowed then (Some (None, False), c1, r)
      else (case redis_get redis key r of (reply, r1) \<Rightarrow>
        (case reply of Reply raw \<Rightarrow> Some (Option.bind raw valid, True)
           | Redis_Failure _ \<Rightarrow> Some (None, False) | Cancelled \<Rightarrow> None,
         conclude_lookup is_probe reply t1 c1, r1)))"

definition elapsed_ms :: "dec \<Rightarrow> dec \<Rightarrow> int" where
  "elapsed_ms started now = \<lceil>max 0 (now - started) * 1000\<rceil>"

text \<open>\<open>store\<close> and \<open>store_menu_items\<close>; \<open>m0\<close>, \<open>m1\<close> and \<open>t1\<close> are monotonic readings.\<close>

definition store_content ::
  "('x, 'r) redis \<Rightarrow> ('k, 'c, 'x) codec \<Rightarrow> string \<Rightarrow> 'k \<Rightarrow> 'c list \<Rightarrow> dec \<Rightarrow> dec \<Rightarrow> dec \<Rightarrow> dec \<Rightarrow> circuit \<Rightarrow> 'r
     \<Rightarrow> unit option \<times> circuit \<times> 'r" where
  "store_content redis codec key scope content source_started_at m0 m1 t1 c r =
     (let text = cd_dump codec \<lparr>cp_schema_version = 1, cp_scope = scope,
            cp_source_started_at = Finite source_started_at, cp_content = content\<rparr>;
          remaining = max_age_ms - elapsed_ms m0 m1 in
      if remaining \<le> 0 then (Some (), c, r)
      else (case redis_set redis key text remaining r of (reply, r1) \<Rightarrow>
        (case reply of Reply _ \<Rightarrow> (Some (), c, r1)
         | Redis_Failure k \<Rightarrow> (Some (), if trips k then open_circuit t1 c else c, r1)
         | Cancelled \<Rightarrow> (None, c, r1))))"

definition invalidate :: "('x, 'r) redis \<Rightarrow> string list \<Rightarrow> 'r \<Rightarrow> unit option \<times> 'r" where
  "invalidate redis keys r =
     (if keys = [] then (Some (), r)
      else (case redis_del redis keys r of (reply, r1) \<Rightarrow>
        (case reply of Cancelled \<Rightarrow> None | _ \<Rightarrow> Some (), r1)))"

section \<open>Cached reads of the service\<close>

text \<open>
  What a list call knows after its lookup: the cached content, or a miss together with the key that
  the call will fill, when Redis answered.
\<close>

datatype 'c finding = Cache_Hit "'c list" | Cache_Miss "string option"

definition consult ::
  "bool \<Rightarrow> ('x, 'r) redis \<Rightarrow> ('x redis_value \<Rightarrow> 'c list option) \<Rightarrow> string \<Rightarrow> dec \<Rightarrow> dec \<Rightarrow> circuit \<Rightarrow> 'r
     \<Rightarrow> 'c finding option \<times> circuit \<times> 'r" where
  "consult enabled redis valid key t0 t1 c r =
     (if \<not> enabled then (Some (Cache_Miss None), c, r)
      else (case lookup redis valid key t0 t1 c r of
          (None, c1, r1) \<Rightarrow> (None, c1, r1)
        | (Some (Some content, _), c1, r1) \<Rightarrow> (Some (Cache_Hit content), c1, r1)
        | (Some (None, available), c1, r1) \<Rightarrow>
            (Some (Cache_Miss (if available then Some key else None)), c1, r1)))"

text \<open>
  \<open>list_menus\<close> up to its source query. In the calls below \<open>wall\<close> is the reading that validates a cached
  payload, \<open>w1\<close> and \<open>m0\<close> those taken before the source query, \<open>t0\<close>, \<open>t1\<close> and \<open>m1\<close> monotonic ones. The live access check precedes
  all cache access.
\<close>

definition find_menus ::
  "bool \<Rightarrow> ('x, 'r) redis \<Rightarrow> (int, menu, 'x) codec \<Rightarrow> redis_settings \<Rightarrow> invocation \<Rightarrow> int \<Rightarrow> db \<Rightarrow> dec \<Rightarrow> dec \<Rightarrow> dec
     \<Rightarrow> circuit \<Rightarrow> 'r \<Rightarrow> (access_context \<times> menu finding) result option \<times> circuit \<times> 'r" where
  "find_menus enabled redis codec cfg iv restaurant_id s wall t0 t1 c r =
     (case bindR (current s (iv_user_id iv)) (\<lambda>context.
          access_restaurant s context restaurant_id ''menu.read'' (Inr context)) of
        Inl e \<Rightarrow> (Some (Inl e), c, r)
      | Inr context \<Rightarrow>
          (case consult enabled redis (valid_payload codec menus_ok restaurant_id wall)
             (menus_key cfg (ac_organization_id context) restaurant_id) t0 t1 c r of
            (found, c1, r1) \<Rightarrow> (map_option (\<lambda>f. Inr (context, f)) found, c1, r1)))"

definition list_menus ::
  "bool \<Rightarrow> ('x, 'r) redis \<Rightarrow> (int, menu, 'x) codec \<Rightarrow> redis_settings \<Rightarrow> invocation \<Rightarrow> int \<Rightarrow> db \<Rightarrow> dec \<Rightarrow> dec \<Rightarrow> dec
     \<Rightarrow> dec \<Rightarrow> dec \<Rightarrow> dec \<Rightarrow> circuit \<Rightarrow> 'r \<Rightarrow> menu list result option \<times> circuit \<times> 'r" where
  "list_menus enabled redis codec cfg iv restaurant_id s wall t0 t1 w1 m0 m1 c r =
     (case find_menus enabled redis codec cfg iv restaurant_id s wall t0 t1 c r of
        (None, c1, r1) \<Rightarrow> (None, c1, r1)
      | (Some (Inl e), c1, r1) \<Rightarrow> (Some (Inl e), c1, r1)
      | (Some (Inr (context, Cache_Hit ms)), c1, r1) \<Rightarrow> (Some (Inr ms), c1, r1)
      | (Some (Inr (context, Cache_Miss key)), c1, r1) \<Rightarrow>
          let ms = list_menus_for_restaurant s context restaurant_id in
          (case key of None \<Rightarrow> (Some (Inr ms), c1, r1)
           | Some k \<Rightarrow> (case store_content redis codec k restaurant_id ms w1 m0 m1 m1 c1 r1 of
               (stored, c2, r2) \<Rightarrow> (map_option (\<lambda>_. Inr ms) stored, c2, r2))))"

definition cached_item_of :: "menu_item_view \<Rightarrow> cached_menu_item" where
  "cached_item_of v = (let i = miv_item v in
     \<lparr>cmi_menu_item_id = mi_id i, cmi_menu_id = mi_menu_id i,
      cmi_restaurant_id = mia_restaurant_id (miv_availability v), cmi_name = mi_name i,
      cmi_description = mi_description i, cmi_price = mi_price i, cmi_is_available = mi_is_available i\<rparr>)"

definition item_of_cached :: "cached_menu_item \<Rightarrow> menu_item" where
  "item_of_cached i =
     \<lparr>mi_id = cmi_menu_item_id i, mi_menu_id = cmi_menu_id i, mi_name = cmi_name i,
      mi_description = cmi_description i, mi_price = cmi_price i, mi_is_available = cmi_is_available i,
      mi_inventory_tracking = False\<rparr>"

definition find_menu_items ::
  "bool \<Rightarrow> ('x, 'r) redis \<Rightarrow> (int \<times> int, cached_menu_item, 'x) codec \<Rightarrow> redis_settings \<Rightarrow> invocation \<Rightarrow> int \<Rightarrow> db
     \<Rightarrow> dec \<Rightarrow> dec \<Rightarrow> dec \<Rightarrow> circuit \<Rightarrow> 'r
     \<Rightarrow> (access_context \<times> menu \<times> cached_menu_item finding) result option \<times> circuit \<times> 'r" where
  "find_menu_items enabled redis codec cfg iv menu_id s wall t0 t1 c r =
     (case bindR (current s (iv_user_id iv)) (\<lambda>context.
          or_raise (get_menu_by_id s context menu_id) menu_not_found (\<lambda>m.
          require_capability context ''menu.read'' (Inr (context, m)))) of
        Inl e \<Rightarrow> (Some (Inl e), c, r)
      | Inr (context, m) \<Rightarrow>
          (case consult enabled redis (valid_payload codec items_ok (menu_id, mnu_restaurant_id m) wall)
             (menu_items_key cfg (ac_organization_id context) menu_id) t0 t1 c r of
            (found, c1, r1) \<Rightarrow> (map_option (\<lambda>f. Inr (context, m, f)) found, c1, r1)))"

text \<open>The source query of \<open>list_menu_items\<close> with the live availability.\<close>

definition load_menu_items :: "db \<Rightarrow> access_context \<Rightarrow> int \<Rightarrow> menu_item_view list result" where
  "load_menu_items s context menu_id =
     bindR (attach_menu_item_availability s (list_menu_items_for_menu s context menu_id) (Some menu_id) False)
       (\<lambda>views. or_raise views (AssertionError ''response_items'') Inr)"

text \<open>
  \<open>list_menu_items\<close>: cached items get their availability from the live stock; when one of them is
  gone or moved, the entry counts as a miss.
\<close>

definition list_menu_items ::
  "bool \<Rightarrow> ('x, 'r) redis \<Rightarrow> (int \<times> int, cached_menu_item, 'x) codec \<Rightarrow> redis_settings \<Rightarrow> invocation \<Rightarrow> int \<Rightarrow> db
     \<Rightarrow> dec \<Rightarrow> dec \<Rightarrow> dec \<Rightarrow> dec \<Rightarrow> dec \<Rightarrow> dec \<Rightarrow> circuit \<Rightarrow> 'r
     \<Rightarrow> menu_item_view list result option \<times> circuit \<times> 'r" where
  "list_menu_items enabled redis codec cfg iv menu_id s wall t0 t1 w1 m0 m1 c r =
     (case find_menu_items enabled redis codec cfg iv menu_id s wall t0 t1 c r of
        (None, c1, r1) \<Rightarrow> (None, c1, r1)
      | (Some (Inl e), c1, r1) \<Rightarrow> (Some (Inl e), c1, r1)
      | (Some (Inr (context, m, found)), c1, r1) \<Rightarrow>
          let reload = (\<lambda>key. case load_menu_items s context menu_id of
                 Inl e \<Rightarrow> (Some (Inl e), c1, r1)
               | Inr views \<Rightarrow>
                   (case key of None \<Rightarrow> (Some (Inr views), c1, r1)
                    | Some k \<Rightarrow> (case store_content redis codec k (menu_id, mnu_restaurant_id m)
                        (map cached_item_of views) w1 m0 m1 m1 c1 r1 of
                      (stored, c2, r2) \<Rightarrow> (map_option (\<lambda>_. Inr views) stored, c2, r2)))) in
          (case found of
             Cache_Hit items \<Rightarrow>
               (case attach_menu_item_availability s (map item_of_cached items) (Some menu_id) True of
                  Inr (Some views) \<Rightarrow> (Some (Inr views), c1, r1)
                | _ \<Rightarrow> reload (Some (menu_items_key cfg (ac_organization_id context) menu_id)))
           | Cache_Miss key \<Rightarrow> reload key))"

section \<open>Writes with their invalidations\<close>

text \<open>The keys that a committed write invalidates; \<open>s\<close> is the database before the write.\<close>

definition invalidated_keys :: "redis_settings \<Rightarrow> invocation \<Rightarrow> catalog_op \<Rightarrow> db \<Rightarrow> string list" where
  "invalidated_keys cfg iv op s = (case current s (iv_user_id iv) of Inl _ \<Rightarrow> [] | Inr context \<Rightarrow>
     let org = ac_organization_id context;
         restaurant_of = (\<lambda>mid. case get_menu_by_id s context mid of None \<Rightarrow> 0 | Some m \<Rightarrow> mnu_restaurant_id m);
         menu_of_item = (\<lambda>i. case get_menu_item_by_id s context i of None \<Rightarrow> 0 | Some x \<Rightarrow> mi_menu_id x) in
     (case op of
        Create_Menu rid _ \<Rightarrow> [menus_key cfg org rid]
      | Update_Menu mid _ \<Rightarrow> [menus_key cfg org (restaurant_of mid)]
      | Delete_Menu mid \<Rightarrow> [menus_key cfg org (restaurant_of mid), menu_items_key cfg org mid]
      | Create_Menu_Item mid _ \<Rightarrow> [menu_items_key cfg org mid]
      | Update_Menu_Item i _ \<Rightarrow> [menu_items_key cfg org (menu_of_item i)]
      | Delete_Menu_Item i \<Rightarrow> [menu_items_key cfg org (menu_of_item i)]))"

text \<open>
  A write of the service: the transaction, then, once it has committed, the best-effort invalidation.
  A cancelled invalidation raises, but the write has happened.
\<close>

definition write_catalog ::
  "bool \<Rightarrow> ('x, 'r) redis \<Rightarrow> redis_settings \<Rightarrow> invocation \<Rightarrow> catalog_op \<Rightarrow> db \<Rightarrow> 'r
     \<Rightarrow> app_error option option \<times> db \<times> 'r" where
  "write_catalog enabled redis cfg iv op s r =
     (case catalog_write iv op s of
        Inl e \<Rightarrow> (Some (Some e), s, r)
      | Inr t \<Rightarrow> if \<not> enabled then (Some None, t, r)
          else (case invalidate redis (invalidated_keys cfg iv op s) r of
            (done, r1) \<Rightarrow> (map_option (\<lambda>_. None) done, t, r1)))"

section \<open>Any number of processes share the cache\<close>

text \<open>
  What the code relies on from Redis: a key holds the value last set or nothing (values expire and
  are deleted at any time), and \<open>GET\<close> returns what the key holds. A failed or cancelled command may
  or may not have taken effect. \<open>holds r\<close> is the contents of the server in state \<open>r\<close>.
\<close>

definition redis_laws :: "('x, 'r) redis \<Rightarrow> ('r \<Rightarrow> string \<Rightarrow> 'x redis_value option) \<Rightarrow> bool" where
  "redis_laws redis holds =
     ((\<forall>k r v r1. redis_get redis k r = (Reply (Some v), r1) \<longrightarrow> holds r k = Some v)
     \<and> (\<forall>k r x r1 k'. redis_get redis k r = (x, r1) \<longrightarrow> holds r1 k' \<in> {None, holds r k'})
     \<and> (\<forall>k v px r x r1 k'. redis_set redis k v px r = (x, r1)
          \<longrightarrow> holds r1 k' \<in> {None, holds r k'} \<union> (if k' = k then {Some (Raw_Text v)} else {}))
     \<and> (\<forall>ks r x r1 k'. redis_del redis ks r = (x, r1) \<longrightarrow> holds r1 k' \<in> {None, holds r k'}))"

text \<open>What it relies on from pydantic: a dumped payload is parsed back unchanged.\<close>

definition codec_laws :: "('k, 'c, 'x) codec \<Rightarrow> bool" where
  "codec_laws codec = (\<forall>p. is_finite_decimal (cp_source_started_at p) \<longrightarrow> cd_parse codec (cd_dump codec p) = Some p)"

text \<open>
  The system around one kind of list: the wall clock, the database, the Redis server, the calls that
  missed and will query the source, the contents they loaded and will store, and a log of all source
  reads with the time and the database of the read. The circuit of each process only decides whether
  a process talks to Redis, so a step may start from any circuit.
\<close>

record 'k missed_call =
  mc_scope :: 'k
  mc_context :: access_context
  mc_key :: string
  mc_started_at :: dec

record ('k, 'c) fill =
  fl_scope :: 'k
  fl_key :: string
  fl_started_at :: dec
  fl_content :: "'c list"

record ('k, 'c) source_read =
  rd_scope :: 'k
  rd_context :: access_context
  rd_content :: "'c list"
  rd_time :: dec
  rd_db :: db

record ('k, 'c, 'r) cache_world =
  cw_wall :: dec
  cw_db :: db
  cw_redis :: 'r
  cw_missed :: "'k missed_call list"
  cw_fills :: "('k, 'c) fill list"
  cw_reads :: "('k, 'c) source_read list"

type_synonym ('k, 'c) loader = "access_context \<Rightarrow> 'k \<Rightarrow> db \<Rightarrow> 'c list result"

inductive cache_step ::
  "('x, 'r) redis \<Rightarrow> ('r \<Rightarrow> string \<Rightarrow> 'x redis_value option) \<Rightarrow> ('k, 'c, 'x) codec \<Rightarrow> ('k \<Rightarrow> 'c list \<Rightarrow> bool)
     \<Rightarrow> ('k, 'c) loader \<Rightarrow> ('k, 'c, 'r) cache_world \<Rightarrow> ('k, 'c, 'r) cache_world \<Rightarrow> bool"
  for redis holds codec content_ok load where
  transaction: "cache_step redis holds codec content_ok load w (w\<lparr>cw_db := s\<rparr>)"
| time: "cw_wall w \<le> t \<Longrightarrow> cache_step redis holds codec content_ok load w (w\<lparr>cw_wall := t\<rparr>)"
| expiry: "(\<And>k. holds r k \<in> {None, holds (cw_redis w) k})
    \<Longrightarrow> cache_step redis holds codec content_ok load w (w\<lparr>cw_redis := r\<rparr>)"
| look_up: "consult enabled redis (valid_payload codec content_ok scope (cw_wall w)) key t0 t1 c (cw_redis w)
      = (found, c1, r)
    \<Longrightarrow> cache_step redis holds codec content_ok load w (w\<lparr>cw_redis := r, cw_missed := cw_missed w
          @ (case found of Some (Cache_Miss (Some k)) \<Rightarrow> [\<lparr>mc_scope = scope, mc_context = ctx, mc_key = k,
                mc_started_at = cw_wall w\<rparr>] | _ \<Rightarrow> [])\<rparr>)"
| source: "call \<in> set (cw_missed w) \<Longrightarrow> load (mc_context call) (mc_scope call) (cw_db w) = Inr content
    \<Longrightarrow> cache_step redis holds codec content_ok load w (w\<lparr>
          cw_fills := cw_fills w @ [\<lparr>fl_scope = mc_scope call, fl_key = mc_key call,
            fl_started_at = mc_started_at call, fl_content = content\<rparr>],
          cw_reads := cw_reads w @ [\<lparr>rd_scope = mc_scope call, rd_context = mc_context call,
            rd_content = content, rd_time = cw_wall w, rd_db = cw_db w\<rparr>]\<rparr>)"
| fill: "f \<in> set (cw_fills w)
    \<Longrightarrow> store_content redis codec (fl_key f) (fl_scope f) (fl_content f) (fl_started_at f) m0 m1 t1 c
          (cw_redis w) = (x, c1, r)
    \<Longrightarrow> cache_step redis holds codec content_ok load w (w\<lparr>cw_redis := r\<rparr>)"
| invalidation: "invalidate redis keys (cw_redis w) = (x, r)
    \<Longrightarrow> cache_step redis holds codec content_ok load w (w\<lparr>cw_redis := r\<rparr>)"

text \<open>A content started at \<open>t\<close> was read from the source at that time or later.\<close>

definition was_read :: "('k, 'c) loader \<Rightarrow> ('k, 'c, 'r) cache_world \<Rightarrow> 'k \<Rightarrow> 'c list \<Rightarrow> dec \<Rightarrow> bool" where
  "was_read load w scope content t = (\<exists>x \<in> set (cw_reads w). rd_scope x = scope \<and> rd_content x = content
     \<and> t \<le> rd_time x \<and> rd_time x \<le> cw_wall w \<and> load (rd_context x) scope (rd_db x) = Inr content)"

definition payload_text :: "('k, 'c, 'x) codec \<Rightarrow> 'k \<Rightarrow> 'c list \<Rightarrow> dec \<Rightarrow> 'x" where
  "payload_text codec scope content t = cd_dump codec \<lparr>cp_schema_version = 1, cp_scope = scope,
     cp_source_started_at = Finite t, cp_content = content\<rparr>"

definition cache_inv ::
  "('r \<Rightarrow> string \<Rightarrow> 'x redis_value option) \<Rightarrow> ('k, 'c, 'x) codec \<Rightarrow> ('k, 'c) loader \<Rightarrow> ('k, 'c, 'r) cache_world \<Rightarrow> bool" where
  "cache_inv holds codec load w =
     ((\<forall>k v. holds (cw_redis w) k = Some v \<longrightarrow>
         (\<exists>scope content t. v = Raw_Text (payload_text codec scope content t) \<and> was_read load w scope content t))
     \<and> (\<forall>f \<in> set (cw_fills w). was_read load w (fl_scope f) (fl_content f) (fl_started_at f))
     \<and> (\<forall>call \<in> set (cw_missed w). mc_started_at call \<le> cw_wall w))"

definition fresh_cache :: "('r \<Rightarrow> string \<Rightarrow> 'x redis_value option) \<Rightarrow> ('k, 'c, 'r) cache_world \<Rightarrow> bool" where
  "fresh_cache holds w = ((\<forall>k. holds (cw_redis w) k = None) \<and> cw_missed w = [] \<and> cw_fills w = [])"

lemma was_read_mono:
  "was_read load w scope content t \<Longrightarrow> set (cw_reads w) \<subseteq> set (cw_reads v) \<Longrightarrow> cw_wall w \<le> cw_wall v
    \<Longrightarrow> was_read load v scope content t"
  unfolding was_read_def by (elim bexE, rule bexI) auto

text \<open>A step that only loses cached values keeps the invariant.\<close>

lemma cache_inv_shrink:
  assumes "cache_inv holds codec load w" and "\<And>k. holds (cw_redis v) k \<in> {None, holds (cw_redis w) k}"
    and "set (cw_reads w) = set (cw_reads v)" "cw_wall w \<le> cw_wall v"
    and "cw_fills v = cw_fills w"
    and "\<And>c. c \<in> set (cw_missed v) \<Longrightarrow> c \<in> set (cw_missed w) \<or> mc_started_at c \<le> cw_wall v"
  shows "cache_inv holds codec load v"
proof -
  note inv = assms(1) [unfolded cache_inv_def]
  have mono: "was_read load v scope content t" if "was_read load w scope content t" for scope content t
    by (rule was_read_mono [OF that]) (use assms(3,4) in simp_all)
  have "\<exists>scope content t. u = Raw_Text (payload_text codec scope content t) \<and> was_read load v scope content t"
    if "holds (cw_redis v) k = Some u" for k u
  proof -
    have "holds (cw_redis w) k = Some u" using that assms(2) [of k] by simp
    then obtain scope content t where x: "u = Raw_Text (payload_text codec scope content t)"
      "was_read load w scope content t" using inv by blast
    then show ?thesis using mono [OF x(2)] by (intro exI conjI)
  qed
  moreover have "\<forall>f \<in> set (cw_fills v). was_read load v (fl_scope f) (fl_content f) (fl_started_at f)"
    using inv mono unfolding assms(5) by simp
  moreover have "mc_started_at c \<le> cw_wall v" if "c \<in> set (cw_missed v)" for c
    using assms(6) [OF that] inv assms(4) order_trans by auto
  ultimately show ?thesis unfolding cache_inv_def by simp
qed

lemma redis_lawsD:
  assumes "redis_laws redis holds"
  shows "redis_get redis k r = (Reply (Some u), r1) \<Longrightarrow> holds r k = Some u"
    and "redis_get redis k r = (x, r1) \<Longrightarrow> holds r1 k' \<in> {None, holds r k'}"
    and "redis_set redis k v px r = (y, r1)
      \<Longrightarrow> holds r1 k' \<in> {None, holds r k'} \<union> (if k' = k then {Some (Raw_Text v)} else {})"
    and "redis_del redis ks r = (y, r1) \<Longrightarrow> holds r1 k' \<in> {None, holds r k'}"
  using assms unfolding redis_laws_def by simp_all

lemma lookup_redis:
  assumes "lookup redis valid key t0 t1 c r = (x, c1, r1)"
  shows "r1 = r \<or> (\<exists>y. redis_get redis key r = (y, r1))"
  using assms by (auto simp: lookup_def split: prod.splits if_splits)

lemma consult_redis:
  assumes "consult enabled redis valid key t0 t1 c r = (x, c1, r1)"
  shows "r1 = r \<or> (\<exists>y. redis_get redis key r = (y, r1))"
  using assms lookup_redis [of redis valid key t0 t1 c r]
  by (auto simp: consult_def split: prod.splits if_splits option.splits)

lemma redis_get_shrinks:
  "redis_laws redis holds \<Longrightarrow> r1 = r \<or> (\<exists>y. redis_get redis key r = (y, r1))
    \<Longrightarrow> holds r1 k \<in> {None, holds r k}"
  using redis_lawsD(2) [of redis holds key r] by auto

text \<open>A hit is the content of a payload that Redis holds and that passed the validation.\<close>

lemma consult_hit:
  assumes "redis_laws redis holds"
    and "consult enabled redis valid key t0 t1 c r = (Some (Cache_Hit content), c1, r1)"
  shows "\<exists>v. holds r key = Some v \<and> valid v = Some content"
proof -
  from assms(2) obtain v where "redis_get redis key r = (Reply (Some v), r1)" "valid v = Some content"
    by (auto simp: consult_def lookup_def Option.bind_eq_Some_conv
        split: prod.splits if_splits option.splits reply.splits)
  then show ?thesis using redis_lawsD(1) [OF assms(1)] by blast
qed

lemma valid_payload_Some:
  assumes "codec_laws codec"
    and "valid_payload codec content_ok scope wall (Raw_Text (payload_text codec scope' content' t)) = Some content"
  shows "scope' = scope \<and> content' = content \<and> wall - 10 < t \<and> t \<le> wall \<and> content_ok scope content"
  using assms unfolding codec_laws_def
  by (auto simp: valid_payload_def payload_text_def is_finite_decimal_def decimal_value_def Let_def
      max_age_seconds_def split: if_splits)

lemma cache_step_keeps:
  assumes laws: "redis_laws redis holds" and inv: "cache_inv holds codec load w"
    and "cache_step redis holds codec content_ok load w v"
  shows "cache_inv holds codec load v"
  using assms(3)
proof (cases rule: cache_step.cases)
  case (transaction s)
  then show ?thesis using cache_inv_shrink [OF inv, of v] by simp
next
  case (time t)
  then show ?thesis using cache_inv_shrink [OF inv, of v] by simp
next
  case (expiry r)
  then show ?thesis using cache_inv_shrink [OF inv, of v] by simp
next
  case (look_up enabled scope key t0 t1 c found c1 r ctx)
  show ?thesis
    by (rule cache_inv_shrink [OF inv])
      (use redis_get_shrinks [OF laws consult_redis [OF look_up(2)]] look_up(1)
        in \<open>auto split: option.splits finding.splits\<close>)
next
  case (source call content)
  let ?read = "\<lparr>rd_scope = mc_scope call, rd_context = mc_context call, rd_content = content,
    rd_time = cw_wall w, rd_db = cw_db w\<rparr>"
  have "mc_started_at call \<le> cw_wall w" using inv source(2) unfolding cache_inv_def by blast
  then have new: "was_read load v (mc_scope call) content (mc_started_at call)"
    using source(1,3) unfolding was_read_def by (intro bexI [of _ ?read]) simp_all
  have mono: "was_read load v scope c t" if "was_read load w scope c t" for scope c t
    by (rule was_read_mono [OF that]) (auto simp: source(1))
  have "\<exists>scope content t. u = Raw_Text (payload_text codec scope content t) \<and> was_read load v scope content t"
    if "holds (cw_redis v) k = Some u" for k u
  proof -
    have "holds (cw_redis w) k = Some u" using that source(1) by simp
    then obtain scope content t where x: "u = Raw_Text (payload_text codec scope content t)"
      "was_read load w scope content t" using inv unfolding cache_inv_def by blast
    then show ?thesis using mono [OF x(2)] by (intro exI conjI)
  qed
  moreover have "\<forall>f \<in> set (cw_fills v). was_read load v (fl_scope f) (fl_content f) (fl_started_at f)"
    using inv new mono unfolding cache_inv_def source(1) by simp
  moreover have "\<forall>c \<in> set (cw_missed v). mc_started_at c \<le> cw_wall v"
    using inv unfolding cache_inv_def source(1) by simp
  ultimately show ?thesis unfolding cache_inv_def by simp
next
  case (fill f m0 m1 t1 c x c1 r)
  let ?text = "payload_text codec (fl_scope f) (fl_content f) (fl_started_at f)"
  have read: "was_read load w (fl_scope f) (fl_content f) (fl_started_at f)"
    using inv fill(2) unfolding cache_inv_def by blast
  have "r = cw_redis w \<or> (\<exists>y px. redis_set redis (fl_key f) ?text px (cw_redis w) = (y, r))"
    using fill(3) by (auto simp: store_content_def Let_def payload_text_def split: prod.splits if_splits reply.splits)
  then have r: "holds r k \<in> {None, holds (cw_redis w) k} \<union> {Some (Raw_Text ?text)}" for k
  proof
    assume "\<exists>y px. redis_set redis (fl_key f) ?text px (cw_redis w) = (y, r)"
    then obtain y px where "redis_set redis (fl_key f) ?text px (cw_redis w) = (y, r)" by blast
    from redis_lawsD(3) [OF laws this, of k] show ?thesis by (auto split: if_splits)
  qed simp
  have same: "was_read load v = was_read load w" by (intro ext) (simp add: was_read_def fill(1))
  have "\<exists>scope content t. u = Raw_Text (payload_text codec scope content t) \<and> was_read load v scope content t"
    if "holds (cw_redis v) k = Some u" for k u
  proof -
    have "holds (cw_redis w) k = Some u \<or> u = Raw_Text ?text" using r [of k] that fill(1) by auto
    then show ?thesis
    proof
      assume "holds (cw_redis w) k = Some u"
      then show ?thesis using inv unfolding cache_inv_def same by blast
    next
      assume "u = Raw_Text ?text"
      then show ?thesis using read unfolding same by (intro exI conjI)
    qed
  qed
  then show ?thesis using inv unfolding cache_inv_def same by (simp add: fill(1))
next
  case (invalidation keys x r)
  have "holds r k \<in> {None, holds (cw_redis w) k}" for k
    using invalidation(2) redis_lawsD(4) [OF laws, of keys "cw_redis w" _ r k]
    by (auto simp: invalidate_def split: prod.splits if_splits)
  then show ?thesis using cache_inv_shrink [OF inv, of v] invalidation(1) by simp
qed

lemma cache_reachable:
  assumes "redis_laws redis holds" and "(cache_step redis holds codec content_ok load)\<^sup>*\<^sup>* w v"
    and "fresh_cache holds w"
  shows "cache_inv holds codec load v"
  using assms(2)
proof (induction rule: rtranclp_induct)
  case base
  then show ?case using assms(3) by (simp add: fresh_cache_def cache_inv_def)
next
  case (step u v)
  then show ?case using cache_step_keeps [OF assms(1)] by blast
qed

text \<open>The content of a hit was read from the source less than ten seconds ago.\<close>

lemma hit_is_recent:
  assumes "redis_laws redis holds" "codec_laws codec"
    and "(cache_step redis holds codec content_ok load)\<^sup>*\<^sup>* w v" "fresh_cache holds w"
    and "consult enabled redis (valid_payload codec content_ok scope (cw_wall v)) key t0 t1 c (cw_redis v)
      = (Some (Cache_Hit content), c1, r1)"
  shows "\<exists>x \<in> set (cw_reads v). rd_scope x = scope \<and> load (rd_context x) scope (rd_db x) = Inr content
    \<and> cw_wall v - 10 < rd_time x \<and> rd_time x \<le> cw_wall v"
proof -
  note inv = cache_reachable [OF assms(1,3,4)]
  obtain u where u: "holds (cw_redis v) key = Some u"
    "valid_payload codec content_ok scope (cw_wall v) u = Some content"
    using consult_hit [OF assms(1,5)] by blast
  obtain scope' content' t where x: "u = Raw_Text (payload_text codec scope' content' t)"
    "was_read load v scope' content' t" using inv u(1) unfolding cache_inv_def by blast
  have ok: "scope' = scope" "content' = content" "cw_wall v - 10 < t"
    using valid_payload_Some [OF assms(2) u(2) [unfolded x(1)]] by simp_all
  from x(2) obtain y where "y \<in> set (cw_reads v)" "rd_scope y = scope" "rd_content y = content"
    "t \<le> rd_time y" "rd_time y \<le> cw_wall v" "load (rd_context y) scope (rd_db y) = Inr content"
    unfolding was_read_def ok by blast
  then show ?thesis using ok(3) by (intro bexI [of _ y]) simp_all
qed

section \<open>Properties\<close>

definition menus_loader :: "(int, menu) loader" where
  "menus_loader context restaurant_id s = Inr (list_menus_for_restaurant s context restaurant_id)"

definition items_loader :: "(int \<times> int, cached_menu_item) loader" where
  "items_loader context scope s = bindR (load_menu_items s context (fst scope)) (\<lambda>views. Inr (map cached_item_of views))"

text \<open>
  C35. Cached menu lists are authorized and recent: whatever the other processes sharing the cache did
  before, when \<open>list_menus\<close> returns a list, the caller has access to the restaurant at that moment, and
  the list is the current one or one that was read from the database less than ten seconds ago, even
  when invalidations failed, fills raced with writes, or Redis lost data.
\<close>

theorem cached_menus_are_recent:
  assumes "redis_laws redis holds" and "codec_laws codec"
    and "(cache_step redis holds codec menus_ok menus_loader)\<^sup>*\<^sup>* w v" and "fresh_cache holds w"
    and "list_menus enabled redis codec cfg iv rid (cw_db v) (cw_wall v) t0 t1 w1 m0 m1 c (cw_redis v)
      = (Some (Inr ms), c1, r1)"
  shows "\<exists>ctx. current (cw_db v) (iv_user_id iv) = Inr ctx \<and> restaurant_exists (cw_db v) ctx rid
    \<and> ''menu.read'' \<in> set (role_capabilities (ac_role ctx))
    \<and> (ms = list_menus_for_restaurant (cw_db v) ctx rid
      \<or> (\<exists>x \<in> set (cw_reads v). cw_wall v - 10 < rd_time x \<and> rd_time x \<le> cw_wall v
          \<and> ms = list_menus_for_restaurant (rd_db x) (rd_context x) rid))"
proof -
  let ?s = "cw_db v"
  obtain found c2 r2 where f: "find_menus enabled redis codec cfg iv rid ?s (cw_wall v) t0 t1 c (cw_redis v)
      = (found, c2, r2)" by (metis prod_cases3)
  obtain ctx fd where ctx: "found = Some (Inr (ctx, fd))"
    using assms(5) f by (auto simp: list_menus_def split: option.splits sum.splits prod.splits)
  have acc: "current ?s (iv_user_id iv) = Inr ctx \<and> restaurant_exists ?s ctx rid
      \<and> ''menu.read'' \<in> set (role_capabilities (ac_role ctx))"
    and look: "consult enabled redis (valid_payload codec menus_ok rid (cw_wall v))
        (menus_key cfg (ac_organization_id ctx) rid) t0 t1 c (cw_redis v) = (Some fd, c2, r2)"
    using f unfolding ctx
    by (auto simp: find_menus_def bindR_Inr access_restaurant_Inr split: sum.splits prod.splits)
  show ?thesis
  proof (cases fd)
    case (Cache_Hit content)
    then have "ms = content" using assms(5) f unfolding ctx by (simp add: list_menus_def)
    moreover from hit_is_recent [OF assms(1-4) look [unfolded Cache_Hit]]
    obtain x where "x \<in> set (cw_reads v)" "cw_wall v - 10 < rd_time x" "rd_time x \<le> cw_wall v"
      "content = list_menus_for_restaurant (rd_db x) (rd_context x) rid"
      by (auto simp: menus_loader_def)
    ultimately show ?thesis using acc by blast
  next
    case (Cache_Miss key)
    then have "ms = list_menus_for_restaurant ?s ctx rid"
      using assms(5) f unfolding ctx
      by (auto simp: list_menus_def Let_def split: option.splits prod.splits)
    then show ?thesis using acc by blast
  qed
qed

text \<open>
  C36. Cached menu items are recent and their stock is live: the items \<open>list_menu_items\<close> returns are the
  current ones or ones read less than ten seconds ago, and availability is in both cases computed
  from the stock of this moment.
\<close>

theorem cached_items_have_live_stock:
  assumes "redis_laws redis holds" and "codec_laws codec"
    and "(cache_step redis holds codec items_ok items_loader)\<^sup>*\<^sup>* w v" and "fresh_cache holds w"
    and "list_menu_items enabled redis codec cfg iv mid (cw_db v) (cw_wall v) t0 t1 w1 m0 m1 c (cw_redis v)
      = (Some (Inr views), c1, r1)"
  shows "\<exists>ctx m. current (cw_db v) (iv_user_id iv) = Inr ctx \<and> get_menu_by_id (cw_db v) ctx mid = Some m
    \<and> ''menu.read'' \<in> set (role_capabilities (ac_role ctx))
    \<and> (load_menu_items (cw_db v) ctx mid = Inr views
      \<or> (\<exists>x \<in> set (cw_reads v). cw_wall v - 10 < rd_time x \<and> rd_time x \<le> cw_wall v
          \<and> (\<exists>old. load_menu_items (rd_db x) (rd_context x) mid = Inr old
             \<and> attach_menu_item_availability (cw_db v) (map (item_of_cached \<circ> cached_item_of) old) (Some mid) True
                 = Inr (Some views))))"
proof -
  let ?s = "cw_db v"
  obtain found c2 r2 where f: "find_menu_items enabled redis codec cfg iv mid ?s (cw_wall v) t0 t1 c (cw_redis v)
      = (found, c2, r2)" by (metis prod_cases3)
  obtain ctx m fd where ctx: "found = Some (Inr (ctx, m, fd))"
    using assms(5) f by (auto simp: list_menu_items_def split: option.splits sum.splits prod.splits)
  have acc: "current ?s (iv_user_id iv) = Inr ctx \<and> get_menu_by_id ?s ctx mid = Some m
      \<and> ''menu.read'' \<in> set (role_capabilities (ac_role ctx))"
    and look: "consult enabled redis (valid_payload codec items_ok (mid, mnu_restaurant_id m) (cw_wall v))
        (menu_items_key cfg (ac_organization_id ctx) mid) t0 t1 c (cw_redis v) = (Some fd, c2, r2)"
    using f unfolding ctx by (auto simp: find_menu_items_def res_simps split: sum.splits prod.splits)
  have "load_menu_items ?s ctx mid = Inr views \<or> (\<exists>content. fd = Cache_Hit content
      \<and> attach_menu_item_availability ?s (map item_of_cached content) (Some mid) True = Inr (Some views))"
    using assms(5) f unfolding ctx
    by (auto simp: list_menu_items_def Let_def split: option.splits prod.splits sum.splits finding.splits)
  then show ?thesis
  proof (elim disjE exE conjE)
    fix content
    assume hit: "fd = Cache_Hit content"
      and att: "attach_menu_item_availability ?s (map item_of_cached content) (Some mid) True = Inr (Some views)"
    from hit_is_recent [OF assms(1-4) look [unfolded hit]]
    obtain x old where x: "x \<in> set (cw_reads v)" "cw_wall v - 10 < rd_time x" "rd_time x \<le> cw_wall v"
      "load_menu_items (rd_db x) (rd_context x) mid = Inr old" "content = map cached_item_of old"
      by (auto simp: items_loader_def bindR_Inr)
    show ?thesis
      using acc x att
      by (intro exI [of _ ctx] exI [of _ m] conjI disjI2 bexI [of _ x] exI [of _ old]) (simp_all only: map_map)
  qed (use acc in blast)
qed

text \<open>A Redis server without expiry, and texts that are the payloads themselves.\<close>

definition map_redis :: "('x, string \<Rightarrow> 'x redis_value option) redis" where
  "map_redis = \<lparr>redis_get = (\<lambda>k r. (Reply (r k), r)),
     redis_set = (\<lambda>k v px r. (Reply (), r(k := Some (Raw_Text v)))),
     redis_del = (\<lambda>ks r. (Reply (), \<lambda>k. if k \<in> set ks then None else r k))\<rparr>"

definition plain_codec :: "('k, 'c, ('k, 'c) cache_payload) codec" where
  "plain_codec = \<lparr>cd_dump = id, cd_parse = Some\<rparr>"

lemma map_redis_laws: "redis_laws map_redis id" "codec_laws plain_codec"
  by (auto simp: redis_laws_def codec_laws_def map_redis_def plain_codec_def)

definition demo_settings :: redis_settings where
  "demo_settings = \<lparr>rs_environment = ''test'', rs_test_namespace = ''t''\<rparr>"

text \<open>
  One process reads the menus at time 100 and fills the cache; the menu is then renamed without an
  invalidation; at time 105 another read still hits.
\<close>

definition demo_reader :: access_context where
  "demo_reader = (case current demo_kitchen (iv_user_id demo_invocation) of Inr ctx \<Rightarrow> ctx | Inl _ \<Rightarrow> undefined)"

definition demo_menus_key :: string where
  "demo_menus_key = menus_key demo_settings (ac_organization_id demo_reader) 1"

definition demo_menus :: "menu list" where
  "demo_menus = menus demo_kitchen"

definition demo_filled :: "string \<Rightarrow> (int, menu) cache_payload redis_value option" where
  "demo_filled = (\<lambda>k. if k = demo_menus_key then Some (Raw_Text \<lparr>cp_schema_version = 1, cp_scope = 1,
     cp_source_started_at = Finite 100, cp_content = demo_menus\<rparr>) else None)"

definition demo_rename :: db where
  "demo_rename = demo_kitchen\<lparr>menus := map (\<lambda>m. m\<lparr>mnu_name := ''Dinner''\<rparr>) demo_menus\<rparr>"

definition demo_world :: "db \<Rightarrow> (string \<Rightarrow> (int, menu) cache_payload redis_value option)
    \<Rightarrow> (int, menu, string \<Rightarrow> (int, menu) cache_payload redis_value option) cache_world" where
  "demo_world s r = \<lparr>cw_wall = 100, cw_db = s, cw_redis = r, cw_missed = [], cw_fills = [], cw_reads = []\<rparr>"

lemma demo_cache_facts:
  "succeeds_with (current demo_kitchen (iv_user_id demo_invocation))
     (\<lambda>ctx. list_menus_for_restaurant demo_kitchen ctx 1 = demo_menus)"
  "(case list_menus True map_redis plain_codec demo_settings demo_invocation 1 demo_rename 105 0 0 105 0 0
      closed_circuit demo_filled of (Some (Inr ms), _, _) \<Rightarrow> ms = demo_menus | _ \<Rightarrow> False)"
  "demo_menus \<noteq> menus demo_rename"
  by code_simp+

lemma demo_reader_current: "current demo_kitchen (iv_user_id demo_invocation) = Inr demo_reader"
  "list_menus_for_restaurant demo_kitchen demo_reader 1 = demo_menus"
  using demo_cache_facts(1) by (auto simp: demo_reader_def succeeds_with_def split: sum.splits)

abbreviation demo_cache_step where
  "demo_cache_step \<equiv> cache_step map_redis id plain_codec menus_ok menus_loader"

lemma demo_world_reached:
  obtains v where "demo_cache_step\<^sup>*\<^sup>* (demo_world demo_kitchen (\<lambda>_. None)) v"
    "cw_wall v = 105" "cw_db v = demo_rename" "cw_redis v = demo_filled"
proof -
  let ?w = "demo_world demo_kitchen (\<lambda>_. None)"
  let ?call = "\<lparr>mc_scope = 1, mc_context = demo_reader, mc_key = demo_menus_key, mc_started_at = 100\<rparr>"
  let ?fill = "\<lparr>fl_scope = 1, fl_key = demo_menus_key, fl_started_at = 100, fl_content = demo_menus\<rparr>"
  let ?read = "\<lparr>rd_scope = 1, rd_context = demo_reader, rd_content = demo_menus, rd_time = 100, rd_db = demo_kitchen\<rparr>"
  have look: "consult True map_redis (valid_payload plain_codec menus_ok 1 (cw_wall ?w)) demo_menus_key 0 0
      closed_circuit (cw_redis ?w) = (Some (Cache_Miss (Some demo_menus_key)), closed_circuit, cw_redis ?w)"
    by (simp add: consult_def lookup_def begin_lookup_def conclude_lookup_def closed_circuit_def map_redis_def
        demo_world_def)
  let ?w1 = "?w\<lparr>cw_missed := [?call]\<rparr>"
  have 1: "demo_cache_step ?w ?w1" using cache_step.look_up [OF look, of id menus_loader demo_reader]
    by (simp add: demo_world_def)
  let ?w2 = "?w1\<lparr>cw_fills := [?fill], cw_reads := [?read]\<rparr>"
  have "menus_loader demo_reader 1 demo_kitchen = Inr demo_menus"
    by (simp add: menus_loader_def demo_reader_current)
  then have 2: "demo_cache_step ?w1 ?w2"
    using cache_step.source [of ?call ?w1 menus_loader demo_menus map_redis id plain_codec menus_ok]
    by (simp add: demo_world_def)
  let ?w3 = "?w2\<lparr>cw_redis := demo_filled\<rparr>"
  have "store_content map_redis plain_codec demo_menus_key 1 demo_menus 100 0 0 0 closed_circuit (\<lambda>_. None)
      = (Some (), closed_circuit, demo_filled)"
    by (simp add: store_content_def elapsed_ms_def max_age_ms_def map_redis_def plain_codec_def demo_filled_def
        fun_eq_iff)
  then have 3: "demo_cache_step ?w2 ?w3"
    using cache_step.fill [of ?fill ?w2 map_redis plain_codec 0 0 0 closed_circuit _ _ demo_filled id menus_ok
        menus_loader] by (simp add: demo_world_def)
  let ?w4 = "?w3\<lparr>cw_db := demo_rename\<rparr>"
  have 4: "demo_cache_step ?w3 ?w4" by (rule cache_step.transaction)
  let ?v = "?w4\<lparr>cw_wall := 105\<rparr>"
  have 5: "demo_cache_step ?w4 ?v" by (rule cache_step.time) (simp add: demo_world_def)
  have "demo_cache_step\<^sup>*\<^sup>* ?w ?v"
    using 1 2 3 4 5 by (meson rtranclp.rtrancl_into_rtrancl rtranclp.rtrancl_refl)
  then show ?thesis by (rule that) (simp_all add: demo_world_def)
qed

theorem cached_menus_are_recent_witness:
  "\<exists>v ms c r. demo_cache_step\<^sup>*\<^sup>* (demo_world demo_kitchen (\<lambda>_. None)) v
     \<and> list_menus True map_redis plain_codec demo_settings demo_invocation 1 (cw_db v) (cw_wall v)
         0 0 105 0 0 closed_circuit (cw_redis v) = (Some (Inr ms), c, r)
     \<and> (\<exists>ctx. current (cw_db v) (iv_user_id demo_invocation) = Inr ctx \<and> restaurant_exists (cw_db v) ctx 1)"
proof -
  obtain v where v: "demo_cache_step\<^sup>*\<^sup>* (demo_world demo_kitchen (\<lambda>_. None)) v"
    "cw_wall v = 105" "cw_db v = demo_rename" "cw_redis v = demo_filled" by (rule demo_world_reached)
  have fresh: "fresh_cache id (demo_world demo_kitchen (\<lambda>_. None))"
    by (simp add: fresh_cache_def demo_world_def)
  obtain ms c r where l: "list_menus True map_redis plain_codec demo_settings demo_invocation 1 (cw_db v) (cw_wall v)
         0 0 105 0 0 closed_circuit (cw_redis v) = (Some (Inr ms), c, r)"
    using demo_cache_facts(2) unfolding v by (auto split: prod.splits option.splits sum.splits)
  from cached_menus_are_recent [OF map_redis_laws v(1) fresh l] v(1) l show ?thesis by blast
qed

text \<open>The items of the sample menu, read from the source and then from a filled cache.\<close>

definition demo_items_world :: "(int \<times> int, cached_menu_item, string \<Rightarrow>
    (int \<times> int, cached_menu_item) cache_payload redis_value option) cache_world" where
  "demo_items_world = \<lparr>cw_wall = 100, cw_db = demo_kitchen, cw_redis = (\<lambda>_. None), cw_missed = [],
     cw_fills = [], cw_reads = []\<rparr>"

lemma demo_items_run:
  "(case list_menu_items True map_redis plain_codec demo_settings demo_invocation 1 demo_kitchen 100 0 0 100 0 0
      closed_circuit (\<lambda>_. None) of (Some (Inr views), _, _) \<Rightarrow> map (mi_name \<circ> miv_item) views = [''Soup'']
    | _ \<Rightarrow> False)"
  by code_simp

theorem cached_items_have_live_stock_witness:
  "\<exists>views c r ctx m. list_menu_items True map_redis plain_codec demo_settings demo_invocation 1 demo_kitchen 100
      0 0 100 0 0 closed_circuit (\<lambda>_. None) = (Some (Inr views), c, r)
    \<and> get_menu_by_id demo_kitchen ctx 1 = Some m \<and> load_menu_items demo_kitchen ctx 1 = Inr views"
proof -
  let ?w = demo_items_world
  have fresh: "fresh_cache id ?w" by (simp add: fresh_cache_def demo_items_world_def)
  obtain views c r where l: "list_menu_items True map_redis plain_codec demo_settings demo_invocation 1 (cw_db ?w)
      (cw_wall ?w) 0 0 100 0 0 closed_circuit (cw_redis ?w) = (Some (Inr views), c, r)"
    using demo_items_run by (auto simp: demo_items_world_def split: prod.splits option.splits sum.splits)
  have "cw_reads ?w = []" by (simp add: demo_items_world_def)
  with cached_items_have_live_stock [OF map_redis_laws rtranclp.rtrancl_refl fresh l]
  obtain ctx m where "get_menu_by_id (cw_db ?w) ctx 1 = Some m" "load_menu_items (cw_db ?w) ctx 1 = Inr views"
    by auto
  with l show ?thesis by (intro exI conjI) (simp_all add: demo_items_world_def)
qed

section \<open>The circuit breaker of a process\<close>

text \<open>
  Concurrent requests of a process share its circuit. A lookup begins and concludes in two atomic
  steps; in between it is in flight, as the probe or as an ordinary lookup. Stores may fail at any time.
\<close>

record circuit_world =
  cc_circuit :: circuit
  cc_in_flight :: "bool list"

inductive circuit_step :: "circuit_world \<Rightarrow> circuit_world \<Rightarrow> bool" where
  admit: "begin_lookup now (cc_circuit w) = ((allowed, is_probe), c)
    \<Longrightarrow> circuit_step w \<lparr>cc_circuit = c,
          cc_in_flight = cc_in_flight w @ (if allowed then [is_probe] else [])\<rparr>"
| conclude: "cc_in_flight w = xs @ is_probe # ys
    \<Longrightarrow> circuit_step w \<lparr>cc_circuit = conclude_lookup is_probe (reply :: unit reply) now (cc_circuit w),
          cc_in_flight = xs @ ys\<rparr>"
| store_failed: "circuit_step w (w\<lparr>cc_circuit := open_circuit now (cc_circuit w)\<rparr>)"

definition single_probe :: "circuit_world \<Rightarrow> bool" where
  "single_probe w = (length (filter id (cc_in_flight w)) = (if ci_probe_in_flight (cc_circuit w) then 1 else 0))"

lemma circuit_probe [simp]:
  "ci_probe_in_flight (open_circuit now c) = ci_probe_in_flight c"
  "ci_probe_in_flight (finish_probe b c) = False"
  "ci_probe_in_flight (conclude_lookup p reply now c) = (if p then False else ci_probe_in_flight c)"
  by (auto simp: open_circuit_def finish_probe_def conclude_lookup_def Let_def split: reply.splits)

lemma circuit_step_keeps: "single_probe w \<Longrightarrow> circuit_step w v \<Longrightarrow> single_probe v"
  by (erule circuit_step.cases)
    (auto simp: single_probe_def begin_lookup_def split: option.splits if_splits)

interpretation circuits: step_invariant circuit_step single_probe
  by standard (rule circuit_step_keeps)

text \<open>
  The circuit breaker admits one probe at a time: in every state that the concurrent lookups of a
  process reach, at most one lookup in flight is a probe. A lookup is admitted exactly when the circuit
  is closed, or when its cooldown has passed and no probe is in flight, and then as the probe, so the
  circuit cannot stay open for want of one. A reply to the probe closes the circuit; a lost connection
  keeps it open for the cooldown.
\<close>

theorem circuit_admits_one_probe:
  assumes "circuit_step\<^sup>*\<^sup>* \<lparr>cc_circuit = closed_circuit, cc_in_flight = []\<rparr> w"
    and "begin_lookup now (cc_circuit w) = ((allowed, is_probe), c)"
  shows "length (filter id (cc_in_flight w)) \<le> 1
    \<and> (allowed \<longleftrightarrow> (case ci_open_until (cc_circuit w) of None \<Rightarrow> True
        | Some t \<Rightarrow> t \<le> now \<and> filter id (cc_in_flight w) = []))
    \<and> (is_probe \<longleftrightarrow> allowed \<and> ci_open_until (cc_circuit w) \<noteq> None)
    \<and> (is_probe \<longrightarrow> ci_open_until (conclude_lookup True (Reply raw) t1 c) = None
        \<and> ci_open_until (conclude_lookup True (Redis_Failure Redis_Connection :: 'a reply) t1 c) = Some (t1 + 5))"
proof -
  have "single_probe \<lparr>cc_circuit = closed_circuit, cc_in_flight = []\<rparr>"
    by (simp add: single_probe_def closed_circuit_def)
  then have inv: "single_probe w" by (rule circuits.reachable_keeps [OF assms(1)])
  have "ci_probe_in_flight (cc_circuit w) \<longleftrightarrow> filter id (cc_in_flight w) \<noteq> []"
    using inv unfolding single_probe_def by (metis length_0_conv zero_neq_one)
  then show ?thesis
    using assms(2) inv
    by (auto simp: begin_lookup_def single_probe_def conclude_lookup_def finish_probe_def open_circuit_def Let_def
        trips_def cooldown_seconds_def split: option.splits if_splits)
qed

theorem circuit_admits_one_probe_witness:
  "\<exists>w c. circuit_step\<^sup>*\<^sup>* \<lparr>cc_circuit = closed_circuit, cc_in_flight = []\<rparr> w
     \<and> begin_lookup 106 (cc_circuit w) = ((True, True), c) \<and> length (filter id (cc_in_flight w)) \<le> 1"
proof -
  let ?w = "\<lparr>cc_circuit = open_circuit 100 closed_circuit, cc_in_flight = []\<rparr>"
  have run: "circuit_step\<^sup>*\<^sup>* \<lparr>cc_circuit = closed_circuit, cc_in_flight = []\<rparr> ?w"
    using circuit_step.store_failed [of "\<lparr>cc_circuit = closed_circuit, cc_in_flight = []\<rparr>" 100] by simp
  obtain c where b: "begin_lookup 106 (cc_circuit ?w) = ((True, True), c)"
    by (simp add: begin_lookup_def open_circuit_def closed_circuit_def cooldown_seconds_def Let_def)
  show ?thesis
    using run b conjunct1 [OF circuit_admits_one_probe [OF run b]] by (intro exI [of _ ?w] exI [of _ c] conjI)
qed

end
