(* ===== verification/Rate_Limit.thy ===== *)
theory Rate_Limit
  imports Redis_Adapter "HOL-Library.AList"
begin

text \<open>
  The in-process side of the authentication rate limiter (\<open>auth/rate_limit.py\<close>): buckets and their
  keys, admission and finalization in the local tables, and the switch between Redis and local mode
  with its recovery probes. The two Lua scripts are modelled in \<open>Rate_Scripts\<close>; here a script's reply
  is an argument. Clock readings are arguments too, in seconds; readings that one critical section takes
  in a row are one reading. Each section between two \<open>await\<close>s is one definition, so that concurrent
  requests are sequences of these sections.
\<close>

section \<open>Errors of authentication\<close>

text \<open>\<open>auth/domain/errors.py\<close>; \<open>Auth_Cancelled\<close> is a cancellation that propagates.\<close>

datatype auth_error = AuthenticationError | RateLimitError int | AuthStorageError | Auth_Cancelled

section \<open>Buckets and keys\<close>

record limiter_settings =
  ls_login_email_limit :: int
  ls_login_ip_limit :: int
  ls_login_window_seconds :: int
  ls_login_ip_window_seconds :: int
  ls_refresh_family_limit :: int
  ls_refresh_ip_limit :: int
  ls_refresh_window_seconds :: int
  ls_local_max_entries :: int

record bucket =
  bk_key :: string
  bk_maximum :: int
  bk_local_maximum :: int
  bk_window :: int

text \<open>The hexadecimal HMAC under the rate-limit secret is the parameter \<open>mac\<close>.\<close>

definition framed :: "string list \<Rightarrow> string" where
  "framed identifiers = concat (map (\<lambda>v. py_str_int (int (length v)) @ '':'' @ v) identifiers)"

definition limiter_key :: "(string \<Rightarrow> string) \<Rightarrow> string \<Rightarrow> string list \<Rightarrow> string" where
  "limiter_key mac kind identifiers = kind @ '':'' @ mac (kind @ '':'' @ framed identifiers)"

definition login_buckets :: "limiter_settings \<Rightarrow> (string \<Rightarrow> string) \<Rightarrow> string \<Rightarrow> string \<Rightarrow> bucket list" where
  "login_buckets cfg mac email ip =
     [\<lparr>bk_key = limiter_key mac ''login-pair'' [email, ip], bk_maximum = ls_login_email_limit cfg,
       bk_local_maximum = 3, bk_window = ls_login_window_seconds cfg\<rparr>,
      \<lparr>bk_key = limiter_key mac ''login-ip'' [ip], bk_maximum = ls_login_ip_limit cfg,
       bk_local_maximum = 10, bk_window = ls_login_ip_window_seconds cfg\<rparr>]"

definition refresh_ip :: "limiter_settings \<Rightarrow> (string \<Rightarrow> string) \<Rightarrow> string \<Rightarrow> bucket list" where
  "refresh_ip cfg mac ip =
     [\<lparr>bk_key = limiter_key mac ''refresh-ip'' [ip], bk_maximum = ls_refresh_ip_limit cfg,
       bk_local_maximum = 50, bk_window = ls_refresh_window_seconds cfg\<rparr>]"

definition refresh_family :: "limiter_settings \<Rightarrow> (string \<Rightarrow> string) \<Rightarrow> string \<Rightarrow> bucket list" where
  "refresh_family cfg mac family =
     [\<lparr>bk_key = limiter_key mac ''refresh-family'' [family], bk_maximum = ls_refresh_family_limit cfg,
       bk_local_maximum = 5, bk_window = ls_refresh_window_seconds cfg\<rparr>]"

text \<open>Every bucket the limiter is ever asked about.\<close>

definition issued_bucket :: "limiter_settings \<Rightarrow> (string \<Rightarrow> string) \<Rightarrow> bucket \<Rightarrow> bool" where
  "issued_bucket cfg mac b = (\<exists>email ip family. b \<in> set (login_buckets cfg mac email ip)
     \<union> set (refresh_ip cfg mac ip) \<union> set (refresh_family cfg mac family))"

section \<open>Local tables\<close>

record local_bucket =
  lb_failures :: "(string \<times> rat) list"
  lb_reservations :: "(string \<times> rat) list"

record limiter =
  lim_entries :: "(string \<times> local_bucket) list"
  lim_degraded_at :: "rat option"
  lim_next_probe :: rat
  lim_probing :: bool
  lim_successes :: int
  lim_generation :: int

record admission =
  adm_id :: string
  adm_buckets :: "bucket list"
  adm_redis :: bool
  adm_local :: bool

definition lease_seconds :: int where
  "lease_seconds = 10"

definition new_limiter :: limiter where
  "new_limiter = \<lparr>lim_entries = [], lim_degraded_at = None, lim_next_probe = 0, lim_probing = False,
     lim_successes = 0, lim_generation = 0\<rparr>"

definition unexpired :: "rat \<Rightarrow> (string \<times> rat) list \<Rightarrow> (string \<times> rat) list" where
  "unexpired now xs = filter (\<lambda>(_, v). v > now) xs"

definition clean_bucket :: "rat \<Rightarrow> local_bucket \<Rightarrow> local_bucket" where
  "clean_bucket now e = e\<lparr>lb_failures := unexpired now (lb_failures e),
     lb_reservations := unexpired now (lb_reservations e)\<rparr>"

definition clean_entries :: "rat \<Rightarrow> (string \<times> local_bucket) list \<Rightarrow> (string \<times> local_bucket) list" where
  "clean_entries now xs = filter (\<lambda>(_, e). lb_failures e \<noteq> [] \<or> lb_reservations e \<noteq> [])
     (map (\<lambda>(k, e). (k, clean_bucket now e)) xs)"

definition bucket_load :: "local_bucket \<Rightarrow> int" where
  "bucket_load e = int (length (lb_failures e) + length (lb_reservations e))"

text \<open>The buckets a local admission reserves in; with \<open>guard\<close> only those with surviving local state.\<close>

definition tracked :: "bool \<Rightarrow> string \<Rightarrow> (string \<times> local_bucket) list \<Rightarrow> bucket list \<Rightarrow> bucket list" where
  "tracked guard identifier xs buckets = filter (\<lambda>b.
     (\<not> guard \<or> map_of xs (bk_key b) \<noteq> None)
     \<and> \<not> (case map_of xs (bk_key b) of None \<Rightarrow> False
          | Some e \<Rightarrow> map_of (lb_failures e) identifier \<noteq> None)) buckets"

text \<open>How long a caller must wait: until the first entry of a full bucket expires, 0 when none is full.\<close>

definition local_retry :: "rat \<Rightarrow> (string \<times> local_bucket) list \<Rightarrow> bucket list \<Rightarrow> rat" where
  "local_retry now xs buckets = foldl (\<lambda>retry b.
     case map_of xs (bk_key b) of None \<Rightarrow> retry
     | Some e \<Rightarrow> if bucket_load e \<ge> bk_local_maximum b
         then max retry (Min (set (map snd (lb_failures e @ lb_reservations e))) - now) else retry) 0 buckets"

definition reserve :: "string \<Rightarrow> rat \<Rightarrow> bucket \<Rightarrow> (string \<times> local_bucket) list \<Rightarrow> (string \<times> local_bucket) list" where
  "reserve identifier expiry b xs =
     (let e = (case map_of xs (bk_key b) of None \<Rightarrow> \<lparr>lb_failures = [], lb_reservations = []\<rparr> | Some e \<Rightarrow> e)
      in AList.update (bk_key b) (e\<lparr>lb_reservations := AList.update identifier expiry (lb_reservations e)\<rparr>) xs)"

definition local_admit ::
  "limiter_settings \<Rightarrow> bucket list \<Rightarrow> string \<Rightarrow> bool \<Rightarrow> rat \<Rightarrow> limiter \<Rightarrow> (auth_error + bool) \<times> limiter" where
  "local_admit cfg buckets identifier guard now st =
     (let xs = clean_entries now (lim_entries st); st1 = st\<lparr>lim_entries := xs\<rparr>;
          wanted = tracked guard identifier xs buckets; retry = local_retry now xs wanted in
      if retry > 0 then (Inl (RateLimitError (max 1 \<lceil>retry\<rceil>)), st1)
      else if int (length xs + length (filter (\<lambda>b. map_of xs (bk_key b) = None) wanted)) > ls_local_max_entries cfg
      then (Inl (RateLimitError lease_seconds), st1)
      else (Inr (wanted \<noteq> []),
            st1\<lparr>lim_entries := fold (reserve identifier (now + of_int lease_seconds)) wanted xs\<rparr>))"

definition window_remaining :: "int \<Rightarrow> rat \<Rightarrow> rat" where
  "window_remaining window wall = of_int window - (wall - of_int window * of_int \<lfloor>wall / of_int window\<rfloor>)"

definition finalize_bucket ::
  "string \<Rightarrow> bool \<Rightarrow> bool \<Rightarrow> rat \<Rightarrow> (bucket \<Rightarrow> rat) \<Rightarrow> bucket
     \<Rightarrow> (string \<times> local_bucket) list \<Rightarrow> (string \<times> local_bucket) list" where
  "finalize_bucket identifier count' discard now wall b xs = (case map_of xs (bk_key b) of
      None \<Rightarrow> xs
    | Some e \<Rightarrow>
        (let e1 = (if discard then e\<lparr>lb_failures := AList.delete identifier (lb_failures e)\<rparr> else e);
             e2 = e1\<lparr>lb_reservations := AList.delete identifier (lb_reservations e1)\<rparr>;
             e3 = (if map_of (lb_reservations e1) identifier \<noteq> None \<and> count'
                   then e2\<lparr>lb_failures := AList.update identifier
                          (now + window_remaining (bk_window b) (wall b)) (lb_failures e2)\<rparr>
                   else e2)
         in AList.update (bk_key b) e3 xs))"

definition local_finalize ::
  "admission \<Rightarrow> bool \<Rightarrow> bool \<Rightarrow> rat \<Rightarrow> (bucket \<Rightarrow> rat) \<Rightarrow> limiter \<Rightarrow> limiter" where
  "local_finalize adm count' discard now wall st = st\<lparr>lim_entries := clean_entries now
     (fold (finalize_bucket (adm_id adm) count' discard now wall) (adm_buckets adm)
        (clean_entries now (lim_entries st)))\<rparr>"

section \<open>Degraded mode and recovery\<close>

definition degrade :: "rat \<Rightarrow> limiter \<Rightarrow> limiter" where
  "degrade now st = st\<lparr>lim_generation := lim_generation st + 1,
     lim_degraded_at := (case lim_degraded_at st of None \<Rightarrow> Some now | Some t \<Rightarrow> Some t),
     lim_successes := 0, lim_next_probe := now + 5\<rparr>"

text \<open>The reply of a script, as the limiter inspects it.\<close>

datatype script_reply = Int_Reply int | Other_Reply

datatype mode_choice = Known_Mode bool | Send_Probe int

definition begin_mode :: "rat \<Rightarrow> limiter \<Rightarrow> mode_choice \<times> limiter" where
  "begin_mode now st =
     (let degraded = lim_degraded_at st \<noteq> None in
      if degraded \<and> \<not> lim_probing st \<and> now \<ge> lim_next_probe st
      then (Send_Probe (lim_generation st), st\<lparr>lim_probing := True, lim_next_probe := now + 5\<rparr>)
      else (Known_Mode degraded, st))"

definition probe_passed :: "int \<Rightarrow> limiter \<Rightarrow> limiter" where
  "probe_passed generation st =
     (if generation = lim_generation st
      then let n = lim_successes st + 1; st1 = st\<lparr>lim_successes := n\<rparr> in
        if n = 3 then st1\<lparr>lim_degraded_at := None\<rparr> else st1
      else st)"

definition conclude_mode ::
  "int \<Rightarrow> script_reply reply \<Rightarrow> rat \<Rightarrow> limiter \<Rightarrow> (auth_error + bool) \<times> limiter" where
  "conclude_mode generation r now st =
     (let st1 = (if r = Reply (Int_Reply 0) then probe_passed generation st else degrade now st);
          st2 = st1\<lparr>lim_probing := False\<rparr>
      in (if r = Cancelled then Inl Auth_Cancelled else Inr (lim_degraded_at st2 \<noteq> None), st2))"

section \<open>Admission and finalization\<close>

datatype route = Admitted admission | Ask_Redis admission

definition admit_route ::
  "limiter_settings \<Rightarrow> bucket list \<Rightarrow> string \<Rightarrow> bool \<Rightarrow> rat \<Rightarrow> limiter \<Rightarrow> (auth_error + route) \<times> limiter" where
  "admit_route cfg buckets identifier degraded now st =
     (case local_admit cfg buckets identifier (\<not> degraded) now st of
        (Inl e, st1) \<Rightarrow> (Inl e, st1)
      | (Inr local, st1) \<Rightarrow>
          (Inr (if degraded then Admitted \<lparr>adm_id = identifier, adm_buckets = buckets, adm_redis = False, adm_local = True\<rparr>
                else Ask_Redis \<lparr>adm_id = identifier, adm_buckets = buckets, adm_redis = True, adm_local = local\<rparr>), st1))"

definition fall_back ::
  "limiter_settings \<Rightarrow> admission \<Rightarrow> rat \<Rightarrow> (bucket \<Rightarrow> rat) \<Rightarrow> limiter \<Rightarrow> (auth_error + admission) \<times> limiter" where
  "fall_back cfg adm now wall st =
     (case local_admit cfg (adm_buckets adm) (adm_id adm) False now
             (local_finalize adm False False now wall (degrade now st)) of
        (Inl e, st1) \<Rightarrow> (Inl e, st1)
      | (Inr _, st1) \<Rightarrow> (Inr (adm\<lparr>adm_redis := False, adm_local := True\<rparr>), st1))"

definition admit_conclude ::
  "limiter_settings \<Rightarrow> admission \<Rightarrow> script_reply reply \<Rightarrow> rat \<Rightarrow> (bucket \<Rightarrow> rat) \<Rightarrow> limiter
     \<Rightarrow> (auth_error + admission) \<times> limiter" where
  "admit_conclude cfg adm r now wall st = (case r of
      Reply (Int_Reply n) \<Rightarrow>
        if n < 0 then fall_back cfg adm now wall st
        else if n > 0 then (Inl (RateLimitError n), local_finalize adm False False now wall st)
        else (Inr adm, st)
    | Reply Other_Reply \<Rightarrow> fall_back cfg adm now wall st
    | Redis_Failure _ \<Rightarrow> fall_back cfg adm now wall st
    | Cancelled \<Rightarrow> (Inl Auth_Cancelled, local_finalize adm False False now wall st))"

definition finalize_conclude ::
  "limiter_settings \<Rightarrow> admission \<Rightarrow> bool \<Rightarrow> unit reply \<Rightarrow> rat \<Rightarrow> (bucket \<Rightarrow> rat) \<Rightarrow> limiter
     \<Rightarrow> (auth_error + unit) \<times> limiter" where
  "finalize_conclude cfg adm count' r now wall st = (case r of
      Reply _ \<Rightarrow> (Inr (), st)
    | Cancelled \<Rightarrow> (Inl Auth_Cancelled, st)
    | Redis_Failure _ \<Rightarrow>
        (let st1 = degrade now st in
         if count' then
           (case local_admit cfg (adm_buckets adm) (adm_id adm) False now st1 of
              (Inl _, st2) \<Rightarrow> (Inr (), st2)
            | (Inr _, st2) \<Rightarrow> (Inr (), local_finalize adm True False now wall st2))
         else (Inr (), st1)))"

text \<open>
  The whole operations, for a caller that no other task interleaves with: \<open>limiter_clock\<close> holds the
  successive readings, and the two replies are those of the probe and of the script.
\<close>

record limiter_clock =
  lc_mode :: rat
  lc_probe :: rat
  lc_route :: rat
  lc_end :: rat
  lc_wall :: "bucket \<Rightarrow> rat"

definition admit ::
  "limiter_settings \<Rightarrow> limiter_clock \<Rightarrow> script_reply reply \<Rightarrow> script_reply reply \<Rightarrow> string \<Rightarrow> bucket list
     \<Rightarrow> limiter \<Rightarrow> (auth_error + admission) \<times> limiter" where
  "admit cfg clock probe_reply admit_reply identifier buckets st =
     (let (m, st2) = (case begin_mode (lc_mode clock) st of
            (Known_Mode d, st1) \<Rightarrow> (Inr d, st1)
          | (Send_Probe g, st1) \<Rightarrow> conclude_mode g probe_reply (lc_probe clock) st1)
      in case m of
        Inl e \<Rightarrow> (Inl e, st2)
      | Inr degraded \<Rightarrow>
          (case admit_route cfg buckets identifier degraded (lc_route clock) st2 of
             (Inl e, st3) \<Rightarrow> (Inl e, st3)
           | (Inr (Admitted adm), st3) \<Rightarrow> (Inr adm, st3)
           | (Inr (Ask_Redis adm), st3) \<Rightarrow> admit_conclude cfg adm admit_reply (lc_end clock) (lc_wall clock) st3))"

definition finalize ::
  "limiter_settings \<Rightarrow> limiter_clock \<Rightarrow> unit reply \<Rightarrow> admission \<Rightarrow> bool \<Rightarrow> bool \<Rightarrow> limiter
     \<Rightarrow> (auth_error + unit) \<times> limiter" where
  "finalize cfg clock r adm count' discard st =
     (let st1 = local_finalize adm count' discard (lc_route clock) (lc_wall clock) st in
      if adm_redis adm then finalize_conclude cfg adm count' r (lc_end clock) (lc_wall clock) st1
      else (Inr (), st1))"

section \<open>Keys are unambiguous\<close>

lemma nat_digits_chars: "c \<in> set (nat_digits n) \<Longrightarrow> \<exists>d < 10. c = char_of (48 + d :: nat)"
proof (induction n rule: nat_digits.induct)
  case (1 n)
  show ?case
  proof (cases "n < 10")
    case True
    then show ?thesis using 1(2) by (subst (asm) nat_digits.simps) auto
  next
    case False
    then have "c \<in> set (nat_digits (n div 10)) \<or> c = char_of (48 + n mod 10)"
      using 1(2) by (subst (asm) nat_digits.simps) auto
    then show ?thesis using 1(1) [OF False] by (auto intro: exI [of _ "n mod 10"])
  qed
qed

lemma nat_digits_inj: "nat_digits m = nat_digits n \<Longrightarrow> m = n"
proof (induction m arbitrary: n rule: nat_digits.induct)
  case (1 m)
  have digit: "char_of (48 + a :: nat) = char_of (48 + b) \<Longrightarrow> a < 10 \<Longrightarrow> b < 10 \<Longrightarrow> a = b" for a b
  proof -
    assume "char_of (48 + a :: nat) = char_of (48 + b)" "a < 10" "b < 10"
    then have "(of_char (char_of (48 + a)) :: nat) = of_char (char_of (48 + b))" by simp
    then show "a = b" using \<open>a < 10\<close> \<open>b < 10\<close> by (simp only: of_char_of) simp
  qed
  have small: "nat_digits k = [char_of (48 + k)]" if "k < 10" for k
    using that by (subst nat_digits.simps) simp
  have large: "nat_digits k = nat_digits (k div 10) @ [char_of (48 + k mod 10)]" if "\<not> k < 10" for k
    using that by (subst nat_digits.simps) simp
  show ?case
  proof (cases "m < 10")
    case True
    show ?thesis
    proof (cases "n < 10")
      case True
      with \<open>m < 10\<close> 1(2) small digit show ?thesis by simp
    next
      case False
      with \<open>m < 10\<close> 1(2) show ?thesis by (simp add: small large not_sym [OF nat_digits_nonempty])
    qed
  next
    case False
    show ?thesis
    proof (cases "n < 10")
      case True
      with False 1(2) show ?thesis by (simp add: small large)
    next
      case n: False
      have "nat_digits (m div 10) = nat_digits (n div 10)" "m mod 10 = n mod 10"
        using 1(2) digit [of "m mod 10" "n mod 10"] by (simp_all add: large [OF False] large [OF n])
      then show ?thesis using 1(1) [OF False] by (metis mod_mult_div_eq)
    qed
  qed
qed

lemma framed_cut:
  assumes "nat_digits m @ CHR '':'' # xs = nat_digits n @ CHR '':'' # ys"
  shows "m = n \<and> xs = ys"
proof -
  have "CHR '':'' \<notin> set (nat_digits k)" for k
  proof
    assume "CHR '':'' \<in> set (nat_digits k)"
    then obtain d where d: "d < 10" "CHR '':'' = char_of (48 + d :: nat)" using nat_digits_chars by blast
    have "(of_char (CHR '':'') :: nat) = 58" by simp
    then show False using d by (simp add: of_char_of)
  qed
  then have cut: "takeWhile (\<lambda>c. c \<noteq> CHR '':'') (nat_digits k @ CHR '':'' # zs) = nat_digits k" for k zs
    by (subst takeWhile_append2) auto
  have "nat_digits m = nat_digits n" using arg_cong [OF assms, of "takeWhile (\<lambda>c. c \<noteq> CHR '':'')"] by (simp only: cut)
  then show ?thesis using assms nat_digits_inj by auto
qed

text \<open>Length framing: no two lists of identifiers share a payload.\<close>

lemma framed_inj: "framed xs = framed ys \<Longrightarrow> xs = ys"
proof (induction xs arbitrary: ys)
  case Nil
  then show ?case by (cases ys) (auto simp: framed_def py_str_int_def)
next
  case (Cons x xs)
  then obtain y zs where ys: "ys = y # zs"
    by (cases ys) (auto simp: framed_def py_str_int_def)
  have "nat_digits (length x) @ CHR '':'' # (x @ framed xs) = nat_digits (length y) @ CHR '':'' # (y @ framed zs)"
    using Cons.prems unfolding ys by (simp add: framed_def py_str_int_def)
  then have "length x = length y \<and> x @ framed xs = y @ framed zs" by (rule framed_cut)
  then show ?case using Cons.IH ys by auto
qed


section \<open>Local capacity\<close>

text \<open>The local maximum of a key, read from its kind.\<close>

definition key_cap :: "string \<Rightarrow> int" where
  "key_cap key = (let kind = takeWhile (\<lambda>c. c \<noteq> CHR '':'') key in
     if kind = ''login-pair'' then 3 else if kind = ''login-ip'' then 10
     else if kind = ''refresh-ip'' then 50 else 5)"

lemma kind_of_key:
  "CHR '':'' \<notin> set kind \<Longrightarrow> takeWhile (\<lambda>c. c \<noteq> CHR '':'') (limiter_key mac kind ids) = kind"
  unfolding limiter_key_def by (subst takeWhile_append2) auto

lemma issued_cap:
  assumes "issued_bucket cfg mac b"
  shows "bk_local_maximum b = key_cap (bk_key b)" and "1 \<le> bk_local_maximum b"
proof -
  have kinds: "key_cap (limiter_key mac ''login-pair'' ids) = 3" "key_cap (limiter_key mac ''login-ip'' ids) = 10"
    "key_cap (limiter_key mac ''refresh-ip'' ids) = 50" "key_cap (limiter_key mac ''refresh-family'' ids) = 5" for ids
    by (simp_all add: key_cap_def kind_of_key)
  show "bk_local_maximum b = key_cap (bk_key b)" "1 \<le> bk_local_maximum b"
    using assms by (auto simp: issued_bucket_def login_buckets_def refresh_ip_def refresh_family_def kinds)
qed

lemma length_alist_update:
  "length (AList.update k v xs) = (if map_of xs k = None then length xs + 1 else length xs)"
  by (induction xs) auto

lemma length_alist_delete:
  "length (AList.delete k xs) \<le> length xs"
  "map_of xs k \<noteq> None \<Longrightarrow> length (AList.delete k xs) < length xs"
proof -
  show "length (AList.delete k xs) \<le> length xs" by (simp add: AList.delete_eq)
  show "map_of xs k \<noteq> None \<Longrightarrow> length (AList.delete k xs) < length xs"
    by (induction xs) (auto simp: AList.delete_eq less_Suc_eq_le)
qed

definition entries_ok :: "(string \<times> local_bucket) list \<Rightarrow> bool" where
  "entries_ok xs = (distinct (map fst xs)
     \<and> (\<forall>k e. map_of xs k = Some e \<longrightarrow> bucket_load e \<le> key_cap k))"

definition limiter_ok :: "limiter_settings \<Rightarrow> limiter \<Rightarrow> bool" where
  "limiter_ok cfg st = (entries_ok (lim_entries st) \<and> int (length (lim_entries st)) \<le> ls_local_max_entries cfg)"

lemma map_of_clean:
  assumes "distinct (map fst xs)"
  shows "map_of (clean_entries now xs) k = (case map_of xs k of None \<Rightarrow> None
    | Some e \<Rightarrow> let e' = clean_bucket now e in
        if lb_failures e' \<noteq> [] \<or> lb_reservations e' \<noteq> [] then Some e' else None)"
  using assms
proof (induction xs)
  case (Cons x xs)
  have other: "k \<notin> fst ` set (clean_entries now xs)" if "k \<notin> fst ` set xs" for k
    using that by (force simp: clean_entries_def)
  show ?case
  proof (cases "fst x = k")
    case True
    then have "map_of (clean_entries now xs) k = None"
      using Cons.prems other [of k] by (auto simp: map_of_eq_None_iff)
    then show ?thesis using True by (cases x) (auto simp: clean_entries_def Let_def)
  next
    case False
    then show ?thesis using Cons by (cases x) (auto simp: clean_entries_def Let_def)
  qed
qed (simp add: clean_entries_def)

lemma clean_entries_facts:
  assumes "distinct (map fst xs)"
  shows "distinct (map fst (clean_entries now xs))" and "length (clean_entries now xs) \<le> length xs"
proof -
  have "map fst (map (\<lambda>(k, e). (k, clean_bucket now e)) xs) = map fst xs" by (induction xs) auto
  then have "distinct (map fst (map (\<lambda>(k, e). (k, clean_bucket now e)) xs))" using assms by (simp only:)
  then show "distinct (map fst (clean_entries now xs))"
    unfolding clean_entries_def by (rule distinct_map_filter)
  show "length (clean_entries now xs) \<le> length xs"
    unfolding clean_entries_def by (rule order.trans [OF length_filter_le]) simp
qed

lemma clean_load: "bucket_load (clean_bucket now e) \<le> bucket_load e"
proof -
  have "length (unexpired now (lb_failures e)) \<le> length (lb_failures e)"
    "length (unexpired now (lb_reservations e)) \<le> length (lb_reservations e)"
    by (simp_all add: unexpired_def)
  then show ?thesis by (simp add: bucket_load_def clean_bucket_def)
qed

lemma clean_keeps: "entries_ok xs \<Longrightarrow> entries_ok (clean_entries now xs)"
  by (auto simp: entries_ok_def map_of_clean clean_entries_facts Let_def
      intro: order.trans [OF clean_load] split: option.splits if_splits)

text \<open>What a cleaned bucket holds has not expired.\<close>

lemma clean_live:
  assumes "distinct (map fst xs)" and "map_of (clean_entries now xs) k = Some e"
    and "v \<in> snd ` set (lb_failures e @ lb_reservations e)"
  shows "now < v"
  using assms by (auto simp: map_of_clean Let_def clean_bucket_def unexpired_def split: option.splits if_splits)


lemma bucket_load_nonneg: "0 \<le> bucket_load e"
  by (simp add: bucket_load_def)

text \<open>A bucket is full when its live entries reach its local maximum.\<close>

definition full_bucket :: "(string \<times> local_bucket) list \<Rightarrow> bucket \<Rightarrow> bool" where
  "full_bucket xs b = (case map_of xs (bk_key b) of None \<Rightarrow> False | Some e \<Rightarrow> bucket_load e \<ge> bk_local_maximum b)"

lemma local_retry_full:
  assumes "\<And>k e v. map_of xs k = Some e \<Longrightarrow> v \<in> snd ` set (lb_failures e @ lb_reservations e) \<Longrightarrow> now < v"
    and "\<And>b. b \<in> set bs \<Longrightarrow> 1 \<le> bk_local_maximum b"
  shows "local_retry now xs bs > 0 \<longleftrightarrow> (\<exists>b \<in> set bs. full_bucket xs b)"
proof -
  define wait where "wait (b :: bucket) = (case map_of xs (bk_key b) of None \<Rightarrow> 0 | Some e \<Rightarrow>
    if bucket_load e \<ge> bk_local_maximum b
    then Min (set (map snd (lb_failures e @ lb_reservations e))) - now else 0)" for b
  have wait: "wait b > 0 \<longleftrightarrow> full_bucket xs b" "0 \<le> wait b" if "b \<in> set bs" for b
  proof -
    have "now < Min (set (map snd (lb_failures e @ lb_reservations e)))"
      if "map_of xs (bk_key b) = Some e" "bucket_load e \<ge> bk_local_maximum b" for e
    proof -
      have "lb_failures e @ lb_reservations e \<noteq> []"
        using that(2) assms(2) [OF \<open>b \<in> set bs\<close>] by (auto simp: bucket_load_def)
      then show ?thesis using assms(1) [OF that(1)] by (subst Min_gr_iff) auto
    qed
    then show "wait b > 0 \<longleftrightarrow> full_bucket xs b" "0 \<le> wait b"
      by (force simp: wait_def full_bucket_def split: option.splits if_splits)+
  qed
  have fold: "foldl (\<lambda>r b. case map_of xs (bk_key b) of None \<Rightarrow> r
     | Some e \<Rightarrow> if bucket_load e \<ge> bk_local_maximum b
         then max r (Min (set (map snd (lb_failures e @ lb_reservations e))) - now) else r) r0 cs > 0
     \<longleftrightarrow> r0 > 0 \<or> (\<exists>b \<in> set cs. full_bucket xs b)" if "set cs \<subseteq> set bs" for r0 cs
    using that
  proof (induction cs arbitrary: r0)
    case (Cons c cs)
    have c: "c \<in> set bs" using Cons.prems by simp
    show ?case using Cons wait [OF c]
      by (auto simp: wait_def full_bucket_def less_max_iff_disj split: option.splits if_splits)
  qed simp
  show ?thesis unfolding local_retry_def using fold [of bs 0] by simp
qed

lemma reserve_keeps:
  assumes "entries_ok xs" and "1 \<le> key_cap (bk_key b)"
    and "\<And>e. map_of xs (bk_key b) = Some e \<Longrightarrow> bucket_load e < key_cap (bk_key b)
      \<or> map_of (lb_reservations e) identifier \<noteq> None"
  shows "entries_ok (reserve identifier v b xs)"
proof (cases "map_of xs (bk_key b)")
  case None
  with assms(1,2) show ?thesis
    by (auto simp: reserve_def entries_ok_def distinct_update update_conv' bucket_load_def)
next
  case (Some e)
  with assms(3) [OF Some] assms(1) show ?thesis
    by (auto simp: reserve_def entries_ok_def distinct_update update_conv' length_alist_update
        bucket_load_def simp del: map_of_eq_Some_iff)
qed

lemma map_of_reserve:
  "map_of (reserve identifier v b xs) k = (if k = bk_key b
     then Some (let e = (case map_of xs k of None \<Rightarrow> \<lparr>lb_failures = [], lb_reservations = []\<rparr> | Some e \<Rightarrow> e) in
       e\<lparr>lb_reservations := AList.update identifier v (lb_reservations e)\<rparr>)
     else map_of xs k)"
  by (simp add: reserve_def Let_def update_conv')

lemma fold_reserve:
  assumes "entries_ok xs" and "\<And>b. b \<in> set bs \<Longrightarrow> 1 \<le> key_cap (bk_key b)"
    and "\<And>b e. b \<in> set bs \<Longrightarrow> map_of xs (bk_key b) = Some e \<Longrightarrow> bucket_load e < key_cap (bk_key b)
      \<or> map_of (lb_reservations e) identifier \<noteq> None"
  shows "entries_ok (fold (reserve identifier v) bs xs)
    \<and> length (fold (reserve identifier v) bs xs)
        \<le> length xs + length (filter (\<lambda>b. map_of xs (bk_key b) = None) bs)"
  using assms
proof (induction bs arbitrary: xs)
  case (Cons b bs)
  let ?ys = "reserve identifier v b xs"
  have ok: "entries_ok ?ys" using Cons.prems by (intro reserve_keeps) auto
  have other: "bucket_load e < key_cap (bk_key c) \<or> map_of (lb_reservations e) identifier \<noteq> None"
    if "c \<in> set bs" "map_of ?ys (bk_key c) = Some e" for c e
    using that Cons.prems(3) [of c] by (auto simp: map_of_reserve Let_def update_conv' split: if_splits option.splits)
  have len: "length ?ys = length xs + (if map_of xs (bk_key b) = None then 1 else 0)"
    by (simp add: reserve_def Let_def length_alist_update)
  have fewer: "length (filter (\<lambda>c. map_of ?ys (bk_key c) = None) bs)
      \<le> length (filter (\<lambda>c. map_of xs (bk_key c) = None) bs)"
  proof -
    have "filter (\<lambda>c. map_of ?ys (bk_key c) = None) bs
        = filter (\<lambda>c. bk_key c \<noteq> bk_key b) (filter (\<lambda>c. map_of xs (bk_key c) = None) bs)"
      by (auto simp: map_of_reserve intro: filter_cong)
    then show ?thesis by (simp only: length_filter_le)
  qed
  have "entries_ok (fold (reserve identifier v) bs ?ys)
    \<and> length (fold (reserve identifier v) bs ?ys)
        \<le> length ?ys + length (filter (\<lambda>c. map_of ?ys (bk_key c) = None) bs)"
    using Cons.prems(2) other by (intro Cons.IH ok) auto
  then show ?case using len fewer by auto
qed simp


section \<open>Every operation keeps the local tables within their bounds\<close>

definition local_room :: "limiter_settings \<Rightarrow> (string \<times> local_bucket) list \<Rightarrow> bucket list \<Rightarrow> bool" where
  "local_room cfg xs bs =
     (int (length xs + length (filter (\<lambda>b. map_of xs (bk_key b) = None) bs)) \<le> ls_local_max_entries cfg)"

definition issued :: "limiter_settings \<Rightarrow> (string \<Rightarrow> string) \<Rightarrow> bucket list \<Rightarrow> bool" where
  "issued cfg mac bs = (\<forall>b \<in> set bs. issued_bucket cfg mac b)"

lemma tracked_subset: "set (tracked guard ident xs bs) \<subseteq> set bs"
  by (auto simp: tracked_def)

text \<open>Admission reserves in every tracked bucket, or, when one is full or the table has no room, in none.\<close>

lemma local_admit_cases:
  assumes "entries_ok (lim_entries st)" and "issued cfg mac bs"
    and xs: "xs = clean_entries now (lim_entries st)" and wanted: "wanted = tracked guard ident xs bs"
  obtains (refused) n where "1 \<le> n"
      "local_admit cfg bs ident guard now st = (Inl (RateLimitError n), st\<lparr>lim_entries := xs\<rparr>)"
      "(\<exists>b \<in> set wanted. full_bucket xs b) \<or> \<not> local_room cfg xs wanted"
  | (reserved) "local_admit cfg bs ident guard now st = (Inr (wanted \<noteq> []),
        st\<lparr>lim_entries := fold (reserve ident (now + of_int lease_seconds)) wanted xs\<rparr>)"
      "\<forall>b \<in> set wanted. \<not> full_bucket xs b" "local_room cfg xs wanted"
proof -
  have "distinct (map fst (lim_entries st))" using assms(1) by (simp add: entries_ok_def)
  then have full: "local_retry now xs wanted > 0 \<longleftrightarrow> (\<exists>b \<in> set wanted. full_bucket xs b)"
    using assms(2) tracked_subset issued_cap(2) clean_live
    unfolding xs wanted issued_def by (intro local_retry_full) blast+
  show ?thesis
  proof (cases "local_retry now xs wanted > 0")
    case True
    then show ?thesis using full
      by (intro refused [of "max 1 \<lceil>local_retry now xs wanted\<rceil>"])
        (auto simp: local_admit_def Let_def xs [symmetric] wanted [symmetric])
  next
    case False
    then show ?thesis using full
      by (cases "local_room cfg xs wanted")
        (auto simp: local_admit_def Let_def xs [symmetric] wanted [symmetric] local_room_def
          lease_seconds_def intro: reserved refused [of lease_seconds])
  qed
qed

lemma local_admit_keeps:
  assumes "limiter_ok cfg st" and "issued cfg mac bs"
    and "local_admit cfg bs ident guard now st = (r, t)"
  shows "limiter_ok cfg t"
proof -
  let ?xs = "clean_entries now (lim_entries st)"
  let ?bs = "tracked guard ident ?xs bs"
  have ok: "entries_ok (lim_entries st)" using assms(1) by (simp add: limiter_ok_def)
  have xs: "entries_ok ?xs" "length ?xs \<le> length (lim_entries st)"
    using ok clean_keeps clean_entries_facts(2) by (auto simp: entries_ok_def)
  show ?thesis
  proof (rule local_admit_cases [OF ok assms(2) refl refl, where now = now and guard = guard and ident = ident])
    fix n
    assume "local_admit cfg bs ident guard now st = (Inl (RateLimitError n), st\<lparr>lim_entries := ?xs\<rparr>)"
    then show ?thesis using assms(1,3) xs by (auto simp: limiter_ok_def)
  next
    assume reserved: "local_admit cfg bs ident guard now st = (Inr (?bs \<noteq> []),
        st\<lparr>lim_entries := fold (reserve ident (now + of_int lease_seconds)) ?bs ?xs\<rparr>)"
      "\<forall>b \<in> set ?bs. \<not> full_bucket ?xs b" "local_room cfg ?xs ?bs"
    have cap: "bk_local_maximum b = key_cap (bk_key b)" "1 \<le> key_cap (bk_key b)" if "b \<in> set ?bs" for b
      using that assms(2) tracked_subset issued_cap [of cfg mac b] by (fastforce simp: issued_def)+
    have "bucket_load e < key_cap (bk_key b)" if "b \<in> set ?bs" "map_of ?xs (bk_key b) = Some e" for b e
      using reserved(2) that cap(1) [OF that(1)] by (fastforce simp: full_bucket_def)
    then have "entries_ok (fold (reserve ident (now + of_int lease_seconds)) ?bs ?xs)
      \<and> length (fold (reserve ident (now + of_int lease_seconds)) ?bs ?xs)
          \<le> length ?xs + length (filter (\<lambda>b. map_of ?xs (bk_key b) = None) ?bs)"
      using cap(2) by (intro fold_reserve xs(1)) blast+
    then show ?thesis using reserved(1,3) assms(3) by (auto simp: limiter_ok_def local_room_def)
  qed
qed

lemma finalize_bucket_keeps:
  assumes "entries_ok xs"
  shows "entries_ok (finalize_bucket i c d now wall b xs)" and "length (finalize_bucket i c d now wall b xs) = length xs"
proof -
  have less: "bucket_load e \<le> key_cap k \<Longrightarrow>
    length (AList.delete i (lb_reservations e)) + f \<le> length (lb_reservations e) + length (lb_failures e)
    \<Longrightarrow> int (f + length (AList.delete i (lb_reservations e))) \<le> key_cap k" for e f k
    by (simp add: bucket_load_def)
  show "entries_ok (finalize_bucket i c d now wall b xs)"
  proof (cases "map_of xs (bk_key b)")
    case None
    then show ?thesis using assms by (simp add: finalize_bucket_def)
  next
    case (Some e)
    have load: "bucket_load e \<le> key_cap (bk_key b)" using assms Some by (simp add: entries_ok_def)
    obtain e3 where e3: "finalize_bucket i c d now wall b xs = AList.update (bk_key b) e3 xs"
      "bucket_load e3 \<le> bucket_load e"
      using Some length_alist_delete(1) [of i "lb_failures e"] length_alist_delete(1) [of i "lb_reservations e"]
        length_alist_delete(2) [of "lb_reservations e" i]
      by (cases "map_of (lb_reservations e) i")
        (auto simp: finalize_bucket_def Let_def bucket_load_def length_alist_update split: if_splits)
    show ?thesis
      using assms load e3 by (auto simp: entries_ok_def distinct_update update_conv' simp del: map_of_eq_Some_iff)
  qed
  show "length (finalize_bucket i c d now wall b xs) = length xs"
    by (auto simp: finalize_bucket_def Let_def length_alist_update split: option.splits)
qed

lemma local_finalize_keeps:
  assumes "limiter_ok cfg st" shows "limiter_ok cfg (local_finalize adm c d now wall st)"
proof -
  let ?f = "finalize_bucket (adm_id adm) c d now wall"
  have fold: "entries_ok (fold ?f bs xs) \<and> length (fold ?f bs xs) = length xs" if "entries_ok xs" for bs xs
    using that
  proof (induction bs arbitrary: xs)
    case (Cons b bs)
    then show ?case using finalize_bucket_keeps [OF Cons.prems, of "adm_id adm" c d now wall b] by simp
  qed simp
  have shrink: "entries_ok (clean_entries now xs) \<and> length (clean_entries now xs) \<le> length xs" if "entries_ok xs" for xs
    using that clean_keeps clean_entries_facts(2) by (auto simp: entries_ok_def)
  have "entries_ok (lim_entries st)" using assms by (simp add: limiter_ok_def)
  from shrink [OF this] fold [of "clean_entries now (lim_entries st)" "adm_buckets adm"]
    shrink [of "fold ?f (adm_buckets adm) (clean_entries now (lim_entries st))"]
  show ?thesis using assms by (simp add: limiter_ok_def local_finalize_def)
qed


section \<open>Concurrent requests of a process\<close>

text \<open>
  The requests of one process interleave at their \<open>await\<close>s. A state holds the limiter, the probes in
  flight (by generation) and, newest first, a log of the failures and of the passed probes.
\<close>

datatype limiter_event = Failure_Seen | Probe_Ok int

record process =
  pr_limiter :: limiter
  pr_probes :: "int list"
  pr_log :: "limiter_event list"

definition fresh_process :: process where
  "fresh_process = \<lparr>pr_limiter = new_limiter, pr_probes = [], pr_log = []\<rparr>"

definition logged :: "limiter \<Rightarrow> process \<Rightarrow> process" where
  "logged st w = w\<lparr>pr_limiter := st, pr_log :=
     (if lim_generation st = lim_generation (pr_limiter w) then [] else [Failure_Seen]) @ pr_log w\<rparr>"

inductive process_step :: "limiter_settings \<Rightarrow> (string \<Rightarrow> string) \<Rightarrow> process \<Rightarrow> process \<Rightarrow> bool"
  for cfg :: limiter_settings and mac :: "string \<Rightarrow> string" where
  probe_sent: "begin_mode now (pr_limiter w) = (Send_Probe g, st)
    \<Longrightarrow> process_step cfg mac w (w\<lparr>pr_limiter := st, pr_probes := pr_probes w @ [g]\<rparr>)"
| probe_done: "pr_probes w = gs @ g # hs \<Longrightarrow> conclude_mode g r now (pr_limiter w) = (x, st)
    \<Longrightarrow> process_step cfg mac w \<lparr>pr_limiter = st, pr_probes = gs @ hs, pr_log =
          (if r = Reply (Int_Reply 0) then Probe_Ok g else Failure_Seen) # pr_log w\<rparr>"
| routed: "issued cfg mac bs \<Longrightarrow> admit_route cfg bs i degraded now (pr_limiter w) = (x, st)
    \<Longrightarrow> process_step cfg mac w (logged st w)"
| admitted: "issued cfg mac (adm_buckets adm)
    \<Longrightarrow> admit_conclude cfg adm r now wall (pr_limiter w) = (y, st)
    \<Longrightarrow> process_step cfg mac w (logged st w)"
| finalized: "process_step cfg mac w (logged (local_finalize adm c d now wall (pr_limiter w)) w)"
| settled: "issued cfg mac (adm_buckets adm)
    \<Longrightarrow> finalize_conclude cfg adm c reply now wall (pr_limiter w) = (z, st)
    \<Longrightarrow> process_step cfg mac w (logged st w)"

lemma degrade_simps [simp]:
  "lim_entries (degrade now st) = lim_entries st"
  "lim_probing (degrade now st) = lim_probing st"
  "lim_generation (degrade now st) = lim_generation st + 1"
  "lim_successes (degrade now st) = 0"
  "lim_degraded_at (degrade now st) \<noteq> None"
  by (simp_all add: degrade_def split: option.splits)

text \<open>The parts of the state that the local tables do not touch.\<close>

definition mode_of :: "limiter \<Rightarrow> rat option \<times> rat \<times> bool \<times> int \<times> int" where
  "mode_of st = (lim_degraded_at st, lim_next_probe st, lim_probing st, lim_successes st, lim_generation st)"

lemma mode_of_simps [simp]:
  "mode_of (local_finalize adm c d now wall st) = mode_of st"
  "mode_of (st\<lparr>lim_entries := xs\<rparr>) = mode_of st"
  by (simp_all add: mode_of_def local_finalize_def)

lemma mode_of_local_admit: "local_admit cfg bs i g now st = (r, t) \<Longrightarrow> mode_of t = mode_of st"
  by (auto simp: local_admit_def Let_def mode_of_def split: if_splits)

lemma mode_of_degrade: "mode_of s = mode_of t \<Longrightarrow> mode_of (degrade now s) = mode_of (degrade now t)"
  by (simp add: mode_of_def degrade_def)

lemma limiter_ok_cong: "lim_entries s = lim_entries t \<Longrightarrow> limiter_ok cfg s = limiter_ok cfg t"
  by (simp add: limiter_ok_def)

lemma fall_back_effect:
  assumes "fall_back cfg adm now wall st = (x, t)"
  shows "mode_of t = mode_of (degrade now st)"
    and "limiter_ok cfg st \<Longrightarrow> issued cfg mac (adm_buckets adm) \<Longrightarrow> limiter_ok cfg t"
proof -
  obtain r where r: "local_admit cfg (adm_buckets adm) (adm_id adm) False now
      (local_finalize adm False False now wall (degrade now st)) = (r, t)"
    using assms by (auto simp: fall_back_def split: prod.splits sum.splits)
  show "mode_of t = mode_of (degrade now st)" using mode_of_local_admit [OF r] by simp
  assume "limiter_ok cfg st" "issued cfg mac (adm_buckets adm)"
  moreover have "limiter_ok cfg (degrade now st)" using calculation(1) limiter_ok_cong by (metis degrade_simps(1))
  ultimately show "limiter_ok cfg t" using local_admit_keeps [OF local_finalize_keeps _ r] by blast
qed

lemma admit_conclude_effect:
  assumes "admit_conclude cfg adm r now wall st = (x, t)"
  shows "mode_of t = mode_of st \<or> mode_of t = mode_of (degrade now st)"
    and "limiter_ok cfg st \<Longrightarrow> issued cfg mac (adm_buckets adm) \<Longrightarrow> limiter_ok cfg t"
  using assms fall_back_effect [of cfg adm now wall st x t] local_finalize_keeps
  by (auto simp: admit_conclude_def split: reply.splits script_reply.splits if_splits)

lemma finalize_conclude_effect:
  assumes "finalize_conclude cfg adm c r now wall st = (x, t)"
  shows "mode_of t = mode_of st \<or> mode_of t = mode_of (degrade now st)"
    and "limiter_ok cfg st \<Longrightarrow> issued cfg mac (adm_buckets adm) \<Longrightarrow> limiter_ok cfg t"
proof -
  have "(t = st \<or> t = degrade now st) \<or> (\<exists>y u. local_admit cfg (adm_buckets adm) (adm_id adm) False now (degrade now st) = (y, u)
      \<and> (t = u \<or> t = local_finalize adm True False now wall u))" (is "?same \<or> ?admit")
    using assms by (auto simp: finalize_conclude_def Let_def split: reply.splits prod.splits sum.splits if_splits)
  moreover have "(mode_of t = mode_of st \<or> mode_of t = mode_of (degrade now st))
    \<and> (limiter_ok cfg st \<longrightarrow> issued cfg mac (adm_buckets adm) \<longrightarrow> limiter_ok cfg t)" if ?same
    using that limiter_ok_cong [of "degrade now st" st] by auto
  moreover have "(mode_of t = mode_of st \<or> mode_of t = mode_of (degrade now st))
    \<and> (limiter_ok cfg st \<longrightarrow> issued cfg mac (adm_buckets adm) \<longrightarrow> limiter_ok cfg t)" if ?admit
  proof -
    from that obtain y u where u: "local_admit cfg (adm_buckets adm) (adm_id adm) False now (degrade now st) = (y, u)"
      "t = u \<or> t = local_finalize adm True False now wall u" by blast
    have "limiter_ok cfg st \<longrightarrow> issued cfg mac (adm_buckets adm) \<longrightarrow> limiter_ok cfg u"
      using local_admit_keeps [OF _ _ u(1)] limiter_ok_cong [of "degrade now st" st] by auto
    then show ?thesis using u(2) mode_of_local_admit [OF u(1)] local_finalize_keeps by auto
  qed
  ultimately show "mode_of t = mode_of st \<or> mode_of t = mode_of (degrade now st)"
    and "limiter_ok cfg st \<Longrightarrow> issued cfg mac (adm_buckets adm) \<Longrightarrow> limiter_ok cfg t" by blast+
qed

lemma admit_route_effect:
  assumes "admit_route cfg bs i degraded now st = (x, t)"
  shows "mode_of t = mode_of st" and "limiter_ok cfg st \<Longrightarrow> issued cfg mac bs \<Longrightarrow> limiter_ok cfg t"
proof -
  obtain r where "local_admit cfg bs i (\<not> degraded) now st = (r, t)"
    using assms by (auto simp: admit_route_def split: prod.splits sum.splits)
  then show "mode_of t = mode_of st" and "limiter_ok cfg st \<Longrightarrow> issued cfg mac bs \<Longrightarrow> limiter_ok cfg t"
    using mode_of_local_admit local_admit_keeps by blast+
qed


section \<open>Bounds of the local tables\<close>

definition tables_ok :: "limiter_settings \<Rightarrow> process \<Rightarrow> bool" where
  "tables_ok cfg w = limiter_ok cfg (pr_limiter w)"

lemma tables_step: "tables_ok cfg w \<Longrightarrow> process_step cfg mac w v \<Longrightarrow> tables_ok cfg v"
proof (erule process_step.cases)
  show "tables_ok cfg w \<Longrightarrow> w = x \<Longrightarrow> v = x\<lparr>pr_limiter := st, pr_probes := pr_probes x @ [g]\<rparr>
    \<Longrightarrow> begin_mode now (pr_limiter x) = (Send_Probe g, st) \<Longrightarrow> tables_ok cfg v" for now x g st
    by (auto simp: tables_ok_def begin_mode_def Let_def limiter_ok_def split: if_splits)
  show "tables_ok cfg w \<Longrightarrow> w = x \<Longrightarrow> v = \<lparr>pr_limiter = st, pr_probes = gs @ hs,
      pr_log = (if r = Reply (Int_Reply 0) then Probe_Ok g else Failure_Seen) # pr_log x\<rparr>
    \<Longrightarrow> pr_probes x = gs @ g # hs \<Longrightarrow> conclude_mode g r now (pr_limiter x) = (y, st) \<Longrightarrow> tables_ok cfg v"
    for x gs g hs r now y st
    by (auto simp: tables_ok_def conclude_mode_def probe_passed_def Let_def limiter_ok_def split: if_splits)
qed (auto simp: tables_ok_def logged_def
    intro: admit_route_effect(2) admit_conclude_effect(2) finalize_conclude_effect(2) local_finalize_keeps)

interpretation limiter_tables: step_invariant "process_step cfg mac" "tables_ok cfg"
  for cfg mac by standard (rule tables_step)

lemma fresh_tables: "0 \<le> ls_local_max_entries cfg \<Longrightarrow> tables_ok cfg fresh_process"
  by (simp add: tables_ok_def fresh_process_def new_limiter_def limiter_ok_def entries_ok_def)

text \<open>
  C39. However the requests of a process interleave, its local tables stay within their bounds: never more
  keys than \<open>auth_local_max_entries\<close>, and for a key never more entries, that is attempts in flight and
  failures of the current window together, than the local maximum of its kind. So in degraded mode at
  most three login attempts of one email and address, and ten of one address, are ever outstanding or
  counted.
\<close>

theorem local_limits_hold:
  assumes "(process_step cfg mac)\<^sup>*\<^sup>* fresh_process w" and "0 \<le> ls_local_max_entries cfg"
  shows "int (length (lim_entries (pr_limiter w))) \<le> ls_local_max_entries cfg
    \<and> (\<forall>e. map_of (lim_entries (pr_limiter w)) (limiter_key mac ''login-pair'' [email, ip]) = Some e
          \<longrightarrow> bucket_load e \<le> 3)
    \<and> (\<forall>e. map_of (lim_entries (pr_limiter w)) (limiter_key mac ''login-ip'' [ip]) = Some e
          \<longrightarrow> bucket_load e \<le> 10)
    \<and> (\<forall>e. map_of (lim_entries (pr_limiter w)) (limiter_key mac ''refresh-ip'' [ip]) = Some e
          \<longrightarrow> bucket_load e \<le> 50)
    \<and> (\<forall>e. map_of (lim_entries (pr_limiter w)) (limiter_key mac ''refresh-family'' [family]) = Some e
          \<longrightarrow> bucket_load e \<le> 5)"
proof -
  have "limiter_ok cfg (pr_limiter w)"
    using limiter_tables.reachable_keeps [OF assms(1) fresh_tables [OF assms(2)]] by (simp add: tables_ok_def)
  moreover have "key_cap (limiter_key mac ''login-pair'' [email, ip]) = 3"
    "key_cap (limiter_key mac ''login-ip'' [ip]) = 10" "key_cap (limiter_key mac ''refresh-ip'' [ip]) = 50"
    "key_cap (limiter_key mac ''refresh-family'' [family]) = 5"
    by (simp_all add: key_cap_def kind_of_key)
  ultimately show ?thesis by (metis entries_ok_def limiter_ok_def)
qed

definition demo_limits :: limiter_settings where
  "demo_limits = \<lparr>ls_login_email_limit = 5, ls_login_ip_limit = 30, ls_login_window_seconds = 60,
     ls_login_ip_window_seconds = 900, ls_refresh_family_limit = 10, ls_refresh_ip_limit = 100,
     ls_refresh_window_seconds = 60, ls_local_max_entries = 10000\<rparr>"

definition demo_admission :: "(auth_error + route) \<times> limiter" where
  "demo_admission = admit_route demo_limits (login_buckets demo_limits id ''a@b.c'' ''10.0.0.1'') ''r1'' True 100 new_limiter"

lemma demo_admission_load:
  "case map_of (lim_entries (snd demo_admission)) (limiter_key id ''login-pair'' [''a@b.c'', ''10.0.0.1'']) of
     None \<Rightarrow> False | Some e \<Rightarrow> bucket_load e = 1"
  by code_simp

theorem local_limits_hold_witness:
  "\<exists>w. (process_step demo_limits id)\<^sup>*\<^sup>* fresh_process w \<and> length (lim_entries (pr_limiter w)) = 2
     \<and> (\<forall>e. map_of (lim_entries (pr_limiter w)) (limiter_key id ''login-pair'' [''a@b.c'', ''10.0.0.1'']) = Some e
          \<longrightarrow> bucket_load e \<le> 3)"
proof -
  let ?bs = "login_buckets demo_limits id ''a@b.c'' ''10.0.0.1''"
  let ?w = "logged (snd demo_admission) fresh_process"
  have "process_step demo_limits id fresh_process ?w"
    by (rule process_step.routed [where bs = ?bs and i = "''r1''" and degraded = True and now = 100 and x = "fst demo_admission"])
      (auto simp: issued_def issued_bucket_def demo_admission_def fresh_process_def)
  then have run: "(process_step demo_limits id)\<^sup>*\<^sup>* fresh_process ?w" by simp
  have size: "length (lim_entries (pr_limiter ?w)) = 2" by code_simp
  have room: "0 \<le> ls_local_max_entries demo_limits" by (simp add: demo_limits_def)
  show ?thesis
    using run size conjunct1 [OF conjunct2 [OF local_limits_hold [OF run room]]] by (intro exI [of _ ?w] conjI)
qed

section \<open>Recovery\<close>

definition passes :: "int \<Rightarrow> limiter_event list \<Rightarrow> nat" where
  "passes g evs = length (filter (\<lambda>e. e = Probe_Ok g) (takeWhile (\<lambda>e. e \<noteq> Failure_Seen) evs))"

definition failures_seen :: "limiter_event list \<Rightarrow> int" where
  "failures_seen evs = int (length (filter (\<lambda>e. e = Failure_Seen) evs))"

definition mode_inv :: "process \<Rightarrow> bool" where
  "mode_inv w = (let st = pr_limiter w; n = passes (lim_generation st) (pr_log w) in
     lim_generation st = failures_seen (pr_log w)
     \<and> length (pr_probes w) = (if lim_probing st then 1 else 0)
     \<and> (if lim_degraded_at st = None
        then pr_probes w = [] \<and> (failures_seen (pr_log w) = 0 \<and> lim_successes st = 0 \<or> n = 3)
        else 0 < failures_seen (pr_log w) \<and> int n = lim_successes st \<and> n < 3))"

lemma log_simps [simp]:
  "passes g (Failure_Seen # evs) = 0"
  "passes g (Probe_Ok h # evs) = (if g = h then 1 else 0) + passes g evs"
  "failures_seen (Failure_Seen # evs) = failures_seen evs + 1"
  "failures_seen (Probe_Ok h # evs) = failures_seen evs"
  "0 \<le> failures_seen evs"
  by (simp_all add: passes_def failures_seen_def)

lemma mode_inv_logged:
  assumes "mode_inv w" and "mode_of st = mode_of (pr_limiter w) \<or> mode_of st = mode_of (degrade now (pr_limiter w))"
  shows "mode_inv (logged st w)"
  using assms(2)
proof
  assume "mode_of st = mode_of (pr_limiter w)"
  then show ?thesis using assms(1) by (auto simp: mode_inv_def logged_def Let_def mode_of_def split: if_splits)
next
  assume st: "mode_of st = mode_of (degrade now (pr_limiter w))"
  then have "lim_generation st = lim_generation (pr_limiter w) + 1" "lim_successes st = 0"
    "lim_degraded_at st \<noteq> None" "lim_probing st = lim_probing (pr_limiter w)"
    by (simp_all add: mode_of_def del: not_None_eq)
  then show ?thesis using assms(1) by (simp add: mode_inv_def logged_def Let_def split: if_splits)
qed

lemma mode_step: "mode_inv w \<Longrightarrow> process_step cfg mac w v \<Longrightarrow> mode_inv v"
proof (erule process_step.cases)
  show "mode_inv w \<Longrightarrow> w = x \<Longrightarrow> v = x\<lparr>pr_limiter := st, pr_probes := pr_probes x @ [g]\<rparr>
    \<Longrightarrow> begin_mode now (pr_limiter x) = (Send_Probe g, st) \<Longrightarrow> mode_inv v" for now x g st
    by (auto simp: mode_inv_def begin_mode_def Let_def split: if_splits)
  show "mode_inv w \<Longrightarrow> w = x \<Longrightarrow> v = \<lparr>pr_limiter = st, pr_probes = gs @ hs,
      pr_log = (if r = Reply (Int_Reply 0) then Probe_Ok g else Failure_Seen) # pr_log x\<rparr>
    \<Longrightarrow> pr_probes x = gs @ g # hs \<Longrightarrow> conclude_mode g r now (pr_limiter x) = (y, st) \<Longrightarrow> mode_inv v"
    for x gs g hs r now y st
    by (cases "r = Reply (Int_Reply 0)")
      (auto simp: mode_inv_def conclude_mode_def probe_passed_def Let_def degrade_def split: if_splits option.splits)
qed (auto intro!: mode_inv_logged dest: admit_route_effect(1) admit_conclude_effect(1) finalize_conclude_effect(1))

interpretation limiter_mode: step_invariant "process_step cfg mac" mode_inv
  for cfg mac by standard (rule mode_step)


text \<open>
  The limiter returns to Redis only on stable evidence. In every state the concurrent requests of a
  process reach, if a failure was ever seen and the limiter is healthy again, then exactly three probes
  sent after the last failure have passed since it. At most one probe is in flight, a probe goes out only
  in degraded mode, and a degraded limiter with no probe in flight sends one as soon as the five seconds
  since the last probe or failure are over.
\<close>

theorem recovery_needs_three_probes:
  assumes "(process_step cfg mac)\<^sup>*\<^sup>* fresh_process w"
  shows "(lim_degraded_at (pr_limiter w) = None \<longrightarrow> failures_seen (pr_log w) = 0
        \<or> passes (failures_seen (pr_log w)) (pr_log w) = 3)
    \<and> length (pr_probes w) \<le> 1 \<and> (pr_probes w \<noteq> [] \<longrightarrow> lim_degraded_at (pr_limiter w) \<noteq> None)
    \<and> ((\<exists>g st. begin_mode now (pr_limiter w) = (Send_Probe g, st))
        \<longleftrightarrow> lim_degraded_at (pr_limiter w) \<noteq> None \<and> pr_probes w = [] \<and> lim_next_probe (pr_limiter w) \<le> now)"
proof -
  have "mode_inv fresh_process" by (simp add: mode_inv_def fresh_process_def new_limiter_def failures_seen_def)
  then have "mode_inv w" by (rule limiter_mode.reachable_keeps [OF assms])
  then show ?thesis by (auto simp: mode_inv_def Let_def begin_mode_def split: if_splits)
qed

definition demo_outage :: limiter where
  "demo_outage = snd (admit_conclude demo_limits
     \<lparr>adm_id = ''r2'', adm_buckets = refresh_ip demo_limits id ''10.0.0.1'', adm_redis = True, adm_local = False\<rparr>
     (Redis_Failure Redis_Timeout) 100 (\<lambda>_. 100) new_limiter)"

theorem recovery_needs_three_probes_witness:
  "\<exists>w g st. (process_step demo_limits id)\<^sup>*\<^sup>* fresh_process w \<and> failures_seen (pr_log w) = 1
     \<and> begin_mode 105 (pr_limiter w) = (Send_Probe g, st)"
proof -
  let ?w = "logged demo_outage fresh_process"
  let ?adm = "\<lparr>adm_id = ''r2'', adm_buckets = refresh_ip demo_limits id ''10.0.0.1'', adm_redis = True, adm_local = False\<rparr>"
  have "process_step demo_limits id fresh_process ?w"
    by (rule process_step.admitted [where adm = ?adm and r = "Redis_Failure Redis_Timeout" and now = 100
          and wall = "\<lambda>_. 100" and y = "fst (admit_conclude demo_limits ?adm (Redis_Failure Redis_Timeout) 100 (\<lambda>_. 100) new_limiter)"])
      (auto simp: issued_def issued_bucket_def demo_outage_def fresh_process_def)
  then have run: "(process_step demo_limits id)\<^sup>*\<^sup>* fresh_process ?w" by simp
  have facts: "failures_seen (pr_log ?w) = 1" "lim_degraded_at (pr_limiter ?w) \<noteq> None" "pr_probes ?w = []"
    "lim_next_probe (pr_limiter ?w) = 105"
    by code_simp+
  have "\<exists>g st. begin_mode 105 (pr_limiter ?w) = (Send_Probe g, st)"
    using recovery_needs_three_probes [OF run, of 105] facts by (simp del: not_None_eq)
  then show ?thesis using run facts(1) by blast
qed

text \<open>
  Local admission is all or nothing and exact. With \<open>xs\<close> the tables after dropping expired entries and
  \<open>wanted\<close> the buckets to be tracked: the attempt is admitted exactly when no wanted bucket is full and
  the tables have room, and then it holds a ten-second reservation in every wanted bucket; a refused
  attempt is told to wait at least one second and leaves no reservation anywhere.
\<close>

theorem local_admission_is_all_or_nothing:
  assumes "(process_step cfg mac)\<^sup>*\<^sup>* fresh_process w" and "0 \<le> ls_local_max_entries cfg" and "issued cfg mac bs"
    and "local_admit cfg bs i guard now (pr_limiter w) = (r, t)"
    and "xs = clean_entries now (lim_entries (pr_limiter w))" and "wanted = tracked guard i xs bs"
  shows "((\<exists>held. r = Inr held) \<longleftrightarrow> (\<forall>b \<in> set wanted. \<not> full_bucket xs b) \<and> local_room cfg xs wanted)
    \<and> (case r of
         Inl e \<Rightarrow> (\<exists>n \<ge> 1. e = RateLimitError n) \<and> lim_entries t = xs
       | Inr held \<Rightarrow> (held \<longleftrightarrow> wanted \<noteq> [])
           \<and> (\<forall>b \<in> set wanted. \<exists>e. map_of (lim_entries t) (bk_key b) = Some e
                \<and> map_of (lb_reservations e) i = Some (now + 10)))"
proof -
  have ok: "entries_ok (lim_entries (pr_limiter w))"
    using limiter_tables.reachable_keeps [OF assms(1) fresh_tables [OF assms(2)]]
    by (simp add: tables_ok_def limiter_ok_def)
  have kept: "\<exists>e. map_of (fold (reserve i v) bs ys) k = Some e \<and> map_of (lb_reservations e) i = Some v"
    if "k \<in> bk_key ` set bs \<or> (\<exists>e. map_of ys k = Some e \<and> map_of (lb_reservations e) i = Some v)"
    for bs :: "bucket list" and ys k v
    using that
  proof (induction bs arbitrary: ys)
    case (Cons b bs)
    have "k \<in> bk_key ` set bs \<or> (\<exists>e. map_of (reserve i v b ys) k = Some e \<and> map_of (lb_reservations e) i = Some v)"
      using Cons.prems by (cases "k = bk_key b") (auto simp: map_of_reserve Let_def update_conv')
    then show ?case using Cons.IH by simp
  qed simp
  show ?thesis
  proof (rule local_admit_cases [OF ok assms(3,5,6)])
    fix n
    assume "(1 :: int) \<le> n" "local_admit cfg bs i guard now (pr_limiter w)
        = (Inl (RateLimitError n), pr_limiter w\<lparr>lim_entries := xs\<rparr>)"
      "(\<exists>b \<in> set wanted. full_bucket xs b) \<or> \<not> local_room cfg xs wanted"
    then show ?thesis using assms(4) by auto
  next
    assume "local_admit cfg bs i guard now (pr_limiter w) = (Inr (wanted \<noteq> []),
        pr_limiter w\<lparr>lim_entries := fold (reserve i (now + of_int lease_seconds)) wanted xs\<rparr>)"
      "\<forall>b \<in> set wanted. \<not> full_bucket xs b" "local_room cfg xs wanted"
    then show ?thesis using assms(4) kept [where v = "now + 10"] by (auto simp: lease_seconds_def)
  qed
qed

theorem local_admission_is_all_or_nothing_witness:
  "\<exists>t. local_admit demo_limits (login_buckets demo_limits id ''a@b.c'' ''10.0.0.1'') ''r1'' False 100 (pr_limiter fresh_process)
       = (Inr True, t) \<and> lim_entries t \<noteq> []"
proof -
  let ?bs = "login_buckets demo_limits id ''a@b.c'' ''10.0.0.1''"
  obtain r t where r: "local_admit demo_limits ?bs ''r1'' False 100 (pr_limiter fresh_process) = (r, t)"
    by fastforce
  have issued: "issued demo_limits id ?bs" by (auto simp: issued_def issued_bucket_def)
  have room: "0 \<le> ls_local_max_entries demo_limits" by (simp add: demo_limits_def)
  have facts: "clean_entries 100 (lim_entries (pr_limiter fresh_process)) = []" "tracked False ''r1'' [] ?bs = ?bs"
    "\<forall>b \<in> set ?bs. \<not> full_bucket [] b" "local_room demo_limits [] ?bs" "?bs \<noteq> []"
    by code_simp+
  from local_admission_is_all_or_nothing [OF rtranclp.rtrancl_refl room issued r refl refl]
  have "r = Inr True \<and> (\<forall>b \<in> set ?bs. \<exists>e. map_of (lim_entries t) (bk_key b) = Some e)"
    unfolding facts(1,2) using facts(3-5) by (auto split: sum.splits)
  then show ?thesis using r facts(5) by (intro exI [of _ t]) (cases ?bs; force)
qed

text \<open>
  Bucket keys separate their identifiers: two keys agree only for the same kind and identifiers, or
  the keyed hash maps two different payloads to one value. Length framing rules out that an e-mail and
  an address are confused with another split of the same text.
\<close>

theorem limiter_keys_separate:
  assumes "limiter_key mac kind ids = limiter_key mac kind' ids'"
    and "CHR '':'' \<notin> set kind" and "CHR '':'' \<notin> set kind'"
  shows "kind = kind' \<and> (ids = ids' \<or>
    (kind @ '':'' @ framed ids \<noteq> kind @ '':'' @ framed ids'
      \<and> mac (kind @ '':'' @ framed ids) = mac (kind @ '':'' @ framed ids')))"
proof -
  have "kind = kind'" using kind_of_key assms by metis
  then show ?thesis using assms(1) framed_inj by (auto simp: limiter_key_def)
qed

theorem limiter_keys_separate_witness:
  "framed [''ab'', ''c''] \<noteq> framed [''a'', ''bc'']
   \<and> limiter_key id ''login-pair'' [''ab'', ''c''] = limiter_key id ''login-pair'' [''ab'', ''c'']
   \<and> (''login-pair'' :: string) = ''login-pair''"
proof -
  have "CHR '':'' \<notin> set ''login-pair''" by simp
  from limiter_keys_separate [OF refl this this, where mac = id and ids = "[''ab'', ''c'']"] framed_inj [of "[''ab'', ''c'']" "[''a'', ''bc'']"]
  show ?thesis by auto
qed


end
