(* ===== verification/Python_Text.thy ===== *)
theory Python_Text
  imports Schema
begin

text \<open>
  Python conversions that parse text from outside: \<open>int(text)\<close>, \<open>int(text, 16)\<close> and \<open>uuid.UUID(text)\<close>,
  on ASCII, with the underscores, signs and prefixes they accept. A UUID that \<open>str\<close> printed is read
  back as itself.
\<close>

section \<open>Integers\<close>

definition hex_value :: "char \<Rightarrow> nat option" where
  "hex_value c = (let n = of_char c :: nat in
     if 48 \<le> n \<and> n \<le> 57 then Some (n - 48)
     else if 97 \<le> n \<and> n \<le> 102 then Some (n - 87)
     else if 65 \<le> n \<and> n \<le> 70 then Some (n - 55) else None)"

definition digit_value :: "nat \<Rightarrow> char \<Rightarrow> nat option" where
  "digit_value base c = (case hex_value c of None \<Rightarrow> None | Some v \<Rightarrow> if v < base then Some v else None)"

text \<open>Digits, with single underscores between them, after the value \<open>acc\<close> read so far.\<close>

fun read_number :: "nat \<Rightarrow> nat \<Rightarrow> string \<Rightarrow> nat option" where
  "read_number base acc [] = Some acc"
| "read_number base acc (c # cs) =
     (if c = CHR ''_'' then (case cs of [] \<Rightarrow> None | d # ds \<Rightarrow>
          (case digit_value base d of None \<Rightarrow> None | Some v \<Rightarrow> read_number base (acc * base + v) ds))
      else (case digit_value base c of None \<Rightarrow> None | Some v \<Rightarrow> read_number base (acc * base + v) cs))"

definition drop_hex_prefix :: "string \<Rightarrow> string" where
  "drop_hex_prefix s = (case s of
      a # b # cs \<Rightarrow> if a = CHR ''0'' \<and> (b = CHR ''x'' \<or> b = CHR ''X'')
        then (case cs of c # ds \<Rightarrow> if c = CHR ''_'' then ds else cs | [] \<Rightarrow> []) else s
    | _ \<Rightarrow> s)"

definition signed_number :: "nat \<Rightarrow> (string \<Rightarrow> string) \<Rightarrow> string \<Rightarrow> int option" where
  "signed_number base drop_prefix s =
     (let t = py_strip s;
          negative = (t \<noteq> [] \<and> hd t = CHR ''-'');
          u = drop_prefix (if t \<noteq> [] \<and> (hd t = CHR ''-'' \<or> hd t = CHR ''+'') then tl t else t)
      in if u = [] \<or> hd u = CHR ''_'' then None
         else map_option (\<lambda>n. if negative then - int n else int n) (read_number base 0 u))"

definition py_int10 :: "string \<Rightarrow> int option" where
  "py_int10 = signed_number 10 (\<lambda>u. u)"

definition py_int16 :: "string \<Rightarrow> int option" where
  "py_int16 = signed_number 16 drop_hex_prefix"

section \<open>UUIDs\<close>

text \<open>
  \<open>UUID(text)\<close> drops \<open>urn:\<close>, \<open>uuid:\<close>, outer braces and hyphens, wants 32 characters and a value of
  128 bits.
\<close>

fun remove_all :: "string \<Rightarrow> nat \<Rightarrow> string \<Rightarrow> string" where
  "remove_all pat (Suc skip) (c # cs) = remove_all pat skip cs"
| "remove_all pat 0 (c # cs) =
     (if take (length pat) (c # cs) = pat then remove_all pat (length pat - 1) cs else c # remove_all pat 0 cs)"
| "remove_all pat skip [] = []"

definition is_brace :: "char \<Rightarrow> bool" where
  "is_brace c = (c = CHR ''{'' \<or> c = CHR ''}'')"

definition parse_uuid :: "string \<Rightarrow> uuid option" where
  "parse_uuid s =
     (let t = remove_all ''uuid:'' 0 (remove_all ''urn:'' 0 s);
          u = filter (\<lambda>c. c \<noteq> CHR ''-'') (rev (dropWhile is_brace (rev (dropWhile is_brace t))))
      in if length u \<noteq> 32 then None
         else case py_int16 u of None \<Rightarrow> None
           | Some n \<Rightarrow> if 0 \<le> n \<and> n < 2 ^ 128 then Some (nat n) else None)"

section \<open>Printed UUIDs are read back\<close>

definition is_hex_char :: "char \<Rightarrow> bool" where
  "is_hex_char c = (let n = of_char c :: nat in (48 \<le> n \<and> n \<le> 57) \<or> (97 \<le> n \<and> n \<le> 102))"

lemma of_hex_digit: "d < 16 \<Longrightarrow> of_char (hex_digit d) = (if d < 10 then 48 + d else 87 + d :: nat)"
  by (simp add: hex_digit_def)

lemma digit_value_hex_digit: "d < 16 \<Longrightarrow> digit_value 16 (hex_digit d) = Some d"
  by (simp add: digit_value_def hex_value_def of_hex_digit Let_def)

lemma hex_digit_hex: "d < 16 \<Longrightarrow> is_hex_char (hex_digit d)"
  by (simp add: is_hex_char_def of_hex_digit Let_def)

lemma length_hex_digits [simp]: "length (hex_digits k n) = k"
  by (induction k arbitrary: n) simp_all

lemma hex_digits_hex: "c \<in> set (hex_digits k n) \<Longrightarrow> is_hex_char c"
  by (induction k arbitrary: n) (auto simp: hex_digit_hex)

lemma hex_char_plain:
  assumes "is_hex_char c"
  shows "c \<noteq> CHR ''-''" "c \<noteq> CHR ''u''" "c \<noteq> CHR ''_''" "c \<noteq> CHR ''+''" "c \<noteq> CHR ''x''" "c \<noteq> CHR ''X''"
    "\<not> is_brace c" "\<not> py_isspace c"
  using assms by (auto simp: is_hex_char_def is_brace_def py_isspace_def Let_def)

lemma read_number_append:
  "(\<forall>c \<in> set xs. is_hex_char c) \<Longrightarrow> read_number 16 a (xs @ ys) = Option.bind (read_number 16 a xs) (\<lambda>b. read_number 16 b ys)"
  by (induction xs arbitrary: a) (auto simp: hex_char_plain split: option.splits)

lemma read_hex_digits: "read_number 16 0 (hex_digits k n) = Some (n mod 16 ^ k)"
proof (induction k arbitrary: n)
  case (Suc k)
  have "n mod 16 ^ Suc k = (n div 16 mod 16 ^ k) * 16 + n mod 16"
    by (simp add: mod_mult2_eq [of n 16 "16 ^ k"] algebra_simps)
  then show ?case
    using Suc read_number_append [of "hex_digits k (n div 16)" 0 "[hex_digit (n mod 16)]"] hex_digits_hex
    by (auto simp: digit_value_hex_digit hex_char_plain(3) [OF hex_digit_hex])
qed simp

lemma remove_all_absent: "hd pat \<notin> set s \<Longrightarrow> pat \<noteq> [] \<Longrightarrow> remove_all pat 0 s = s"
proof (induction s)
  case (Cons c cs)
  then have "take (length pat) (c # cs) \<noteq> pat" by (cases pat) auto
  with Cons show ?case by simp
qed simp

lemma strip_plain: "(\<forall>c \<in> set s. \<not> P c) \<Longrightarrow> dropWhile P s = s"
  by (cases s) auto

lemma strip_both_plain: "(\<forall>c \<in> set s. \<not> P c) \<Longrightarrow> rev (dropWhile P (rev (dropWhile P s))) = s"
  by (simp add: strip_plain)

lemma signed_hex_digits:
  assumes "k > 0" and "\<forall>c \<in> set s. is_hex_char c" and "length s = k"
  shows "py_int16 s = map_option int (read_number 16 0 s)"
proof -
  obtain c cs where s: "s = c # cs" using assms by (cases s) auto
  have "drop_hex_prefix s = s"
    using assms(2) by (auto simp: drop_hex_prefix_def s hex_char_plain split: list.splits)
  moreover have "py_strip s = s" using assms(2) by (simp add: py_strip_def strip_plain hex_char_plain)
  moreover have "hd s \<noteq> CHR ''-''" "hd s \<noteq> CHR ''+''" "hd s \<noteq> CHR ''_''" "s \<noteq> []"
    using assms(2) by (simp_all add: s hex_char_plain)
  ultimately show ?thesis by (simp add: py_int16_def signed_number_def Let_def)
qed

lemma undashed_uuid: "filter (\<lambda>c. c \<noteq> CHR ''-'') (py_str_uuid u) = hex_digits 32 u"
proof -
  let ?h = "hex_digits 32 u"
  have plain: "filter (\<lambda>c. c \<noteq> CHR ''-'') xs = xs" if "set xs \<subseteq> set ?h" for xs
    using that hex_digits_hex [of _ 32 u] by (auto simp: filter_id_conv dest: hex_char_plain(1))
  have parts: "take 8 ?h @ take 4 (drop 8 ?h) @ take 4 (drop 12 ?h) @ take 4 (drop 16 ?h) @ drop 20 ?h = ?h"
  proof -
    have "take 4 (drop 16 ?h) @ drop 20 ?h = drop 16 ?h" using append_take_drop_id [of 4 "drop 16 ?h"] by simp
    moreover have "take 4 (drop 12 ?h) @ drop 16 ?h = drop 12 ?h"
      using append_take_drop_id [of 4 "drop 12 ?h"] by simp
    moreover have "take 4 (drop 8 ?h) @ drop 12 ?h = drop 8 ?h" using append_take_drop_id [of 4 "drop 8 ?h"] by simp
    ultimately show ?thesis by simp
  qed
  have "filter (\<lambda>c. c \<noteq> CHR ''-'') (py_str_uuid u)
      = take 8 ?h @ take 4 (drop 8 ?h) @ take 4 (drop 12 ?h) @ take 4 (drop 16 ?h) @ drop 20 ?h"
    by (simp add: py_str_uuid_def Let_def plain set_take_subset set_drop_subset
        subset_trans [OF set_take_subset set_drop_subset])
  then show ?thesis by (simp add: parts)
qed

lemma uuid_chars: "c \<in> set (py_str_uuid u) \<Longrightarrow> c = CHR ''-'' \<or> is_hex_char c"
  using hex_digits_hex [of _ 32 u] by (auto simp: py_str_uuid_def Let_def dest: in_set_takeD in_set_dropD)

lemma parse_printed_uuid:
  assumes "u < 2 ^ 128"
  shows "parse_uuid (py_str_uuid u) = Some u"
proof -
  have nob: "\<forall>c \<in> set (py_str_uuid u). \<not> is_brace c \<and> c \<noteq> CHR ''u''"
  proof
    fix c
    assume "c \<in> set (py_str_uuid u)"
    then have "c = CHR ''-'' \<or> is_hex_char c" by (rule uuid_chars)
    then show "\<not> is_brace c \<and> c \<noteq> CHR ''u''" using hex_char_plain(2,7) by (auto simp: is_brace_def)
  qed
  have "remove_all ''uuid:'' 0 (remove_all ''urn:'' 0 (py_str_uuid u)) = py_str_uuid u"
    using nob by (metis list.sel(1) list.distinct(1) remove_all_absent)
  moreover have "rev (dropWhile is_brace (rev (dropWhile is_brace (py_str_uuid u)))) = py_str_uuid u"
    by (rule strip_both_plain) (use nob in blast)
  moreover have "py_int16 (hex_digits 32 u) = Some (int u)"
    using signed_hex_digits [of 32 "hex_digits 32 u"] hex_digits_hex [of _ 32 u] assms
    by (simp add: read_hex_digits power_mult [of 2 4 32, symmetric])
  ultimately show ?thesis using assms by (simp add: parse_uuid_def undashed_uuid Let_def of_nat_less_iff)
qed

end
