(* ===== verification/Auth_Sessions.thy ===== *)
theory Auth_Sessions
  imports Access Rate_Limit Python_Text
begin

text \<open>
  Accounts, sessions and refresh tokens (\<open>auth/service.py\<close>, \<open>auth/repo\<close>, \<open>auth/security.py\<close>,
  \<open>auth/dependencies.py\<close>, \<open>auth/cli.py\<close>): login, rotation of refresh tokens with replay detection,
  logout, authentication of a request, and the operator commands. Password hashing (pwdlib), SHA-256 and
  JWT signatures are parameters; the instant of the clock and the fresh random token are arguments.
\<close>

section \<open>Tables\<close>

record auth_session =
  ses_id :: uuid
  ses_user_id :: uuid
  ses_created_at :: instant
  ses_expires_at :: instant
  ses_revoked_at :: "instant option"
  ses_revoked_reason :: "string option"

record refresh_token =
  rtk_id :: uuid
  rtk_session_id :: uuid
  rtk_digest :: string
  rtk_issued_at :: instant
  rtk_expires_at :: instant
  rtk_consumed_at :: "instant option"
  rtk_successor_id :: "uuid option"

text \<open>\<open>RateLimitBucket\<close>, a table of an earlier limiter that only \<open>increment\<close> and \<open>cleanup\<close> touch.\<close>

record rate_row =
  rlr_key_digest :: string
  rlr_window_start :: instant
  rlr_attempt_count :: int
  rlr_expires_at :: instant

record auth_db =
  au_users :: "user list"
  au_sessions :: "auth_session list"
  au_tokens :: "refresh_token list"
  au_rates :: "rate_row list"
  au_next :: uuid

section \<open>Third-party functions\<close>

text \<open>
  \<open>verify_and_update\<close> of pwdlib returns whether the password matches and a replacement hash when the
  stored one is outdated. \<open>jwt.decode\<close> returns the claims of a token whose signature, issuer, audience
  and expiry it has checked. \<open>jwt.encode\<close> gets the claims \<open>sub\<close>, \<open>sid\<close>, issue time and lifetime.
\<close>

record auth_env =
  ae_verify_and_update :: "string \<Rightarrow> string \<Rightarrow> bool \<times> string option"
  ae_hash :: "string \<Rightarrow> string"
  ae_dummy_hash :: string
  ae_digest :: "string \<Rightarrow> string"
  ae_jwt_encode :: "(string \<times> json) list \<Rightarrow> string"
  ae_jwt_decode :: "string \<Rightarrow> (string \<times> json) list option"
  ae_session_seconds :: int
  ae_access_seconds :: int
  ae_jwt_issuer :: string
  ae_jwt_audience :: string

definition second :: int where
  "second = 1000000"

section \<open>Policies\<close>

definition session_valid :: "string \<Rightarrow> instant option \<Rightarrow> instant \<Rightarrow> instant \<Rightarrow> bool" where
  "session_valid status revoked_at expires_at now = (status = ''active'' \<and> revoked_at = None \<and> expires_at > now)"

definition validate_password :: "string \<Rightarrow> unit result" where
  "validate_password password =
     raise_if (\<not> (6 \<le> length password \<and> length password \<le> 128))
       (ValueError ''Password must contain 6-128 characters'') (Inr ())"

text \<open>\<open>LoginRequest\<close>: the field limits, then \<open>valid_email\<close>.\<close>

definition count_char :: "char \<Rightarrow> string \<Rightarrow> nat" where
  "count_char c s = length (filter (\<lambda>x. x = c) s)"

definition valid_email :: "string \<Rightarrow> string result" where
  "valid_email raw =
     (let v = normalize_email raw in
      raise_if (count_char CHR ''@'' v \<noteq> 1 \<or> list_ex py_isspace v
          \<or> takeWhile (\<lambda>c. c \<noteq> CHR ''@'') v = [] \<or> tl (dropWhile (\<lambda>c. c \<noteq> CHR ''@'') v) = [])
        (ValueError ''Invalid email'') (Inr v))"

definition login_request_email :: "string \<Rightarrow> string \<Rightarrow> string result" where
  "login_request_email email password =
     raise_if (\<not> (3 \<le> length email \<and> length email \<le> 254) \<or> \<not> (1 \<le> length password \<and> length password \<le> 128))
       (ValidationError ''length'') (valid_email email)"

section \<open>Security\<close>

definition verify_password :: "auth_env \<Rightarrow> string \<Rightarrow> string option \<Rightarrow> bool \<times> string option" where
  "verify_password env password password_hash =
     (let stored = (case password_hash of None \<Rightarrow> ae_dummy_hash env
            | Some h \<Rightarrow> if h = [] then ae_dummy_hash env else h);
          (valid, replacement) = ae_verify_and_update env password stored
      in (valid \<and> password_hash \<noteq> None, replacement))"

definition hash_password :: "auth_env \<Rightarrow> string \<Rightarrow> string result" where
  "hash_password env password = bindR (validate_password password) (\<lambda>_. Inr (ae_hash env password))"

definition encode_access :: "auth_env \<Rightarrow> instant \<Rightarrow> uuid \<Rightarrow> uuid \<Rightarrow> string" where
  "encode_access env now user_id session_id = ae_jwt_encode env
     [(''sub'', JStr (py_str_uuid user_id)), (''sid'', JStr (py_str_uuid session_id)),
      (''iss'', JStr (ae_jwt_issuer env)), (''aud'', JStr (ae_jwt_audience env)),
      (''iat'', JTime (Aware now)), (''exp'', JTime (Aware (now + ae_access_seconds env * second))),
      (''token_use'', JStr ''access'')]"

text \<open>
  The numeric value of a claim of type \<open>int\<close> or \<open>float\<close> (a \<open>bool\<close> is an \<open>int\<close> in Python).
\<close>

definition json_number :: "json \<Rightarrow> dec option" where
  "json_number j = (case j of JInt n \<Rightarrow> Some (of_int n) | JDec q \<Rightarrow> Some q
     | JBool b \<Rightarrow> Some (if b then 1 else 0) | _ \<Rightarrow> None)"

definition json_string :: "json \<Rightarrow> string option" where
  "json_string j = (case j of JStr s \<Rightarrow> Some s | _ \<Rightarrow> None)"

definition decode_access :: "auth_env \<Rightarrow> string \<Rightarrow> auth_error + uuid \<times> uuid" where
  "decode_access env token =
     or_raise (ae_jwt_decode env token) AuthenticationError (\<lambda>payload.
     or_raise (Option.bind (map_of payload ''sub'') json_string) AuthenticationError (\<lambda>sub.
     or_raise (Option.bind (map_of payload ''sid'') json_string) AuthenticationError (\<lambda>sid.
     raise_if (map_of payload ''token_use'' \<noteq> Some (JStr ''access'')) AuthenticationError (
     or_raise (Option.bind (map_of payload ''iat'') json_number) AuthenticationError (\<lambda>iat.
     or_raise (Option.bind (map_of payload ''exp'') json_number) AuthenticationError (\<lambda>expiry.
     raise_if (expiry \<le> iat) AuthenticationError (
     or_raise (parse_uuid sub) AuthenticationError (\<lambda>user_id.
     or_raise (parse_uuid sid) AuthenticationError (\<lambda>session_id.
     Inr (user_id, session_id))))))))))"

section \<open>Repository\<close>

definition find_by_email :: "auth_db \<Rightarrow> string \<Rightarrow> user option" where
  "find_by_email s email = select_one (\<lambda>u. usr_email u = email) (au_users s)"

definition token_identity :: "auth_db \<Rightarrow> string \<Rightarrow> (uuid \<times> uuid) option" where
  "token_identity s digest =
     Option.bind (select_one (\<lambda>t. rtk_digest t = digest \<and> by_key ses_id (rtk_session_id t) (au_sessions s) \<noteq> None) (au_tokens s))
       (\<lambda>t. map_option (\<lambda>f. (ses_user_id f, ses_id f)) (by_key ses_id (rtk_session_id t) (au_sessions s)))"

definition find_token :: "auth_db \<Rightarrow> string \<Rightarrow> refresh_token option" where
  "find_token s digest = select_one (\<lambda>t. rtk_digest t = digest) (au_tokens s)"

definition lock_family :: "auth_db \<Rightarrow> uuid \<Rightarrow> uuid \<Rightarrow> user option \<times> auth_session option" where
  "lock_family s user_id session_id =
     (by_key usr_id user_id (au_users s),
      select_one (\<lambda>f. ses_id f = session_id \<and> ses_user_id f = user_id) (au_sessions s))"

definition save_session :: "auth_session \<Rightarrow> auth_db \<Rightarrow> auth_db" where
  "save_session f s = s\<lparr>au_sessions := store_row ses_id f (au_sessions s)\<rparr>"

definition save_token :: "refresh_token \<Rightarrow> auth_db \<Rightarrow> auth_db" where
  "save_token t s = s\<lparr>au_tokens := store_row rtk_id t (au_tokens s)\<rparr>"

text \<open>
  The constraints of the two tables, checked on insertion: the CHECKs on the expiries, the unique digest,
  and the partial unique index on the session of unconsumed tokens. A violation surfaces as
  \<open>SQLAlchemyError\<close>, which the service turns into \<open>AuthStorageError\<close>.
\<close>

definition add_session :: "auth_session \<Rightarrow> auth_db \<Rightarrow> auth_error + auth_db" where
  "add_session f s = raise_if (\<not> ses_expires_at f > ses_created_at f) AuthStorageError
     (Inr (s\<lparr>au_sessions := au_sessions s @ [f]\<rparr>))"

definition add_token :: "refresh_token \<Rightarrow> auth_db \<Rightarrow> auth_error + auth_db" where
  "add_token t s =
     raise_if (\<not> rtk_expires_at t > rtk_issued_at t) AuthStorageError (
     raise_if (exists_row (\<lambda>x. rtk_digest x = rtk_digest t) (au_tokens s)) AuthStorageError (
     raise_if (rtk_consumed_at t = None
         \<and> exists_row (\<lambda>x. rtk_session_id x = rtk_session_id t \<and> rtk_consumed_at x = None) (au_tokens s)) AuthStorageError (
     Inr (s\<lparr>au_tokens := au_tokens s @ [t]\<rparr>))))"

section \<open>Deadlines\<close>

text \<open>
  How an operation under \<open>authentication_deadline\<close> ends: in time; abandoned before its commit (by the
  deadline, a cancellation or the storage), which rolls its transaction back; or late, when the commit
  took effect but the caller learns only of the failure. The last two surface as \<open>AuthStorageError\<close>.
\<close>

datatype fate = In_Time | Abandoned | Late

definition under_deadline :: "fate \<Rightarrow> 's \<Rightarrow> (auth_error + 'a) \<times> 's \<Rightarrow> (auth_error + 'a) \<times> 's" where
  "under_deadline fate s outcome = (case fate of
      In_Time \<Rightarrow> outcome
    | Abandoned \<Rightarrow> (Inl AuthStorageError, s)
    | Late \<Rightarrow> (Inl AuthStorageError, snd outcome))"

text \<open>A transaction: an error rolls back.\<close>

definition transact :: "'s \<Rightarrow> auth_error + 'a \<times> 's \<Rightarrow> (auth_error + 'a) \<times> 's" where
  "transact s r = (case r of Inl e \<Rightarrow> (Inl e, s) | Inr (x, t) \<Rightarrow> (Inr x, t))"

section \<open>Service\<close>

record principal =
  pri_id :: uuid
  pri_email :: string
  pri_status :: string
  pri_session_id :: uuid

record issued_session =
  is_principal :: principal
  is_access_token :: string
  is_refresh_token :: string
  is_expires_at :: instant

definition issue :: "auth_env \<Rightarrow> instant \<Rightarrow> uuid \<Rightarrow> string \<Rightarrow> auth_session \<Rightarrow> string \<Rightarrow> issued_session" where
  "issue env now user_id email family refresh =
     \<lparr>is_principal = \<lparr>pri_id = user_id, pri_email = email, pri_status = ''active'', pri_session_id = ses_id family\<rparr>,
      is_access_token = encode_access env now user_id (ses_id family),
      is_refresh_token = refresh, is_expires_at = ses_expires_at family\<rparr>"

definition replace_hash :: "user \<Rightarrow> string option \<Rightarrow> auth_db \<Rightarrow> auth_db" where
  "replace_hash user replacement s = (case replacement of
      Some h \<Rightarrow> if h = [] then s else s\<lparr>au_users := store_row usr_id (user\<lparr>usr_password_hash := h\<rparr>) (au_users s)\<rparr>
    | None \<Rightarrow> s)"

definition login_transaction ::
  "auth_env \<Rightarrow> instant \<Rightarrow> string \<Rightarrow> string \<Rightarrow> string \<Rightarrow> auth_db \<Rightarrow> auth_error + issued_session \<times> auth_db" where
  "login_transaction env now refresh email password s =
     (let user = find_by_email s email;
          (valid, replacement) = verify_password env password (map_option usr_password_hash user) in
      or_raise user AuthenticationError (\<lambda>u.
      raise_if (\<not> valid \<or> usr_status u \<noteq> ''active'') AuthenticationError (
        let s1 = replace_hash u replacement s;
            family = \<lparr>ses_id = au_next s1, ses_user_id = usr_id u, ses_created_at = now,
              ses_expires_at = now + ae_session_seconds env * second, ses_revoked_at = None, ses_revoked_reason = None\<rparr>
        in bindR (add_session family s1) (\<lambda>s2.
           bindR (add_token \<lparr>rtk_id = au_next s + 1, rtk_session_id = ses_id family, rtk_digest = ae_digest env refresh,
               rtk_issued_at = now, rtk_expires_at = ses_expires_at family, rtk_consumed_at = None,
               rtk_successor_id = None\<rparr> (s2\<lparr>au_next := au_next s + 2\<rparr>)) (\<lambda>s3.
           Inr (issue env now (usr_id u) (usr_email u) family refresh, s3))))))"

definition login_core ::
  "auth_env \<Rightarrow> instant \<Rightarrow> fate \<Rightarrow> string \<Rightarrow> string \<Rightarrow> string \<Rightarrow> auth_db \<Rightarrow> (auth_error + issued_session) \<times> auth_db" where
  "login_core env now fate refresh email password s =
     under_deadline fate s (transact s (login_transaction env now refresh email password s))"

text \<open>
  The rotation under the locks of user and family: \<open>None\<close> is the refusal that still commits, with the
  family revoked when a consumed token was presented.
\<close>

definition rotate ::
  "auth_env \<Rightarrow> instant \<Rightarrow> string \<Rightarrow> string \<Rightarrow> uuid \<times> uuid \<Rightarrow> auth_db \<Rightarrow> auth_error + issued_session option \<times> auth_db" where
  "rotate env now successor digest identity s =
     (case (lock_family s (fst identity) (snd identity), find_token s digest) of
        ((Some user, Some family), Some token) \<Rightarrow>
          if session_valid (usr_status user) (ses_revoked_at family) (ses_expires_at family) now
             \<and> rtk_expires_at token > now
          then if rtk_consumed_at token \<noteq> None
            then Inr (None, save_session (family\<lparr>ses_revoked_at := Some now,
                   ses_revoked_reason := Some ''refresh_replay''\<rparr>) s)
            else let token1 = token\<lparr>rtk_consumed_at := Some now\<rparr>; s1 = save_token token1 s;
                next_token = \<lparr>rtk_id = au_next s, rtk_session_id = ses_id family, rtk_digest = ae_digest env successor,
                  rtk_issued_at = now, rtk_expires_at = ses_expires_at family, rtk_consumed_at = None,
                  rtk_successor_id = None\<rparr>
              in bindR (add_token next_token (s1\<lparr>au_next := au_next s + 1\<rparr>)) (\<lambda>s2.
                 Inr (Some (issue env now (usr_id user) (usr_email user) family successor),
                      save_token (token1\<lparr>rtk_successor_id := Some (rtk_id next_token)\<rparr>) s2))
          else Inr (None, s)
      | _ \<Rightarrow> Inr (None, s))"

definition presented_digest :: "auth_env \<Rightarrow> string option \<Rightarrow> string option" where
  "presented_digest env refresh = (case refresh of None \<Rightarrow> None
     | Some t \<Rightarrow> if t = [] \<or> length t > 128 then None else Some (ae_digest env t))"

definition refresh_core ::
  "auth_env \<Rightarrow> instant \<Rightarrow> fate \<Rightarrow> string \<Rightarrow> string \<Rightarrow> uuid \<times> uuid \<Rightarrow> auth_db \<Rightarrow> (auth_error + issued_session) \<times> auth_db" where
  "refresh_core env now fate successor digest identity s =
     under_deadline fate s
       (case transact s (rotate env now successor digest identity s) of
          (Inr (Some x), t) \<Rightarrow> (Inr x, t)
        | (Inr None, t) \<Rightarrow> (Inl AuthenticationError, t)
        | (Inl e, t) \<Rightarrow> (Inl e, t))"

definition revoke_session :: "instant \<Rightarrow> string \<Rightarrow> auth_session \<Rightarrow> auth_session" where
  "revoke_session now reason f = (if ses_revoked_at f = None
     then f\<lparr>ses_revoked_at := Some now, ses_revoked_reason := Some reason\<rparr> else f)"

definition logout :: "auth_env \<Rightarrow> instant \<Rightarrow> string option \<Rightarrow> string option \<Rightarrow> auth_db \<Rightarrow> auth_db" where
  "logout env now refresh access s =
     (let by_token = Option.bind (presented_digest env refresh) (token_identity s);
          identity = (case (by_token, access) of
              (Some i, _) \<Rightarrow> Some i
            | (None, Some a) \<Rightarrow> if a = [] then None
                else (case decode_access env a of Inl _ \<Rightarrow> None | Inr i \<Rightarrow> Some i)
            | (None, None) \<Rightarrow> None)
      in case identity of None \<Rightarrow> s
         | Some (user_id, session_id) \<Rightarrow>
             (case snd (lock_family s user_id session_id) of None \<Rightarrow> s
              | Some f \<Rightarrow> save_session (revoke_session now ''logout'' f) s))"

section \<open>Authentication of a request\<close>

definition get_current_principal :: "auth_env \<Rightarrow> instant \<Rightarrow> string option \<Rightarrow> auth_db \<Rightarrow> auth_error + principal" where
  "get_current_principal env now token s = (case token of
      None \<Rightarrow> Inl AuthenticationError
    | Some t \<Rightarrow>
        raise_if (t = [] \<or> length t > 4096) AuthenticationError (
        bindR (decode_access env t) (\<lambda>(user_id, session_id).
        or_raise (by_key usr_id user_id (au_users s)) AuthenticationError (\<lambda>user.
        or_raise (by_key ses_id session_id (au_sessions s)) AuthenticationError (\<lambda>family.
        raise_if (ses_user_id family \<noteq> usr_id user
            \<or> \<not> session_valid (usr_status user) (ses_revoked_at family) (ses_expires_at family) now) AuthenticationError (
        Inr \<lparr>pri_id = usr_id user, pri_email = usr_email user, pri_status = usr_status user,
             pri_session_id = ses_id family\<rparr>))))))"

text \<open>
  The client address: walk the forwarded addresses from the right while each peer is trusted;
  \<open>parse\<close> is \<open>str(ip_address(...))\<close>, \<open>None\<close> for its \<open>ValueError\<close>.
\<close>

fun walk_proxies :: "(string \<Rightarrow> string option) \<Rightarrow> string list \<Rightarrow> string \<Rightarrow> string list \<Rightarrow> string" where
  "walk_proxies parse trusted peer [] = peer"
| "walk_proxies parse trusted peer (v # vs) =
     (if peer \<notin> set trusted then peer
      else case parse (py_strip v) of None \<Rightarrow> peer | Some a \<Rightarrow> walk_proxies parse trusted a vs)"

definition client_ip :: "(string \<Rightarrow> string option) \<Rightarrow> string list \<Rightarrow> string option \<Rightarrow> string list \<Rightarrow> string" where
  "client_ip parse trusted host forwarded =
     walk_proxies parse trusted (case host of None \<Rightarrow> ''unknown'' | Some h \<Rightarrow> h) (rev forwarded)"

section \<open>Operator commands\<close>

definition create_user :: "auth_env \<Rightarrow> string \<Rightarrow> string \<Rightarrow> auth_db \<Rightarrow> auth_db result" where
  "create_user env email password s =
     bindR (login_request_email email password) (\<lambda>normalized.
     bindR (hash_password env password) (\<lambda>encoded.
     raise_if (exists_row (\<lambda>u. usr_email u = normalized) (au_users s)) (IntegrityError ''users_email_key'') (
     Inr (s\<lparr>au_users := au_users s @ [\<lparr>usr_id = au_next s, usr_email = normalized, usr_password_hash = encoded,
           usr_status = ''active''\<rparr>], au_next := au_next s + 1\<rparr>))))"

definition disable_user :: "instant \<Rightarrow> string \<Rightarrow> auth_db \<Rightarrow> auth_db result" where
  "disable_user now email s =
     or_raise (find_by_email s (normalize_email email)) (ValueError ''User not found'') (\<lambda>user.
     Inr (s\<lparr>au_users := store_row usr_id (user\<lparr>usr_status := ''disabled''\<rparr>) (au_users s),
            au_sessions := update_where (\<lambda>f. ses_user_id f = usr_id user) (revoke_session now ''user_disabled'') (au_sessions s)\<rparr>))"

text \<open>Deleting a session cascades to its tokens; a deleted successor leaves NULL behind.\<close>

definition drop_sessions :: "uuid list \<Rightarrow> auth_db \<Rightarrow> auth_db" where
  "drop_sessions ids s =
     (let gone = map rtk_id (filter (\<lambda>t. rtk_session_id t \<in> set ids) (au_tokens s)) in
      s\<lparr>au_sessions := delete_where (\<lambda>f. ses_id f \<in> set ids) (au_sessions s),
        au_tokens := update_where (\<lambda>t. case rtk_successor_id t of None \<Rightarrow> False | Some i \<Rightarrow> i \<in> set gone)
          (rtk_successor_id_update (\<lambda>_. None)) (delete_where (\<lambda>t. rtk_session_id t \<in> set ids) (au_tokens s))\<rparr>)"

definition cleanup :: "instant \<Rightarrow> int \<Rightarrow> auth_db \<Rightarrow> (int \<times> auth_db) result" where
  "cleanup now batch_size s =
     raise_if (\<not> (1 \<le> batch_size \<and> batch_size \<le> 10000)) (ValueError ''Batch size must be between 1 and 10000'') (
     let expired = take (nat batch_size) (sort (map ses_id (filter (\<lambda>f. ses_expires_at f \<le> now) (au_sessions s))));
         s1 = (if expired = [] then s else drop_sessions expired s);
         buckets = take (nat batch_size) (map (\<lambda>b. (rlr_key_digest b, rlr_window_start b))
           (filter (\<lambda>b. rlr_expires_at b \<le> now) (au_rates s1)))
     in Inr (int (length expired) + int (length buckets),
          s1\<lparr>au_rates := delete_where (\<lambda>b. (rlr_key_digest b, rlr_window_start b) \<in> set buckets) (au_rates s1)\<rparr>))"

definition increment :: "string \<Rightarrow> instant \<Rightarrow> instant \<Rightarrow> auth_db \<Rightarrow> int \<times> auth_db" where
  "increment digest start expiry s =
     (case select_one (\<lambda>b. rlr_key_digest b = digest \<and> rlr_window_start b = start) (au_rates s) of
        None \<Rightarrow> (1, s\<lparr>au_rates := au_rates s @ [\<lparr>rlr_key_digest = digest, rlr_window_start = start,
                   rlr_attempt_count = 1, rlr_expires_at = expiry\<rparr>]\<rparr>)
      | Some b \<Rightarrow> (rlr_attempt_count b + 1,
          s\<lparr>au_rates := update_where (\<lambda>x. rlr_key_digest x = digest \<and> rlr_window_start x = start)
              (rlr_attempt_count_update (\<lambda>n. n + 1)) (au_rates s)\<rparr>))"


section \<open>Consistency of the tables\<close>

definition accounts_ok :: "auth_db \<Rightarrow> bool" where
  "accounts_ok s = (unique_keys usr_id (au_users s) \<and> (\<forall>u \<in> set (au_users s). usr_id u < au_next s))"

definition sessions_ok :: "auth_db \<Rightarrow> bool" where
  "sessions_ok s = (unique_keys ses_id (au_sessions s)
     \<and> (\<forall>f \<in> set (au_sessions s). ses_id f < au_next s \<and> ses_user_id f \<in> usr_id ` set (au_users s)))"

definition tokens_ok :: "auth_db \<Rightarrow> bool" where
  "tokens_ok s = (unique_keys rtk_id (au_tokens s) \<and> unique_keys rtk_digest (au_tokens s)
     \<and> (\<forall>t \<in> set (au_tokens s). rtk_id t < au_next s
          \<and> (\<exists>f \<in> set (au_sessions s). ses_id f = rtk_session_id t \<and> ses_expires_at f = rtk_expires_at t)))"

text \<open>One current token: the unconsumed tokens of different rows belong to different sessions.\<close>

definition one_current :: "auth_db \<Rightarrow> bool" where
  "one_current s = (\<forall>t \<in> set (au_tokens s). \<forall>t' \<in> set (au_tokens s).
     rtk_consumed_at t = None \<longrightarrow> rtk_consumed_at t' = None \<longrightarrow> rtk_session_id t = rtk_session_id t'
     \<longrightarrow> rtk_id t = rtk_id t')"

definition auth_inv :: "auth_db \<Rightarrow> bool" where
  "auth_inv s = (accounts_ok s \<and> sessions_ok s \<and> tokens_ok s \<and> one_current s)"

lemma one_current_cong: "au_tokens t = au_tokens s \<Longrightarrow> one_current t = one_current s"
  by (simp only: one_current_def)

definition empty_auth :: auth_db where
  "empty_auth = \<lparr>au_users = [], au_sessions = [], au_tokens = [], au_rates = [], au_next = 0\<rparr>"

lemma empty_auth_inv: "auth_inv empty_auth"
  by (simp add: auth_inv_def accounts_ok_def sessions_ok_def tokens_ok_def one_current_def empty_auth_def)

text \<open>Changing accounts and session rows without touching keys, owners and expiries.\<close>

definition session_facts :: "auth_session \<Rightarrow> uuid \<times> uuid \<times> instant" where
  "session_facts f = (ses_id f, ses_user_id f, ses_expires_at f)"

lemma auth_inv_same:
  assumes "auth_inv s" and "map usr_id (au_users t) = map usr_id (au_users s)"
    and "map session_facts (au_sessions t) = map session_facts (au_sessions s)"
    and "au_tokens t = au_tokens s" and "au_next t = au_next s"
  shows "auth_inv t"
proof -
  have ids: "usr_id ` set (au_users t) = usr_id ` set (au_users s)" using assms(2) by (metis list.set_map)
  have facts: "session_facts ` set (au_sessions t) = session_facts ` set (au_sessions s)"
    using assms(3) by (metis list.set_map)
  have ids_of: "map ses_id fs = map fst (map session_facts fs)" for fs :: "auth_session list"
    by (simp add: session_facts_def)
  have keys: "unique_keys ses_id (au_sessions t) = unique_keys ses_id (au_sessions s)"
    unfolding unique_keys_def ids_of assms(3) by (rule refl)
  have users: "accounts_ok t"
  proof -
    have "\<exists>v \<in> set (au_users s). usr_id v = usr_id u" if "u \<in> set (au_users t)" for u
      using that ids by (metis imageE imageI)
    then show ?thesis using assms(1,2,5) unfolding auth_inv_def accounts_ok_def unique_keys_def by metis
  qed
  have older: "\<exists>g \<in> set (au_sessions s). ses_id g = ses_id f \<and> ses_user_id g = ses_user_id f \<and> ses_expires_at g = ses_expires_at f"
    if "f \<in> set (au_sessions t)" for f
  proof -
    have "session_facts f \<in> session_facts ` set (au_sessions s)" using that facts by blast
    then show ?thesis by (auto simp: session_facts_def)
  qed
  have forth: "\<exists>g \<in> set (au_sessions t). ses_id g = ses_id f \<and> ses_expires_at g = ses_expires_at f"
    if "f \<in> set (au_sessions s)" for f
  proof -
    have "session_facts f \<in> session_facts ` set (au_sessions t)" using that facts by blast
    then show ?thesis by (auto simp: session_facts_def)
  qed
  have sessions: "sessions_ok t"
    unfolding sessions_ok_def
  proof (intro conjI ballI)
    show "unique_keys ses_id (au_sessions t)" using assms(1) keys by (simp add: auth_inv_def sessions_ok_def)
    fix f assume "f \<in> set (au_sessions t)"
    then obtain g where g: "g \<in> set (au_sessions s)" "ses_id f = ses_id g" "ses_user_id f = ses_user_id g"
      using older [of f] by metis
    then show "ses_id f < au_next t" "ses_user_id f \<in> usr_id ` set (au_users t)"
      using assms(1,5) ids by (simp_all add: auth_inv_def sessions_ok_def)
  qed
  have "tokens_ok t"
    unfolding tokens_ok_def
  proof (intro conjI ballI)
    fix k assume "k \<in> set (au_tokens t)"
    then obtain f where f: "f \<in> set (au_sessions s)" "ses_id f = rtk_session_id k" "ses_expires_at f = rtk_expires_at k"
      using assms(1,4) by (auto simp: auth_inv_def tokens_ok_def)
    from forth [OF f(1)] f(2,3)
    show "\<exists>f \<in> set (au_sessions t). ses_id f = rtk_session_id k \<and> ses_expires_at f = rtk_expires_at k" by auto
  qed (use assms(1,4,5) in \<open>simp_all add: auth_inv_def tokens_ok_def\<close>)
  then show ?thesis using users sessions assms(1) one_current_cong [OF assms(4)] by (simp add: auth_inv_def)
qed

lemma lock_family_Some:
  assumes "snd (lock_family s u i) = Some f"
  shows "f \<in> set (au_sessions s)" "ses_id f = i" "ses_user_id f = u"
  using select_one_Some [of _ "au_sessions s" f] assms by (auto simp: lock_family_def)

lemma find_token_Some: "find_token s d = Some t \<Longrightarrow> t \<in> set (au_tokens s) \<and> rtk_digest t = d"
  using select_one_Some by (fastforce simp: find_token_def)

lemma save_session_keeps:
  assumes "auth_inv s" and "g \<in> set (au_sessions s)" and "session_facts f = session_facts g"
  shows "auth_inv (save_session f s)"
proof (rule auth_inv_same [OF assms(1)])
  have u: "unique_keys ses_id (au_sessions s)" using assms(1) by (simp add: auth_inv_def sessions_ok_def)
  have "session_facts f = session_facts h" if "h \<in> set (au_sessions s)" "ses_id h = ses_id f" for h
    using unique_keys_eq [OF u that(1) assms(2)] that(2) assms(3) by (simp add: session_facts_def)
  then show "map session_facts (au_sessions (save_session f s)) = map session_facts (au_sessions s)"
    by (simp add: save_session_def store_row_def update_where_def)
qed (simp_all add: save_session_def)

lemma add_session_Inr: "add_session f s = Inr t \<longleftrightarrow>
    ses_created_at f < ses_expires_at f \<and> t = s\<lparr>au_sessions := au_sessions s @ [f]\<rparr>"
  by (auto simp: add_session_def res_simps)

lemma add_token_Inr: "add_token k s = Inr t \<longleftrightarrow> rtk_issued_at k < rtk_expires_at k
    \<and> rtk_digest k \<notin> rtk_digest ` set (au_tokens s)
    \<and> (rtk_consumed_at k = None \<longrightarrow> (\<forall>x \<in> set (au_tokens s). rtk_session_id x = rtk_session_id k \<longrightarrow> rtk_consumed_at x \<noteq> None))
    \<and> t = s\<lparr>au_tokens := au_tokens s @ [k]\<rparr>"
  by (auto simp: add_token_def res_simps table_simps image_iff)

lemma add_token_keeps:
  assumes "auth_inv s" and "add_token k s = Inr t" and "rtk_id k \<notin> rtk_id ` set (au_tokens s)" and "rtk_id k < au_next s"
    and "f \<in> set (au_sessions s)" and "ses_id f = rtk_session_id k" and "ses_expires_at f = rtk_expires_at k"
  shows "auth_inv t"
proof -
  note k = assms(2) [unfolded add_token_Inr]
  have "tokens_ok t" using assms(1,3-7) k by (auto simp: auth_inv_def tokens_ok_def)
  moreover have "one_current t"
    unfolding one_current_def
  proof (intro ballI impI)
    fix x y
    assume xy: "x \<in> set (au_tokens t)" "y \<in> set (au_tokens t)" "rtk_consumed_at x = None" "rtk_consumed_at y = None"
      "rtk_session_id x = rtk_session_id y"
    have old: "x = k \<or> x \<in> set (au_tokens s)" "y = k \<or> y \<in> set (au_tokens s)" using xy(1,2) k by auto
    have "rtk_session_id z \<noteq> rtk_session_id k" if "z \<in> set (au_tokens s)" "rtk_consumed_at z = None" "rtk_consumed_at k = None" for z
      using k that by auto
    then show "rtk_id x = rtk_id y"
      using old xy assms(1) unfolding auth_inv_def one_current_def by metis
  qed
  ultimately show ?thesis using assms(1) k by (simp add: auth_inv_def accounts_ok_def sessions_ok_def)
qed

lemma auth_inv_next:
  assumes "auth_inv s" and "au_next s \<le> n" shows "auth_inv (s\<lparr>au_next := n\<rparr>)"
proof -
  have "accounts_ok (s\<lparr>au_next := n\<rparr>)" "sessions_ok (s\<lparr>au_next := n\<rparr>)" "tokens_ok (s\<lparr>au_next := n\<rparr>)"
  proof -
    have lt: "x < au_next s \<Longrightarrow> x < n" for x using assms(2) by simp
    show "accounts_ok (s\<lparr>au_next := n\<rparr>)" "sessions_ok (s\<lparr>au_next := n\<rparr>)" "tokens_ok (s\<lparr>au_next := n\<rparr>)"
      using assms(1) lt by (simp_all add: auth_inv_def accounts_ok_def sessions_ok_def tokens_ok_def)
  qed
  then show ?thesis using assms(1) one_current_cong [of "s\<lparr>au_next := n\<rparr>" s] by (simp add: auth_inv_def)
qed

text \<open>Consuming a token and naming its successor keep its identity.\<close>

lemma save_token_keeps:
  assumes "auth_inv s" and "k \<in> set (au_tokens s)" and "rtk_id t = rtk_id k" and "rtk_session_id t = rtk_session_id k"
    and "rtk_digest t = rtk_digest k" and "rtk_expires_at t = rtk_expires_at k"
    and "rtk_consumed_at t = None \<Longrightarrow> rtk_consumed_at k = None"
  shows "auth_inv (save_token t s)"
proof -
  have u: "unique_keys rtk_id (au_tokens s)" using assms(1) by (simp add: auth_inv_def tokens_ok_def)
  have same: "h = k" if "h \<in> set (au_tokens s)" "rtk_id h = rtk_id t" for h
    using unique_keys_eq [OF u that(1) assms(2)] that(2) assms(3) by simp
  have digests: "map rtk_digest (store_row rtk_id t (au_tokens s)) = map rtk_digest (au_tokens s)"
    using same assms(5) by (auto simp: store_row_def update_where_def)
  have rows: "\<exists>h \<in> set (au_tokens s). rtk_id x = rtk_id h \<and> rtk_session_id x = rtk_session_id h
      \<and> rtk_expires_at x = rtk_expires_at h \<and> (rtk_consumed_at x = None \<longrightarrow> rtk_consumed_at h = None)"
    if "x \<in> set (store_row rtk_id t (au_tokens s))" for x
    using in_store_row [OF that] assms by auto
  have "tokens_ok (save_token t s)"
    unfolding tokens_ok_def save_token_def
  proof (simp, intro conjI ballI)
    show "unique_keys rtk_digest (store_row rtk_id t (au_tokens s))"
      using assms(1) digests by (simp add: auth_inv_def tokens_ok_def unique_keys_def)
    fix x assume "x \<in> set (store_row rtk_id t (au_tokens s))"
    from rows [OF this] show "rtk_id x < au_next s"
      and "\<exists>f \<in> set (au_sessions s). ses_id f = rtk_session_id x \<and> ses_expires_at f = rtk_expires_at x"
      using assms(1) by (auto simp: auth_inv_def tokens_ok_def)
  qed (use u in simp)
  moreover have "one_current (save_token t s)"
    unfolding one_current_def
  proof (intro ballI impI)
    fix x y
    assume xy: "x \<in> set (au_tokens (save_token t s))" "y \<in> set (au_tokens (save_token t s))" "rtk_consumed_at x = None"
      "rtk_consumed_at y = None" "rtk_session_id x = rtk_session_id y"
    obtain x' where x': "x' \<in> set (au_tokens s)" "rtk_id x = rtk_id x'" "rtk_session_id x = rtk_session_id x'" "rtk_consumed_at x' = None"
      using rows [of x] xy(1,3) by (auto simp: save_token_def)
    obtain y' where y': "y' \<in> set (au_tokens s)" "rtk_id y = rtk_id y'" "rtk_session_id y = rtk_session_id y'" "rtk_consumed_at y' = None"
      using rows [of y] xy(2,4) by (auto simp: save_token_def)
    have "rtk_id x' = rtk_id y'"
      using assms(1) x' y' xy(5) unfolding auth_inv_def one_current_def by metis
    then show "rtk_id x = rtk_id y" using x'(2) y'(2) by simp
  qed
  ultimately show ?thesis using assms(1) by (simp add: auth_inv_def accounts_ok_def sessions_ok_def save_token_def)
qed


section \<open>Every operation keeps the tables consistent\<close>

lemma replace_hash_simps [simp]:
  "au_sessions (replace_hash u h s) = au_sessions s"
  "au_tokens (replace_hash u h s) = au_tokens s"
  "au_next (replace_hash u h s) = au_next s"
  "map usr_id (au_users (replace_hash u h s)) = map usr_id (au_users s)"
  by (auto simp: replace_hash_def split: option.splits)

lemma login_transaction_Inr:
  assumes "login_transaction env now refresh email password s = Inr (x, t)"
  obtains u f k replacement where "u \<in> set (au_users s)" "usr_email u = email" "usr_status u = ''active''"
    "f = \<lparr>ses_id = au_next s, ses_user_id = usr_id u, ses_created_at = now,
       ses_expires_at = now + ae_session_seconds env * second, ses_revoked_at = None, ses_revoked_reason = None\<rparr>"
    "k = \<lparr>rtk_id = au_next s + 1, rtk_session_id = au_next s, rtk_digest = ae_digest env refresh,
       rtk_issued_at = now, rtk_expires_at = ses_expires_at f, rtk_consumed_at = None, rtk_successor_id = None\<rparr>"
    "add_token k ((replace_hash u replacement s)\<lparr>au_sessions := au_sessions s @ [f], au_next := au_next s + 2\<rparr>) = Inr t"
    "x = issue env now (usr_id u) (usr_email u) f refresh"
    "fst (verify_password env password (Some (usr_password_hash u)))"
proof -
  obtain valid replacement where v: "verify_password env password (map_option usr_password_hash (find_by_email s email)) = (valid, replacement)"
    by fastforce
  obtain u where u: "find_by_email s email = Some u" "valid" "usr_status u = ''active''"
    using assms unfolding login_transaction_def Let_def v by (auto simp: res_simps)
  have mem: "u \<in> set (au_users s)" "usr_email u = email"
    using select_one_Some u(1) by (fastforce simp: find_by_email_def)+
  have ok: "fst (verify_password env password (Some (usr_password_hash u)))" using v u(1,2) by simp
  show ?thesis
    using assms u(2,3) that [OF mem u(3) refl refl _ _ ok, of replacement]
    unfolding login_transaction_def Let_def v
    unfolding u(1)
    by (auto simp: bindR_Inr add_session_Inr)
qed

lemma login_keeps:
  assumes "auth_inv s" and "login_transaction env now refresh email password s = Inr (x, t)"
  shows "auth_inv t"
proof -
  from login_transaction_Inr [OF assms(2)] obtain u f k h where
    u: "u \<in> set (au_users s)" and f: "ses_id f = au_next s" "ses_user_id f = usr_id u"
    and k: "rtk_id k = au_next s + 1" "rtk_session_id k = au_next s" "rtk_expires_at k = ses_expires_at f"
    and t: "add_token k ((replace_hash u h s)\<lparr>au_sessions := au_sessions s @ [f], au_next := au_next s + 2\<rparr>) = Inr t"
    by (metis auth_session.select_convs(1,2) refresh_token.select_convs(1,2,5))
  let ?s1 = "(replace_hash u h s)\<lparr>au_next := au_next s + 2\<rparr>"
  let ?s2 = "(replace_hash u h s)\<lparr>au_sessions := au_sessions s @ [f], au_next := au_next s + 2\<rparr>"
  have "auth_inv (replace_hash u h s)" by (rule auth_inv_same [OF assms(1)]) simp_all
  then have s1: "auth_inv ?s1" by (rule auth_inv_next) simp
  have fresh: "au_next s \<notin> ses_id ` set (au_sessions s)"
    using assms(1) by (auto simp: auth_inv_def sessions_ok_def)
  have users: "usr_id ` set (au_users ?s1) = usr_id ` set (au_users s)"
    by (metis list.set_map replace_hash_simps(4) auth_db.select_convs(1) auth_db.surjective auth_db.update_convs(5))
  have s2: "auth_inv ?s2"
  proof -
    have "sessions_ok ?s2"
      using s1 f u fresh users by (simp add: auth_inv_def sessions_ok_def less_Suc_eq)
    moreover have "tokens_ok ?s2" using s1 by (auto simp: auth_inv_def tokens_ok_def)
    moreover have "accounts_ok ?s2" using s1 by (simp add: auth_inv_def accounts_ok_def)
    moreover have "one_current ?s2" using assms(1) one_current_cong [of ?s2 s] by (simp add: auth_inv_def)
    ultimately show ?thesis by (simp add: auth_inv_def)
  qed
  have "rtk_id k \<notin> rtk_id ` set (au_tokens ?s2)"
    using assms(1) k(1) by (auto simp: auth_inv_def tokens_ok_def)
  then show ?thesis using add_token_keeps [OF s2 t, of f] k f by simp
qed

lemma rotate_Inr:
  assumes "rotate env now successor digest identity s = Inr (r, t)"
  obtains (refused) "r = None" "t = s"
    "\<not> (\<exists>u f k. lock_family s (fst identity) (snd identity) = (Some u, Some f) \<and> find_token s digest = Some k
        \<and> session_valid (usr_status u) (ses_revoked_at f) (ses_expires_at f) now \<and> rtk_expires_at k > now)"
  | (replayed) u f k where "lock_family s (fst identity) (snd identity) = (Some u, Some f)" "find_token s digest = Some k"
      "session_valid (usr_status u) (ses_revoked_at f) (ses_expires_at f) now" "rtk_expires_at k > now"
      "rtk_consumed_at k \<noteq> None" "r = None"
      "t = save_session (f\<lparr>ses_revoked_at := Some now, ses_revoked_reason := Some ''refresh_replay''\<rparr>) s"
  | (rotated) u f k k1 n s2 where "lock_family s (fst identity) (snd identity) = (Some u, Some f)" "find_token s digest = Some k"
      "session_valid (usr_status u) (ses_revoked_at f) (ses_expires_at f) now" "rtk_expires_at k > now"
      "rtk_consumed_at k = None" "k1 = k\<lparr>rtk_consumed_at := Some now\<rparr>"
      "n = \<lparr>rtk_id = au_next s, rtk_session_id = ses_id f, rtk_digest = ae_digest env successor,
         rtk_issued_at = now, rtk_expires_at = ses_expires_at f, rtk_consumed_at = None, rtk_successor_id = None\<rparr>"
      "add_token n ((save_token k1 s)\<lparr>au_next := au_next s + 1\<rparr>) = Inr s2"
      "r = Some (issue env now (usr_id u) (usr_email u) f successor)"
      "t = save_token (k1\<lparr>rtk_successor_id := Some (au_next s)\<rparr>) s2"
proof (cases "\<exists>u f k. lock_family s (fst identity) (snd identity) = (Some u, Some f) \<and> find_token s digest = Some k
    \<and> session_valid (usr_status u) (ses_revoked_at f) (ses_expires_at f) now \<and> rtk_expires_at k > now")
  case False
  then have "rotate env now successor digest identity s = Inr (None, s)"
    by (auto simp: rotate_def split: prod.splits option.splits)
  then show ?thesis using refused False assms by simp
next
  case True
  then obtain u f k where ufk: "lock_family s (fst identity) (snd identity) = (Some u, Some f)" "find_token s digest = Some k"
    "session_valid (usr_status u) (ses_revoked_at f) (ses_expires_at f) now" "rtk_expires_at k > now" by blast
  show ?thesis
  proof (cases "rtk_consumed_at k = None")
    case False
    then show ?thesis using replayed [OF ufk] assms ufk by (simp add: rotate_def)
  next
    case None: True
    show ?thesis using rotated [OF ufk None refl refl] assms ufk None
      by (auto simp: rotate_def Let_def bindR_Inr)
  qed
qed


lemma rotate_keeps:
  assumes inv: "auth_inv s" and r: "rotate env now successor digest identity s = Inr (r, t)"
  shows "auth_inv t"
  using r
proof (cases rule: rotate_Inr)
  case refused
  then show ?thesis using inv by simp
next
  case (replayed u f k)
  then show ?thesis using lock_family_Some(1) [of s "fst identity" "snd identity" f]
    by (auto intro!: save_session_keeps [OF inv, of f] simp: session_facts_def)
next
  case (rotated u f k k1 n s2)
  have k: "k \<in> set (au_tokens s)" using find_token_Some [OF rotated(2)] by simp
  have f: "f \<in> set (au_sessions s)" using lock_family_Some(1) [of s "fst identity" "snd identity" f] rotated(1) by simp
  let ?s1 = "(save_token k1 s)\<lparr>au_next := au_next s + 1\<rparr>"
  have "auth_inv (save_token k1 s)" by (rule save_token_keeps [OF inv k]) (simp_all add: rotated(6))
  then have s1: "auth_inv ?s1" by (rule auth_inv_next) (simp add: save_token_def)
  have fresh: "rtk_id n \<notin> rtk_id ` set (au_tokens ?s1)"
    using inv by (auto simp: auth_inv_def tokens_ok_def save_token_def rotated(7))
  have s2: "auth_inv s2"
    by (rule add_token_keeps [OF s1 rotated(8) fresh, of f]) (use f in \<open>simp_all add: rotated(7) save_token_def\<close>)
  have k1: "k1 \<in> set (au_tokens s2)"
    using rotated(8) store_row_self [OF k, of rtk_id k1] by (auto simp: add_token_Inr save_token_def rotated(6))
  show ?thesis unfolding rotated(10) by (rule save_token_keeps [OF s2 k1]) simp_all
qed

lemma revoke_session_facts [simp]: "session_facts (revoke_session now reason f) = session_facts f"
  by (simp add: revoke_session_def session_facts_def)

lemma logout_cases:
  obtains "logout env now refresh access s = s"
  | f where "f \<in> set (au_sessions s)" "logout env now refresh access s = save_session (revoke_session now ''logout'' f) s"
proof -
  have "logout env now refresh access s = s \<or> (\<exists>u i f. snd (lock_family s u i) = Some f
      \<and> logout env now refresh access s = save_session (revoke_session now ''logout'' f) s)"
    unfolding logout_def Let_def by (auto split: option.split sum.split prod.split)
  then show ?thesis using that lock_family_Some(1) by metis
qed

lemma logout_keeps: "auth_inv s \<Longrightarrow> auth_inv (logout env now refresh access s)"
  by (rule logout_cases [of env now refresh access s]) (simp_all add: save_session_keeps)

lemma create_user_keeps:
  assumes "auth_inv s" and "create_user env email password s = Inr t"
  shows "auth_inv t"
proof -
  obtain e h where t: "t = s\<lparr>au_users := au_users s @ [\<lparr>usr_id = au_next s, usr_email = e, usr_password_hash = h,
      usr_status = ''active''\<rparr>], au_next := au_next s + 1\<rparr>"
    using assms(2) by (auto simp: create_user_def res_simps)
  have "accounts_ok t" using assms(1) by (auto simp: t auth_inv_def accounts_ok_def)
  moreover have "sessions_ok t" using assms(1) by (auto simp: t auth_inv_def sessions_ok_def)
  moreover have "tokens_ok t" using assms(1) by (auto simp: t auth_inv_def tokens_ok_def)
  moreover have "one_current t" using assms(1) one_current_cong [of t s] by (simp add: t auth_inv_def)
  ultimately show ?thesis by (simp add: auth_inv_def)
qed

lemma disable_user_keeps:
  assumes "auth_inv s" and "disable_user now email s = Inr t"
  shows "auth_inv t"
proof -
  obtain u where t: "t = s\<lparr>au_users := store_row usr_id (u\<lparr>usr_status := ''disabled''\<rparr>) (au_users s),
      au_sessions := update_where (\<lambda>f. ses_user_id f = usr_id u) (revoke_session now ''user_disabled'') (au_sessions s)\<rparr>"
    using assms(2) by (auto simp: disable_user_def res_simps)
  show ?thesis by (rule auth_inv_same [OF assms(1)]) (simp_all add: t map_update_where)
qed

lemma drop_sessions_keeps:
  assumes "auth_inv s" shows "auth_inv (drop_sessions ids s)"
proof -
  let ?t = "drop_sessions ids s"
  have rows: "\<exists>h \<in> set (au_tokens s). rtk_id x = rtk_id h \<and> rtk_session_id x = rtk_session_id h
      \<and> rtk_expires_at x = rtk_expires_at h \<and> rtk_consumed_at x = rtk_consumed_at h \<and> rtk_session_id h \<notin> set ids"
    if "x \<in> set (au_tokens ?t)" for x
    using that by (auto simp: drop_sessions_def Let_def set_update_where set_delete_where split: if_splits)
  have cols: "map rtk_id (au_tokens ?t) = map rtk_id (filter (\<lambda>t. rtk_session_id t \<notin> set ids) (au_tokens s))"
    "map rtk_digest (au_tokens ?t) = map rtk_digest (filter (\<lambda>t. rtk_session_id t \<notin> set ids) (au_tokens s))"
    by (simp_all add: drop_sessions_def Let_def map_update_where delete_where_def)
  have "sessions_ok ?t"
    using assms by (auto simp: auth_inv_def sessions_ok_def drop_sessions_def Let_def set_delete_where
        unique_keys_def delete_where_def intro: distinct_map_filter)
  moreover have "tokens_ok ?t"
    unfolding tokens_ok_def
  proof (intro conjI ballI)
    show "unique_keys rtk_id (au_tokens ?t)" "unique_keys rtk_digest (au_tokens ?t)"
      using assms by (simp_all add: unique_keys_def cols auth_inv_def tokens_ok_def distinct_map_filter)
    fix x assume "x \<in> set (au_tokens ?t)"
    from rows [OF this] obtain h where h: "h \<in> set (au_tokens s)" "rtk_id x = rtk_id h" "rtk_session_id x = rtk_session_id h"
      "rtk_expires_at x = rtk_expires_at h" "rtk_session_id h \<notin> set ids" by blast
    from assms h(1) obtain f where "rtk_id h < au_next s" "f \<in> set (au_sessions s)" "ses_id f = rtk_session_id h"
      "ses_expires_at f = rtk_expires_at h" by (auto simp: auth_inv_def tokens_ok_def)
    with h show "rtk_id x < au_next ?t"
      "\<exists>f \<in> set (au_sessions ?t). ses_id f = rtk_session_id x \<and> ses_expires_at f = rtk_expires_at x"
      by (auto simp: drop_sessions_def Let_def set_delete_where)
  qed
  moreover have "one_current ?t"
    unfolding one_current_def
  proof (intro ballI impI)
    fix x y assume xy: "x \<in> set (au_tokens ?t)" "y \<in> set (au_tokens ?t)" "rtk_consumed_at x = None" "rtk_consumed_at y = None"
      "rtk_session_id x = rtk_session_id y"
    from rows [OF xy(1)] rows [OF xy(2)] xy(3-5) assms show "rtk_id x = rtk_id y"
      unfolding auth_inv_def one_current_def by metis
  qed
  ultimately show ?thesis using assms by (simp add: auth_inv_def accounts_ok_def drop_sessions_def Let_def)
qed

lemma cleanup_cases:
  assumes "cleanup now n s = Inr (m, t)"
  obtains ids rates where "t = (drop_sessions ids s)\<lparr>au_rates := rates\<rparr>"
    "\<forall>f \<in> set (au_sessions s). ses_id f \<in> set ids \<longrightarrow> (\<exists>g \<in> set (au_sessions s). ses_id g = ses_id f \<and> ses_expires_at g \<le> now)"
proof -
  let ?ids = "take (nat n) (sort (map ses_id (filter (\<lambda>f. ses_expires_at f \<le> now) (au_sessions s))))"
  have "update_where (\<lambda>t. case rtk_successor_id t of None \<Rightarrow> False | Some i \<Rightarrow> i \<in> set []) g xs = xs" for g and xs :: "refresh_token list"
    by (rule update_where_none) (simp split: option.splits)
  then have no_drop: "drop_sessions [] s = s" by (simp add: drop_sessions_def Let_def delete_where_def)
  have "\<exists>rates. t = (drop_sessions ?ids s)\<lparr>au_rates := rates\<rparr>"
  proof (cases "?ids = []")
    case True
    then have "\<exists>rates. t = s\<lparr>au_rates := rates\<rparr>" using assms by (auto simp: cleanup_def res_simps Let_def)
    then show ?thesis unfolding True no_drop .
  qed (use assms in \<open>auto simp: cleanup_def res_simps Let_def\<close>)
  moreover have "\<exists>g \<in> set (au_sessions s). ses_id g = i \<and> ses_expires_at g \<le> now" if "i \<in> set ?ids" for i
    using in_set_takeD [OF that] by auto
  ultimately show ?thesis using that by metis
qed

lemma auth_inv_rates: "auth_inv s \<Longrightarrow> auth_inv (s\<lparr>au_rates := r\<rparr>)"
  by (rule auth_inv_same) simp_all


section \<open>Runs\<close>

text \<open>
  The operations on the tables, each a transaction. The identity a rotation locks was read in an earlier
  transaction, so it is arbitrary here. \<open>avoid\<close> are digests that no token issued in the run hashes to.
\<close>

inductive auth_step :: "auth_env \<Rightarrow> string set \<Rightarrow> auth_db \<Rightarrow> auth_db \<Rightarrow> bool" for env avoid where
  logged_in: "ae_digest env refresh \<notin> avoid \<Longrightarrow> login_core env now fate refresh email password s = (x, t)
    \<Longrightarrow> auth_step env avoid s t"
| refreshed: "ae_digest env successor \<notin> avoid \<Longrightarrow> refresh_core env now fate successor digest identity s = (x, t)
    \<Longrightarrow> auth_step env avoid s t"
| logged_out: "auth_step env avoid s (logout env now refresh access s)"
| user_created: "create_user env email password s = Inr t \<Longrightarrow> auth_step env avoid s t"
| user_disabled: "disable_user now email s = Inr t \<Longrightarrow> auth_step env avoid s t"
| cleaned: "cleanup now n s = Inr (m, t) \<Longrightarrow> auth_step env avoid s t"
| counted: "increment digest start expiry s = (n, t) \<Longrightarrow> auth_step env avoid s t"

lemma login_core_cases:
  assumes "login_core env now fate refresh email password s = (r, t)"
  obtains "t = s" "\<not> (\<exists>x. r = Inr x)"
  | x where "login_transaction env now refresh email password s = Inr (x, t)" "r = Inr x \<or> r = Inl AuthStorageError"
  using assms by (cases fate) (auto simp: login_core_def under_deadline_def transact_def split: sum.splits)

lemma refresh_core_cases:
  assumes "refresh_core env now fate successor digest identity s = (r, t)"
  obtains (same) "t = s" "\<not> (\<exists>x. r = Inr x)"
  | (denied) "rotate env now successor digest identity s = Inr (None, t)" "\<not> (\<exists>x. r = Inr x)"
  | (issued) x where "rotate env now successor digest identity s = Inr (Some x, t)" "r = Inr x \<or> r = Inl AuthStorageError"
  using assms by (cases fate)
    (auto simp: refresh_core_def under_deadline_def transact_def split: sum.splits option.splits prod.splits)

text \<open>A session that a request can still be authenticated with, or rotated.\<close>

definition usable :: "auth_db \<Rightarrow> uuid \<Rightarrow> bool" where
  "usable s i = (\<exists>f \<in> set (au_sessions s). ses_id f = i \<and> ses_revoked_at f = None
     \<and> (\<exists>u \<in> set (au_users s). usr_id u = ses_user_id f \<and> usr_status u = ''active''))"

lemma usableI:
  "f \<in> set (au_sessions s) \<Longrightarrow> ses_id f = i \<Longrightarrow> ses_revoked_at f = None \<Longrightarrow> u \<in> set (au_users s)
    \<Longrightarrow> usr_id u = ses_user_id f \<Longrightarrow> usr_status u = ''active'' \<Longrightarrow> usable s i"
  by (auto simp: usable_def)

text \<open>Every token with the digest has been consumed.\<close>

definition spent :: "auth_db \<Rightarrow> string \<Rightarrow> bool" where
  "spent s d = (\<forall>k \<in> set (au_tokens s). rtk_digest k = d \<longrightarrow> rtk_consumed_at k \<noteq> None)"

text \<open>What every step does: it revives no session and no account, and no spent token.\<close>

definition settles :: "string set \<Rightarrow> auth_db \<Rightarrow> auth_db \<Rightarrow> bool" where
  "settles avoid s t = (au_next s \<le> au_next t
     \<and> (\<forall>u \<in> set (au_users t). usr_id u < au_next s \<longrightarrow> usr_status u = ''active''
          \<longrightarrow> (\<exists>v \<in> set (au_users s). usr_id v = usr_id u \<and> usr_status v = ''active''))
     \<and> (\<forall>f \<in> set (au_sessions t). ses_id f < au_next s
          \<longrightarrow> (\<exists>g \<in> set (au_sessions s). session_facts g = session_facts f
                \<and> (ses_revoked_at f = None \<longrightarrow> ses_revoked_at g = None)))
     \<and> (\<forall>d \<in> avoid. spent s d \<longrightarrow> spent t d))"

lemma settles_refl [simp]: "settles avoid s s"
  by (auto simp: settles_def)

lemma settles_same:
  assumes "au_next t = au_next s" and "au_users t = au_users s" and "au_sessions t = au_sessions s" and "au_tokens t = au_tokens s"
  shows "settles avoid s t"
  using assms by (auto simp: settles_def spent_def)

lemma settles_user:
  assumes "settles avoid s t" and "u \<in> set (au_users t)" and "usr_id u < au_next s" and "usr_status u = ''active''"
  obtains v where "v \<in> set (au_users s)" "usr_id v = usr_id u" "usr_status v = ''active''"
proof -
  have "\<exists>v \<in> set (au_users s). usr_id v = usr_id u \<and> usr_status v = ''active''"
    using assms by (simp add: settles_def)
  then show ?thesis using that by auto
qed

lemma settles_session:
  assumes "settles avoid s t" and "f \<in> set (au_sessions t)" and "ses_id f < au_next s"
  obtains g where "g \<in> set (au_sessions s)" "session_facts g = session_facts f"
    "ses_revoked_at f = None \<longrightarrow> ses_revoked_at g = None"
proof -
  have "\<exists>g \<in> set (au_sessions s). session_facts g = session_facts f \<and> (ses_revoked_at f = None \<longrightarrow> ses_revoked_at g = None)"
    using assms by (simp add: settles_def)
  then show ?thesis using that by auto
qed

lemma settles_usable:
  assumes "auth_inv s" and "settles avoid s t" and "usable t i" and "i < au_next s"
  shows "usable s i"
proof -
  from assms(3) obtain f u where f: "f \<in> set (au_sessions t)" "ses_id f = i" "ses_revoked_at f = None"
    and u: "u \<in> set (au_users t)" "usr_id u = ses_user_id f" "usr_status u = ''active''" by (auto simp: usable_def)
  have "ses_id f < au_next s" using f(2) assms(4) by simp
  from settles_session [OF assms(2) f(1) this] obtain g where
    g: "g \<in> set (au_sessions s)" "session_facts g = session_facts f" "ses_revoked_at g = None" using f(3) by metis
  have "ses_user_id g \<in> usr_id ` set (au_users s)" "\<forall>v \<in> set (au_users s). usr_id v < au_next s"
    using assms(1) g(1) by (simp_all add: auth_inv_def sessions_ok_def accounts_ok_def)
  then have "usr_id u < au_next s" using g(2) u(2) by (auto simp: session_facts_def)
  from settles_user [OF assms(2) u(1) this u(3)] obtain v where
    v: "v \<in> set (au_users s)" "usr_id v = usr_id u" "usr_status v = ''active''" .
  have "ses_id g = i" "ses_user_id g = usr_id v" using g(2) f(2) u(2) v(2) by (simp_all add: session_facts_def)
  then show ?thesis using g(1,3) v(1,3) unfolding usable_def by metis
qed

lemma settles_trans:
  assumes "settles avoid s t" and "settles avoid t u" shows "settles avoid s u"
proof -
  have later: "au_next s \<le> au_next t" "au_next t \<le> au_next u" using assms by (simp_all add: settles_def)
  have "\<exists>v \<in> set (au_users s). usr_id v = usr_id x \<and> usr_status v = ''active''"
    if "x \<in> set (au_users u)" "usr_id x < au_next s" "usr_status x = ''active''" for x
  proof -
    have "usr_id x < au_next t" using that(2) later(1) by simp
    from settles_user [OF assms(2) that(1) this that(3)] obtain y where
      y: "y \<in> set (au_users t)" "usr_id y = usr_id x" "usr_status y = ''active''" .
    have "usr_id y < au_next s" using y(2) that(2) by simp
    from settles_user [OF assms(1) y(1) this y(3)] y(2) show ?thesis by metis
  qed
  moreover have "\<exists>g \<in> set (au_sessions s). session_facts g = session_facts f \<and> (ses_revoked_at f = None \<longrightarrow> ses_revoked_at g = None)"
    if "f \<in> set (au_sessions u)" "ses_id f < au_next s" for f
  proof -
    have "ses_id f < au_next t" using that(2) later(1) by simp
    from settles_session [OF assms(2) that(1) this] obtain h where
      h: "h \<in> set (au_sessions t)" "session_facts h = session_facts f" "ses_revoked_at f = None \<longrightarrow> ses_revoked_at h = None" .
    have "ses_id h < au_next s" using h(2) that(2) by (simp add: session_facts_def)
    from settles_session [OF assms(1) h(1) this] h(2,3) show ?thesis by metis
  qed
  moreover have "spent s d \<Longrightarrow> spent u d" if "d \<in> avoid" for d using assms that by (simp add: settles_def)
  ultimately show ?thesis using later by (simp add: settles_def)
qed


section \<open>Every step settles\<close>

text \<open>Sufficient conditions on what a step does to the three tables.\<close>

definition users_kept :: "auth_db \<Rightarrow> auth_db \<Rightarrow> bool" where
  "users_kept s t = (\<forall>u \<in> set (au_users t). usr_id u < au_next s \<longrightarrow> usr_status u = ''active''
     \<longrightarrow> (\<exists>v \<in> set (au_users s). usr_id v = usr_id u \<and> usr_status v = ''active''))"

definition sessions_kept :: "auth_db \<Rightarrow> auth_db \<Rightarrow> bool" where
  "sessions_kept s t = (\<forall>f \<in> set (au_sessions t). ses_id f < au_next s
     \<longrightarrow> (\<exists>g \<in> set (au_sessions s). session_facts g = session_facts f
           \<and> (ses_revoked_at f = None \<longrightarrow> ses_revoked_at g = None)))"

lemma settlesI:
  assumes "au_next s \<le> au_next t" and "users_kept s t" and "sessions_kept s t"
    and "\<And>d. d \<in> avoid \<Longrightarrow> spent s d \<Longrightarrow> spent t d"
  shows "settles avoid s t"
  using assms by (simp add: settles_def users_kept_def sessions_kept_def)

lemma users_kept_same: "au_users t = au_users s \<Longrightarrow> users_kept s t"
  by (auto simp: users_kept_def)

lemma sessions_kept_same: "au_sessions t = au_sessions s \<Longrightarrow> sessions_kept s t"
  by (auto simp: sessions_kept_def)

lemma spent_add_token:
  "add_token k s = Inr t \<Longrightarrow> rtk_digest k \<noteq> d \<Longrightarrow> spent s d \<Longrightarrow> spent t d"
  by (auto simp: add_token_Inr spent_def)

lemma spent_save_token: "spent s d \<Longrightarrow> rtk_consumed_at k \<noteq> None \<Longrightarrow> spent (save_token k s) d"
  by (auto simp: spent_def save_token_def dest!: in_store_row)

lemma spent_cong: "au_tokens t = au_tokens s \<Longrightarrow> spent t d = spent s d"
  by (simp add: spent_def)

lemma saved_session_settles:
  assumes "f \<in> set (au_sessions s)" and "session_facts g = session_facts f"
    and "ses_revoked_at g = None \<Longrightarrow> ses_revoked_at f = None"
  shows "settles avoid s (save_session g s)"
proof (rule settlesI)
  show "sessions_kept s (save_session g s)"
    unfolding sessions_kept_def
  proof (intro ballI impI)
    fix x assume "x \<in> set (au_sessions (save_session g s))"
    then consider "x = g" | "x \<in> set (au_sessions s)" by (auto simp: save_session_def dest: in_store_row)
    then show "\<exists>h \<in> set (au_sessions s). session_facts h = session_facts x \<and> (ses_revoked_at x = None \<longrightarrow> ses_revoked_at h = None)"
      using assms by cases (metis, metis)
  qed
qed (auto simp: save_session_def users_kept_def spent_def)

lemma replace_hash_users:
  assumes "u \<in> set (au_users s)" and "x \<in> set (au_users (replace_hash u h s))"
  shows "\<exists>v \<in> set (au_users s). usr_id v = usr_id x \<and> usr_status v = usr_status x"
  using assms by (auto simp: replace_hash_def split: option.splits if_splits dest!: in_store_row)

lemma login_settles:
  assumes "login_transaction env now refresh email password s = Inr (x, t)" and "ae_digest env refresh \<notin> avoid"
  shows "settles avoid s t"
proof -
  from login_transaction_Inr [OF assms(1)] obtain u f k h where
    u: "u \<in> set (au_users s)" and f: "ses_id f = au_next s"
    and k: "rtk_digest k = ae_digest env refresh"
    and t: "add_token k ((replace_hash u h s)\<lparr>au_sessions := au_sessions s @ [f], au_next := au_next s + 2\<rparr>) = Inr t"
    by (metis auth_session.select_convs(1) refresh_token.select_convs(3))
  let ?s2 = "(replace_hash u h s)\<lparr>au_sessions := au_sessions s @ [f], au_next := au_next s + 2\<rparr>"
  have t': "t = ?s2\<lparr>au_tokens := au_tokens s @ [k]\<rparr>" using t by (simp add: add_token_Inr)
  show ?thesis
  proof (rule settlesI)
    show "au_next s \<le> au_next t" by (simp add: t')
    show "users_kept s t"
      using replace_hash_users [OF u] by (fastforce simp: users_kept_def t')
    show "sessions_kept s t" using f by (auto simp: sessions_kept_def t')
    show "spent t d" if d: "d \<in> avoid" "spent s d" for d
    proof (rule spent_add_token [OF t])
      show "rtk_digest k \<noteq> d" using d(1) assms(2) k by metis
      show "spent ?s2 d" using d(2) by (simp add: spent_def)
    qed
  qed
qed

lemma rotate_settles:
  assumes "rotate env now successor digest identity s = Inr (r, t)" and "ae_digest env successor \<notin> avoid"
  shows "settles avoid s t"
  using assms(1)
proof (cases rule: rotate_Inr)
  case refused
  then show ?thesis by simp
next
  case (replayed u f k)
  have "f \<in> set (au_sessions s)" using lock_family_Some(1) [of s "fst identity" "snd identity" f] replayed(1) by simp
  then show ?thesis unfolding replayed(7) by (rule saved_session_settles) (simp_all add: session_facts_def)
next
  case (rotated u f k k1 n s2)
  have s2: "s2 = (save_token k1 s)\<lparr>au_next := au_next s + 1, au_tokens := au_tokens (save_token k1 s) @ [n]\<rparr>"
    using rotated(8) by (simp add: add_token_Inr)
  show ?thesis
  proof (rule settlesI)
    show "au_next s \<le> au_next t" by (simp add: rotated(10) s2 save_token_def)
    show "users_kept s t" by (rule users_kept_same) (simp add: rotated(10) s2 save_token_def)
    show "sessions_kept s t" by (rule sessions_kept_same) (simp add: rotated(10) s2 save_token_def)
    fix d assume d: "d \<in> avoid" "spent s d"
    have "spent (save_token k1 s) d" using d(2) by (rule spent_save_token) (simp add: rotated(6))
    then have "spent ((save_token k1 s)\<lparr>au_next := au_next s + 1\<rparr>) d" by (simp add: spent_def)
    moreover have "rtk_digest n \<noteq> d" using assms(2) d(1) by (auto simp: rotated(7))
    ultimately have "spent s2 d" using spent_add_token [OF rotated(8)] by blast
    then show "spent t d" unfolding rotated(10) by (rule spent_save_token) (simp add: rotated(6))
  qed
qed

lemma disable_settles:
  assumes "disable_user now email s = Inr t" shows "settles avoid s t"
proof -
  obtain u where t: "t = s\<lparr>au_users := store_row usr_id (u\<lparr>usr_status := ''disabled''\<rparr>) (au_users s),
      au_sessions := update_where (\<lambda>f. ses_user_id f = usr_id u) (revoke_session now ''user_disabled'') (au_sessions s)\<rparr>"
    using assms by (auto simp: disable_user_def res_simps)
  show ?thesis
  proof (rule settlesI)
    show "users_kept s t" by (auto simp: users_kept_def t dest!: in_store_row)
    show "sessions_kept s t"
      unfolding sessions_kept_def
    proof (intro ballI impI)
      fix f assume "f \<in> set (au_sessions t)"
      then obtain g where "g \<in> set (au_sessions s)" "f = g \<or> f = revoke_session now ''user_disabled'' g"
        by (auto simp: t set_update_where)
      then show "\<exists>g \<in> set (au_sessions s). session_facts g = session_facts f \<and> (ses_revoked_at f = None \<longrightarrow> ses_revoked_at g = None)"
        by (intro bexI [of _ g]) (auto simp: revoke_session_def session_facts_def split: if_splits)
    qed
  qed (simp_all add: t spent_def)
qed

lemma drop_sessions_settles: "settles avoid s ((drop_sessions ids s)\<lparr>au_rates := rates\<rparr>)"
proof (rule settlesI)
  show "sessions_kept s ((drop_sessions ids s)\<lparr>au_rates := rates\<rparr>)"
    by (auto simp: sessions_kept_def drop_sessions_def Let_def set_delete_where)
  show "spent ((drop_sessions ids s)\<lparr>au_rates := rates\<rparr>) d" if "spent s d" for d
    using that by (auto simp: spent_def drop_sessions_def Let_def set_update_where set_delete_where split: if_splits)
qed (auto simp: users_kept_def drop_sessions_def Let_def)

lemma increment_same: "increment digest start expiry s = (n, t) \<Longrightarrow> au_users t = au_users s \<and> au_sessions t = au_sessions s
    \<and> au_tokens t = au_tokens s \<and> au_next t = au_next s"
  by (auto simp: increment_def split: option.splits)

lemma auth_step_effect:
  assumes "auth_inv s" and "auth_step env avoid s t"
  shows "auth_inv t \<and> settles avoid s t"
  using assms(2)
proof cases
  case (logged_in refresh now fate email password x)
  show ?thesis
  proof (rule login_core_cases [OF logged_in(2)])
    fix y assume y: "login_transaction env now refresh email password s = Inr (y, t)"
    then show ?thesis using login_keeps [OF assms(1) y] login_settles [OF y logged_in(1)] by simp
  qed (use assms(1) in simp)
next
  case (refreshed successor now fate digest identity x)
  show ?thesis
  proof -
    have "t = s \<or> (\<exists>r. rotate env now successor digest identity s = Inr (r, t))"
      by (rule refresh_core_cases [OF refreshed(2)]) blast+
    then show ?thesis
      using assms(1) rotate_keeps [OF assms(1), of env now successor digest identity _ t]
        rotate_settles [OF _ refreshed(1), of now digest identity s _ t] by auto
  qed
next
  case (logged_out now refresh access)
  show ?thesis
  proof (rule logout_cases [of env now refresh access s])
    fix f assume f: "f \<in> set (au_sessions s)" "logout env now refresh access s = save_session (revoke_session now ''logout'' f) s"
    have "settles avoid s (save_session (revoke_session now ''logout'' f) s)"
      by (rule saved_session_settles [OF f(1) revoke_session_facts]) (simp add: revoke_session_def split: if_splits)
    moreover have "auth_inv t" unfolding logged_out by (rule logout_keeps [OF assms(1)])
    ultimately show ?thesis using logged_out f(2) by simp
  qed (use assms(1) logged_out in simp)
next
  case (user_created email password)
  have "settles avoid s t"
    using user_created by (intro settlesI) (auto simp: create_user_def res_simps users_kept_def sessions_kept_def spent_def)
  then show ?thesis using create_user_keeps [OF assms(1) user_created] by simp
next
  case (user_disabled now email)
  then show ?thesis using disable_user_keeps [OF assms(1)] disable_settles by blast
next
  case (cleaned now n m)
  obtain ids rates where "t = (drop_sessions ids s)\<lparr>au_rates := rates\<rparr>" by (rule cleanup_cases [OF cleaned])
  then show ?thesis using drop_sessions_settles auth_inv_rates [OF drop_sessions_keeps [OF assms(1)]] by simp
next
  case (counted digest start expiry n)
  note same = increment_same [OF counted]
  have "auth_inv t" by (rule auth_inv_same [OF assms(1)]) (simp_all add: same)
  then show ?thesis using settles_same same by blast
qed

interpretation auth_tables: step_invariant "auth_step env avoid" auth_inv
  for env avoid by standard (use auth_step_effect in blast)

lemma auth_run_settles:
  assumes "(auth_step env avoid)\<^sup>*\<^sup>* s t" and "auth_inv s"
  shows "auth_inv t \<and> settles avoid s t"
  using assms
proof (induction rule: rtranclp_induct)
  case (step t u)
  then show ?case using auth_step_effect [of t env avoid u] settles_trans by blast
qed simp


section \<open>Rotation and revocation\<close>

lemma token_identity_Some:
  assumes "token_identity s d = Some (u, i)"
  obtains k f where "k \<in> set (au_tokens s)" "rtk_digest k = d" "rtk_session_id k = i"
    "f \<in> set (au_sessions s)" "ses_id f = i" "ses_user_id f = u"
  using assms by (auto simp: token_identity_def Option.bind_eq_Some_conv dest!: select_one_Some by_key_Some)

lemma find_token_unique:
  "auth_inv s \<Longrightarrow> k \<in> set (au_tokens s) \<Longrightarrow> rtk_digest k = d \<Longrightarrow> find_token s d = Some k"
  using by_key_member [of rtk_digest "au_tokens s" k] by (simp add: auth_inv_def tokens_ok_def find_token_def by_key_def)

text \<open>What cannot be used is neither authenticated nor rotated.\<close>

lemma principal_usable:
  assumes "get_current_principal env now token s = Inr p" shows "usable s (pri_session_id p)"
  using assms
  by (auto simp: get_current_principal_def res_simps session_valid_def split: option.splits dest!: by_key_Some intro: usableI)

lemma rotate_usable:
  assumes "rotate env now successor digest identity s = Inr (Some x, t)" shows "usable s (snd identity)"
  using assms
proof (cases rule: rotate_Inr)
  case (rotated u f k k1 n s2)
  have "f \<in> set (au_sessions s)" "ses_id f = snd identity" "ses_user_id f = fst identity"
    using lock_family_Some [of s "fst identity" "snd identity" f] rotated(1) by simp_all
  moreover have "u \<in> set (au_users s)" "usr_id u = fst identity"
    using rotated(1) by (auto simp: lock_family_def dest!: by_key_Some)
  ultimately show ?thesis using rotated(3) by (auto simp: session_valid_def intro: usableI)
qed simp_all

lemma refresh_usable:
  assumes "refresh_core env now fate successor digest identity s = (Inr x, t)"
  shows "usable s (snd identity)" and "rotate env now successor digest identity s = Inr (Some x, t)"
proof -
  show "rotate env now successor digest identity s = Inr (Some x, t)"
    using assms by (cases rule: refresh_core_cases) auto
  then show "usable s (snd identity)" by (rule rotate_usable)
qed

lemma dead_sessions_stay_dead:
  assumes "auth_inv s" and "(auth_step env avoid)\<^sup>*\<^sup>* s t" and "i < au_next s" and "\<not> usable s i"
  shows "\<not> usable t i"
  using auth_run_settles [OF assms(2,1)] settles_usable [OF assms(1) _ _ assms(3)] assms(4) by blast

text \<open>
  The ways a session ends: a consumed token of it is presented again (and the transaction commits, even
  if the caller is told of a timeout), it is logged out with one of its tokens, or its account is disabled.
\<close>

definition ends_session :: "auth_env \<Rightarrow> auth_db \<Rightarrow> auth_db \<Rightarrow> uuid \<Rightarrow> bool" where
  "ends_session env s t i =
     ((\<exists>now fate successor digest identity k r. fate \<noteq> Abandoned \<and> token_identity s digest = Some identity
         \<and> find_token s digest = Some k \<and> rtk_consumed_at k \<noteq> None \<and> now < rtk_expires_at k \<and> snd identity = i
         \<and> refresh_core env now fate successor digest identity s = (r, t))
    \<or> (\<exists>now refresh access d u. presented_digest env refresh = Some d \<and> token_identity s d = Some (u, i)
         \<and> t = logout env now refresh access s)
    \<or> (\<exists>now email u f. find_by_email s (normalize_email email) = Some u \<and> f \<in> set (au_sessions s)
         \<and> ses_user_id f = usr_id u \<and> ses_id f = i \<and> disable_user now email s = Inr t))"

lemma revoked_unusable:
  assumes "auth_inv (save_session g s)" and "f \<in> set (au_sessions s)" and "ses_id g = ses_id f" and "ses_revoked_at g \<noteq> None"
  shows "\<not> usable (save_session g s) (ses_id f)"
proof
  assume "usable (save_session g s) (ses_id f)"
  then obtain h where h: "h \<in> set (au_sessions (save_session g s))" "ses_id h = ses_id g" "ses_revoked_at h = None"
    using assms(3) by (auto simp: usable_def)
  have "g \<in> set (au_sessions (save_session g s))"
    using store_row_self [OF assms(2), of ses_id g] assms(3) by (simp add: save_session_def)
  then have "h = g" using assms(1) h(1,2) unique_keys_eq by (fastforce simp: auth_inv_def sessions_ok_def)
  then show False using h(3) assms(4) by simp
qed

lemma replay_ends:
  assumes inv: "auth_inv s" and "token_identity s digest = Some identity" and "find_token s digest = Some k"
    and "rtk_consumed_at k \<noteq> None" and "now < rtk_expires_at k"
    and "rotate env now successor digest identity s = Inr (r, t)"
  shows "r = None \<and> \<not> usable t (snd identity)"
proof -
  obtain u i where ui: "identity = (u, i)" by (cases identity)
  obtain k' f where f: "k' \<in> set (au_tokens s)" "rtk_digest k' = digest" "rtk_session_id k' = i"
    "f \<in> set (au_sessions s)" "ses_id f = i" "ses_user_id f = u"
    using token_identity_Some assms(2) ui by metis
  have "k' = k" using find_token_unique [OF inv f(1,2)] assms(3) by simp
  then obtain f' where f': "f' \<in> set (au_sessions s)" "ses_id f' = i" "ses_expires_at f' = rtk_expires_at k"
    using inv f(1,3) by (auto simp: auth_inv_def tokens_ok_def)
  have sess: "unique_keys ses_id (au_sessions s)" using inv by (simp add: auth_inv_def sessions_ok_def)
  have "f' = f" using unique_keys_eq [OF sess f'(1) f(4)] f'(2) f(5) by simp
  from assms(6) show ?thesis
  proof (cases rule: rotate_Inr)
    case refused
    have "\<not> usable s i"
    proof
      assume "usable s i"
      then obtain g v where g: "g \<in> set (au_sessions s)" "ses_id g = i" "ses_revoked_at g = None"
        and v: "v \<in> set (au_users s)" "usr_id v = ses_user_id g" "usr_status v = ''active''" by (auto simp: usable_def)
      have "g = f" using unique_keys_eq [OF sess g(1) f(4)] g(2) f(5) by simp
      have users: "unique_keys usr_id (au_users s)" using inv by (simp add: auth_inv_def accounts_ok_def)
      have "by_key usr_id u (au_users s) = Some v" using by_key_member [OF users v(1)] v(2) f(6) \<open>g = f\<close> by simp
      moreover have "select_one (\<lambda>h. ses_id h = i \<and> ses_user_id h = u) (au_sessions s) = Some f"
      proof -
        have "select_one (\<lambda>h. ses_id h = i \<and> ses_user_id h = u) (au_sessions s) \<noteq> None"
          using f(4-6) by (auto simp: select_one_None)
        then obtain h where h: "select_one (\<lambda>h. ses_id h = i \<and> ses_user_id h = u) (au_sessions s) = Some h" by auto
        then show ?thesis using unique_keys_eq [OF sess, of h f] f(4,5) select_one_Some [OF h] by simp
      qed
      ultimately have "lock_family s (fst identity) (snd identity) = (Some v, Some f)" by (simp add: lock_family_def ui)
      moreover have "session_valid (usr_status v) (ses_revoked_at f) (ses_expires_at f) now"
        using v(3) g(3) \<open>g = f\<close> \<open>f' = f\<close> f'(3) assms(5) by (simp add: session_valid_def)
      ultimately show False using refused(3) assms(3,5) by blast
    qed
    then show ?thesis using refused(1,2) ui by simp
  next
    case (replayed v g k'')
    have g: "g \<in> set (au_sessions s)" "ses_id g = i" using lock_family_Some [of s "fst identity" "snd identity" g] replayed(1) ui by simp_all
    let ?g = "g\<lparr>ses_revoked_at := Some now, ses_revoked_reason := Some ''refresh_replay''\<rparr>"
    have "auth_inv (save_session ?g s)" using rotate_keeps [OF inv assms(6)] replayed(7) by simp
    from revoked_unusable [OF this g(1)] g(2) replayed(6,7) ui show ?thesis by simp
  next
    case (rotated v g k'' k1 n s2)
    then show ?thesis using assms(3,4) by simp
  qed
qed


lemma logout_ends:
  assumes "auth_inv s" and "presented_digest env refresh = Some d" and "token_identity s d = Some (u, i)"
  shows "\<not> usable (logout env now refresh access s) i"
proof -
  obtain k f where f: "f \<in> set (au_sessions s)" "ses_id f = i" "ses_user_id f = u"
    using token_identity_Some [OF assms(3)] by metis
  have "snd (lock_family s u i) \<noteq> None" using f by (auto simp: lock_family_def select_one_None)
  then obtain g where g: "snd (lock_family s u i) = Some g" by auto
  have eq: "logout env now refresh access s = save_session (revoke_session now ''logout'' g) s"
    using assms(2,3) g by (simp add: logout_def)
  have "auth_inv (save_session (revoke_session now ''logout'' g) s)" using logout_keeps [OF assms(1)] eq by metis
  from revoked_unusable [OF this lock_family_Some(1) [OF g]] lock_family_Some(2) [OF g] eq show ?thesis
    by (simp add: revoke_session_def split: if_splits)
qed

lemma disable_ends:
  assumes "auth_inv s" and "disable_user now email s = Inr t" and "find_by_email s (normalize_email email) = Some u"
    and "f \<in> set (au_sessions s)" and "ses_user_id f = usr_id u"
  shows "\<not> usable t (ses_id f)"
proof
  assume "usable t (ses_id f)"
  then obtain g where g: "g \<in> set (au_sessions t)" "ses_id g = ses_id f" "ses_revoked_at g = None" by (auto simp: usable_def)
  have t: "au_sessions t = update_where (\<lambda>f. ses_user_id f = usr_id u) (revoke_session now ''user_disabled'') (au_sessions s)"
    using assms(2,3) by (auto simp: disable_user_def)
  obtain h where h: "h \<in> set (au_sessions s)"
    "g = (if ses_user_id h = usr_id u then revoke_session now ''user_disabled'' h else h)"
    using g(1) unfolding t by (auto simp: set_update_where)
  have "ses_id h = ses_id f" using g(2) h(2) by (simp add: revoke_session_def split: if_splits)
  then have "h = f" using assms(1,4) h(1) unique_keys_eq by (fastforce simp: auth_inv_def sessions_ok_def)
  then show False using h(2) g(3) assms(5) by (simp add: revoke_session_def split: if_splits)
qed

text \<open>
  C38. Revocation is final. Once a session ended, because one of its consumed refresh tokens was presented
  again, by a logout with one of its tokens, or because its account was disabled, then in every later
  state no access token authenticates a request under that session and no refresh token rotates it,
  whatever logins, rotations, logouts, operator commands and timeouts happen in between; a replayed token
  is itself refused.
\<close>

theorem revocation_is_final:
  assumes "(auth_step env {})\<^sup>*\<^sup>* empty_auth s" and "ends_session env s t i" and "(auth_step env {})\<^sup>*\<^sup>* t u"
  shows "(\<forall>now token p. get_current_principal env now token u = Inr p \<longrightarrow> pri_session_id p \<noteq> i)
    \<and> (\<forall>now fate successor digest user_id x v.
         refresh_core env now fate successor digest (user_id, i) u \<noteq> (Inr x, v))"
proof -
  have inv: "auth_inv s" using auth_run_settles [OF assms(1) empty_auth_inv] by simp
  have ended: "auth_step env {} s t \<and> \<not> usable t i \<and> i < au_next s"
    using assms(2) unfolding ends_session_def
  proof (elim disjE exE conjE)
    fix now fate successor digest identity k r
    assume a: "fate \<noteq> Abandoned" "token_identity s digest = Some identity" "find_token s digest = Some k"
      "rtk_consumed_at k \<noteq> None" "now < rtk_expires_at k" "snd identity = i"
      "refresh_core env now fate successor digest identity s = (r, t)"
    obtain f where f: "f \<in> set (au_sessions s)" "ses_id f = i" using token_identity_Some a(2,6) by (metis prod.collapse)
    have "\<exists>x. rotate env now successor digest identity s = Inr (x, t)"
    proof (rule refresh_core_cases [OF a(7)])
      assume "t = s" "\<not> (\<exists>x. r = Inr x)"
      obtain x v where "rotate env now successor digest identity s = Inr (x, v)
          \<or> (\<exists>e. rotate env now successor digest identity s = Inl e)" by (metis prod.collapse sum.exhaust)
      moreover have "\<not> (\<exists>e. rotate env now successor digest identity s = Inl e)"
        using a(3,4) by (auto simp: rotate_def split: option.splits prod.splits if_splits)
      ultimately obtain x v where "rotate env now successor digest identity s = Inr (x, v)" by blast
      then show ?thesis using a(1,7) by (cases fate; cases x) (auto simp: refresh_core_def under_deadline_def transact_def)
    qed blast+
    then obtain x where x: "rotate env now successor digest identity s = Inr (x, t)" by blast
    have "auth_step env {} s t" using auth_step.refreshed [OF _ a(7)] by simp
    then show ?thesis using replay_ends [OF inv a(2-5) x] a(6) f inv by (auto simp: auth_inv_def sessions_ok_def)
  next
    fix now refresh access d v
    assume a: "presented_digest env refresh = Some d" "token_identity s d = Some (v, i)" "t = logout env now refresh access s"
    obtain f where "f \<in> set (au_sessions s)" "ses_id f = i" using token_identity_Some [OF a(2)] by metis
    then show ?thesis using logout_ends [OF inv a(1,2)] a(3) auth_step.logged_out inv by (auto simp: auth_inv_def sessions_ok_def)
  next
    fix now email v f
    assume a: "find_by_email s (normalize_email email) = Some v" "f \<in> set (au_sessions s)" "ses_user_id f = usr_id v"
      "ses_id f = i" "disable_user now email s = Inr t"
    then show ?thesis using disable_ends [OF inv a(5,1-3)] auth_step.user_disabled [OF a(5)] inv
      by (auto simp: auth_inv_def sessions_ok_def)
  qed
  have t: "auth_inv t" "au_next s \<le> au_next t"
    using auth_step_effect [OF inv] ended by (auto simp: settles_def)
  have "\<not> usable u i" using dead_sessions_stay_dead [OF t(1) assms(3)] ended t(2) by simp
  then show ?thesis using principal_usable [of env _ _ u] refresh_usable(1) [of env _ _ _ _ _ u] by fastforce
qed

text \<open>
  C37. Refresh tokens rotate and are single use. A successful refresh was made with the current, unconsumed
  token of a valid session; it leaves the session as it was, expiry included, consumes the presented
  token, and makes the issued successor the only current token of the session, with the session's expiry.
  From then on, through any later operations that do not draw the same random token again, the presented
  token never succeeds a second time.
\<close>

theorem refresh_tokens_rotate:
  assumes "(auth_step env {})\<^sup>*\<^sup>* empty_auth s"
    and "refresh_core env now fate successor digest identity s = (Inr x, t)"
  shows "(\<exists>f \<in> set (au_sessions s). ses_id f = snd identity \<and> ses_revoked_at f = None \<and> now < ses_expires_at f
        \<and> is_expires_at x = ses_expires_at f \<and> pri_session_id (is_principal x) = ses_id f
        \<and> (\<forall>k \<in> set (au_tokens t). rtk_session_id k = ses_id f \<and> rtk_consumed_at k = None
             \<longleftrightarrow> rtk_digest k = ae_digest env successor)
        \<and> (\<exists>k \<in> set (au_tokens t). rtk_digest k = ae_digest env successor \<and> rtk_expires_at k = ses_expires_at f))
    \<and> au_sessions t = au_sessions s \<and> is_refresh_token x = successor
    \<and> (\<exists>k. find_token s digest = Some k \<and> rtk_consumed_at k = None \<and> now < rtk_expires_at k) \<and> spent t digest
    \<and> (\<forall>u now' fate' successor' identity' y v. (auth_step env {digest})\<^sup>*\<^sup>* t u
         \<longrightarrow> refresh_core env now' fate' successor' digest identity' u \<noteq> (Inr y, v))"
proof -
  have inv: "auth_inv s" using auth_run_settles [OF assms(1) empty_auth_inv] by simp
  note r = refresh_usable(2) [OF assms(2)]
  have t: "auth_inv t" by (rule rotate_keeps [OF inv r])
  from r show ?thesis
  proof (cases rule: rotate_Inr)
    case (rotated w f k k1 n s2)
    have f: "f \<in> set (au_sessions s)" "ses_id f = snd identity"
      using lock_family_Some [of s "fst identity" "snd identity" f] rotated(1) by simp_all
    have k: "k \<in> set (au_tokens s)" "rtk_digest k = digest" using find_token_Some [OF rotated(2)] by simp_all
    have s2: "s2 = (save_token k1 s)\<lparr>au_next := au_next s + 1, au_tokens := au_tokens (save_token k1 s) @ [n]\<rparr>"
      "rtk_digest n \<notin> rtk_digest ` set (au_tokens (save_token k1 s))"
      "\<forall>x \<in> set (au_tokens (save_token k1 s)). rtk_session_id x = ses_id f \<longrightarrow> rtk_consumed_at x \<noteq> None"
      using rotated(8) by (simp_all add: add_token_Inr rotated(7))
    let ?k2 = "k1\<lparr>rtk_successor_id := Some (au_next s)\<rparr>"
    have sessions: "au_sessions t = au_sessions s" by (simp add: rotated(10) s2(1) save_token_def)
    have k1: "k1 \<in> set (au_tokens (save_token k1 s))"
      using store_row_self [OF k(1), of rtk_id k1] by (simp add: save_token_def rotated(6))
    have new: "rtk_id n \<noteq> rtk_id k"
      using inv k(1) by (auto simp: rotated(7) auth_inv_def tokens_ok_def)
    have tokens: "set (au_tokens t) \<subseteq> insert ?k2 (insert n (set (au_tokens (save_token k1 s))))" "n \<in> set (au_tokens t)"
    proof -
      show "set (au_tokens t) \<subseteq> insert ?k2 (insert n (set (au_tokens (save_token k1 s))))"
        by (auto simp: rotated(10) s2(1) save_token_def [of ?k2] dest!: in_store_row)
      show "n \<in> set (au_tokens t)"
        unfolding rotated(10) s2(1) save_token_def [of ?k2] using new by (simp add: store_row_other rotated(6))
    qed
    have current: "rtk_session_id z = ses_id f \<and> rtk_consumed_at z = None \<longleftrightarrow> rtk_digest z = ae_digest env successor"
      if "z \<in> set (au_tokens t)" for z
    proof -
      have "z = n \<or> (z = ?k2 \<or> z \<in> set (au_tokens (save_token k1 s)))" using tokens(1) that by blast
      then show ?thesis
      proof (elim disjE)
        assume "z = ?k2"
        moreover have "rtk_digest k1 \<noteq> ae_digest env successor" using s2(2) k1 by (auto simp: rotated(7) image_iff)
        ultimately show ?thesis by (simp add: rotated(6))
      next
        assume "z \<in> set (au_tokens (save_token k1 s))"
        then show ?thesis using s2(2,3) by (auto simp: rotated(7) image_iff)
      qed (simp add: rotated(7))
    qed
    have spent: "spent t digest"
    proof -
      have "k1 \<in> set (au_tokens s2)" unfolding s2(1) using k1 by simp
      from store_row_self [OF this, where r = ?k2 and key = rtk_id] have k2: "?k2 \<in> set (au_tokens t)"
        by (simp add: rotated(10) save_token_def)
      have digest: "rtk_digest ?k2 = digest" and consumed: "rtk_consumed_at ?k2 \<noteq> None" by (simp_all add: rotated(6) k(2))
      have u: "unique_keys rtk_digest (au_tokens t)" using t by (simp add: auth_inv_def tokens_ok_def)
      show ?thesis
        unfolding spent_def
      proof (intro ballI impI)
        fix z assume "z \<in> set (au_tokens t)" "rtk_digest z = digest"
        then have "z = ?k2" using unique_keys_eq [OF u _ k2] digest by metis
        then show "rtk_consumed_at z \<noteq> None" using consumed by metis
      qed
    qed
    have once: "refresh_core env now' fate' successor' digest identity' u \<noteq> (Inr y, v)"
      if "(auth_step env {digest})\<^sup>*\<^sup>* t u" for u now' fate' successor' identity' y v
    proof
      assume "refresh_core env now' fate' successor' digest identity' u = (Inr y, v)"
      from refresh_usable(2) [OF this] show False
      proof (cases rule: rotate_Inr)
        case (rotated w f k k1 n s2)
        have "spent u digest" using auth_run_settles [OF that t] spent by (simp add: settles_def)
        then have "rtk_consumed_at k \<noteq> None" using find_token_Some [OF rotated(2)] unfolding spent_def by metis
        then show False using rotated(5) by simp
      qed simp_all
    qed
    have "\<exists>z \<in> set (au_tokens t). rtk_digest z = ae_digest env successor \<and> rtk_expires_at z = ses_expires_at f"
      using tokens(2) by (rule bexI [rotated]) (simp add: rotated(7))
    note issued = this
    have x: "x = issue env now (usr_id w) (usr_email w) f successor" using rotated(9) by simp
    have valid: "ses_revoked_at f = None" "now < ses_expires_at f" using rotated(3) by (simp_all add: session_valid_def)
    have "is_expires_at x = ses_expires_at f" "pri_session_id (is_principal x) = ses_id f" "is_refresh_token x = successor"
      by (simp_all add: x issue_def)
    then show ?thesis
      using f valid issued sessions current spent once rotated(2,4,5)
      by (intro conjI bexI [of _ f] exI [of _ k] ballI allI impI notI) (simp only:)+
  qed simp_all
qed

section \<open>Examples\<close>

text \<open>A toy library: passwords and tokens hash to themselves.\<close>

definition demo_env :: auth_env where
  "demo_env = \<lparr>ae_verify_and_update = (\<lambda>p h. (p = h, None)), ae_hash = id, ae_dummy_hash = ''dummy'', ae_digest = id,
     ae_jwt_encode = (\<lambda>_. ''token''), ae_jwt_decode = (\<lambda>_. None), ae_session_seconds = 604800, ae_access_seconds = 600,
     ae_jwt_issuer = ''i'', ae_jwt_audience = ''a''\<rparr>"

definition demo_account :: auth_db where
  "demo_account = \<lparr>au_users = [\<lparr>usr_id = 0, usr_email = ''a@b.c'', usr_password_hash = ''secret'', usr_status = ''active''\<rparr>],
     au_sessions = [], au_tokens = [], au_rates = [], au_next = 1\<rparr>"

definition demo_family :: auth_session where
  "demo_family = \<lparr>ses_id = 1, ses_user_id = 0, ses_created_at = 1000, ses_expires_at = 604800001000,
     ses_revoked_at = None, ses_revoked_reason = None\<rparr>"

definition demo_token :: refresh_token where
  "demo_token = \<lparr>rtk_id = 2, rtk_session_id = 1, rtk_digest = ''t1'', rtk_issued_at = 1000, rtk_expires_at = 604800001000,
     rtk_consumed_at = None, rtk_successor_id = None\<rparr>"

definition demo_session :: auth_db where
  "demo_session = demo_account\<lparr>au_sessions := [demo_family], au_tokens := [demo_token], au_next := 3\<rparr>"

definition demo_rotation :: "(auth_error + issued_session) \<times> auth_db" where
  "demo_rotation = refresh_core demo_env 2000 In_Time ''t2'' ''t1'' (0, 1) demo_session"

definition demo_replay :: "(auth_error + issued_session) \<times> auth_db" where
  "demo_replay = refresh_core demo_env 3000 In_Time ''t3'' ''t1'' (0, 1) (snd demo_rotation)"

lemma demo_created:
  "case create_user demo_env ''a@b.c'' ''secret'' empty_auth of Inl _ \<Rightarrow> False | Inr s \<Rightarrow> s = demo_account"
  by code_simp

lemma demo_logged_in: "snd (login_core demo_env 1000 In_Time ''t1'' ''a@b.c'' ''secret'' demo_account) = demo_session"
  by (simp add: login_core_def login_transaction_def under_deadline_def transact_def find_by_email_def verify_password_def
      replace_hash_def add_session_def add_token_def demo_session_def demo_account_def demo_env_def demo_family_def
      demo_token_def second_def Let_def eval_nat_numeral)

lemma demo_session_run: "(auth_step demo_env {})\<^sup>*\<^sup>* empty_auth demo_session"
proof -
  have "create_user demo_env ''a@b.c'' ''secret'' empty_auth = Inr demo_account"
    using demo_created by (auto split: sum.splits)
  then have 1: "auth_step demo_env {} empty_auth demo_account" by (rule auth_step.user_created)
  have "auth_step demo_env {} demo_account demo_session"
    by (rule auth_step.logged_in [where refresh = "''t1''" and now = 1000 and fate = In_Time and email = "''a@b.c''"
          and password = "''secret''"
          and x = "fst (login_core demo_env 1000 In_Time ''t1'' ''a@b.c'' ''secret'' demo_account)"])
      (simp_all add: prod_eq_iff demo_logged_in)
  with 1 show ?thesis by (meson rtranclp.rtrancl_into_rtrancl rtranclp.rtrancl_refl)
qed

lemma demo_rotated:
  "\<exists>x. demo_rotation = (Inr x, demo_session\<lparr>au_next := 4,
     au_tokens := [demo_token\<lparr>rtk_consumed_at := Some 2000, rtk_successor_id := Some 3\<rparr>,
       \<lparr>rtk_id = 3, rtk_session_id = 1, rtk_digest = ''t2'', rtk_issued_at = 2000, rtk_expires_at = 604800001000,
        rtk_consumed_at = None, rtk_successor_id = None\<rparr>]\<rparr>)"
  by (simp add: demo_rotation_def refresh_core_def rotate_def under_deadline_def transact_def lock_family_def find_token_def
      session_valid_def save_token_def add_token_def demo_session_def demo_account_def demo_env_def demo_family_def
      demo_token_def Let_def eval_nat_numeral)

lemma demo_rotation_facts:
  "token_identity (snd demo_rotation) ''t1'' = Some (0, 1)"
  "find_token (snd demo_rotation) ''t1'' = Some (demo_token\<lparr>rtk_consumed_at := Some 2000, rtk_successor_id := Some 3\<rparr>)"
proof -
  have eq: "snd demo_rotation = demo_session\<lparr>au_next := 4,
     au_tokens := [demo_token\<lparr>rtk_consumed_at := Some 2000, rtk_successor_id := Some 3\<rparr>,
       \<lparr>rtk_id = 3, rtk_session_id = 1, rtk_digest = ''t2'', rtk_issued_at = 2000, rtk_expires_at = 604800001000,
        rtk_consumed_at = None, rtk_successor_id = None\<rparr>]\<rparr>"
    using demo_rotated by (metis snd_conv)
  show "token_identity (snd demo_rotation) ''t1'' = Some (0, 1)"
    "find_token (snd demo_rotation) ''t1'' = Some (demo_token\<lparr>rtk_consumed_at := Some 2000, rtk_successor_id := Some 3\<rparr>)"
    unfolding eq
    by (simp_all add: token_identity_def find_token_def demo_session_def demo_account_def demo_family_def demo_token_def)
qed

theorem refresh_tokens_rotate_witness:
  "\<exists>x t. refresh_core demo_env 2000 In_Time ''t2'' ''t1'' (0, 1) demo_session = (Inr x, t)
     \<and> is_refresh_token x = ''t2'' \<and> spent t ''t1''"
proof -
  obtain x t where r: "refresh_core demo_env 2000 In_Time ''t2'' ''t1'' (0, 1) demo_session = (Inr x, t)"
    using demo_rotated unfolding demo_rotation_def by blast
  show ?thesis using r refresh_tokens_rotate [OF demo_session_run r] by blast
qed

theorem revocation_is_final_witness:
  "ends_session demo_env (snd demo_rotation) (snd demo_replay) 1
   \<and> (\<nexists>now token p. get_current_principal demo_env now token (snd demo_replay) = Inr p \<and> pri_session_id p = 1)
   \<and> (\<nexists>x v. refresh_core demo_env 4000 In_Time ''t4'' ''t2'' (0, 1) (snd demo_replay) = (Inr x, v))"
proof -
  have "auth_step demo_env {} demo_session (snd demo_rotation)"
    by (rule auth_step.refreshed [where successor = "''t2''" and now = 2000 and fate = In_Time and digest = "''t1''"
          and identity = "(0, 1)" and x = "fst demo_rotation"]) (simp_all add: demo_rotation_def)
  with demo_session_run have run: "(auth_step demo_env {})\<^sup>*\<^sup>* empty_auth (snd demo_rotation)" by (rule rtranclp.rtrancl_into_rtrancl)
  have replay: "refresh_core demo_env 3000 In_Time ''t3'' ''t1'' (0, 1) (snd demo_rotation) = (fst demo_replay, snd demo_replay)"
    by (simp add: demo_replay_def)
  have ends: "ends_session demo_env (snd demo_rotation) (snd demo_replay) 1"
    unfolding ends_session_def
  proof (intro disjI1 exI conjI)
    show "In_Time \<noteq> Abandoned" by simp
    show "rtk_consumed_at (demo_token\<lparr>rtk_consumed_at := Some 2000, rtk_successor_id := Some 3\<rparr>) \<noteq> None" by simp
    show "3000 < rtk_expires_at (demo_token\<lparr>rtk_consumed_at := Some 2000, rtk_successor_id := Some 3\<rparr>)"
      by (simp add: demo_token_def)
    show "snd (0 :: nat, 1 :: nat) = 1" by simp
  qed (rule demo_rotation_facts replay)+
  show ?thesis using ends revocation_is_final [OF run ends rtranclp.rtrancl_refl] by blast
qed


end
