(* ===== verification/Rate_Scripts.thy ===== *)
theory Rate_Scripts
  imports Rate_Limit
begin

text \<open>
  The two Lua scripts of the rate limiter (\<open>ADMIT\<close> and \<open>FINALIZE\<close> in \<open>auth/rate_limit.py\<close>), which Redis
  runs atomically. The Redis server is a parameter: the record of the sorted-set commands the scripts
  call, on an abstract server state, with the laws of their documentation as the predicate
  \<open>zset_laws\<close>. Times and scores are milliseconds.
\<close>

section \<open>The sorted-set commands\<close>

text \<open>
  \<open>TIME\<close> as milliseconds (it stands still during a script), \<open>ZREMRANGEBYSCORE key -inf n\<close>, \<open>ZCARD\<close>,
  \<open>ZRANGE key 0 0\<close> and \<open>-1 -1 WITHSCORES\<close>, \<open>ZADD\<close>, \<open>ZREM\<close> and \<open>PEXPIRE\<close>.
\<close>

record 'r zset_server =
  zs_now :: "'r \<Rightarrow> int"
  zs_remove_upto :: "string \<Rightarrow> int \<Rightarrow> 'r \<Rightarrow> 'r"
  zs_card :: "string \<Rightarrow> 'r \<Rightarrow> int"
  zs_first :: "string \<Rightarrow> 'r \<Rightarrow> (string \<times> int) option"
  zs_last :: "string \<Rightarrow> 'r \<Rightarrow> (string \<times> int) option"
  zs_add :: "string \<Rightarrow> int \<Rightarrow> string \<Rightarrow> 'r \<Rightarrow> 'r"
  zs_remove :: "string \<Rightarrow> string \<Rightarrow> 'r \<Rightarrow> int \<times> 'r"
  zs_pexpire :: "string \<Rightarrow> int \<Rightarrow> 'r \<Rightarrow> 'r"

text \<open>\<open>math.ceil(x / 1000)\<close> on integers.\<close>

definition ceil_seconds :: "int \<Rightarrow> int" where
  "ceil_seconds ms = - ((- ms) div 1000)"

section \<open>ADMIT\<close>

text \<open>The members \<open>'r:' .. ARGV[1]\<close> and \<open>'f:' .. ARGV[1]\<close>: a reservation and a counted failure.\<close>

definition held :: "string \<Rightarrow> string" where
  "held ident = ''r:'' @ ident"

definition failed :: "string \<Rightarrow> string" where
  "failed ident = ''f:'' @ ident"

lemma member_simps [simp]:
  "held i = held j \<longleftrightarrow> i = j" "failed i = failed j \<longleftrightarrow> i = j" "held i \<noteq> failed j" "failed i \<noteq> held j"
  by (simp_all add: held_def failed_def)

text \<open>A full set without a first entry (a maximum of zero) ends the script with an error: \<open>None\<close>.\<close>

definition admit_check :: "'r zset_server \<Rightarrow> int \<Rightarrow> string \<times> int \<Rightarrow> int \<times> 'r \<Rightarrow> (int \<times> 'r) option" where
  "admit_check zs now = (\<lambda>(key, maximum) (retry, r).
     let r1 = zs_remove_upto zs key now r in
     if zs_card zs key r1 \<ge> maximum
     then map_option (\<lambda>(_, score). (max retry (score - now), r1)) (zs_first zs key r1)
     else Some (retry, r1))"

primrec admit_checks :: "'r zset_server \<Rightarrow> int \<Rightarrow> (string \<times> int) list \<Rightarrow> int \<times> 'r \<Rightarrow> (int \<times> 'r) option" where
  "admit_checks zs now [] x = Some x"
| "admit_checks zs now (k # ks) x = Option.bind (admit_check zs now k x) (admit_checks zs now ks)"

definition refresh_expiry :: "'r zset_server \<Rightarrow> int \<Rightarrow> string \<Rightarrow> 'r \<Rightarrow> 'r" where
  "refresh_expiry zs now key r = (case zs_last zs key r of None \<Rightarrow> r
     | Some (_, score) \<Rightarrow> zs_pexpire zs key (score - now) r)"

definition admit_insert :: "'r zset_server \<Rightarrow> int \<Rightarrow> string \<Rightarrow> bool \<Rightarrow> string \<times> int \<Rightarrow> 'r \<Rightarrow> 'r" where
  "admit_insert zs now ident probe = (\<lambda>(key, maximum) r.
     let r1 = refresh_expiry zs now key (zs_add zs key (now + 10000) (held ident) r) in
     if probe then snd (zs_remove zs key (held ident) r1) else r1)"

definition admit_script ::
  "'r zset_server \<Rightarrow> (string \<times> int) list \<Rightarrow> string \<Rightarrow> bool \<Rightarrow> 'r \<Rightarrow> (int \<times> 'r) option" where
  "admit_script zs keys ident probe r =
     (let now = zs_now zs r in
      map_option (\<lambda>(retry, r1).
        if retry > 0 then (max 1 (ceil_seconds retry), r1)
        else (0, fold (admit_insert zs now ident probe) keys r1)) (admit_checks zs now keys (0, r)))"

section \<open>FINALIZE\<close>

text \<open>\<open>ARGV[2]\<close>: 0 releases the reservation, 1 turns it into a failure, 2 discards both.\<close>

datatype verdict = Release | Count | Discard

definition window_end :: "int \<Rightarrow> int \<Rightarrow> int" where
  "window_end now window = (let w = window * 1000 in (now div w + 1) * w)"

definition finalize_key :: "'r zset_server \<Rightarrow> int \<Rightarrow> string \<Rightarrow> verdict \<Rightarrow> string \<times> int \<Rightarrow> 'r \<Rightarrow> 'r" where
  "finalize_key zs now ident v = (\<lambda>(key, window) r.
     let r1 = zs_remove_upto zs key now r;
         (removed, r2) = zs_remove zs key (held ident) r1;
         r3 = (if v = Discard then snd (zs_remove zs key (failed ident) r2) else r2);
         r4 = (if removed = 1 \<and> v = Count then zs_add zs key (window_end now window) (failed ident) r3 else r3)
     in refresh_expiry zs now key r4)"

definition finalize_script ::
  "'r zset_server \<Rightarrow> (string \<times> int) list \<Rightarrow> string \<Rightarrow> verdict \<Rightarrow> 'r \<Rightarrow> int \<times> 'r" where
  "finalize_script zs keys ident v r = (0, fold (finalize_key zs (zs_now zs r) ident v) keys r)"

section \<open>What the scripts rely on\<close>

text \<open>
  A server's content, as the members of each key with their scores, the expiry of each key, and the laws
  of the commands. \<open>members\<close> of a key that does not exist is empty.
\<close>

definition purge :: "int \<Rightarrow> (string \<rightharpoonup> int) \<Rightarrow> (string \<rightharpoonup> int)" where
  "purge n M = (\<lambda>m. case M m of None \<Rightarrow> None | Some v \<Rightarrow> if v \<le> n then None else Some v)"

type_synonym 'r zset_view = "'r \<Rightarrow> string \<Rightarrow> string \<rightharpoonup> int"

definition zset_laws :: "'r zset_server \<Rightarrow> 'r zset_view \<Rightarrow> ('r \<Rightarrow> string \<Rightarrow> int option) \<Rightarrow> bool" where
  "zset_laws zs members expiry = (
     (\<forall>r k. finite (dom (members r k)) \<and> zs_card zs k r = int (card (dom (members r k))))
   \<and> (\<forall>r k. case zs_first zs k r of None \<Rightarrow> dom (members r k) = {}
        | Some (m, v) \<Rightarrow> members r k m = Some v \<and> (\<forall>w \<in> ran (members r k). v \<le> w))
   \<and> (\<forall>r k. case zs_last zs k r of None \<Rightarrow> dom (members r k) = {}
        | Some (m, v) \<Rightarrow> members r k m = Some v \<and> (\<forall>w \<in> ran (members r k). w \<le> v))
   \<and> (\<forall>r k n. zs_now zs (zs_remove_upto zs k n r) = zs_now zs r
        \<and> expiry (zs_remove_upto zs k n r) \<subseteq>\<^sub>m expiry r
        \<and> members (zs_remove_upto zs k n r) = (members r)(k := purge n (members r k)))
   \<and> (\<forall>r k v m. zs_now zs (zs_add zs k v m r) = zs_now zs r
        \<and> expiry (zs_add zs k v m r) \<subseteq>\<^sub>m expiry r
        \<and> members (zs_add zs k v m r) = (members r)(k := (members r k)(m \<mapsto> v)))
   \<and> (\<forall>r k m. fst (zs_remove zs k m r) = (if members r k m = None then 0 else 1)
        \<and> zs_now zs (snd (zs_remove zs k m r)) = zs_now zs r
        \<and> expiry (snd (zs_remove zs k m r)) \<subseteq>\<^sub>m expiry r
        \<and> members (snd (zs_remove zs k m r)) = (members r)(k := (members r k)(m := None)))
   \<and> (\<forall>r k d. d > 0 \<longrightarrow> dom (members r k) \<noteq> {} \<longrightarrow> zs_now zs (zs_pexpire zs k d r) = zs_now zs r
        \<and> members (zs_pexpire zs k d r) = members r
        \<and> expiry (zs_pexpire zs k d r) = (expiry r)(k := Some (zs_now zs r + d))))"

text \<open>Between scripts the clock advances, and a key vanishes when its expiry has come.\<close>

definition time_passes ::
  "'r zset_server \<Rightarrow> 'r zset_view \<Rightarrow> ('r \<Rightarrow> string \<Rightarrow> int option) \<Rightarrow> 'r \<Rightarrow> 'r \<Rightarrow> bool" where
  "time_passes zs members expiry r r' = (zs_now zs r \<le> zs_now zs r'
     \<and> (\<forall>k. (members r' k = members r k \<and> expiry r' k = expiry r k)
        \<or> (members r' k = Map.empty \<and> (\<exists>e. expiry r k = Some e \<and> e \<le> zs_now zs r'))))"

section \<open>Effects of the scripts\<close>

lemma purge_facts:
  "dom (purge n M) \<subseteq> dom M"
  "w \<in> ran (purge n M) \<Longrightarrow> n < w"
  "ran (purge n M) \<subseteq> ran M"
  "purge n (purge n M) = purge n M"
  "M m = Some v \<Longrightarrow> n < v \<Longrightarrow> purge n M m = Some v"
  "purge n M m = Some v \<longleftrightarrow> M m = Some v \<and> n < v"
  by (auto simp: purge_def ran_def split: option.splits if_splits)

text \<open>The laws, one by one.\<close>

lemma zset_lawsD:
  assumes "zset_laws zs members expiry"
  shows "finite (dom (members r k))" and "zs_card zs k r = int (card (dom (members r k)))"
    and "zs_first zs k r = None \<Longrightarrow> dom (members r k) = {}"
    and "zs_first zs k r = Some (m, v) \<Longrightarrow> v \<in> ran (members r k)"
    and "zs_last zs k r = None \<Longrightarrow> dom (members r k) = {}"
    and "zs_last zs k r = Some (m, v) \<Longrightarrow> v \<in> ran (members r k)"
    and "zs_last zs k r = Some (m, v) \<Longrightarrow> w \<in> ran (members r k) \<Longrightarrow> w \<le> v"
    and "zs_now zs (zs_remove_upto zs k n r) = zs_now zs r"
    and "expiry (zs_remove_upto zs k n r) \<subseteq>\<^sub>m expiry r"
    and "members (zs_remove_upto zs k n r) = (members r)(k := purge n (members r k))"
    and "zs_now zs (zs_add zs k v m r) = zs_now zs r"
    and "expiry (zs_add zs k v m r) \<subseteq>\<^sub>m expiry r"
    and "members (zs_add zs k v m r) = (members r)(k := (members r k)(m \<mapsto> v))"
    and "fst (zs_remove zs k m r) = (if members r k m = None then 0 else 1)"
    and "zs_now zs (snd (zs_remove zs k m r)) = zs_now zs r"
    and "expiry (snd (zs_remove zs k m r)) \<subseteq>\<^sub>m expiry r"
    and "members (snd (zs_remove zs k m r)) = (members r)(k := (members r k)(m := None))"
    and "d > 0 \<Longrightarrow> dom (members r k) \<noteq> {} \<Longrightarrow> zs_now zs (zs_pexpire zs k d r) = zs_now zs r"
    and "d > 0 \<Longrightarrow> dom (members r k) \<noteq> {} \<Longrightarrow> members (zs_pexpire zs k d r) = members r"
    and "d > 0 \<Longrightarrow> dom (members r k) \<noteq> {} \<Longrightarrow> expiry (zs_pexpire zs k d r) = (expiry r)(k := Some (zs_now zs r + d))"
proof -
  note laws = assms [unfolded zset_laws_def]
  have first: "case zs_first zs k r of None \<Rightarrow> dom (members r k) = {}
      | Some (m, v) \<Rightarrow> members r k m = Some v \<and> (\<forall>w \<in> ran (members r k). v \<le> w)"
    using conjunct1 [OF conjunct2 [OF laws]] by (elim allE)
  have last: "case zs_last zs k r of None \<Rightarrow> dom (members r k) = {}
      | Some (m, v) \<Rightarrow> members r k m = Some v \<and> (\<forall>w \<in> ran (members r k). w \<le> v)"
    using conjunct1 [OF conjunct2 [OF conjunct2 [OF laws]]] by (elim allE)
  show "zs_first zs k r = None \<Longrightarrow> dom (members r k) = {}" using first by (simp only: option.case)
  show "zs_first zs k r = Some (m, v) \<Longrightarrow> v \<in> ran (members r k)" using first by (auto simp: ran_def)
  show "zs_last zs k r = None \<Longrightarrow> dom (members r k) = {}" using last by (simp only: option.case)
  show "zs_last zs k r = Some (m, v) \<Longrightarrow> v \<in> ran (members r k)" using last by (auto simp: ran_def)
  show "zs_last zs k r = Some (m, v) \<Longrightarrow> w \<in> ran (members r k) \<Longrightarrow> w \<le> v" using last by simp
qed (use assms [unfolded zset_laws_def] in \<open>simp_all\<close>)

text \<open>No member outlives its key: a key's expiry is never before a score in it.\<close>

definition covered :: "'r zset_view \<Rightarrow> ('r \<Rightarrow> string \<Rightarrow> int option) \<Rightarrow> 'r \<Rightarrow> string \<Rightarrow> bool" where
  "covered members expiry r k = (\<forall>e. expiry r k = Some e \<longrightarrow> (\<forall>w \<in> ran (members r k). w \<le> e))"

lemma covered_mono:
  "covered members expiry r k \<Longrightarrow> expiry r' \<subseteq>\<^sub>m expiry r \<Longrightarrow> ran (members r' k) \<subseteq> ran (members r k)
    \<Longrightarrow> covered members expiry r' k"
  by (force simp: covered_def map_le_def)

lemma refresh_expiry_effect:
  assumes laws: "zset_laws zs members expiry" and "now = zs_now zs r"
    and "\<forall>w \<in> ran (members r k). now < w"
  shows "zs_now zs (refresh_expiry zs now k r) = now" and "members (refresh_expiry zs now k r) = members r"
    and "covered members expiry (refresh_expiry zs now k r) k"
    and "k' \<noteq> k \<Longrightarrow> expiry (refresh_expiry zs now k r) k' = expiry r k'"
proof -
  note L = zset_lawsD [OF laws]
  have "zs_now zs (refresh_expiry zs now k r) = now \<and> members (refresh_expiry zs now k r) = members r
    \<and> covered members expiry (refresh_expiry zs now k r) k
    \<and> (k' \<noteq> k \<longrightarrow> expiry (refresh_expiry zs now k r) k' = expiry r k')"
  proof (cases "zs_last zs k r")
    case None
    then have "ran (members r k) = {}" using L(5) by (fastforce simp: ran_def)
    with None show ?thesis using assms(2) by (simp add: refresh_expiry_def covered_def)
  next
    case (Some x)
    obtain m v where x: "zs_last zs k r = Some (m, v)" using Some by (cases x) simp
    have v: "v \<in> ran (members r k)" and pos: "v - now > 0" using L(6) [OF x] assms(3) by auto
    have "dom (members r k) \<noteq> {}" using v by (auto simp: ran_def)
    note p = L(18-20) [OF pos this]
    have "refresh_expiry zs now k r = zs_pexpire zs k (v - now) r" by (simp add: refresh_expiry_def x)
    with p L(7) [OF x] assms(2) show ?thesis by (auto simp: covered_def)
  qed
  then show "zs_now zs (refresh_expiry zs now k r) = now" "members (refresh_expiry zs now k r) = members r"
    "covered members expiry (refresh_expiry zs now k r) k"
    "k' \<noteq> k \<Longrightarrow> expiry (refresh_expiry zs now k r) k' = expiry r k'" by simp_all
qed

lemma admit_check_effect:
  assumes laws: "zset_laws zs members expiry" and "0 \<le> n" and "1 \<le> maximum"
  obtains n' r' where "admit_check zs now (k, maximum) (n, r) = Some (n', r')" "zs_now zs r' = zs_now zs r"
    "expiry r' \<subseteq>\<^sub>m expiry r" "members r' = (members r)(k := purge now (members r k))"
    "0 \<le> n'" "n' = 0 \<longleftrightarrow> n = 0 \<and> int (card (dom (purge now (members r k)))) < maximum"
proof -
  note L = zset_lawsD [OF laws]
  let ?r1 = "zs_remove_upto zs k now r"
  have m: "members ?r1 = (members r)(k := purge now (members r k))" by (rule L(10))
  have card: "zs_card zs k ?r1 = int (card (dom (purge now (members r k))))" by (simp add: L(2) m)
  show ?thesis
  proof (cases "maximum \<le> zs_card zs k ?r1")
    case False
    then show ?thesis using that [of n ?r1] L(8,9) m card assms(2)
      by (simp add: admit_check_def Let_def)
  next
    case True
    have "zs_first zs k ?r1 \<noteq> None"
    proof
      assume "zs_first zs k ?r1 = None"
      then have "dom (members ?r1 k) = {}" by (rule L(3))
      then show False using True assms(3) by (simp add: L(2))
    qed
    then obtain x v where x: "zs_first zs k ?r1 = Some (x, v)" by auto
    have "now < v" using L(4) [OF x] m purge_facts(2) by simp
    then show ?thesis using that [of "max n (v - now)" ?r1] L(8,9) m card True x assms(2)
      by (simp add: admit_check_def Let_def)
  qed
qed


text \<open>The check loop purges the keys, and asks for a wait exactly when one of them is full.\<close>

lemma admit_checks_effect:
  assumes laws: "zset_laws zs members expiry" and "0 \<le> n" and "\<forall>(k, m) \<in> set ks. 1 \<le> m"
  shows "\<exists>n' r'. admit_checks zs now ks (n, r) = Some (n', r') \<and> zs_now zs r' = zs_now zs r
    \<and> expiry r' \<subseteq>\<^sub>m expiry r
    \<and> (\<forall>k. members r' k = (if k \<in> fst ` set ks then purge now (members r k) else members r k))
    \<and> 0 \<le> n' \<and> (n' = 0 \<longleftrightarrow> n = 0 \<and> (\<forall>(k, m) \<in> set ks. int (card (dom (purge now (members r k)))) < m))"
  using assms(2,3)
proof (induction ks arbitrary: n r)
  case (Cons x ks)
  obtain k m where x: "x = (k, m)" by (cases x)
  have "1 \<le> m" using Cons.prems(2) x by simp
  then obtain n1 r1 where 1: "admit_check zs now (k, m) (n, r) = Some (n1, r1)" "zs_now zs r1 = zs_now zs r"
    "expiry r1 \<subseteq>\<^sub>m expiry r" "members r1 = (members r)(k := purge now (members r k))"
    "0 \<le> n1" "n1 = 0 \<longleftrightarrow> n = 0 \<and> int (card (dom (purge now (members r k)))) < m"
    using admit_check_effect [OF laws Cons.prems(1)] by metis
  have "\<forall>(k, m) \<in> set ks. 1 \<le> m" using Cons.prems(2) by simp
  from Cons.IH [OF 1(5) this, where r = r1] obtain n2 r2 where 2: "admit_checks zs now ks (n1, r1) = Some (n2, r2)"
    "zs_now zs r2 = zs_now zs r1" "expiry r2 \<subseteq>\<^sub>m expiry r1"
    "\<forall>k. members r2 k = (if k \<in> fst ` set ks then purge now (members r1 k) else members r1 k)" "0 \<le> n2"
    "n2 = 0 \<longleftrightarrow> n1 = 0 \<and> (\<forall>(k, m) \<in> set ks. int (card (dom (purge now (members r1 k)))) < m)"
    by (elim exE conjE)
  have p: "purge now (members r1 k') = purge now (members r k')" for k'
    by (simp add: 1(4) purge_facts)
  have "members r2 k' = (if k' \<in> fst ` set (x # ks) then purge now (members r k') else members r k')" for k'
    using 2(4) by (auto simp: p x 1(4) purge_facts(4))
  moreover have "n2 = 0 \<longleftrightarrow> n = 0 \<and> (\<forall>(k, m) \<in> set (x # ks). int (card (dom (purge now (members r k)))) < m)"
    using 2(6) 1(6) by (auto simp: p x)
  ultimately show ?case using 1(1-3) 2(1-3,5) map_le_trans [OF 2(3) 1(3)] by (auto simp: x)
qed simp

lemma card_upd:
  assumes "finite (dom M)"
  shows "card (dom (M(x \<mapsto> v))) = (if x \<in> dom M then card (dom M) else card (dom M) + 1)"
  using assms by (simp add: insert_absorb)

lemma card_del:
  assumes "finite (dom M)" shows "card (dom (M(x := None))) = (if x \<in> dom M then card (dom M) - 1 else card (dom M))"
  using assms by simp

text \<open>What may hold while a script runs at time \<open>now\<close>: bounded keys, covered expiries.\<close>

definition keys_ok :: "(string \<Rightarrow> int) \<Rightarrow> 'r zset_view \<Rightarrow> ('r \<Rightarrow> string \<Rightarrow> int option) \<Rightarrow> 'r \<Rightarrow> bool" where
  "keys_ok maxi members expiry r = (\<forall>k. int (card (dom (members r k))) \<le> maxi k \<and> covered members expiry r k)"

lemma admit_insert_effect:
  assumes laws: "zset_laws zs members expiry" and "now = zs_now zs r"
    and "\<forall>w \<in> ran (members r k). now < w"
  shows "zs_now zs (admit_insert zs now i p (k, m) r) = now"
    and "members (admit_insert zs now i p (k, m) r) = (members r)(k :=
      if p then (members r k)(held i := None) else (members r k)(held i \<mapsto> now + 10000))"
    and "covered members expiry r k' \<Longrightarrow> covered members expiry (admit_insert zs now i p (k, m) r) k'"
proof -
  note L = zset_lawsD [OF laws]
  let ?r1 = "zs_add zs k (now + 10000) (held i) r"
  have m1: "members ?r1 = (members r)(k := (members r k)(held i \<mapsto> now + 10000))" by (rule L(13))
  have n1: "now = zs_now zs ?r1" using L(11) assms(2) by simp
  have live: "\<forall>w \<in> ran (members ?r1 k). now < w"
    using assms(3) by (auto simp: m1 ran_def split: if_splits)
  note R = refresh_expiry_effect [OF laws n1 live]
  let ?r2 = "refresh_expiry zs now k ?r1"
  let ?r3 = "snd (zs_remove zs k (held i) ?r2)"
  have c2: "covered members expiry ?r2 k'" if "covered members expiry r k'"
  proof (cases "k' = k")
    case False
    have "expiry ?r2 k' = Some e \<Longrightarrow> expiry r k' = Some e" for e
      using R(4) [OF False] L(12) [of k "now + 10000" "held i" r] False by (fastforce simp: map_le_def dom_def)
    then show ?thesis using that False by (auto simp: covered_def R(2) m1)
  qed (use R(3) in simp)
  have c3: "covered members expiry ?r3 k'" if "covered members expiry r k'"
    by (rule covered_mono [OF c2 [OF that]]) (auto simp: L(16,17) ran_def split: if_splits)
  show "zs_now zs (admit_insert zs now i p (k, m) r) = now"
    by (simp add: admit_insert_def Let_def L(15) R(1))
  show "members (admit_insert zs now i p (k, m) r) = (members r)(k :=
      if p then (members r k)(held i := None) else (members r k)(held i \<mapsto> now + 10000))"
    by (auto simp: admit_insert_def Let_def L(17) R(2) m1)
  show "covered members expiry r k' \<Longrightarrow> covered members expiry (admit_insert zs now i p (k, m) r) k'"
    using c2 c3 by (simp add: admit_insert_def Let_def)
qed

lemma admit_inserts_effect:
  assumes laws: "zset_laws zs members expiry" and "now = zs_now zs r" and "keys_ok maxi members expiry r"
    and "\<forall>k \<in> fst ` set ks. \<forall>w \<in> ran (members r k). now < w"
    and "\<forall>k \<in> fst ` set ks. int (card (dom (members r k))) < maxi k \<or> held i \<in> dom (members r k)"
    and r': "r' = fold (admit_insert zs now i p) ks r"
  shows "zs_now zs r' = now \<and> keys_ok maxi members expiry r'
    \<and> (\<forall>k x. x \<noteq> held i \<longrightarrow> members r' k x = members r k x)
    \<and> (\<forall>k. k \<notin> fst ` set ks \<longrightarrow> members r' k = members r k)
    \<and> (\<forall>k. k \<in> fst ` set ks \<longrightarrow> members r' k (held i) = (if p then None else Some (now + 10000)))"
  using assms(2-5) unfolding r'
proof (induction ks arbitrary: r)
  case (Cons x ks)
  obtain k m where x: "x = (k, m)" by (cases x)
  note L = zset_lawsD [OF laws]
  have live: "\<forall>w \<in> ran (members r k). now < w" using Cons.prems(3) x by auto
  define r1 where "r1 = admit_insert zs now i p (k, m) r"
  have eq: "fold (admit_insert zs now i p) (x # ks) r = fold (admit_insert zs now i p) ks r1" by (simp add: x r1_def)
  have E: "zs_now zs r1 = now" "members r1 = (members r)(k :=
      if p then (members r k)(held i := None) else (members r k)(held i \<mapsto> now + 10000))"
    "\<And>k'. covered members expiry r k' \<Longrightarrow> covered members expiry r1 k'"
    unfolding r1_def by (rule admit_insert_effect [OF laws Cons.prems(1) live]; assumption)+
  have fin: "finite (dom (members r k))" by (rule L(1))
  have room: "int (card (dom (members r k))) < maxi k \<or> held i \<in> dom (members r k)"
    using Cons.prems(4) x by auto
  have less: "int (card (dom (members r k)) - 1) \<le> maxi k" using spec [OF Cons.prems(2) [unfolded keys_ok_def], of k] by linarith
  have one: "held i \<in> dom (members r k) \<Longrightarrow> 0 < card (dom (members r k))" using fin by (auto simp: card_gt_0_iff)
  have ok: "keys_ok maxi members expiry r1"
    using less Cons.prems(2) room E(3) card_upd [OF fin, of "held i"] card_del [OF fin, of "held i"]
    by (auto simp: keys_ok_def E(2) simp del: dom_fun_upd)
  have later: "\<forall>k \<in> fst ` set ks. \<forall>w \<in> ran (members r1 k). now < w"
    using Cons.prems(3) live by (auto simp: E(2) ran_def split: if_splits)
  have room': "int (card (dom (members r1 k'))) < maxi k' \<or> held i \<in> dom (members r1 k')"
    if "k' \<in> fst ` set ks" for k'
  proof (cases "k' = k")
    case False
    then show ?thesis using that bspec [OF Cons.prems(4), of k'] by (simp add: E(2))
  next
    case True
    then show ?thesis
    proof (cases p)
      case p: True
      have "card (dom ((members r k)(held i := None))) < card (dom (members r k)) \<or> held i \<notin> dom (members r k)"
        using card_del [OF fin, of "held i"] one by auto
      moreover have "int (card (dom (members r k))) \<le> maxi k" using Cons.prems(2) by (simp add: keys_ok_def)
      ultimately have "int (card (dom ((members r k)(held i := None)))) < maxi k"
        using room card_del [OF fin, of "held i"] by (auto simp del: dom_fun_upd)
      moreover have "members r1 k' = (members r k)(held i := None)" using p True unfolding E(2) by simp
      ultimately show ?thesis using True by (simp only: simp_thms)
    next
      case False
      then have "members r1 k' = (members r k)(held i \<mapsto> now + 10000)" using True unfolding E(2) by simp
      then show ?thesis by simp
    qed
  qed
  show ?case
    unfolding eq using Cons.IH [OF E(1) [symmetric] ok later ballI [OF room']]
    by (cases "k \<in> fst ` set ks") (auto simp: x E(2) fun_upd_apply)
qed simp


text \<open>ADMIT at consistent maxima: it always returns, and admits exactly when every key has room.\<close>

lemma admit_script_effect:
  assumes laws: "zset_laws zs members expiry" and ok: "keys_ok maxi members expiry r"
    and ks: "\<forall>(k, m) \<in> set ks. m = maxi k \<and> 1 \<le> m"
  obtains n r' where "admit_script zs ks i p r = Some (n, r')" "zs_now zs r' = zs_now zs r" "0 \<le> n"
    "keys_ok maxi members expiry r'"
    "n = 0 \<longleftrightarrow> (\<forall>(k, m) \<in> set ks. int (card (dom (purge (zs_now zs r) (members r k)))) < m)"
    "\<And>k x. x \<noteq> held i \<Longrightarrow> members r' k x
       = (if k \<in> fst ` set ks then purge (zs_now zs r) (members r k) x else members r k x)"
    "\<And>k. n > 0 \<Longrightarrow> members r' k = (if k \<in> fst ` set ks then purge (zs_now zs r) (members r k) else members r k)"
    "\<And>k. n = 0 \<Longrightarrow> k \<in> fst ` set ks \<Longrightarrow> members r' k (held i) = (if p then None else Some (zs_now zs r + 10000))"
proof -
  note L = zset_lawsD [OF laws]
  let ?now = "zs_now zs r"
  have "\<forall>(k, m) \<in> set ks. 1 \<le> m" using ks by auto
  from admit_checks_effect [OF laws order.refl this, of ?now r] obtain n1 r1 where
    1: "admit_checks zs ?now ks (0, r) = Some (n1, r1)" "zs_now zs r1 = ?now" "expiry r1 \<subseteq>\<^sub>m expiry r"
      "\<forall>k. members r1 k = (if k \<in> fst ` set ks then purge ?now (members r k) else members r k)" "0 \<le> n1"
      "n1 = 0 \<longleftrightarrow> (0 :: int) = 0 \<and> (\<forall>(k, m) \<in> set ks. int (card (dom (purge ?now (members r k)))) < m)"
    by (elim exE conjE)
  have ok1: "keys_ok maxi members expiry r1"
  proof -
    have "card (dom (members r1 k)) \<le> card (dom (members r k))" for k
      using purge_facts(1) [of ?now "members r k"] L(1) [of r k] 1(4) by (auto intro: card_mono)
    moreover have "covered members expiry r1 k" if "covered members expiry r k" for k
      using covered_mono [OF that 1(3)] 1(4) purge_facts(3) [of ?now "members r k"] by auto
    ultimately show ?thesis using ok unfolding keys_ok_def by (meson of_nat_le_iff order.trans)
  qed
  show ?thesis
  proof (cases "n1 > 0")
    case True
    define n where "n = max 1 (ceil_seconds n1)"
    have n: "1 \<le> n" "admit_script zs ks i p r = Some (n, r1)"
      using 1(1) True by (simp_all add: n_def admit_script_def Let_def)
    have full: "\<not> (\<forall>(k, m) \<in> set ks. int (card (dom (purge ?now (members r k)))) < m)" using 1(6) True by simp
    show ?thesis
    proof (rule that [OF n(2) 1(2) _ ok1])
      show "n = 0 \<longleftrightarrow> (\<forall>(k, m) \<in> set ks. int (card (dom (purge ?now (members r k)))) < m)"
        using n(1) full by linarith
    qed (use n(1) 1(4) in simp_all)
  next
    case False
    then have zero: "n1 = 0" using 1(5) by simp
    let ?r2 = "fold (admit_insert zs ?now i p) ks r1"
    have live: "\<forall>k \<in> fst ` set ks. \<forall>w \<in> ran (members r1 k). ?now < w"
    proof (intro ballI)
      fix k w assume "k \<in> fst ` set ks" "w \<in> ran (members r1 k)"
      then have "w \<in> ran (purge ?now (members r k))" using 1(4) by simp
      then show "?now < w" by (rule purge_facts(2))
    qed
    have room: "\<forall>k \<in> fst ` set ks. int (card (dom (members r1 k))) < maxi k \<or> held i \<in> dom (members r1 k)"
    proof
      fix k assume k: "k \<in> fst ` set ks"
      then obtain m where "(k, m) \<in> set ks" by auto
      then have "int (card (dom (purge ?now (members r k)))) < maxi k" using 1(6) zero ks by auto
      then show "int (card (dom (members r1 k))) < maxi k \<or> held i \<in> dom (members r1 k)" using 1(4) k by simp
    qed
    from admit_inserts_effect [OF laws 1(2) [symmetric] ok1 live room refl, of p]
    have 2: "zs_now zs ?r2 = ?now" "keys_ok maxi members expiry ?r2"
      "\<forall>k x. x \<noteq> held i \<longrightarrow> members ?r2 k x = members r1 k x"
      "\<forall>k. k \<in> fst ` set ks \<longrightarrow> members ?r2 k (held i) = (if p then None else Some (?now + 10000))"
      by blast+
    have "admit_script zs ks i p r = Some (0, ?r2)" using 1(1) zero by (simp add: admit_script_def Let_def)
    then show ?thesis using that [of 0 ?r2] 1(4,6) 2 zero by simp
  qed
qed

lemma finalize_key_effect:
  assumes laws: "zset_laws zs members expiry" and now: "now = zs_now zs r" and ok: "keys_ok maxi members expiry r"
    and "0 < window" and M: "M = purge now (members r k)"
  obtains r' where "finalize_key zs now i v (k, window) r = r'" "zs_now zs r' = now" "keys_ok maxi members expiry r'"
    "\<And>k'. k' \<noteq> k \<Longrightarrow> members r' k' = members r k'"
    "members r' k = (let M2 = M(held i := None); M3 = (if v = Discard then M2(failed i := None) else M2) in
       if held i \<in> dom M \<and> v = Count then M3(failed i \<mapsto> window_end now window) else M3)"
proof -
  note L = zset_lawsD [OF laws]
  define r1 where "r1 = zs_remove_upto zs k now r"
  define r2 where "r2 = snd (zs_remove zs k (held i) r1)"
  define r3 where "r3 = (if v = Discard then snd (zs_remove zs k (failed i) r2) else r2)"
  define r4 where "r4 = (if held i \<in> dom M \<and> v = Count then zs_add zs k (window_end now window) (failed i) r3 else r3)"
  define M2 where "M2 = M(held i := None)"
  define M3 where "M3 = (if v = Discard then M2(failed i := None) else M2)"
  define M4 where "M4 = (if held i \<in> dom M \<and> v = Count then M3(failed i \<mapsto> window_end now window) else M3)"
  have m: "members r1 = (members r)(k := M)" "members r2 = (members r)(k := M2)"
    "members r3 = (members r)(k := M3)" "members r4 = (members r)(k := M4)"
    by (auto simp: r1_def r2_def r3_def r4_def M2_def M3_def M4_def M L(10,13,17))
  have n: "now = zs_now zs r4" by (auto simp: r1_def r2_def r3_def r4_def L(8,11,15) now)
  have e: "expiry r4 \<subseteq>\<^sub>m expiry r"
  proof -
    have e2: "expiry r2 \<subseteq>\<^sub>m expiry r" unfolding r2_def r1_def by (rule map_le_trans [OF L(16) L(9)])
    have e3: "expiry r3 \<subseteq>\<^sub>m expiry r2" using L(16) by (simp add: r3_def)
    have e4: "expiry r4 \<subseteq>\<^sub>m expiry r3" using L(12) by (simp add: r4_def)
    show ?thesis by (rule map_le_trans [OF map_le_trans [OF e4 e3] e2])
  qed
  have late: "now < window_end now window"
    using assms(4) mod_less_divisor pos_mod_bound [of "window * 1000" now]
    by (simp add: window_end_def Let_def distrib_right minus_mod_eq_div_mult [symmetric])
  have live: "\<forall>w \<in> ran (members r4 k). now < w"
  proof
    fix w assume "w \<in> ran (members r4 k)"
    then have "w \<in> ran M \<or> w = window_end now window"
      by (auto simp: m M4_def M3_def M2_def ran_def split: if_splits)
    then show "now < w" using late purge_facts(2) unfolding M by blast
  qed
  note R = refresh_expiry_effect [OF laws n live]
  have fin: "finite (dom M)" using L(1) [of r k] purge_facts(1) [of now "members r k"] finite_subset unfolding M by blast
  have M4: "dom M4 \<subseteq> (if held i \<in> dom M \<and> v = Count then insert (failed i) (dom M - {held i}) else dom M)"
    by (auto simp: M4_def M3_def M2_def split: if_splits)
  have "card (dom M4) \<le> card (dom M)"
  proof (cases "held i \<in> dom M \<and> v = Count")
    case True
    have "card (dom M4) \<le> card (insert (failed i) (dom M - {held i}))"
      using M4 True fin by (intro card_mono) auto
    also have "\<dots> \<le> Suc (card (dom M - {held i}))" using fin by (simp add: card_insert_if)
    also have "\<dots> = card (dom M)" using True fin by (simp only: card_Suc_Diff1)
    finally show ?thesis .
  next
    case False
    then have "dom M4 \<subseteq> dom M" using M4 by (simp only: if_False)
    then show ?thesis by (rule card_mono [OF fin])
  qed
  also have "\<dots> \<le> card (dom (members r k))"
    using L(1) [of r k] purge_facts(1) [of now "members r k"] unfolding M by (intro card_mono) auto
  finally have card: "int (card (dom M4)) \<le> maxi k" using ok unfolding keys_ok_def by (meson of_nat_le_iff order.trans)
  let ?r5 = "refresh_expiry zs now k r4"
  have eq: "finalize_key zs now i v (k, window) r = ?r5"
  proof -
    have "fst (zs_remove zs k (held i) r1) = 1 \<longleftrightarrow> held i \<in> dom M" by (auto simp: L(14) m)
    then show ?thesis
      by (auto simp: finalize_key_def Let_def r1_def [symmetric] r2_def [symmetric] r3_def r4_def case_prod_beta)
  qed
  have other: "covered members expiry ?r5 k'" if "k' \<noteq> k" for k'
  proof -
    have "covered members expiry r4 k'"
      using covered_mono [OF _ e, of members k'] ok that by (auto simp: keys_ok_def m)
    then show ?thesis using R(2,4) that by (simp add: covered_def)
  qed
  have "keys_ok maxi members expiry ?r5"
    using ok other R(2,3) card unfolding keys_ok_def by (metis m(4) fun_upd_apply)
  then show ?thesis
    using that [OF eq R(1)] R(2) by (simp add: m M4_def M3_def M2_def Let_def)
qed


lemma finalize_keys_effect:
  assumes laws: "zset_laws zs members expiry" and "now = zs_now zs r" and "keys_ok maxi members expiry r"
    and "\<forall>(k, w) \<in> set ks. 0 < w"
  shows "zs_now zs (fold (finalize_key zs now i v) ks r) = now
    \<and> keys_ok maxi members expiry (fold (finalize_key zs now i v) ks r)
    \<and> (\<forall>k x. x \<noteq> held i \<longrightarrow> x \<noteq> failed i \<longrightarrow> members (fold (finalize_key zs now i v) ks r) k x
         = (if k \<in> fst ` set ks then purge now (members r k) x else members r k x))
    \<and> (\<forall>k. k \<notin> fst ` set ks \<longrightarrow> members (fold (finalize_key zs now i v) ks r) k = members r k)"
  using assms(2-4)
proof (induction ks arbitrary: r)
  case (Cons x ks)
  obtain k w where x: "x = (k, w)" by (cases x)
  have w: "0 < w" using Cons.prems(3) x by simp
  obtain r1 where 1: "finalize_key zs now i v (k, w) r = r1" "zs_now zs r1 = now" "keys_ok maxi members expiry r1"
    "\<And>k'. k' \<noteq> k \<Longrightarrow> members r1 k' = members r k'"
    "members r1 k = (let M = purge now (members r k); M2 = M(held i := None);
       M3 = (if v = Discard then M2(failed i := None) else M2) in
       if held i \<in> dom M \<and> v = Count then M3(failed i \<mapsto> window_end now w) else M3)"
    using finalize_key_effect [OF laws Cons.prems(1,2) w refl] by (metis (no_types, lifting))
  have others: "members r1 k y = purge now (members r k) y" if "y \<noteq> held i" "y \<noteq> failed i" for y
    using that by (simp add: 1(5) Let_def)
  have "purge now (members r1 k') y = purge now (members r k') y" if "y \<noteq> held i" "y \<noteq> failed i" for y k'
    using others [OF that] 1(4) [of k'] by (cases "k' = k") (auto simp: purge_def split: option.splits if_splits)
  moreover have "\<forall>(k, w) \<in> set ks. 0 < w" using Cons.prems(3) by simp
  note IH = Cons.IH [OF 1(2) [symmetric] 1(3) this]
  ultimately show ?case using others 1(4) by (auto simp: x 1(1) IH)
qed simp

section \<open>Runs of the scripts\<close>

text \<open>
  The scripts of all processes, at one maximum per key, interleaved with the passing of time; only
  identifiers in \<open>acting\<close> take part.
\<close>

inductive script_step ::
  "'r zset_server \<Rightarrow> 'r zset_view \<Rightarrow> ('r \<Rightarrow> string \<Rightarrow> int option) \<Rightarrow> (string \<Rightarrow> int) \<Rightarrow> (string \<Rightarrow> bool) \<Rightarrow> 'r \<Rightarrow> 'r \<Rightarrow> bool"
  for zs members expiry maxi acting where
  admitted: "acting i \<Longrightarrow> \<forall>(k, m) \<in> set ks. m = maxi k \<and> 1 \<le> m \<Longrightarrow> admit_script zs ks i p r = Some (n, r')
    \<Longrightarrow> script_step zs members expiry maxi acting r r'"
| finalized: "acting i \<Longrightarrow> \<forall>(k, w) \<in> set ks. 0 < w \<Longrightarrow> finalize_script zs ks i v r = (n, r')
    \<Longrightarrow> script_step zs members expiry maxi acting r r'"
| waited: "time_passes zs members expiry r r' \<Longrightarrow> script_step zs members expiry maxi acting r r'"

lemma time_passes_keys:
  assumes "time_passes zs members expiry r r'" and "keys_ok maxi members expiry r" and "\<forall>k. 0 \<le> maxi k"
  shows "keys_ok maxi members expiry r'"
  unfolding keys_ok_def
proof
  fix k
  have "members r' k = members r k \<and> expiry r' k = expiry r k \<or> members r' k = Map.empty"
    using assms(1) by (auto simp: time_passes_def)
  then show "int (card (dom (members r' k))) \<le> maxi k \<and> covered members expiry r' k"
    using assms(2,3) by (auto simp: keys_ok_def covered_def)
qed

text \<open>A step keeps every bound, and loses no live member that it does not act on.\<close>

lemma script_step_effect:
  assumes laws: "zset_laws zs members expiry" and ok: "keys_ok maxi members expiry r" and pos: "\<forall>k. 0 \<le> maxi k"
    and step: "script_step zs members expiry maxi acting r r'"
  shows "keys_ok maxi members expiry r' \<and> zs_now zs r \<le> zs_now zs r'
    \<and> (\<forall>k j e. \<not> acting j \<longrightarrow> members r k (failed j) = Some e \<longrightarrow> zs_now zs r' < e \<longrightarrow> members r' k (failed j) = Some e)"
  using step
proof cases
  case (admitted i ks p n)
  obtain n' r1 where 1: "admit_script zs ks i p r = Some (n', r1)" "zs_now zs r1 = zs_now zs r"
    "keys_ok maxi members expiry r1"
    "\<And>k x. x \<noteq> held i \<Longrightarrow> members r1 k x
       = (if k \<in> fst ` set ks then purge (zs_now zs r) (members r k) x else members r k x)"
    using admit_script_effect [OF laws ok admitted(2)] by (metis (no_types, lifting))
  then show ?thesis using admitted(3) by (auto simp: purge_facts(5))
next
  case (finalized i ks v n)
  have r': "r' = fold (finalize_key zs (zs_now zs r) i v) ks r"
    using finalized(3) by (simp add: finalize_script_def)
  have other: "failed j \<noteq> failed i" if "\<not> acting j" for j using that finalized(1) by auto
  show ?thesis
    using finalize_keys_effect [OF laws refl ok finalized(2), of i v] other unfolding r'
    by (auto simp: purge_facts(5))
next
  case waited
  have "members r' k (failed j) = Some e" if "members r k (failed j) = Some e" "zs_now zs r' < e" for k j e
  proof -
    have "e \<in> ran (members r k)" using that(1) by (auto simp: ran_def)
    moreover have "covered members expiry r k" using ok by (simp add: keys_ok_def)
    ultimately have "expiry r k = Some x \<Longrightarrow> e \<le> x" for x by (simp add: covered_def)
    moreover have "members r' k = members r k \<or> (\<exists>x. expiry r k = Some x \<and> x \<le> zs_now zs r')"
      using waited by (auto simp: time_passes_def)
    ultimately show ?thesis using that by force
  qed
  then show ?thesis using time_passes_keys [OF waited ok pos] waited by (simp add: time_passes_def)
qed

lemma scripts_reach:
  assumes "zset_laws zs members expiry" and "\<forall>k. 0 \<le> maxi k" and "keys_ok maxi members expiry r"
    and "(script_step zs members expiry maxi acting)\<^sup>*\<^sup>* r r'"
  shows "keys_ok maxi members expiry r' \<and> zs_now zs r \<le> zs_now zs r'
    \<and> (\<forall>k j e. \<not> acting j \<longrightarrow> members r k (failed j) = Some e \<longrightarrow> zs_now zs r' < e \<longrightarrow> members r' k (failed j) = Some e)"
  using assms(4)
proof (induction rule: rtranclp_induct)
  case base
  then show ?case using assms(3) by simp
next
  case (step t u)
  then show ?case using script_step_effect [OF assms(1) _ assms(2) step(2)] by fastforce
qed


text \<open>
  The Redis side of the limiter is strict. However ADMIT and FINALIZE of all processes interleave with
  the passing of time, no bucket ever holds more members, reservations and counted failures together,
  than its maximum. ADMIT always returns, admits exactly when every one of its buckets has room among
  its live members, and when it refuses, it asks for a wait of at least a second and adds nothing to any
  bucket.
\<close>

theorem redis_limit_holds:
  assumes "zset_laws zs members expiry" and "\<forall>k. 0 \<le> maxi k" and "\<forall>k. members r0 k = Map.empty"
    and "(script_step zs members expiry maxi acting)\<^sup>*\<^sup>* r0 r"
    and "\<forall>(k, m) \<in> set ks. m = maxi k \<and> 1 \<le> m"
  shows "(\<forall>k. int (card (dom (members r k))) \<le> maxi k)
    \<and> (\<exists>n r'. admit_script zs ks i p r = Some (n, r')
        \<and> (n = 0 \<longleftrightarrow> (\<forall>(k, m) \<in> set ks. int (card (dom (purge (zs_now zs r) (members r k)))) < m))
        \<and> (n \<noteq> 0 \<longrightarrow> 1 \<le> n \<and> (\<forall>k. members r' k \<subseteq>\<^sub>m members r k)))"
proof -
  have "keys_ok maxi members expiry r0" using assms(2,3) by (simp add: keys_ok_def covered_def)
  then have ok: "keys_ok maxi members expiry r" using scripts_reach [OF assms(1,2) _ assms(4)] by blast
  obtain n r' where n: "admit_script zs ks i p r = Some (n, r')" "0 \<le> n"
    "n = 0 \<longleftrightarrow> (\<forall>(k, m) \<in> set ks. int (card (dom (purge (zs_now zs r) (members r k)))) < m)"
    "\<And>k. n > 0 \<Longrightarrow> members r' k = (if k \<in> fst ` set ks then purge (zs_now zs r) (members r k) else members r k)"
    by (rule admit_script_effect [OF assms(1) ok assms(5), where i = i and p = p]) (rule that; assumption)
  have "members r' k \<subseteq>\<^sub>m members r k" if "n > 0" for k
    using n(4) [OF that, of k] by (auto simp: map_le_def purge_def split: option.splits if_splits)
  then show ?thesis using ok n(1-3) by (auto simp: keys_ok_def)
qed


subsection \<open>A server\<close>

record table_server =
  ts_now :: int
  ts_sets :: "string \<Rightarrow> (string \<times> int) list"
  ts_expiry :: "string \<Rightarrow> int option"

definition by_score :: "(string \<times> int) list \<Rightarrow> (string \<times> int) list" where
  "by_score xs = sort_key snd (AList.clearjunk xs)"

definition table_commands :: "table_server zset_server" where
  "table_commands = \<lparr>zs_now = ts_now,
     zs_remove_upto = (\<lambda>k n r. r\<lparr>ts_sets := (ts_sets r)(k := filter (\<lambda>(_, v). n < v) (AList.clearjunk (ts_sets r k)))\<rparr>),
     zs_card = (\<lambda>k r. int (length (AList.clearjunk (ts_sets r k)))),
     zs_first = (\<lambda>k r. case by_score (ts_sets r k) of [] \<Rightarrow> None | x # _ \<Rightarrow> Some x),
     zs_last = (\<lambda>k r. case rev (by_score (ts_sets r k)) of [] \<Rightarrow> None | x # _ \<Rightarrow> Some x),
     zs_add = (\<lambda>k v m r. r\<lparr>ts_sets := (ts_sets r)(k := AList.update m v (ts_sets r k))\<rparr>),
     zs_remove = (\<lambda>k m r. (if map_of (ts_sets r k) m = None then 0 else 1,
        r\<lparr>ts_sets := (ts_sets r)(k := AList.delete m (ts_sets r k))\<rparr>)),
     zs_pexpire = (\<lambda>k d r. r\<lparr>ts_expiry := (ts_expiry r)(k := Some (ts_now r + d))\<rparr>)\<rparr>"

definition table_members :: "table_server zset_view" where
  "table_members r k = map_of (ts_sets r k)"

lemma by_score_facts:
  "(m, v) \<in> set (by_score xs) \<longleftrightarrow> map_of xs m = Some v"
  "by_score xs = [] \<longleftrightarrow> xs = []"
  "by_score xs = x # ys \<Longrightarrow> w \<in> ran (map_of xs) \<Longrightarrow> snd x \<le> w"
  "by_score xs = ys @ [x] \<Longrightarrow> w \<in> ran (map_of xs) \<Longrightarrow> w \<le> snd x"
proof -
  have d: "distinct (map fst (AList.clearjunk xs))" by simp
  show mem: "(m, v) \<in> set (by_score xs) \<longleftrightarrow> map_of xs m = Some v" for m v
    using map_of_eq_Some_iff [OF d, of m v] by (simp add: by_score_def map_of_clearjunk)
  have "length (by_score xs) = length (AList.clearjunk xs)" by (simp add: by_score_def)
  then show "by_score xs = [] \<longleftrightarrow> xs = []" by (cases xs) auto
  have ran: "w \<in> ran (map_of xs) \<longleftrightarrow> w \<in> snd ` set (by_score xs)" for w
    using mem by (force simp: ran_def)
  have sorted: "sorted (map snd (by_score xs))" by (simp add: by_score_def)
  show "by_score xs = x # ys \<Longrightarrow> w \<in> ran (map_of xs) \<Longrightarrow> snd x \<le> w" using ran [of w] sorted by auto
  show "by_score xs = ys @ [x] \<Longrightarrow> w \<in> ran (map_of xs) \<Longrightarrow> w \<le> snd x"
    using ran [of w] sorted by (auto simp: sorted_append)
qed

lemma table_laws: "zset_laws table_commands table_members ts_expiry"
proof -
  have card: "card (dom (map_of xs)) = length (AList.clearjunk xs)" for xs :: "(string \<times> int) list"
  proof -
    have "card (fst ` set (AList.clearjunk xs)) = length (AList.clearjunk xs)"
      using distinct_card [of "map fst (AList.clearjunk xs)"] by simp
    moreover have "fst ` set (AList.clearjunk xs) = fst ` set xs" using clearjunk_keys_set [of xs] by simp
    ultimately show ?thesis by (simp add: dom_map_of_conv_image_fst)
  qed
  have upto: "map_of (filter (\<lambda>(_, v). n < v) (AList.clearjunk xs)) = purge n (map_of xs)" for n and xs :: "(string \<times> int) list"
  proof
    fix m
    have d: "distinct (map fst (filter (\<lambda>(_, v). n < v) (AList.clearjunk xs)))" by (rule distinct_map_filter) simp
    have "map_of (filter (\<lambda>(_, v). n < v) (AList.clearjunk xs)) m = Some v \<longleftrightarrow> purge n (map_of xs) m = Some v" for v
      unfolding map_of_eq_Some_iff [OF d] purge_facts(6)
      using by_score_facts(1) [of m v xs] by (auto simp: by_score_def)
    then show "map_of (filter (\<lambda>(_, v). n < v) (AList.clearjunk xs)) m = purge n (map_of xs) m"
      by (metis option.exhaust)
  qed
  have first: "case (case by_score xs of [] \<Rightarrow> None | x # _ \<Rightarrow> Some x) of None \<Rightarrow> dom (map_of xs) = {}
      | Some (m, v) \<Rightarrow> map_of xs m = Some v \<and> (\<forall>w \<in> ran (map_of xs). v \<le> w)" for xs
  proof (cases "by_score xs")
    case (Cons x ys)
    then show ?thesis using by_score_facts(1) [of "fst x" "snd x" xs] by_score_facts(3) [OF Cons]
      by (auto split: prod.splits)
  next
    case Nil
    then have "xs = []" using by_score_facts(2) [of xs] by simp
    then show ?thesis by (simp add: by_score_def)
  qed
  have last: "case (case rev (by_score xs) of [] \<Rightarrow> None | x # _ \<Rightarrow> Some x) of None \<Rightarrow> dom (map_of xs) = {}
      | Some (m, v) \<Rightarrow> map_of xs m = Some v \<and> (\<forall>w \<in> ran (map_of xs). w \<le> v)" for xs
  proof (cases "rev (by_score xs)")
    case (Cons x ys)
    then have snoc: "by_score xs = rev ys @ [x]" by (metis rev.simps(2) rev_rev_ident)
    then show ?thesis using by_score_facts(1) [of "fst x" "snd x" xs] by_score_facts(4) [OF snoc] Cons
      by (auto split: prod.splits)
  next
    case Nil
    then have "xs = []" using by_score_facts(2) [of xs] by simp
    then show ?thesis by (simp add: by_score_def)
  qed
  show ?thesis
    unfolding zset_laws_def
  proof (intro conjI allI impI)
    show "case zs_first table_commands k r of None \<Rightarrow> dom (table_members r k) = {}
      | Some (m, v) \<Rightarrow> table_members r k m = Some v \<and> (\<forall>w \<in> ran (table_members r k). v \<le> w)" for r k
      unfolding table_commands_def table_members_def zset_server.simps by (rule first)
    show "case zs_last table_commands k r of None \<Rightarrow> dom (table_members r k) = {}
      | Some (m, v) \<Rightarrow> table_members r k m = Some v \<and> (\<forall>w \<in> ran (table_members r k). w \<le> v)" for r k
      unfolding table_commands_def table_members_def zset_server.simps by (rule last)
  qed (auto simp: table_commands_def table_members_def fun_eq_iff card upto update_conv' delete_conv' finite_dom_map_of)
qed

definition demo_server :: table_server where
  "demo_server = \<lparr>ts_now = 100500, ts_sets = (\<lambda>_. []), ts_expiry = (\<lambda>_. None)\<rparr>"

definition demo_held :: table_server where
  "demo_held = snd (the (admit_script table_commands [(''k'', 1)] ''a'' False demo_server))"

lemma demo_held_facts:
  "admit_script table_commands [(''k'', 1)] ''a'' False demo_server = Some (0, demo_held)"
  "ts_sets demo_held ''k'' = [(''r:a'', 110500)]" "ts_now demo_held = 100500"
  by (simp_all add: demo_held_def demo_server_def admit_script_def admit_check_def admit_insert_def refresh_expiry_def
      table_commands_def by_score_def held_def Let_def)

lemma demo_held_run:
  "(script_step table_commands table_members ts_expiry (\<lambda>_. 1) (\<lambda>_. True))\<^sup>*\<^sup>* demo_server demo_held"
  using demo_held_facts(1) by (intro r_into_rtranclp script_step.admitted) auto

theorem redis_limit_holds_witness:
  "\<exists>n r'. admit_script table_commands [(''k'', 1)] ''b'' False demo_held = Some (n, r') \<and> 1 \<le> n"
proof -
  have ks: "\<forall>(k, m) \<in> set [(''k'', 1 :: int)]. m = 1 \<and> 1 \<le> m" by simp
  have fresh: "\<forall>k. table_members demo_server k = Map.empty" by (simp add: table_members_def demo_server_def)
  have full: "\<not> (\<forall>(k, m) \<in> set [(''k'', 1 :: int)].
      int (card (dom (purge (zs_now table_commands demo_held) (table_members demo_held k)))) < m)"
  proof -
    have "purge 100500 [''r:a'' \<mapsto> 110500] = [''r:a'' \<mapsto> 110500]" by (auto simp: purge_def fun_eq_iff)
    then show ?thesis by (simp add: table_commands_def table_members_def demo_held_facts)
  qed
  show ?thesis
    using conjunct2 [OF redis_limit_holds [OF table_laws _ fresh demo_held_run ks, of "''b''" False]] full by auto
qed



end
