(* ===== verification/Auth_Requests.thy ===== *)
theory Auth_Requests
  imports Auth_Sessions Rate_Scripts
begin

text \<open>
  The authentication requests as they compose the rate limiter with the session service
  (\<open>auth/service.py\<close>), the cookies of a response (\<open>auth/router.py\<close>) and the boundary every HTTP request
  passes (\<open>http/auth_middleware.py\<close>). A request's clock readings, the replies of Redis and the fate of its
  transaction are arguments; no other request interleaves with it here (interleaving is the subject of
  the step relations of \<open>Rate_Limit\<close>, \<open>Rate_Scripts\<close> and \<open>Auth_Sessions\<close>).
\<close>

section \<open>Charging admissions\<close>

text \<open>\<open>for admission in admissions: await limiter.finalize(...)\<close>, ended by a cancellation.\<close>

record charge =
  ch_admission :: admission
  ch_clock :: limiter_clock
  ch_reply :: "unit reply"

primrec finalize_all ::
  "limiter_settings \<Rightarrow> charge list \<Rightarrow> bool \<Rightarrow> bool \<Rightarrow> limiter \<Rightarrow> (auth_error + unit) \<times> limiter" where
  "finalize_all cfg [] count' discard st = (Inr (), st)"
| "finalize_all cfg (c # cs) count' discard st =
     (case finalize cfg (ch_clock c) (ch_reply c) (ch_admission c) count' discard st of
        (Inl e, st1) \<Rightarrow> (Inl e, st1)
      | (Inr _, st1) \<Rightarrow> finalize_all cfg cs count' discard st1)"

text \<open>\<open>compensation\<close> are the charges of the same admissions for the discarding loop.\<close>

definition finish_admissions ::
  "limiter_settings \<Rightarrow> charge list \<Rightarrow> charge list \<Rightarrow> bool \<Rightarrow> limiter \<Rightarrow> (auth_error + unit) \<times> limiter" where
  "finish_admissions cfg charges compensation count' st =
     (case finalize_all cfg charges count' False st of
        (Inl _, st1) \<Rightarrow> (Inl AuthStorageError, snd (finalize_all cfg compensation False True st1))
      | (Inr _, st1) \<Rightarrow> (Inr (), st1))"

section \<open>Login\<close>

record admit_input =
  ai_clock :: limiter_clock
  ai_probe_reply :: "script_reply reply"
  ai_reply :: "script_reply reply"
  ai_id :: string

definition run_admit :: "limiter_settings \<Rightarrow> admit_input \<Rightarrow> bucket list \<Rightarrow> limiter \<Rightarrow> (auth_error + admission) \<times> limiter" where
  "run_admit cfg a bs st = admit cfg (ai_clock a) (ai_probe_reply a) (ai_reply a) (ai_id a) bs st"

record finish_input =
  fi_clock :: limiter_clock
  fi_reply :: "unit reply"

definition charge_of :: "finish_input \<Rightarrow> admission \<Rightarrow> charge" where
  "charge_of f adm = \<lparr>ch_admission = adm, ch_clock = fi_clock f, ch_reply = fi_reply f\<rparr>"

text \<open>\<open>too_late\<close>: the deadline passed during the final charge, as the last check finds.\<close>

record login_input =
  li_admit :: admit_input
  li_finish :: finish_input
  li_compensate :: finish_input
  li_now :: instant
  li_fate :: fate
  li_refresh :: string
  li_too_late :: bool

definition login ::
  "limiter_settings \<Rightarrow> (string \<Rightarrow> string) \<Rightarrow> auth_env \<Rightarrow> login_input \<Rightarrow> string \<Rightarrow> string \<Rightarrow> string
     \<Rightarrow> limiter \<times> auth_db \<Rightarrow> (auth_error + issued_session) \<times> limiter \<times> auth_db" where
  "login cfg mac env i email password ip = (\<lambda>(lim, s).
     let email1 = normalize_email email in
     case run_admit cfg (li_admit i) (login_buckets cfg mac email1 ip) lim of
       (Inl e, lim1) \<Rightarrow> (Inl e, lim1, s)
     | (Inr adm, lim1) \<Rightarrow>
         let (r, s1) = login_core env (li_now i) (li_fate i) (li_refresh i) email1 password s;
             (f, lim2) = finish_admissions cfg [charge_of (li_finish i) adm] [charge_of (li_compensate i) adm]
               (r = Inl AuthenticationError) lim1
         in (case f of Inl e \<Rightarrow> Inl e
             | Inr _ \<Rightarrow> (case r of Inl e \<Rightarrow> Inl e | Inr x \<Rightarrow> if li_too_late i then Inl AuthStorageError else Inr x),
             lim2, s1))"

section \<open>Refresh\<close>

record refresh_input =
  ri_admit_ip :: admit_input
  ri_admit_family :: admit_input
  ri_finish_ip :: finish_input
  ri_finish_family :: finish_input
  ri_compensate_ip :: finish_input
  ri_compensate_family :: finish_input
  ri_abandon_ip :: finish_input
  ri_abandon_family :: finish_input
  ri_now :: instant
  ri_fate :: fate
  ri_successor :: string
  ri_late_identity :: bool
  ri_too_late :: bool

text \<open>
  The body under the deadline, up to the admissions it acquired: a presented token without an identity is
  refused, a known one is admitted for its family (a refusal to admit leaves with \<open>RateLimitError\<close>), then
  rotated. \<open>ri_late_identity\<close> is a deadline that passed before the family was admitted.
\<close>

definition refresh_body ::
  "limiter_settings \<Rightarrow> (string \<Rightarrow> string) \<Rightarrow> auth_env \<Rightarrow> refresh_input \<Rightarrow> string option
     \<Rightarrow> limiter \<times> auth_db \<Rightarrow> (auth_error + issued_session) \<times> admission list \<times> limiter \<times> auth_db" where
  "refresh_body cfg mac env i refresh = (\<lambda>(lim, s).
     case presented_digest env refresh of
       None \<Rightarrow> (Inl AuthenticationError, [], lim, s)
     | Some digest \<Rightarrow>
         if ri_late_identity i then (Inl AuthStorageError, [], lim, s)
         else (case token_identity s digest of
           None \<Rightarrow> (Inl AuthenticationError, [], lim, s)
         | Some identity \<Rightarrow>
             (case run_admit cfg (ri_admit_family i) (refresh_family cfg mac (py_str_uuid (snd identity))) lim of
                (Inl e, lim1) \<Rightarrow> (Inl (if e = Auth_Cancelled then AuthStorageError else e), [], lim1, s)
              | (Inr adm, lim1) \<Rightarrow>
                  let (r, s1) = refresh_core env (ri_now i) (ri_fate i) (ri_successor i) digest identity s
                  in (r, [adm], lim1, s1))))"

definition refresh_counts :: "auth_error + issued_session \<Rightarrow> bool" where
  "refresh_counts r = (case r of Inr _ \<Rightarrow> True | Inl AuthenticationError \<Rightarrow> True | Inl (RateLimitError _) \<Rightarrow> True | _ \<Rightarrow> False)"

definition charges_for :: "finish_input list \<Rightarrow> admission list \<Rightarrow> charge list" where
  "charges_for fs adms = map (\<lambda>(f, a). charge_of f a) (zip fs adms)"

definition refresh_session ::
  "limiter_settings \<Rightarrow> (string \<Rightarrow> string) \<Rightarrow> auth_env \<Rightarrow> refresh_input \<Rightarrow> string option \<Rightarrow> string
     \<Rightarrow> limiter \<times> auth_db \<Rightarrow> (auth_error + issued_session) \<times> limiter \<times> auth_db" where
  "refresh_session cfg mac env i refresh ip = (\<lambda>(lim, s).
     case run_admit cfg (ri_admit_ip i) (refresh_ip cfg mac ip) lim of
       (Inl e, lim1) \<Rightarrow> (Inl e, lim1, s)
     | (Inr adm, lim1) \<Rightarrow>
         let (r, more, lim2, s1) = refresh_body cfg mac env i refresh (lim1, s);
             adms = adm # more;
             (f, lim3) = finish_admissions cfg (charges_for [ri_finish_ip i, ri_finish_family i] adms)
               (charges_for [ri_compensate_ip i, ri_compensate_family i] adms) (refresh_counts r) lim2
         in (case f of Inl e \<Rightarrow> (Inl e, lim3, s1)
             | Inr _ \<Rightarrow> (case r of Inl e \<Rightarrow> (Inl e, lim3, s1)
                 | Inr x \<Rightarrow> if ri_too_late i
                     then (Inl AuthStorageError, snd (finalize_all cfg
                             (charges_for [ri_abandon_ip i, ri_abandon_family i] adms) False True lim3), s1)
                     else (Inr x, lim3, s1))))"

section \<open>Cookies\<close>

record cookie =
  ck_name :: string
  ck_value :: string
  ck_max_age :: int
  ck_path :: string
  ck_secure :: bool

record cookie_settings =
  cs_access_seconds :: int
  cs_refresh_path :: string
  cs_secure :: bool

text \<open>\<open>int(...total_seconds())\<close> truncates towards zero.\<close>

definition truncated_seconds :: "int \<Rightarrow> int" where
  "truncated_seconds d = (if d \<ge> 0 then d div second else - ((- d) div second))"

text \<open>
  \<open>expired_before\<close> and \<open>expired_after\<close> are the two comparisons of the monotonic clock with the delivery
  deadline.
\<close>

definition set_cookies ::
  "cookie_settings \<Rightarrow> bool \<Rightarrow> bool \<Rightarrow> instant \<Rightarrow> issued_session \<Rightarrow> auth_error + cookie list" where
  "set_cookies cfg expired_before expired_after now x =
     raise_if expired_before AuthStorageError (
     let remaining = max 0 (truncated_seconds (is_expires_at x - now)) in
     raise_if expired_after AuthStorageError (
     Inr [\<lparr>ck_name = ''ros_access'', ck_value = is_access_token x, ck_max_age = min (cs_access_seconds cfg) remaining,
           ck_path = ''/'', ck_secure = cs_secure cfg\<rparr>,
          \<lparr>ck_name = ''ros_refresh'', ck_value = is_refresh_token x, ck_max_age = remaining,
           ck_path = cs_refresh_path cfg, ck_secure = cs_secure cfg\<rparr>]))"

text \<open>No cookie outlives its session.\<close>

lemma cookies_expire_with_session:
  assumes "set_cookies cfg b a now x = Inr cs" and "now \<le> is_expires_at x" and "c \<in> set cs"
  shows "now + ck_max_age c * second \<le> is_expires_at x"
proof -
  let ?d = "is_expires_at x - now"
  have "?d div second * second \<le> ?d" by (simp add: second_def minus_mod_eq_div_mult [symmetric])
  moreover have "min (cs_access_seconds cfg) (?d div second) * second \<le> ?d div second * second"
    by (simp add: second_def)
  ultimately show ?thesis
    using assms by (auto simp: set_cookies_def res_simps truncated_seconds_def Let_def max_def second_def
        pos_imp_zdiv_nonneg_iff split: if_splits)
qed

section \<open>The boundary of every HTTP request\<close>

text \<open>
  A request as the middleware sees it: method, path and the headers it reads (\<open>None\<close> when absent).
\<close>

record http_request =
  rq_method :: string
  rq_path :: string
  rq_origin :: "string option"
  rq_csrf :: "string option"
  rq_content_length :: "string option"
  rq_transfer_encoding :: bool
  rq_content_type :: "string option"
  rq_cookie :: "string option"

datatype boundary = Rejected int | Passed

definition media_type :: "string option \<Rightarrow> string" where
  "media_type header = (case header of None \<Rightarrow> [] | Some v \<Rightarrow> py_casefold (py_strip (takeWhile (\<lambda>c. c \<noteq> CHR '';'') v)))"

definition auth_boundary :: "string list \<Rightarrow> http_request \<Rightarrow> boundary" where
  "auth_boundary trusted_origins rq =
     (if rq_method rq \<in> set [''GET'', ''HEAD'', ''OPTIONS''] then Passed
      else if (case rq_origin rq of None \<Rightarrow> True | Some o' \<Rightarrow> o' \<notin> set trusted_origins) \<or> rq_csrf rq \<noteq> Some ''1''
      then Rejected 403
      else if ((case rq_content_length rq of None \<Rightarrow> False | Some n \<Rightarrow> n \<noteq> ''0'') \<or> rq_transfer_encoding rq)
        \<and> media_type (rq_content_type rq) \<noteq> ''application/json''
      then Rejected 415
      else Passed)"

text \<open>
  A response message: its start with status and headers, or a piece of its body. \<open>expired\<close> tells whether
  the delivery deadline of an authentication had passed (\<open>False\<close> when there is none).
\<close>

datatype message = Start int "(string \<times> string) list" | Body string

datatype sending = Dropped | Replaced int | Sent message

definition has_substring :: "string \<Rightarrow> string \<Rightarrow> bool" where
  "has_substring pat s = list_ex (\<lambda>n. take (length pat) (drop n s) = pat) [0 ..< length s + 1]"

definition private_response :: "http_request \<Rightarrow> bool" where
  "private_response rq = (take 5 (rq_path rq) = ''/auth''
     \<or> (case rq_cookie rq of None \<Rightarrow> False | Some c \<Rightarrow> has_substring ''ros_access='' c))"

definition no_store :: "http_request \<Rightarrow> bool \<Rightarrow> bool \<Rightarrow> message \<Rightarrow> sending \<times> bool" where
  "no_store rq expired discarded m =
     (if discarded then (Dropped, True)
      else case m of
        Body b \<Rightarrow> (Sent (Body b), False)
      | Start status headers \<Rightarrow>
          if status < 400 \<and> expired then (Replaced 503, True)
          else (Sent (Start status (if private_response rq
                  then filter (\<lambda>(k, v). py_casefold k \<noteq> ''cache-control'') headers @ [(''cache-control'', ''no-store'')]
                  else headers)), False))"

text \<open>A state-changing request passes only from a trusted origin, with the CSRF header, and with JSON.\<close>

lemma passed_request:
  assumes "auth_boundary origins rq = Passed" and "rq_method rq \<notin> set [''GET'', ''HEAD'', ''OPTIONS'']"
  shows "(\<exists>o' \<in> set origins. rq_origin rq = Some o') \<and> rq_csrf rq = Some ''1''
    \<and> (rq_transfer_encoding rq \<longrightarrow> media_type (rq_content_type rq) = ''application/json'')"
  using assms by (auto simp: auth_boundary_def split: if_splits option.splits)

end
