(* ===== verification/Worker_Streams.thy ===== *)
theory Worker_Streams
  imports Relay Python_Text Redis_Adapter "HOL-Library.AList"
begin

text \<open>
  The worker's side of the event stream: its Redis transport (\<open>events/worker/redis.py\<close>) with the
  classification of driver failures, the parsers of replies and the stream operations of
  \<open>EventStreams\<close> (\<open>events/worker/streams.py\<close>). The Redis server and its driver are a parameter: a
  function from a command and the server's state to how the driver ends and the next state. Metrics
  are left out.
\<close>

section \<open>Operations that may fail\<close>

datatype worker_failure_kind = WF_Timeout | WF_Connection | WF_Command

text \<open>
  What can leave an operation of the worker besides its result: \<open>WorkerRedisFailure\<close>,
  \<open>SQLAlchemyError\<close>, \<open>OSError\<close>, \<open>TimeoutError\<close>, \<open>DependencyUnavailable\<close>, the cancellation of the
  task, and any other exception.
\<close>

datatype worker_error =
    Redis_Failed worker_failure_kind "string option"
  | Database_Failed
  | OS_Failed
  | Timed_Out
  | Dependency_Down
  | Task_Cancelled
  | Internal_Failure

type_synonym ('s, 'a) op = "'s \<Rightarrow> (worker_error + 'a) \<times> 's"

definition ret :: "'a \<Rightarrow> ('s, 'a) op" where
  "ret x = (\<lambda>s. (Inr x, s))"

definition throw :: "worker_error \<Rightarrow> ('s, 'a) op" where
  "throw e = (\<lambda>s. (Inl e, s))"

definition bind_op :: "('s, 'a) op \<Rightarrow> ('a \<Rightarrow> ('s, 'b) op) \<Rightarrow> ('s, 'b) op" where
  "bind_op m f = (\<lambda>s. case m s of (Inl e, t) \<Rightarrow> (Inl e, t) | (Inr x, t) \<Rightarrow> f x t)"

definition catch_op :: "('s, 'a) op \<Rightarrow> (worker_error \<Rightarrow> ('s, 'a) op) \<Rightarrow> ('s, 'a) op" where
  "catch_op m handler = (\<lambda>s. case m s of (Inl e, t) \<Rightarrow> handler e t | (Inr x, t) \<Rightarrow> (Inr x, t))"

primrec each_op :: "('a \<Rightarrow> ('s, unit) op) \<Rightarrow> 'a list \<Rightarrow> ('s, unit) op" where
  "each_op f [] = ret ()"
| "each_op f (x # xs) = bind_op (f x) (\<lambda>_. each_op f xs)"

definition from_option :: "worker_error \<Rightarrow> 'a option \<Rightarrow> ('s, 'a) op" where
  "from_option e x = (case x of None \<Rightarrow> throw e | Some y \<Rightarrow> ret y)"

named_theorems op_simps

lemmas [op_simps] = ret_def throw_def from_option_def

lemma bind_op_cases:
  "bind_op m f s = (y, u) \<longleftrightarrow> (\<exists>e. m s = (Inl e, u) \<and> y = Inl e) \<or> (\<exists>x t. m s = (Inr x, t) \<and> f x t = (y, u))"
  by (auto simp: bind_op_def split: prod.splits sum.splits)

lemma catch_op_cases:
  "catch_op m h s = (y, u) \<longleftrightarrow> (\<exists>x. m s = (Inr x, u) \<and> y = Inr x) \<or> (\<exists>e t. m s = (Inl e, t) \<and> h e t = (y, u))"
  by (auto simp: catch_op_def split: prod.splits sum.splits)

text \<open>
  What holds after an operation: \<open>Q\<close> of its result and the next state, \<open>R\<close> of the state an exception
  leaves.
\<close>

definition triple :: "('s \<Rightarrow> bool) \<Rightarrow> ('s, 'a) op \<Rightarrow> ('a \<Rightarrow> 's \<Rightarrow> bool) \<Rightarrow> ('s \<Rightarrow> bool) \<Rightarrow> bool" where
  "triple P m Q R = (\<forall>s. P s \<longrightarrow> (case m s of (Inl _, t) \<Rightarrow> R t | (Inr x, t) \<Rightarrow> Q x t))"

abbreviation op_keeps :: "('s \<Rightarrow> bool) \<Rightarrow> ('s, 'a) op \<Rightarrow> bool" where
  "op_keeps I m \<equiv> triple I m (\<lambda>_. I) I"

named_theorems triple_intros

lemma tripleI:
  "(\<And>s e t. P s \<Longrightarrow> m s = (Inl e, t) \<Longrightarrow> R t) \<Longrightarrow> (\<And>s x t. P s \<Longrightarrow> m s = (Inr x, t) \<Longrightarrow> Q x t)
     \<Longrightarrow> triple P m Q R"
  by (auto simp: triple_def split: prod.splits sum.splits)

lemma triple_Inl: "triple P m Q R \<Longrightarrow> P s \<Longrightarrow> m s = (Inl e, t) \<Longrightarrow> R t"
  unfolding triple_def by fastforce

lemma triple_Inr: "triple P m Q R \<Longrightarrow> P s \<Longrightarrow> m s = (Inr x, t) \<Longrightarrow> Q x t"
  unfolding triple_def by fastforce

lemma triple_ret [triple_intros]: "(\<And>s. P s \<Longrightarrow> Q x s) \<Longrightarrow> triple P (ret x) Q R"
  by (simp add: triple_def ret_def)

lemma triple_throw [triple_intros]: "(\<And>s. P s \<Longrightarrow> R s) \<Longrightarrow> triple P (throw e) Q R"
  by (simp add: triple_def throw_def)

lemma triple_bind:
  "triple P m Q R \<Longrightarrow> (\<And>x. triple (Q x) (f x) S R) \<Longrightarrow> triple P (bind_op m f) S R"
  by (rule tripleI) (auto simp: bind_op_cases dest: triple_Inl triple_Inr)

lemma keeps_bind [triple_intros]:
  "op_keeps I m \<Longrightarrow> (\<And>x. triple I (f x) S I) \<Longrightarrow> triple I (bind_op m f) S I"
  by (rule triple_bind)

lemma triple_catch:
  "triple P m Q E \<Longrightarrow> (\<And>e. triple E (h e) Q R) \<Longrightarrow> triple P (catch_op m h) Q R"
  by (rule tripleI) (auto simp: catch_op_cases dest: triple_Inl triple_Inr)

lemma keeps_catch [triple_intros]:
  "triple I m Q I \<Longrightarrow> (\<And>e. triple I (h e) Q I) \<Longrightarrow> triple I (catch_op m h) Q I"
  by (rule triple_catch)

lemma triple_each [triple_intros]:
  "(\<And>x. x \<in> set xs \<Longrightarrow> triple I (f x) (\<lambda>_. I) R) \<Longrightarrow> triple I (each_op f xs) (\<lambda>_. I) R"
  by (induction xs) (auto intro!: triple_ret intro: triple_bind)

lemma triple_from_option [triple_intros]:
  "(\<And>s. P s \<Longrightarrow> R s) \<Longrightarrow> (\<And>y s. x = Some y \<Longrightarrow> P s \<Longrightarrow> Q y s) \<Longrightarrow> triple P (from_option e x) Q R"
  by (cases x) (auto simp: from_option_def intro: triple_ret triple_throw)

lemma triple_if [triple_intros]:
  "(b \<Longrightarrow> triple P m Q R) \<Longrightarrow> (\<not> b \<Longrightarrow> triple P n Q R) \<Longrightarrow> triple P (if b then m else n) Q R"
  by simp

lemma triple_option [triple_intros]:
  "(x = None \<Longrightarrow> triple P m Q R) \<Longrightarrow> (\<And>y. x = Some y \<Longrightarrow> triple P (n y) Q R)
     \<Longrightarrow> triple P (case x of None \<Rightarrow> m | Some y \<Rightarrow> n y) Q R"
  by (cases x) simp_all

lemma triple_list [triple_intros]:
  "(xs = [] \<Longrightarrow> triple P m Q R) \<Longrightarrow> (\<And>y ys. xs = y # ys \<Longrightarrow> triple P (n y ys) Q R)
     \<Longrightarrow> triple P (case xs of [] \<Rightarrow> m | y # ys \<Rightarrow> n y ys) Q R"
  by (cases xs) simp_all

lemma triple_conseq:
  "triple P m Q R \<Longrightarrow> (\<And>s. P' s \<Longrightarrow> P s) \<Longrightarrow> (\<And>x s. Q x s \<Longrightarrow> Q' x s) \<Longrightarrow> (\<And>s. R s \<Longrightarrow> R' s) \<Longrightarrow> triple P' m Q' R'"
  by (rule tripleI) (blast dest: triple_Inl triple_Inr)+

lemma triple_fact: "(A \<Longrightarrow> triple P m Q R) \<Longrightarrow> triple (\<lambda>s. P s \<and> A) m Q R"
  by (auto simp: triple_def)

section \<open>Values of replies\<close>

text \<open>
  The Python values the driver returns. Text and bytes are ASCII, where decoding UTF-8 changes
  nothing.
\<close>

datatype py_value =
    Py_None
  | Py_Int int
  | Py_Str string
  | Py_Bytes string
  | Py_List "py_value list"
  | Py_Tuple "py_value list"
  | Py_Dict "(py_value \<times> py_value) list"

definition hex_pair :: "char \<Rightarrow> string" where
  "hex_pair c = hex_digits 2 (of_char c)"

definition repr_char :: "char \<Rightarrow> char \<Rightarrow> string" where
  "repr_char quote c = (let n = of_char c :: nat in
     if c = quote \<or> n = 92 then [char_of (92 :: nat), c]
     else if n = 9 then [char_of (92 :: nat), CHR ''t'']
     else if n = 10 then [char_of (92 :: nat), CHR ''n'']
     else if n = 13 then [char_of (92 :: nat), CHR ''r'']
     else if n < 32 \<or> n \<ge> 127 then char_of (92 :: nat) # CHR ''x'' # hex_pair c else [c])"

definition repr_text :: "string \<Rightarrow> string" where
  "repr_text s = (let single = char_of (39 :: nat); double = char_of (34 :: nat);
       quote = (if single \<in> set s \<and> double \<notin> set s then double else single)
     in quote # concat (map (repr_char quote) s) @ [quote])"

fun comma_separated :: "string list \<Rightarrow> string" where
  "comma_separated [] = []"
| "comma_separated [x] = x"
| "comma_separated (x # xs) = x @ '', '' @ comma_separated xs"

primrec py_repr :: "py_value \<Rightarrow> string" where
  "py_repr Py_None = ''None''"
| "py_repr (Py_Int n) = py_str_int n"
| "py_repr (Py_Str s) = repr_text s"
| "py_repr (Py_Bytes s) = CHR ''b'' # repr_text s"
| "py_repr (Py_List xs) = ''['' @ comma_separated (map py_repr xs) @ '']''"
| "py_repr (Py_Tuple xs) = ''('' @ comma_separated (map py_repr xs)
     @ (if length xs = 1 then '',)'' else '')'')"
| "py_repr (Py_Dict kvs) = ''{'' @ comma_separated
     (map (\<lambda>(k, v). k @ '': '' @ v) (map (map_prod py_repr py_repr) kvs)) @ ''}''"

definition text_of :: "py_value \<Rightarrow> string" where
  "text_of v = (case v of Py_Bytes s \<Rightarrow> s | Py_Str s \<Rightarrow> s | _ \<Rightarrow> py_repr v)"

text \<open>The elements of a list or tuple; \<open>None\<close> for every other value.\<close>

definition elements :: "py_value \<Rightarrow> py_value list option" where
  "elements v = (case v of Py_List xs \<Rightarrow> Some xs | Py_Tuple xs \<Rightarrow> Some xs | _ \<Rightarrow> None)"

fun pairwise :: "'a list \<Rightarrow> ('a \<times> 'a) list" where
  "pairwise (x # y # xs) = (x, y) # pairwise xs"
| "pairwise _ = []"

text \<open>A dict built entry by entry: a later value replaces an earlier one in its place.\<close>

definition dict_of :: "(string \<times> 'a) list \<Rightarrow> (string \<times> 'a) list" where
  "dict_of kvs = fold (\<lambda>(k, v). AList.update k v) kvs []"

definition mapping_of :: "py_value \<Rightarrow> (string \<times> py_value) list" where
  "mapping_of v = (case v of
      Py_Dict kvs \<Rightarrow> dict_of (map (\<lambda>(k, x). (text_of k, x)) kvs)
    | Py_List xs \<Rightarrow> dict_of (map (\<lambda>(k, x). (text_of k, x)) (pairwise xs))
    | Py_Tuple xs \<Rightarrow> dict_of (map (\<lambda>(k, x). (text_of k, x)) (pairwise xs))
    | _ \<Rightarrow> [])"

text \<open>\<open>int(value)\<close>; \<open>None\<close> stands for its \<open>TypeError\<close> or \<open>ValueError\<close>.\<close>

definition py_int :: "py_value \<Rightarrow> int option" where
  "py_int v = (case v of Py_Int n \<Rightarrow> Some n | Py_Str s \<Rightarrow> py_int10 s | Py_Bytes s \<Rightarrow> py_int10 s | _ \<Rightarrow> None)"

text \<open>An optional value, as \<open>dict.get\<close> or an index gives it: Python's \<open>None\<close> counts as absent.\<close>

definition present :: "py_value option \<Rightarrow> py_value option" where
  "present v = (case v of None \<Rightarrow> None | Some Py_None \<Rightarrow> None | Some x \<Rightarrow> Some x)"

section \<open>Parsers of replies\<close>

record stream_message =
  sm_id :: string
  sm_fields :: "(string \<times> string) list"

record pending_message =
  pm_id :: string
  pm_owner :: string
  pm_idle_ms :: int

definition entry_message :: "py_value \<Rightarrow> stream_message option" where
  "entry_message entry = (case elements entry of
      Some [message_id, values] \<Rightarrow>
        Some \<lparr>sm_id = text_of message_id, sm_fields = map (\<lambda>(k, v). (k, text_of v)) (mapping_of values)\<rparr>
    | _ \<Rightarrow> None)"

definition claimed_messages :: "py_value \<Rightarrow> stream_message list" where
  "claimed_messages v = (case elements v of None \<Rightarrow> []
     | Some entries \<Rightarrow> List.map_filter entry_message entries)"

definition stream_messages :: "py_value \<Rightarrow> stream_message list" where
  "stream_messages v = (case elements v of None \<Rightarrow> []
     | Some streams \<Rightarrow> concat (map (\<lambda>stream. case elements stream of
         Some [_, entries] \<Rightarrow> claimed_messages entries | _ \<Rightarrow> []) streams))"

definition group_names :: "py_value \<Rightarrow> string list" where
  "group_names v = (case elements v of None \<Rightarrow> []
     | Some rows \<Rightarrow> List.map_filter
         (\<lambda>row. map_option text_of (present (map_of (mapping_of row) ''name''))) rows)"

definition group_pending_counts :: "py_value \<Rightarrow> (string \<times> int) list" where
  "group_pending_counts v = (case elements v of None \<Rightarrow> []
     | Some rows \<Rightarrow> dict_of (List.map_filter (\<lambda>row.
         (case (present (map_of (mapping_of row) ''name''), present (map_of (mapping_of row) ''pending'')) of
            (Some name, Some amount) \<Rightarrow> map_option (\<lambda>n. (text_of name, n)) (py_int amount)
          | _ \<Rightarrow> None)) rows))"

definition pending_row :: "py_value \<Rightarrow> (py_value option \<times> py_value option \<times> py_value option) option" where
  "pending_row row = (case row of
      Py_Dict _ \<Rightarrow> (let m = mapping_of row in
        Some (map_of m ''message_id'', map_of m ''consumer'', map_of m ''time_since_delivered''))
    | Py_List (a # b # c # _ # _) \<Rightarrow> Some (Some a, Some b, Some c)
    | Py_Tuple (a # b # c # _ # _) \<Rightarrow> Some (Some a, Some b, Some c)
    | _ \<Rightarrow> None)"

definition pending_of_row :: "py_value \<Rightarrow> pending_message option" where
  "pending_of_row row = (case pending_row row of None \<Rightarrow> None
     | Some (message_id, owner, idle) \<Rightarrow>
         (case (present message_id, present owner, present idle) of
            (Some m, Some o', Some i) \<Rightarrow>
              map_option (\<lambda>n. \<lparr>pm_id = text_of m, pm_owner = text_of o', pm_idle_ms = n\<rparr>) (py_int i)
          | _ \<Rightarrow> None))"

definition pending_messages :: "py_value \<Rightarrow> pending_message list" where
  "pending_messages v = (case elements v of None \<Rightarrow> [] | Some rows \<Rightarrow> List.map_filter pending_of_row rows)"

section \<open>The transport\<close>

text \<open>
  What the driver's coroutine can end with under the operation budget; \<open>Response_Error\<close> carries the
  server's text.
\<close>

datatype worker_driver_end =
    Value_End py_value
  | Budget_End
  | Timeout_End
  | Connection_End
  | Invalid_Response_End
  | OS_End
  | Response_Error string
  | Redis_Error_End
  | Cancelled_End
  | Other_End

text \<open>\<open>str.split(maxsplit=1)[0]\<close>, with \<open>None\<close> for the \<open>IndexError\<close> of a blank text.\<close>

definition first_word :: "string \<Rightarrow> string option" where
  "first_word s = (let t = dropWhile py_isspace s in
     if t = [] then None else Some (takeWhile (\<lambda>c. \<not> py_isspace c) t))"

definition safe_server_code :: "string \<Rightarrow> string option" where
  "safe_server_code message = (case first_word message of None \<Rightarrow> None
     | Some w \<Rightarrow> let code = py_upper w in
         if code \<in> set [''BUSYGROUP'', ''NOGROUP'', ''WRONGTYPE'', ''ERR''] then Some code else None)"

definition worker_bounded :: "worker_driver_end \<Rightarrow> worker_error + py_value" where
  "worker_bounded ending = (case ending of
      Value_End v \<Rightarrow> Inr v
    | Budget_End \<Rightarrow> Inl (Redis_Failed WF_Timeout None)
    | Timeout_End \<Rightarrow> Inl (Redis_Failed WF_Timeout None)
    | Connection_End \<Rightarrow> Inl (Redis_Failed WF_Connection None)
    | Invalid_Response_End \<Rightarrow> Inl (Redis_Failed WF_Connection None)
    | OS_End \<Rightarrow> Inl (Redis_Failed WF_Connection None)
    | Response_Error message \<Rightarrow> Inl (Redis_Failed WF_Command (safe_server_code message))
    | Redis_Error_End \<Rightarrow> Inl (Redis_Failed WF_Command None)
    | Cancelled_End \<Rightarrow> Inl Task_Cancelled
    | Other_End \<Rightarrow> Inl Internal_Failure)"

text \<open>The commands the worker sends about its stream.\<close>

datatype stream_command =
    EXISTS
  | XINFO_GROUPS
  | XGROUP_CREATE string
  | XADD "(string \<times> string) list"
  | XREADGROUP string string int "int option"
  | XPENDING string string string int
  | XRANGE string
  | XCLAIM string string int "string list"
  | XACK string string
  | XLEN

type_synonym 'r stream_server = "stream_command \<Rightarrow> 'r \<Rightarrow> worker_driver_end \<times> 'r"

text \<open>The transport: whether it holds a client, and the state of the server behind it.\<close>

record 'r transport =
  tp_open :: bool
  tp_server :: 'r

definition open_transport :: "('r, 'z) transport_scheme \<Rightarrow> ('r, 'z) transport_scheme" where
  "open_transport w = w\<lparr>tp_open := True\<rparr>"

definition execute_stream ::
  "'r stream_server \<Rightarrow> stream_command \<Rightarrow> (('r, 'z) transport_scheme, py_value) op" where
  "execute_stream srv cmd = (\<lambda>w.
     if \<not> tp_open w then (Inl (Redis_Failed WF_Connection None), w)
     else let (ending, r) = srv cmd (tp_server w) in (worker_bounded ending, w\<lparr>tp_server := r\<rparr>))"

definition close_transport ::
  "worker_driver_end \<Rightarrow> (('r, 'z) transport_scheme, unit) op" where
  "close_transport ending = (\<lambda>w.
     (if tp_open w then (case worker_bounded ending of Inl e \<Rightarrow> Inl e | Inr _ \<Rightarrow> Inr ()) else Inr (),
      w\<lparr>tp_open := False\<rparr>))"

text \<open>\<open>stream_key\<close>: the one stream of an environment.\<close>

definition worker_stream_key :: "redis_settings \<Rightarrow> string" where
  "worker_stream_key cfg = ''restaurantos:'' @ rs_environment cfg
     @ (if rs_environment cfg = ''test'' then '':'' @ rs_test_namespace cfg else [])
     @ '':events:v1:'' @ ''stream''"

section \<open>Stream operations\<close>

definition group_name :: "consumer \<Rightarrow> string" where
  "group_name c = (case c of Analytics \<Rightarrow> ''analytics'' | Alerts \<Rightarrow> ''alerts''
     | Notification_Sink \<Rightarrow> ''notification_sink'')"

definition groups :: "consumer list" where
  "groups = [Analytics, Alerts, Notification_Sink]"

text \<open>The check of \<open>__init__\<close>: the groups are exactly the consumers of the subscription registry.\<close>

definition groups_registered :: bool where
  "groups_registered = (set (concat (map consumers_for all_event_types)) = set groups)"

lemma groups_are_registered: "groups_registered"
  by code_simp

definition truthy :: "py_value \<Rightarrow> bool" where
  "truthy v = (case v of Py_None \<Rightarrow> False | Py_Int n \<Rightarrow> n \<noteq> 0 | Py_Str s \<Rightarrow> s \<noteq> [] | Py_Bytes s \<Rightarrow> s \<noteq> []
     | Py_List xs \<Rightarrow> xs \<noteq> [] | Py_Tuple xs \<Rightarrow> xs \<noteq> [] | Py_Dict kvs \<Rightarrow> kvs \<noteq> [])"

definition create_group :: "'r stream_server \<Rightarrow> string list \<Rightarrow> consumer \<Rightarrow> (('r, 'z) transport_scheme, unit) op" where
  "create_group srv names c =
     (if group_name c \<in> set names then ret ()
      else catch_op (bind_op (execute_stream srv (XGROUP_CREATE (group_name c))) (\<lambda>_. ret ()))
        (\<lambda>e. case e of Redis_Failed _ code \<Rightarrow> if code = Some ''BUSYGROUP'' then ret () else throw e
           | _ \<Rightarrow> throw e))"

definition ensure_groups :: "'r stream_server \<Rightarrow> (('r, 'z) transport_scheme, bool) op" where
  "ensure_groups srv =
     bind_op (execute_stream srv EXISTS) (\<lambda>existed.
     bind_op (if truthy existed then bind_op (execute_stream srv XINFO_GROUPS) (\<lambda>v. ret (group_names v))
              else ret []) (\<lambda>names.
     bind_op (each_op (create_group srv names) groups) (\<lambda>_. ret (truthy existed))))"

definition claim_entry :: "relay_claim \<Rightarrow> (string \<times> string) list" where
  "claim_entry claim =
     [(''event_id'', py_str_uuid (rlc_event_id claim)), (''event_type'', rlc_event_type claim),
      (''schema_version'', py_str_int (rlc_schema_version claim)),
      (''correlation_id'', rlc_correlation_id claim)]"

definition publish :: "'r stream_server \<Rightarrow> relay_claim \<Rightarrow> (('r, 'z) transport_scheme, string) op" where
  "publish srv claim = bind_op (execute_stream srv (XADD (claim_entry claim))) (\<lambda>v. ret (text_of v))"

definition read_new ::
  "'r stream_server \<Rightarrow> consumer \<Rightarrow> string \<Rightarrow> int \<Rightarrow> int \<Rightarrow> (('r, 'z) transport_scheme, stream_message list) op" where
  "read_new srv g consumer amount block_ms =
     bind_op (execute_stream srv (XREADGROUP (group_name g) consumer amount
       (if block_ms > 0 then Some block_ms else None))) (\<lambda>v. ret (stream_messages v))"

definition pending_page ::
  "'r stream_server \<Rightarrow> consumer \<Rightarrow> string \<Rightarrow> int \<Rightarrow> (('r, 'z) transport_scheme, pending_message list) op" where
  "pending_page srv g cursor amount =
     bind_op (execute_stream srv (XPENDING (group_name g) cursor ''+'' amount)) (\<lambda>v. ret (pending_messages v))"

definition pending_reference ::
  "'r stream_server \<Rightarrow> consumer \<Rightarrow> string \<Rightarrow> string \<Rightarrow> (('r, 'z) transport_scheme, stream_message option) op" where
  "pending_reference srv g consumer message_id =
     bind_op (execute_stream srv (XPENDING (group_name g) message_id message_id 1)) (\<lambda>v.
     case pending_messages v of [] \<Rightarrow> ret None
     | p # _ \<Rightarrow> if pm_owner p \<noteq> consumer then ret None
         else bind_op (execute_stream srv (XRANGE message_id)) (\<lambda>entries.
           ret (case claimed_messages entries of [] \<Rightarrow> None | m # _ \<Rightarrow> Some m)))"

definition claim_pending ::
  "'r stream_server \<Rightarrow> consumer \<Rightarrow> string \<Rightarrow> int \<Rightarrow> string list
     \<Rightarrow> (('r, 'z) transport_scheme, stream_message list) op" where
  "claim_pending srv g consumer min_idle_ms message_ids =
     (if message_ids = [] then ret []
      else bind_op (execute_stream srv (XCLAIM (group_name g) consumer min_idle_ms message_ids))
        (\<lambda>v. ret (claimed_messages v)))"

definition acknowledge :: "'r stream_server \<Rightarrow> consumer \<Rightarrow> string \<Rightarrow> (('r, 'z) transport_scheme, bool) op" where
  "acknowledge srv g message_id =
     bind_op (execute_stream srv (XACK (group_name g) message_id)) (\<lambda>v.
     bind_op (from_option Internal_Failure (py_int v)) (\<lambda>n. ret (n > 0)))"

definition stream_length :: "'r stream_server \<Rightarrow> (('r, 'z) transport_scheme, int) op" where
  "stream_length srv = bind_op (execute_stream srv XLEN) (\<lambda>v. from_option Internal_Failure (py_int v))"

definition pending_count :: "'r stream_server \<Rightarrow> consumer \<Rightarrow> (('r, 'z) transport_scheme, int) op" where
  "pending_count srv g =
     bind_op (execute_stream srv XINFO_GROUPS) (\<lambda>v.
     ret (case map_of (group_pending_counts v) (group_name g) of None \<Rightarrow> 0 | Some n \<Rightarrow> n))"

section \<open>What the loops rely on\<close>

text \<open>
  Redis, as documented: replies honour \<open>COUNT\<close>, \<open>XCLAIM\<close> returns entries among the ones named, and an
  \<open>XRANGE\<close> from an entry to itself returns no other.
\<close>

definition stream_laws :: "'r stream_server \<Rightarrow> bool" where
  "stream_laws srv =
     ((\<forall>g c n b r v t. srv (XREADGROUP g c n b) r = (Value_End v, t) \<longrightarrow> length (stream_messages v) \<le> nat n)
    \<and> (\<forall>g x y n r v t. srv (XPENDING g x y n) r = (Value_End v, t) \<longrightarrow> length (pending_messages v) \<le> nat n)
    \<and> (\<forall>g c i ids r v t. srv (XCLAIM g c i ids) r = (Value_End v, t)
         \<longrightarrow> sm_id ` set (claimed_messages v) \<subseteq> set ids)
    \<and> (\<forall>i r v t. srv (XRANGE i) r = (Value_End v, t) \<longrightarrow> sm_id ` set (claimed_messages v) \<subseteq> {i}))"

definition server_free :: "(('r, 'z) transport_scheme \<Rightarrow> bool) \<Rightarrow> bool" where
  "server_free I = (\<forall>s r. I s \<longrightarrow> I (s\<lparr>tp_server := r\<rparr>))"

lemma stream_lawsD:
  assumes "stream_laws srv"
  shows "srv (XREADGROUP g c n b) r = (Value_End v, t) \<Longrightarrow> length (stream_messages v) \<le> nat n"
    and "srv (XPENDING g x y n) r = (Value_End v, t) \<Longrightarrow> length (pending_messages v) \<le> nat n"
    and "srv (XCLAIM g c i ids) r = (Value_End v, t) \<Longrightarrow> sm_id ` set (claimed_messages v) \<subseteq> set ids"
    and "srv (XRANGE k) r = (Value_End v, t) \<Longrightarrow> sm_id ` set (claimed_messages v) \<subseteq> {k}"
  by (rule assms [unfolded stream_laws_def, THEN conjunct1, rule_format], assumption,
      rule assms [unfolded stream_laws_def, THEN conjunct2, THEN conjunct1, rule_format], assumption,
      rule assms [unfolded stream_laws_def, THEN conjunct2, THEN conjunct2, THEN conjunct1, rule_format], assumption,
      rule assms [unfolded stream_laws_def, THEN conjunct2, THEN conjunct2, THEN conjunct2, rule_format], assumption)

lemma worker_bounded_Inr: "worker_bounded e = Inr v \<longleftrightarrow> e = Value_End v"
  by (cases e) (simp_all add: worker_bounded_def)

lemma execute_stream_keeps:
  assumes "server_free I" and "\<And>r v t. srv cmd r = (Value_End v, t) \<Longrightarrow> law v"
  shows "triple I (execute_stream srv cmd) (\<lambda>v s. I s \<and> law v) I"
  using assms by (intro tripleI)
    (auto simp: execute_stream_def server_free_def worker_bounded_Inr split: if_splits prod.splits)

lemma execute_stream_free [triple_intros]: "server_free I \<Longrightarrow> op_keeps I (execute_stream srv cmd)"
  by (rule triple_conseq [OF execute_stream_keeps [where law = "\<lambda>_. True"]]) auto

lemma ensure_groups_keeps [triple_intros]: "server_free I \<Longrightarrow> op_keeps I (ensure_groups srv)"
  unfolding ensure_groups_def create_group_def
  by (intro triple_intros) (auto intro!: triple_intros split: worker_error.splits)

lemma acknowledge_keeps [triple_intros]: "server_free I \<Longrightarrow> op_keeps I (acknowledge srv g i)"
  unfolding acknowledge_def by (intro triple_intros) auto

lemma stream_length_keeps [triple_intros]: "server_free I \<Longrightarrow> op_keeps I (stream_length srv)"
  unfolding stream_length_def by (intro triple_intros) auto

lemma pending_count_keeps [triple_intros]: "server_free I \<Longrightarrow> op_keeps I (pending_count srv g)"
  unfolding pending_count_def by (intro triple_intros) auto

lemma read_new_keeps:
  assumes "server_free I" and "stream_laws srv"
  shows "triple I (read_new srv g c n b) (\<lambda>ms s. I s \<and> length ms \<le> nat n) I"
  unfolding read_new_def
  by (rule triple_bind [OF execute_stream_keeps [OF assms(1), where law = "\<lambda>v. length (stream_messages v) \<le> nat n"]])
    (auto intro: triple_ret stream_lawsD [OF assms(2)])

lemma pending_page_keeps:
  assumes "server_free I" and "stream_laws srv"
  shows "triple I (pending_page srv g c n) (\<lambda>ps s. I s \<and> length ps \<le> nat n) I"
  unfolding pending_page_def
  by (rule triple_bind [OF execute_stream_keeps [OF assms(1), where law = "\<lambda>v. length (pending_messages v) \<le> nat n"]])
    (auto intro: triple_ret stream_lawsD [OF assms(2)])

lemma claim_pending_keeps:
  assumes "server_free I" and "stream_laws srv"
  shows "triple I (claim_pending srv g c n ids) (\<lambda>ms s. I s \<and> sm_id ` set ms \<subseteq> set ids) I"
proof (cases "ids = []")
  case False
  show ?thesis unfolding claim_pending_def if_not_P [OF False]
    by (rule triple_bind [OF execute_stream_keeps [OF assms(1), where law = "\<lambda>v. sm_id ` set (claimed_messages v) \<subseteq> set ids"]])
      (auto intro!: triple_ret dest!: stream_lawsD(3) [OF assms(2)])
qed (simp add: claim_pending_def triple_ret)

lemma pending_reference_keeps:
  assumes "server_free I" and "stream_laws srv"
  shows "triple I (pending_reference srv g c i) (\<lambda>m s. I s \<and> sm_id ` set_option m \<subseteq> {i}) I"
proof -
  have range: "triple I (execute_stream srv (XRANGE i)) (\<lambda>v s. I s \<and> sm_id ` set (claimed_messages v) \<subseteq> {i}) I"
    by (rule execute_stream_keeps [OF assms(1)]) (rule stream_lawsD(4) [OF assms(2)])
  show ?thesis
    unfolding pending_reference_def
    by (rule keeps_bind [OF execute_stream_free [OF assms(1)]])
      (auto intro!: triple_intros triple_bind [OF range] split: list.splits)
qed

end
