(* ===== verification/Worker_Runtime.thy ===== *)
theory Worker_Runtime
  imports Worker_Streams
begin

text \<open>
  The event worker's loops (\<open>events/worker/runtime.py\<close>): the relay that publishes due deliveries, the
  recovery scan that reconciles a lost stream, and the consumer loop of a group. One iteration of a loop
  is one function from the loop's state to its next state and the pause it ends with. The database
  calls (\<open>events/worker/service.py\<close>, \<open>ConsumerExecutionService\<close>) are those of \<open>Relay\<close> and
  \<open>Delivery\<close>; what happens around them, the work of other processes, the clock, a failing connection,
  comes from an environment. Logging, the metrics loop and the test barriers are left out.
\<close>

section \<open>Environment and world\<close>

text \<open>
  How a database call ends: committed, failed with nothing of it committed, or failed with its
  outcome unknown to the worker although it did commit.
\<close>

datatype call_end = Committed | Rolled_Back worker_error | Unknown_Outcome worker_error

text \<open>
  What surrounds one database call: what others did to the database and the stream before it, how it
  ends, the database clock, the rows others hold locked, the jitter drawn, and the failures this
  process has not settled yet.
\<close>

record 'r ambient =
  am_others :: "db \<times> 'r \<Rightarrow> db \<times> 'r"
  am_end :: call_end
  am_now :: instant
  am_effect_at :: instant
  am_finished_at :: instant
  am_busy :: bool
  am_jitter :: dec
  am_locked :: "uuid \<Rightarrow> bool"
  am_unsettled :: "(attempt_claim \<times> failure) list"

text \<open>The surroundings of the \<open>n\<close>-th call, and the loop's clock in seconds when it is read \<open>n\<close>-th.\<close>

record 'r environment =
  en_call :: "nat \<Rightarrow> 'r ambient"
  en_clock :: "nat \<Rightarrow> rat"

record 'r world = "'r transport" +
  wd_db :: db
  wd_calls :: nat
  wd_cutoff :: "instant option"
  wd_backoff :: int

definition get_op :: "('s \<Rightarrow> 'a) \<Rightarrow> ('s, 'a) op" where
  "get_op f = (\<lambda>w. (Inr (f w), w))"

definition put_op :: "('s \<Rightarrow> 's) \<Rightarrow> ('s, unit) op" where
  "put_op f = (\<lambda>w. (Inr (), f w))"

lemmas [op_simps] = get_op_def put_op_def

definition db_call ::
  "'r environment \<Rightarrow> ('r ambient \<Rightarrow> db \<Rightarrow> (worker_error + 'a) \<times> db) \<Rightarrow> (('r, 'z) world_scheme, 'a) op" where
  "db_call env f = (\<lambda>w.
     let a = en_call env (wd_calls w); (s, r) = am_others a (wd_db w, tp_server w);
         w1 = w\<lparr>tp_server := r, wd_db := s, wd_calls := Suc (wd_calls w)\<rparr>;
         (x, s1) = f a s
     in case am_end a of
          Committed \<Rightarrow> (x, w1\<lparr>wd_db := s1\<rparr>)
        | Rolled_Back e \<Rightarrow> (Inl e, w1)
        | Unknown_Outcome e \<Rightarrow> (Inl e, w1\<lparr>wd_db := s1\<rparr>))"

definition loop_time :: "'r environment \<Rightarrow> (('r, 'z) world_scheme, rat) op" where
  "loop_time env = (\<lambda>w. (Inr (en_clock env (wd_calls w)), w\<lparr>wd_calls := Suc (wd_calls w)\<rparr>))"

section \<open>Settings\<close>

record worker_settings =
  wk_backoff :: backoff_settings
  wk_max_attempts :: int
  wk_claim_batch :: nat
  wk_claim_lease_seconds :: int
  wk_republish_stall_seconds :: int
  wk_recovery_batch :: nat
  wk_scan_interval_ms :: int
  wk_redis_budget_ms :: int
  wk_redis_block_ms :: int
  wk_pending_idle_ms :: int

abbreviation initial_backoff :: "worker_settings \<Rightarrow> int" where
  "initial_backoff cfg \<equiv> bo_initial_ms (wk_backoff cfg)"

definition worker_identity_ok :: "string \<Rightarrow> bool" where
  "worker_identity_ok worker_id = (length worker_id \<le> 80)"

definition worker_execution :: "worker_settings \<Rightarrow> execution_config" where
  "worker_execution cfg =
     \<lparr>cfg_max_attempts = wk_max_attempts cfg, cfg_lease_seconds = wk_claim_lease_seconds cfg,
      cfg_infrastructure_delay = of_int (initial_backoff cfg) / 1000\<rparr>"

text \<open>Errors of the modelled transactions, as the loops see them.\<close>

definition worker_error_of :: "app_error \<Rightarrow> worker_error" where
  "worker_error_of e = (case e of IntegrityError _ \<Rightarrow> Database_Failed | DataError _ \<Rightarrow> Database_Failed
     | _ \<Rightarrow> Internal_Failure)"

section \<open>Iterations\<close>

text \<open>An iteration continues, after a pause in milliseconds if any, or the cancelled loop stops.\<close>

datatype pass_end = Continue "int option" | Stopped

definition reset_backoff :: "worker_settings \<Rightarrow> (('r, 'z) world_scheme, unit) op" where
  "reset_backoff cfg = put_op (\<lambda>w. w\<lparr>wd_backoff := initial_backoff cfg\<rparr>)"

text \<open>
  Every loop handles an exception the same way: cancellation stops it; whatever else is raised, it
  waits for the current backoff, which then doubles up to its maximum.
\<close>

definition back_off :: "worker_settings \<Rightarrow> ('r, 'z) world_scheme \<Rightarrow> pass_end \<times> ('r, 'z) world_scheme" where
  "back_off cfg w = (Continue (Some (wd_backoff w)), w\<lparr>wd_backoff := next_backoff (wk_backoff cfg) (wd_backoff w)\<rparr>)"

definition guarded_pass ::
  "worker_settings \<Rightarrow> (('r, 'z) world_scheme, int option) op \<Rightarrow> ('r, 'z) world_scheme
     \<Rightarrow> pass_end \<times> ('r, 'z) world_scheme" where
  "guarded_pass cfg body w = (case body w of
      (Inr pause, w1) \<Rightarrow> (Continue pause, w1)
    | (Inl Task_Cancelled, w1) \<Rightarrow> (Stopped, w1)
    | (Inl _, w1) \<Rightarrow> back_off cfg w1)"

section \<open>Relay\<close>

definition recover_call ::
  "worker_settings \<Rightarrow> 'r ambient \<Rightarrow> db \<Rightarrow> (worker_error + int) \<times> db" where
  "recover_call cfg a s =
     (case settle_failures (worker_execution cfg) (am_jitter a) (am_now a) (am_unsettled a) s of
        Inl e \<Rightarrow> (Inl (worker_error_of e), s)
      | Inr s0 \<Rightarrow> let (n, s1) = recover_expired (worker_execution cfg) (am_locked a) (wk_recovery_batch cfg)
            (am_effect_at a) s0 in (Inr n, s1))"

definition claim_call ::
  "worker_settings \<Rightarrow> string \<Rightarrow> 'r ambient \<Rightarrow> db \<Rightarrow> (worker_error + relay_claim list) \<times> db" where
  "claim_call cfg worker_id a s =
     (let (claims, s1) = claim_due_deliveries (am_locked a) worker_id (wk_claim_batch cfg)
         (wk_claim_lease_seconds cfg) (wk_republish_stall_seconds cfg) (am_now a) s
      in (Inr claims, s1))"

definition observe_call :: "relay_claim \<Rightarrow> 'r ambient \<Rightarrow> db \<Rightarrow> (worker_error + bool) \<times> db" where
  "observe_call claim a s = (let (owned, s1) = observe_publication claim (am_now a) s in (Inr owned, s1))"

definition worker_kind_text :: "worker_failure_kind \<Rightarrow> string" where
  "worker_kind_text k = (case k of WF_Timeout \<Rightarrow> ''timeout'' | WF_Connection \<Rightarrow> ''connection''
     | WF_Command \<Rightarrow> ''command'')"

definition deferral_ms :: "worker_settings \<Rightarrow> int" where
  "deferral_ms cfg = min (max (initial_backoff cfg) (wk_redis_budget_ms cfg * 2)) (bo_max_ms (wk_backoff cfg))"

definition defer_call ::
  "worker_settings \<Rightarrow> relay_claim \<Rightarrow> worker_failure_kind \<Rightarrow> 'r ambient \<Rightarrow> db \<Rightarrow> (worker_error + bool) \<times> db" where
  "defer_call cfg claim k a s =
     (let (owned, s1) = defer_claim_after_transport_failure claim (deferral_ms cfg)
         (''redis_'' @ worker_kind_text k) (am_now a) s in (Inr owned, s1))"

text \<open>\<open>_publish_observed\<close>: whether the publication failed and the relay should back off.\<close>

definition publish_observed ::
  "worker_settings \<Rightarrow> 'r environment \<Rightarrow> 'r stream_server \<Rightarrow> relay_claim \<Rightarrow> (('r, 'z) world_scheme, bool) op" where
  "publish_observed cfg env srv claim =
     catch_op
       (bind_op (publish srv claim) (\<lambda>_. bind_op (db_call env (observe_call claim)) (\<lambda>_. ret False)))
       (\<lambda>e. case e of
          Redis_Failed k _ \<Rightarrow>
            catch_op (bind_op (db_call env (defer_call cfg claim k)) (\<lambda>_. ret True))
              (\<lambda>e2. if e2 = Database_Failed then ret True else throw e2)
        | Database_Failed \<Rightarrow> ret True
        | _ \<Rightarrow> throw e)"

text \<open>
  The publications of a batch run concurrently; they are modelled one after the other. \<open>gather\<close>
  reports the first exception while the other publications still run to their end.
\<close>

primrec publish_all ::
  "('a \<Rightarrow> ('s, bool) op) \<Rightarrow> 'a list \<Rightarrow> 's \<Rightarrow> (worker_error + bool) list \<times> 's" where
  "publish_all f [] w = ([], w)"
| "publish_all f (c # cs) w = (let (r, w1) = f c w; (rs, w2) = publish_all f cs w1 in (r # rs, w2))"

primrec gathered :: "(worker_error + 'a) list \<Rightarrow> worker_error + 'a list" where
  "gathered [] = Inr []"
| "gathered (r # rs) = bindR r (\<lambda>x. bindR (gathered rs) (\<lambda>xs. Inr (x # xs)))"

definition publish_batch ::
  "worker_settings \<Rightarrow> 'r environment \<Rightarrow> 'r stream_server \<Rightarrow> relay_claim list \<Rightarrow> (('r, 'z) world_scheme, bool list) op" where
  "publish_batch cfg env srv claims = (\<lambda>w.
     let (rs, w1) = publish_all (publish_observed cfg env srv) claims w in (gathered rs, w1))"

definition relay_body ::
  "worker_settings \<Rightarrow> 'r environment \<Rightarrow> 'r stream_server \<Rightarrow> string \<Rightarrow> (('r, 'z) world_scheme, int option) op" where
  "relay_body cfg env srv worker_id =
     bind_op (db_call env (recover_call cfg)) (\<lambda>_.
     bind_op (db_call env (claim_call cfg worker_id)) (\<lambda>claims.
     if claims = [] then bind_op (reset_backoff cfg) (\<lambda>_. ret (Some (wk_scan_interval_ms cfg)))
     else bind_op (publish_batch cfg env srv claims) (\<lambda>failures.
       if True \<in> set failures then
         bind_op (get_op wd_backoff) (\<lambda>b.
         bind_op (put_op (\<lambda>w. w\<lparr>wd_backoff := next_backoff (wk_backoff cfg) b\<rparr>)) (\<lambda>_. ret (Some b)))
       else bind_op (reset_backoff cfg) (\<lambda>_. ret None))))"

definition relay_pass ::
  "worker_settings \<Rightarrow> 'r environment \<Rightarrow> 'r stream_server \<Rightarrow> string \<Rightarrow> ('r, 'z) world_scheme
     \<Rightarrow> pass_end \<times> ('r, 'z) world_scheme" where
  "relay_pass cfg env srv worker_id = guarded_pass cfg (relay_body cfg env srv worker_id)"

section \<open>Recovery\<close>

definition time_call :: "'r ambient \<Rightarrow> db \<Rightarrow> (worker_error + instant) \<times> db" where
  "time_call a s = (Inr (am_now a), s)"

definition reset_call ::
  "worker_settings \<Rightarrow> instant \<Rightarrow> 'r ambient \<Rightarrow> db \<Rightarrow> (worker_error + int) \<times> db" where
  "reset_call cfg cutoff a s =
     (let (n, s1) = reset_observations_before (am_locked a) cutoff (wk_recovery_batch cfg) (am_now a) s
      in (Inr n, s1))"

definition counts_call :: "'r ambient \<Rightarrow> db \<Rightarrow> (worker_error + retained_work) \<times> db" where
  "counts_call a s = (Inr (retained_work_counts s), s)"

text \<open>The cutoff of a loss is taken once and kept until the loss is reconciled.\<close>

definition hold_cutoff :: "'r environment \<Rightarrow> (('r, 'z) world_scheme, instant) op" where
  "hold_cutoff env =
     bind_op (get_op wd_cutoff) (\<lambda>held. case held of
        Some t \<Rightarrow> ret t
      | None \<Rightarrow> bind_op (db_call env time_call) (\<lambda>t.
          bind_op (put_op (\<lambda>w. w\<lparr>wd_cutoff := Some t\<rparr>)) (\<lambda>_. ret t)))"

definition reconcile_before ::
  "worker_settings \<Rightarrow> 'r environment \<Rightarrow> instant \<Rightarrow> (('r, 'z) world_scheme, int) op" where
  "reconcile_before cfg env cutoff =
     bind_op (db_call env (reset_call cfg cutoff)) (\<lambda>recovered.
     bind_op (if recovered < int (wk_recovery_batch cfg) then put_op (\<lambda>w. w\<lparr>wd_cutoff := None\<rparr>) else ret ())
       (\<lambda>_. ret recovered))"

definition reconcile_stream ::
  "worker_settings \<Rightarrow> 'r environment \<Rightarrow> int \<Rightarrow> (('r, 'z) world_scheme, int) op" where
  "reconcile_stream cfg env stream_size =
     (if stream_size = 0 then bind_op (hold_cutoff env) (reconcile_before cfg env)
      else bind_op (get_op wd_cutoff) (\<lambda>held. case held of
          Some t \<Rightarrow> reconcile_before cfg env t
        | None \<Rightarrow> ret 0))"

definition recovery_body ::
  "worker_settings \<Rightarrow> 'r environment \<Rightarrow> 'r stream_server \<Rightarrow> (('r, 'z) world_scheme, int option) op" where
  "recovery_body cfg env srv =
     bind_op (ensure_groups srv) (\<lambda>_.
     bind_op (stream_length srv) (\<lambda>stream_size.
     bind_op (reconcile_stream cfg env stream_size) (\<lambda>_.
     bind_op (db_call env counts_call) (\<lambda>_.
     bind_op (each_op (\<lambda>g. bind_op (pending_count srv g) (\<lambda>_. ret ())) groups) (\<lambda>_.
     bind_op (reset_backoff cfg) (\<lambda>_. ret (Some (wk_scan_interval_ms cfg))))))))"

definition recovery_pass ::
  "worker_settings \<Rightarrow> 'r environment \<Rightarrow> 'r stream_server \<Rightarrow> ('r, 'z) world_scheme
     \<Rightarrow> pass_end \<times> ('r, 'z) world_scheme" where
  "recovery_pass cfg env srv = guarded_pass cfg (recovery_body cfg env srv)"


section \<open>Assertions about the loops' own variables\<close>

definition world_free :: "(('r, 'z) world_scheme \<Rightarrow> bool) \<Rightarrow> bool" where
  "world_free I = (\<forall>s r d n. I s \<longrightarrow> I (s\<lparr>tp_server := r\<rparr>) \<and> I (s\<lparr>wd_db := d\<rparr>) \<and> I (s\<lparr>wd_calls := n\<rparr>))"

lemma world_free_server [triple_intros]: "world_free I \<Longrightarrow> server_free I"
  by (simp add: world_free_def server_free_def)

lemma db_call_keeps [triple_intros]: "world_free I \<Longrightarrow> op_keeps I (db_call env f)"
  by (intro tripleI) (auto simp: db_call_def world_free_def Let_def split: prod.splits call_end.splits)

lemma loop_time_keeps [triple_intros]: "world_free I \<Longrightarrow> op_keeps I (loop_time env)"
  by (intro tripleI) (auto simp: loop_time_def world_free_def)

lemma triple_get [triple_intros]: "(\<And>s. P s \<Longrightarrow> Q (f s) s) \<Longrightarrow> triple P (get_op f) Q R"
  by (simp add: triple_def get_op_def)

lemma triple_put [triple_intros]: "(\<And>s. P s \<Longrightarrow> Q () (f s)) \<Longrightarrow> triple P (put_op f) Q R"
  by (simp add: triple_def put_op_def)

lemma triple_bind_get:
  "(\<And>x. triple (\<lambda>s. P s \<and> f s = x) (m x) Q R) \<Longrightarrow> triple P (bind_op (get_op f) m) Q R"
  by (rule triple_bind [where Q = "\<lambda>x s. P s \<and> f s = x"]) (auto intro: triple_get)

definition backoff_ok :: "worker_settings \<Rightarrow> int \<Rightarrow> bool" where
  "backoff_ok cfg b = (initial_backoff cfg \<le> b \<and> b \<le> bo_max_ms (wk_backoff cfg))"

lemma next_backoff_ok:
  "initial_backoff cfg \<le> bo_max_ms (wk_backoff cfg) \<Longrightarrow> backoff_ok cfg (next_backoff (wk_backoff cfg) b)"
  by (auto simp: backoff_ok_def next_backoff_def)

lemma guarded_pass_keeps:
  assumes "op_keeps I body" and "\<And>s. I s \<Longrightarrow> I (s\<lparr>wd_backoff := next_backoff (wk_backoff cfg) (wd_backoff s)\<rparr>)"
    and "I w" and "guarded_pass cfg body w = (r, w')"
  shows "I w'"
proof (cases "body w")
  case (Pair x v)
  then have "I v" using triple_Inl [OF assms(1,3)] triple_Inr [OF assms(1,3)] by (cases x) auto
  then show ?thesis using assms(2,4) Pair
    by (auto simp: guarded_pass_def back_off_def split: sum.splits worker_error.splits)
qed

section \<open>A sample configuration\<close>

definition demo_settings :: worker_settings where
  "demo_settings = \<lparr>wk_backoff = \<lparr>bo_initial_ms = 100, bo_max_ms = 5000\<rparr>, wk_max_attempts = 8, wk_claim_batch = 10,
     wk_claim_lease_seconds = 30, wk_republish_stall_seconds = 60, wk_recovery_batch = 2, wk_scan_interval_ms = 1000,
     wk_redis_budget_ms = 500, wk_redis_block_ms = 1000, wk_pending_idle_ms = 30000\<rparr>"

end
