(* ===== verification/Worker_Consumer.thy ===== *)
theory Worker_Consumer
  imports Worker_Runtime
begin

text \<open>
  The loop of one consumer group (\<open>EventWorker._consumer_loop\<close> and its helpers in
  \<open>events/worker/runtime.py\<close>): references whose routing failed are retried before anything else is
  read, references whose delivery was locked are revisited a bounded number of times, abandoned
  references are claimed from the group's pending list, and new ones are read. The properties bound what
  the loop keeps in memory.
\<close>

section \<open>State\<close>

record reference_retry =
  rr_failure_count :: int
  rr_ready_at :: rat

text \<open>The loop's local variables; the two dicts keep the order in which their keys were inserted.\<close>

record 'r consumer_world = "'r world" +
  cw_cursor :: string
  cw_retries :: "(string \<times> reference_retry) list"
  cw_busy :: "(string \<times> reference_retry) list"

definition fresh_consumer :: "worker_settings \<Rightarrow> 'r \<Rightarrow> db \<Rightarrow> 'r consumer_world" where
  "fresh_consumer cfg server s =
     \<lparr>tp_open = True, tp_server = server, wd_db = s, wd_calls = 0, wd_cutoff = None,
      wd_backoff = initial_backoff cfg, cw_cursor = ''-'', cw_retries = [], cw_busy = []\<rparr>"

definition worker_consumer :: "string \<Rightarrow> consumer \<Rightarrow> string" where
  "worker_consumer worker_id g = worker_id @ ''.'' @ group_name g"

text \<open>What the loop catches around one reference; anything else ends the iteration.\<close>

definition routing_failure :: "worker_error \<Rightarrow> bool" where
  "routing_failure e = (case e of Redis_Failed _ _ \<Rightarrow> True | Database_Failed \<Rightarrow> True | OS_Failed \<Rightarrow> True
     | Timed_Out \<Rightarrow> True | Dependency_Down \<Rightarrow> True | Task_Cancelled \<Rightarrow> False | Internal_Failure \<Rightarrow> False)"

section \<open>Routing a reference\<close>

definition reference_of :: "(string \<times> string) list \<Rightarrow> reference" where
  "reference_of fs =
     \<lparr>ref_event_id = map_of fs ''event_id'', ref_event_type = map_of fs ''event_type'',
      ref_schema_version = map_of fs ''schema_version'', ref_correlation_id = map_of fs ''correlation_id''\<rparr>"

definition execute_call ::
  "worker_settings \<Rightarrow> registry \<Rightarrow> uuid \<Rightarrow> consumer \<Rightarrow> reference \<Rightarrow> string \<Rightarrow> 'r ambient \<Rightarrow> db
     \<Rightarrow> (worker_error + execution_result) \<times> db" where
  "execute_call cfg registry event_id g ref worker_id a s =
     (case execute registry (worker_execution cfg) event_id g ref worker_id (am_busy a) (am_jitter a)
         (am_now a) (am_effect_at a) (am_finished_at a) (am_unsettled a) s of
        Inl e \<Rightarrow> (Inl (worker_error_of e), s)
      | Inr (Inl _, s1) \<Rightarrow> (Inl Dependency_Down, s1)
      | Inr (Inr r, s1) \<Rightarrow> (Inr r, s1))"

definition route_message ::
  "worker_settings \<Rightarrow> 'r environment \<Rightarrow> 'r stream_server \<Rightarrow> registry \<Rightarrow> string \<Rightarrow> consumer \<Rightarrow> stream_message
     \<Rightarrow> (('r, 'z) world_scheme, bool) op" where
  "route_message cfg env srv registry worker_id g message =
     (case parse_uuid (case map_of (sm_fields message) ''event_id'' of None \<Rightarrow> [] | Some t \<Rightarrow> t) of
        None \<Rightarrow> ret False
      | Some event_id \<Rightarrow>
          bind_op (db_call env (execute_call cfg registry event_id g (reference_of (sm_fields message)) worker_id))
          (\<lambda>result.
          bind_op (if er_acknowledge result then bind_op (acknowledge srv g (sm_id message)) (\<lambda>_. ret ())
                   else ret ()) (\<lambda>_.
          ret (er_outcome result = ''delivery_missing_or_busy''))))"

text \<open>
  The inner \<open>route\<close>: a reference whose delivery was missing or locked is revisited at most 20 times,
  and only while there is room for it.
\<close>

definition route_reference ::
  "worker_settings \<Rightarrow> 'r environment \<Rightarrow> 'r stream_server \<Rightarrow> registry \<Rightarrow> string \<Rightarrow> consumer \<Rightarrow> stream_message
     \<Rightarrow> int \<Rightarrow> ('r consumer_world, unit) op" where
  "route_reference cfg env srv registry worker_id g message busy_count =
     bind_op (route_message cfg env srv registry worker_id g message) (\<lambda>busy.
     bind_op (get_op (\<lambda>w. length (cw_busy w))) (\<lambda>resident.
     if busy \<and> busy_count + 1 \<le> 20 \<and> resident < wk_recovery_batch cfg then
       bind_op (loop_time env) (\<lambda>now. put_op (\<lambda>w. w\<lparr>cw_busy := AList.update (sm_id message)
         \<lparr>rr_failure_count = busy_count + 1,
          rr_ready_at = now + of_int (busy_retry_delay (busy_count + 1)) / 1000\<rparr> (cw_busy w)\<rparr>))
     else ret ()))"

definition schedule_retry ::
  "worker_settings \<Rightarrow> 'r environment \<Rightarrow> string \<Rightarrow> ('r consumer_world, unit) op" where
  "schedule_retry cfg env message_id =
     bind_op (get_op (\<lambda>w. case map_of (cw_retries w) message_id of None \<Rightarrow> 1
       | Some previous \<Rightarrow> rr_failure_count previous + 1)) (\<lambda>n.
     bind_op (loop_time env) (\<lambda>now. put_op (\<lambda>w. w\<lparr>cw_retries := AList.update message_id
       \<lparr>rr_failure_count = n,
        rr_ready_at = now + of_int (reference_retry_delay (wk_backoff cfg) n) / 1000\<rparr> (cw_retries w)\<rparr>)))"

text \<open>One reference in its handler; the result tells whether it went through.\<close>

definition try_reference ::
  "worker_settings \<Rightarrow> 'r environment \<Rightarrow> string \<Rightarrow> ('r consumer_world, unit) op \<Rightarrow> ('r consumer_world, bool) op" where
  "try_reference cfg env message_id m =
     catch_op (bind_op m (\<lambda>_. ret True))
       (\<lambda>e. if routing_failure e then bind_op (schedule_retry cfg env message_id) (\<lambda>_. ret False) else throw e)"

text \<open>A known reference is loaded again, and routed while this consumer still owns it.\<close>

definition fetch_reference ::
  "worker_settings \<Rightarrow> 'r environment \<Rightarrow> 'r stream_server \<Rightarrow> string \<Rightarrow> consumer \<Rightarrow> string
     \<Rightarrow> ('r consumer_world, stream_message option option) op" where
  "fetch_reference cfg env srv worker_id g message_id =
     catch_op (bind_op (pending_reference srv g (worker_consumer worker_id g) message_id) (\<lambda>m. ret (Some m)))
       (\<lambda>e. if routing_failure e then bind_op (schedule_retry cfg env message_id) (\<lambda>_. ret None) else throw e)"

definition revisit ::
  "worker_settings \<Rightarrow> 'r environment \<Rightarrow> 'r stream_server \<Rightarrow> registry \<Rightarrow> string \<Rightarrow> consumer \<Rightarrow> string \<Rightarrow> int
     \<Rightarrow> ('r consumer_world, bool) op" where
  "revisit cfg env srv registry worker_id g message_id busy_count =
     bind_op (fetch_reference cfg env srv worker_id g message_id) (\<lambda>found. case found of
        None \<Rightarrow> ret False
      | Some None \<Rightarrow> ret True
      | Some (Some message) \<Rightarrow> try_reference cfg env (sm_id message)
          (route_reference cfg env srv registry worker_id g message busy_count))"

section \<open>One iteration\<close>

text \<open>The entry that is ready first; the first one of several, as Python's \<open>min\<close>.\<close>

definition first_ready :: "(string \<times> reference_retry) list \<Rightarrow> string \<times> reference_retry" where
  "first_ready entries = arg_min_list (\<lambda>entry. rr_ready_at (snd entry)) entries"

definition py_trunc :: "rat \<Rightarrow> int" where
  "py_trunc q = (if 0 \<le> q then \<lfloor>q\<rfloor> else \<lceil>q\<rceil>)"

definition retry_step ::
  "worker_settings \<Rightarrow> 'r environment \<Rightarrow> 'r stream_server \<Rightarrow> registry \<Rightarrow> string \<Rightarrow> consumer
     \<Rightarrow> string \<times> reference_retry \<Rightarrow> ('r consumer_world, int option) op" where
  "retry_step cfg env srv registry worker_id g entry = (case entry of (message_id, retry) \<Rightarrow>
     bind_op (loop_time env) (\<lambda>now.
     let remaining_ms = max 0 (py_trunc ((rr_ready_at retry - now) * 1000)) in
     if remaining_ms \<noteq> 0 then ret (Some remaining_ms)
     else bind_op (revisit cfg env srv registry worker_id g message_id 0) (\<lambda>through.
       bind_op (if through then put_op (\<lambda>w. w\<lparr>cw_retries := AList.delete message_id (cw_retries w)\<rparr>) else ret ())
       (\<lambda>_. bind_op (reset_backoff cfg) (\<lambda>_. ret None)))))"

definition busy_step ::
  "worker_settings \<Rightarrow> 'r environment \<Rightarrow> 'r stream_server \<Rightarrow> registry \<Rightarrow> string \<Rightarrow> consumer
     \<Rightarrow> ('r consumer_world, unit) op" where
  "busy_step cfg env srv registry worker_id g =
     bind_op (get_op cw_busy) (\<lambda>busy.
     if busy = [] then ret ()
     else case first_ready busy of (message_id, retry) \<Rightarrow>
       bind_op (loop_time env) (\<lambda>now.
       if rr_ready_at retry \<le> now then
         bind_op (put_op (\<lambda>w. w\<lparr>cw_busy := AList.delete message_id (cw_busy w)\<rparr>)) (\<lambda>_.
         bind_op (revisit cfg env srv registry worker_id g message_id (rr_failure_count retry)) (\<lambda>_. ret ()))
       else ret ()))"

definition claim_abandoned ::
  "worker_settings \<Rightarrow> 'r stream_server \<Rightarrow> string \<Rightarrow> consumer \<Rightarrow> pending_message list
     \<Rightarrow> (('r, 'z) transport_scheme, stream_message list) op" where
  "claim_abandoned cfg srv worker_id g pending =
     claim_pending srv g (worker_consumer worker_id g) (wk_pending_idle_ms cfg)
       (map pm_id (filter (\<lambda>p. pm_idle_ms p \<ge> wk_pending_idle_ms cfg) pending))"

text \<open>Routes the references of a reply, each in its own handler.\<close>

definition route_each ::
  "worker_settings \<Rightarrow> 'r environment \<Rightarrow> 'r stream_server \<Rightarrow> registry \<Rightarrow> string \<Rightarrow> consumer
     \<Rightarrow> stream_message list \<Rightarrow> ('r consumer_world, unit) op" where
  "route_each cfg env srv registry worker_id g =
     each_op (\<lambda>message. bind_op (try_reference cfg env (sm_id message)
       (route_reference cfg env srv registry worker_id g message 0)) (\<lambda>_. ret ()))"

definition pending_step ::
  "worker_settings \<Rightarrow> 'r environment \<Rightarrow> 'r stream_server \<Rightarrow> registry \<Rightarrow> string \<Rightarrow> consumer
     \<Rightarrow> ('r consumer_world, unit) op" where
  "pending_step cfg env srv registry worker_id g =
     bind_op (get_op cw_cursor) (\<lambda>cursor.
     bind_op (pending_page srv g cursor (int (wk_recovery_batch cfg))) (\<lambda>pending.
     if pending = [] then put_op (\<lambda>w. w\<lparr>cw_cursor := ''-''\<rparr>)
     else
       bind_op (put_op (\<lambda>w. w\<lparr>cw_cursor := CHR ''('' # pm_id (last pending)\<rparr>)) (\<lambda>_.
       bind_op (claim_abandoned cfg srv worker_id g pending) (\<lambda>messages.
       each_op (\<lambda>message.
         bind_op (get_op (\<lambda>w. map_of (cw_busy w) (sm_id message) \<noteq> None)) (\<lambda>resident.
         if resident then ret () else route_each cfg env srv registry worker_id g [message])) messages))))"

text \<open>The read blocks at most until the first busy reference is to be revisited.\<close>

definition block_time ::
  "worker_settings \<Rightarrow> 'r environment \<Rightarrow> ('r consumer_world, int) op" where
  "block_time cfg env =
     bind_op (get_op cw_busy) (\<lambda>busy.
     if busy = [] then ret (wk_redis_block_ms cfg)
     else bind_op (loop_time env) (\<lambda>now.
       ret (min (wk_redis_block_ms cfg)
         (max 0 \<lceil>(Min ((\<lambda>entry. rr_ready_at (snd entry)) ` set busy) - now) * 1000\<rceil>))))"

definition read_step ::
  "worker_settings \<Rightarrow> 'r environment \<Rightarrow> 'r stream_server \<Rightarrow> registry \<Rightarrow> string \<Rightarrow> consumer
     \<Rightarrow> ('r consumer_world, int option) op" where
  "read_step cfg env srv registry worker_id g =
     bind_op (block_time cfg env) (\<lambda>block_ms.
     bind_op (read_new srv g (worker_consumer worker_id g) (int (wk_recovery_batch cfg)) block_ms) (\<lambda>messages.
     bind_op (route_each cfg env srv registry worker_id g messages) (\<lambda>_.
     bind_op (reset_backoff cfg) (\<lambda>_. ret None))))"

definition consumer_body ::
  "worker_settings \<Rightarrow> 'r environment \<Rightarrow> 'r stream_server \<Rightarrow> registry \<Rightarrow> string \<Rightarrow> consumer
     \<Rightarrow> ('r consumer_world, int option) op" where
  "consumer_body cfg env srv registry worker_id g =
     bind_op (ensure_groups srv) (\<lambda>_.
     bind_op (get_op cw_retries) (\<lambda>retries.
     if retries \<noteq> [] then retry_step cfg env srv registry worker_id g (first_ready retries)
     else
       bind_op (busy_step cfg env srv registry worker_id g) (\<lambda>_.
       bind_op (get_op cw_retries) (\<lambda>retries.
       if retries \<noteq> [] then ret None
       else
         bind_op (pending_step cfg env srv registry worker_id g) (\<lambda>_.
         bind_op (get_op cw_retries) (\<lambda>retries.
         if retries \<noteq> [] then ret None
         else read_step cfg env srv registry worker_id g))))))"

definition consumer_pass ::
  "worker_settings \<Rightarrow> 'r environment \<Rightarrow> 'r stream_server \<Rightarrow> registry \<Rightarrow> string \<Rightarrow> consumer \<Rightarrow> 'r consumer_world
     \<Rightarrow> pass_end \<times> 'r consumer_world" where
  "consumer_pass cfg env srv registry worker_id g =
     guarded_pass cfg (consumer_body cfg env srv registry worker_id g)"

text \<open>The loop's states after any number of iterations.\<close>

primrec consumer_run ::
  "worker_settings \<Rightarrow> 'r environment \<Rightarrow> 'r stream_server \<Rightarrow> registry \<Rightarrow> string \<Rightarrow> consumer \<Rightarrow> nat
     \<Rightarrow> 'r consumer_world \<Rightarrow> 'r consumer_world" where
  "consumer_run cfg env srv registry worker_id g 0 w = w"
| "consumer_run cfg env srv registry worker_id g (Suc n) w =
     consumer_run cfg env srv registry worker_id g n (snd (consumer_pass cfg env srv registry worker_id g w))"


section \<open>What the loop keeps in memory\<close>

text \<open>
  The invariant of an iteration: \<open>K\<close> are the identities of references that may be waiting for a retry.
\<close>

definition busy_ok :: "worker_settings \<Rightarrow> (string \<times> reference_retry) list \<Rightarrow> bool" where
  "busy_ok cfg busy = (length busy \<le> wk_recovery_batch cfg \<and> distinct (map fst busy)
     \<and> (\<forall>(i, r) \<in> set busy. 1 \<le> rr_failure_count r \<and> rr_failure_count r \<le> 20))"

definition loop_inv :: "worker_settings \<Rightarrow> string set \<Rightarrow> 'r consumer_world \<Rightarrow> bool" where
  "loop_inv cfg K w = (busy_ok cfg (cw_busy w) \<and> distinct (map fst (cw_retries w))
     \<and> fst ` set (cw_retries w) \<subseteq> K \<and> backoff_ok cfg (wd_backoff w))"

lemma loop_inv_free [triple_intros]: "world_free (loop_inv cfg K)"
  by (simp add: world_free_def loop_inv_def)

lemma fst_set_update: "fst ` set (AList.update k v xs) = insert k (fst ` set xs)"
  by (induction xs) auto

lemma length_retry_update: "length (AList.update k v xs) \<le> Suc (length xs)"
  by (induction xs) auto

lemma set_alist_update: "set (AList.update k v xs) \<subseteq> insert (k, v) (set xs)"
  by (induction xs) auto

lemma busy_ok_update:
  assumes "busy_ok cfg busy" and "length busy < wk_recovery_batch cfg" and "1 \<le> n" "n \<le> 20"
  shows "busy_ok cfg (AList.update i \<lparr>rr_failure_count = n, rr_ready_at = q\<rparr> busy)"
  using assms length_retry_update [of i "\<lparr>rr_failure_count = n, rr_ready_at = q\<rparr>" busy]
    set_alist_update [of i "\<lparr>rr_failure_count = n, rr_ready_at = q\<rparr>" busy]
  by (auto simp: busy_ok_def intro: distinct_update)

lemma set_alist_delete: "set (AList.delete k xs) \<subseteq> set xs"
  by (auto simp: AList.delete_eq)

lemma busy_ok_delete: "busy_ok cfg busy \<Longrightarrow> busy_ok cfg (AList.delete i busy)"
  using length_delete_le [of i busy] distinct_delete [of busy i] set_alist_delete [of i busy]
  by (auto simp: busy_ok_def)

lemma schedule_retry_keeps [triple_intros]:
  assumes "i \<in> K"
  shows "op_keeps (loop_inv cfg K) (schedule_retry cfg env i)"
  unfolding schedule_retry_def
  by (intro triple_intros) (use assms in \<open>auto simp: loop_inv_def fst_set_update intro: distinct_update\<close>)

lemma try_reference_keeps:
  assumes "op_keeps (loop_inv cfg K) m" and "i \<in> K"
  shows "op_keeps (loop_inv cfg K) (try_reference cfg env i m)"
  unfolding try_reference_def by (intro triple_intros assms) auto

lemma route_message_keeps: "world_free I \<Longrightarrow> op_keeps I (route_message cfg env srv registry worker_id g m)"
  unfolding route_message_def by (intro triple_intros) auto

lemma route_reference_keeps:
  assumes "0 \<le> n"
  shows "op_keeps (loop_inv cfg K) (route_reference cfg env srv registry worker_id g m n)"
proof -
  have rest: "triple (\<lambda>s. loop_inv cfg K s \<and> length (cw_busy s) = k)
      (if b \<and> n + 1 \<le> 20 \<and> k < wk_recovery_batch cfg then
         bind_op (loop_time env) (\<lambda>now. put_op (\<lambda>w. w\<lparr>cw_busy := AList.update (sm_id m)
           \<lparr>rr_failure_count = n + 1, rr_ready_at = now + of_int (busy_retry_delay (n + 1)) / 1000\<rparr> (cw_busy w)\<rparr>))
       else ret ()) (\<lambda>_. loop_inv cfg K) (loop_inv cfg K)" for b k
  proof (rule triple_if)
    assume b: "b \<and> n + 1 \<le> 20 \<and> k < wk_recovery_batch cfg"
    show "triple (\<lambda>s. loop_inv cfg K s \<and> length (cw_busy s) = k)
       (bind_op (loop_time env) (\<lambda>now. put_op (\<lambda>w. w\<lparr>cw_busy := AList.update (sm_id m)
           \<lparr>rr_failure_count = n + 1, rr_ready_at = now + of_int (busy_retry_delay (n + 1)) / 1000\<rparr> (cw_busy w)\<rparr>)))
       (\<lambda>_. loop_inv cfg K) (loop_inv cfg K)"
      by (rule triple_bind [where Q = "\<lambda>_ s. loop_inv cfg K s \<and> length (cw_busy s) = k"])
        (use b assms in \<open>auto simp: loop_inv_def loop_time_def triple_def put_op_def intro!: busy_ok_update distinct_update\<close>)
  qed (auto intro: triple_ret)
  show ?thesis
    unfolding route_reference_def
    by (rule triple_bind [OF route_message_keeps [OF loop_inv_free]]) (rule triple_bind_get, rule rest)
qed

lemma revisit_keeps:
  assumes "stream_laws srv" and "i \<in> K" and "0 \<le> n"
  shows "op_keeps (loop_inv cfg K) (revisit cfg env srv registry worker_id g i n)"
proof -
  note free = world_free_server [OF loop_inv_free]
  have fetch: "triple (loop_inv cfg K) (fetch_reference cfg env srv worker_id g i)
      (\<lambda>found s. loop_inv cfg K s \<and> (\<forall>m. found = Some (Some m) \<longrightarrow> sm_id m = i)) (loop_inv cfg K)"
    unfolding fetch_reference_def
    by (rule keeps_catch, rule triple_bind [OF pending_reference_keeps [OF free assms(1)]])
      (auto intro!: triple_intros assms(2) triple_bind [OF schedule_retry_keeps])
  show ?thesis
    unfolding revisit_def
  proof (rule triple_bind [OF fetch])
    fix found :: "stream_message option option"
    show "triple (\<lambda>s. loop_inv cfg K s \<and> (\<forall>m. found = Some (Some m) \<longrightarrow> sm_id m = i))
        (case found of None \<Rightarrow> ret False | Some None \<Rightarrow> ret True
         | Some (Some message) \<Rightarrow> try_reference cfg env (sm_id message)
             (route_reference cfg env srv registry worker_id g message n)) (\<lambda>_. loop_inv cfg K) (loop_inv cfg K)"
      by (rule triple_fact, cases found rule: option.exhaust)
        (auto split: option.split intro!: triple_ret try_reference_keeps route_reference_keeps assms(2,3))
  qed
qed


lemma first_ready_member: "entries \<noteq> [] \<Longrightarrow> first_ready entries \<in> set entries"
  unfolding first_ready_def by (rule arg_min_list_in)

definition bounded_loop :: "worker_settings \<Rightarrow> 'r consumer_world \<Rightarrow> bool" where
  "bounded_loop cfg w = (\<exists>K. finite K \<and> card K \<le> wk_recovery_batch cfg \<and> loop_inv cfg K w)"

lemma bounded_loopI: "loop_inv cfg K w \<Longrightarrow> finite K \<Longrightarrow> card K \<le> wk_recovery_batch cfg \<Longrightarrow> bounded_loop cfg w"
  by (auto simp: bounded_loop_def)

lemma bounded_loop_free [triple_intros]: "world_free (bounded_loop cfg)"
  by (simp add: world_free_def bounded_loop_def loop_inv_def)

lemma loop_inv_mono: "loop_inv cfg K w \<Longrightarrow> K \<subseteq> L \<Longrightarrow> loop_inv cfg L w"
  by (auto simp: loop_inv_def)

lemma loop_inv_exact: "bounded_loop cfg w \<Longrightarrow> loop_inv cfg (fst ` set (cw_retries w)) w"
  by (auto simp: bounded_loop_def loop_inv_def)

lemma bounded_retries: "bounded_loop cfg w \<Longrightarrow> card (fst ` set (cw_retries w)) \<le> wk_recovery_batch cfg"
  by (auto simp: bounded_loop_def loop_inv_def intro: card_mono order_trans)

lemma bounded_from:
  assumes "op_keeps (loop_inv cfg K) m" and "finite K" "card K \<le> wk_recovery_batch cfg"
    and "\<And>w. P w \<Longrightarrow> loop_inv cfg K w"
  shows "triple P m (\<lambda>_. bounded_loop cfg) (bounded_loop cfg)"
  by (rule triple_conseq [OF assms(1)])
    (erule assms(4), (erule bounded_loopI, rule assms(2), rule assms(3))+)

lemma reset_backoff_keeps:
  "initial_backoff cfg \<le> bo_max_ms (wk_backoff cfg) \<Longrightarrow> op_keeps (loop_inv cfg K) (reset_backoff cfg)"
  unfolding reset_backoff_def by (intro triple_intros) (auto simp: loop_inv_def backoff_ok_def)

lemma delete_retry_keeps:
  "op_keeps (loop_inv cfg K) (put_op (\<lambda>w. w\<lparr>cw_retries := AList.delete i (cw_retries w)\<rparr>))"
  by (intro triple_intros)
    (use set_alist_delete [of i] in \<open>auto simp: loop_inv_def distinct_delete\<close>)

lemma retry_step_keeps:
  assumes "stream_laws srv" and "initial_backoff cfg \<le> bo_max_ms (wk_backoff cfg)" and "fst entry \<in> K"
  shows "op_keeps (loop_inv cfg K) (retry_step cfg env srv registry worker_id g entry)"
proof (cases entry)
  case (Pair i r)
  show ?thesis
    unfolding retry_step_def Pair prod.case Let_def
    by (intro triple_intros revisit_keeps [OF assms(1)] delete_retry_keeps reset_backoff_keeps assms(2))
      (use assms(3) Pair in auto)
qed

lemma busy_step_keeps:
  assumes "stream_laws srv" and "0 < wk_recovery_batch cfg"
  shows "triple (loop_inv cfg {}) (busy_step cfg env srv registry worker_id g)
    (\<lambda>_. bounded_loop cfg) (bounded_loop cfg)"
proof -
  have step: "triple (\<lambda>w. loop_inv cfg {} w \<and> cw_busy w = busy)
      (case first_ready busy of (i, retry) \<Rightarrow> bind_op (loop_time env) (\<lambda>now.
         if rr_ready_at retry \<le> now then
           bind_op (put_op (\<lambda>w. w\<lparr>cw_busy := AList.delete i (cw_busy w)\<rparr>)) (\<lambda>_.
           bind_op (revisit cfg env srv registry worker_id g i (rr_failure_count retry)) (\<lambda>_. ret ()))
         else ret ())) (\<lambda>_. bounded_loop cfg) (bounded_loop cfg)"
    if "busy \<noteq> []" for busy
  proof (cases "first_ready busy")
    case (Pair i r)
    show ?thesis
    proof (cases "busy_ok cfg busy")
      case True
      then have n: "0 \<le> rr_failure_count r"
        using first_ready_member [OF that] Pair by (force simp: busy_ok_def)
      show ?thesis
        unfolding Pair prod.case
        by (rule bounded_from [where K = "{i}"])
          (use assms n in \<open>auto intro!: triple_intros revisit_keeps simp: loop_inv_def busy_ok_delete\<close>)
    qed (auto simp: triple_def loop_inv_def)
  qed
  have "triple (\<lambda>w. loop_inv cfg {} w \<and> cw_busy w = busy) (ret ()) (\<lambda>_. bounded_loop cfg) (bounded_loop cfg)" for busy
    by (rule bounded_from [where K = "{}"]) (auto intro: triple_ret)
  with step show ?thesis
    unfolding busy_step_def by (auto intro!: triple_bind_get triple_if)
qed

lemma route_each_keeps:
  assumes "sm_id ` set ms \<subseteq> K"
  shows "op_keeps (loop_inv cfg K) (route_each cfg env srv registry worker_id g ms)"
  unfolding route_each_def
  by (intro triple_intros try_reference_keeps route_reference_keeps) (use assms in auto)

lemma card_ids: "length xs \<le> n \<Longrightarrow> card (f ` set xs) \<le> n"
  by (meson card_image_le card_length le_trans List.finite_set)

lemma pending_step_keeps:
  assumes "stream_laws srv"
  shows "triple (loop_inv cfg {}) (pending_step cfg env srv registry worker_id g)
    (\<lambda>_. bounded_loop cfg) (bounded_loop cfg)"
proof -
  note free = world_free_server [OF loop_inv_free]
  have err: "loop_inv cfg {} w \<Longrightarrow> bounded_loop cfg w" for w by (rule bounded_loopI [where K = "{}"]) auto
  have claims: "triple (loop_inv cfg {})
      (bind_op (claim_abandoned cfg srv worker_id g ps) (\<lambda>messages.
       each_op (\<lambda>message.
         bind_op (get_op (\<lambda>w. map_of (cw_busy w) (sm_id message) \<noteq> None)) (\<lambda>resident.
         if resident then ret () else route_each cfg env srv registry worker_id g [message])) messages))
      (\<lambda>_. bounded_loop cfg) (bounded_loop cfg)" if len: "length ps \<le> wk_recovery_batch cfg" for ps
  proof -
    let ?K = "set (map pm_id (filter (\<lambda>p. pm_idle_ms p \<ge> wk_pending_idle_ms cfg) ps))"
    have k: "finite ?K" "card ?K \<le> wk_recovery_batch cfg"
      using card_ids [of "filter (\<lambda>p. pm_idle_ms p \<ge> wk_pending_idle_ms cfg) ps" "wk_recovery_batch cfg" pm_id]
        length_filter_le [of "\<lambda>p. pm_idle_ms p \<ge> wk_pending_idle_ms cfg" ps] len by auto
    have "op_keeps (loop_inv cfg ?K)
      (bind_op (claim_abandoned cfg srv worker_id g ps) (\<lambda>messages.
       each_op (\<lambda>message.
         bind_op (get_op (\<lambda>w. map_of (cw_busy w) (sm_id message) \<noteq> None)) (\<lambda>resident.
         if resident then ret () else route_each cfg env srv registry worker_id g [message])) messages))"
      unfolding claim_abandoned_def
      by (rule triple_bind [OF claim_pending_keeps [OF free assms]], rule triple_fact, rule triple_each)
        (auto intro!: triple_intros route_each_keeps)
    then show ?thesis by (rule bounded_from [OF _ k]) (auto elim: loop_inv_mono)
  qed
  show ?thesis
    unfolding pending_step_def
  proof (rule triple_bind_get, rule triple_bind)
    fix cursor
    show "triple (\<lambda>w. loop_inv cfg {} w \<and> cw_cursor w = cursor) (pending_page srv g cursor (int (wk_recovery_batch cfg)))
        (\<lambda>ps w. loop_inv cfg {} w \<and> length ps \<le> wk_recovery_batch cfg) (bounded_loop cfg)"
      by (rule triple_conseq [OF pending_page_keeps [OF free assms]]) (auto intro: err)
  next
    fix ps :: "pending_message list"
    let ?after = "bind_op (claim_abandoned cfg srv worker_id g ps) (\<lambda>messages.
       each_op (\<lambda>message.
         bind_op (get_op (\<lambda>w. map_of (cw_busy w) (sm_id message) \<noteq> None)) (\<lambda>resident.
         if resident then ret () else route_each cfg env srv registry worker_id g [message])) messages)"
    show "triple (\<lambda>w. loop_inv cfg {} w \<and> length ps \<le> wk_recovery_batch cfg)
        (if ps = [] then put_op (\<lambda>w. w\<lparr>cw_cursor := ''-''\<rparr>)
         else bind_op (put_op (\<lambda>w. w\<lparr>cw_cursor := CHR ''('' # pm_id (last ps)\<rparr>)) (\<lambda>_. ?after))
        (\<lambda>_. bounded_loop cfg) (bounded_loop cfg)"
    proof (rule triple_fact, rule triple_if)
      assume "length ps \<le> wk_recovery_batch cfg"
      then show "triple (loop_inv cfg {}) (bind_op (put_op (\<lambda>w. w\<lparr>cw_cursor := CHR ''('' # pm_id (last ps)\<rparr>)) (\<lambda>_. ?after))
        (\<lambda>_. bounded_loop cfg) (bounded_loop cfg)"
        by (intro triple_bind [where Q = "\<lambda>_. loop_inv cfg {}"] claims triple_put) (simp add: loop_inv_def)
    qed (auto intro!: triple_put err simp: loop_inv_def)
  qed
qed


lemma read_step_keeps:
  assumes "stream_laws srv" and "initial_backoff cfg \<le> bo_max_ms (wk_backoff cfg)"
  shows "triple (loop_inv cfg {}) (read_step cfg env srv registry worker_id g)
    (\<lambda>_. bounded_loop cfg) (bounded_loop cfg)"
proof -
  note free = world_free_server [OF loop_inv_free]
  have err: "loop_inv cfg {} w \<Longrightarrow> bounded_loop cfg w" for w by (rule bounded_loopI [where K = "{}"]) auto
  have block: "op_keeps (loop_inv cfg {}) (block_time cfg env)"
    unfolding block_time_def by (intro triple_intros) auto
  have routes: "triple (loop_inv cfg {})
      (bind_op (route_each cfg env srv registry worker_id g ms) (\<lambda>_. bind_op (reset_backoff cfg) (\<lambda>_. ret None)))
      (\<lambda>_. bounded_loop cfg) (bounded_loop cfg)" if "length ms \<le> wk_recovery_batch cfg" for ms
    by (rule bounded_from [where K = "sm_id ` set ms"], intro triple_intros route_each_keeps reset_backoff_keeps)
      (use assms(2) card_ids [OF that] in \<open>auto elim: loop_inv_mono\<close>)
  have page: "triple (loop_inv cfg {})
      (bind_op (read_new srv g (worker_consumer worker_id g) (int (wk_recovery_batch cfg)) block_ms)
        (\<lambda>ms. bind_op (route_each cfg env srv registry worker_id g ms) (\<lambda>_. bind_op (reset_backoff cfg) (\<lambda>_. ret None))))
      (\<lambda>_. bounded_loop cfg) (bounded_loop cfg)" for block_ms
  proof (rule triple_bind)
    show "triple (loop_inv cfg {}) (read_new srv g (worker_consumer worker_id g) (int (wk_recovery_batch cfg)) block_ms)
        (\<lambda>ms w. loop_inv cfg {} w \<and> length ms \<le> wk_recovery_batch cfg) (bounded_loop cfg)"
      by (rule triple_conseq [OF read_new_keeps [OF free assms(1)]]) (auto intro: err)
  qed (rule triple_fact, rule routes)
  have "triple (loop_inv cfg {}) (block_time cfg env) (\<lambda>_. loop_inv cfg {}) (bounded_loop cfg)"
    by (rule triple_conseq [OF block]) (auto intro: err)
  then show ?thesis unfolding read_step_def by (rule triple_bind) (rule page)
qed

text \<open>Reading the retries: either none is waiting, or the loop turns to the first one.\<close>

lemma bounded_get_retries:
  assumes "triple (loop_inv cfg {}) m (\<lambda>_. bounded_loop cfg) (bounded_loop cfg)"
    and "\<And>rs. rs \<noteq> [] \<Longrightarrow> card (fst ` set rs) \<le> wk_recovery_batch cfg \<Longrightarrow>
      triple (loop_inv cfg (fst ` set rs)) (n rs) (\<lambda>_. bounded_loop cfg) (bounded_loop cfg)"
  shows "triple (bounded_loop cfg) (bind_op (get_op cw_retries) (\<lambda>rs. if rs \<noteq> [] then n rs else m))
    (\<lambda>_. bounded_loop cfg) (bounded_loop cfg)"
proof (rule triple_bind_get)
  fix rs :: "(string \<times> reference_retry) list"
  have pre: "loop_inv cfg (fst ` set rs) w" "card (fst ` set rs) \<le> wk_recovery_batch cfg"
    if "bounded_loop cfg w \<and> cw_retries w = rs" for w
    using that loop_inv_exact bounded_retries by blast+
  show "triple (\<lambda>w. bounded_loop cfg w \<and> cw_retries w = rs) (if rs \<noteq> [] then n rs else m)
      (\<lambda>_. bounded_loop cfg) (bounded_loop cfg)"
  proof (cases "rs = []")
    case True
    with pre(1) show ?thesis by (auto intro: triple_conseq [OF assms(1)])
  next
    case False
    show ?thesis
    proof (cases "card (fst ` set rs) \<le> wk_recovery_batch cfg")
      case True
      show ?thesis using False pre(1) by (auto intro: triple_conseq [OF assms(2) [OF False True]])
    qed (use pre(2) in \<open>auto simp: triple_def\<close>)
  qed
qed

lemma consumer_body_keeps:
  assumes "stream_laws srv" and "0 < wk_recovery_batch cfg" and "initial_backoff cfg \<le> bo_max_ms (wk_backoff cfg)"
  shows "op_keeps (bounded_loop cfg) (consumer_body cfg env srv registry worker_id g)"
proof -
  have stop: "triple (loop_inv cfg (fst ` set rs)) (ret (None :: int option)) (\<lambda>_. bounded_loop cfg) (bounded_loop cfg)"
    if "card (fst ` set rs) \<le> wk_recovery_batch cfg" for rs :: "(string \<times> reference_retry) list"
    by (rule bounded_from [OF triple_ret]) (use that in auto)
  have retry: "triple (loop_inv cfg (fst ` set rs)) (retry_step cfg env srv registry worker_id g (first_ready rs))
      (\<lambda>_. bounded_loop cfg) (bounded_loop cfg)"
    if "rs \<noteq> []" "card (fst ` set rs) \<le> wk_recovery_batch cfg" for rs
    by (rule bounded_from [OF retry_step_keeps [OF assms(1,3)]]) (use that first_ready_member in auto)
  have ensure: "op_keeps (bounded_loop cfg) (ensure_groups srv)" by (intro triple_intros)
  show ?thesis
    unfolding consumer_body_def
    by (rule keeps_bind [OF ensure], rule bounded_get_retries [OF _ retry],
        rule triple_bind [OF busy_step_keeps [OF assms(1,2)]],
        rule bounded_get_retries [OF _ stop], rule triple_bind [OF pending_step_keeps [OF assms(1)]],
        rule bounded_get_retries [OF read_step_keeps [OF assms(1,3)] stop])
qed

lemma consumer_run_bounded:
  assumes "stream_laws srv" and "0 < wk_recovery_batch cfg" and "initial_backoff cfg \<le> bo_max_ms (wk_backoff cfg)"
  shows "bounded_loop cfg w \<Longrightarrow> bounded_loop cfg (consumer_run cfg env srv registry worker_id g n w)"
proof (induction n arbitrary: w)
  case (Suc n)
  obtain r w' where p: "consumer_pass cfg env srv registry worker_id g w = (r, w')" by force
  have "bounded_loop cfg w'"
    by (rule guarded_pass_keeps [OF consumer_body_keeps [OF assms] _ Suc.prems p [unfolded consumer_pass_def]])
      (use next_backoff_ok [OF assms(3)] in \<open>auto simp: bounded_loop_def loop_inv_def\<close>)
  with Suc.IH p show ?case by simp
qed simp


section \<open>Properties\<close>

text \<open>
  C20. The consumer loop keeps bounded state. After any number of iterations, whatever the database, the
  stream and other processes do in between, the references waiting for a retry and the ones to be
  revisited are each at most a recovery batch, a busy reference is revisited at most 20 times before it is
  left to the pending list, and the backoff stays between its initial and its maximal value. The server
  is only assumed to honour the counts and identities of the commands.
\<close>

theorem worker_loop_is_bounded:
  assumes "stream_laws srv" and "0 < wk_recovery_batch cfg" and "initial_backoff cfg \<le> bo_max_ms (wk_backoff cfg)"
    and "v = consumer_run cfg env srv registry worker_id g n (fresh_consumer cfg server s)"
  shows "length (cw_retries v) \<le> wk_recovery_batch cfg \<and> length (cw_busy v) \<le> wk_recovery_batch cfg
    \<and> (\<forall>(i, r) \<in> set (cw_busy v). 1 \<le> rr_failure_count r \<and> rr_failure_count r \<le> 20)
    \<and> initial_backoff cfg \<le> wd_backoff v \<and> wd_backoff v \<le> bo_max_ms (wk_backoff cfg)"
proof -
  have "loop_inv cfg {} (fresh_consumer cfg server s)"
    using assms(3) by (simp add: loop_inv_def busy_ok_def backoff_ok_def fresh_consumer_def)
  then have "bounded_loop cfg v"
    unfolding assms(4) by (intro consumer_run_bounded [OF assms(1-3)]) (erule bounded_loopI, simp_all)
  moreover from this have "length (cw_retries v) = card (fst ` set (cw_retries v))"
    by (auto simp: bounded_loop_def loop_inv_def dest: distinct_card)
  ultimately show ?thesis using bounded_retries [of cfg v]
    by (auto simp: bounded_loop_def loop_inv_def busy_ok_def backoff_ok_def)
qed

text \<open>A stream that offers one reference, and a database that is out of reach.\<close>

definition demo_entry :: py_value where
  "demo_entry = Py_List [Py_Tuple [Py_Str ''stream'',
     Py_List [Py_Tuple [Py_Str ''1-0'', Py_Dict [(Py_Str ''event_id'', Py_Str (py_str_uuid 1))]]]]]"

definition demo_stream :: "unit stream_server" where
  "demo_stream cmd r = (Value_End (case cmd of EXISTS \<Rightarrow> Py_Int 0 | XGROUP_CREATE _ \<Rightarrow> Py_Str ''OK''
     | XREADGROUP _ _ n _ \<Rightarrow> if n < 1 then Py_List [] else demo_entry | _ \<Rightarrow> Py_List []), r)"

definition demo_outage :: "unit environment" where
  "demo_outage = \<lparr>en_call = (\<lambda>_. \<lparr>am_others = (\<lambda>x. x), am_end = Rolled_Back Database_Failed, am_now = 0,
     am_effect_at = 0, am_finished_at = 0, am_busy = False, am_jitter = 0, am_locked = (\<lambda>_. False),
     am_unsettled = []\<rparr>), en_clock = (\<lambda>n. of_nat n)\<rparr>"

abbreviation demo_consumer :: "unit consumer_world" where
  "demo_consumer \<equiv> consumer_run demo_settings demo_outage demo_stream (\<lambda>_. None) ''w1'' Alerts 1
     (fresh_consumer demo_settings () empty_db)"

lemma demo_entry_messages: "length (stream_messages demo_entry) = 1" by code_simp

lemma demo_stream_laws: "stream_laws demo_stream"
  by (auto simp: stream_laws_def demo_stream_def demo_entry_messages stream_messages_def
      [of "Py_List []"] claimed_messages_def [of "Py_List []"] pending_messages_def [of "Py_List []"]
      elements_def map_filter_simps split: if_splits)

lemma demo_consumer_run: "map (\<lambda>(i, r). (i, rr_failure_count r)) (cw_retries demo_consumer) = [(''1-0'', 1)]"
  by code_simp

theorem worker_loop_is_bounded_witness:
  "cw_retries demo_consumer \<noteq> [] \<and> length (cw_retries demo_consumer) \<le> 2 \<and> wd_backoff demo_consumer \<le> 5000"
  using worker_loop_is_bounded [OF demo_stream_laws, of demo_settings demo_consumer demo_outage "\<lambda>_. None" "''w1''"
      Alerts 1 "()" empty_db] demo_consumer_run
  by (auto simp: demo_settings_def)

end
