(* ===== verification/Worker_Recovery.thy ===== *)
theory Worker_Recovery
  imports Worker_Runtime Delivery_Properties
begin

text \<open>
  What the recovery loop of the worker achieves after the stream was lost: its passes reset every
  observation of a publication made before the loss, a batch at a time, and only then let go of the
  cutoff.
\<close>

section \<open>One reset\<close>

definition reset_row :: "delivery \<Rightarrow> delivery" where
  "reset_row d = (clear_claim d)\<lparr>dlv_published_at := None, dlv_last_error_category := Some ''redis_stream_recovered''\<rparr>"

text \<open>A pending delivery whose publication was observed before the cutoff.\<close>

definition lost_row :: "instant \<Rightarrow> delivery \<Rightarrow> bool" where
  "lost_row cutoff d = (dlv_status d = Pending
     \<and> (case dlv_published_at d of None \<Rightarrow> False | Some p \<Rightarrow> p \<le> cutoff))"

definition lost_total :: "instant \<Rightarrow> db \<Rightarrow> nat" where
  "lost_total cutoff s = length (filter (lost_row cutoff) (deliveries s))"

definition free_now :: "instant \<Rightarrow> delivery \<Rightarrow> bool" where
  "free_now now d = (dlv_next_attempt_at d \<le> now \<and> claim_lapsed now d)"

lemma free_now_later: "free_now now d \<Longrightarrow> now \<le> t1 \<Longrightarrow> free_now t1 d"
  by (auto simp: free_now_def claim_lapsed_def split: option.splits)

lemma reset_row_simps [simp]: "dlv_id (reset_row d) = dlv_id d" "\<not> lost_row cutoff (reset_row d)"
  by (simp_all add: reset_row_def clear_claim_def lost_row_def)

lemma reset_effect:
  assumes "unique_keys dlv_id (deliveries s)" and "\<And>i. \<not> locked i"
    and "reset_observations_before locked cutoff n now s = (k, t)"
  obtains rows where "k = int (length rows)" "length rows \<le> n" "distinct rows" "set rows \<subseteq> set (deliveries s)"
    "\<forall>d \<in> set rows. lost_row cutoff d"
    "deliveries t = map (\<lambda>d. if d \<in> set rows then reset_row d else d) (deliveries s)"
    "length rows < n \<Longrightarrow> \<forall>d \<in> set (deliveries s). lost_row cutoff d \<and> free_now now d \<longrightarrow> d \<in> set rows"
proof (rule that)
  let ?all = "filter (\<lambda>d. dlv_status d = Pending \<and> dlv_next_attempt_at d \<le> now
          \<and> (case dlv_published_at d of None \<Rightarrow> False | Some p \<Rightarrow> p \<le> cutoff)
          \<and> claim_lapsed now d \<and> \<not> locked (dlv_id d)) (deliveries s)"
  let ?rows = "lost_observations locked cutoff n now s"
  let ?sorted = "sort_key (\<lambda>d. (case dlv_published_at d of None \<Rightarrow> 0 | Some p \<Rightarrow> p, dlv_id d)) ?all"
  have rows: "?rows = take n ?sorted" by (simp add: lost_observations_def)
  have ids: "distinct (map dlv_id ?rows)"
    unfolding rows by (rule selected_rows(1) [OF assms(1)])
  then show "distinct ?rows" by (simp add: distinct_map)
  have sub: "set ?rows \<subseteq> set ?all" unfolding rows by (auto dest: in_set_takeD)
  then show in_s: "set ?rows \<subseteq> set (deliveries s)" and "\<forall>d \<in> set ?rows. lost_row cutoff d"
    by (auto simp: lost_row_def)
  show "k = int (length ?rows)" and "length ?rows \<le> n"
    using assms(3) by (simp_all add: reset_observations_before_def Let_def rows)
  have "t = fold (\<lambda>d. save_delivery (reset_row d)) ?rows s"
    using assms(3) by (simp add: reset_observations_before_def Let_def reset_row_def)
  then show "deliveries t = map (\<lambda>d. if d \<in> set ?rows then reset_row d else d) (deliveries s)"
    using fold_stored_rows [OF _ _ assms(1) in_s ids, of "\<lambda>d. save_delivery (reset_row d)" reset_row]
    by (simp add: save_delivery_def)
  show "\<forall>d \<in> set (deliveries s). lost_row cutoff d \<and> free_now now d \<longrightarrow> d \<in> set ?rows" if "length ?rows < n"
  proof -
    have "set ?rows = set ?all" using that by (simp add: rows)
    then show ?thesis using assms(2) by (auto simp: lost_row_def free_now_def)
  qed
qed

lemma reset_counts:
  assumes "\<forall>d \<in> R. lost_row cutoff d"
  shows "length (filter (lost_row cutoff) (map (\<lambda>d. if d \<in> R then reset_row d else d) xs))
    + length (filter (\<lambda>d. d \<in> R) xs) = length (filter (lost_row cutoff) xs)"
  using assms by (induction xs) auto

lemma length_filter_members:
  assumes "distinct rows" and "distinct xs" and "set rows \<subseteq> set xs"
  shows "length (filter (\<lambda>d. d \<in> set rows) xs) = length rows"
proof -
  have "set (filter (\<lambda>d. d \<in> set rows) xs) = set rows" using assms(3) by auto
  then show ?thesis using assms(1,2) by (metis distinct_card distinct_filter)
qed

section \<open>Passes in a quiet system\<close>

text \<open>
  Nobody else writes, every call commits, no row is locked; the server answers every command, and the
  stream is empty.
\<close>

definition quiet :: "'r environment \<Rightarrow> bool" where
  "quiet env = (\<forall>n. (\<forall>x. am_others (en_call env n) x = x) \<and> am_end (en_call env n) = Committed
     \<and> (\<forall>i. \<not> am_locked (en_call env n) i))"

definition empty_stream :: "'r stream_server \<Rightarrow> bool" where
  "empty_stream srv = ((\<forall>cmd r. \<exists>v t. srv cmd r = (Value_End v, t)) \<and> (\<forall>r. fst (srv XLEN r) = Value_End (Py_Int 0)))"

text \<open>An operation that succeeds and touches only the server.\<close>

definition answers :: "(('r, 'z) transport_scheme, 'a) op \<Rightarrow> bool" where
  "answers m = (\<forall>w. tp_open w \<longrightarrow> (\<exists>x r. m w = (Inr x, w\<lparr>tp_server := r\<rparr>)))"

lemma answers_ret: "answers (ret x)"
  unfolding answers_def ret_def
proof (intro allI impI)
  fix w :: "('r, 'z) transport_scheme"
  show "\<exists>y r. (Inr x, w) = (Inr y, w\<lparr>tp_server := r\<rparr>)"
    by (intro exI [of _ x] exI [of _ "tp_server w"]) simp
qed

lemma answers_bind:
  assumes "answers m" and "\<And>x. answers (f x)"
  shows "answers (bind_op m f)"
  unfolding answers_def
proof (intro allI impI)
  fix w :: "('a, 'b) transport_scheme"
  assume w: "tp_open w"
  obtain x r where m: "m w = (Inr x, w\<lparr>tp_server := r\<rparr>)" using assms(1) w unfolding answers_def by blast
  have "tp_open (w\<lparr>tp_server := r\<rparr>)" using w by simp
  then obtain y q where "f x (w\<lparr>tp_server := r\<rparr>) = (Inr y, w\<lparr>tp_server := r, tp_server := q\<rparr>)"
    using assms(2) unfolding answers_def by blast
  then show "\<exists>y q. bind_op m f w = (Inr y, w\<lparr>tp_server := q\<rparr>)"
    by (intro exI [of _ y] exI [of _ q]) (simp add: bind_op_def m)
qed

lemma answers_catch: "answers m \<Longrightarrow> answers (catch_op m h)"
  unfolding answers_def catch_op_def by fastforce

lemma answers_each: "(\<And>x. answers (f x)) \<Longrightarrow> answers (each_op f xs)"
  by (induction xs) (auto intro: answers_ret answers_bind)

lemma answers_execute:
  assumes "empty_stream srv"
  shows "answers (execute_stream srv cmd)"
  unfolding answers_def
proof (intro allI impI)
  fix w :: "('a, 'b) transport_scheme"
  assume w: "tp_open w"
  obtain v t where "srv cmd (tp_server w) = (Value_End v, t)" using assms unfolding empty_stream_def by blast
  then show "\<exists>x r. execute_stream srv cmd w = (Inr x, w\<lparr>tp_server := r\<rparr>)"
    using w by (intro exI [of _ v] exI [of _ t]) (simp add: execute_stream_def worker_bounded_def)
qed

lemma answers_ensure: "empty_stream srv \<Longrightarrow> answers (ensure_groups srv)"
  unfolding ensure_groups_def create_group_def
  by (intro answers_bind answers_execute answers_each) (auto intro!: answers_bind answers_execute answers_ret answers_catch)

lemma answers_count: "empty_stream srv \<Longrightarrow> answers (pending_count srv g)"
  unfolding pending_count_def by (intro answers_bind answers_execute answers_ret)

lemma stream_length_zero:
  assumes "empty_stream srv" and "tp_open w"
  obtains r where "stream_length srv w = (Inr 0, w\<lparr>tp_server := r\<rparr>)"
proof -
  obtain v t where s: "srv XLEN (tp_server w) = (Value_End v, t)" using assms(1) unfolding empty_stream_def by blast
  have "v = Py_Int 0" using assms(1) s unfolding empty_stream_def by (metis fst_conv worker_driver_end.inject(1))
  then show ?thesis using that [of t] assms(2) s
    by (simp add: stream_length_def bind_op_def execute_stream_def worker_bounded_def from_option_def ret_def py_int_def)
qed

lemma quiet_call:
  assumes "quiet env"
  shows "db_call env f w = (let (x, t) = f (en_call env (wd_calls w)) (wd_db w)
    in (x, w\<lparr>wd_db := t, wd_calls := Suc (wd_calls w)\<rparr>))"
  using assms by (simp add: quiet_def db_call_def Let_def split: prod.split)

definition held_cutoff :: "'r environment \<Rightarrow> ('r, 'z) world_scheme \<Rightarrow> instant" where
  "held_cutoff env w = (case wd_cutoff w of Some t \<Rightarrow> t | None \<Rightarrow> am_now (en_call env (wd_calls w)))"

abbreviation reset_at :: "worker_settings \<Rightarrow> 'r environment \<Rightarrow> nat \<Rightarrow> instant \<Rightarrow> db \<Rightarrow> int \<times> db" where
  "reset_at cfg env k cutoff s \<equiv> reset_observations_before (am_locked (en_call env k)) cutoff
     (wk_recovery_batch cfg) (am_now (en_call env k)) s"

lemma reconcile_quiet:
  assumes "quiet env"
  shows "\<exists>k. reconcile_stream cfg env 0 w
    = (let (n, t) = reset_at cfg env k (held_cutoff env w) (wd_db w) in
       (Inr n, w\<lparr>wd_db := t, wd_calls := Suc k, wd_cutoff :=
         (if n < int (wk_recovery_batch cfg) then None else Some (held_cutoff env w))\<rparr>))"
proof (cases "wd_cutoff w")
  case None
  show ?thesis
    by (rule exI [of _ "Suc (wd_calls w)"])
      (simp add: reconcile_stream_def hold_cutoff_def reconcile_before_def bind_op_def op_simps
        quiet_call [OF assms] time_call_def reset_call_def held_cutoff_def None split: prod.split)
next
  case (Some t)
  show ?thesis
    by (rule exI [of _ "wd_calls w"])
      (simp add: reconcile_stream_def hold_cutoff_def reconcile_before_def bind_op_def op_simps
        quiet_call [OF assms] reset_call_def held_cutoff_def Some split: prod.split)
qed

lemma recovery_pass_quiet:
  assumes "quiet env" and "empty_stream srv" and "tp_open w"
  obtains k n t w' where "recovery_pass cfg env srv w = (Continue (Some (wk_scan_interval_ms cfg)), w')"
    "reset_at cfg env k (held_cutoff env w) (wd_db w) = (n, t)" "wd_db w' = t" "tp_open w'"
    "wd_cutoff w' = (if n < int (wk_recovery_batch cfg) then None else Some (held_cutoff env w))"
proof -
  obtain x r where e: "ensure_groups srv w = (Inr x, w\<lparr>tp_server := r\<rparr>)"
    using answers_ensure [OF assms(2)] assms(3) unfolding answers_def by blast
  let ?w1 = "w\<lparr>tp_server := r\<rparr>"
  obtain r2 where l: "stream_length srv ?w1 = (Inr 0, ?w1\<lparr>tp_server := r2\<rparr>)"
    using stream_length_zero [OF assms(2), of ?w1] assms(3) by auto
  let ?w2 = "?w1\<lparr>tp_server := r2\<rparr>"
  obtain k where k: "reconcile_stream cfg env 0 ?w2
    = (let (n, t) = reset_at cfg env k (held_cutoff env ?w2) (wd_db ?w2) in
       (Inr n, ?w2\<lparr>wd_db := t, wd_calls := Suc k, wd_cutoff :=
         (if n < int (wk_recovery_batch cfg) then None else Some (held_cutoff env ?w2))\<rparr>))"
    using reconcile_quiet [OF assms(1)] by blast
  obtain n t where nt: "reset_at cfg env k (held_cutoff env w) (wd_db w) = (n, t)" by force
  have held: "held_cutoff env ?w2 = held_cutoff env w" by (simp add: held_cutoff_def split: option.split)
  let ?w3 = "?w2\<lparr>wd_db := t, wd_calls := Suc k, wd_cutoff :=
         (if n < int (wk_recovery_batch cfg) then None else Some (held_cutoff env w))\<rparr>"
  let ?w4 = "?w3\<lparr>wd_calls := Suc (Suc k)\<rparr>"
  have counts: "\<exists>x. db_call env counts_call ?w3 = (Inr x, ?w4)"
    by (simp add: quiet_call [OF assms(1)] counts_call_def)
  have "answers (each_op (\<lambda>g. bind_op (pending_count srv g) (\<lambda>_. ret ())) groups)"
    by (intro answers_each answers_bind answers_count answers_ret assms(2))
  then have "tp_open ?w4 \<Longrightarrow> \<exists>y r5. each_op (\<lambda>g. bind_op (pending_count srv g) (\<lambda>_. ret ())) groups ?w4
      = (Inr y, ?w4\<lparr>tp_server := r5\<rparr>)"
    unfolding answers_def by blast
  moreover have "tp_open ?w4" using assms(3) by simp
  ultimately obtain y r5 where p: "each_op (\<lambda>g. bind_op (pending_count srv g) (\<lambda>_. ret ())) groups ?w4
      = (Inr y, ?w4\<lparr>tp_server := r5\<rparr>)" by blast
  show ?thesis
  proof (rule that)
    show "recovery_pass cfg env srv w = (Continue (Some (wk_scan_interval_ms cfg)),
        ?w4\<lparr>tp_server := r5, wd_backoff := initial_backoff cfg\<rparr>)"
      using e l k counts p nt held
      by (auto simp: recovery_pass_def guarded_pass_def recovery_body_def bind_op_def reset_backoff_def op_simps Let_def)
  qed (use nt assms(3) in auto)
qed


primrec recovery_run ::
  "worker_settings \<Rightarrow> 'r environment \<Rightarrow> 'r stream_server \<Rightarrow> nat \<Rightarrow> ('r, 'z) world_scheme \<Rightarrow> ('r, 'z) world_scheme" where
  "recovery_run cfg env srv 0 w = w"
| "recovery_run cfg env srv (Suc n) w = recovery_run cfg env srv n (snd (recovery_pass cfg env srv w))"

section \<open>Properties\<close>



text \<open>One delivery was published at 5; the stream is found empty at 10.\<close>

definition demo_lost :: delivery where
  "demo_lost = \<lparr>dlv_id = 1, dlv_event_id = 1, dlv_consumer = Alerts, dlv_status = Pending, dlv_attempt_count = 0,
     dlv_retry_cycle = 0, dlv_next_attempt_at = 1, dlv_published_at = Some 5, dlv_claim_token = None,
     dlv_claim_owner = None, dlv_claimed_at = None, dlv_claim_expires_at = None, dlv_last_error_category = None,
     dlv_created_at = 0\<rparr>"

definition demo_loss :: "unit world" where
  "demo_loss = \<lparr>tp_open = True, tp_server = (), wd_db = empty_db\<lparr>deliveries := [demo_lost]\<rparr>, wd_calls = 0,
     wd_cutoff = None, wd_backoff = 100\<rparr>"

definition demo_calm :: "'r environment" where
  "demo_calm = \<lparr>en_call = (\<lambda>_. \<lparr>am_others = (\<lambda>x. x), am_end = Committed, am_now = 10, am_effect_at = 10,
     am_finished_at = 10, am_busy = False, am_jitter = 0, am_locked = (\<lambda>_. False), am_unsettled = []\<rparr>),
     en_clock = (\<lambda>_. 0)\<rparr>"

definition demo_empty :: "unit stream_server" where
  "demo_empty cmd r = (Value_End (case cmd of XLEN \<Rightarrow> Py_Int 0 | _ \<Rightarrow> Py_List []), r)"


end
