(* ===== verification/Worker_Relay.thy ===== *)
theory Worker_Relay
  imports Worker_Consumer Worker_Recovery Consumers
begin

text \<open>
  What the relay promises about the stream: a delivery is marked as published only after its reference
  was accepted by the stream. The invariant is kept by every pass of the relay and of the recovery loop,
  in any order, as long as the other processes keep it too.
\<close>

section \<open>Published deliveries and the stream\<close>

text \<open>
  \<open>view\<close> reads from a server's state the references its stream holds; deliveries that are marked as
  published have theirs among them.
\<close>

definition reference_on_stream :: "('r \<Rightarrow> reference set) \<Rightarrow> db \<Rightarrow> 'r \<Rightarrow> uuid \<Rightarrow> bool" where
  "reference_on_stream view s r event_id =
     (\<exists>e. outbox_event_by_id s event_id = Some e \<and> (\<exists>ref \<in> view r. reference_matches ref e))"

definition published_on_stream :: "('r \<Rightarrow> reference set) \<Rightarrow> db \<Rightarrow> 'r \<Rightarrow> bool" where
  "published_on_stream view s r =
     (\<forall>d \<in> set (deliveries s). dlv_published_at d \<noteq> None \<longrightarrow> reference_on_stream view s r (dlv_event_id d))"

text \<open>\<open>XADD\<close> without a length limit, as documented: it appends the entry it answers for; no command of the worker removes an entry.\<close>

definition append_laws :: "('r \<Rightarrow> reference set) \<Rightarrow> 'r stream_server \<Rightarrow> bool" where
  "append_laws view srv =
     ((\<forall>cmd r e t. srv cmd r = (e, t) \<longrightarrow> view r \<subseteq> view t)
    \<and> (\<forall>fs r v t. srv (XADD fs) r = (Value_End v, t) \<longrightarrow> reference_of fs \<in> view t))"

text \<open>
  What the other processes may do between two calls: they keep the invariant, the stream's entries, the
  recorded events and the identity of the deliveries.
\<close>

definition others_ok :: "('r \<Rightarrow> reference set) \<Rightarrow> db \<times> 'r \<Rightarrow> db \<times> 'r \<Rightarrow> bool" where
  "others_ok view before after =
     ((published_on_stream view (fst before) (snd before) \<longrightarrow> published_on_stream view (fst after) (snd after))
    \<and> (unique_keys dlv_id (deliveries (fst before)) \<longrightarrow> unique_keys dlv_id (deliveries (fst after)))
    \<and> (\<forall>d \<in> set (deliveries (fst before)). \<exists>d' \<in> set (deliveries (fst after)).
         dlv_id d' = dlv_id d \<and> dlv_event_id d' = dlv_event_id d)
    \<and> (\<forall>i e. outbox_event_by_id (fst before) i = Some e \<longrightarrow> outbox_event_by_id (fst after) i = Some e)
    \<and> view (snd before) \<subseteq> view (snd after))"

definition fair_environment :: "('r \<Rightarrow> reference set) \<Rightarrow> 'r environment \<Rightarrow> bool" where
  "fair_environment view env = (\<forall>n x. others_ok view x (am_others (en_call env n) x))"

section \<open>Calls that publish nothing\<close>

definition follows :: "db \<Rightarrow> db \<Rightarrow> bool" where
  "follows s t = (outbox_events t = outbox_events s
     \<and> map dlv_id (deliveries t) = map dlv_id (deliveries s)
     \<and> (\<forall>d' \<in> set (deliveries t). \<exists>d \<in> set (deliveries s). dlv_id d' = dlv_id d \<and> dlv_event_id d' = dlv_event_id d
          \<and> (dlv_published_at d' \<noteq> None \<longrightarrow> dlv_published_at d \<noteq> None)))"

lemma follows_refl [simp]: "follows s s"
  by (auto simp: follows_def)

lemma follows_trans: "follows s t \<Longrightarrow> follows t u \<Longrightarrow> follows s u"
  unfolding follows_def by (metis (no_types, lifting))

lemma follows_same: "deliveries t = deliveries s \<Longrightarrow> outbox_events t = outbox_events s \<Longrightarrow> follows s t"
  by (auto simp: follows_def)

lemma follows_save:
  assumes "d \<in> set (deliveries s)" and "dlv_id d' = dlv_id d" "dlv_event_id d' = dlv_event_id d"
    and "dlv_published_at d' \<noteq> None \<longrightarrow> dlv_published_at d \<noteq> None"
  shows "follows s (save_delivery d' s)"
  unfolding follows_def save_delivery_def using assms by (auto dest!: in_store_row)

lemma follows_update:
  assumes "\<And>d. dlv_id (f d) = dlv_id d" "\<And>d. dlv_event_id (f d) = dlv_event_id d"
    and "\<And>d. dlv_published_at (f d) \<noteq> None \<Longrightarrow> dlv_published_at d \<noteq> None"
  shows "follows s (s\<lparr>deliveries := update_where P f (deliveries s)\<rparr>)"
  unfolding follows_def using assms by (auto simp: update_where_def)

lemma follows_map:
  assumes "deliveries t = map f (deliveries s)" and "outbox_events t = outbox_events s"
    and "\<And>d. dlv_id (f d) = dlv_id d" "\<And>d. dlv_event_id (f d) = dlv_event_id d"
    and "\<And>d. dlv_published_at (f d) \<noteq> None \<Longrightarrow> dlv_published_at d \<noteq> None"
  shows "follows s t"
  unfolding follows_def assms(1,2) using assms(3-5) by auto

lemma finish_failure_follows:
  assumes "finish_failure cfg claim failure jitter now s = Inr (r, t)"
  shows "follows s t"
proof (cases "lock_delivery s (env_event_id (cl_event claim)) (cl_consumer claim)")
  case (Some d)
  then have "d \<in> set (deliveries s)" by (auto dest: lock_delivery_Some)
  then have "follows s (save_attempt a (save_delivery d' s))"
    if "dlv_id d' = dlv_id d" "dlv_event_id d' = dlv_event_id d" "dlv_published_at d' = None" for a d'
    using that by (intro follows_trans [OF follows_save follows_same]) (auto simp: save_attempt_def)
  then show ?thesis
    using assms Some by (auto simp: finish_failure_def Let_def res_simps clear_claim_def split: if_splits)
qed (use assms in \<open>simp add: finish_failure_def\<close>)

lemma settle_failures_follows:
  assumes "settle_failures cfg jitter now unsettled s = Inr t"
  shows "follows s t"
  using assms unfolding settle_failures_def
proof (rule for_each_invariant)
  fix x u v
  assume "follows s u" and step: "(case x of (claim, failure) \<Rightarrow> \<lambda>s.
      bindR (finish_failure cfg claim failure jitter now s) (\<lambda>(_, s1). Inr s1)) u = Inr v"
  then show "follows s v" by (cases x) (auto simp: res_simps dest: finish_failure_follows intro: follows_trans)
qed simp

lemma fold_keeps_events:
  "(\<And>d u. outbox_events (g d u) = outbox_events u) \<Longrightarrow> outbox_events (fold g ds s) = outbox_events s"
  by (induction ds arbitrary: s) simp_all

lemma fold_stored_follows:
  assumes "\<And>d s. deliveries (g d s) = store_row dlv_id (f d) (deliveries s)"
    and "\<And>d s. outbox_events (g d s) = outbox_events s"
    and "\<And>d. dlv_id (f d) = dlv_id d" "\<And>d. dlv_event_id (f d) = dlv_event_id d" "\<And>d. dlv_published_at (f d) = None"
    and "unique_keys dlv_id (deliveries s)" and "set ds \<subseteq> set (deliveries s)" and "distinct (map dlv_id ds)"
  shows "follows s (fold g ds s)"
  by (rule follows_map [OF fold_stored_rows [OF assms(1,3,6-8)] fold_keeps_events [OF assms(2)]])
    (use assms(3-5) in \<open>auto split: if_splits\<close>)

lemma recover_expired_follows:
  assumes "unique_keys dlv_id (deliveries s)" and "recover_expired cfg locked n now s = (k, t)"
  shows "follows s t"
proof -
  have rows: "set (expired_deliveries locked n now s) \<subseteq> set (deliveries s)"
    "distinct (map dlv_id (expired_deliveries locked n now s))"
    unfolding expired_deliveries_def by (auto dest: in_set_takeD) (rule selected_rows(1) [OF assms(1)])
  have "t = fold (recover_delivery cfg now) (expired_deliveries locked n now s) s"
    using assms(2) by (simp add: recover_expired_def Let_def)
  then show ?thesis
    using fold_stored_follows [OF _ _ _ _ _ assms(1) rows, of "recover_delivery cfg now" "recovered_row cfg now"]
    by (simp add: recover_delivery_def recovered_row_def clear_claim_def save_delivery_def interrupt_attempts_def)
qed

lemma reset_follows:
  assumes "unique_keys dlv_id (deliveries s)" and "reset_observations_before locked cutoff n now s = (k, t)"
  shows "follows s t"
proof -
  have rows: "set (lost_observations locked cutoff n now s) \<subseteq> set (deliveries s)"
    "distinct (map dlv_id (lost_observations locked cutoff n now s))"
    unfolding lost_observations_def by (auto dest: in_set_takeD) (rule selected_rows(1) [OF assms(1)])
  have "t = fold (\<lambda>d. save_delivery (reset_row d)) (lost_observations locked cutoff n now s) s"
    using assms(2) by (simp add: reset_observations_before_def Let_def reset_row_def)
  then show ?thesis
    using fold_stored_follows [OF _ _ _ _ _ assms(1) rows, of "\<lambda>d. save_delivery (reset_row d)" reset_row]
    by (simp add: save_delivery_def) (simp add: reset_row_def clear_claim_def)
qed

lemma claim_rows_follows:
  assumes "claim_rows owner lease now ds s = (claims, t)" and "set ds \<subseteq> set (deliveries s)"
    and "unique_keys dlv_id (deliveries s)" and "distinct (map dlv_id ds)"
  shows "follows s t \<and> (\<forall>c \<in> set claims. \<exists>d \<in> set ds. \<exists>token e. c = relay_claim_of owner token d e
    \<and> outbox_event_by_id s (dlv_event_id d) = Some e)"
  using assms
proof (induction ds arbitrary: s claims)
  case (Cons d ds)
  let ?d = "d\<lparr>dlv_claim_token := Some (next_uuid s), dlv_claim_owner := Some owner, dlv_claimed_at := Some now,
      dlv_claim_expires_at := Some (now + lease * 1000000)\<rparr>"
  let ?u = "save_delivery ?d (s\<lparr>next_uuid := next_uuid s + 1\<rparr>)"
  obtain cs where cs: "claim_rows owner lease now ds ?u = (cs, t)"
    and claims: "set claims \<subseteq> set cs \<union> {c. \<exists>e. outbox_event_by_id s (dlv_event_id d) = Some e
      \<and> c = relay_claim_of owner (next_uuid s) d e}"
    using Cons.prems(1) by (auto simp: Let_def split: prod.splits option.splits)
  have su: "follows s ?u"
    by (rule follows_trans [OF follows_same follows_save [of d]]) (use Cons.prems(2) in simp_all)
  have "x \<in> set (deliveries ?u)" if "x \<in> set ds" for x
    using that Cons.prems(2) distinct_map_other [OF Cons.prems(4)]
    by (auto simp: save_delivery_def intro!: store_row_other)
  then have "follows ?u t \<and> (\<forall>c \<in> set cs. \<exists>d \<in> set ds. \<exists>token e. c = relay_claim_of owner token d e
    \<and> outbox_event_by_id ?u (dlv_event_id d) = Some e)"
    using Cons.prems(3,4) by (intro Cons.IH [OF cs]) (auto simp: save_delivery_def)
  moreover have "outbox_event_by_id ?u i = outbox_event_by_id s i" for i
    by (simp add: outbox_event_by_id_def save_delivery_def)
  ultimately have rest: "follows s t" "c \<in> set cs \<Longrightarrow> \<exists>x \<in> set ds. \<exists>token e. c = relay_claim_of owner token x e
    \<and> outbox_event_by_id s (dlv_event_id x) = Some e" for c
    using follows_trans [OF su] by simp_all
  show ?case
  proof (intro conjI ballI)
    fix c
    assume "c \<in> set claims"
    then consider "c \<in> set cs" | e where "outbox_event_by_id s (dlv_event_id d) = Some e"
        "c = relay_claim_of owner (next_uuid s) d e" using claims by blast
    then show "\<exists>x \<in> set (d # ds). \<exists>token e. c = relay_claim_of owner token x e
        \<and> outbox_event_by_id s (dlv_event_id x) = Some e"
    proof cases
      case 1
      then show ?thesis using rest(2) by (meson list.set_intros(2))
    next
      case (2 e)
      then show ?thesis
        by (intro bexI [of _ d] exI [of _ "next_uuid s"] exI [of _ e]) simp_all
    qed
  qed (rule rest(1))
qed simp


section \<open>The invariant\<close>

text \<open>A claim of the relay: its delivery is on record, and its reference is that of the event.\<close>

definition claim_fits :: "relay_claim \<Rightarrow> db \<Rightarrow> bool" where
  "claim_fits c s = (\<exists>d \<in> set (deliveries s). dlv_id d = rlc_delivery_id c
     \<and> (\<exists>e. outbox_event_by_id s (dlv_event_id d) = Some e \<and> reference_matches (publish_reference c) e))"

definition relay_inv :: "('r \<Rightarrow> reference set) \<Rightarrow> relay_claim set \<Rightarrow> ('r, 'z) world_scheme \<Rightarrow> bool" where
  "relay_inv view C w = (published_on_stream view (wd_db w) (tp_server w)
     \<and> unique_keys dlv_id (deliveries (wd_db w)) \<and> (\<forall>c \<in> C. claim_fits c (wd_db w)))"

lemma relay_inv_loop [simp]:
  "relay_inv view C (w\<lparr>wd_backoff := b\<rparr>) = relay_inv view C w"
  "relay_inv view C (w\<lparr>wd_cutoff := x\<rparr>) = relay_inv view C w"
  "relay_inv view C (w\<lparr>wd_calls := n\<rparr>) = relay_inv view C w"
  by (simp_all add: relay_inv_def)

lemma reference_on_stream_mono:
  assumes "reference_on_stream view s r i" and "view r \<subseteq> view q"
    and "\<And>e. outbox_event_by_id s i = Some e \<Longrightarrow> outbox_event_by_id t i = Some e"
  shows "reference_on_stream view t q i"
  using assms unfolding reference_on_stream_def by blast

lemma claim_fits_mono:
  assumes "claim_fits c s" and "\<And>i e. outbox_event_by_id s i = Some e \<Longrightarrow> outbox_event_by_id t i = Some e"
    and "\<And>d. d \<in> set (deliveries s) \<Longrightarrow>
      \<exists>d' \<in> set (deliveries t). dlv_id d' = dlv_id d \<and> dlv_event_id d' = dlv_event_id d"
  shows "claim_fits c t"
  using assms unfolding claim_fits_def by metis

lemma follows_rows:
  assumes "follows s t" and "unique_keys dlv_id (deliveries s)" and "d \<in> set (deliveries s)"
  shows "\<exists>d' \<in> set (deliveries t). dlv_id d' = dlv_id d \<and> dlv_event_id d' = dlv_event_id d"
proof -
  have "dlv_id d \<in> set (map dlv_id (deliveries t))" using assms(1,3) by (simp add: follows_def)
  then obtain d' where d': "d' \<in> set (deliveries t)" "dlv_id d' = dlv_id d" by auto
  then obtain x where "x \<in> set (deliveries s)" "dlv_id d' = dlv_id x" "dlv_event_id d' = dlv_event_id x"
    using assms(1) unfolding follows_def by blast
  then show ?thesis using d' unique_keys_eq [OF assms(2) _ assms(3)] by metis
qed

lemma follows_events: "follows s t \<Longrightarrow> outbox_event_by_id t i = outbox_event_by_id s i"
  by (simp add: follows_def outbox_event_by_id_def)

lemma relay_inv_follows:
  assumes "relay_inv view C w" and "follows (wd_db w) t"
  shows "relay_inv view C (w\<lparr>wd_db := t\<rparr>)"
proof -
  have u: "unique_keys dlv_id (deliveries (wd_db w))" using assms(1) by (simp add: relay_inv_def)
  have "published_on_stream view t (tp_server w)"
    unfolding published_on_stream_def
  proof (intro ballI impI)
    fix d'
    assume "d' \<in> set (deliveries t)" "dlv_published_at d' \<noteq> None"
    then obtain d where "d \<in> set (deliveries (wd_db w))" "dlv_event_id d' = dlv_event_id d" "dlv_published_at d \<noteq> None"
      using assms(2) unfolding follows_def by blast
    then show "reference_on_stream view t (tp_server w) (dlv_event_id d')"
      using assms(1) follows_events [OF assms(2)]
      by (auto simp: relay_inv_def published_on_stream_def reference_on_stream_def)
  qed
  moreover have "unique_keys dlv_id (deliveries t)" using u assms(2) by (simp add: unique_keys_def follows_def)
  moreover have "claim_fits c t" if "c \<in> C" for c
  proof (rule claim_fits_mono [of c "wd_db w"])
    show "claim_fits c (wd_db w)" using assms(1) that by (simp add: relay_inv_def)
  qed (simp_all only: follows_events [OF assms(2)] follows_rows [OF assms(2) u])
  ultimately show ?thesis by (simp add: relay_inv_def)
qed

text \<open>What the others do before a call keeps it.\<close>

lemma relay_inv_others:
  assumes "relay_inv view C w" and "others_ok view (wd_db w, tp_server w) (s, r)"
  shows "relay_inv view C (w\<lparr>tp_server := r, wd_db := s, wd_calls := n\<rparr>)"
proof -
  have "claim_fits c s" if "c \<in> C" for c
    by (rule claim_fits_mono [of c "wd_db w"]) (use assms that in \<open>auto simp: relay_inv_def others_ok_def\<close>)
  then show ?thesis using assms by (simp add: relay_inv_def others_ok_def)
qed

lemma relay_inv_call:
  assumes fair: "fair_environment view env"
    and "\<And>a s x t. unique_keys dlv_id (deliveries s) \<Longrightarrow> f a s = (x, t) \<Longrightarrow> follows s t"
  shows "op_keeps (relay_inv view C) (db_call env f)"
proof -
  have "relay_inv view C w'" if inv: "relay_inv view C w" and call: "db_call env f w = (y, w')" for w w' y
  proof -
    let ?a = "en_call env (wd_calls w)"
    obtain s r where sr: "am_others ?a (wd_db w, tp_server w) = (s, r)" by force
    obtain x t where xt: "f ?a s = (x, t)" by force
    have "others_ok view (wd_db w, tp_server w) (s, r)" using fair sr unfolding fair_environment_def by metis
    then have after: "relay_inv view C (w\<lparr>tp_server := r, wd_db := s, wd_calls := Suc (wd_calls w)\<rparr>)"
      by (rule relay_inv_others [OF inv])
    then have "follows s t" using assms(2) [OF _ xt] by (simp add: relay_inv_def)
    then show ?thesis
      using relay_inv_follows [OF after] after call sr xt
      by (auto simp: db_call_def Let_def split: call_end.splits)
  qed
  then show ?thesis by (intro tripleI) blast+
qed


lemma recover_call_follows:
  assumes "unique_keys dlv_id (deliveries s)" and "recover_call cfg a s = (x, t)"
  shows "follows s t"
proof (cases "settle_failures (worker_execution cfg) (am_jitter a) (am_now a) (am_unsettled a) s")
  case (Inr u)
  note su = settle_failures_follows [OF Inr]
  have "unique_keys dlv_id (deliveries u)" using assms(1) su by (simp add: follows_def unique_keys_def)
  moreover have "snd (recover_expired (worker_execution cfg) (am_locked a) (wk_recovery_batch cfg) (am_effect_at a) u) = t"
    using assms(2) Inr by (simp add: recover_call_def split: prod.splits)
  ultimately have "follows u t" by (metis prod.collapse recover_expired_follows)
  with su show ?thesis by (rule follows_trans)
qed (use assms(2) in \<open>simp add: recover_call_def\<close>)

lemma reset_call_follows:
  "unique_keys dlv_id (deliveries s) \<Longrightarrow> reset_call cfg cutoff a s = (x, t) \<Longrightarrow> follows s t"
  by (auto simp: reset_call_def dest: reset_follows split: prod.splits)

lemma defer_call_follows: "defer_call cfg c k a s = (x, t) \<Longrightarrow> follows s t"
  by (auto simp: defer_call_def defer_claim_after_transport_failure_def intro: follows_update)

lemma claim_call_keeps:
  assumes "fair_environment view env"
  shows "triple (relay_inv view {}) (db_call env (claim_call cfg worker_id))
    (\<lambda>cs. relay_inv view (set cs)) (relay_inv view {})"
proof -
  have claimed: "follows s t \<and> (\<forall>c \<in> set cs. claim_fits c t)"
    if u: "unique_keys dlv_id (deliveries s)" and call: "claim_call cfg worker_id a s = (Inr cs, t)" for a s cs t
  proof -
    let ?ds = "due_deliveries (am_locked a) (wk_claim_batch cfg) (wk_republish_stall_seconds cfg) (am_now a) s"
    have ds: "set ?ds \<subseteq> set (deliveries s)" "distinct (map dlv_id ?ds)"
      unfolding due_deliveries_def by (auto dest: in_set_takeD) (rule selected_rows(1) [OF u])
    have "claim_rows worker_id (wk_claim_lease_seconds cfg) (am_now a) ?ds s = (cs, t)"
      using call by (auto simp: claim_call_def claim_due_deliveries_def split: prod.splits)
    note rows = claim_rows_follows [OF this ds(1) u ds(2)]
    have "claim_fits c t" if c: "c \<in> set cs" for c
    proof -
      obtain d token e where d: "d \<in> set ?ds" "c = relay_claim_of worker_id token d e"
        "outbox_event_by_id s (dlv_event_id d) = Some e" using rows [THEN conjunct2] c by blast
      then have "claim_fits c s"
        using ds(1) publish_reference_matches [of worker_id token d e]
        by (auto simp: claim_fits_def relay_claim_of_def intro!: bexI [of _ d])
      then show ?thesis
        by (rule claim_fits_mono) (use rows follows_events follows_rows u in auto)
    qed
    then show ?thesis using rows by blast
  qed
  have kept: "follows s t" if "unique_keys dlv_id (deliveries s)" "claim_call cfg worker_id a s = (x, t)" for a s x t
  proof (cases x)
    case (Inr cs)
    then show ?thesis using claimed that by blast
  qed (use that in \<open>auto simp: claim_call_def split: prod.splits\<close>)
  show ?thesis
  proof (rule tripleI)
    fix w w' cs
    assume inv: "relay_inv view {} w" and call: "db_call env (claim_call cfg worker_id) w = (Inr cs, w')"
    have keep: "relay_inv view {} w'" by (rule triple_Inr [OF relay_inv_call [OF assms kept] inv call])
    let ?a = "en_call env (wd_calls w)"
    obtain s r where sr: "am_others ?a (wd_db w, tp_server w) = (s, r)" by force
    have "others_ok view (wd_db w, tp_server w) (s, r)" using assms sr unfolding fair_environment_def by metis
    then have u: "unique_keys dlv_id (deliveries s)" using inv by (simp add: others_ok_def relay_inv_def)
    have "claim_call cfg worker_id ?a s = (Inr cs, wd_db w')"
      using call sr by (auto simp: db_call_def Let_def split: call_end.splits prod.splits)
    then have "\<forall>c \<in> set cs. claim_fits c (wd_db w')" using claimed [OF u] by blast
    then show "relay_inv view (set cs) w'" using keep by (simp add: relay_inv_def)
  next
    fix w w' e
    assume a: "relay_inv view {} w" "db_call env (claim_call cfg worker_id) w = (Inl e, w')"
    show "relay_inv view {} w'" by (rule triple_Inl [OF relay_inv_call [OF assms kept] a])
  qed
qed

text \<open>A publication: the reference is on the stream before the observation is recorded.\<close>

definition reference_sent :: "('r \<Rightarrow> reference set) \<Rightarrow> relay_claim \<Rightarrow> ('r, 'z) world_scheme \<Rightarrow> bool" where
  "reference_sent view c w = (publish_reference c \<in> view (tp_server w))"

lemma reference_of_entry: "reference_of (claim_entry c) = publish_reference c"
  by (simp add: reference_of_def claim_entry_def publish_reference_def)

lemma relay_inv_server:
  assumes "relay_inv view C w" and "view (tp_server w) \<subseteq> view r"
  shows "relay_inv view C (w\<lparr>tp_server := r\<rparr>)"
proof -
  have "reference_on_stream view (wd_db w) r i" if "reference_on_stream view (wd_db w) (tp_server w) i" for i
    by (rule reference_on_stream_mono [where view = view, OF that assms(2)])
  then show ?thesis using assms(1) by (simp add: relay_inv_def published_on_stream_def)
qed

lemma execute_stream_inv:
  assumes "append_laws view srv"
  shows "op_keeps (relay_inv view C) (execute_stream srv cmd)"
proof -
  have grow: "view r \<subseteq> view t" if "srv cmd r = (e, t)" for r e t using assms that unfolding append_laws_def by blast
  show ?thesis
    by (intro tripleI)
      (auto simp: execute_stream_def intro: relay_inv_server [OF _ grow] split: if_splits prod.splits)
qed

lemma publish_keeps:
  assumes "append_laws view srv"
  shows "triple (relay_inv view C) (publish srv c) (\<lambda>_ w. relay_inv view C w \<and> reference_sent view c w) (relay_inv view C)"
  unfolding publish_def
proof (rule triple_bind [where Q = "\<lambda>_ w. relay_inv view C w \<and> reference_sent view c w"])
  have sent: "publish_reference c \<in> view t" if "srv (XADD (claim_entry c)) r = (Value_End v, t)" for r v t
    using assms that unfolding append_laws_def reference_of_entry [symmetric] by blast
  note keep = execute_stream_inv [OF assms, of C "XADD (claim_entry c)"]
  show "triple (relay_inv view C) (execute_stream srv (XADD (claim_entry c)))
      (\<lambda>_ w. relay_inv view C w \<and> reference_sent view c w) (relay_inv view C)"
  proof (rule tripleI)
    fix w w' x
    assume a: "relay_inv view C w" "execute_stream srv (XADD (claim_entry c)) w = (Inr x, w')"
    then have "reference_sent view c w'"
      by (auto simp: execute_stream_def reference_sent_def worker_bounded_Inr dest: sent split: if_splits prod.splits)
    with triple_Inr [OF keep a] show "relay_inv view C w' \<and> reference_sent view c w'" by blast
  qed (rule triple_Inl [OF keep])
qed (rule triple_ret)

lemma observe_row:
  assumes inv: "relay_inv view C w" and "c \<in> C" and "reference_sent view c w"
    and obs: "observe_publication c now (wd_db w) = (x, t)"
  shows "relay_inv view C (w\<lparr>wd_db := t\<rparr>)"
proof -
  let ?f = "\<lambda>d. (clear_claim d)\<lparr>dlv_published_at := Some now, dlv_last_error_category := None\<rparr>"
  have u: "unique_keys dlv_id (deliveries (wd_db w))" using inv by (simp add: relay_inv_def)
  obtain d0 e where d0: "d0 \<in> set (deliveries (wd_db w))" "dlv_id d0 = rlc_delivery_id c"
    "outbox_event_by_id (wd_db w) (dlv_event_id d0) = Some e" "reference_matches (publish_reference c) e"
    using inv assms(2) by (auto simp: relay_inv_def claim_fits_def)
  have rows: "deliveries t = map (\<lambda>d. if relay_holds c now d then ?f d else d) (deliveries (wd_db w))"
    and events: "outbox_event_by_id t i = outbox_event_by_id (wd_db w) i" for i
    using obs by (auto simp: observe_publication_def update_where_def outbox_event_by_id_def)
  have id: "dlv_id (if b then ?f d else d) = dlv_id d" "dlv_event_id (if b then ?f d else d) = dlv_event_id d" for b d
    by (simp_all add: clear_claim_def)
  have sent: "reference_on_stream view t (tp_server w) (dlv_event_id d)"
    if "d \<in> set (deliveries (wd_db w))" "relay_holds c now d" for d
  proof -
    have "d = d0" using unique_keys_eq [OF u that(1) d0(1)] that(2) d0(2) by (simp add: relay_holds_def)
    then show ?thesis using d0(3,4) assms(3) by (auto simp: reference_on_stream_def events reference_sent_def)
  qed
  have "published_on_stream view t (tp_server w)"
    unfolding published_on_stream_def
  proof (intro ballI impI)
    fix d'
    assume d': "d' \<in> set (deliveries t)" "dlv_published_at d' \<noteq> None"
    then obtain d where d: "d \<in> set (deliveries (wd_db w))" "d' = (if relay_holds c now d then ?f d else d)"
      unfolding rows by auto
    have "dlv_event_id d' = dlv_event_id d" unfolding d(2) by (rule id(2))
    then show "reference_on_stream view t (tp_server w) (dlv_event_id d')"
      using sent [OF d(1)] d d'(2) inv
      by (cases "relay_holds c now d")
        (auto simp: relay_inv_def published_on_stream_def reference_on_stream_def events)
  qed
  moreover have "map dlv_id (deliveries t) = map dlv_id (deliveries (wd_db w))" by (simp add: rows id o_def)
  then have "unique_keys dlv_id (deliveries t)" using u by (simp add: unique_keys_def)
  moreover have "claim_fits k t" if "k \<in> C" for k
  proof (rule claim_fits_mono [of k "wd_db w"])
    show "claim_fits k (wd_db w)" using inv that by (simp add: relay_inv_def)
    show "\<exists>d' \<in> set (deliveries t). dlv_id d' = dlv_id d \<and> dlv_event_id d' = dlv_event_id d"
      if "d \<in> set (deliveries (wd_db w))" for d
      using that id by (intro bexI [of _ "if relay_holds c now d then ?f d else d"]) (auto simp: rows)
  qed (simp only: events)
  ultimately show ?thesis by (simp add: relay_inv_def)
qed


lemma observe_keeps:
  assumes fair: "fair_environment view env" and "c \<in> C"
  shows "triple (\<lambda>w. relay_inv view C w \<and> reference_sent view c w) (db_call env (observe_call c))
    (\<lambda>_. relay_inv view C) (relay_inv view C)"
proof -
  have "relay_inv view C w'" if inv: "relay_inv view C w" "reference_sent view c w"
    and call: "db_call env (observe_call c) w = (y, w')" for w w' y
  proof -
    let ?a = "en_call env (wd_calls w)"
    obtain s r where sr: "am_others ?a (wd_db w, tp_server w) = (s, r)" by force
    obtain x t where xt: "observe_publication c (am_now ?a) s = (x, t)" by force
    let ?w = "w\<lparr>tp_server := r, wd_db := s, wd_calls := Suc (wd_calls w)\<rparr>"
    have ok: "others_ok view (wd_db w, tp_server w) (s, r)" using fair sr unfolding fair_environment_def by metis
    then have after: "relay_inv view C ?w" by (rule relay_inv_others [OF inv(1)])
    have "view (tp_server w) \<subseteq> view r" using ok by (simp add: others_ok_def)
    then have "reference_sent view c ?w" using inv(2) by (auto simp: reference_sent_def)
    then have "relay_inv view C (?w\<lparr>wd_db := t\<rparr>)"
      using observe_row [OF after assms(2)] xt by simp
    then show ?thesis
      using after call sr xt by (auto simp: db_call_def observe_call_def Let_def split: call_end.splits)
  qed
  then show ?thesis by (intro tripleI) blast+
qed

lemma publish_observed_keeps:
  assumes fair: "fair_environment view env" and srv: "append_laws view srv" and "c \<in> C"
  shows "op_keeps (relay_inv view C) (publish_observed cfg env srv c)"
proof -
  have deferral: "op_keeps (relay_inv view C) (db_call env (defer_call cfg c k))" for k
    by (rule relay_inv_call [OF fair]) (rule defer_call_follows)
  have handler: "triple (relay_inv view C) (case e of
          Redis_Failed k _ \<Rightarrow>
            catch_op (bind_op (db_call env (defer_call cfg c k)) (\<lambda>_. ret True))
              (\<lambda>e2. if e2 = Database_Failed then ret True else throw e2)
        | Database_Failed \<Rightarrow> ret True
        | _ \<Rightarrow> throw e) (\<lambda>_. relay_inv view C) (relay_inv view C)" for e
    by (cases e) (auto intro!: triple_intros deferral)
  show ?thesis
    unfolding publish_observed_def
    by (rule keeps_catch [OF _ handler], rule triple_bind [OF publish_keeps [OF srv]],
        rule triple_bind [OF observe_keeps [OF fair assms(3)]], rule triple_ret)
qed

lemma publish_all_keeps:
  assumes "\<And>c. c \<in> set cs \<Longrightarrow> op_keeps I (f c)" and "I w" and "publish_all f cs w = (rs, w')"
  shows "I w'"
  using assms
proof (induction cs arbitrary: w rs)
  case (Cons c cs)
  obtain r w1 where r: "f c w = (r, w1)" by force
  have "I w1" using Cons.prems(1,2) r by (cases r) (force dest: triple_Inl triple_Inr)+
  then show ?case using Cons r by (auto split: prod.splits)
qed simp

lemma publish_batch_keeps:
  assumes "fair_environment view env" and "append_laws view srv"
  shows "op_keeps (relay_inv view (set cs)) (publish_batch cfg env srv cs)"
  using publish_all_keeps [OF publish_observed_keeps [OF assms, of _ "set cs" cfg], of cs]
  by (intro tripleI) (auto simp: publish_batch_def split: prod.splits)

lemma relay_inv_fewer: "relay_inv view C w \<Longrightarrow> relay_inv view {} w"
  by (simp add: relay_inv_def)

lemma relay_body_keeps:
  assumes fair: "fair_environment view env" and srv: "append_laws view srv"
  shows "op_keeps (relay_inv view {}) (relay_body cfg env srv worker_id)"
proof -
  have recover: "op_keeps (relay_inv view {}) (db_call env (recover_call cfg))"
    by (rule relay_inv_call [OF fair]) (rule recover_call_follows)
  have batch: "triple (relay_inv view (set cs)) (publish_batch cfg env srv cs)
      (\<lambda>_. relay_inv view {}) (relay_inv view {})" for cs
    by (rule triple_conseq [OF publish_batch_keeps [OF assms]]) (auto intro: relay_inv_fewer)
  show ?thesis
    unfolding relay_body_def reset_backoff_def
    by (rule keeps_bind [OF recover], rule triple_bind [OF claim_call_keeps [OF fair]], rule triple_if)
      (auto intro!: triple_bind [OF batch] triple_intros dest: relay_inv_fewer)
qed

lemma recovery_body_keeps:
  assumes fair: "fair_environment view env" and srv: "append_laws view srv"
  shows "op_keeps (relay_inv view {}) (recovery_body cfg env srv)"
proof -
  note run = execute_stream_inv [OF srv]
  have calls: "op_keeps (relay_inv view {}) (db_call env time_call)"
    "op_keeps (relay_inv view {}) (db_call env counts_call)"
    "op_keeps (relay_inv view {}) (db_call env (reset_call cfg t))" for t
    by (rule relay_inv_call [OF fair]; auto simp: time_call_def counts_call_def dest: reset_call_follows)+

  have ensured: "op_keeps (relay_inv view {}) (ensure_groups srv)"
    unfolding ensure_groups_def create_group_def
    by (intro triple_intros run) (auto intro!: triple_intros split: worker_error.splits)
  have reads: "op_keeps (relay_inv view {}) (stream_length srv)" "op_keeps (relay_inv view {}) (pending_count srv g)" for g
    unfolding stream_length_def pending_count_def by (intro triple_intros run; simp)+
  show ?thesis
    unfolding recovery_body_def reconcile_stream_def hold_cutoff_def reconcile_before_def reset_backoff_def
    by (intro keeps_bind triple_if triple_option triple_each triple_ret ensured reads calls triple_put triple_get)
      simp_all
qed

section \<open>Properties\<close>

text \<open>The passes a worker's relay and recovery loops make, in any order.\<close>

inductive worker_pass ::
  "worker_settings \<Rightarrow> 'r environment \<Rightarrow> 'r stream_server \<Rightarrow> string \<Rightarrow> 'r world \<Rightarrow> 'r world \<Rightarrow> bool"
  for cfg env srv worker_id where
  relayed: "relay_pass cfg env srv worker_id w = (r, v) \<Longrightarrow> worker_pass cfg env srv worker_id w v"
| recovered: "recovery_pass cfg env srv w = (r, v) \<Longrightarrow> worker_pass cfg env srv worker_id w v"



text \<open>A stream that keeps what it is given, and a relay pass over the recorded low-stock event.\<close>

definition demo_log :: "reference list stream_server" where
  "demo_log cmd r = (case cmd of XADD fs \<Rightarrow> (Value_End (Py_Str ''1-0''), r @ [reference_of fs])
     | EXISTS \<Rightarrow> (Value_End (Py_Int 0), r) | XLEN \<Rightarrow> (Value_End (Py_Int (int (length r))), r)
     | _ \<Rightarrow> (Value_End (Py_List []), r))"

definition demo_relay :: "reference list world" where
  "demo_relay = \<lparr>tp_open = True, tp_server = [], wd_db = demo_recorded, wd_calls = 0, wd_cutoff = None,
     wd_backoff = 100\<rparr>"

definition demo_relayed :: "pass_end \<times> reference list world" where
  "demo_relayed = relay_pass demo_settings demo_calm demo_log ''w1'' demo_relay"

lemma demo_log_laws: "append_laws set demo_log"
  by (auto simp: append_laws_def demo_log_def split: stream_command.splits)

lemma demo_calm_fair: "fair_environment view demo_calm"
  by (auto simp: fair_environment_def others_ok_def demo_calm_def)

lemma demo_relay_start:
  "list_all (\<lambda>d. dlv_published_at d = None) (deliveries (wd_db demo_relay))
   \<and> distinct (map dlv_id (deliveries (wd_db demo_relay)))"
  by code_simp

lemma demo_relayed_run:
  "list_all (\<lambda>d. dlv_published_at d = Some 10) (deliveries (wd_db (snd demo_relayed)))
   \<and> length (tp_server (snd demo_relayed)) = 2 \<and> length (deliveries (wd_db (snd demo_relayed))) = 2"
  by code_simp


end
