(* ===== verification/Dashboard.thy ===== *)
theory Dashboard
  imports Analytics
begin

text \<open>
  The restaurant dashboard (\<open>analytics/service.py\<close>, \<open>analytics/repo/queries.py\<close>,
  \<open>analytics/domain/calculations.py\<close>): completed orders of a day, of the last week by day, and the items
  sold most. Dates are day numbers since the epoch, and quotients are exact where Python's decimals
  carry 28 digits. Nothing is written.
\<close>

section \<open>Calculations\<close>

definition start_of_day :: "int \<Rightarrow> datetime" where
  "start_of_day day = Naive (day * microseconds_per_day)"

definition end_of_day :: "int \<Rightarrow> datetime" where
  "end_of_day day = Naive (day * microseconds_per_day + (microseconds_per_day - 1))"

definition round_half_even :: "dec \<Rightarrow> int" where
  "round_half_even x = (let f = \<lfloor>x\<rfloor>; r = x - of_int f in
     if r < 1 / 2 then f else if r > 1 / 2 then f + 1 else if even f then f else f + 1)"

text \<open>\<open>quantize(Decimal("0.01"))\<close>.\<close>

definition to_cents :: "dec \<Rightarrow> dec" where
  "to_cents q = of_int (round_half_even (q * 100)) / 100"

definition percent_change :: "dec \<Rightarrow> dec \<Rightarrow> dec" where
  "percent_change now_value previous =
     (if previous = 0 then 0 else to_cents ((now_value - previous) / previous * 100))"

section \<open>Queries\<close>

record sales_totals =
  tot_sales :: dec
  tot_order_count :: int

record graph_row =
  grw_date :: int
  grw_sales :: dec
  grw_order_count :: int

record top_row =
  top_menu_item_id :: "int option"
  top_name :: string
  top_quantity :: int
  top_sales :: dec

text \<open>The completed orders of a restaurant in scope between two instants.\<close>

definition sold_between :: "db \<Rightarrow> access_context \<Rightarrow> int \<Rightarrow> datetime \<Rightarrow> datetime \<Rightarrow> order list" where
  "sold_between s scope restaurant_id start_at end_at =
     filter (\<lambda>d. ord_restaurant_id d = restaurant_id \<and> restaurant_exists s scope (ord_restaurant_id d)
       \<and> ord_status d = ''COMPLETED'' \<and> micros start_at \<le> micros (ord_created_at d)
       \<and> micros (ord_created_at d) \<le> micros end_at) (orders s)"

definition totals_of :: "order list \<Rightarrow> sales_totals" where
  "totals_of rows = \<lparr>tot_sales = sum_list (map ord_total rows), tot_order_count = int (length rows)\<rparr>"

definition get_completed_totals :: "db \<Rightarrow> access_context \<Rightarrow> int \<Rightarrow> datetime \<Rightarrow> datetime \<Rightarrow> sales_totals" where
  "get_completed_totals s scope restaurant_id start_at end_at =
     totals_of (sold_between s scope restaurant_id start_at end_at)"

definition orders_of_day :: "int \<Rightarrow> order list \<Rightarrow> order list" where
  "orders_of_day day rows = filter (\<lambda>d. creation_date (ord_created_at d) = day) rows"

definition get_sales_graph :: "db \<Rightarrow> access_context \<Rightarrow> int \<Rightarrow> datetime \<Rightarrow> datetime \<Rightarrow> graph_row list" where
  "get_sales_graph s scope restaurant_id start_at end_at =
     (let rows = sold_between s scope restaurant_id start_at end_at in
      map (\<lambda>day. let t = totals_of (orders_of_day day rows) in
          \<lparr>grw_date = day, grw_sales = tot_sales t, grw_order_count = tot_order_count t\<rparr>)
        (remdups (map (\<lambda>d. creation_date (ord_created_at d)) rows)))"

text \<open>
  Lines grouped by item and name, the most sold first; SQL leaves the order of equal quantities open, the
  model lists them as their first lines appear.
\<close>

definition get_top_selling_items ::
  "db \<Rightarrow> access_context \<Rightarrow> int \<Rightarrow> datetime \<Rightarrow> datetime \<Rightarrow> nat \<Rightarrow> top_row list" where
  "get_top_selling_items s scope restaurant_id start_at end_at limit =
     (let ids = map ord_id (sold_between s scope restaurant_id start_at end_at);
          lines = filter (\<lambda>l. oi_order_id l \<in> set ids) (order_items s);
          key = (\<lambda>l. (oi_menu_item_id l, oi_item_name l));
          rows = map (\<lambda>k. let ls = filter (\<lambda>l. key l = k) lines in
            \<lparr>top_menu_item_id = fst k, top_name = snd k, top_quantity = sum_list (map oi_quantity ls),
             top_sales = sum_list (map oi_line_total ls)\<rparr>) (remdups (map key lines))
      in take limit (sort_key (\<lambda>r. - top_quantity r) rows))"

section \<open>The dashboard\<close>

record metric =
  met_value :: dec
  met_change_percent :: dec

record sales_point =
  spt_date :: int
  spt_sales :: dec
  spt_orders :: int

record top_selling_item =
  tsi_menu_item_id :: int
  tsi_name :: string
  tsi_quantity_sold :: int
  tsi_sales :: dec

record dashboard =
  dash_sales :: metric
  dash_orders :: metric
  dash_average_order :: metric
  dash_sales_graph :: "sales_point list"
  dash_top_selling_items :: "top_selling_item list"

definition average_order :: "sales_totals \<Rightarrow> dec" where
  "average_order t = (if tot_order_count t > 0 then tot_sales t / of_int (tot_order_count t) else 0)"

text \<open>A dict built from rows keeps the last row of a date.\<close>

definition graph_point :: "graph_row list \<Rightarrow> int \<Rightarrow> sales_point" where
  "graph_point rows day = (case map_of (rev (map (\<lambda>r. (grw_date r, r)) rows)) day of
      None \<Rightarrow> \<lparr>spt_date = day, spt_sales = 0, spt_orders = 0\<rparr>
    | Some r \<Rightarrow> \<lparr>spt_date = day, spt_sales = grw_sales r, spt_orders = grw_order_count r\<rparr>)"

definition top_item_of :: "top_row \<Rightarrow> top_selling_item" where
  "top_item_of r =
     \<lparr>tsi_menu_item_id = (case top_menu_item_id r of None \<Rightarrow> 0 | Some i \<Rightarrow> i), tsi_name = top_name r,
      tsi_quantity_sold = top_quantity r, tsi_sales = top_sales r\<rparr>"

definition metric_of :: "dec \<Rightarrow> dec \<Rightarrow> dec \<Rightarrow> metric" where
  "metric_of shown now_value previous =
     \<lparr>met_value = shown, met_change_percent = percent_change now_value previous\<rparr>"

definition get_restaurant_dashboard_analytics :: "db \<Rightarrow> uuid \<Rightarrow> int \<Rightarrow> int \<Rightarrow> dashboard result" where
  "get_restaurant_dashboard_analytics s user_id restaurant_id report_date =
     bindR (current s user_id) (\<lambda>scope.
     access_restaurant s scope restaurant_id ''analytics.read'' (
     raise_if (\<not> restaurant_exists s scope restaurant_id) restaurant_not_found (
     let yesterday = report_date - 1; graph_start = report_date - 6;
         now_totals = get_completed_totals s scope restaurant_id (start_of_day report_date) (end_of_day report_date);
         old_totals = get_completed_totals s scope restaurant_id (start_of_day yesterday) (end_of_day yesterday);
         graph_rows = get_sales_graph s scope restaurant_id (start_of_day graph_start) (end_of_day report_date);
         top_rows = get_top_selling_items s scope restaurant_id (start_of_day graph_start) (end_of_day report_date) 5
     in Inr \<lparr>dash_sales = metric_of (tot_sales now_totals) (tot_sales now_totals) (tot_sales old_totals),
        dash_orders = metric_of (of_int (tot_order_count now_totals)) (of_int (tot_order_count now_totals))
          (of_int (tot_order_count old_totals)),
        dash_average_order = metric_of (to_cents (average_order now_totals)) (average_order now_totals)
          (average_order old_totals),
        dash_sales_graph = map (\<lambda>offset. graph_point graph_rows (graph_start + offset)) [0..6],
        dash_top_selling_items = map top_item_of top_rows\<rparr>)))"

section \<open>Lemmas\<close>

lemma micros_bounds [simp]:
  "micros (start_of_day day) = day * microseconds_per_day"
  "micros (end_of_day day) = day * microseconds_per_day + (microseconds_per_day - 1)"
  by (simp_all add: start_of_day_def end_of_day_def micros_def)

lemma day_positive: "0 < microseconds_per_day"
  by (simp add: microseconds_per_day_def)

text \<open>The window from the start of one day to the end of another holds exactly the orders of those days.\<close>

lemma window_days:
  "micros (start_of_day a) \<le> micros t \<and> micros t \<le> micros (end_of_day b)
     \<longleftrightarrow> a \<le> creation_date t \<and> creation_date t \<le> b"
  using div_mult_mod_eq [of "micros t" microseconds_per_day] pos_mod_bound [OF day_positive, of "micros t"]
    pos_mod_sign [OF day_positive, of "micros t"]
  unfolding creation_date_def micros_bounds microseconds_per_day_def by linarith

lemma sold_days:
  "sold_between s scope rid (start_of_day a) (end_of_day b)
    = filter (\<lambda>d. a \<le> creation_date (ord_created_at d) \<and> creation_date (ord_created_at d) \<le> b)
        (filter (\<lambda>d. ord_restaurant_id d = rid \<and> restaurant_exists s scope (ord_restaurant_id d)
          \<and> ord_status d = ''COMPLETED'') (orders s))"
  using window_days by (auto simp: sold_between_def filter_filter intro!: filter_cong)

lemma orders_of_day_window:
  assumes "a \<le> day" and "day \<le> b"
  shows "orders_of_day day (sold_between s scope rid (start_of_day a) (end_of_day b))
    = sold_between s scope rid (start_of_day day) (end_of_day day)"
  unfolding sold_days orders_of_day_def using assms by (auto simp: filter_filter intro!: filter_cong)

lemma map_of_keyed: "map_of (rev (map (\<lambda>d. (d, f d)) ds)) day = (if day \<in> set ds then Some (f day) else None)"
  by (induction ds) (auto simp: map_of_append map_add_def split: option.splits)

text \<open>A point of the graph carries the totals of its day, whether the query returned the day or not.\<close>

lemma graph_point_totals:
  assumes "a \<le> day" and "day \<le> b"
  shows "graph_point (get_sales_graph s scope rid (start_of_day a) (end_of_day b)) day
    = (let t = get_completed_totals s scope rid (start_of_day day) (end_of_day day) in
       \<lparr>spt_date = day, spt_sales = tot_sales t, spt_orders = tot_order_count t\<rparr>)"
proof -
  let ?rows = "sold_between s scope rid (start_of_day a) (end_of_day b)"
  let ?days = "remdups (map (\<lambda>d. creation_date (ord_created_at d)) ?rows)"
  let ?row = "\<lambda>k. let t = totals_of (orders_of_day k ?rows) in
          \<lparr>grw_date = k, grw_sales = tot_sales t, grw_order_count = tot_order_count t\<rparr>"
  have graph: "map (\<lambda>r. (grw_date r, r)) (get_sales_graph s scope rid (start_of_day a) (end_of_day b))
      = map (\<lambda>k. (k, ?row k)) ?days"
    by (simp add: get_sales_graph_def Let_def o_def)
  have "orders_of_day day ?rows = []" if "day \<notin> set ?days"
    using that by (auto simp: orders_of_day_def filter_empty_conv)
  then show ?thesis
    unfolding graph_point_def graph map_of_keyed
    using orders_of_day_window [OF assms, of s scope rid]
    by (auto simp: get_completed_totals_def Let_def totals_of_def)
qed

text \<open>
  The figures of a dashboard agree: the graph has the seven days up to the report date, each point holds
  the totals of its own day, and the last one those the metrics show.
\<close>

theorem dashboard_figures_agree:
  assumes "get_restaurant_dashboard_analytics s user_id rid today = Inr d"
  shows "map spt_date (dash_sales_graph d) = [today - 6 .. today]
    \<and> met_value (dash_sales d) = spt_sales (last (dash_sales_graph d))
    \<and> met_value (dash_orders d) = of_int (spt_orders (last (dash_sales_graph d)))
    \<and> (\<exists>scope. current s user_id = Inr scope \<and> (\<forall>p \<in> set (dash_sales_graph d).
         spt_sales p = tot_sales (get_completed_totals s scope rid (start_of_day (spt_date p)) (end_of_day (spt_date p)))))"
proof -
  obtain scope where scope: "current s user_id = Inr scope" and d: "dash_sales_graph d = map (\<lambda>offset. graph_point
      (get_sales_graph s scope rid (start_of_day (today - 6)) (end_of_day today)) (today - 6 + offset)) [0..6]"
    "met_value (dash_sales d) = tot_sales (get_completed_totals s scope rid (start_of_day today) (end_of_day today))"
    "met_value (dash_orders d)
      = of_int (tot_order_count (get_completed_totals s scope rid (start_of_day today) (end_of_day today)))"
    using assms by (auto simp: get_restaurant_dashboard_analytics_def res_simps Let_def metric_of_def)
  let ?point = "\<lambda>day. let t = get_completed_totals s scope rid (start_of_day day) (end_of_day day) in
       \<lparr>spt_date = day, spt_sales = tot_sales t, spt_orders = tot_order_count t\<rparr>"
  have days: "[today - 6 .. today] = map (\<lambda>offset. today - 6 + offset) [0..6]"
    by (simp add: upto.simps)
  have "dash_sales_graph d = map ?point [today - 6 .. today]"
    unfolding d(1) days map_map o_def by (intro map_cong refl graph_point_totals) auto
  moreover have "last [today - 6 .. today] = today" "[today - 6 .. today] \<noteq> []" by (simp_all add: upto_rec2)
  ultimately show ?thesis
    using scope d(2,3) by (auto simp: Let_def last_map o_def)
qed

end
