(* ===== verification/Maintenance.thy ===== *)
theory Maintenance
  imports Alerts Analytics_Rebuild Notifications Relay
begin

text \<open>
  Trusted maintenance of a restaurant's event scope (\<open>events/maintenance.py\<close>,
  \<open>events/repo/maintenance.py\<close>): initialization, which happens once and builds the derived state from the
  authoritative one, and later rebuilds of the analytics projection. A run is one transaction under the
  restaurant's lock.
\<close>

section \<open>Operations on record\<close>

record maintenance_operation =
  mop_operation_id :: uuid
  mop_organization_id :: uuid
  mop_restaurant_id :: int
  mop_kind :: string
  mop_operator :: string
  mop_reason :: string
  mop_observed_at :: instant

text \<open>The database with the table of maintenance operations.\<close>

record maintenance_state =
  ms_db :: db
  ms_operations :: "maintenance_operation list"

definition initialization :: "maintenance_state \<Rightarrow> uuid \<Rightarrow> int \<Rightarrow> maintenance_operation option" where
  "initialization s organization_id restaurant_id =
     select_one (\<lambda>m. mop_organization_id m = organization_id \<and> mop_restaurant_id m = restaurant_id
       \<and> mop_kind m = ''initialize'') (ms_operations s)"

text \<open>The unique index: one initialization per restaurant.\<close>

definition add_operation :: "maintenance_operation \<Rightarrow> maintenance_state \<Rightarrow> maintenance_state result" where
  "add_operation m s =
     raise_if (mop_kind m = ''initialize'' \<and> exists_row (\<lambda>x. mop_kind x = ''initialize''
         \<and> mop_restaurant_id x = mop_restaurant_id m) (ms_operations s))
       (IntegrityError ''uq_event_maintenance_initialization'') (
     Inr (s\<lparr>ms_operations := ms_operations s @ [m]\<rparr>))"

definition event_in_scope :: "uuid \<Rightarrow> int \<Rightarrow> outbox_event \<Rightarrow> bool" where
  "event_in_scope organization_id restaurant_id e =
     (raw_organization_id (evt_facts e) = organization_id \<and> raw_restaurant_id (evt_facts e) = restaurant_id)"

definition retained_counts :: "maintenance_state \<Rightarrow> uuid \<Rightarrow> int \<Rightarrow> (string \<times> nat) list" where
  "retained_counts s organization_id restaurant_id =
     (let d = ms_db s;
          events = filter (event_in_scope organization_id restaurant_id) (outbox_events d);
          known = (\<lambda>i. exists_row (\<lambda>e. evt_event_id e = i) events);
          owned = filter (\<lambda>x. known (dlv_event_id x)) (deliveries d);
          delivered = (\<lambda>i. exists_row (\<lambda>x. dlv_id x = i) owned)
      in [(''events'', length events), (''deliveries'', length owned),
          (''receipts'', length (filter (\<lambda>r. known (rcp_event_id r)) (receipts d))),
          (''attempts'', length (filter (\<lambda>a. delivered (att_delivery_id a)) (attempts d))),
          (''replays'', length (filter (\<lambda>r. delivered (rpl_delivery_id r)) (replays d))),
          (''maintenance_operations'', length (filter (\<lambda>m. mop_organization_id m = organization_id
             \<and> mop_restaurant_id m = restaurant_id) (ms_operations s)))])"

section \<open>The run\<close>

record maintenance_report =
  mrp_organization_id :: string
  mrp_restaurant_id :: int
  mrp_operation_id :: string
  mrp_kind :: string
  mrp_outcome :: string
  mrp_observed_at :: instant
  mrp_operator :: string
  mrp_reason_recorded :: bool
  mrp_retained_counts :: "(string \<times> nat) list"

definition maintenance_counts :: "maintenance_state \<Rightarrow> uuid \<Rightarrow> int \<Rightarrow> (string \<times> nat) list" where
  "maintenance_counts s organization_id restaurant_id =
     (let (episodes, states) = inspect_alerts organization_id restaurant_id (ms_db s);
          (stubs, seen) = inspect_notification_sink organization_id restaurant_id (ms_db s)
      in retained_counts s organization_id restaurant_id
        @ [(''episodes'', length episodes), (''states'', length states),
           (''notification_stubs'', length stubs), (''diagnostics'', length seen)])"

definition maintenance_report_of ::
  "maintenance_operation \<Rightarrow> string \<Rightarrow> uuid \<Rightarrow> int \<Rightarrow> maintenance_state \<Rightarrow> maintenance_report" where
  "maintenance_report_of m result_text organization_id restaurant_id s =
     \<lparr>mrp_organization_id = py_str_uuid organization_id, mrp_restaurant_id = restaurant_id,
      mrp_operation_id = py_str_uuid (mop_operation_id m), mrp_kind = mop_kind m, mrp_outcome = result_text,
      mrp_observed_at = mop_observed_at m, mrp_operator = safe_identifier (mop_operator m),
      mrp_reason_recorded = True,
      mrp_retained_counts = maintenance_counts s organization_id restaurant_id\<rparr>"

text \<open>Every low ingredient without an episode gets its baseline episode.\<close>

definition baseline_episode ::
  "invocation \<Rightarrow> uuid \<Rightarrow> int \<Rightarrow> inventory_transition \<Rightarrow> db \<Rightarrow> db result" where
  "baseline_episode iv organization_id restaurant_id state s =
     (if is_low (tr_state state) \<and> tr_episode_id state = None
      then bindR (record_baseline_inventory_episode iv organization_id restaurant_id
             (st_ingredient_id (tr_state state)) s) (\<lambda>(_, t). Inr t)
      else Inr s)"

definition initialize_scope ::
  "invocation \<Rightarrow> uuid \<Rightarrow> int \<Rightarrow> inventory_transition list \<Rightarrow> db \<Rightarrow> db result" where
  "initialize_scope iv organization_id restaurant_id states s =
     bindR (for_each (baseline_episode iv organization_id restaurant_id) states s) (\<lambda>s1.
     bindR (rebuild_alerts (Aware (iv_now iv)) organization_id restaurant_id s1) (\<lambda>(_, s2). Inr s2))"

text \<open>The derived state and the operation that records the run.\<close>

definition complete_maintenance ::
  "invocation \<Rightarrow> string \<Rightarrow> uuid \<Rightarrow> int \<Rightarrow> string \<Rightarrow> string \<Rightarrow> inventory_transition list \<Rightarrow> maintenance_state
     \<Rightarrow> (maintenance_operation \<times> maintenance_state) result" where
  "complete_maintenance iv operator_name organization_id restaurant_id kind reason states s =
     bindR (rebuild_analytics_projection organization_id restaurant_id (ms_db s)) (\<lambda>(_, d1).
     bindR (if kind = ''initialize'' then initialize_scope iv organization_id restaurant_id states d1
            else Inr d1) (\<lambda>d2.
     let m = \<lparr>mop_operation_id = next_uuid d2, mop_organization_id = organization_id,
           mop_restaurant_id = restaurant_id, mop_kind = kind, mop_operator = operator_name,
           mop_reason = py_strip reason, mop_observed_at = iv_now iv\<rparr> in
     bindR (add_operation m (s\<lparr>ms_db := d2\<lparr>next_uuid := next_uuid d2 + 1\<rparr>\<rparr>)) (\<lambda>t. Inr (m, t))))"

definition run_maintenance ::
  "invocation \<Rightarrow> string \<Rightarrow> uuid \<Rightarrow> int \<Rightarrow> string \<Rightarrow> string \<Rightarrow> bool \<Rightarrow> maintenance_state
     \<Rightarrow> (maintenance_report \<times> maintenance_state) result" where
  "run_maintenance iv operator_name organization_id restaurant_id kind reason maintenance_confirmed s =
     raise_if (\<not> maintenance_confirmed)
       (ValueError ''Stop workers and quiesce writes before maintenance'') (
     raise_if (\<not> replay_reason_ok reason) (ValueError ''A safe maintenance reason is required'') (
     raise_if (kind \<notin> set [''initialize'', ''analytics_rebuild'']) (ValueError ''Unknown maintenance operation'') (
     bindR (load_inventory_restaurant_states (ms_db s) organization_id restaurant_id True) (\<lambda>states.
     let marker = initialization s organization_id restaurant_id in
     if kind = ''initialize'' \<and> marker \<noteq> None
     then Inr (maintenance_report_of (the marker) ''already_initialized'' organization_id restaurant_id s, s)
     else raise_if (kind = ''analytics_rebuild'' \<and> marker = None)
       (ValueError ''Initialize this scope before rebuilding'') (
       bindR (complete_maintenance iv operator_name organization_id restaurant_id kind reason states s) (\<lambda>(m, t).
       Inr (maintenance_report_of m ''completed'' organization_id restaurant_id t, t)))))))"

section \<open>Initialization happens once\<close>

definition initialized_once :: "maintenance_state \<Rightarrow> bool" where
  "initialized_once s = (\<forall>a \<in> set (ms_operations s). \<forall>b \<in> set (ms_operations s). mop_kind a = ''initialize''
     \<longrightarrow> mop_kind b = ''initialize'' \<longrightarrow> mop_restaurant_id a = mop_restaurant_id b \<longrightarrow> a = b)"

lemma add_operation_keeps: "add_operation m s = Inr t \<Longrightarrow> initialized_once s \<Longrightarrow> initialized_once t"
  by (auto simp: add_operation_def initialized_once_def res_simps exists_row_iff) metis

lemma initialization_Some:
  "initialization s org rid = Some m \<Longrightarrow>
     m \<in> set (ms_operations s) \<and> mop_kind m = ''initialize'' \<and> mop_restaurant_id m = rid \<and> mop_organization_id m = org"
  unfolding initialization_def by (drule select_one_Some) auto

text \<open>What a successful run leaves on record.\<close>

lemma run_maintenance_cases:
  assumes "run_maintenance iv name org rid kind reason confirmed s = Inr (r, t)"
  obtains (again) m where "kind = ''initialize''" "initialization s org rid = Some m" "t = s"
      "r = maintenance_report_of m ''already_initialized'' org rid s"
  | (ran) m d where "add_operation m (s\<lparr>ms_db := d\<rparr>) = Inr t" "mop_kind m = kind" "mop_restaurant_id m = rid"
      "mop_organization_id m = org" "r = maintenance_report_of m ''completed'' org rid t"
      "kind = ''initialize'' \<Longrightarrow> initialization s org rid = None"
proof (cases "kind = ''initialize'' \<and> initialization s org rid \<noteq> None")
  case True
  then obtain m where "kind = ''initialize''" "initialization s org rid = Some m" by auto
  then show ?thesis using again assms by (auto simp: run_maintenance_def res_simps)
next
  case False
  obtain states where "raise_if (kind = ''analytics_rebuild'' \<and> initialization s org rid = None)
       (ValueError ''Initialize this scope before rebuilding'') (
       bindR (complete_maintenance iv name org rid kind reason states s) (\<lambda>(m, t).
       Inr (maintenance_report_of m ''completed'' org rid t, t))) = Inr (r, t)"
    using assms unfolding run_maintenance_def Let_def if_not_P [OF False] raise_if_Inr bindR_Inr by blast
  then obtain m where "complete_maintenance iv name org rid kind reason states s = Inr (m, t)"
    "r = maintenance_report_of m ''completed'' org rid t"
    unfolding raise_if_Inr bindR_Inr by (auto simp del: maintenance_report.ext_inject)
  then show ?thesis using False by (auto simp: complete_maintenance_def res_simps Let_def intro: ran)
qed

lemma run_maintenance_keeps:
  assumes "run_maintenance iv name org rid kind reason confirmed s = Inr (r, t)" and "initialized_once s"
  shows "initialized_once t"
  using assms(1)
proof (cases rule: run_maintenance_cases)
  case (ran m d)
  show ?thesis by (rule add_operation_keeps [OF ran(1)]) (use assms(2) in \<open>simp add: initialized_once_def\<close>)
qed (use assms(2) in simp)

text \<open>
  C31. A scope is initialized once: after a successful initialization, another one, whatever happened to the
  database in between, changes nothing and reports the operation on record.
\<close>

theorem initialization_happens_once:
  assumes "run_maintenance iv name org rid ''initialize'' reason confirmed s = Inr (r, t)"
    and "set (ms_operations t) \<subseteq> set (ms_operations u)" and "initialized_once u"
    and "run_maintenance iv2 name2 org rid ''initialize'' reason2 confirmed2 u = Inr (r2, v)"
  shows "v = u \<and> mrp_outcome r2 = ''already_initialized'' \<and> mrp_operation_id r2 = mrp_operation_id r"
proof -
  obtain m where m: "m \<in> set (ms_operations t)" "mop_kind m = ''initialize''" "mop_restaurant_id m = rid"
      "mop_organization_id m = org" "mrp_operation_id r = py_str_uuid (mop_operation_id m)"
    using assms(1)
  proof (cases rule: run_maintenance_cases)
    case (again m)
    then show ?thesis using that [of m] initialization_Some [OF again(2)] by (simp add: maintenance_report_of_def)
  next
    case (ran m d)
    then show ?thesis using that [of m] by (auto simp: add_operation_def res_simps maintenance_report_of_def)
  qed
  have found: "initialization u org rid \<noteq> None"
    using m assms(2) unfolding initialization_def select_one_None by blast
  show ?thesis
    using assms(4)
  proof (cases rule: run_maintenance_cases)
    case (again k)
    have "k = m" using initialization_Some [OF again(2)] m assms(2,3) unfolding initialized_once_def by blast
    then show ?thesis using again m(5) by (simp add: maintenance_report_of_def)
  qed (use found in simp)
qed


definition demo_upkeep :: maintenance_state where
  "demo_upkeep = \<lparr>ms_db = demo_sales, ms_operations = []\<rparr>"

definition demo_operation :: maintenance_operation where
  "demo_operation = \<lparr>mop_operation_id = 1, mop_organization_id = 1, mop_restaurant_id = 1,
     mop_kind = ''initialize'', mop_operator = ''ops'', mop_reason = ''first'', mop_observed_at = 5\<rparr>"

definition demo_later :: maintenance_state where
  "demo_later = \<lparr>ms_db = demo_sales, ms_operations = [demo_operation]\<rparr>"

lemma demo_upkeep_parts:
  "load_inventory_restaurant_states demo_sales 1 1 True = Inr []"
  "replay_reason_ok ''first''" "replay_reason_ok ''again''"
  "succeeds_with (complete_maintenance demo_call ''ops'' 1 1 ''initialize'' ''first'' [] demo_upkeep)
     (\<lambda>(m, t). m = demo_operation \<and> ms_operations t = [demo_operation])"
  by code_simp+

theorem initialization_happens_once_witness:
  "\<exists>r t r2. run_maintenance demo_call ''ops'' 1 1 ''initialize'' ''first'' True demo_upkeep = Inr (r, t)
     \<and> mrp_outcome r = ''completed''
     \<and> run_maintenance demo_call ''ops'' 1 1 ''initialize'' ''again'' True demo_later = Inr (r2, demo_later)
     \<and> mrp_outcome r2 = ''already_initialized''"
proof -
  obtain m t where one: "complete_maintenance demo_call ''ops'' 1 1 ''initialize'' ''first'' [] demo_upkeep = Inr (m, t)
      \<and> m = demo_operation \<and> ms_operations t = [demo_operation]"
    using demo_upkeep_parts(4) unfolding succeeds_with_iff split_paired_Ex prod.case by (elim exE)
  let ?r = "maintenance_report_of m ''completed'' 1 1 t"
  have first: "run_maintenance demo_call ''ops'' 1 1 ''initialize'' ''first'' True demo_upkeep = Inr (?r, t)"
    using one demo_upkeep_parts by (simp add: run_maintenance_def Let_def initialization_def demo_upkeep_def)
  have found: "initialization demo_later 1 1 = Some demo_operation"
    by (simp add: initialization_def demo_later_def demo_operation_def)
  have again: "\<exists>r2 v. run_maintenance demo_call ''ops'' 1 1 ''initialize'' ''again'' True demo_later = Inr (r2, v)"
    using demo_upkeep_parts found by (simp add: run_maintenance_def Let_def) (simp add: demo_later_def)
  then obtain r2 v where two: "run_maintenance demo_call ''ops'' 1 1 ''initialize'' ''again'' True demo_later = Inr (r2, v)"
    by (elim exE)
  have "set (ms_operations t) \<subseteq> set (ms_operations demo_later)" "initialized_once demo_later"
    using one by (simp_all add: demo_later_def initialized_once_def)
  note same = initialization_happens_once [OF first this two]
  show ?thesis
    using first two same by (intro exI [of _ ?r] exI [of _ t] exI [of _ r2] conjI)
      (simp_all only: maintenance_report_of_def maintenance_report.simps)
qed

end
