(* ===== verification/Configuration.thy ===== *)
theory Configuration
  imports Auth_Requests Worker_Consumer
begin

text \<open>
  The validated settings of the processes (\<open>core/config.py\<close>): the bounds of the fields, and the checks
  across them. A worker configured by validated settings satisfies what its properties assume. Monitoring
  settings, and reading the environment, are left out.
\<close>

section \<open>Fields\<close>

record worker_fields =
  wf_redis_operation_budget_ms :: int
  wf_redis_block_ms :: int
  wf_redis_max_connections :: int
  wf_claim_batch_size :: int
  wf_relay_concurrency :: int
  wf_claim_lease_seconds :: int
  wf_recovery_scan_interval_ms :: int
  wf_recovery_batch_size :: int
  wf_republish_stall_seconds :: int
  wf_pending_idle_ms :: int
  wf_infra_backoff_initial_ms :: int
  wf_infra_backoff_max_ms :: int
  wf_max_attempts :: int
  wf_shutdown_grace_seconds :: int

record auth_fields =
  af_jwt_secret :: string
  af_rate_limit_secret :: string
  af_trusted_origins :: "string list"
  af_cookie_secure :: bool
  af_refresh_cookie_path :: string
  af_jwt_issuer :: string
  af_jwt_audience :: string
  af_access_seconds :: int
  af_session_seconds :: int

record settings =
  set_database_url :: string
  set_environment :: string
  set_database_echo :: bool
  set_monitoring_enabled :: bool
  set_redis_operation_budget_ms :: int
  set_redis_max_connections :: int
  set_redis_test_namespace :: string
  set_worker :: worker_fields
  set_auth :: auth_fields

text \<open>\<open>Field(gt=0, le=n)\<close> of the worker's numbers.\<close>

definition in_bounds :: "int \<Rightarrow> int \<Rightarrow> bool" where
  "in_bounds x n = (0 < x \<and> x \<le> n)"

definition worker_fields_ok :: "worker_fields \<Rightarrow> bool" where
  "worker_fields_ok w =
     (in_bounds (wf_redis_operation_budget_ms w) 10000 \<and> in_bounds (wf_redis_block_ms w) 9000
    \<and> in_bounds (wf_redis_max_connections w) 100 \<and> in_bounds (wf_claim_batch_size w) 100
    \<and> in_bounds (wf_relay_concurrency w) 16 \<and> in_bounds (wf_claim_lease_seconds w) 600
    \<and> in_bounds (wf_recovery_scan_interval_ms w) 60000 \<and> in_bounds (wf_recovery_batch_size w) 100
    \<and> in_bounds (wf_republish_stall_seconds w) 3600 \<and> in_bounds (wf_pending_idle_ms w) 3600000
    \<and> in_bounds (wf_infra_backoff_initial_ms w) 30000 \<and> in_bounds (wf_infra_backoff_max_ms w) 300000
    \<and> in_bounds (wf_max_attempts w) 100 \<and> in_bounds (wf_shutdown_grace_seconds w) 120)"

definition default_worker_fields :: worker_fields where
  "default_worker_fields = \<lparr>wf_redis_operation_budget_ms = 2000, wf_redis_block_ms = 1000,
     wf_redis_max_connections = 8, wf_claim_batch_size = 10, wf_relay_concurrency = 2,
     wf_claim_lease_seconds = 30, wf_recovery_scan_interval_ms = 1500, wf_recovery_batch_size = 10,
     wf_republish_stall_seconds = 60, wf_pending_idle_ms = 60000, wf_infra_backoff_initial_ms = 1000,
     wf_infra_backoff_max_ms = 30000, wf_max_attempts = 8, wf_shutdown_grace_seconds = 10\<rparr>"

section \<open>URLs\<close>

text \<open>
  \<open>urllib.parse.urlsplit\<close> on ASCII. The check of a bracketed host, an IP address, is the parameter
  \<open>bracketed\<close>; \<open>None\<close> stands for its \<open>ValueError\<close>.
\<close>

record split_url =
  su_scheme :: string
  su_netloc :: string
  su_path :: string
  su_query :: string
  su_fragment :: string

definition is_url_space :: "char \<Rightarrow> bool" where
  "is_url_space c = ((of_char c :: nat) \<le> 32)"

definition is_alpha_char :: "char \<Rightarrow> bool" where
  "is_alpha_char c = (let n = of_char c :: nat in (65 \<le> n \<and> n \<le> 90) \<or> (97 \<le> n \<and> n \<le> 122))"

definition is_scheme_char :: "char \<Rightarrow> bool" where
  "is_scheme_char c = (is_alnum_char c \<or> c = CHR ''+'' \<or> c = CHR ''-'' \<or> c = CHR ''.'')"

definition split_at :: "char \<Rightarrow> string \<Rightarrow> string \<times> string" where
  "split_at c s = (takeWhile (\<lambda>x. x \<noteq> c) s, drop 1 (dropWhile (\<lambda>x. x \<noteq> c) s))"

definition split_scheme :: "string \<Rightarrow> string \<times> string" where
  "split_scheme s = (case split_at (CHR '':'') s of (scheme, rest) \<Rightarrow>
     if CHR '':'' \<in> set s \<and> scheme \<noteq> [] \<and> is_alpha_char (hd scheme) \<and> list_all is_scheme_char scheme
     then (py_casefold scheme, rest) else ([], s))"

definition split_netloc :: "string \<Rightarrow> string \<times> string" where
  "split_netloc s = (if take 2 s = ''//''
     then (let ends = (\<lambda>x. x \<noteq> CHR ''/'' \<and> x \<noteq> CHR ''?'' \<and> x \<noteq> CHR ''#'') in
       (takeWhile ends (drop 2 s), dropWhile ends (drop 2 s)))
     else ([], s))"

definition urlsplit :: "(string \<Rightarrow> bool) \<Rightarrow> string \<Rightarrow> split_url option" where
  "urlsplit bracketed url =
     (let cleaned = filter (\<lambda>c. (of_char c :: nat) \<notin> {9, 10, 13}) (dropWhile is_url_space url);
          (scheme, s1) = split_scheme cleaned; (netloc, s2) = split_netloc s1;
          (s3, fragment) = split_at (CHR ''#'') s2; (path, query) = split_at (CHR ''?'') s3;
          opened = CHR ''['' \<in> set netloc; closed = CHR '']'' \<in> set netloc
      in if opened \<noteq> closed \<or> opened \<and> \<not> bracketed netloc then None
         else Some \<lparr>su_scheme = scheme, su_netloc = netloc, su_path = path, su_query = query,
           su_fragment = fragment\<rparr>)"

text \<open>\<open>url.username\<close> is not empty: there is an \<open>@\<close>, and something before the first colon of what precedes it.\<close>

definition has_username :: "string \<Rightarrow> bool" where
  "has_username netloc = (CHR ''@'' \<in> set netloc
     \<and> fst (split_at (CHR '':'') (rev (drop 1 (dropWhile (\<lambda>x. x \<noteq> CHR ''@'') (rev netloc))))) \<noteq> [])"

definition exact_origin :: "(string \<Rightarrow> bool) \<Rightarrow> string \<Rightarrow> bool" where
  "exact_origin bracketed origin = (case urlsplit bracketed origin of
      None \<Rightarrow> False
    | Some url \<Rightarrow> su_scheme url \<in> set [''http'', ''https''] \<and> su_netloc url \<noteq> [] \<and> su_path url = []
        \<and> su_query url = [] \<and> su_fragment url = [] \<and> \<not> has_username (su_netloc url)
        \<and> CHR ''*'' \<notin> set origin)"

section \<open>Validators\<close>

definition is_placeholder :: "string \<Rightarrow> bool" where
  "is_placeholder secret = list_ex (\<lambda>p. starts_with p (py_casefold secret))
     [''replace'', ''change'', ''example'', ''placeholder'']"

definition validate_secret :: "string \<Rightarrow> unit result" where
  "validate_secret secret =
     raise_if (length secret < 32) (ValueError ''Auth secrets must contain at least 32 bytes'') (
     raise_if (is_placeholder secret) (ValueError ''Generate real auth secrets; placeholders are forbidden'') (
     Inr ()))"

definition validate_origins :: "(string \<Rightarrow> bool) \<Rightarrow> auth_fields \<Rightarrow> unit result" where
  "validate_origins bracketed a =
     raise_if (af_trusted_origins a = []) (ValueError ''At least one exact trusted origin is required'') (
     raise_if (\<not> list_all (exact_origin bracketed) (af_trusted_origins a))
       (ValueError ''Trusted origins must be exact HTTP(S) origins'') (Inr ()))"

text \<open>The rounds a relay batch takes under its concurrency, each bounded by one command deadline.\<close>

definition claim_waves :: "worker_fields \<Rightarrow> int" where
  "claim_waves w = (wf_claim_batch_size w + wf_relay_concurrency w - 1) div wf_relay_concurrency w"

text \<open>
  \<open>network_seconds\<close> is a float: the division and the product round to the nearest double, ties to even.
  \<open>to_double\<close> rounds a number between \<open>1/1000\<close> and \<open>2 ^ 52\<close>: it is scaled by the least power of two
  that gives it 53 bits.
\<close>

definition round_even :: "rat \<Rightarrow> int" where
  "round_even x = (let n = \<lfloor>x\<rfloor>; d = x - of_int n in
     if d < 1/2 \<or> d = 1/2 \<and> even n then n else n + 1)"

definition double_scale :: "rat \<Rightarrow> nat" where
  "double_scale x = (case find (\<lambda>e. 2 ^ 52 \<le> x * 2 ^ e) [0..<64] of Some e \<Rightarrow> e | None \<Rightarrow> 0)"

definition to_double :: "rat \<Rightarrow> rat" where
  "to_double x = of_int (round_even (x * 2 ^ double_scale x)) / 2 ^ double_scale x"

definition batch_deadline :: "worker_fields \<Rightarrow> rat" where
  "batch_deadline w =
     to_double (to_double (of_int (wf_redis_operation_budget_ms w) / 1000) * of_int (claim_waves w))"

definition validate_worker :: "worker_fields \<Rightarrow> unit result" where
  "validate_worker w =
     raise_if (wf_redis_block_ms w \<ge> wf_redis_operation_budget_ms w)
       (ValueError ''Worker Redis blocking reads must fit inside its command deadline'') (
     raise_if (wf_infra_backoff_max_ms w < wf_infra_backoff_initial_ms w)
       (ValueError ''Worker maximum outage backoff cannot be below its initial backoff'') (
     raise_if (of_int (wf_claim_lease_seconds w) < batch_deadline w)
       (ValueError ''Worker claim lease must cover the bounded relay batch deadline'') (Inr ())))"

definition validate_auth :: "(string \<Rightarrow> bool) \<Rightarrow> settings \<Rightarrow> unit result" where
  "validate_auth bracketed s = (let a = set_auth s in
     bindR (validate_secret (af_jwt_secret a)) (\<lambda>_.
     bindR (validate_secret (af_rate_limit_secret a)) (\<lambda>_.
     raise_if (af_jwt_secret a = af_rate_limit_secret a) (ValueError ''Auth secrets must be distinct'') (
     raise_if (py_strip (af_jwt_issuer a) = [] \<or> py_strip (af_jwt_audience a) = [])
       (ValueError ''JWT issuer and audience cannot be empty'') (
     raise_if (af_access_seconds a > af_session_seconds a)
       (ValueError ''Access lifetime cannot exceed absolute session lifetime'') (
     bindR (validate_origins bracketed a) (\<lambda>_.
     raise_if (set_environment s = ''production'' \<and> (\<not> af_cookie_secure a \<or> set_database_echo s
         \<or> \<not> list_all (starts_with ''https://'') (af_trusted_origins a)))
       (ValueError ''Production requires secure cookies, HTTPS origins and disabled SQL echo'') (
     raise_if (set_monitoring_enabled s \<and> set_database_echo s)
       (ValueError ''Monitoring requires disabled SQL echo'') (
     validate_worker (set_worker s))))))))))"

text \<open>The pattern \<open>(?:/[A-Za-z0-9_-]+)*/auth\<close>.\<close>

fun path_segments :: "string \<Rightarrow> string \<Rightarrow> bool" where
  "path_segments seg [] = (seg = ''auth'')"
| "path_segments seg (c # cs) =
     (if c = CHR ''/'' then seg \<noteq> [] \<and> path_segments [] cs
      else is_key_char c \<and> path_segments (seg @ [c]) cs)"

definition refresh_cookie_path_ok :: "string \<Rightarrow> bool" where
  "refresh_cookie_path_ok p = (case p of [] \<Rightarrow> False | c # cs \<Rightarrow> c = CHR ''/'' \<and> path_segments [] cs)"

definition database_url_ok :: "string \<Rightarrow> bool" where
  "database_url_ok url = starts_with ''postgresql+asyncpg://'' url"

definition redis_test_namespace_ok :: "string \<Rightarrow> bool" where
  "redis_test_namespace_ok n = (1 \<le> length n \<and> length n \<le> 80 \<and> list_all is_key_char n)"

definition normalize_environment :: "string \<Rightarrow> string" where
  "normalize_environment v = py_casefold v"

text \<open>Building the settings: the environment is normalised, then fields and the whole are checked.\<close>

definition validate_settings :: "(string \<Rightarrow> bool) \<Rightarrow> settings \<Rightarrow> unit result" where
  "validate_settings bracketed s =
     raise_if (normalize_environment (set_environment s) \<notin> set [''development'', ''test'', ''production'']) (ValueError ''environment'') (
     raise_if (\<not> database_url_ok (set_database_url s)) (ValueError ''DATABASE_URL must use postgresql+asyncpg'') (
     raise_if (\<not> in_bounds (set_redis_operation_budget_ms s) 100 \<or> \<not> in_bounds (set_redis_max_connections s) 1000)
       (ValueError ''redis'') (
     raise_if (\<not> redis_test_namespace_ok (set_redis_test_namespace s))
       (ValueError ''Redis test namespace must be a safe opaque identifier'') (
     raise_if (\<not> worker_fields_ok (set_worker s)) (ValueError ''event_worker'') (
     raise_if (\<not> (0 < af_access_seconds (set_auth s) \<and> 0 < af_session_seconds (set_auth s))) (ValueError ''auth'') (
     raise_if (\<not> refresh_cookie_path_ok (af_refresh_cookie_path (set_auth s)))
       (ValueError ''Refresh cookie path must be /auth or a gateway prefix ending in /auth'') (
     validate_auth bracketed (s\<lparr>set_environment := normalize_environment (set_environment s)\<rparr>))))))))"

text \<open>What the worker's loops read from the settings.\<close>

definition worker_settings_of :: "worker_fields \<Rightarrow> worker_settings" where
  "worker_settings_of w =
     \<lparr>wk_backoff = \<lparr>bo_initial_ms = wf_infra_backoff_initial_ms w, bo_max_ms = wf_infra_backoff_max_ms w\<rparr>,
      wk_max_attempts = wf_max_attempts w, wk_claim_batch = nat (wf_claim_batch_size w),
      wk_claim_lease_seconds = wf_claim_lease_seconds w,
      wk_republish_stall_seconds = wf_republish_stall_seconds w,
      wk_recovery_batch = nat (wf_recovery_batch_size w),
      wk_scan_interval_ms = wf_recovery_scan_interval_ms w,
      wk_redis_budget_ms = wf_redis_operation_budget_ms w, wk_redis_block_ms = wf_redis_block_ms w,
      wk_pending_idle_ms = wf_pending_idle_ms w\<rparr>"

section \<open>Validated settings\<close>

lemma ceiling_division:
  assumes "0 < n"
  shows "(b :: int) \<le> n * ((b + n - 1) div n)"
proof -
  have "n * ((b + n - 1) div n) + (b + n - 1) mod n = b + n - 1" by (rule mult_div_mod_eq)
  moreover have "(b + n - 1) mod n < n" using assms by (rule pos_mod_bound)
  ultimately show ?thesis by linarith
qed

lemma round_even_error: "\<bar>of_int (round_even x) - x\<bar> \<le> 1/2"
proof -
  have "of_int \<lfloor>x\<rfloor> \<le> x" "x < of_int \<lfloor>x\<rfloor> + 1" by linarith+
  then show ?thesis unfolding round_even_def Let_def by (auto simp only: abs_le_iff of_int_add of_int_1 split: if_splits)
qed

lemma double_scale_enough:
  assumes "1/2000 \<le> x"
  shows "2 ^ 52 \<le> x * 2 ^ double_scale x"
proof -
  let ?P = "\<lambda>e. 2 ^ 52 \<le> x * 2 ^ e"
  have "(2 ^ 52 :: rat) \<le> 1/2000 * 2 ^ 63" by simp
  also have "\<dots> \<le> x * 2 ^ 63" using assms by (intro mult_right_mono) auto
  finally have "?P 63" .
  then have "\<exists>e\<in>set [0..<64]. ?P e" by (rule bexI) simp
  then have "find ?P [0..<64] \<noteq> None" unfolding find_None_iff by blast
  then obtain e where e: "find ?P [0..<64] = Some e" by blast
  then have "?P e" by (auto simp: find_Some_iff)
  then show ?thesis unfolding double_scale_def e by simp
qed

lemma to_double_error:
  assumes "1/2000 \<le> x"
  shows "x - x / 2 ^ 53 \<le> to_double x"
proof -
  define k :: rat where "k = 2 ^ double_scale x"
  have k: "0 < k" "2 ^ 52 \<le> x * k" using double_scale_enough [OF assms] by (simp_all add: k_def)
  have "x * k - 1/2 \<le> of_int (round_even (x * k))" using round_even_error [of "x * k"] by linarith
  moreover have "x * k / 2 ^ 53 \<ge> 1/2" using k(2) by simp
  ultimately have "x * k - x * k / 2 ^ 53 \<le> of_int (round_even (x * k))" by linarith
  then have "(x - x / 2 ^ 53) * k \<le> of_int (round_even (x * k))" by (simp add: algebra_simps)
  then show ?thesis using k(1) by (simp add: to_double_def k_def pos_le_divide_eq)
qed

text \<open>Rounding does not let a batch outlast its lease: whole milliseconds are too coarse for that.\<close>

lemma rounded_deadline:
  fixes b n l :: int
  assumes b: "1 \<le> b" "b \<le> 10000" and n: "1 \<le> n" "n \<le> 100"
    and l: "to_double (to_double (of_int b / 1000) * of_int n) \<le> of_int l"
  shows "b * n \<le> 1000 * l"
proof (rule ccontr)
  define x y r :: rat where "x = of_int b / 1000" and "y = of_int n" and "r = 1 - 1 / 2 ^ 53"
  assume "\<not> b * n \<le> 1000 * l"
  then have "1000 * l + 1 \<le> b * n" by simp
  then have "(of_int (1000 * l + 1) :: rat) \<le> of_int (b * n)" by (simp only: of_int_le_iff)
  then have above: "of_int l + 1 / 1000 \<le> x * y" by (simp add: x_def y_def)
  have x: "1/1000 \<le> x" "x \<le> 10" and y: "1 \<le> y" "y \<le> 100" using b n by (simp_all add: x_def y_def)
  have xy: "x * y \<le> 1000" using mult_mono [of x 10 y 100] x y by simp
  have dx: "x * r \<le> to_double x" using to_double_error [of x] x(1) by (simp add: r_def algebra_simps)
  have "1/2000 \<le> 1/1000 * r" by (simp add: r_def)
  also have "\<dots> \<le> x * r * y"
    using mult_mono [of "1/1000 * r" "x * r" 1 y] x y by (simp add: r_def)
  also have "\<dots> \<le> to_double x * y" using dx y by (intro mult_right_mono) auto
  finally have big: "1/2000 \<le> to_double x * y" .
  have "x * y * (r * r) = x * r * y * r" by simp
  also have "\<dots> \<le> to_double x * y * r" using dx y by (intro mult_right_mono) (auto simp: r_def)
  also have "\<dots> \<le> to_double (to_double x * y)"
    using to_double_error [OF big] by (simp add: r_def algebra_simps)
  also have "\<dots> \<le> of_int l" using l by (simp add: x_def y_def)
  finally have "x * y * (r * r) \<le> of_int l" .
  moreover have "x * y * (1 - r * r) \<le> 1000 * (1 - r * r)" using xy by (intro mult_right_mono) (auto simp: r_def)
  moreover have "1000 * (1 - r * r) < 1 / 1000" by (simp add: r_def)
  ultimately show False using above by (simp add: algebra_simps)
qed

lemma ceiling_division_bounds:
  assumes "0 < b" "b \<le> (100 :: int)" "0 < n"
  shows "1 \<le> (b + n - 1) div n \<and> (b + n - 1) div n \<le> 100"
proof
  show "1 \<le> (b + n - 1) div n" using assms zdiv_mono1 [of n "b + n - 1" n] by simp
  have "b - 1 \<le> (b - 1) * n" using assms mult_left_mono [of 1 n "b - 1"] by simp
  then have "b + n - 1 \<le> b * n" by (simp add: algebra_simps)
  then have "(b + n - 1) div n \<le> (b * n) div n" using assms by (intro zdiv_mono1)
  then show "(b + n - 1) div n \<le> 100" using assms by simp
qed

text \<open>
  Validated settings give a worker the bounds its properties assume, a block time within its command
  deadline, an accepted retry policy, and a lease that covers all publications of a batch even if each
  takes its whole deadline.
\<close>

theorem validated_worker:
  assumes "validate_settings bracketed s = Inr ()" and "w = set_worker s" and "cfg = worker_settings_of w"
  shows "0 < wk_recovery_batch cfg \<and> 0 < wk_claim_batch cfg
    \<and> 0 < initial_backoff cfg \<and> initial_backoff cfg \<le> bo_max_ms (wk_backoff cfg)
    \<and> 0 < wk_redis_block_ms cfg \<and> wk_redis_block_ms cfg < wk_redis_budget_ms cfg
    \<and> retry_policy_ok (wk_max_attempts cfg)
    \<and> int (wk_claim_batch cfg) \<le> wf_relay_concurrency w * claim_waves w
    \<and> wk_redis_budget_ms cfg * claim_waves w \<le> 1000 * wk_claim_lease_seconds cfg"
proof -
  have ok: "worker_fields_ok w" "validate_worker w = Inr ()"
    using assms(1,2) by (auto simp: validate_settings_def validate_auth_def res_simps Let_def)
  have waves: "1 \<le> claim_waves w" "claim_waves w \<le> 100"
    using ceiling_division_bounds [of "wf_claim_batch_size w" "wf_relay_concurrency w"] ok(1)
    by (auto simp: claim_waves_def worker_fields_ok_def in_bounds_def)
  have "wf_redis_operation_budget_ms w * claim_waves w \<le> 1000 * wf_claim_lease_seconds w"
    using ok waves by (intro rounded_deadline)
      (auto simp: worker_fields_ok_def in_bounds_def validate_worker_def batch_deadline_def res_simps)
  then show ?thesis
    using ok ceiling_division [of "wf_relay_concurrency w" "wf_claim_batch_size w"]
    by (auto simp: assms(3) worker_settings_of_def worker_fields_ok_def in_bounds_def validate_worker_def
        res_simps claim_waves_def retry_policy_ok_def)
qed

lemma default_worker_valid:
  "worker_fields_ok default_worker_fields \<and> validate_worker default_worker_fields = Inr ()"
  by code_simp

definition default_auth_fields :: "string \<Rightarrow> string \<Rightarrow> auth_fields" where
  "default_auth_fields jwt limiter = \<lparr>af_jwt_secret = jwt, af_rate_limit_secret = limiter,
     af_trusted_origins = [''http://localhost:3000''], af_cookie_secure = False,
     af_refresh_cookie_path = ''/auth'', af_jwt_issuer = ''restaurantos'',
     af_jwt_audience = ''restaurantos-browser'', af_access_seconds = 600, af_session_seconds = 604800\<rparr>"

definition default_settings :: "string \<Rightarrow> string \<Rightarrow> string \<Rightarrow> settings" where
  "default_settings url jwt limiter = \<lparr>set_database_url = url, set_environment = ''development'',
     set_database_echo = False, set_monitoring_enabled = False, set_redis_operation_budget_ms = 100,
     set_redis_max_connections = 20, set_redis_test_namespace = ''test'',
     set_worker = default_worker_fields, set_auth = default_auth_fields jwt limiter\<rparr>"

text \<open>The three settings without a default suffice to build the settings.\<close>

lemma default_settings_valid:
  "validate_settings (\<lambda>_. False) (default_settings ''postgresql+asyncpg://localhost/db''
     ''0123456789012345678901234567890a'' ''0123456789012345678901234567890b'') = Inr ()"
  by code_simp

end
