(* ===== verification/Spec2Isabelle.thy ===== *)
theory Spec2Isabelle
  imports Restaurants Order_Retries Delivery_Properties Menu_Cache Auth_Requests Worker_Relay Dashboard Maintenance
    Configuration
begin

text \<open>
  A verification development of the RestaurantOS backend. Paths below are relative to
  \<open>src/backend/app\<close>, those of the business modules to \<open>src/backend/app/modules\<close>.

  \<^bold>\<open>The program.\<close> An HTTP API lets the members of an organization run its restaurants: catalog, recipes,
  inventory, orders, dashboards. Each use case is a method of a service, one database transaction that
  checks the caller's access (\<open>tenancy/access.py\<close>), changes rows, stages an audit entry and appends events to
  an outbox table, with one delivery row per subscribed consumer. A separate worker process relays the
  deliveries as references over a Redis stream to three consumer groups, which project the events into
  analytics, alerts and notifications, each effect in one transaction with its receipt. Redis also backs
  the menu cache and the login rate limiter; both must survive its absence.

  \<^bold>\<open>The database.\<close> \<open>Schema\<close> declares one record per table and the record \<open>db\<close> with all of them; a table is
  the list of its rows in insertion order (\<open>Prelude\<close>). A service method is a function from its arguments
  and the \<open>db\<close> before to an error or the result with the \<open>db\<close> after (\<open>'a result\<close>): an error is a transaction
  rolled back. The current time, fresh identities, the caller and the request's correlation come in an
  \<open>invocation\<close>; identities are counters of the state. Row locks order transactions, so a transaction is
  one step; rows that others hold locked (\<open>skip_locked\<close>) are an argument where the code skips them.
  Decimals are rationals with the code's bounds on digits, instants are microseconds, dates are day
  numbers, text is ASCII.

  \<^bold>\<open>Business modules.\<close>
  \<^item> \<open>Tenancy_Policies\<close>, \<open>Access\<close>, \<open>Tenancy\<close> (\<open>tenancy/\<close>): roles and capabilities, the access context of a
    request, organizations, memberships and the last-owner rule. \<open>Audit_Trail\<close> (\<open>audit/\<close>),
    \<open>Restaurants\<close> (\<open>restaurants/\<close>).
  \<^item> \<open>Inventory_Domain\<close>, \<open>Inventory\<close> (\<open>inventory/\<close>): quantities, stock commands, the movement ledger,
    low-stock episodes. \<open>Inventory_Ledger\<close> and \<open>Inventory_Commands\<close> prove that balances are the replay of
    their movements, that episodes follow the low state, and that retries are idempotent.
    \<open>Recipes\<close> (\<open>recipes/\<close>): recipes and the availability they give.
  \<^item> \<open>Order_Policies\<close>, \<open>Orders\<close> (\<open>orders/\<close>): creation with idempotency keys, the lifecycle, stock consumption
    on acceptance. \<open>Order_Stock\<close>, \<open>Order_Lifecycle\<close>, \<open>Order_Properties\<close>, \<open>Order_Retries\<close> hold their proofs,
    over the step relation \<open>kitchen_step\<close> that interleaves order, recipe and inventory commands.
  \<^item> \<open>Catalog\<close> (\<open>catalog/service.py\<close>): menus and items with their ordered change events. \<open>Redis_Adapter\<close>
    (\<open>redis/\<close>) and \<open>Menu_Cache\<close> (\<open>catalog/menu_cache.py\<close>): the cached lists, the circuit breaker with its
    single probe, shared fills.
  \<^item> \<open>Dashboard\<close> (\<open>analytics/service.py\<close>, \<open>analytics/repo/queries.py\<close>): the figures of a restaurant.

  \<^bold>\<open>Events.\<close>
  \<^item> \<open>Event_Contracts\<close> (\<open>events/domain\<close>): event types, payload validation, serialization, subscriptions,
    retry delays. \<open>Outbox\<close> (\<open>events/service.py\<close>): the append and its fan-out.
  \<^item> \<open>Delivery\<close> (\<open>events/execution.py\<close>): claiming an attempt under a lease, the effect with its receipt,
    failures, settlement, recovery. \<open>Relay\<close> (\<open>events/repo/worker_queries.py\<close>, \<open>events/operator.py\<close>): the
    relay's claims and observations, backlog, operator reads and replay. \<open>Delivery_Steps\<close> is the state
    machine of any number of workers, each free to act late on a claim it once had; \<open>Delivery_Fencing\<close> its
    invariant; \<open>Delivery_Execution\<close> and \<open>Delivery_Properties\<close> what follows.
  \<^item> \<open>Analytics\<close>, \<open>Analytics_Rebuild\<close>, \<open>Alerts\<close>, \<open>Notifications\<close>: the three effects, reads and rebuilds.
    \<open>Consumers\<close> plugs them into the delivery machinery. \<open>Maintenance\<close> (\<open>events/maintenance.py\<close>):
    initialization and rebuild of a restaurant's scope.
  \<^item> \<open>Worker_Streams\<close> (\<open>events/worker/redis.py\<close>, \<open>streams.py\<close>): the worker's transport, reply parsers and
    stream operations, as operations that may fail, with a logic of triples for them. \<open>Worker_Runtime\<close> and
    \<open>Worker_Consumer\<close> (\<open>events/worker/runtime.py\<close>): one iteration of the relay, recovery and consumer loops.
    \<open>Worker_Relay\<close>, \<open>Worker_Recovery\<close>: what the loops achieve.

  \<^bold>\<open>Authentication.\<close> \<open>Auth_Sessions\<close> (\<open>auth/service.py\<close>, \<open>auth/repo\<close>, \<open>auth/cli.py\<close>): accounts, sessions,
  refresh rotation with replay detection, over the step relation \<open>auth_step\<close>. \<open>Rate_Limit\<close> and \<open>Rate_Scripts\<close>
  (\<open>auth/rate_limit.py\<close>): the limiter's local tables and degraded mode, and its two Redis scripts.
  \<open>Auth_Requests\<close> (\<open>auth/router.py\<close>, \<open>http/auth_middleware.py\<close>): requests, cookies, the HTTP boundary.
  \<open>Python_Text\<close>: parsing of integers and UUIDs. \<open>Configuration\<close> (\<open>core/config.py\<close>): the validated settings
  and what they guarantee a worker.

  \<^bold>\<open>Interfaces.\<close> \<open>repository\<close> (a keyed table with its save operation), \<open>step_invariant\<close> and
  \<open>step_monotone\<close> (invariants of a step relation along its runs) are locales of \<open>Prelude\<close>, interpreted for
  every repository and state machine. \<open>consumer_effects\<close> is the contract between the execution service and
  a consumer: an effect leaves the delivery tables alone. \<open>Consumers\<close> interprets it with the deployed
  registry, so its lemmas hold of the three effects.

  \<^bold>\<open>What is shown.\<close> Acceptance consumes exactly the recipes, once, and nothing else moves stock; orders only
  move forward and retries find their first outcome; ledgers, episodes and events agree. Every appended
  event reads back as itself and fans out exactly; effects commit exactly once and are fenced;
  references are acknowledged only for durable outcomes, published only when the stream has them, and
  republished after the stream was lost; every due delivery is processed and every expired claim recovered.
  Projections agree with their sources however events are ordered or repeated. Cached menus are recent;
  refresh tokens rotate and revocation is final; counted failures stay and local limits hold; an
  organization keeps an owner.

  \<^bold>\<open>Bounds.\<close> No definition uses fuel: loops over rows are structural, and the worker's endless loops are
  modelled by their iterations, with runs of any length (\<open>consumer_run\<close>, \<open>recovery_run\<close>, \<open>worker_pass\<close>).

  \<^bold>\<open>Parameters.\<close> Code outside the repository is an argument: the Redis server with its documented laws
  (\<open>zset_laws\<close>, \<open>stream_laws\<close>, \<open>append_laws\<close>), the JSON codec, the digests, password hashing and JWT
  signatures of \<open>auth_env\<close>. The surroundings of a worker iteration, other processes, failing
  calls, clocks, are the \<open>environment\<close>.

  \<^bold>\<open>Not modelled.\<close> The HTTP routers, request logging and observability middleware, which parse, wire and
  measure; telemetry, logging and metrics, which no behaviour depends on; the start and stop of the
  worker's tasks and its metrics loop; settings of monitoring and of database and Redis connections; database sessions and the engine; schema
  migrations, operational scripts, benchmarks and the frontend. Concurrency inside a batch of publications is
  run in one order; where a query leaves the order of its rows open, rows come in insertion order.
\<close>

end
